(* ===== verification/Prelude.thy ===== *)
theory Prelude
  imports Main "HOL-Library.Word" "HOL-Library.Monad_Syntax" "HOL-Library.Signed_Division"
begin

text \<open>
  Shared vocabulary of the development: the C integer types, the two ways a C expression can go
  wrong (a signed overflow and a memory access outside an object), byte buffers with
  \<^verbatim>\<open>memcpy\<close>, and the generic list lemmas the component theories rely on.

  A model of a C function returns \<open>'a option\<close>: \<open>None\<close> stands for undefined behaviour (an access
  outside the object, a null dereference, a signed overflow, a division by zero) or, where a loop
  is a \<^theory_text>\<open>partial_function\<close>, for a loop that does not end. Error codes that the C function
  \<^emph>\<open>returns\<close> are ordinary values, so "the function is safe" is the statement that its model is
  \<open>Some\<close>.
\<close>

unbundle bit_operations_syntax

section \<open>Types and collections\<close>

type_synonym u8 = "8 word"
type_synonym u16 = "16 word"
type_synonym u32 = "32 word"
type_synonym u64 = "64 word"
type_synonym bytes = "u8 list"

type_synonym ptr = "nat option"

abbreviation NULL :: ptr where
  "NULL \<equiv> None"

named_theorems cint_simps \<open>evaluation of checked integer operations\<close>
named_theorems mem_simps \<open>evaluation of checked memory operations\<close>

section \<open>Signed C integers\<close>

definition INT_MAX :: int where
  "INT_MAX = 2147483647"

definition INT_MIN :: int where
  "INT_MIN = - 2147483648"

definition cint :: "int \<Rightarrow> int option" where
  \<comment> \<open>the value of a signed 32-bit expression; overflow is undefined behaviour\<close>
  "cint i = (if INT_MIN \<le> i \<and> i \<le> INT_MAX then Some i else None)"

definition cmod :: "int \<Rightarrow> int \<Rightarrow> int option" where
  \<comment> \<open>C's \<open>%\<close>: truncated, undefined for a zero divisor and for \<open>INT_MIN % -1\<close>\<close>
  "cmod a b = (if b = 0 \<or> (a = INT_MIN \<and> b = -1) then None else Some (a smod b))"

lemma cint_Some [cint_simps]: "INT_MIN \<le> i \<Longrightarrow> i \<le> INT_MAX \<Longrightarrow> cint i = Some i"
  by (simp add: cint_def)

lemma cint_nonneg [cint_simps]: "0 \<le> i \<Longrightarrow> i \<le> INT_MAX \<Longrightarrow> cint i = Some i"
  by (simp add: cint_def INT_MIN_def)

lemma cint_SomeD: "cint i = Some j \<Longrightarrow> j = i \<and> INT_MIN \<le> i \<and> i \<le> INT_MAX"
  by (simp add: cint_def split: if_splits)

lemma cmod_nonneg [cint_simps]:
  assumes "0 \<le> a" and "0 < b"
  shows "cmod a b = Some (a mod b)"
proof -
  have "a smod b = a mod b"
    using assms by (simp add: smod_mod_positive)
  then show ?thesis
    using assms by (simp add: cmod_def)
qed

section \<open>Unsigned sizes\<close>

text \<open>\<^verbatim>\<open>size_t\<close> is 64 bits wide; a \<open>nat\<close> below \<open>2 ^ 64\<close> with the wrap-around written out.\<close>

definition sz_add :: "nat \<Rightarrow> nat \<Rightarrow> nat" where
  "sz_add a b = (a + b) mod 2 ^ 64"

definition sz_sub :: "nat \<Rightarrow> nat \<Rightarrow> nat" where
  "sz_sub a b = (a + (2 ^ 64 - b mod 2 ^ 64)) mod 2 ^ 64"

definition sz_mul :: "nat \<Rightarrow> nat \<Rightarrow> nat" where
  "sz_mul a b = (a * b) mod 2 ^ 64"

lemma sz_add_small [cint_simps]: "a + b < 2 ^ 64 \<Longrightarrow> sz_add a b = a + b"
  by (simp add: sz_add_def)

lemma sz_mul_small [cint_simps]: "a * b < 2 ^ 64 \<Longrightarrow> sz_mul a b = a * b"
  by (simp add: sz_mul_def)

lemma sz_sub_small [cint_simps]:
  assumes "b \<le> a" and "a < 2 ^ 64"
  shows "sz_sub a b = a - b"
proof -
  have "a + (2 ^ 64 - b mod 2 ^ 64) = (a - b) + 2 ^ 64"
    using assms by simp
  then have "sz_sub a b = ((a - b) + 2 ^ 64) mod 2 ^ 64"
    by (simp only: sz_sub_def)
  also have "\<dots> = a - b"
    using assms(2) by (simp only: mod_add_self2, intro mod_less) simp
  finally show ?thesis .
qed

section \<open>Byte buffers\<close>

definition mem_read :: "'a list \<Rightarrow> int \<Rightarrow> nat \<Rightarrow> 'a list option" where
  \<comment> \<open>\<open>n\<close> cells from offset \<open>off\<close>; \<open>None\<close> when any of them is outside the object\<close>
  "mem_read buf off n =
     (if 0 \<le> off \<and> nat off + n \<le> length buf then Some (take n (drop (nat off) buf)) else None)"

definition blit :: "'a list \<Rightarrow> nat \<Rightarrow> 'a list \<Rightarrow> 'a list" where
  "blit buf off src = take off buf @ src @ drop (off + length src) buf"

definition mem_write :: "'a list \<Rightarrow> int \<Rightarrow> 'a list \<Rightarrow> 'a list option" where
  \<comment> \<open>\<open>memcpy\<close> of \<open>src\<close> to offset \<open>off\<close>; \<open>None\<close> when the destination leaves the object\<close>
  "mem_write buf off src =
     (if 0 \<le> off \<and> nat off + length src \<le> length buf then Some (blit buf (nat off) src) else None)"

definition arr_get :: "'a list \<Rightarrow> int \<Rightarrow> 'a option" where
  "arr_get xs i = (if 0 \<le> i \<and> nat i < length xs then Some (xs ! nat i) else None)"

definition arr_set :: "'a list \<Rightarrow> int \<Rightarrow> 'a \<Rightarrow> 'a list option" where
  "arr_set xs i v = (if 0 \<le> i \<and> nat i < length xs then Some (xs[nat i := v]) else None)"

lemma mem_read_nat [mem_simps]:
  "o1 + n \<le> length buf \<Longrightarrow> mem_read buf (int o1) n = Some (take n (drop o1 buf))"
  by (simp add: mem_read_def)

lemma mem_write_nat [mem_simps]:
  "o1 + length src \<le> length buf \<Longrightarrow> mem_write buf (int o1) src = Some (blit buf o1 src)"
  by (simp add: mem_write_def)

lemma arr_get_nat [mem_simps]: "i < length xs \<Longrightarrow> arr_get xs (int i) = Some (xs ! i)"
  by (simp add: arr_get_def)

lemma arr_set_nat [mem_simps]: "i < length xs \<Longrightarrow> arr_set xs (int i) v = Some (xs[i := v])"
  by (simp add: arr_set_def)

lemma length_blit [simp]: "o1 + length src \<le> length buf \<Longrightarrow> length (blit buf o1 src) = length buf"
  by (simp add: blit_def)

lemma nth_blit:
  assumes "o1 + length src \<le> length buf" and "i < length buf"
  shows "blit buf o1 src ! i = (if o1 \<le> i \<and> i < o1 + length src then src ! (i - o1) else buf ! i)"
  using assms by (auto simp: blit_def nth_append)

subsection \<open>Buffers as arrays of fixed-size slots\<close>

definition slot :: "'a list \<Rightarrow> nat \<Rightarrow> nat \<Rightarrow> 'a list" where
  "slot buf es i = take es (drop (i * es) buf)"

lemma slot_le:
  assumes "i < n"
  shows "i * es + es \<le> n * (es::nat)"
  by (metis assms add.commute mult_Suc mult_le_mono1 Suc_leI)

lemma length_slot [simp]: "i < n \<Longrightarrow> length buf = n * es \<Longrightarrow> length (slot buf es i) = es"
  using slot_le [of i n es] by (simp add: slot_def)

lemma slot_blit_same:
  assumes "i < n" "length buf = n * es" "length e = es"
  shows "slot (blit buf (i * es) e) es i = e"
  using assms slot_le [of i n es] by (simp add: slot_def blit_def)

lemma slot_blit_other:
  assumes "i < n" "j < n" "i \<noteq> j" "length buf = n * es" "length e = es"
  shows "slot (blit buf (i * es) e) es j = slot buf es j"
proof (rule nth_equalityI)
  have len: "i * es + length e \<le> length buf"
    using assms slot_le [of i n es] by simp
  show "length (slot (blit buf (i * es) e) es j) = length (slot buf es j)"
    using assms len by (simp add: slot_def)
  fix k assume "k < length (slot (blit buf (i * es) e) es j)"
  then have k: "k < es" by (simp add: slot_def)
  have jk: "j * es + k < length buf"
    using k slot_le [of j n es] assms by simp
  have "\<not> (i * es \<le> j * es + k \<and> j * es + k < i * es + es)"
  proof (cases "i < j")
    case True then show ?thesis using slot_le [of i j es] by simp
  next
    case False
    then have "j < i" using assms by simp
    then show ?thesis using slot_le [of j i es] k by simp
  qed
  then have "blit buf (i * es) e ! (j * es + k) = buf ! (j * es + k)"
    using nth_blit [OF len jk] assms(5) by auto
  then show "slot (blit buf (i * es) e) es j ! k = slot buf es j ! k"
    using k jk len by (simp add: slot_def)
qed

lemma mem_read_slot [mem_simps]:
  "i < n \<Longrightarrow> length buf = n * es \<Longrightarrow> mem_read buf (int i * int es) es = Some (slot buf es i)"
  using slot_le [of i n es] mem_read_nat [of "i * es" es buf] by (simp add: slot_def)

lemma mem_write_slot [mem_simps]:
  "i < n \<Longrightarrow> length buf = n * es \<Longrightarrow> length e = es \<Longrightarrow>
   mem_write buf (int i * int es) e = Some (blit buf (i * es) e)"
  using slot_le [of i n es] mem_write_nat [of "i * es" e buf] by simp

section \<open>Generic list lemmas\<close>

lemma mod_add_inj:
  assumes "j < n" and "k < n" and "(p + j) mod n = (p + k) mod (n::nat)"
  shows "j = k"
proof -
  have "(int p + int j) mod int n = (int p + int k) mod int n"
    using assms(3) by (metis of_nat_add of_nat_mod)
  then have "int j mod int n = int k mod int n"
    by (metis add_diff_cancel_left' mod_diff_left_eq mod_diff_right_eq)
  then show ?thesis using assms(1,2) by simp
qed

lemma drop_length_takeWhile: "drop (length (takeWhile P s)) (s @ z) = dropWhile P s @ z"
  by (induction s) auto

lemma length_dropWhile_dropWhile:
  "dropWhile P s \<noteq> [] \<Longrightarrow> length (dropWhile (\<lambda>c. \<not> P c) (dropWhile P s)) < length s"
proof (induction s)
  case (Cons c s)
  then show ?case
    using length_dropWhile_le [of "\<lambda>c. \<not> P c" s] by (cases "P c") (simp_all add: less_Suc_eq_le)
qed simp

end
