(* ===== verification/Containers.thy ===== *)
theory Containers
  imports Prelude
begin

text \<open>
  The contract shared by the library's containers (the linked queue, the linked stack, the ring
  buffer and the array stack): an insertion that returns 0 or -1, a removal that returns 0 with an
  element or -1, and an abstraction relation to lists. The locale proves once that every sequence
  of operations behaves like the list, and the two extensions derive the FIFO and the LIFO
  discipline from that. Each container theory interprets one of them on its own operations.
\<close>

datatype 'a cop = Put 'a | Take

fun run_ops :: "('s \<Rightarrow> 'a \<Rightarrow> (int \<times> 's) option) \<Rightarrow> ('s \<Rightarrow> (int \<times> 'a option \<times> 's) option)
    \<Rightarrow> 's \<Rightarrow> 'a cop list \<Rightarrow> ((int \<times> 'a option) list \<times> 's) option" where
  "run_ops ins rem s [] = Some ([], s)"
| "run_ops ins rem s (Put x # ops) = do {
     (rc, s') \<leftarrow> ins s x;
     (outs, t) \<leftarrow> run_ops ins rem s' ops;
     Some ((rc, None) # outs, t)
   }"
| "run_ops ins rem s (Take # ops) = do {
     (rc, r, s') \<leftarrow> rem s;
     (outs, t) \<leftarrow> run_ops ins rem s' ops;
     Some ((rc, r) # outs, t)
   }"

definition has_room :: "nat option \<Rightarrow> nat \<Rightarrow> bool" where
  "has_room c k = (case c of None \<Rightarrow> True | Some n \<Rightarrow> k < n)"

fun spec_ops :: "nat option \<Rightarrow> ('a list \<Rightarrow> 'a \<Rightarrow> 'a list) \<Rightarrow> 'a list \<Rightarrow> 'a cop list
    \<Rightarrow> (int \<times> 'a option) list \<times> 'a list" where
  "spec_ops c put xs [] = ([], xs)"
| "spec_ops c put xs (Put x # ops) =
     (if has_room c (length xs)
      then (let (outs, ys) = spec_ops c put (put xs x) ops in ((0, None) # outs, ys))
      else (let (outs, ys) = spec_ops c put xs ops in ((-1, None) # outs, ys)))"
| "spec_ops c put [] (Take # ops) =
     (let (outs, ys) = spec_ops c put [] ops in ((-1, None) # outs, ys))"
| "spec_ops c put (x # xs) (Take # ops) =
     (let (outs, ys) = spec_ops c put xs ops in ((0, Some x) # outs, ys))"

fun ops_ok :: "('a list \<Rightarrow> 'a \<Rightarrow> bool) \<Rightarrow> nat option \<Rightarrow> ('a list \<Rightarrow> 'a \<Rightarrow> 'a list) \<Rightarrow> 'a list
    \<Rightarrow> 'a cop list \<Rightarrow> bool" where
  "ops_ok adm c put xs [] = True"
| "ops_ok adm c put xs (Put x # ops) =
     (adm xs x \<and> ops_ok adm c put (if has_room c (length xs) then put xs x else xs) ops)"
| "ops_ok adm c put xs (Take # ops) = ops_ok adm c put (tl xs) ops"

fun accepted :: "'a cop list \<Rightarrow> (int \<times> 'a option) list \<Rightarrow> 'a list" where
  "accepted (Put x # ops) ((rc, _) # outs) = (if rc = 0 then x # accepted ops outs else accepted ops outs)"
| "accepted (Take # ops) (_ # outs) = accepted ops outs"
| "accepted _ _ = []"

fun taken :: "(int \<times> 'a option) list \<Rightarrow> 'a list" where
  "taken [] = []"
| "taken ((_, None) # outs) = taken outs"
| "taken ((_, Some x) # outs) = x # taken outs"

fun puts :: "'a cop list \<Rightarrow> 'a list" where
  "puts [] = []"
| "puts (Put x # ops) = x # puts ops"
| "puts (Take # ops) = puts ops"

lemma ops_ok_const: "list_all P (puts ops) \<Longrightarrow> ops_ok (\<lambda>_. P) c put xs ops"
  by (induction "\<lambda>_ :: 'a list. P" c put xs ops rule: ops_ok.induct) auto

locale container =
  fixes rep :: "'s \<Rightarrow> 'a list \<Rightarrow> bool"
    and adm :: "'s \<Rightarrow> 'a list \<Rightarrow> 'a \<Rightarrow> bool"
    and cap :: "'s \<Rightarrow> nat option"
    and put :: "'a list \<Rightarrow> 'a \<Rightarrow> 'a list"
    and ins :: "'s \<Rightarrow> 'a \<Rightarrow> (int \<times> 's) option"
    and rem :: "'s \<Rightarrow> (int \<times> 'a option \<times> 's) option"
  assumes ins_room: "rep s xs \<Longrightarrow> adm s xs x \<Longrightarrow> has_room (cap s) (length xs) \<Longrightarrow>
      \<exists>s'. ins s x = Some (0, s') \<and> rep s' (put xs x) \<and> cap s' = cap s \<and> adm s' = adm s"
    and ins_full: "rep s xs \<Longrightarrow> adm s xs x \<Longrightarrow> \<not> has_room (cap s) (length xs) \<Longrightarrow>
      ins s x = Some (-1, s)"
    and rem_empty: "rep s [] \<Longrightarrow> rem s = Some (-1, None, s)"
    and rem_some: "rep s (x # xs) \<Longrightarrow>
      \<exists>s'. rem s = Some (0, Some x, s') \<and> rep s' xs \<and> cap s' = cap s \<and> adm s' = adm s"
begin

lemma run_refines:
  "rep s xs \<Longrightarrow> ops_ok (adm s) (cap s) put xs ops \<Longrightarrow>
   \<exists>s'. run_ops ins rem s ops = Some (fst (spec_ops (cap s) put xs ops), s') \<and>
        rep s' (snd (spec_ops (cap s) put xs ops)) \<and> cap s' = cap s \<and> adm s' = adm s"
proof (induction ops arbitrary: s xs)
  case Nil
  then show ?case by simp
next
  case (Cons op ops)
  show ?case
  proof (cases op)
    case (Put x)
    show ?thesis
    proof (cases "has_room (cap s) (length xs)")
      case True
      then obtain s' where s': "ins s x = Some (0, s')" "rep s' (put xs x)"
          "cap s' = cap s" "adm s' = adm s"
        using ins_room [of s xs x] Cons.prems Put by auto
      then have "ops_ok (adm s') (cap s') put (put xs x) ops"
        using Cons.prems Put True by simp
      from Cons.IH [OF s'(2) this] show ?thesis
        using s' Put True by (auto split: prod.splits)
    next
      case False
      then have "ins s x = Some (-1, s)"
        using ins_full [of s xs x] Cons.prems Put by simp
      moreover have "ops_ok (adm s) (cap s) put xs ops"
        using Cons.prems Put False by simp
      ultimately show ?thesis
        using Cons.IH [OF Cons.prems(1)] Put False by (auto split: prod.splits)
    qed
  next
    case Take
    show ?thesis
    proof (cases xs)
      case Nil
      then show ?thesis
        using Take Cons.prems Cons.IH [OF Cons.prems(1)] rem_empty [of s]
        by (auto split: prod.splits)
    next
      case (Cons y ys)
      then obtain s' where s': "rem s = Some (0, Some y, s')" "rep s' ys"
          "cap s' = cap s" "adm s' = adm s"
        using rem_some [of s y ys] Cons.prems(1) by auto
      then have "ops_ok (adm s') (cap s') put ys ops"
        using Cons.prems(2) Take Cons by simp
      from Cons.IH [OF s'(2) this] show ?thesis
        using s' Take Cons by (auto split: prod.splits)
    qed
  qed
qed

lemma run_total:
  "rep s xs \<Longrightarrow> ops_ok (adm s) (cap s) put xs ops \<Longrightarrow> \<exists>outs s'. run_ops ins rem s ops = Some (outs, s')"
  using run_refines by blast

end

text \<open>First in, first out: what was accepted is what was taken followed by what is still stored.\<close>

lemma spec_fifo:
  "spec_ops c (\<lambda>xs x. xs @ [x]) xs ops = (outs, ys) \<Longrightarrow>
   xs @ accepted ops outs = taken outs @ ys"
  by (induction c "\<lambda>xs x :: 'a. xs @ [x]" xs ops arbitrary: outs ys rule: spec_ops.induct)
     (auto split: prod.splits if_splits)

locale fifo = container rep adm cap "\<lambda>xs x. xs @ [x]" ins rem
  for rep :: "'s \<Rightarrow> 'a list \<Rightarrow> bool"
    and adm :: "'s \<Rightarrow> 'a list \<Rightarrow> 'a \<Rightarrow> bool"
    and cap :: "'s \<Rightarrow> nat option"
    and ins :: "'s \<Rightarrow> 'a \<Rightarrow> (int \<times> 's) option"
    and rem :: "'s \<Rightarrow> (int \<times> 'a option \<times> 's) option"
begin

lemma fifo_order:
  assumes "rep s xs" and "ops_ok (adm s) (cap s) (\<lambda>xs x. xs @ [x]) xs ops"
  shows "\<exists>outs s' ys. run_ops ins rem s ops = Some (outs, s') \<and> rep s' ys \<and>
           xs @ accepted ops outs = taken outs @ ys"
proof -
  obtain outs ys where sp: "spec_ops (cap s) (\<lambda>xs x. xs @ [x]) xs ops = (outs, ys)"
    by fastforce
  then show ?thesis
    using run_refines [OF assms] spec_fifo [OF sp] by fastforce
qed

end

locale lifo = container rep adm cap "\<lambda>xs x. x # xs" ins rem
  for rep :: "'s \<Rightarrow> 'a list \<Rightarrow> bool"
    and adm :: "'s \<Rightarrow> 'a list \<Rightarrow> 'a \<Rightarrow> bool"
    and cap :: "'s \<Rightarrow> nat option"
    and ins :: "'s \<Rightarrow> 'a \<Rightarrow> (int \<times> 's) option"
    and rem :: "'s \<Rightarrow> (int \<times> 'a option \<times> 's) option"
begin

lemma ins_rem:
  assumes "rep s xs" and "adm s xs x" and "has_room (cap s) (length xs)"
  shows "\<exists>s' s''. ins s x = Some (0, s') \<and> rem s' = Some (0, Some x, s'') \<and> rep s'' xs"
  using ins_room [OF assms] rem_some by blast

end

end
