(* ===== verification/Circbuf.thy ===== *)
theory Circbuf
  imports Containers
begin

text \<open>
  The ring buffer of \<^verbatim>\<open>src/utils/src/circbuf.c\<close> at byte level: the storage is one byte array of
  \<open>size * element_size\<close> bytes and the two counters run over \<open>[0, 2 * size)\<close>, so that a full and an
  empty buffer are told apart. All index arithmetic is signed 32-bit arithmetic.
\<close>

record circbuf =
  cb_buffer :: bytes
  cb_push_count :: int
  cb_pop_count :: int
  cb_size :: int
  cb_element_size :: int

definition circbuf_def :: "int \<Rightarrow> int \<Rightarrow> bytes \<Rightarrow> circbuf" where
  \<comment> \<open>\<open>__CIRCBUF_VAR_DEF\<close>: the static initialiser over the array \<open>data\<close>\<close>
  "circbuf_def sz esz data =
     \<lparr>cb_buffer = data, cb_push_count = 0, cb_pop_count = 0, cb_size = sz, cb_element_size = esz\<rparr>"

definition circbuf_flush :: "circbuf \<Rightarrow> circbuf" where
  "circbuf_flush cb = cb\<lparr>cb_push_count := 0, cb_pop_count := 0\<rparr>"

definition circbuf_total :: "circbuf \<Rightarrow> int option" where
  "circbuf_total cb = do {
     total \<leftarrow> cint (cb_push_count cb - cb_pop_count cb);
     if total < 0 then do {
       twice \<leftarrow> cint (2 * cb_size cb);
       cint (total + twice)
     } else Some total
   }"

definition circbuf_pop :: "circbuf \<Rightarrow> bool \<Rightarrow> bool \<Rightarrow> (int \<times> bytes option \<times> circbuf) option" where
  \<comment> \<open>\<open>elem\<close>: the destination pointer is not null; the copied bytes are the second result\<close>
  "circbuf_pop cb elem read_only = do {
     total \<leftarrow> circbuf_total cb;
     if total = 0 then Some (-1, None, cb)
     else do {
       i \<leftarrow> cmod (cb_pop_count cb) (cb_size cb);
       tail \<leftarrow> cint (i * cb_element_size cb);
       out \<leftarrow> (if elem then map_option Some (mem_read (cb_buffer cb) tail (nat (cb_element_size cb)))
               else Some None);
       if read_only then Some (0, out, cb)
       else do {
         c \<leftarrow> cint (cb_pop_count cb + 1);
         lim \<leftarrow> cint (2 * cb_size cb);
         Some (0, out, cb\<lparr>cb_pop_count := (if c \<ge> lim then 0 else c)\<rparr>)
       }
     }
   }"

definition circbuf_push :: "circbuf \<Rightarrow> bytes \<Rightarrow> (int \<times> circbuf) option" where
  "circbuf_push cb elem = do {
     total \<leftarrow> circbuf_total cb;
     if total \<ge> cb_size cb then Some (-1, cb)
     else do {
       i \<leftarrow> cmod (cb_push_count cb) (cb_size cb);
       head \<leftarrow> cint (i * cb_element_size cb);
       src \<leftarrow> mem_read elem 0 (nat (cb_element_size cb));
       buf \<leftarrow> mem_write (cb_buffer cb) head src;
       c \<leftarrow> cint (cb_push_count cb + 1);
       lim \<leftarrow> cint (2 * cb_size cb);
       Some (0, cb\<lparr>cb_buffer := buf, cb_push_count := (if c \<ge> lim then 0 else c)\<rparr>)
     }
   }"

definition circbuf_free_space :: "circbuf \<Rightarrow> int option" where
  "circbuf_free_space cb = do {
     total \<leftarrow> circbuf_total cb;
     cint (cb_size cb - total)
   }"

section \<open>Invariant and abstraction\<close>

text \<open>
  \<open>circbuf_ok cb n es p k\<close>: the buffer has \<open>n\<close> slots of \<open>es\<close> bytes, the oldest element is in the
  slot of counter value \<open>p\<close> and \<open>k\<close> elements are stored. The three bounds are what the C needs for
  its signed arithmetic.
\<close>

definition circbuf_ok :: "circbuf \<Rightarrow> nat \<Rightarrow> nat \<Rightarrow> nat \<Rightarrow> nat \<Rightarrow> bool" where
  "circbuf_ok cb n es p k \<longleftrightarrow>
     0 < n \<and> 2 * int n \<le> INT_MAX \<and> int n * int es \<le> INT_MAX \<and>
     cb_size cb = int n \<and> cb_element_size cb = int es \<and> length (cb_buffer cb) = n * es \<and>
     p < 2 * n \<and> k \<le> n \<and> cb_pop_count cb = int p \<and>
     cb_push_count cb = int ((p + k) mod (2 * n))"

definition circbuf_list :: "circbuf \<Rightarrow> nat \<Rightarrow> nat \<Rightarrow> nat \<Rightarrow> nat \<Rightarrow> bytes list" where
  "circbuf_list cb n es p k = map (\<lambda>j. slot (cb_buffer cb) es ((p + j) mod n)) [0..<k]"

definition circbuf_rel :: "circbuf \<Rightarrow> bytes list \<Rightarrow> bool" where
  "circbuf_rel cb xs \<longleftrightarrow> (\<exists>n es p. circbuf_ok cb n es p (length xs) \<and>
     xs = circbuf_list cb n es p (length xs))"

lemma circbuf_total_ok:
  assumes "circbuf_ok cb n es p k"
  shows "circbuf_total cb = Some (int k)"
proof (cases "p + k < 2 * n")
  case True
  then show ?thesis
    using assms by (simp add: circbuf_ok_def circbuf_total_def cint_simps)
next
  case False
  define m where "m = p + k - 2 * n"
  have m: "p + k = m + 2 * n" and "m < n"
    using False assms by (auto simp: m_def circbuf_ok_def)
  then have "(p + k) mod (2 * n) = m" by simp
  then show ?thesis
    using assms m \<open>m < n\<close>
    by (simp add: circbuf_ok_def circbuf_total_def cint_simps INT_MIN_def INT_MAX_def)
qed

lemma mod_twice: "(x mod (2 * n)) mod n = x mod (n::nat)"
  by (simp add: mod_mod_cancel)

lemma Suc_mod_wrap:
  assumes "0 < n"
  shows "Suc x mod n = (if Suc (x mod n) \<ge> n then 0 else Suc (x mod (n::nat)))"
  using assms by (simp add: mod_Suc le_Suc_eq Suc_le_eq not_le)

lemma circbuf_push_counter:
  assumes "circbuf_ok cb n es p k" and "k < n"
  shows "(if cb_push_count cb + 1 \<ge> 2 * int n then 0 else cb_push_count cb + 1) =
         int ((p + Suc k) mod (2 * n))"
  using assms Suc_mod_wrap [of "2 * n" "p + k"] by (auto simp: circbuf_ok_def)

text \<open>The slot written by a push is none of the stored ones.\<close>

lemma circbuf_push_slots:
  assumes "k < n" and "length buf = n * es" and "length e = es"
  shows "map (\<lambda>j. slot (blit buf ((p + k) mod n * es) e) es ((p + j) mod n)) [0..<Suc k] =
         map (\<lambda>j. slot buf es ((p + j) mod n)) [0..<k] @ [e]"
proof -
  have n: "0 < n" using assms by simp
  have "slot (blit buf ((p + k) mod n * es) e) es ((p + j) mod n) = slot buf es ((p + j) mod n)"
    if "j < k" for j
  proof (rule slot_blit_other [where n = n])
    show "(p + k) mod n \<noteq> (p + j) mod n"
      using mod_add_inj [of j n k p] that assms by auto
  qed (use n assms in auto)
  then show ?thesis
    using slot_blit_same [of "(p + k) mod n" n buf es e] n assms by simp
qed

lemma circbuf_slot_bound:
  assumes "i < n" and "int n * int es \<le> INT_MAX"
  shows "cint (int i * int es) = Some (int i * int es)"
proof -
  have "int i * int es \<le> int n * int es"
    using assms(1) by (intro mult_right_mono) auto
  then show ?thesis
    using assms(2) by (simp add: cint_nonneg)
qed

lemma circbuf_counter_bound:
  assumes "2 * int n \<le> INT_MAX" and "x < 2 * n"
  shows "cint (int x + 1) = Some (int x + 1)" and "cint (2 * int n) = Some (2 * int n)"
  using assms by (auto intro!: cint_nonneg)

lemma circbuf_push_ok:
  assumes ok: "circbuf_ok cb n es p k" and "k < n" and "length e = es"
  shows "\<exists>cb'. circbuf_push cb e = Some (0, cb') \<and> circbuf_ok cb' n es p (Suc k) \<and>
           circbuf_list cb' n es p (Suc k) = circbuf_list cb n es p k @ [e]"
proof -
  let ?i = "(p + k) mod n"
  have n: "0 < n" and i: "?i < n" using assms by auto
  have f: "2 * int n \<le> INT_MAX" "int n * int es \<le> INT_MAX" "cb_size cb = int n"
    "cb_element_size cb = int es" "length (cb_buffer cb) = n * es"
    "cb_push_count cb = int ((p + k) mod (2 * n))"
    using ok by (auto simp: circbuf_ok_def)
  have cm: "cmod (cb_push_count cb) (int n) = Some (int ?i)"
    using f n by (simp add: cmod_nonneg mod_twice flip: of_nat_mod)
  have "(p + k) mod (2 * n) < 2 * n" using n by simp
  note cnt = circbuf_counter_bound [OF f(1) this]
  define cb' where "cb' = cb\<lparr>cb_buffer := blit (cb_buffer cb) (?i * es) e,
    cb_push_count := int ((p + Suc k) mod (2 * n))\<rparr>"
  have "circbuf_push cb e = Some (0, cb')"
    using assms(2,3) f(3-4) cm cnt circbuf_slot_bound [OF i f(2)] circbuf_total_ok [OF ok]
      mem_write_slot [OF i f(5) assms(3)] circbuf_push_counter [OF ok assms(2), unfolded f(6)]
    by (simp add: circbuf_push_def mem_read_def cb'_def f(6) split del: if_split)
  moreover have "circbuf_ok cb' n es p (Suc k)"
    using ok assms slot_le [OF i, of es] by (simp add: circbuf_ok_def cb'_def)
  moreover have "circbuf_list cb' n es p (Suc k) = circbuf_list cb n es p k @ [e]"
    using circbuf_push_slots [OF assms(2) f(5) assms(3), of p]
    by (simp add: circbuf_list_def cb'_def del: upt_Suc)
  ultimately show ?thesis by blast
qed

lemma circbuf_push_full:
  assumes ok: "circbuf_ok cb n es p k" and "\<not> k < n"
  shows "circbuf_push cb e = Some (-1, cb)"
  using ok assms(2) circbuf_total_ok [OF ok] by (simp add: circbuf_push_def circbuf_ok_def)

lemma circbuf_pop_empty:
  assumes ok: "circbuf_ok cb n es p 0"
  shows "circbuf_pop cb el ro = Some (-1, None, cb)"
  using circbuf_total_ok [OF ok] by (simp add: circbuf_pop_def)

lemma circbuf_pop_step:
  assumes ok: "circbuf_ok cb n es p (Suc k)"
  shows "circbuf_pop cb el ro =
    Some (0, if el then Some (slot (cb_buffer cb) es (p mod n)) else None,
      if ro then cb else cb\<lparr>cb_pop_count := int (Suc p mod (2 * n))\<rparr>)"
proof -
  have n: "0 < n" and i: "p mod n < n" and p: "p < 2 * n" using ok by (auto simp: circbuf_ok_def)
  have f: "2 * int n \<le> INT_MAX" "int n * int es \<le> INT_MAX" "cb_size cb = int n"
    "cb_element_size cb = int es" "length (cb_buffer cb) = n * es" "cb_pop_count cb = int p"
    using ok by (auto simp: circbuf_ok_def)
  have cm: "cmod (int p) (int n) = Some (int (p mod n))"
    using n by (simp add: cmod_nonneg of_nat_mod)
  note cnt = circbuf_counter_bound [OF f(1) p]
  have wrap: "(if int p + 1 \<ge> 2 * int n then 0 else int p + 1) = int (Suc p mod (2 * n))"
  proof (cases "Suc p = 2 * n")
    case False
    then show ?thesis using p by auto
  qed auto
  show ?thesis
    using f(3-6) cm cnt i circbuf_slot_bound [OF i f(2)] circbuf_total_ok [OF ok] wrap
    by (simp add: circbuf_pop_def mem_read_slot)
qed

lemma circbuf_pop_next:
  assumes ok: "circbuf_ok cb n es p (Suc k)"
  defines "cb' \<equiv> cb\<lparr>cb_pop_count := int (Suc p mod (2 * n))\<rparr>"
  shows "circbuf_ok cb' n es (Suc p mod (2 * n)) k"
    and "circbuf_list cb n es p (Suc k) =
         slot (cb_buffer cb) es (p mod n) # circbuf_list cb' n es (Suc p mod (2 * n)) k"
proof -
  show "circbuf_ok cb' n es (Suc p mod (2 * n)) k"
    using ok by (simp add: circbuf_ok_def cb'_def mod_add_left_eq)
  have "(Suc p mod (2 * n) + j) mod n = Suc (p + j) mod n" for j
    by (metis add_Suc mod_add_left_eq mod_twice)
  then show "circbuf_list cb n es p (Suc k) =
         slot (cb_buffer cb) es (p mod n) # circbuf_list cb' n es (Suc p mod (2 * n)) k"
    by (simp add: circbuf_list_def cb'_def map_upt_Suc del: upt_Suc)
qed

section \<open>The ring buffer is a bounded FIFO queue\<close>

definition circbuf_cap :: "circbuf \<Rightarrow> nat option" where
  "circbuf_cap cb = Some (nat (cb_size cb))"

definition circbuf_adm :: "circbuf \<Rightarrow> bytes list \<Rightarrow> bytes \<Rightarrow> bool" where
  "circbuf_adm cb xs e \<longleftrightarrow> length e = nat (cb_element_size cb)"

lemma circbuf_relE:
  assumes "circbuf_rel cb xs"
  obtains n es p where "circbuf_ok cb n es p (length xs)" "xs = circbuf_list cb n es p (length xs)"
  using assms by (auto simp: circbuf_rel_def)

lemma length_circbuf_list [simp]: "length (circbuf_list cb n es p k) = k"
  by (simp add: circbuf_list_def)

lemma circbuf_relI: "circbuf_ok cb n es p k \<Longrightarrow> circbuf_rel cb (circbuf_list cb n es p k)"
  by (auto simp: circbuf_rel_def)

lemma circbuf_ok_static:
  assumes "circbuf_ok cb n es p k" and "circbuf_ok cb' n es p' k'"
  shows "circbuf_cap cb' = circbuf_cap cb" and "circbuf_adm cb' = circbuf_adm cb"
  using assms by (auto simp: circbuf_ok_def circbuf_cap_def circbuf_adm_def fun_eq_iff)

interpretation cbq: fifo circbuf_rel circbuf_adm circbuf_cap circbuf_push
  "\<lambda>cb. circbuf_pop cb True False"
proof (unfold_locales, goal_cases)
  case (1 cb xs e)
  then obtain n es p where ok: "circbuf_ok cb n es p (length xs)"
      and xs: "xs = circbuf_list cb n es p (length xs)"
    by (auto elim: circbuf_relE)
  have "length xs < n" "length e = es"
    using 1 ok by (auto simp: has_room_def circbuf_cap_def circbuf_adm_def circbuf_ok_def)
  then show ?case
    using circbuf_push_ok [OF ok] circbuf_ok_static [OF ok] xs circbuf_relI by metis
next
  case (2 cb xs e)
  then obtain n es p where ok: "circbuf_ok cb n es p (length xs)" by (auto elim: circbuf_relE)
  then have "\<not> length xs < n"
    using 2 by (auto simp: has_room_def circbuf_cap_def circbuf_ok_def)
  then show ?case by (rule circbuf_push_full [OF ok])
next
  case (3 cb)
  then show ?case by (auto elim!: circbuf_relE intro: circbuf_pop_empty)
next
  case (4 cb e xs)
  then obtain n es p where ok: "circbuf_ok cb n es p (Suc (length xs))"
      and xs: "e # xs = circbuf_list cb n es p (Suc (length xs))"
    by (auto elim: circbuf_relE)
  note nxt = circbuf_pop_next [OF ok]
  show ?case
    using circbuf_pop_step [OF ok, of True False] nxt(2) xs circbuf_relI [OF nxt(1)]
      circbuf_ok_static [OF ok nxt(1)] by auto
qed

section \<open>Properties\<close>

lemma circbuf_def_rel:
  assumes "0 < n" and "2 * int n \<le> INT_MAX" and "int n * int es \<le> INT_MAX" and "length data = n * es"
  shows "circbuf_rel (circbuf_def (int n) (int es) data) []"
  using assms by (auto simp: circbuf_rel_def circbuf_ok_def circbuf_def_def circbuf_list_def intro!: exI [of _ 0])

text \<open>
  C32: a ring buffer of \<open>n\<close> slots of \<open>es\<close> bytes, started empty, is a FIFO queue of capacity \<open>n\<close>: on any
  sequence of pushes (of \<open>es\<close>-byte elements) and pops it runs without undefined behaviour, answers
  exactly like the bounded list queue (0 or -1, and the popped bytes), and the accepted elements are
  the popped ones, in order, followed by the ones still stored.
\<close>

theorem circbuf_fifo:
  assumes "0 < n" and "2 * int n \<le> INT_MAX" and "int n * int es \<le> INT_MAX" and "length data = n * es"
    and "list_all (\<lambda>e. length e = es) (puts ops)"
  shows "\<exists>outs cb' ys.
    run_ops circbuf_push (\<lambda>cb. circbuf_pop cb True False) (circbuf_def (int n) (int es) data) ops = Some (outs, cb') \<and>
    spec_ops (Some n) (\<lambda>xs x. xs @ [x]) [] ops = (outs, ys) \<and> circbuf_rel cb' ys \<and>
    accepted ops outs = taken outs @ ys"
proof -
  let ?cb = "circbuf_def (int n) (int es) data"
  note rel = circbuf_def_rel [OF assms(1-4)]
  have adm: "circbuf_adm ?cb = (\<lambda>_ e. length e = es)" and cap: "circbuf_cap ?cb = Some n"
    by (auto simp: circbuf_adm_def circbuf_cap_def circbuf_def_def fun_eq_iff)
  have ok: "ops_ok (circbuf_adm ?cb) (circbuf_cap ?cb) (\<lambda>xs x. xs @ [x]) [] ops"
    unfolding adm using assms(5) by (rule ops_ok_const)
  obtain outs ys where sp: "spec_ops (Some n) (\<lambda>xs x. xs @ [x]) [] ops = (outs, ys)" by fastforce
  then show ?thesis
    using cbq.run_refines [OF rel ok] spec_fifo [OF sp] by (auto simp: cap)
qed

theorem circbuf_fifo_witness:
  "\<exists>outs cb' ys.
    run_ops circbuf_push (\<lambda>cb. circbuf_pop cb True False) (circbuf_def 2 1 [0, 0])
      [Put [1], Put [2], Put [3], Take, Put [4], Take] = Some (outs, cb') \<and>
    outs = [(0, None), (0, None), (-1, None), (0, Some [1]), (0, None), (0, Some [2])] \<and>
    circbuf_rel cb' ys \<and> ys = [[4]]"
  using circbuf_fifo [of 2 1 "[0, 0]" "[Put [1], Put [2], Put [3], Take, Put [4], Take]"]
  by (auto simp: INT_MAX_def has_room_def simp del: run_ops.simps)

text \<open>
  the queries of the ring buffer: \<open>circbuf_free_space\<close> is the capacity less the number of stored
  elements, and a read-only pop returns the oldest element (or -1 when there is none) and changes
  nothing.
\<close>

theorem circbuf_queries:
  assumes "circbuf_rel cb xs"
  shows "circbuf_free_space cb = Some (cb_size cb - int (length xs)) \<and>
    circbuf_pop cb el True =
      Some (if xs = [] then (-1, None, cb) else (0, if el then Some (hd xs) else None, cb))"
proof -
  obtain n es p where ok: "circbuf_ok cb n es p (length xs)" and xs: "xs = circbuf_list cb n es p (length xs)"
    using assms by (rule circbuf_relE)
  have "circbuf_free_space cb = Some (cb_size cb - int (length xs))"
    using ok circbuf_total_ok [OF ok] by (auto simp: circbuf_free_space_def circbuf_ok_def intro!: cint_nonneg)
  moreover have "circbuf_pop cb el True =
      Some (if xs = [] then (-1, None, cb) else (0, if el then Some (hd xs) else None, cb))"
  proof (cases xs)
    case Nil
    then show ?thesis using circbuf_pop_empty ok by simp
  next
    case (Cons x ys)
    then have ok': "circbuf_ok cb n es p (Suc (length ys))" using ok by simp
    show ?thesis
      using circbuf_pop_step [OF ok', of el True] circbuf_pop_next(2) [OF ok'] xs Cons by auto
  qed
  ultimately show ?thesis by simp
qed

theorem circbuf_queries_witness:
  "circbuf_free_space (circbuf_def 3 2 [0, 0, 0, 0, 0, 0]) = Some 3 \<and>
   circbuf_pop (circbuf_def 3 2 [0, 0, 0, 0, 0, 0]) True True =
     Some (-1, None, circbuf_def 3 2 [0, 0, 0, 0, 0, 0])"
  using circbuf_queries [OF circbuf_def_rel [of 3 2 "[0, 0, 0, 0, 0, 0]"], of True]
  by (simp add: INT_MAX_def circbuf_def_def)

end
