(* ===== verification/Filo.thy ===== *)
theory Filo
  imports Containers
begin

text \<open>
  The array stack of \<^verbatim>\<open>src/utils/src/filo.c\<close>: a byte buffer of \<open>max_size\<close> slots and the index
  \<open>top\<close> of the first free slot. The fields are \<^verbatim>\<open>size_t\<close> values, so the offset computations wrap at
  \<open>2 ^ 64\<close>.
\<close>

record filo =
  fl_buffer :: bytes
  fl_top :: nat
  fl_elem_size :: nat
  fl_max_size :: nat

definition filo_init :: "bytes \<Rightarrow> nat \<Rightarrow> nat \<Rightarrow> filo" where
  "filo_init buffer elem_size max_size =
     \<lparr>fl_buffer = buffer, fl_top = 0, fl_elem_size = elem_size, fl_max_size = max_size\<rparr>"

definition filo_reset :: "filo \<Rightarrow> filo" where
  "filo_reset f = f\<lparr>fl_top := 0\<rparr>"

definition filo_alloc :: "(nat \<Rightarrow> u8) \<Rightarrow> nat \<Rightarrow> nat \<Rightarrow> filo" where
  \<comment> \<open>\<open>junk\<close>: what \<open>malloc\<close> finds in the fresh block\<close>
  "filo_alloc junk elem_size max_size =
     filo_init (map junk [0..<sz_mul elem_size max_size]) elem_size max_size"

definition filo_push :: "filo \<Rightarrow> bytes \<Rightarrow> (int \<times> filo) option" where
  "filo_push f elem =
     (if fl_top f \<ge> fl_max_size f then Some (-1, f)
      else do {
        src \<leftarrow> mem_read elem 0 (fl_elem_size f);
        buf \<leftarrow> mem_write (fl_buffer f) (int (sz_mul (fl_elem_size f) (fl_top f))) src;
        Some (0, f\<lparr>fl_buffer := buf, fl_top := sz_add (fl_top f) 1\<rparr>)
      })"

definition filo_pop :: "filo \<Rightarrow> bool \<Rightarrow> (int \<times> bytes option \<times> filo) option" where
  "filo_pop f remove =
     (if fl_top f = 0 then Some (-1, None, f)
      else do {
        e \<leftarrow> mem_read (fl_buffer f) (int (sz_mul (fl_elem_size f) (sz_sub (fl_top f) 1))) (fl_elem_size f);
        Some (0, Some e, if remove then f\<lparr>fl_top := sz_sub (fl_top f) 1\<rparr> else f)
      })"

definition filo_get_count :: "filo \<Rightarrow> nat" where
  "filo_get_count f = fl_top f"

definition filo_get_free_space :: "filo \<Rightarrow> nat" where
  "filo_get_free_space f = sz_sub (fl_max_size f) (fl_top f)"

section \<open>Invariant and abstraction\<close>

definition filo_ok :: "filo \<Rightarrow> bool" where
  "filo_ok f \<longleftrightarrow> fl_top f \<le> fl_max_size f \<and> fl_max_size f < 2 ^ 64 \<and>
     fl_max_size f * fl_elem_size f < 2 ^ 64 \<and>
     length (fl_buffer f) = fl_max_size f * fl_elem_size f"

definition filo_list :: "filo \<Rightarrow> bytes list" where
  \<comment> \<open>the stored elements, the top of the stack first\<close>
  "filo_list f = rev (map (slot (fl_buffer f) (fl_elem_size f)) [0..<fl_top f])"

definition filo_rel :: "filo \<Rightarrow> bytes list \<Rightarrow> bool" where
  "filo_rel f xs \<longleftrightarrow> filo_ok f \<and> xs = filo_list f"

definition filo_adm :: "filo \<Rightarrow> bytes list \<Rightarrow> bytes \<Rightarrow> bool" where
  "filo_adm f xs e \<longleftrightarrow> length e = fl_elem_size f"

definition filo_cap :: "filo \<Rightarrow> nat option" where
  "filo_cap f = Some (fl_max_size f)"

lemma filo_offset:
  assumes "filo_ok f" and "i < fl_max_size f"
  shows "sz_mul (fl_elem_size f) i = i * fl_elem_size f"
proof -
  have "i * fl_elem_size f \<le> fl_max_size f * fl_elem_size f"
    using assms(2) by (intro mult_le_mono1) simp
  then have "fl_elem_size f * i < 2 ^ 64"
    using assms(1) by (simp only: filo_ok_def mult.commute) linarith
  then show ?thesis
    by (simp only: sz_mul_small mult.commute)
qed

lemma filo_push_ok:
  assumes ok: "filo_ok f" and top: "fl_top f < fl_max_size f" and "length e = fl_elem_size f"
  shows "\<exists>f'. filo_push f e = Some (0, f') \<and> filo_ok f' \<and> filo_list f' = e # filo_list f \<and>
           fl_elem_size f' = fl_elem_size f \<and> fl_max_size f' = fl_max_size f"
proof -
  let ?es = "fl_elem_size f" and ?n = "fl_max_size f" and ?t = "fl_top f"
  have len: "length (fl_buffer f) = ?n * ?es" and t1: "sz_add ?t 1 = Suc ?t"
    using ok top by (auto simp: filo_ok_def sz_add_small)
  define f' where "f' = f\<lparr>fl_buffer := blit (fl_buffer f) (?t * ?es) e, fl_top := Suc ?t\<rparr>"
  have "filo_push f e = Some (0, f')"
    using top assms(3) len t1 mem_write_slot [OF top len assms(3)] filo_offset [OF ok top]
    by (simp add: filo_push_def mem_read_def f'_def)
  moreover have "filo_ok f'"
    using ok top assms(3) slot_le [OF top, of ?es] by (simp add: filo_ok_def f'_def)
  moreover have "map (slot (fl_buffer f') ?es) [0..<?t] = map (slot (fl_buffer f) ?es) [0..<?t]"
    using top len assms(3) by (auto simp: f'_def intro!: slot_blit_other [where n = ?n])
  then have "filo_list f' = e # filo_list f"
    using slot_blit_same [OF top len assms(3)] by (simp add: filo_list_def f'_def)
  ultimately show ?thesis by (auto simp: f'_def)
qed

lemma filo_pop_step:
  assumes ok: "filo_ok f" and l: "filo_list f = e # xs"
  shows "\<exists>f'. filo_pop f remove = Some (0, Some e, f') \<and> filo_ok f' \<and>
           filo_list f' = (if remove then xs else e # xs) \<and>
           fl_elem_size f' = fl_elem_size f \<and> fl_max_size f' = fl_max_size f"
proof -
  obtain t where t: "fl_top f = Suc t"
    using l by (cases "fl_top f") (auto simp: filo_list_def)
  then have tn: "t < fl_max_size f" and t1: "sz_sub (fl_top f) 1 = t"
    and len: "length (fl_buffer f) = fl_max_size f * fl_elem_size f"
    using ok by (auto simp: filo_ok_def sz_sub_small)
  have e: "e = slot (fl_buffer f) (fl_elem_size f) t"
    and xs: "xs = rev (map (slot (fl_buffer f) (fl_elem_size f)) [0..<t])"
    using l t by (auto simp: filo_list_def)
  define f' where "f' = (if remove then f\<lparr>fl_top := t\<rparr> else f)"
  have "filo_pop f remove = Some (0, Some e, f')"
    using t t1 mem_read_slot [OF tn len] filo_offset [OF ok tn] e
    by (simp add: filo_pop_def f'_def)
  moreover have "filo_ok f'" and "filo_list f' = (if remove then xs else e # xs)"
    using ok t l xs by (auto simp: f'_def filo_ok_def filo_list_def)
  ultimately show ?thesis by (auto simp: f'_def)
qed

interpretation fls: lifo filo_rel filo_adm filo_cap filo_push "\<lambda>f. filo_pop f True"
proof (unfold_locales, goal_cases)
  case (1 f xs e)
  then have "fl_top f < fl_max_size f"
    by (simp add: filo_rel_def has_room_def filo_cap_def filo_list_def)
  then show ?case
    using 1 filo_push_ok [of f e]
    by (fastforce simp: filo_rel_def filo_adm_def filo_cap_def fun_eq_iff)
next
  case (2 f xs e)
  then show ?case
    by (simp add: filo_rel_def has_room_def filo_cap_def filo_push_def filo_list_def)
next
  case (3 f)
  then show ?case by (simp add: filo_rel_def filo_pop_def filo_list_def)
next
  case (4 f e xs)
  then show ?case
    using filo_pop_step [of f e xs True]
    by (fastforce simp: filo_rel_def filo_adm_def filo_cap_def fun_eq_iff)
qed

section \<open>Properties\<close>

lemma filo_init_rel:
  assumes "max_size < 2 ^ 64" and "max_size * elem_size < 2 ^ 64" and "length buf = max_size * elem_size"
  shows "filo_rel (filo_init buf elem_size max_size) []"
  using assms by (simp add: filo_rel_def filo_ok_def filo_init_def filo_list_def)

text \<open>
  The array stack over a buffer of \<open>n\<close> slots is a bounded LIFO: from \<open>filo_init\<close>, every sequence of
  pushes of \<open>es\<close>-byte elements and pops stays inside the buffer and answers exactly like the list
  stack of capacity \<open>n\<close>; the count and the free space reported afterwards are those of the list.
\<close>

theorem filo_lifo:
  assumes "n < 2 ^ 64" and "n * es < 2 ^ 64" and "length buf = n * es"
    and "list_all (\<lambda>e. length e = es) (puts ops)"
  shows "\<exists>outs f' ys.
    run_ops filo_push (\<lambda>f. filo_pop f True) (filo_init buf es n) ops = Some (outs, f') \<and>
    spec_ops (Some n) (\<lambda>xs x. x # xs) [] ops = (outs, ys) \<and> filo_rel f' ys \<and>
    filo_get_count f' = length ys \<and> filo_get_free_space f' = n - length ys"
proof -
  let ?f = "filo_init buf es n"
  note rel = filo_init_rel [OF assms(1-3)]
  have adm: "filo_adm ?f = (\<lambda>_ e. length e = es)" and cap: "filo_cap ?f = Some n"
    by (auto simp: filo_adm_def filo_cap_def filo_init_def fun_eq_iff)
  have ok: "ops_ok (filo_adm ?f) (filo_cap ?f) (\<lambda>xs x. x # xs) [] ops"
    unfolding adm using assms(4) by (rule ops_ok_const)
  obtain outs ys where sp: "spec_ops (Some n) (\<lambda>xs x. x # xs) [] ops = (outs, ys)" by fastforce
  then obtain f' where f': "run_ops filo_push (\<lambda>f. filo_pop f True) ?f ops = Some (outs, f')"
      "filo_rel f' ys" "filo_cap f' = Some n"
    using fls.run_refines [OF rel ok] by (auto simp: cap)
  then have "fl_top f' = length ys" "fl_max_size f' = n" "fl_top f' \<le> n"
    by (auto simp: filo_rel_def filo_list_def filo_cap_def filo_ok_def)
  then show ?thesis
    using f' sp assms(1) by (auto simp: filo_get_count_def filo_get_free_space_def sz_sub_small)
qed

theorem filo_lifo_witness:
  "\<exists>outs f' ys.
    run_ops filo_push (\<lambda>f. filo_pop f True) (filo_init [0, 0, 0, 0] 2 2)
      [Put [1, 2], Put [3, 4], Put [5, 6], Take, Take, Take] = Some (outs, f') \<and>
    outs = [(0, None), (0, None), (-1, None), (0, Some [3, 4]), (0, Some [1, 2]), (-1, None)] \<and>
    filo_rel f' ys \<and> ys = [] \<and> filo_get_free_space f' = 2"
  using filo_lifo [of 2 2 "[0, 0, 0, 0]" "[Put [1, 2], Put [3, 4], Put [5, 6], Take, Take, Take]"]
  by (auto simp: has_room_def simp del: run_ops.simps)

end
