(* ===== verification/Linked_List.thy ===== *)
theory Linked_List
  imports Containers
begin

text \<open>
  The intrusive doubly linked list of \<^verbatim>\<open>src/utils/src/list.c\<close> on an explicit heap. A pointer is
  \<open>nat option\<close> with \<open>None\<close> for \<open>NULL\<close>; the heap maps the address of every live node to its two
  links. Every load and store through a pointer is checked, so \<open>None\<close> as the result of an operation
  is a null or wild dereference. The walks that follow \<open>next\<close> and \<open>prev\<close> are
  \<^theory_text>\<open>partial_function\<close>s, because on a malformed heap they need not end.
\<close>

record node_t =
  nd_next :: ptr
  nd_prev :: ptr

type_synonym nheap = "nat \<rightharpoonup> node_t"

record list_t =
  lt_head :: ptr
  lt_tail :: ptr

definition deref :: "nheap \<Rightarrow> ptr \<Rightarrow> node_t option" where
  "deref h p = (case p of None \<Rightarrow> None | Some a \<Rightarrow> h a)"

definition set_next :: "nheap \<Rightarrow> ptr \<Rightarrow> ptr \<Rightarrow> nheap option" where
  "set_next h p v = (case p of None \<Rightarrow> None
     | Some a \<Rightarrow> (case h a of None \<Rightarrow> None | Some n \<Rightarrow> Some (h(a \<mapsto> n\<lparr>nd_next := v\<rparr>))))"

definition set_prev :: "nheap \<Rightarrow> ptr \<Rightarrow> ptr \<Rightarrow> nheap option" where
  "set_prev h p v = (case p of None \<Rightarrow> None
     | Some a \<Rightarrow> (case h a of None \<Rightarrow> None | Some n \<Rightarrow> Some (h(a \<mapsto> n\<lparr>nd_prev := v\<rparr>))))"

section \<open>Operations\<close>

definition list_init :: "list_t" where
  "list_init = \<lparr>lt_head = NULL, lt_tail = NULL\<rparr>"

definition list_append :: "nheap \<Rightarrow> list_t \<Rightarrow> ptr \<Rightarrow> (nheap \<times> list_t) option" where
  "list_append h l node = do {
     h \<leftarrow> set_prev h node (lt_tail l);
     h \<leftarrow> set_next h node NULL;
     h \<leftarrow> (if lt_tail l \<noteq> NULL then set_next h (lt_tail l) node else Some h);
     let l = l\<lparr>lt_tail := node\<rparr>;
     Some (h, if lt_head l = NULL then l\<lparr>lt_head := node\<rparr> else l)
   }"

definition list_appendleft :: "nheap \<Rightarrow> list_t \<Rightarrow> ptr \<Rightarrow> (nheap \<times> list_t) option" where
  "list_appendleft h l node = do {
     h \<leftarrow> set_prev h node NULL;
     h \<leftarrow> set_next h node (lt_head l);
     h \<leftarrow> (if lt_head l \<noteq> NULL then set_prev h (lt_head l) node else Some h);
     let l = l\<lparr>lt_head := node\<rparr>;
     Some (h, if lt_tail l = NULL then l\<lparr>lt_tail := node\<rparr> else l)
   }"

definition list_pop :: "nheap \<Rightarrow> list_t \<Rightarrow> (int \<times> ptr \<times> nheap \<times> list_t) option" where
  "list_pop h l =
     (if lt_tail l = NULL then Some (-1, NULL, h, l)
      else do {
        n \<leftarrow> deref h (lt_tail l);
        let l' = l\<lparr>lt_tail := nd_prev n\<rparr>;
        (if lt_tail l' \<noteq> NULL
         then do {
           h' \<leftarrow> set_next h (lt_tail l') NULL;
           Some (0, lt_tail l, h', l')
         }
         else Some (0, lt_tail l, h, l'\<lparr>lt_head := NULL\<rparr>))
      })"

definition list_popleft :: "nheap \<Rightarrow> list_t \<Rightarrow> (int \<times> ptr \<times> nheap \<times> list_t) option" where
  "list_popleft h l =
     (if lt_head l = NULL then Some (-1, NULL, h, l)
      else do {
        n \<leftarrow> deref h (lt_head l);
        let l' = l\<lparr>lt_head := nd_next n\<rparr>;
        (if lt_head l' \<noteq> NULL
         then do {
           h' \<leftarrow> set_prev h (lt_head l') NULL;
           Some (0, lt_head l, h', l')
         }
         else Some (0, lt_head l, h, l'\<lparr>lt_tail := NULL\<rparr>))
      })"

definition list_remove_node :: "nheap \<Rightarrow> list_t \<Rightarrow> ptr \<Rightarrow> (nheap \<times> list_t) option" where
  "list_remove_node h l node = do {
     n \<leftarrow> deref h node;
     if nd_prev n = NULL then
       (let l = l\<lparr>lt_head := nd_next n\<rparr> in
        if lt_head l = NULL then Some (h, l\<lparr>lt_tail := NULL\<rparr>)
        else do { h \<leftarrow> set_prev h (lt_head l) NULL; Some (h, l) })
     else if nd_next n = NULL then
       (let l = l\<lparr>lt_tail := nd_prev n\<rparr> in
        if lt_tail l = NULL then Some (h, l\<lparr>lt_head := NULL\<rparr>)
        else do { h \<leftarrow> set_next h (lt_tail l) NULL; Some (h, l) })
     else do {
       h \<leftarrow> set_prev h (nd_next n) (nd_prev n);
       n \<leftarrow> deref h node;
       h \<leftarrow> set_next h (nd_prev n) (nd_next n);
       Some (h, l)
     }
   }"

partial_function (option) find_loop :: "nheap \<Rightarrow> ptr \<Rightarrow> ptr \<Rightarrow> ptr option" where
  "find_loop h p node =
     (if p = NULL \<or> p = node then Some p
      else Option.bind (deref h p) (\<lambda>n. find_loop h (nd_next n) node))"

definition list_find_node :: "nheap \<Rightarrow> list_t \<Rightarrow> ptr \<Rightarrow> ptr option" where
  "list_find_node h l node = find_loop h (lt_head l) node"

partial_function (option) links_loop ::
    "nheap \<Rightarrow> ptr \<Rightarrow> ptr \<Rightarrow> ptr \<Rightarrow> ptr \<Rightarrow> (ptr \<times> ptr) option" where
  "links_loop h p1 p2 p1_prev p2_next =
     (if p1 = NULL \<or> p2 = NULL \<or> p1 = p2 then Some (p1, p2)
      else Option.bind (deref h p1) (\<lambda>n1. Option.bind (deref h p2) (\<lambda>n2.
        if nd_next n1 \<noteq> nd_prev n2 \<and> nd_prev n1 = p1_prev \<and> nd_next n2 = p2_next
        then links_loop h (nd_next n1) (nd_prev n2) p1 p2
        else Some (p1, p2))))"

definition links_verdict :: "nheap \<Rightarrow> ptr \<Rightarrow> ptr \<Rightarrow> bool option" where
  \<comment> \<open>the returned condition \<open>(p1 && p2) && (p1 == p2 || p1->next == p2->prev)\<close>\<close>
  "links_verdict h p1 p2 =
     (if p1 = NULL \<or> p2 = NULL then Some False
      else if p1 = p2 then Some True
      else do {
        n1 \<leftarrow> deref h p1;
        n2 \<leftarrow> deref h p2;
        Some (nd_next n1 = nd_prev n2)
      })"

definition list_check_links :: "nheap \<Rightarrow> ptr \<Rightarrow> ptr \<Rightarrow> bool option" where
  "list_check_links h p1 p2 =
     (if p1 = NULL \<or> p2 = NULL then Some False
      else if p1 = p2 then Some True
      else do {
        n1 \<leftarrow> deref h p1;
        n2 \<leftarrow> deref h p2;
        (p1, p2) \<leftarrow> links_loop h p1 p2 (nd_prev n1) (nd_next n2);
        links_verdict h p1 p2
      })"

definition list_remove_nodes :: "nheap \<Rightarrow> list_t \<Rightarrow> ptr \<Rightarrow> ptr \<Rightarrow> (int \<times> nheap \<times> list_t) option" where
  "list_remove_nodes h l start fin = do {
     p \<leftarrow> list_find_node h l start;
     bad \<leftarrow> (if p = NULL then Some True else do { b \<leftarrow> list_check_links h start fin; Some (\<not> b) });
     if bad then Some (-1, h, l)
     else do {
       s \<leftarrow> deref h start;
       e \<leftarrow> deref h fin;
       if nd_prev s = NULL then
         (let l = l\<lparr>lt_head := nd_next e\<rparr> in
          if lt_head l = NULL then Some (0, h, l\<lparr>lt_head := NULL\<rparr>)
          else do { h \<leftarrow> set_prev h (lt_head l) NULL; Some (0, h, l) })
       else if nd_next e = NULL then do {
         h \<leftarrow> set_next h (nd_prev s) NULL;
         s \<leftarrow> deref h start;
         Some (0, h, l\<lparr>lt_tail := nd_prev s\<rparr>)
       }
       else do {
         h \<leftarrow> set_next h (nd_prev s) (nd_next e);
         e \<leftarrow> deref h fin;
         s \<leftarrow> deref h start;
         h \<leftarrow> set_prev h (nd_next e) (nd_prev s);
         Some (0, h, l)
       }
     }
   }"

definition list_insert_node :: "nheap \<Rightarrow> list_t \<Rightarrow> ptr \<Rightarrow> ptr \<Rightarrow> (nheap \<times> list_t) option" where
  "list_insert_node h l after newNode = do {
     (next, h, l) \<leftarrow>
       (if after = NULL then Some (lt_head l, h, l\<lparr>lt_head := newNode\<rparr>)
        else do {
          n \<leftarrow> deref h after;
          h \<leftarrow> set_next h after newNode;
          Some (nd_next n, h, l)
        });
     h \<leftarrow> set_prev h newNode after;
     h \<leftarrow> set_next h newNode next;
     h \<leftarrow> set_prev h next newNode;
     Some (h, l)
   }"

definition list_insert_nodes ::
    "nheap \<Rightarrow> list_t \<Rightarrow> ptr \<Rightarrow> ptr \<Rightarrow> ptr \<Rightarrow> (int \<times> nheap \<times> list_t) option" where
  "list_insert_nodes h l after start fin = do {
     b \<leftarrow> list_check_links h start fin;
     if \<not> b then Some (-1, h, l)
     else if lt_head l = NULL then Some (0, h, l\<lparr>lt_head := start, lt_tail := fin\<rparr>)
     else if after = NULL then do {
       h \<leftarrow> set_next h fin (lt_head l);
       let l = l\<lparr>lt_head := start\<rparr>;
       h \<leftarrow> set_prev h (lt_head l) NULL;
       Some (0, h, l)
     }
     else do {
       n \<leftarrow> deref h after;
       h \<leftarrow> set_next h after start;
       h \<leftarrow> set_prev h start after;
       h \<leftarrow> set_next h fin (nd_next n);
       if nd_next n \<noteq> NULL then do {
         h \<leftarrow> set_prev h (nd_next n) fin;
         Some (0, h, l)
       }
       else Some (0, h, l\<lparr>lt_tail := fin\<rparr>)
     }
   }"

section \<open>Well-formed lists\<close>

fun first_ptr :: "nat list \<Rightarrow> ptr \<Rightarrow> ptr" where
  "first_ptr [] q = q"
| "first_ptr (x # xs) q = Some x"

definition last_ptr :: "ptr \<Rightarrow> nat list \<Rightarrow> ptr" where
  "last_ptr p xs = (if xs = [] then p else Some (last xs))"

fun linked :: "nheap \<Rightarrow> ptr \<Rightarrow> nat list \<Rightarrow> ptr \<Rightarrow> bool" where
  \<comment> \<open>the nodes \<open>xs\<close> form a segment entered from \<open>p\<close> and left to \<open>q\<close>\<close>
  "linked h p [] q = True"
| "linked h p (x # xs) q =
     (h x = Some \<lparr>nd_next = first_ptr xs q, nd_prev = p\<rparr> \<and> linked h (Some x) xs q)"

definition is_dll :: "nheap \<Rightarrow> list_t \<Rightarrow> nat list \<Rightarrow> bool" where
  "is_dll h l xs \<longleftrightarrow> distinct xs \<and> linked h NULL xs NULL \<and>
     lt_head l = first_ptr xs NULL \<and> lt_tail l = last_ptr NULL xs"

lemma last_ptr_simps [simp]:
  "last_ptr p [] = p"
  "last_ptr p (x # xs) = last_ptr (Some x) xs"
  "last_ptr p (xs @ [x]) = Some x"
  by (auto simp: last_ptr_def)

lemma last_ptr_append [simp]: "last_ptr p (xs @ ys) = last_ptr (last_ptr p xs) ys"
  by (auto simp: last_ptr_def)

lemma first_ptr_append [simp]: "first_ptr (xs @ ys) q = first_ptr xs (first_ptr ys q)"
  by (cases xs) auto

lemma linked_append [simp]:
  "linked h p (xs @ ys) q \<longleftrightarrow> linked h p xs (first_ptr ys q) \<and> linked h (last_ptr p xs) ys q"
  by (induction xs arbitrary: p) auto

lemma linked_upd [simp]: "a \<notin> set xs \<Longrightarrow> linked (h(a := v)) p xs q = linked h p xs q"
  by (induction xs arbitrary: p) auto

lemma linked_dom: "linked h p xs q \<Longrightarrow> set xs \<subseteq> dom h"
  by (induction xs arbitrary: p) auto

lemma first_ptr_NULL [simp]: "first_ptr xs NULL = NULL \<longleftrightarrow> xs = []"
  by (cases xs) auto

lemma first_ptr_Some [simp]: "first_ptr xs (Some a) \<noteq> NULL"
  by (cases xs) auto

lemma last_ptr_Some [simp]: "last_ptr (Some a) xs \<noteq> NULL" and
  last_ptr_NULL [simp]: "last_ptr NULL xs = NULL \<longleftrightarrow> xs = []"
  by (auto simp: last_ptr_def)

lemma deref_Some [simp]: "deref h (Some a) = h a" and deref_NULL [simp]: "deref h NULL = None"
  by (auto simp: deref_def)

lemma set_next_Some [simp]: "h a = Some n \<Longrightarrow> set_next h (Some a) v = Some (h(a \<mapsto> n\<lparr>nd_next := v\<rparr>))"
  and set_next_NULL [simp]: "set_next h NULL v = None"
  by (auto simp: set_next_def)

lemma set_prev_Some [simp]: "h a = Some n \<Longrightarrow> set_prev h (Some a) v = Some (h(a \<mapsto> n\<lparr>nd_prev := v\<rparr>))"
  and set_prev_NULL [simp]: "set_prev h NULL v = None"
  by (auto simp: set_prev_def)

lemma node_eqI: "n\<lparr>nd_prev := p, nd_next := q\<rparr> = \<lparr>nd_next = q, nd_prev = p\<rparr>"
    "n\<lparr>nd_next := q, nd_prev := p\<rparr> = \<lparr>nd_next = q, nd_prev = p\<rparr>" for n :: node_t
  by simp_all

section \<open>Insertion and removal at the ends\<close>

lemma list_append_ok:
  assumes "is_dll h l xs" and "a \<in> dom h" and "a \<notin> set xs"
  shows "\<exists>h' l'. list_append h l (Some a) = Some (h', l') \<and> is_dll h' l' (xs @ [a]) \<and> dom h' = dom h"
proof (cases xs rule: rev_cases)
  case Nil
  then show ?thesis
    using assms by (auto simp: is_dll_def list_append_def Let_def)
next
  case (snoc ys t)
  then have t: "h t = Some \<lparr>nd_next = NULL, nd_prev = last_ptr NULL ys\<rparr>" and "t \<noteq> a" "t \<notin> set ys"
    using assms by (auto simp: is_dll_def)
  then show ?thesis
    using assms snoc by (auto simp: is_dll_def list_append_def Let_def)
qed

lemma list_appendleft_ok:
  assumes "is_dll h l xs" and "a \<in> dom h" and "a \<notin> set xs"
  shows "\<exists>h' l'. list_appendleft h l (Some a) = Some (h', l') \<and> is_dll h' l' (a # xs) \<and> dom h' = dom h"
  using assms by (cases xs) (auto simp: is_dll_def list_appendleft_def Let_def)

lemma list_popleft_ok:
  assumes "is_dll h l (x # xs)"
  shows "\<exists>h' l'. list_popleft h l = Some (0, Some x, h', l') \<and> is_dll h' l' xs \<and> dom h' = dom h"
  using assms by (cases xs) (auto simp: is_dll_def list_popleft_def Let_def)

lemma list_pop_ok:
  assumes "is_dll h l (xs @ [x])"
  shows "\<exists>h' l'. list_pop h l = Some (0, Some x, h', l') \<and> is_dll h' l' xs \<and> dom h' = dom h"
  using assms by (cases xs rule: rev_cases) (auto simp: is_dll_def list_pop_def Let_def)

lemma list_pop_empty: "is_dll h l [] \<Longrightarrow> list_pop h l = Some (-1, NULL, h, l)"
  and list_popleft_empty: "is_dll h l [] \<Longrightarrow> list_popleft h l = Some (-1, NULL, h, l)"
  by (auto simp: is_dll_def list_pop_def list_popleft_def)

lemma list_remove_node_ok:
  assumes "is_dll h l (xs @ a # ys)"
  shows "\<exists>h' l'. list_remove_node h l (Some a) = Some (h', l') \<and> is_dll h' l' (xs @ ys) \<and> dom h' = dom h"
proof -
  consider "xs = []" | "xs \<noteq> []" "ys = []" | "xs \<noteq> []" "ys \<noteq> []" by blast
  then show ?thesis
  proof cases
    case 1
    then show ?thesis
      using assms by (cases ys) (auto simp: is_dll_def list_remove_node_def Let_def)
  next
    case 2
    then show ?thesis
      using assms by (cases xs rule: rev_cases) (auto simp: is_dll_def list_remove_node_def Let_def)
  next
    case 3
    then obtain us u v vs where "xs = us @ [u]" "ys = v # vs"
      by (metis rev_exhaust list.exhaust)
    then show ?thesis
      using assms by (auto simp: is_dll_def list_remove_node_def Let_def)
  qed
qed

lemma find_loop_ok:
  assumes "linked h p xs NULL"
  shows "find_loop h (first_ptr xs NULL) (Some a) = Some (if a \<in> set xs then Some a else NULL)"
  using assms
proof (induction xs arbitrary: p)
  case Nil
  then show ?case by (simp add: find_loop.simps)
next
  case (Cons x xs)
  then show ?case by (subst find_loop.simps) auto
qed

section \<open>The range check\<close>

text \<open>
  \<^verbatim>\<open>list_check_links\<close> walks from both ends of a range towards its middle. On a range with an odd
  number of nodes the walks meet; on an even one they cross and go on to the ends of the
  surrounding list, and the verdict depends on whether both ends are equally far away.
\<close>

lemma links_loop_outward:
  assumes "linked h NULL (zs @ mid @ ys) NULL" and "distinct (zs @ mid @ ys)"
    and "zs \<noteq> []" and "ys \<noteq> []"
  shows "Option.bind (links_loop h (first_ptr ys NULL) (last_ptr NULL zs)
             (last_ptr NULL (zs @ mid)) (first_ptr (mid @ ys) NULL))
           (\<lambda>(p1, p2). links_verdict h p1 p2) = Some (length ys = length zs)"
  using assms
proof (induction ys arbitrary: zs mid)
  case Nil
  then show ?case by simp
next
  case (Cons y ys)
  obtain us z where zs: "zs = us @ [z]"
    using Cons.prems(3) by (metis rev_exhaust)
  have yz: "y \<noteq> z" and hy: "h y = Some \<lparr>nd_next = first_ptr ys NULL, nd_prev = last_ptr NULL (zs @ mid)\<rparr>"
    and hz: "h z = Some \<lparr>nd_next = first_ptr (mid @ y # ys) NULL, nd_prev = last_ptr NULL us\<rparr>"
    using Cons.prems zs by auto
  have ne: "first_ptr ys NULL = last_ptr NULL us \<longleftrightarrow> ys = [] \<and> us = []"
    using Cons.prems(2) zs by (cases ys; cases us rule: rev_cases) auto
  show ?case
  proof (cases "ys = [] \<or> us = []")
    case True
    then show ?thesis
      using hy hz yz zs ne
      by (auto simp: links_loop.simps [of h "Some y" "Some z"] links_loop.simps [of h NULL]
        links_loop.simps [of h _ NULL] links_verdict_def)
  next
    case False
    have "linked h NULL (us @ (z # mid @ [y]) @ ys) NULL" "distinct (us @ (z # mid @ [y]) @ ys)"
      using Cons.prems zs by auto
    from Cons.IH [OF this] False show ?thesis
      using hy hz yz zs ne
      by (auto simp: links_loop.simps [of h "Some y" "Some z"])
  qed
qed

lemma links_loop_inward:
  assumes "linked h NULL (pre @ x # ms @ y # post) NULL" and "distinct (pre @ x # ms @ y # post)"
  shows "Option.bind (links_loop h (Some x) (Some y) (last_ptr NULL pre) (first_ptr post NULL))
           (\<lambda>(p1, p2). links_verdict h p1 p2) = Some (odd (length ms) \<or> length pre = length post)"
  using assms
proof (induction "length ms" arbitrary: ms pre post x y rule: less_induct)
  case less
  have xy: "x \<noteq> y" and hx: "h x = Some \<lparr>nd_next = first_ptr ms (Some y), nd_prev = last_ptr NULL pre\<rparr>"
    and hy: "h y = Some \<lparr>nd_next = first_ptr post NULL, nd_prev = last_ptr (Some x) ms\<rparr>"
    using less.prems by auto
  consider "ms = []" | m where "ms = [m]" | a ns b where "ms = a # ns @ [b]"
    by (metis list.exhaust rev_exhaust append_Cons append_Nil)
  then show ?case
  proof cases
    case 1
    then show ?thesis
      using links_loop_outward [of h "pre @ [x]" "[]" "y # post"] less.prems xy hx hy
      by (auto simp: links_loop.simps [of h "Some x" "Some y"])
  next
    case 2
    then show ?thesis
      using xy hx hy by (auto simp: links_loop.simps [of h "Some x" "Some y"] links_verdict_def)
  next
    case (3 a ns b)
    have "linked h NULL ((pre @ [x]) @ a # ns @ b # (y # post)) NULL"
      "distinct ((pre @ [x]) @ a # ns @ b # (y # post))"
      using less.prems 3 by auto
    from less.hyps [OF _ this] 3 show ?thesis
      using xy hx hy less.prems by (auto simp: links_loop.simps [of h "Some x" "Some y"])
  qed
qed

lemma list_check_links_range:
  assumes "linked h NULL (pre @ xs @ post) NULL" and "distinct (pre @ xs @ post)" and "xs \<noteq> []"
  shows "list_check_links h (Some (hd xs)) (Some (last xs)) =
         Some (odd (length xs) \<or> length pre = length post)"
proof -
  consider x where "xs = [x]" | x ms y where "xs = x # ms @ [y]"
    using assms(3) by (metis list.exhaust rev_exhaust append_Nil)
  then show ?thesis
  proof cases
    case 1
    then show ?thesis by (simp add: list_check_links_def)
  next
    case (2 x ms y)
    then have "x \<noteq> y" "h x = Some \<lparr>nd_next = first_ptr ms (Some y), nd_prev = last_ptr NULL pre\<rparr>"
      "h y = Some \<lparr>nd_next = first_ptr post NULL, nd_prev = last_ptr (Some x) ms\<rparr>"
      using assms by auto
    then show ?thesis
      using links_loop_inward [of h pre x ms y post] assms 2 by (auto simp: list_check_links_def)
  qed
qed

section \<open>Ranges and insertion in the middle\<close>

lemma list_remove_nodes_ok:
  assumes dll: "is_dll h l (pre @ xs @ post)" and "xs \<noteq> []"
    and acc: "odd (length xs) \<or> length pre = length post" and "pre \<noteq> [] \<or> post \<noteq> []"
  shows "\<exists>h' l'. list_remove_nodes h l (Some (hd xs)) (Some (last xs)) = Some (0, h', l') \<and>
           is_dll h' l' (pre @ post) \<and> dom h' = dom h"
proof -
  have find: "list_find_node h l (Some (hd xs)) = Some (Some (hd xs))"
    using find_loop_ok [of h NULL "pre @ xs @ post" "hd xs"] dll assms(2)
    by (simp add: list_find_node_def is_dll_def)
  have chk: "list_check_links h (Some (hd xs)) (Some (last xs)) = Some True"
    using list_check_links_range [of h pre xs post] dll assms(2) acc by (simp add: is_dll_def)
  obtain ts y where ts: "xs = ts @ [y]" using assms(2) by (metis rev_exhaust)
  obtain x us where us: "xs = x # us" using assms(2) by (cases xs) auto
  have hx: "h x = Some \<lparr>nd_next = first_ptr us (first_ptr post NULL), nd_prev = last_ptr NULL pre\<rparr>"
    using dll us by (auto simp: is_dll_def)
  have hy: "h y = Some \<lparr>nd_next = first_ptr post NULL, nd_prev = last_ptr (last_ptr NULL pre) ts\<rparr>"
    using dll ts by (auto simp: is_dll_def)
  have xy: "hd xs = x" "last xs = y" using us by (simp, subst ts, simp)
  have mem: "x \<in> set xs" "y \<in> set xs" using us by (simp, subst ts, simp)
  have d: "distinct (pre @ post)" "x \<notin> set pre" "x \<notin> set post" "y \<notin> set pre" "y \<notin> set post"
    using dll mem by (auto simp: is_dll_def)
  have lx: "linked h NULL pre (Some x)" "lt_head l = first_ptr pre (Some x)"
    using dll us by (auto simp: is_dll_def)
  have ly: "linked h (Some y) post NULL" "lt_tail l = last_ptr (Some y) post"
    using dll ts by (auto simp: is_dll_def)
  note facts = find chk xy hx hy d lx ly
  consider "pre = []" "post \<noteq> []" | "pre \<noteq> []" "post = []" | "pre \<noteq> []" "post \<noteq> []"
    using assms(4) by blast
  then show ?thesis
  proof cases
    case 1
    then obtain v vs where "post = v # vs" by (cases post) auto
    then show ?thesis
      using facts 1 by (auto simp: list_remove_nodes_def is_dll_def Let_def)
  next
    case 2
    then obtain as u where "pre = as @ [u]" by (metis rev_exhaust)
    then show ?thesis
      using facts 2 by (auto simp: list_remove_nodes_def is_dll_def)
  next
    case 3
    then obtain as u v vs where "pre = as @ [u]" "post = v # vs" by (metis rev_exhaust list.exhaust)
    then show ?thesis
      using facts 3 by (auto simp: list_remove_nodes_def is_dll_def)
  qed
qed

lemma list_insert_node_ok:
  assumes "is_dll h l (xs @ y # ys)" and "a \<in> dom h" and "a \<notin> set (xs @ y # ys)"
  shows "\<exists>h' l'. list_insert_node h l (last_ptr NULL xs) (Some a) = Some (h', l') \<and>
           is_dll h' l' (xs @ a # y # ys) \<and> dom h' = dom h"
  using assms by (cases xs rule: rev_cases) (auto simp: is_dll_def list_insert_node_def)

lemma list_insert_node_tail:
  assumes "is_dll h l xs" and "a \<in> dom h" and "a \<notin> set xs"
  shows "list_insert_node h l (last_ptr NULL xs) (Some a) = None"
  using assms by (cases xs rule: rev_cases) (auto simp: is_dll_def list_insert_node_def)

lemma list_insert_nodes_ok:
  assumes dll: "is_dll h l (xs @ ys)" and zs: "linked h NULL zs NULL" "distinct zs" "zs \<noteq> []"
    and dis: "set zs \<inter> set (xs @ ys) = {}" and "xs \<noteq> [] \<or> ys = []"
  shows "\<exists>h' l'. list_insert_nodes h l (last_ptr NULL xs) (Some (hd zs)) (Some (last zs)) = Some (0, h', l') \<and>
           is_dll h' l' (xs @ zs @ ys) \<and> dom h' = dom h"
proof -
  have chk: "list_check_links h (Some (hd zs)) (Some (last zs)) = Some True"
    using list_check_links_range [of h "[]" zs "[]"] zs by simp
  consider z where "zs = [z]" | x ms y where "zs = x # ms @ [y]"
    using zs(3) by (metis list.exhaust rev_exhaust append_Nil)
  then show ?thesis
  proof cases
    case (1 z)
    then show ?thesis
      using assms chk by (cases xs rule: rev_cases; cases ys) (auto simp: is_dll_def list_insert_nodes_def)
  next
    case (2 x ms y)
    then show ?thesis
      using assms chk by (cases xs rule: rev_cases; cases ys) (auto simp: is_dll_def list_insert_nodes_def)
  qed
qed

section \<open>Properties\<close>

definition example_heap :: nheap where
  \<comment> \<open>the list 1, 2, 3, 4 and a free node 7\<close>
  "example_heap = [1 \<mapsto> \<lparr>nd_next = Some 2, nd_prev = NULL\<rparr>, 2 \<mapsto> \<lparr>nd_next = Some 3, nd_prev = Some 1\<rparr>,
     3 \<mapsto> \<lparr>nd_next = Some 4, nd_prev = Some 2\<rparr>, 4 \<mapsto> \<lparr>nd_next = NULL, nd_prev = Some 3\<rparr>,
     7 \<mapsto> \<lparr>nd_next = NULL, nd_prev = NULL\<rparr>]"

text \<open>
  C35: the operations at the ends of the doubly linked list keep it well formed (both link
  directions, head and tail): appending and prepending a fresh node extend the sequence, and popping
  at either end of a nonempty list returns that end and leaves the rest.
\<close>

theorem list_ends:
  assumes "is_dll h l xs"
  shows "(a \<in> dom h \<and> a \<notin> set xs \<longrightarrow>
      (\<exists>h' l'. list_append h l (Some a) = Some (h', l') \<and> is_dll h' l' (xs @ [a])) \<and>
      (\<exists>h' l'. list_appendleft h l (Some a) = Some (h', l') \<and> is_dll h' l' (a # xs))) \<and>
    (if xs = [] then list_pop h l = Some (-1, NULL, h, l) \<and> list_popleft h l = Some (-1, NULL, h, l)
     else (\<exists>h' l'. list_pop h l = Some (0, Some (last xs), h', l') \<and> is_dll h' l' (butlast xs)) \<and>
          (\<exists>h' l'. list_popleft h l = Some (0, Some (hd xs), h', l') \<and> is_dll h' l' (tl xs)))"
proof (intro conjI impI)
  assume a: "a \<in> dom h \<and> a \<notin> set xs"
  show "\<exists>h' l'. list_append h l (Some a) = Some (h', l') \<and> is_dll h' l' (xs @ [a])"
    using list_append_ok [OF assms] a by blast
  show "\<exists>h' l'. list_appendleft h l (Some a) = Some (h', l') \<and> is_dll h' l' (a # xs)"
    using list_appendleft_ok [OF assms] a by blast
next
  show "if xs = [] then list_pop h l = Some (-1, NULL, h, l) \<and> list_popleft h l = Some (-1, NULL, h, l)
     else (\<exists>h' l'. list_pop h l = Some (0, Some (last xs), h', l') \<and> is_dll h' l' (butlast xs)) \<and>
          (\<exists>h' l'. list_popleft h l = Some (0, Some (hd xs), h', l') \<and> is_dll h' l' (tl xs))"
    using assms list_pop_ok [of h l "butlast xs" "last xs"] list_popleft_ok [of h l "hd xs" "tl xs"]
      list_pop_empty list_popleft_empty by auto
qed

theorem list_ends_witness:
  "\<exists>h' l'. list_pop example_heap \<lparr>lt_head = Some 1, lt_tail = Some 4\<rparr> = Some (0, Some 4, h', l') \<and>
     is_dll h' l' [1, 2, 3]"
  using list_ends [of example_heap "\<lparr>lt_head = Some 1, lt_tail = Some 4\<rparr>" "[1, 2, 3, 4]"]
  by (simp add: is_dll_def example_heap_def)

text \<open>
  Removing a node from anywhere in the list relinks its neighbours in both directions and fixes
  head and tail, and a search afterwards does not find it although it found it before.
\<close>

theorem list_remove_node_spec:
  assumes "is_dll h l xs" and "a \<in> set xs"
  shows "list_find_node h l (Some a) = Some (Some a) \<and>
    (\<exists>h' l'. list_remove_node h l (Some a) = Some (h', l') \<and> is_dll h' l' (remove1 a xs) \<and>
       list_find_node h' l' (Some a) = Some NULL)"
proof -
  obtain ys zs where xs: "xs = ys @ a # zs" "a \<notin> set ys" using assms(2) by (metis split_list_first)
  then have rem: "remove1 a xs = ys @ zs" by (simp add: remove1_append)
  have find: "list_find_node h l (Some a) = Some (if a \<in> set xs then Some a else NULL)"
    if "is_dll h l xs" for h l xs
    using that find_loop_ok [of h NULL xs a] by (simp add: is_dll_def list_find_node_def)
  have "a \<notin> set (remove1 a xs)" using assms(1) by (simp add: is_dll_def)
  then show ?thesis
    using list_remove_node_ok [of h l ys a zs] assms find rem xs by auto
qed

theorem list_remove_node_spec_witness:
  "\<exists>h' l'. list_remove_node example_heap \<lparr>lt_head = Some 1, lt_tail = Some 4\<rparr> (Some 2) = Some (h', l') \<and>
     is_dll h' l' [1, 3, 4] \<and> list_find_node h' l' (Some 2) = Some NULL"
  using list_remove_node_spec [of example_heap "\<lparr>lt_head = Some 1, lt_tail = Some 4\<rparr>" "[1, 2, 3, 4]" 2]
  by (simp add: is_dll_def example_heap_def)

text \<open>
  C34: \<open>list_check_links\<close>, which is meant to accept every pair of nodes that bound a range of a list,
  ends on every such pair and accepts exactly the ranges of odd length and those that are equally
  far from both ends of the list.
\<close>

theorem list_check_links_spec:
  assumes "is_dll h l (pre @ xs @ post)" and "xs \<noteq> []"
  shows "list_check_links h (Some (hd xs)) (Some (last xs)) =
         Some (odd (length xs) \<or> length pre = length post)"
  using assms list_check_links_range [of h pre xs post] by (simp add: is_dll_def)

theorem list_check_links_spec_witness:
  "list_check_links example_heap (Some 1) (Some 2) = Some False"
  using list_check_links_spec [of example_heap "\<lparr>lt_head = Some 1, lt_tail = Some 4\<rparr>" "[]" "[1, 2]" "[3, 4]"]
  by (simp add: is_dll_def example_heap_def)

text \<open>
  Removing an accepted proper range closes the gap in both directions, and inserting a linked
  run of fresh nodes behind a node (or into an empty list) splices it in; both leave a well-formed
  list.
\<close>

theorem list_ranges:
  assumes "is_dll h l (pre @ xs @ post)" and "xs \<noteq> []" and "pre \<noteq> [] \<or> post \<noteq> []"
    and "odd (length xs) \<or> length pre = length post"
    and "linked h NULL zs NULL" and "distinct zs" and "zs \<noteq> []" and "set zs \<inter> set (pre @ xs @ post) = {}"
  shows "(\<exists>h' l'. list_remove_nodes h l (Some (hd xs)) (Some (last xs)) = Some (0, h', l') \<and>
            is_dll h' l' (pre @ post)) \<and>
    (\<exists>h' l'. list_insert_nodes h l (Some (last xs)) (Some (hd zs)) (Some (last zs)) = Some (0, h', l') \<and>
            is_dll h' l' (pre @ xs @ zs @ post))"
proof -
  have "last_ptr NULL (pre @ xs) = Some (last xs)" using assms(2) by (simp add: last_ptr_def)
  then show ?thesis
    using list_remove_nodes_ok [OF assms(1,2,4,3)] list_insert_nodes_ok [of h l "pre @ xs" post zs] assms
    by fastforce
qed

theorem list_ranges_witness:
  "(\<exists>h' l'. list_remove_nodes example_heap \<lparr>lt_head = Some 1, lt_tail = Some 4\<rparr> (Some 2) (Some 3) =
       Some (0, h', l') \<and> is_dll h' l' [1, 4]) \<and>
   (\<exists>h' l'. list_insert_nodes example_heap \<lparr>lt_head = Some 1, lt_tail = Some 4\<rparr> (Some 3) (Some 7) (Some 7) =
       Some (0, h', l') \<and> is_dll h' l' [1, 2, 3, 7, 4])"
  using list_ranges [of example_heap "\<lparr>lt_head = Some 1, lt_tail = Some 4\<rparr>" "[1]" "[2, 3]" "[4]" "[7]"]
  by (simp add: is_dll_def example_heap_def)

text \<open>
  \<open>list_insert_node\<close> puts a fresh node behind a given node (or first, for a null position)
  whenever a node follows that position; at the tail, and in an empty list, it dereferences a null
  pointer.
\<close>

theorem list_insert_node_spec:
  assumes "is_dll h l (xs @ ys)" and "a \<in> dom h" and "a \<notin> set (xs @ ys)"
  shows "if ys = [] then list_insert_node h l (last_ptr NULL xs) (Some a) = None
    else (\<exists>h' l'. list_insert_node h l (last_ptr NULL xs) (Some a) = Some (h', l') \<and> is_dll h' l' (xs @ a # ys))"
  using assms list_insert_node_ok [of h l xs "hd ys" "tl ys" a] list_insert_node_tail [of h l xs a]
  by (cases ys) auto

theorem list_insert_node_spec_witness:
  "list_insert_node example_heap \<lparr>lt_head = Some 1, lt_tail = Some 4\<rparr> (Some 4) (Some 7) = None"
  using list_insert_node_spec [of example_heap "\<lparr>lt_head = Some 1, lt_tail = Some 4\<rparr>" "[1, 2, 3, 4]" "[]" 7]
  by (simp add: is_dll_def example_heap_def)

end
