(* ===== verification/Slist.thy ===== *)
theory Slist
  imports Linked_List
begin

text \<open>
  The singly linked list of \<^verbatim>\<open>src/utils/src/list.c\<close> (the second half of the file) and the stack of
  \<^verbatim>\<open>src/utils/src/stack.c\<close> built on it. A node is its \<open>next\<close> link; the heap maps addresses to links.
\<close>

type_synonym sheap = "nat \<rightharpoonup> ptr"

record slist_t =
  sl_head :: ptr

definition snext :: "sheap \<Rightarrow> ptr \<Rightarrow> ptr option" where
  "snext h p = (case p of None \<Rightarrow> None | Some a \<Rightarrow> h a)"

definition set_snext :: "sheap \<Rightarrow> ptr \<Rightarrow> ptr \<Rightarrow> sheap option" where
  "set_snext h p v = (case p of None \<Rightarrow> None
     | Some a \<Rightarrow> (if h a = None then None else Some (h(a \<mapsto> v))))"

definition slist_init :: "slist_t" where
  "slist_init = \<lparr>sl_head = NULL\<rparr>"

partial_function (option) slast_loop :: "sheap \<Rightarrow> ptr \<Rightarrow> ptr option" where
  "slast_loop h p =
     (if p = NULL then Some p
      else Option.bind (snext h p) (\<lambda>q. if q = NULL then Some p else slast_loop h q))"

definition slist_append :: "sheap \<Rightarrow> slist_t \<Rightarrow> ptr \<Rightarrow> ptr \<Rightarrow> (sheap \<times> slist_t) option" where
  "slist_append h l after node = do {
     let p = (if after \<noteq> NULL then after else sl_head l);
     (h, l) \<leftarrow>
       (if p = NULL then Some (h, l\<lparr>sl_head := node\<rparr>)
        else do {
          p \<leftarrow> slast_loop h p;
          h \<leftarrow> set_snext h p node;
          Some (h, l)
        });
     h \<leftarrow> set_snext h node NULL;
     Some (h, l)
   }"

definition slist_appendleft :: "sheap \<Rightarrow> slist_t \<Rightarrow> ptr \<Rightarrow> (sheap \<times> slist_t) option" where
  "slist_appendleft h l node = do {
     h \<leftarrow> set_snext h node (sl_head l);
     Some (h, l\<lparr>sl_head := node\<rparr>)
   }"

partial_function (option) spop_loop :: "sheap \<Rightarrow> ptr \<Rightarrow> ptr \<Rightarrow> (ptr \<times> ptr) option" where
  "spop_loop h n1 n2 =
     (if n2 = NULL then Some (n1, n2)
      else Option.bind (snext h n2) (\<lambda>q.
        if q = NULL then Some (n1, n2)
        else Option.bind (snext h n1) (\<lambda>m. spop_loop h m q)))"

definition slist_pop :: "sheap \<Rightarrow> slist_t \<Rightarrow> ptr \<Rightarrow> (int \<times> ptr \<times> sheap \<times> slist_t) option" where
  "slist_pop h l after =
     (if sl_head l = NULL then Some (-1, NULL, h, l)
      else do {
        q \<leftarrow> snext h (sl_head l);
        if q = NULL then Some (0, sl_head l, h, l\<lparr>sl_head := NULL\<rparr>)
        else do {
          let n1 = (if after \<noteq> NULL then after else sl_head l);
          n2 \<leftarrow> snext h n1;
          (n1, n2) \<leftarrow> spop_loop h n1 n2;
          h \<leftarrow> set_snext h n1 NULL;
          Some (0, n2, h, l)
        }
      })"

definition slist_popleft :: "sheap \<Rightarrow> slist_t \<Rightarrow> (int \<times> ptr \<times> sheap \<times> slist_t) option" where
  "slist_popleft h l =
     (if sl_head l = NULL then Some (-1, NULL, h, l)
      else do {
        q \<leftarrow> snext h (sl_head l);
        Some (0, sl_head l, h, l\<lparr>sl_head := q\<rparr>)
      })"

partial_function (option) sfind_loop :: "sheap \<Rightarrow> ptr \<Rightarrow> ptr \<Rightarrow> ptr \<Rightarrow> (ptr \<times> ptr) option" where
  "sfind_loop h prev cur node =
     (if cur = NULL \<or> cur = node then Some (prev, cur)
      else Option.bind (snext h cur) (\<lambda>q. sfind_loop h cur q node))"

definition slist_remove_node :: "sheap \<Rightarrow> slist_t \<Rightarrow> ptr \<Rightarrow> (int \<times> sheap \<times> slist_t) option" where
  "slist_remove_node h l node = do {
     (prev, cur) \<leftarrow> sfind_loop h NULL (sl_head l) node;
     if cur = NULL then Some (-1, h, l)
     else do {
       q \<leftarrow> snext h cur;
       if prev = NULL then Some (0, h, l\<lparr>sl_head := q\<rparr>)
       else do { h \<leftarrow> set_snext h prev q; Some (0, h, l) }
     }
   }"

definition slist_insert_node :: "sheap \<Rightarrow> slist_t \<Rightarrow> ptr \<Rightarrow> ptr \<Rightarrow> (sheap \<times> slist_t) option" where
  "slist_insert_node h l after newNode =
     (if after = NULL then do {
        h \<leftarrow> set_snext h newNode (sl_head l);
        Some (h, l\<lparr>sl_head := newNode\<rparr>)
      }
      else do {
        q \<leftarrow> snext h after;
        h \<leftarrow> set_snext h newNode q;
        h \<leftarrow> set_snext h after newNode;
        Some (h, l)
      })"

section \<open>The stack\<close>

record stack_t =
  st_list :: slist_t

definition stack_init :: stack_t where
  "stack_init = \<lparr>st_list = slist_init\<rparr>"

definition stack_push :: "sheap \<Rightarrow> stack_t \<Rightarrow> ptr \<Rightarrow> (sheap \<times> stack_t) option" where
  "stack_push h s node = do {
     (h, l) \<leftarrow> slist_appendleft h (st_list s) node;
     Some (h, s\<lparr>st_list := l\<rparr>)
   }"

definition stack_pop :: "sheap \<Rightarrow> stack_t \<Rightarrow> (int \<times> ptr \<times> sheap \<times> stack_t) option" where
  "stack_pop h s = do {
     (rc, p, h, l) \<leftarrow> slist_popleft h (st_list s);
     Some (rc, p, h, s\<lparr>st_list := l\<rparr>)
   }"

definition stack_get_top :: "stack_t \<Rightarrow> int \<times> ptr" where
  "stack_get_top s =
     (if sl_head (st_list s) = NULL then (-1, NULL) else (0, sl_head (st_list s)))"

section \<open>Well-formed lists\<close>

fun slinked :: "sheap \<Rightarrow> nat list \<Rightarrow> ptr \<Rightarrow> bool" where
  "slinked h [] q = True"
| "slinked h (x # xs) q = (h x = Some (first_ptr xs q) \<and> slinked h xs q)"

definition is_sll :: "sheap \<Rightarrow> slist_t \<Rightarrow> nat list \<Rightarrow> bool" where
  "is_sll h l xs \<longleftrightarrow> distinct xs \<and> slinked h xs NULL \<and> sl_head l = first_ptr xs NULL"

lemma slinked_append [simp]:
  "slinked h (xs @ ys) q \<longleftrightarrow> slinked h xs (first_ptr ys q) \<and> slinked h ys q"
  by (induction xs) auto

lemma slinked_upd [simp]: "a \<notin> set xs \<Longrightarrow> slinked (h(a := v)) xs q = slinked h xs q"
  by (induction xs) auto

lemma snext_Some [simp]: "snext h (Some a) = h a" and snext_NULL [simp]: "snext h NULL = None"
  by (auto simp: snext_def)

lemma set_snext_Some [simp]: "h a = Some q \<Longrightarrow> set_snext h (Some a) v = Some (h(a \<mapsto> v))"
  and set_snext_NULL [simp]: "set_snext h NULL v = None"
  by (auto simp: set_snext_def)

lemma slast_loop_ok: "slinked h (xs @ [x]) NULL \<Longrightarrow> slast_loop h (first_ptr (xs @ [x]) NULL) = Some (Some x)"
proof (induction xs)
  case Nil
  then show ?case by (simp add: slast_loop.simps)
next
  case (Cons y ys)
  then show ?case
    by (subst slast_loop.simps) auto
qed

lemma spop_loop_ok:
  "slinked h (x # xs @ [y, z]) NULL \<Longrightarrow>
   spop_loop h (Some x) (first_ptr (xs @ [y, z]) NULL) = Some (Some y, Some z)"
proof (induction xs arbitrary: x)
  case Nil
  then show ?case by (simp add: spop_loop.simps)
next
  case (Cons a as)
  have "first_ptr (as @ [y, z]) NULL \<noteq> NULL" by simp
  with Cons show ?case
    by (subst spop_loop.simps) auto
qed

lemma sfind_loop_ok:
  "slinked h (xs @ a # ys) q \<Longrightarrow> a \<notin> set xs \<Longrightarrow>
   sfind_loop h p (first_ptr (xs @ a # ys) q) (Some a) = Some (last_ptr p xs, Some a)"
proof (induction xs arbitrary: p)
  case Nil
  then show ?case by (simp add: sfind_loop.simps)
next
  case (Cons x xs)
  then show ?case by (subst sfind_loop.simps) auto
qed

lemma sfind_loop_absent:
  "slinked h xs NULL \<Longrightarrow> a \<notin> set xs \<Longrightarrow>
   \<exists>p'. sfind_loop h p (first_ptr xs NULL) (Some a) = Some (p', NULL)"
proof (induction xs arbitrary: p)
  case Nil
  then show ?case by (simp add: sfind_loop.simps)
next
  case (Cons x xs)
  then show ?case by (subst sfind_loop.simps) auto
qed

lemma slist_appendleft_ok:
  assumes "is_sll h l xs" and "a \<in> dom h" and "a \<notin> set xs"
  shows "\<exists>h' l'. slist_appendleft h l (Some a) = Some (h', l') \<and> is_sll h' l' (a # xs) \<and> dom h' = dom h"
  using assms by (auto simp: is_sll_def slist_appendleft_def)

lemma slist_append_ok:
  assumes "is_sll h l xs" and "a \<in> dom h" and "a \<notin> set xs"
  shows "\<exists>h' l'. slist_append h l NULL (Some a) = Some (h', l') \<and> is_sll h' l' (xs @ [a]) \<and> dom h' = dom h"
proof (cases xs rule: rev_cases)
  case Nil
  then show ?thesis using assms by (auto simp: is_sll_def slist_append_def)
next
  case (snoc ys y)
  then have "slast_loop h (sl_head l) = Some (Some y)"
    using assms slast_loop_ok [of h ys y] by (auto simp: is_sll_def)
  then show ?thesis
    using snoc assms by (auto simp: is_sll_def slist_append_def)
qed

lemma slist_pop_ok:
  assumes "is_sll h l (xs @ [x])"
  shows "\<exists>h' l'. slist_pop h l NULL = Some (0, Some x, h', l') \<and> is_sll h' l' xs \<and> dom h' = dom h"
proof -
  consider "xs = []" | y where "xs = [y]" | a ys y where "xs = a # ys @ [y]"
    by (metis list.exhaust rev_exhaust append_Nil)
  then show ?thesis
  proof cases
    case 1
    then show ?thesis using assms by (auto simp: is_sll_def slist_pop_def)
  next
    case (2 y)
    then show ?thesis
      using assms by (auto simp: is_sll_def slist_pop_def spop_loop.simps)
  next
    case (3 a ys y)
    then have "spop_loop h (Some a) (first_ptr (ys @ [y, x]) NULL) = Some (Some y, Some x)"
      using assms spop_loop_ok [of h a ys y x] by (auto simp: is_sll_def)
    then show ?thesis
      using assms 3 by (auto simp: is_sll_def slist_pop_def)
  qed
qed

lemma slist_remove_node_ok:
  assumes "is_sll h l (xs @ a # ys)"
  shows "\<exists>h' l'. slist_remove_node h l (Some a) = Some (0, h', l') \<and> is_sll h' l' (xs @ ys) \<and> dom h' = dom h"
proof -
  have "sfind_loop h NULL (sl_head l) (Some a) = Some (last_ptr NULL xs, Some a)"
    using assms sfind_loop_ok [of h xs a ys NULL NULL] by (auto simp: is_sll_def)
  then show ?thesis
    using assms by (cases xs rule: rev_cases) (auto simp: is_sll_def slist_remove_node_def)
qed

lemma slist_remove_node_absent:
  "is_sll h l xs \<Longrightarrow> a \<notin> set xs \<Longrightarrow> slist_remove_node h l (Some a) = Some (-1, h, l)"
  using sfind_loop_absent [of h xs a NULL] by (auto simp: is_sll_def slist_remove_node_def)

lemma slist_insert_node_ok:
  assumes "is_sll h l (xs @ ys)" and "a \<in> dom h" and "a \<notin> set (xs @ ys)"
  shows "\<exists>h' l'. slist_insert_node h l (last_ptr NULL xs) (Some a) = Some (h', l') \<and>
           is_sll h' l' (xs @ a # ys) \<and> dom h' = dom h"
  using assms by (cases xs rule: rev_cases) (auto simp: is_sll_def slist_insert_node_def)

section \<open>The stack is an unbounded LIFO\<close>

definition stack_rel :: "sheap \<times> stack_t \<Rightarrow> nat list \<Rightarrow> bool" where
  "stack_rel = (\<lambda>(h, s) xs. is_sll h (st_list s) xs)"

definition stack_adm :: "sheap \<times> stack_t \<Rightarrow> nat list \<Rightarrow> nat \<Rightarrow> bool" where
  "stack_adm = (\<lambda>(h, s) xs a. a \<in> dom h \<and> a \<notin> set xs)"

definition stack_ins :: "sheap \<times> stack_t \<Rightarrow> nat \<Rightarrow> (int \<times> sheap \<times> stack_t) option" where
  "stack_ins = (\<lambda>(h, s) a. map_option (\<lambda>hs. (0, hs)) (stack_push h s (Some a)))"

definition stack_rem :: "sheap \<times> stack_t \<Rightarrow> (int \<times> nat option \<times> sheap \<times> stack_t) option" where
  "stack_rem = (\<lambda>(h, s). stack_pop h s)"

interpretation sts: lifo stack_rel stack_adm "\<lambda>_. None" stack_ins stack_rem
proof (unfold_locales, goal_cases)
  case (1 s xs a)
  then show ?case
    using slist_appendleft_ok [of "fst s" "st_list (snd s)" xs a]
    by (cases s) (force simp: stack_rel_def stack_adm_def stack_ins_def stack_push_def fun_eq_iff)
next
  case (2 s xs a)
  then show ?case by (simp add: has_room_def)
next
  case (3 s)
  then show ?case
    by (cases s) (auto simp: stack_rel_def stack_rem_def stack_pop_def slist_popleft_def is_sll_def)
next
  case (4 s a xs)
  then show ?case
    by (cases s) (auto simp: stack_rel_def stack_rem_def stack_pop_def slist_popleft_def is_sll_def
        stack_adm_def fun_eq_iff)
qed

section \<open>Properties\<close>

lemma stack_init_rel: "stack_rel (h, stack_init) []"
  by (simp add: stack_rel_def stack_init_def slist_init_def is_sll_def)

text \<open>
  C37: the linked stack is a LIFO: on any sequence of pushes of allocated nodes that are not on the
  stack and of pops, no pointer is misused, the answers are those of the list stack, and
  \<open>stack_get_top\<close> shows the first node of what is left.
\<close>

theorem stack_lifo:
  assumes "ops_ok (\<lambda>xs a. a \<in> dom h \<and> a \<notin> set xs) None (\<lambda>xs x. x # xs) [] ops"
  shows "\<exists>outs h' s' ys. run_ops stack_ins stack_rem (h, stack_init) ops = Some (outs, h', s') \<and>
    spec_ops None (\<lambda>xs x. x # xs) [] ops = (outs, ys) \<and> stack_rel (h', s') ys \<and>
    stack_get_top s' = (if ys = [] then (-1, NULL) else (0, Some (hd ys)))"
proof -
  have adm: "stack_adm (h, stack_init) = (\<lambda>xs a. a \<in> dom h \<and> a \<notin> set xs)"
    by (auto simp: stack_adm_def fun_eq_iff)
  obtain outs ys where sp: "spec_ops None (\<lambda>xs x. x # xs) [] ops = (outs, ys)" by fastforce
  then obtain h' s' where s: "run_ops stack_ins stack_rem (h, stack_init) ops = Some (outs, h', s')"
      "stack_rel (h', s') ys"
    using sts.run_refines [OF stack_init_rel, of h ops] assms by (auto simp: adm)
  then have "stack_get_top s' = (if ys = [] then (-1, NULL) else (0, Some (hd ys)))"
    by (cases ys) (auto simp: stack_rel_def is_sll_def stack_get_top_def)
  then show ?thesis using s sp by blast
qed

theorem stack_lifo_witness:
  "\<exists>outs h' s' ys. run_ops stack_ins stack_rem ([5 \<mapsto> NULL, 9 \<mapsto> Some 3], stack_init)
      [Put 5, Put 9, Take] = Some (outs, h', s') \<and>
    outs = [(0, None), (0, None), (0, Some 9)] \<and> stack_get_top s' = (0, Some 5)"
  using stack_lifo [of "[5 \<mapsto> NULL, 9 \<mapsto> Some 3]" "[Put 5, Put 9, Take]"]
  by (auto simp: has_room_def)

text \<open>
  editing a singly linked list keeps it well formed and does what the operation says:
  \<open>slist_remove_node\<close> unlinks exactly the given node and reports -1, changing nothing, for a node that
  is not in the list; appending a fresh node and popping from the tail restores the sequence.
\<close>

theorem slist_edit:
  assumes "is_sll h l xs" and "a \<in> dom h"
  shows "(\<exists>h' l'. slist_remove_node h l (Some a) = Some (if a \<in> set xs then 0 else -1, h', l') \<and>
            is_sll h' l' (remove1 a xs) \<and> (a \<notin> set xs \<longrightarrow> h' = h \<and> l' = l)) \<and>
    (a \<notin> set xs \<longrightarrow> (\<exists>h1 l1 h2 l2. slist_append h l NULL (Some a) = Some (h1, l1) \<and>
       is_sll h1 l1 (xs @ [a]) \<and> slist_pop h1 l1 NULL = Some (0, Some a, h2, l2) \<and> is_sll h2 l2 xs))"
proof (cases "a \<in> set xs")
  case True
  then obtain ys zs where xs: "xs = ys @ a # zs" "a \<notin> set ys" by (metis split_list_first)
  then have "remove1 a xs = ys @ zs" by (simp add: remove1_append)
  then show ?thesis using slist_remove_node_ok [of h l ys a zs] assms(1) xs True by auto
next
  case False
  obtain h1 l1 where 1: "slist_append h l NULL (Some a) = Some (h1, l1)" "is_sll h1 l1 (xs @ [a])"
    using slist_append_ok [OF assms False] by blast
  then show ?thesis
    using slist_remove_node_absent [OF assms(1) False] slist_pop_ok [OF 1(2)] False assms(1)
    by (auto simp: remove1_idem)
qed

theorem slist_edit_witness:
  "\<exists>h' l'. slist_remove_node [1 \<mapsto> Some 2, 2 \<mapsto> NULL] \<lparr>sl_head = Some 1\<rparr> (Some 2) = Some (0, h', l') \<and>
     is_sll h' l' [1]"
  using slist_edit [of "[1 \<mapsto> Some 2, 2 \<mapsto> NULL]" "\<lparr>sl_head = Some 1\<rparr>" "[1, 2]" 2]
  by (simp add: is_sll_def)

end
