(* ===== verification/Queue.thy ===== *)
theory Queue
  imports Linked_List
begin

text \<open>
  The queue of \<^verbatim>\<open>src/utils/src/queue.c\<close> on the doubly linked list, and its interpretation as an
  unbounded FIFO. The work queue relies on that contract.
\<close>

record queue_t =
  q_list :: list_t

definition queue_init :: queue_t where
  "queue_init = \<lparr>q_list = list_init\<rparr>"

definition queue_enqueue :: "nheap \<Rightarrow> queue_t \<Rightarrow> ptr \<Rightarrow> (nheap \<times> queue_t) option" where
  "queue_enqueue h q node = do {
     (h, l) \<leftarrow> list_append h (q_list q) node;
     Some (h, q\<lparr>q_list := l\<rparr>)
   }"

definition queue_dequeue :: "nheap \<Rightarrow> queue_t \<Rightarrow> (int \<times> ptr \<times> nheap \<times> queue_t) option" where
  "queue_dequeue h q = do {
     (rc, p, h, l) \<leftarrow> list_popleft h (q_list q);
     Some (rc, p, h, q\<lparr>q_list := l\<rparr>)
   }"

definition queue_peek_last :: "queue_t \<Rightarrow> int \<times> ptr" where
  "queue_peek_last q = (if lt_tail (q_list q) = NULL then (-1, NULL) else (0, lt_tail (q_list q)))"

definition queue_peek_first :: "queue_t \<Rightarrow> int \<times> ptr" where
  "queue_peek_first q = (if lt_head (q_list q) = NULL then (-1, NULL) else (0, lt_head (q_list q)))"

definition queue_rel :: "nheap \<times> queue_t \<Rightarrow> nat list \<Rightarrow> bool" where
  "queue_rel = (\<lambda>(h, q) xs. is_dll h (q_list q) xs)"

definition queue_adm :: "nheap \<times> queue_t \<Rightarrow> nat list \<Rightarrow> nat \<Rightarrow> bool" where
  "queue_adm = (\<lambda>(h, q) xs a. a \<in> dom h \<and> a \<notin> set xs)"

definition queue_ins :: "nheap \<times> queue_t \<Rightarrow> nat \<Rightarrow> (int \<times> nheap \<times> queue_t) option" where
  "queue_ins = (\<lambda>(h, q) a. map_option (\<lambda>hq. (0, hq)) (queue_enqueue h q (Some a)))"

definition queue_rem :: "nheap \<times> queue_t \<Rightarrow> (int \<times> nat option \<times> nheap \<times> queue_t) option" where
  "queue_rem = (\<lambda>(h, q). queue_dequeue h q)"

lemma queue_init_rel: "queue_rel (h, queue_init) []"
  by (simp add: queue_rel_def queue_init_def list_init_def is_dll_def)

lemma queue_peek_rel:
  assumes "queue_rel (h, q) xs"
  shows "queue_peek_first q = (if xs = [] then (-1, NULL) else (0, Some (hd xs)))"
    and "queue_peek_last q = (if xs = [] then (-1, NULL) else (0, Some (last xs)))"
  using assms
  by (cases xs; auto simp: queue_rel_def is_dll_def queue_peek_first_def)
     (use assms in \<open>auto simp: queue_rel_def is_dll_def queue_peek_last_def last_ptr_def\<close>)

interpretation qfifo: fifo queue_rel queue_adm "\<lambda>_. None" queue_ins queue_rem
proof (unfold_locales, goal_cases)
  case (1 s xs a)
  then show ?case
    using list_append_ok [of "fst s" "q_list (snd s)" xs a]
    by (cases s) (force simp: queue_rel_def queue_adm_def queue_ins_def queue_enqueue_def fun_eq_iff)
next
  case (2 s xs a)
  then show ?case by (simp add: has_room_def)
next
  case (3 s)
  then show ?case
    using list_popleft_empty [of "fst s" "q_list (snd s)"]
    by (cases s) (auto simp: queue_rel_def queue_rem_def queue_dequeue_def)
next
  case (4 s a xs)
  then show ?case
    using list_popleft_ok [of "fst s" "q_list (snd s)" a xs]
    by (cases s) (force simp: queue_rel_def queue_rem_def queue_dequeue_def queue_adm_def fun_eq_iff)
qed

section \<open>Properties\<close>

text \<open>
  C36: the linked queue is a FIFO: on any sequence of enqueues of nodes that are allocated and not yet
  queued, and of dequeues, no pointer is misused, the answers are those of the list queue, the nodes
  accepted are the nodes dequeued, in order, followed by the nodes still linked, and peeking shows
  the two ends of what is left.
\<close>

theorem queue_fifo:
  assumes "ops_ok (\<lambda>xs a. a \<in> dom h \<and> a \<notin> set xs) None (\<lambda>xs x. xs @ [x]) [] ops"
  shows "\<exists>outs h' q' ys. run_ops queue_ins queue_rem (h, queue_init) ops = Some (outs, h', q') \<and>
    spec_ops None (\<lambda>xs x. xs @ [x]) [] ops = (outs, ys) \<and> queue_rel (h', q') ys \<and>
    accepted ops outs = taken outs @ ys \<and>
    queue_peek_first q' = (if ys = [] then (-1, NULL) else (0, Some (hd ys))) \<and>
    queue_peek_last q' = (if ys = [] then (-1, NULL) else (0, Some (last ys)))"
proof -
  have adm: "queue_adm (h, queue_init) = (\<lambda>xs a. a \<in> dom h \<and> a \<notin> set xs)"
    by (auto simp: queue_adm_def fun_eq_iff)
  obtain outs ys where sp: "spec_ops None (\<lambda>xs x. xs @ [x]) [] ops = (outs, ys)" by fastforce
  then obtain s where "run_ops queue_ins queue_rem (h, queue_init) ops = Some (outs, s)" "queue_rel s ys"
    using qfifo.run_refines [OF queue_init_rel, of h ops] assms by (auto simp: adm)
  then show ?thesis
    using spec_fifo [OF sp] sp queue_peek_rel by (cases s) fastforce
qed

theorem queue_fifo_witness:
  "\<exists>outs h' q' ys. run_ops queue_ins queue_rem
      ([5 \<mapsto> \<lparr>nd_next = NULL, nd_prev = NULL\<rparr>, 9 \<mapsto> \<lparr>nd_next = NULL, nd_prev = NULL\<rparr>], queue_init)
      [Put 5, Put 9, Take] = Some (outs, h', q') \<and>
    outs = [(0, None), (0, None), (0, Some 5)] \<and> queue_peek_first q' = (0, Some 9)"
  using queue_fifo [of "[5 \<mapsto> \<lparr>nd_next = NULL, nd_prev = NULL\<rparr>, 9 \<mapsto> \<lparr>nd_next = NULL, nd_prev = NULL\<rparr>]"
      "[Put 5, Put 9, Take]"]
  by (auto simp: has_room_def)

end
