(* ===== verification/Workqueue.thy ===== *)
theory Workqueue
  imports Queue
begin

text \<open>
  The thread pool of \<^verbatim>\<open>src/utils/src/workqueue.c\<close>: worker threads that take works from a shared backlog, which is the linked queue
  of \<^verbatim>\<open>queue.c\<close> behind a mutex, and sleep on a pipe of their own. Each thread is a program counter; the threads share one state and
  interleave between the accesses to it. The work functions are code of the client: what a call returns is an argument of
  the step. The mutex and the pipes have their documented behaviour: locking waits for the holder, reading from an empty
  pipe waits for a byte. Pipes are unbounded here; \<open>complete_fn\<close> is recorded but does not call back into the queue. The code reads and writes \<open>w->state\<close>,
  \<open>work->requests\<close> and \<open>work->status\<close> without the mutex; each of these loads and stores is taken to be one indivisible step,
  as it is for aligned words on the usual machines, although the C standard calls such races undefined.
  The part of \<open>workqueue_destroy\<close> that follows the flush is in the theory of the life of a queue.
\<close>

section \<open>State\<close>

datatype work_status = WQ_WORK_NEW | WQ_WORK_QUEUED | WQ_WORK_IN_PROGRESS | WQ_WORK_COMPLETE

record work_t =
  wk_slice :: "64 word"
  wk_status :: work_status
  wk_requests :: "32 word"
  wk_has_fn :: bool

datatype worker_state_e = WQ_WORKER_STATE_OFFLINE | WQ_WORKER_STATE_IDLE | WQ_WORKER_STATE_RUNNING

record worker_t =
  wr_state :: worker_state_e
  wr_event :: nat \<comment> \<open>bytes in the pipe\<close>

datatype pc =
    W_start | W_wait bool | W_awake | W_fetch | W_dequeue | W_fetched ptr | W_test nat | W_early nat | W_begin nat | W_call nat | W_returned nat int
  | W_complete nat | W_callback nat | W_idle
  | P_lock nat | P_enqueue nat | P_unlock | P_scan nat | P_signal nat
  | C_ready | C_flush_lock | C_flush | C_flush_unlock | C_gone

datatype event = Added nat | Called nat int | Completed nat | Cancelled nat | Flushed nat

record workqueue_t =
  wq_heap :: nheap
  wq_backlog :: queue_t
  wq_backlog_count :: int
  wq_lock :: "nat option"
  wq_workers :: "worker_t list"
  wq_works :: "nat \<rightharpoonup> work_t"
  wq_pcs :: "pc list" \<comment> \<open>the workers first, then the clients\<close>
  wq_log :: "event list" \<comment> \<open>what the client has seen, the latest first\<close>
  wq_owned :: "nat list" \<comment> \<open>works added and not yet handed back\<close>

definition WQ_REQ_CANCEL_WORK :: "32 word" where
  "WQ_REQ_CANCEL_WORK = 1"

section \<open>Operations\<close>

definition goto_pc :: "nat \<Rightarrow> pc \<Rightarrow> workqueue_t \<Rightarrow> workqueue_t" where
  "goto_pc t c s = s\<lparr>wq_pcs := (wq_pcs s)[t := c]\<rparr>"

definition set_state :: "nat \<Rightarrow> worker_state_e \<Rightarrow> workqueue_t \<Rightarrow> workqueue_t" where
  "set_state i v s = s\<lparr>wq_workers := (wq_workers s)[i := (wq_workers s ! i)\<lparr>wr_state := v\<rparr>]\<rparr>"

definition set_work :: "nat \<Rightarrow> (work_t \<Rightarrow> work_t) \<Rightarrow> workqueue_t \<Rightarrow> workqueue_t option" where
  "set_work a f s = (case wq_works s a of None \<Rightarrow> None | Some w \<Rightarrow> Some (s\<lparr>wq_works := (wq_works s)(a \<mapsto> f w)\<rparr>))"

definition cancel_requested :: "nat \<Rightarrow> workqueue_t \<Rightarrow> bool option" where
  "cancel_requested a s = map_option (\<lambda>w. wk_requests w AND WQ_REQ_CANCEL_WORK \<noteq> 0) (wq_works s a)"

definition emit_event :: "event \<Rightarrow> workqueue_t \<Rightarrow> workqueue_t" where
  "emit_event e s = s\<lparr>wq_log := e # wq_log s\<rparr>"

definition after_put :: "nat \<Rightarrow> workqueue_t \<Rightarrow> pc" where
  \<comment> \<open>where \<open>put_backlog\<close> returns to\<close>
  "after_put t s = (if t < length (wq_workers s) then W_fetch else C_ready)"

definition flush_fd :: "nat \<Rightarrow> nat \<Rightarrow> bool \<Rightarrow> workqueue_t \<Rightarrow> workqueue_t" where
  \<comment> \<open>one \<open>read\<close> of at most \<open>n\<close> bytes; a full buffer means another round\<close>
  "flush_fd n t ret s =
     (let w = wq_workers s ! t; len = min n (wr_event w);
          s = s\<lparr>wq_workers := (wq_workers s)[t := w\<lparr>wr_event := wr_event w - len\<rparr>]\<rparr> in
      goto_pc t (if len = n then W_wait (ret \<or> 0 < len) else if ret \<or> 0 < len then W_awake else C_gone) s)"

definition event_set :: "nat \<Rightarrow> workqueue_t \<Rightarrow> workqueue_t" where
  "event_set i s = s\<lparr>wq_workers := (wq_workers s)[i := (wq_workers s ! i)\<lparr>wr_event := wr_event (wq_workers s ! i) + 8\<rparr>]\<rparr>"

definition get_backlog :: "nat \<Rightarrow> workqueue_t \<Rightarrow> (ptr \<times> workqueue_t) option" where
  \<comment> \<open>between lock and unlock\<close>
  "get_backlog t s = do {
     (rc, node, h, q) \<leftarrow> queue_dequeue (wq_heap s) (wq_backlog s);
     let s = s\<lparr>wq_heap := h, wq_backlog := q\<rparr>;
     if rc = 0 then do { n \<leftarrow> cint (wq_backlog_count s - 1); Some (node, s\<lparr>wq_backlog_count := n\<rparr>) } else Some (NULL, s)
   }"

definition put_backlog :: "nat \<Rightarrow> workqueue_t \<Rightarrow> workqueue_t option" where
  "put_backlog a s = do {
     (h, q) \<leftarrow> queue_enqueue (wq_heap s) (wq_backlog s) (Some a);
     n \<leftarrow> cint (wq_backlog_count s + 1);
     Some (s\<lparr>wq_heap := h, wq_backlog := q, wq_backlog_count := n\<rparr>)
   }"

definition wakeup_first_free_worker :: "nat \<Rightarrow> nat \<Rightarrow> workqueue_t \<Rightarrow> workqueue_t" where
  \<comment> \<open>one iteration\<close>
  "wakeup_first_free_worker t i s =
     (if i < length (wq_workers s) then
        if wr_state (wq_workers s ! i) = WQ_WORKER_STATE_IDLE then goto_pc t (P_signal i) s else goto_pc t (P_scan (i + 1)) s
      else goto_pc t (after_put t s) s)"

definition flush_backlog :: "nat \<Rightarrow> workqueue_t \<Rightarrow> workqueue_t option" where
  \<comment> \<open>one iteration\<close>
  "flush_backlog t s = do {
     (node, s) \<leftarrow> get_backlog t s;
     case node of
       None \<Rightarrow> Some (goto_pc t C_flush_unlock s)
     | Some a \<Rightarrow> do { s \<leftarrow> set_work a (\<lambda>w. w\<lparr>wk_status := WQ_WORK_COMPLETE\<rparr>) s; Some (emit_event (Flushed a) (s\<lparr>wq_owned := remove1 a (wq_owned s)\<rparr>)) }
   }"

definition enabled :: "nat \<Rightarrow> workqueue_t \<Rightarrow> bool" where
  \<comment> \<open>the thread is not blocked and inside a function of the queue\<close>
  "enabled t s = (t < length (wq_pcs s) \<and> (case wq_pcs s ! t of
      W_wait _ \<Rightarrow> 0 < wr_event (wq_workers s ! t) | W_fetch \<Rightarrow> wq_lock s = None | P_lock _ \<Rightarrow> wq_lock s = None | C_flush_lock \<Rightarrow> wq_lock s = None
    | C_ready \<Rightarrow> False | C_gone \<Rightarrow> False | _ \<Rightarrow> True))"

definition complete_work :: "nat \<Rightarrow> nat \<Rightarrow> pc \<Rightarrow> workqueue_t \<Rightarrow> workqueue_t option" where
  \<comment> \<open>the store to the status; the callback is a step of its own\<close>
  "complete_work t a c s = map_option (goto_pc t c) (set_work a (\<lambda>w. w\<lparr>wk_status := WQ_WORK_COMPLETE\<rparr>) s)"

definition do_work :: "int \<Rightarrow> work_t \<Rightarrow> work_t option" where
  \<comment> \<open>\<open>slice += dt\<close> on a signed 64-bit integer; overflow is undefined\<close>
  "do_work dt w = (let n = sint (wk_slice w) + dt in if - (2 ^ 63) \<le> n \<and> n < 2 ^ 63 then Some (w\<lparr>wk_slice := word_of_int n\<rparr>) else None)"

definition workqueue_factory :: "int \<Rightarrow> int \<Rightarrow> nat \<Rightarrow> workqueue_t \<Rightarrow> workqueue_t option" where
  \<comment> \<open>one step of thread \<open>t\<close>; a call of the work function returns \<open>rc\<close> after \<open>dt\<close> microseconds\<close>
  "workqueue_factory rc dt t s = (case wq_pcs s ! t of
      W_start \<Rightarrow> Some (goto_pc t (W_wait False) (set_state t WQ_WORKER_STATE_IDLE s))
    | W_wait ret \<Rightarrow> Some (flush_fd 64 t ret s)
    | W_awake \<Rightarrow> Some (goto_pc t W_fetch (set_state t WQ_WORKER_STATE_RUNNING s))
    | W_fetch \<Rightarrow> Some (goto_pc t W_dequeue (s\<lparr>wq_lock := Some t\<rparr>))
    | W_dequeue \<Rightarrow> map_option (\<lambda>(node, s). goto_pc t (W_fetched node) s) (get_backlog t s)
    | W_fetched node \<Rightarrow> Some (goto_pc t (case node of None \<Rightarrow> W_idle | Some a \<Rightarrow> W_test a) (s\<lparr>wq_lock := None\<rparr>))
    | W_test a \<Rightarrow> Option.bind (cancel_requested a s) (\<lambda>c. if c then complete_work t a (W_early a) s else Some (goto_pc t (W_begin a) s))
    | W_early a \<Rightarrow> Some (goto_pc t (W_begin a) (emit_event (Completed a) s))
    | W_begin a \<Rightarrow> map_option (goto_pc t (W_call a)) (set_work a (\<lambda>w. w\<lparr>wk_status := WQ_WORK_IN_PROGRESS\<rparr>) s)
    | W_call a \<Rightarrow> do { w \<leftarrow> wq_works s a; w' \<leftarrow> do_work dt w; s \<leftarrow> set_work a (\<lambda>_. w') s; Some (goto_pc t (W_returned a rc) (emit_event (Called a rc) s)) }
    | W_returned a rc \<Rightarrow> map_option (\<lambda>c. goto_pc t (if rc \<le> 0 \<or> c then W_complete a else P_lock a) s) (cancel_requested a s)
    | W_complete a \<Rightarrow> complete_work t a (W_callback a) s
    | W_callback a \<Rightarrow> Some (goto_pc t W_fetch (emit_event (Completed a) (s\<lparr>wq_owned := remove1 a (wq_owned s)\<rparr>)))
    | W_idle \<Rightarrow> Some (goto_pc t (W_wait False) (set_state t WQ_WORKER_STATE_IDLE s))
    | P_lock a \<Rightarrow> Some (goto_pc t (P_enqueue a) (s\<lparr>wq_lock := Some t\<rparr>))
    | P_enqueue a \<Rightarrow> map_option (goto_pc t P_unlock) (put_backlog a s)
    | P_unlock \<Rightarrow> Some (goto_pc t (P_scan 0) (s\<lparr>wq_lock := None\<rparr>))
    | P_scan i \<Rightarrow> Some (wakeup_first_free_worker t i s)
    | P_signal i \<Rightarrow> Some (goto_pc t (after_put t s) (event_set i s))
    | C_flush_lock \<Rightarrow> Some (goto_pc t C_flush (s\<lparr>wq_lock := Some t\<rparr>))
    | C_flush \<Rightarrow> flush_backlog t s
    | C_flush_unlock \<Rightarrow> Some (goto_pc t C_gone (s\<lparr>wq_lock := None\<rparr>))
    | C_ready \<Rightarrow> Some s | C_gone \<Rightarrow> Some s)"

definition workqueue_started :: "nheap \<Rightarrow> (nat \<rightharpoonup> work_t) \<Rightarrow> nat \<Rightarrow> nat \<Rightarrow> workqueue_t" where
  "workqueue_started h works num_workers clients = \<lparr>wq_heap = h, wq_backlog = queue_init, wq_backlog_count = 0, wq_lock = None,
     wq_workers = replicate num_workers \<lparr>wr_state = WQ_WORKER_STATE_OFFLINE, wr_event = 0\<rparr>, wq_works = works,
     wq_pcs = replicate num_workers W_start @ replicate clients C_ready, wq_log = [], wq_owned = []\<rparr>"

definition workqueue_create :: "bool \<Rightarrow> nheap \<Rightarrow> (nat \<rightharpoonup> work_t) \<Rightarrow> nat \<Rightarrow> nat \<Rightarrow> int \<times> workqueue_t option" where
  \<comment> \<open>\<open>calloc\<close> says whether the memory for the workers was found; pipes and threads are taken to be created\<close>
  "workqueue_create calloc h works num_workers clients = (if calloc then (0, Some (workqueue_started h works num_workers clients)) else (-1, None))"

definition workqueue_add_work :: "nat \<Rightarrow> ptr \<Rightarrow> workqueue_t \<Rightarrow> (int \<times> workqueue_t) option" where
  \<comment> \<open>up to the call of \<open>put_backlog\<close>; the 0 is returned when the thread is ready again\<close>
  "workqueue_add_work t work s = (case work of
      None \<Rightarrow> Some (-1, s)
    | Some a \<Rightarrow> (case wq_works s a of
         None \<Rightarrow> None
       | Some w \<Rightarrow>
           if \<not> wk_has_fn w then Some (-1, s)
           else map_option (\<lambda>s. (0, goto_pc t (P_lock a) (emit_event (Added a) (s\<lparr>wq_owned := a # wq_owned s\<rparr>))))
             (set_work a (\<lambda>w. w\<lparr>wk_slice := 0, wk_requests := 0, wk_status := WQ_WORK_QUEUED\<rparr>) s)))"

definition workqueue_cancel_work :: "ptr \<Rightarrow> workqueue_t \<Rightarrow> workqueue_t option" where
  "workqueue_cancel_work work s = (case work of None \<Rightarrow> Some s
     | Some a \<Rightarrow> map_option (emit_event (Cancelled a)) (set_work a (\<lambda>w. w\<lparr>wk_requests := wk_requests w OR WQ_REQ_CANCEL_WORK\<rparr>) s))"

definition workqueue_backlog_count :: "workqueue_t \<Rightarrow> int" where
  "workqueue_backlog_count s = wq_backlog_count s"

definition workqueue_work_is_complete :: "nat \<Rightarrow> workqueue_t \<Rightarrow> bool option" where
  "workqueue_work_is_complete a s = map_option (\<lambda>w. wk_status w = WQ_WORK_COMPLETE) (wq_works s a)"

section \<open>Runs\<close>

datatype label = Step nat int int | Add nat nat | Cancel nat | Destroy nat
  \<comment> \<open>\<open>Destroy\<close> calls \<open>workqueue_destroy\<close>; the client is gone here when its flush is over\<close>

definition overrun :: "label \<Rightarrow> workqueue_t \<Rightarrow> bool" where
  \<comment> \<open>the time spent on a work does not fit its 64-bit field any more\<close>
  "overrun l s = (case l of
      Step t rc dt \<Rightarrow> (case wq_pcs s ! t of
        W_call a \<Rightarrow> (case wq_works s a of Some w \<Rightarrow> \<not> (- (2 ^ 63) \<le> sint (wk_slice w) + dt \<and> sint (wk_slice w) + dt < 2 ^ 63) | None \<Rightarrow> False)
      | _ \<Rightarrow> False)
    | _ \<Rightarrow> False)"

definition ready :: "nat \<Rightarrow> workqueue_t \<Rightarrow> bool" where
  "ready t s = (length (wq_workers s) \<le> t \<and> t < length (wq_pcs s) \<and> wq_pcs s ! t = C_ready)"

definition allowed :: "label \<Rightarrow> workqueue_t \<Rightarrow> bool" where
  \<comment> \<open>clients add only works that the queue has handed back\<close>
  "allowed l s = (case l of
      Step t rc dt \<Rightarrow> enabled t s
    | Add t a \<Rightarrow> ready t s \<and> a \<in> dom (wq_works s) \<and> a \<notin> set (wq_owned s)
    | Cancel a \<Rightarrow> a \<in> dom (wq_works s)
    | Destroy t \<Rightarrow> ready t s)"

definition perform :: "label \<Rightarrow> workqueue_t \<Rightarrow> workqueue_t option" where
  "perform l s = (case l of
      Step t rc dt \<Rightarrow> workqueue_factory rc dt t s
    | Add t a \<Rightarrow> map_option snd (workqueue_add_work t (Some a) s)
    | Cancel a \<Rightarrow> workqueue_cancel_work (Some a) s
    | Destroy t \<Rightarrow> Some (goto_pc t C_flush_lock s))"

inductive reachable :: "workqueue_t \<Rightarrow> workqueue_t \<Rightarrow> bool" for s0 where
  initial: "reachable s0 s0"
| later: "reachable s0 s \<Longrightarrow> allowed l s \<Longrightarrow> perform l s = Some s' \<Longrightarrow> reachable s0 s'"

fun schedule :: "label list \<Rightarrow> workqueue_t \<Rightarrow> workqueue_t option" where
  "schedule [] s = Some s"
| "schedule (l # ls) s = (if allowed l s then Option.bind (perform l s) (schedule ls) else None)"

lemma schedule_reachable: "reachable s0 s \<Longrightarrow> schedule ls s = Some s' \<Longrightarrow> reachable s0 s'"
  by (induction ls arbitrary: s) (auto simp: bind_eq_Some_conv split: if_splits intro: reachable.later)

end
