(* ===== verification/Workqueue_Inv.thy ===== *)
theory Workqueue_Inv
  imports Workqueue "HOL-Library.Multiset"
begin

text \<open>
  Invariants of the work queue, by induction on its runs: the mutex is held by the one thread that is in a critical section, the
  backlog is a well-formed linked queue whose length is counted, every work the queue owns is in one place, and its status says
  where. The backlog is used only through the contract of the queue.
\<close>

section \<open>The invariant\<close>

fun held :: "pc \<Rightarrow> nat multiset" where
  \<comment> \<open>the work a thread has in its hands\<close>
  "held (W_fetched p) = (case p of None \<Rightarrow> {#} | Some a \<Rightarrow> {#a#})"
| "held (W_test a) = {#a#}"
| "held (W_early a) = {#a#}"
| "held (W_begin a) = {#a#}"
| "held (W_call a) = {#a#}"
| "held (W_returned a rc) = {#a#}"
| "held (W_complete a) = {#a#}"
| "held (W_callback a) = {#a#}"
| "held (P_lock a) = {#a#}"
| "held (P_enqueue a) = {#a#}"
| "held _ = {#}"

fun critical :: "pc \<Rightarrow> bool" where
  "critical W_dequeue = True"
| "critical (W_fetched p) = True"
| "critical (P_enqueue a) = True"
| "critical P_unlock = True"
| "critical C_flush = True"
| "critical C_flush_unlock = True"
| "critical _ = False"

fun pc_ok :: "bool \<Rightarrow> nat \<Rightarrow> pc \<Rightarrow> bool" where
  \<comment> \<open>the positions of a worker and of a client\<close>
  "pc_ok worker n (P_lock a) = True"
| "pc_ok worker n (P_enqueue a) = True"
| "pc_ok worker n P_unlock = True"
| "pc_ok worker n (P_scan i) = True"
| "pc_ok worker n (P_signal i) = (i < n)"
| "pc_ok worker n C_ready = (\<not> worker)"
| "pc_ok worker n C_flush_lock = (\<not> worker)"
| "pc_ok worker n C_flush = (\<not> worker)"
| "pc_ok worker n C_flush_unlock = (\<not> worker)"
| "pc_ok worker n C_gone = (\<not> worker)"
| "pc_ok worker n _ = worker"

definition threads_ok :: "workqueue_t \<Rightarrow> bool" where
  "threads_ok s = (length (wq_workers s) \<le> length (wq_pcs s) \<and>
     (\<forall>t<length (wq_pcs s). pc_ok (t < length (wq_workers s)) (length (wq_workers s)) (wq_pcs s ! t)))"

definition lock_ok :: "workqueue_t \<Rightarrow> bool" where
  "lock_ok s = ((\<forall>t<length (wq_pcs s). critical (wq_pcs s ! t) = (wq_lock s = Some t)) \<and> (\<forall>t. wq_lock s = Some t \<longrightarrow> t < length (wq_pcs s)))"

definition holders :: "pc list \<Rightarrow> nat multiset" where
  "holders pcs = (\<Sum>c\<in>#mset pcs. held c)"

definition backlog_ok :: "nat list \<Rightarrow> workqueue_t \<Rightarrow> bool" where
  "backlog_ok xs s = (queue_rel (wq_heap s, wq_backlog s) xs \<and> wq_backlog_count s = int (length xs) \<and>
     dom (wq_heap s) = dom (wq_works s) \<and> finite (dom (wq_works s)) \<and> int (card (dom (wq_works s))) \<le> INT_MAX)"

definition owned_ok :: "nat list \<Rightarrow> workqueue_t \<Rightarrow> bool" where
  "owned_ok xs s = (distinct (wq_owned s) \<and> set (wq_owned s) \<subseteq> dom (wq_works s) \<and> mset (wq_owned s) = mset xs + holders (wq_pcs s))"

definition wq_inv :: "nat list \<Rightarrow> workqueue_t \<Rightarrow> bool" where
  "wq_inv xs s = (threads_ok s \<and> lock_ok s \<and> backlog_ok xs s \<and> owned_ok xs s)"

section \<open>Threads and the mutex\<close>

lemma holders_split: "t < length pcs \<Longrightarrow> holders pcs = held (pcs ! t) + (\<Sum>c\<in>#mset pcs - {#pcs ! t#}. held c)"
  unfolding holders_def by (metis nth_mem_mset insert_DiffM image_mset_add_mset sum_mset.insert)

lemma holders_update:
  assumes "t < length pcs"
  shows "holders (pcs[t := c]) + held (pcs ! t) = holders pcs + held c"
  using assms holders_split [OF assms] by (simp add: holders_def mset_update)

lemma holders_keep: "t < length pcs \<Longrightarrow> held c = held (pcs ! t) \<Longrightarrow> holders (pcs[t := c]) = holders pcs"
  using holders_update [of t pcs c] by simp

lemma holds_one: "t < length pcs \<Longrightarrow> held (pcs ! t) \<subseteq># holders pcs"
  using holders_split by simp

lemmas step_defs = goto_pc_def set_state_def emit_event_def event_set_def

lemma goto_ok:
  assumes "threads_ok s" and "t < length (wq_pcs s)" and "pc_ok (t < length (wq_workers s)) (length (wq_workers s)) c"
  shows "threads_ok (goto_pc t c s)"
  using assms by (auto simp: threads_ok_def goto_pc_def nth_list_update)

lemma lock_stay:
  assumes "lock_ok s" and "t < length (wq_pcs s)" and "critical c = critical (wq_pcs s ! t)"
  shows "lock_ok (goto_pc t c s)"
  using assms by (auto simp: lock_ok_def goto_pc_def nth_list_update)

lemma lock_take:
  assumes "lock_ok s" and "t < length (wq_pcs s)" and "wq_lock s = None" and "critical c"
  shows "lock_ok (goto_pc t c (s\<lparr>wq_lock := Some t\<rparr>))"
  using assms by (auto simp: lock_ok_def goto_pc_def nth_list_update)

lemma lock_release:
  assumes "lock_ok s" and "t < length (wq_pcs s)" and "critical (wq_pcs s ! t)" and "\<not> critical c"
  shows "lock_ok (goto_pc t c (s\<lparr>wq_lock := None\<rparr>))"
  using assms by (auto simp: lock_ok_def goto_pc_def nth_list_update)

section \<open>Every step keeps it\<close>

definition same_shape :: "workqueue_t \<Rightarrow> workqueue_t \<Rightarrow> bool" where
  \<comment> \<open>steps that only touch fields of works and workers\<close>
  "same_shape s s' = (length (wq_workers s') = length (wq_workers s) \<and> wq_pcs s' = wq_pcs s \<and> wq_heap s' = wq_heap s \<and> wq_backlog s' = wq_backlog s \<and>
     wq_backlog_count s' = wq_backlog_count s \<and> dom (wq_works s') = dom (wq_works s) \<and> wq_owned s' = wq_owned s)"

lemma inv_move:
  assumes "wq_inv xs s" and "same_shape s s'" and "t < length (wq_pcs s)" and "pc_ok (t < length (wq_workers s)) (length (wq_workers s)) c"
    and "held c = held (wq_pcs s ! t)" and "lock_ok (goto_pc t c s')"
  shows "wq_inv xs (goto_pc t c s')"
proof -
  have "threads_ok s'" using assms(1,2) by (simp add: wq_inv_def threads_ok_def same_shape_def)
  then have "threads_ok (goto_pc t c s')" using assms(2-4) by (intro goto_ok) (simp_all add: same_shape_def)
  moreover have "backlog_ok xs (goto_pc t c s')" using assms(1,2) by (simp add: wq_inv_def backlog_ok_def same_shape_def goto_pc_def)
  moreover have "owned_ok xs (goto_pc t c s')" using assms(1-3,5) by (simp add: wq_inv_def owned_ok_def same_shape_def goto_pc_def holders_keep)
  ultimately show ?thesis using assms(6) by (simp add: wq_inv_def)
qed

lemma inv_quiet:
  assumes "wq_inv xs s" and "same_shape s s'" "wq_lock s' = wq_lock s" and "t < length (wq_pcs s)" and "pc_ok (t < length (wq_workers s)) (length (wq_workers s)) c"
    and "held c = held (wq_pcs s ! t)" and "critical c = critical (wq_pcs s ! t)"
  shows "wq_inv xs (goto_pc t c s')"
proof (rule inv_move [OF assms(1,2,4-6)])
  have "lock_ok s'" using assms(1-3) by (simp add: wq_inv_def lock_ok_def same_shape_def)
  then show "lock_ok (goto_pc t c s')" using assms(2,4,7) by (intro lock_stay) (simp_all add: same_shape_def)
qed

lemma inv_lock:
  assumes "wq_inv xs s" and "t < length (wq_pcs s)" and "pc_ok (t < length (wq_workers s)) (length (wq_workers s)) c" and "held c = held (wq_pcs s ! t)"
    and "wq_lock s = None" and "critical c"
  shows "wq_inv xs (goto_pc t c (s\<lparr>wq_lock := Some t\<rparr>))"
  using assms by (intro inv_move [OF assms(1)] lock_take) (simp_all add: same_shape_def wq_inv_def)

lemma inv_unlock:
  assumes "wq_inv xs s" and "t < length (wq_pcs s)" and "pc_ok (t < length (wq_workers s)) (length (wq_workers s)) c" and "held c = held (wq_pcs s ! t)"
    and "critical (wq_pcs s ! t)" and "\<not> critical c"
  shows "wq_inv xs (goto_pc t c (s\<lparr>wq_lock := None\<rparr>))"
  using assms by (intro inv_move [OF assms(1)] lock_release) (simp_all add: same_shape_def wq_inv_def)

lemma exchange:
  fixes A B X Y p c :: "nat multiset"
  assumes "B + p = A + c" and "Y + c = X + p"
  shows "X + A = Y + B"
proof -
  have "X + A + c = X + (B + p)" using assms(1) by (simp only: add.assoc)
  also have "\<dots> = (X + p) + B" by (simp only: ac_simps)
  also have "\<dots> = Y + B + c" unfolding assms(2) [symmetric] by (simp only: ac_simps)
  finally show ?thesis by (simp only: add_right_cancel)
qed

lemma inv_backlog:
  \<comment> \<open>works move between the backlog and the thread in the critical section\<close>
  assumes "wq_inv xs s" and "t < length (wq_pcs s)" and "pc_ok (t < length (wq_workers s)) (length (wq_workers s)) c" and "critical (wq_pcs s ! t)" "critical c"
    and "queue_rel (h, q) ys" "dom h = dom (wq_heap s)" and "mset ys + held c = mset xs + held (wq_pcs s ! t)"
  shows "wq_inv ys (goto_pc t c (s\<lparr>wq_heap := h, wq_backlog := q, wq_backlog_count := int (length ys)\<rparr>))"
proof -
  let ?s = "s\<lparr>wq_heap := h, wq_backlog := q, wq_backlog_count := int (length ys)\<rparr>"
  have "threads_ok (goto_pc t c ?s)" using assms(1-3) by (intro goto_ok) (simp_all add: wq_inv_def threads_ok_def)
  moreover have "lock_ok (goto_pc t c ?s)" using assms(1,2,4,5) by (intro lock_stay) (simp_all add: wq_inv_def lock_ok_def)
  moreover have "backlog_ok ys (goto_pc t c ?s)" using assms(1,6,7) by (simp add: wq_inv_def backlog_ok_def goto_pc_def)
  moreover have "mset xs + holders (wq_pcs s) = mset ys + holders ((wq_pcs s)[t := c])"
    using holders_update [OF assms(2), of c] assms(8) by (rule exchange)
  then have "owned_ok ys (goto_pc t c ?s)" using assms(1) by (simp add: wq_inv_def owned_ok_def goto_pc_def)
  ultimately show ?thesis by (simp add: wq_inv_def)
qed

lemma backlog_nodes:
  assumes "backlog_ok xs s"
  shows "distinct xs" and "set xs \<subseteq> dom (wq_works s)" and "int (length xs) \<le> INT_MAX"
proof -
  show d: "distinct xs" and x: "set xs \<subseteq> dom (wq_works s)" using assms linked_dom [of "wq_heap s" NULL xs NULL] by (simp_all add: backlog_ok_def queue_rel_def is_dll_def)
  show "int (length xs) \<le> INT_MAX" using assms card_mono [OF _ x] distinct_card [OF d] by (simp add: backlog_ok_def)
qed

lemma same_nodes: "queue_adm (h, q) = queue_adm (h', q') \<Longrightarrow> dom h = dom h'"
  by (drule fun_cong [of _ _ "[]"]) (auto simp: queue_adm_def fun_eq_iff)

lemma get_backlog_ok:
  assumes "backlog_ok xs s"
  shows "xs = [] \<Longrightarrow> get_backlog t s = Some (NULL, s)"
    and "xs = a # ys \<Longrightarrow> \<exists>h q. get_backlog t s = Some (Some a, s\<lparr>wq_heap := h, wq_backlog := q, wq_backlog_count := int (length ys)\<rparr>) \<and>
      queue_rel (h, q) ys \<and> dom h = dom (wq_heap s)"
proof -
  have rel: "queue_rel (wq_heap s, wq_backlog s) xs" and n: "wq_backlog_count s = int (length xs)" using assms by (auto simp: backlog_ok_def)
  show "xs = [] \<Longrightarrow> get_backlog t s = Some (NULL, s)" using rel qfifo.rem_empty [of "(wq_heap s, wq_backlog s)"] by (simp add: get_backlog_def queue_rem_def)
  assume xs: "xs = a # ys"
  obtain h q where h: "queue_rem (wq_heap s, wq_backlog s) = Some (0, Some a, h, q)" "queue_rel (h, q) ys" "queue_adm (h, q) = queue_adm (wq_heap s, wq_backlog s)"
    using qfifo.rem_some rel xs by fastforce
  have "dom h = dom (wq_heap s)" using same_nodes [OF h(3)] .
  moreover have "int (length xs) \<le> INT_MAX" using backlog_nodes(3) [OF assms] .
  then have "cint (int (length ys)) = Some (int (length ys))" using xs by (simp add: cint_simps)
  ultimately show "\<exists>h q. get_backlog t s = Some (Some a, s\<lparr>wq_heap := h, wq_backlog := q, wq_backlog_count := int (length ys)\<rparr>) \<and>
      queue_rel (h, q) ys \<and> dom h = dom (wq_heap s)" using h n xs by (intro exI [of _ h] exI [of _ q]) (simp add: get_backlog_def queue_rem_def)
qed

lemma put_backlog_ok:
  assumes "backlog_ok xs s" and "a \<in> dom (wq_works s)" and "a \<notin> set xs"
  shows "\<exists>h q. put_backlog a s = Some (s\<lparr>wq_heap := h, wq_backlog := q, wq_backlog_count := int (length (xs @ [a]))\<rparr>) \<and>
      queue_rel (h, q) (xs @ [a]) \<and> dom h = dom (wq_heap s)"
proof -
  have rel: "queue_rel (wq_heap s, wq_backlog s) xs" and n: "wq_backlog_count s = int (length xs)" and d: "dom (wq_heap s) = dom (wq_works s)"
    using assms(1) by (auto simp: backlog_ok_def)
  have "queue_adm (wq_heap s, wq_backlog s) xs a" using assms(2,3) d by (simp add: queue_adm_def)
  then obtain h q where h: "queue_ins (wq_heap s, wq_backlog s) a = Some (0, h, q)" "queue_rel (h, q) (xs @ [a])" "queue_adm (h, q) = queue_adm (wq_heap s, wq_backlog s)"
    using qfifo.ins_room [OF rel] by (force simp: has_room_def)
  have dh: "dom h = dom (wq_heap s)" using same_nodes [OF h(3)] .
  have "backlog_ok (xs @ [a]) (s\<lparr>wq_heap := h, wq_backlog := q, wq_backlog_count := int (length (xs @ [a]))\<rparr>)"
    using assms(1) h(2) dh by (simp add: backlog_ok_def)
  then have "cint (int (length xs) + 1) = Some (int (length xs) + 1)" by (auto simp: cint_simps dest: backlog_nodes(3))
  then show ?thesis using h dh n by (intro exI [of _ h] exI [of _ q]) (auto simp: put_backlog_def queue_ins_def add.commute)
qed

lemma set_work_ok:
  assumes "a \<in> dom (wq_works s)"
  shows "\<exists>w. wq_works s a = Some w \<and> set_work a f s = Some (s\<lparr>wq_works := (wq_works s)(a \<mapsto> f w)\<rparr>)"
  using assms by (auto simp: set_work_def)

lemma owns_held:
  assumes "wq_inv xs s" and "t < length (wq_pcs s)" and "a \<in># held (wq_pcs s ! t)"
  shows "a \<in> dom (wq_works s)" and "a \<notin> set xs" and "a \<in> set (wq_owned s)"
proof -
  have own: "mset (wq_owned s) = mset xs + holders (wq_pcs s)" "distinct (wq_owned s)" "set (wq_owned s) \<subseteq> dom (wq_works s)" using assms(1) by (auto simp: wq_inv_def owned_ok_def)
  have "a \<in># holders (wq_pcs s)" using holds_one [OF assms(2)] assms(3) by (rule mset_subset_eqD)
  then have c: "1 \<le> count (holders (wq_pcs s)) a" by (simp add: Suc_le_eq)
  have le: "count (mset (wq_owned s)) a \<le> 1" using own(2) distinct_count_atmost_1 [of "wq_owned s"] by auto
  then have "count (mset xs) a = 0" using c unfolding own(1) count_union by linarith
  then show "a \<notin> set xs" by (metis count_eq_zero_iff set_mset_mset)
  show "a \<in> set (wq_owned s)" using \<open>a \<in># holders (wq_pcs s)\<close> own(1) by (metis set_mset_mset union_iff)
  then show "a \<in> dom (wq_works s)" using own(3) by blast
qed

lemma inv_dequeue:
  assumes i: "wq_inv xs s" and t: "t < length (wq_pcs s)" and c: "wq_pcs s ! t = W_dequeue" and w: "t < length (wq_workers s)"
  shows "\<exists>s' ys. workqueue_factory rc dt t s = Some s' \<and> wq_inv ys s'"
proof (cases xs)
  case Nil
  then have "get_backlog t s = Some (NULL, s)" using i get_backlog_ok(1) by (simp add: wq_inv_def)
  moreover have "wq_inv xs (goto_pc t (W_fetched NULL) s)" using w c by (intro inv_quiet [OF i _ _ t]) (simp_all add: same_shape_def)
  ultimately show ?thesis using c by (auto simp: workqueue_factory_def)
next
  case (Cons a ys)
  obtain h q where h: "get_backlog t s = Some (Some a, s\<lparr>wq_heap := h, wq_backlog := q, wq_backlog_count := int (length ys)\<rparr>)" "queue_rel (h, q) ys" "dom h = dom (wq_heap s)"
    using get_backlog_ok(2) [OF _ Cons, where s = s and t = t] i unfolding wq_inv_def by blast
  then have "wq_inv ys (goto_pc t (W_fetched (Some a)) (s\<lparr>wq_heap := h, wq_backlog := q, wq_backlog_count := int (length ys)\<rparr>))"
    using w c Cons by (intro inv_backlog [OF i t]) simp_all
  then show ?thesis using h(1) c by (auto simp: workqueue_factory_def)
qed

lemma inv_enqueue:
  assumes i: "wq_inv xs s" and t: "t < length (wq_pcs s)" and c: "wq_pcs s ! t = P_enqueue a"
  shows "\<exists>s' ys. workqueue_factory rc dt t s = Some s' \<and> wq_inv ys s'"
proof -
  have a: "a \<in> dom (wq_works s)" "a \<notin> set xs" using owns_held [OF i t] c by auto
  obtain h q where h: "put_backlog a s = Some (s\<lparr>wq_heap := h, wq_backlog := q, wq_backlog_count := int (length (xs @ [a]))\<rparr>)"
      "queue_rel (h, q) (xs @ [a])" "dom h = dom (wq_heap s)"
    using i put_backlog_ok [OF _ a] by (auto simp: wq_inv_def simp del: length_append)
  then have "wq_inv (xs @ [a]) (goto_pc t P_unlock (s\<lparr>wq_heap := h, wq_backlog := q, wq_backlog_count := int (length (xs @ [a]))\<rparr>))"
    using c by (intro inv_backlog [OF i t]) simp_all
  then show ?thesis using h(1) c by (auto simp: workqueue_factory_def simp del: length_append)
qed

lemma inv_return:
  \<comment> \<open>a work is handed back\<close>
  assumes i: "wq_inv xs s" and t: "t < length (wq_pcs s)" and c: "held (wq_pcs s ! t) = {#a#}" "held c = {#}" and "critical c = critical (wq_pcs s ! t)"
    and "pc_ok (t < length (wq_workers s)) (length (wq_workers s)) c"
  shows "wq_inv xs (goto_pc t c (emit_event e (s\<lparr>wq_owned := remove1 a (wq_owned s)\<rparr>)))"
proof -
  let ?s = "emit_event e (s\<lparr>wq_owned := remove1 a (wq_owned s)\<rparr>)"
  have "threads_ok (goto_pc t c ?s)" using i t assms(6) by (intro goto_ok) (simp_all add: wq_inv_def threads_ok_def emit_event_def)
  moreover have "lock_ok (goto_pc t c ?s)" using i t assms(5) by (intro lock_stay) (simp_all add: wq_inv_def lock_ok_def emit_event_def)
  moreover have "backlog_ok xs (goto_pc t c ?s)" using i by (simp add: wq_inv_def backlog_ok_def goto_pc_def emit_event_def)
  moreover have "holders (wq_pcs s) = add_mset a (holders ((wq_pcs s)[t := c]))" using holders_update [OF t, of c] c by simp
  then have "owned_ok xs (goto_pc t c ?s)" using i set_remove1_subset [of a "wq_owned s"] by (auto simp: wq_inv_def owned_ok_def goto_pc_def emit_event_def)
  ultimately show ?thesis by (simp add: wq_inv_def)
qed

lemma inv_flush:
  assumes i: "wq_inv xs s" and t: "t < length (wq_pcs s)" and c: "wq_pcs s ! t = C_flush" and w: "\<not> t < length (wq_workers s)"
  shows "\<exists>s' ys. workqueue_factory rc dt t s = Some s' \<and> wq_inv ys s'"
proof (cases xs)
  case Nil
  then have "get_backlog t s = Some (NULL, s)" using i get_backlog_ok(1) by (simp add: wq_inv_def)
  moreover have "wq_inv xs (goto_pc t C_flush_unlock s)" using w c by (intro inv_quiet [OF i _ _ t]) (simp_all add: same_shape_def)
  ultimately show ?thesis using c by (auto simp: workqueue_factory_def flush_backlog_def)
next
  case (Cons a ys)
  obtain h q where h: "get_backlog t s = Some (Some a, s\<lparr>wq_heap := h, wq_backlog := q, wq_backlog_count := int (length ys)\<rparr>)" "queue_rel (h, q) ys" "dom h = dom (wq_heap s)"
    using get_backlog_ok(2) [OF _ Cons, where s = s and t = t] i unfolding wq_inv_def by blast
  have a: "a \<in> dom (wq_works s)" using backlog_nodes(2) [of xs s] i Cons by (auto simp: wq_inv_def)
  let ?s = "s\<lparr>wq_heap := h, wq_backlog := q, wq_backlog_count := int (length ys)\<rparr>"
  obtain w where s: "set_work a (\<lambda>w. w\<lparr>wk_status := WQ_WORK_COMPLETE\<rparr>) ?s = Some (?s\<lparr>wq_works := (wq_works s)(a \<mapsto> w)\<rparr>)" using a by (auto simp: set_work_def)
  have "wq_inv ys (emit_event (Flushed a) (?s\<lparr>wq_works := (wq_works s)(a \<mapsto> w), wq_owned := remove1 a (wq_owned s)\<rparr>))"
    using i h(2,3) a Cons set_remove1_subset [of a "wq_owned s"]
    by (auto simp: wq_inv_def threads_ok_def lock_ok_def backlog_ok_def owned_ok_def emit_event_def insert_absorb)
  then show ?thesis using h(1) c s by (auto simp: workqueue_factory_def flush_backlog_def emit_event_def)
qed

lemma work_fields: "a \<in> dom (wq_works s) \<Longrightarrow> \<exists>s'. set_work a f s = Some s' \<and> same_shape s s' \<and> wq_lock s' = wq_lock s"
  by (auto simp: set_work_def same_shape_def)

fun sleeping :: "pc \<Rightarrow> bool" where
  "sleeping W_start = True" | "sleeping (W_wait ret) = True" | "sleeping W_awake = True" | "sleeping W_idle = True" | "sleeping _ = False"

fun serving :: "pc \<Rightarrow> bool" where
  "serving (W_test a) = True" | "serving (W_early a) = True" | "serving (W_begin a) = True" | "serving (W_call a) = True" | "serving (W_returned a rc) = True"
| "serving (W_complete a) = True" | "serving (W_callback a) = True" | "serving _ = False"

fun putting :: "pc \<Rightarrow> bool" where
  "putting (P_lock a) = True" | "putting (P_enqueue a) = True" | "putting P_unlock = True" | "putting (P_scan k) = True" | "putting (P_signal k) = True"
| "putting _ = False"

lemma sleep_inv:
  assumes i: "wq_inv xs s" and e: "enabled t s" and c: "sleeping (wq_pcs s ! t)"
  shows "\<exists>s' ys. workqueue_factory rc dt t s = Some s' \<and> wq_inv ys s'"
proof -
  have t: "t < length (wq_pcs s)" using e by (simp add: enabled_def)
  have ok: "pc_ok (t < length (wq_workers s)) (length (wq_workers s)) (wq_pcs s ! t)" using i t by (simp add: wq_inv_def threads_ok_def)
  note quiet = inv_quiet [OF i _ _ t]
  show ?thesis
  proof (cases "wq_pcs s ! t")
    case W_start
    then have "wq_inv xs (goto_pc t (W_wait False) (set_state t WQ_WORKER_STATE_IDLE s))" using ok by (intro quiet) (simp_all add: same_shape_def set_state_def)
    then show ?thesis using W_start by (auto simp: workqueue_factory_def)
  next
    case (W_wait ret)
    then have "0 < wr_event (wq_workers s ! t)" using e by (simp add: enabled_def)
    then have "wq_inv xs (flush_fd 64 t ret s)" unfolding flush_fd_def Let_def using ok W_wait by (intro quiet) (auto simp: same_shape_def)
    then show ?thesis using W_wait by (auto simp: workqueue_factory_def)
  next
    case W_awake
    then have "wq_inv xs (goto_pc t W_fetch (set_state t WQ_WORKER_STATE_RUNNING s))" using ok by (intro quiet) (simp_all add: same_shape_def set_state_def)
    then show ?thesis using W_awake by (auto simp: workqueue_factory_def)
  next
    case W_idle
    then have "wq_inv xs (goto_pc t (W_wait False) (set_state t WQ_WORKER_STATE_IDLE s))" using ok by (intro quiet) (simp_all add: same_shape_def set_state_def)
    then show ?thesis using W_idle by (auto simp: workqueue_factory_def)
  qed (use c in simp_all)
qed

lemma serve_inv:
  assumes i: "wq_inv xs s" and e: "enabled t s" and c: "serving (wq_pcs s ! t)" and o: "\<not> overrun (Step t rc dt) s"
  shows "\<exists>s' ys. workqueue_factory rc dt t s = Some s' \<and> wq_inv ys s'"
proof -
  have t: "t < length (wq_pcs s)" using e by (simp add: enabled_def)
  have ok: "pc_ok (t < length (wq_workers s)) (length (wq_workers s)) (wq_pcs s ! t)" using i t by (simp add: wq_inv_def threads_ok_def)
  note owns = owns_held(1) [OF i t]
  note quiet = inv_quiet [OF i _ _ t]
  show ?thesis
  proof (cases "wq_pcs s ! t")
    case (W_test a)
    have a: "a \<in> dom (wq_works s)" using owns [of a] W_test by simp
    obtain s1 where s1: "set_work a (\<lambda>w. w\<lparr>wk_status := WQ_WORK_COMPLETE\<rparr>) s = Some s1" "same_shape s s1" "wq_lock s1 = wq_lock s" using work_fields [OF a] by blast
    have "wq_inv xs (goto_pc t (W_early a) s1)" using ok W_test s1(2,3) by (intro quiet) simp_all
    moreover have "wq_inv xs (goto_pc t (W_begin a) s)" using ok W_test by (intro quiet) (simp_all add: same_shape_def)
    ultimately show ?thesis using W_test a s1(1) by (auto simp: workqueue_factory_def complete_work_def cancel_requested_def)
  next
    case (W_early a)
    then have "wq_inv xs (goto_pc t (W_begin a) (emit_event (Completed a) s))" using ok by (intro quiet) (simp_all add: same_shape_def emit_event_def)
    then show ?thesis using W_early by (auto simp: workqueue_factory_def)
  next
    case (W_begin a)
    obtain s1 where s1: "set_work a (\<lambda>w. w\<lparr>wk_status := WQ_WORK_IN_PROGRESS\<rparr>) s = Some s1" "same_shape s s1" "wq_lock s1 = wq_lock s"
      using work_fields [of a s] owns [of a] W_begin by auto
    then have "wq_inv xs (goto_pc t (W_call a) s1)" using ok W_begin by (intro quiet) simp_all
    then show ?thesis using W_begin s1(1) by (auto simp: workqueue_factory_def)
  next
    case (W_call a)
    obtain w where w: "wq_works s a = Some w" using owns [of a] W_call by auto
    then obtain w' where w': "do_work dt w = Some w'" using o W_call by (auto simp: overrun_def do_work_def Let_def)
    obtain s1 where s1: "set_work a (\<lambda>_. w') s = Some s1" "same_shape s s1" "wq_lock s1 = wq_lock s" using work_fields [of a s] w by blast
    then have "wq_inv xs (goto_pc t (W_returned a rc) (emit_event (Called a rc) s1))" using ok W_call by (intro quiet) (simp_all add: same_shape_def emit_event_def)
    then show ?thesis using W_call s1(1) w w' by (auto simp: workqueue_factory_def)
  next
    case (W_returned a rc)
    obtain b where b: "cancel_requested a s = Some b" using W_returned owns [of a] by (auto simp: cancel_requested_def)
    have "wq_inv xs (goto_pc t (if rc \<le> 0 \<or> b then W_complete a else P_lock a) s)" using ok W_returned by (intro quiet) (auto simp: same_shape_def)
    then show ?thesis using W_returned b by (auto simp: workqueue_factory_def)
  next
    case (W_complete a)
    obtain s1 where s1: "set_work a (\<lambda>w. w\<lparr>wk_status := WQ_WORK_COMPLETE\<rparr>) s = Some s1" "same_shape s s1" "wq_lock s1 = wq_lock s"
      using work_fields [of a s] owns [of a] W_complete by auto
    then have "wq_inv xs (goto_pc t (W_callback a) s1)" using ok W_complete by (intro quiet) simp_all
    then show ?thesis using W_complete s1(1) by (auto simp: workqueue_factory_def complete_work_def)
  next
    case (W_callback a)
    then have "wq_inv xs (goto_pc t W_fetch (emit_event (Completed a) (s\<lparr>wq_owned := remove1 a (wq_owned s)\<rparr>)))" using ok by (intro inv_return [OF i t]) simp_all
    then show ?thesis using W_callback by (auto simp: workqueue_factory_def)
  qed (use c in simp_all)
qed

lemma put_inv:
  assumes i: "wq_inv xs s" and e: "enabled t s" and c: "putting (wq_pcs s ! t)"
  shows "\<exists>s' ys. workqueue_factory rc dt t s = Some s' \<and> wq_inv ys s'"
proof -
  have t: "t < length (wq_pcs s)" using e by (simp add: enabled_def)
  have ok: "pc_ok (t < length (wq_workers s)) (length (wq_workers s)) (wq_pcs s ! t)" using i t by (simp add: wq_inv_def threads_ok_def)
  note quiet = inv_quiet [OF i _ _ t]
  show ?thesis
  proof (cases "wq_pcs s ! t")
    case (P_lock a)
    then have "wq_inv xs (goto_pc t (P_enqueue a) (s\<lparr>wq_lock := Some t\<rparr>))" using ok e by (intro inv_lock [OF i t]) (simp_all add: enabled_def)
    then show ?thesis using P_lock by (auto simp: workqueue_factory_def)
  next
    case (P_enqueue a)
    then show ?thesis using inv_enqueue [OF i t P_enqueue] by simp
  next
    case P_unlock
    then have "wq_inv xs (goto_pc t (P_scan 0) (s\<lparr>wq_lock := None\<rparr>))" using ok by (intro inv_unlock [OF i t]) simp_all
    then show ?thesis using P_unlock by (auto simp: workqueue_factory_def)
  next
    case (P_scan k)
    then have "wq_inv xs (wakeup_first_free_worker t k s)" using ok
      by (auto simp: wakeup_first_free_worker_def after_put_def same_shape_def intro!: quiet)
    then show ?thesis using P_scan by (auto simp: workqueue_factory_def)
  next
    case (P_signal k)
    then have "wq_inv xs (goto_pc t (after_put t s) (event_set k s))" using ok by (intro quiet) (auto simp: same_shape_def event_set_def after_put_def)
    then show ?thesis using P_signal by (auto simp: workqueue_factory_def)
  qed (use c in simp_all)
qed

lemma step_inv:
  assumes i: "wq_inv xs s" and e: "enabled t s" and o: "\<not> overrun (Step t rc dt) s"
  shows "\<exists>s' ys. workqueue_factory rc dt t s = Some s' \<and> wq_inv ys s'"
proof -
  have t: "t < length (wq_pcs s)" using e by (simp add: enabled_def)
  have ok: "pc_ok (t < length (wq_workers s)) (length (wq_workers s)) (wq_pcs s ! t)" using i t by (simp add: wq_inv_def threads_ok_def)
  show ?thesis
  proof (cases "wq_pcs s ! t")
    case W_fetch
    then have "wq_inv xs (goto_pc t W_dequeue (s\<lparr>wq_lock := Some t\<rparr>))" using ok e by (intro inv_lock [OF i t]) (simp_all add: enabled_def)
    then show ?thesis using W_fetch by (auto simp: workqueue_factory_def)
  next
    case W_dequeue
    then show ?thesis using inv_dequeue [OF i t W_dequeue] ok by simp
  next
    case (W_fetched p)
    then have "wq_inv xs (goto_pc t (case p of None \<Rightarrow> W_idle | Some a \<Rightarrow> W_test a) (s\<lparr>wq_lock := None\<rparr>))"
      using ok by (intro inv_unlock [OF i t]) (auto split: option.splits)
    then show ?thesis using W_fetched by (auto simp: workqueue_factory_def)
  next
    case C_flush_lock
    then have "wq_inv xs (goto_pc t C_flush (s\<lparr>wq_lock := Some t\<rparr>))" using ok e by (intro inv_lock [OF i t]) (simp_all add: enabled_def)
    then show ?thesis using C_flush_lock by (auto simp: workqueue_factory_def)
  next
    case C_flush
    then show ?thesis using inv_flush [OF i t C_flush] ok by simp
  next
    case C_flush_unlock
    then have "wq_inv xs (goto_pc t C_gone (s\<lparr>wq_lock := None\<rparr>))" using ok by (intro inv_unlock [OF i t]) simp_all
    then show ?thesis using C_flush_unlock by (auto simp: workqueue_factory_def)
  qed (use e sleep_inv [OF i e] serve_inv [OF i e _ o] put_inv [OF i e] in \<open>simp_all add: enabled_def\<close>)
qed

lemma add_inv:
  assumes i: "wq_inv xs s" and "ready t s" and a: "a \<in> dom (wq_works s)" "a \<notin> set (wq_owned s)"
  shows "\<exists>rc s'. workqueue_add_work t (Some a) s = Some (rc, s') \<and> wq_inv xs s'"
proof -
  obtain w where w: "wq_works s a = Some w" using a by blast
  have t: "t < length (wq_pcs s)" "\<not> t < length (wq_workers s)" "wq_pcs s ! t = C_ready" using assms(2) by (auto simp: ready_def)
  let ?w = "w\<lparr>wk_slice := 0, wk_requests := 0, wk_status := WQ_WORK_QUEUED\<rparr>"
  let ?s = "emit_event (Added a) (s\<lparr>wq_works := (wq_works s)(a \<mapsto> ?w), wq_owned := a # wq_owned s\<rparr>)"
  have "threads_ok (goto_pc t (P_lock a) ?s)" using i t by (intro goto_ok) (simp_all add: wq_inv_def threads_ok_def emit_event_def)
  moreover have "lock_ok (goto_pc t (P_lock a) ?s)" using i t by (intro lock_stay) (simp_all add: wq_inv_def lock_ok_def emit_event_def)
  moreover have "backlog_ok xs (goto_pc t (P_lock a) ?s)" using i a(1) by (simp add: wq_inv_def backlog_ok_def goto_pc_def emit_event_def insert_absorb)
  moreover have "holders ((wq_pcs s)[t := P_lock a]) = add_mset a (holders (wq_pcs s))" using holders_update [OF t(1), of "P_lock a"] t by simp
  then have "owned_ok xs (goto_pc t (P_lock a) ?s)" using i a by (auto simp: wq_inv_def owned_ok_def goto_pc_def emit_event_def)
  ultimately have "wq_inv xs (goto_pc t (P_lock a) ?s)" by (simp add: wq_inv_def)
  then show ?thesis using i w by (auto simp: workqueue_add_work_def set_work_def emit_event_def)
qed

lemma overrun_stuck: "overrun l s \<Longrightarrow> perform l s = None"
  by (auto simp: overrun_def perform_def workqueue_factory_def do_work_def Let_def split: label.splits pc.splits option.splits)

lemma perform_inv:
  assumes i: "wq_inv xs s" and "allowed l s" and o: "\<not> overrun l s"
  shows "\<exists>s' ys. perform l s = Some s' \<and> wq_inv ys s'"
proof (cases l)
  case (Step t rc dt)
  then show ?thesis using step_inv [OF i] assms(2) o by (simp add: allowed_def perform_def)
next
  case (Add t a)
  then show ?thesis using add_inv [OF i, of t a] assms(2) by (auto simp: allowed_def perform_def)
next
  case (Cancel a)
  then obtain w where "wq_works s a = Some w" "a \<in> dom (wq_works s)" using assms(2) by (auto simp: allowed_def)
  then have "\<exists>s'. workqueue_cancel_work (Some a) s = Some s' \<and> wq_inv xs s'"
    using i by (simp add: workqueue_cancel_work_def set_work_def emit_event_def wq_inv_def threads_ok_def lock_ok_def backlog_ok_def owned_ok_def insert_absorb)
  then show ?thesis using Cancel by (auto simp: perform_def)
next
  case (Destroy t)
  then have "wq_inv xs (goto_pc t C_flush_lock s)" using assms(2) by (intro inv_quiet [OF i]) (auto simp: allowed_def ready_def same_shape_def)
  then show ?thesis using Destroy by (auto simp: perform_def)
qed

definition start_ok :: "nheap \<Rightarrow> (nat \<rightharpoonup> work_t) \<Rightarrow> bool" where
  \<comment> \<open>every work has its node, and their number fits an \<^verbatim>\<open>int\<close>\<close>
  "start_ok h works = (dom h = dom works \<and> finite (dom works) \<and> int (card (dom works)) \<le> INT_MAX)"

lemma create_inv:
  assumes "start_ok h works"
  shows "wq_inv [] (workqueue_started h works n m)"
proof -
  have none: "holders (replicate n W_start @ replicate m C_ready) = {#}" by (simp add: holders_def)
  have "threads_ok (workqueue_started h works n m)" "lock_ok (workqueue_started h works n m)"
    by (auto simp: threads_ok_def lock_ok_def workqueue_started_def nth_append)
  then show ?thesis using assms queue_init_rel by (simp add: wq_inv_def backlog_ok_def owned_ok_def workqueue_started_def start_ok_def none)
qed

lemma reachable_inv: "reachable s0 s \<Longrightarrow> wq_inv xs s0 \<Longrightarrow> \<exists>xs. wq_inv xs s"
proof (induction rule: reachable.induct)
  case (later s l s')
  then show ?case using perform_inv overrun_stuck by (metis option.inject option.distinct(1))
qed blast

end
