(* ===== verification/Workqueue_Status.thy ===== *)
theory Workqueue_Status
  imports Workqueue_Inv
begin

text \<open>
  What a client can tell from the status of a work and from the callbacks it has seen. A work whose cancellation nobody requested
  is complete only when the queue is done with it, and is called back once for each time it was added.
\<close>

section \<open>Status\<close>

definition cancelled :: "work_t \<Rightarrow> bool" where
  "cancelled w = (wk_requests w AND WQ_REQ_CANCEL_WORK \<noteq> 0)"

definition waiting :: "work_t \<Rightarrow> bool" where
  "waiting w = (wk_status w = WQ_WORK_QUEUED \<or> wk_status w = WQ_WORK_IN_PROGRESS)"

fun status_at :: "pc \<Rightarrow> work_t \<Rightarrow> bool" where
  "status_at (W_early a) w = (wk_status w = WQ_WORK_COMPLETE \<and> cancelled w)"
| "status_at (W_begin a) w = (waiting w \<or> wk_status w = WQ_WORK_COMPLETE \<and> cancelled w)"
| "status_at (W_call a) w = (wk_status w = WQ_WORK_IN_PROGRESS)"
| "status_at (W_returned a rc) w = (wk_status w = WQ_WORK_IN_PROGRESS)"
| "status_at (W_complete a) w = (wk_status w = WQ_WORK_IN_PROGRESS)"
| "status_at (W_callback a) w = (wk_status w = WQ_WORK_COMPLETE)"
| "status_at _ w = waiting w"

definition status_ok :: "workqueue_t \<Rightarrow> bool" where
  "status_ok s = (\<forall>a\<in>set (wq_owned s). \<forall>w. wq_works s a = Some w \<longrightarrow>
     (\<forall>t<length (wq_pcs s). a \<in># held (wq_pcs s ! t) \<longrightarrow> status_at (wq_pcs s ! t) w) \<and>
     ((\<forall>t<length (wq_pcs s). a \<notin># held (wq_pcs s ! t)) \<longrightarrow> waiting w))"

lemma held_once:
  assumes "wq_inv xs s" and "t < length (wq_pcs s)" "t' < length (wq_pcs s)" "t \<noteq> t'" and "a \<in># held (wq_pcs s ! t)"
  shows "a \<notin># held (wq_pcs s ! t')"
proof
  assume a: "a \<in># held (wq_pcs s ! t')"
  let ?p = "(wq_pcs s)[t := W_start]"
  have own: "mset (wq_owned s) = mset xs + holders (wq_pcs s)" "distinct (wq_owned s)" using assms(1) by (auto simp: wq_inv_def owned_ok_def)
  have "holders (wq_pcs s) = holders ?p + held (wq_pcs s ! t)" using holders_update [OF assms(2), of W_start] by simp
  moreover have "held (?p ! t') \<subseteq># holders ?p" using assms(3) by (intro holds_one) simp
  then have "a \<in># holders ?p" using a assms(4) by (auto dest: mset_subset_eqD)
  then have "0 < count (holders ?p) a" "0 < count (held (wq_pcs s ! t)) a" using assms(5) by simp_all
  ultimately have "1 < count (mset (wq_owned s)) a" unfolding own(1) by (simp only: count_union)
  then show False using own(2) distinct_count_atmost_1 [of "wq_owned s"] by (auto split: if_splits)
qed

lemma status_move:
  assumes i: "wq_inv xs s" "wq_inv ys s'" and st: "status_ok s" and t: "t < length (wq_pcs s)" and pcs: "wq_pcs s' = (wq_pcs s)[t := c]"
    and own: "set (wq_owned s') \<subseteq> set (wq_owned s) \<union> set_mset (held c)"
    and frame: "\<And>b. b \<notin># held (wq_pcs s ! t) \<Longrightarrow> b \<notin># held c \<Longrightarrow> wq_works s' b = wq_works s b"
    and now: "\<And>b w. b \<in># held c \<Longrightarrow> wq_works s' b = Some w \<Longrightarrow> status_at c w"
    and past: "\<And>b w. b \<in># held (wq_pcs s ! t) \<Longrightarrow> b \<notin># held c \<Longrightarrow> b \<in> set (wq_owned s') \<Longrightarrow> wq_works s' b = Some w \<Longrightarrow> waiting w"
  shows "status_ok s'"
  unfolding status_ok_def
proof (intro ballI allI impI)
  fix b w assume b: "b \<in> set (wq_owned s')" "wq_works s' b = Some w"
  have len: "length (wq_pcs s') = length (wq_pcs s)" and here: "wq_pcs s' ! t = c" and there: "\<And>t'. t' \<noteq> t \<Longrightarrow> wq_pcs s' ! t' = wq_pcs s ! t'" using pcs t by simp_all
  show "(\<forall>t<length (wq_pcs s'). b \<in># held (wq_pcs s' ! t) \<longrightarrow> status_at (wq_pcs s' ! t) w) \<and> ((\<forall>t<length (wq_pcs s'). b \<notin># held (wq_pcs s' ! t)) \<longrightarrow> waiting w)"
  proof (cases "b \<in># held c")
    case True
    then have "b \<notin># held (wq_pcs s' ! t')" if "t' < length (wq_pcs s')" "t' \<noteq> t" for t' using held_once [OF i(2), of t t' b] that here t len by simp
    then show ?thesis using now [OF True b(2)] True here t len by metis
  next
    case False
    show ?thesis
    proof (cases "b \<in># held (wq_pcs s ! t)")
      case True
      then have "b \<notin># held (wq_pcs s' ! t')" if "t' < length (wq_pcs s')" for t' using held_once [OF i(1) t, of t' b] that here there [of t'] False len by (cases "t' = t") auto
      then show ?thesis using past [OF True False b] by blast
    next
      case notheld: False
      have "wq_works s b = Some w" "b \<in> set (wq_owned s)" using frame [OF notheld False] b own False by auto
      then have "(\<forall>t<length (wq_pcs s). b \<in># held (wq_pcs s ! t) \<longrightarrow> status_at (wq_pcs s ! t) w) \<and> ((\<forall>t<length (wq_pcs s). b \<notin># held (wq_pcs s ! t)) \<longrightarrow> waiting w)"
        using st unfolding status_ok_def by blast
      then show ?thesis using here there False notheld len by metis
    qed
  qed
qed

lemma status_of: "status_ok s \<Longrightarrow> wq_inv xs s \<Longrightarrow> t < length (wq_pcs s) \<Longrightarrow> a \<in># held (wq_pcs s ! t) \<Longrightarrow> wq_works s a = Some w \<Longrightarrow> status_at (wq_pcs s ! t) w"
  using owns_held(3) unfolding status_ok_def by blast

lemma status_queued:
  assumes "status_ok s" and "wq_inv xs s" and "a \<in> set xs" and "wq_works s a = Some w"
  shows "waiting w"
proof -
  have "a \<notin># held (wq_pcs s ! t)" if "t < length (wq_pcs s)" for t using owns_held(2) [OF assms(2) that, of a] assms(3) by blast
  moreover have "a \<in># mset (wq_owned s)" using assms(2,3) by (simp add: wq_inv_def owned_ok_def)
  ultimately show ?thesis using assms(1,4) by (auto simp: status_ok_def)
qed

lemmas fields = goto_pc_def emit_event_def set_state_def event_set_def

lemma status_same:
  assumes "wq_inv xs s" "wq_inv ys s'" "status_ok s" "t < length (wq_pcs s)" and "wq_pcs s' = (wq_pcs s)[t := c]" "wq_owned s' = wq_owned s" "wq_works s' = wq_works s"
    and "held c = held (wq_pcs s ! t)" and "\<And>a w. status_at (wq_pcs s ! t) w \<Longrightarrow> status_at c w"
  shows "status_ok s'"
  using assms status_of [OF assms(3,1,4)] by (intro status_move [OF assms(1-5)]) auto

lemma get_backlog_fetch:
  assumes "wq_inv xs s" and "get_backlog t s = Some (p, s')"
  shows "case p of None \<Rightarrow> s' = s | Some a \<Rightarrow> a \<in> set xs \<and> wq_works s' = wq_works s \<and> wq_owned s' = wq_owned s \<and> wq_pcs s' = wq_pcs s \<and> wq_log s' = wq_log s"
proof (cases xs)
  case Nil
  then show ?thesis using assms get_backlog_ok(1) [of xs s t] by (auto simp: wq_inv_def)
next
  case (Cons a ys)
  then show ?thesis using assms get_backlog_ok(2) [of xs s a ys t] by (auto simp: wq_inv_def)
qed

lemma do_work_fields: "do_work dt w = Some w' \<Longrightarrow> wk_status w' = wk_status w \<and> wk_requests w' = wk_requests w"
  by (auto simp: do_work_def Let_def split: if_splits)

lemma serve_status:
  assumes i: "wq_inv xs s" "wq_inv ys s'" and st: "status_ok s" and t: "t < length (wq_pcs s)" and c: "serving (wq_pcs s ! t)"
    and s': "workqueue_factory rc dt t s = Some s'"
  shows "status_ok s'"
proof -
  note now = status_of [OF st i(1) t] and move = status_move [OF i st t]
  show ?thesis
  proof (cases "wq_pcs s ! t")
    case (W_test a)
    then obtain w where w: "wq_works s a = Some w" "waiting w" using owns_held(1) [OF i(1) t, of a] now [of a] by auto
    show ?thesis
    proof (cases "cancelled w")
      case True
      then have "s' = goto_pc t (W_early a) (s\<lparr>wq_works := (wq_works s)(a \<mapsto> w\<lparr>wk_status := WQ_WORK_COMPLETE\<rparr>)\<rparr>)"
        using W_test s' w(1) by (simp add: workqueue_factory_def cancel_requested_def complete_work_def set_work_def cancelled_def)
      then show ?thesis using W_test True by (intro move [of "W_early a"]) (auto simp: fields cancelled_def)
    next
      case False
      then have "s' = goto_pc t (W_begin a) s" using W_test s' w(1) by (simp add: workqueue_factory_def cancel_requested_def cancelled_def)
      then show ?thesis using W_test by (intro status_same [OF i st t, of "W_begin a"]) (auto simp: fields)
    qed
  next
    case (W_early a)
    then show ?thesis using s' by (intro status_same [OF i st t, of "W_begin a"]) (auto simp: workqueue_factory_def fields)
  next
    case (W_begin a)
    then show ?thesis using s' by (intro move [of "W_call a"]) (auto simp: workqueue_factory_def set_work_def fields split: option.splits)
  next
    case (W_call a)
    then obtain w w' where w: "wq_works s a = Some w" "do_work dt w = Some w'"
        "s' = goto_pc t (W_returned a rc) (emit_event (Called a rc) (s\<lparr>wq_works := (wq_works s)(a \<mapsto> w')\<rparr>))"
      using s' by (auto simp: workqueue_factory_def set_work_def bind_eq_Some_conv)
    have "wk_status w' = wk_status w" using do_work_fields [OF w(2)] by simp
    then show ?thesis using W_call w now [of a] by (intro move [of "W_returned a rc"]) (auto simp: fields)
  next
    case (W_returned a rc)
    then obtain b where "cancel_requested a s = Some b" "s' = goto_pc t (if rc \<le> 0 \<or> b then W_complete a else P_lock a) s" using s' by (auto simp: workqueue_factory_def)
    then show ?thesis using W_returned by (intro status_same [OF i st t, of "if rc \<le> 0 \<or> b then W_complete a else P_lock a"]) (auto simp: fields waiting_def)
  next
    case (W_complete a)
    then show ?thesis using s' by (intro move [of "W_callback a"]) (auto simp: workqueue_factory_def complete_work_def set_work_def fields split: option.splits)
  next
    case (W_callback a)
    have "distinct (wq_owned s)" using i(1) by (simp add: wq_inv_def owned_ok_def)
    then show ?thesis using W_callback s' by (intro move [of W_fetch]) (auto simp: workqueue_factory_def fields)
  qed (use c in simp_all)
qed

lemma step_status:
  assumes i: "wq_inv xs s" "wq_inv ys s'" and st: "status_ok s" and e: "enabled t s" and s': "workqueue_factory rc dt t s = Some s'"
  shows "status_ok s'"
proof -
  have t: "t < length (wq_pcs s)" using e by (simp add: enabled_def)
  note same = status_same [OF i st t] and move = status_move [OF i st t]
  show ?thesis
  proof (cases "wq_pcs s ! t")
    case W_dequeue
    then obtain p s1 where p: "get_backlog t s = Some (p, s1)" "s' = goto_pc t (W_fetched p) s1" using s' by (auto simp: workqueue_factory_def)
    then show ?thesis using get_backlog_fetch [OF i(1) p(1)] W_dequeue status_queued [OF st i(1)]
      by (intro move [of "W_fetched p"]) (auto simp: fields split: option.splits)
  next
    case (P_enqueue a)
    then obtain h q n where "s' = goto_pc t P_unlock (s\<lparr>wq_heap := h, wq_backlog := q, wq_backlog_count := n\<rparr>)" using s'
      by (auto simp: workqueue_factory_def put_backlog_def bind_eq_Some_conv)
    then show ?thesis using P_enqueue status_of [OF st i(1) t, of a] by (intro move [of P_unlock]) (auto simp: fields)
  next
    case C_flush
    then obtain p s1 where p: "get_backlog t s = Some (p, s1)" using s' by (auto simp: workqueue_factory_def flush_backlog_def bind_eq_Some_conv)
    show ?thesis
    proof (cases p)
      case None
      then have "s' = goto_pc t C_flush_unlock s" using s' C_flush p get_backlog_fetch [OF i(1) p] by (simp add: workqueue_factory_def flush_backlog_def)
      then show ?thesis using C_flush by (intro same [of C_flush_unlock]) (simp_all add: fields)
    next
      case (Some a)
      have d: "distinct (wq_owned s)" using i(1) by (simp add: wq_inv_def owned_ok_def)
      have "wq_pcs s' = wq_pcs s" "wq_owned s' = remove1 a (wq_owned s)" "\<And>b. b \<noteq> a \<Longrightarrow> wq_works s' b = wq_works s b"
        using s' C_flush p get_backlog_fetch [OF i(1) p] Some by (auto simp: workqueue_factory_def flush_backlog_def set_work_def fields split: option.splits)
      then show ?thesis using st d by (auto simp: status_ok_def)
    qed
  next
    case (W_wait ret)
    then show ?thesis using s' by (intro same [of "wq_pcs s' ! t"]) (auto simp: workqueue_factory_def flush_fd_def Let_def fields t)
  next
    case (W_fetched p)
    then show ?thesis using s' by (intro same [of "case p of None \<Rightarrow> W_idle | Some a \<Rightarrow> W_test a"]) (auto simp: workqueue_factory_def fields split: option.splits)
  next
    case (P_scan k)
    then show ?thesis using s' by (intro same [of "wq_pcs s' ! t"]) (auto simp: workqueue_factory_def wakeup_first_free_worker_def after_put_def fields t)
  next
    case (P_signal k)
    then show ?thesis using s' by (intro same [of "after_put t s"]) (auto simp: workqueue_factory_def after_put_def fields)
  next
    case (P_lock a)
    then show ?thesis using s' by (intro same [of "P_enqueue a"]) (auto simp: workqueue_factory_def fields)
  qed (use e s' serve_status [OF i st t _ s'] same [of "W_wait False"] same [of W_fetch] same [of W_dequeue] same [of "P_scan 0"] same [of C_flush] same [of C_gone] in
    \<open>auto simp: enabled_def workqueue_factory_def fields\<close>)
qed

section \<open>Callbacks\<close>

definition accounts :: "workqueue_t \<Rightarrow> bool" where
  "accounts s = (\<forall>a. Cancelled a \<notin> set (wq_log s) \<longrightarrow>
     count_list (wq_log s) (Added a) = count_list (wq_log s) (Completed a) + count_list (wq_log s) (Flushed a) + count_list (wq_owned s) a \<and>
     (\<forall>w. a \<in> set (wq_owned s) \<longrightarrow> wq_works s a = Some w \<longrightarrow> \<not> cancelled w))"

lemma accounts_same:
  assumes "accounts s" and "wq_log s' = wq_log s \<or> wq_log s' = Called b rc # wq_log s" and "wq_owned s' = wq_owned s"
    and "\<And>a w. wq_works s' a = Some w \<Longrightarrow> \<exists>v. wq_works s a = Some v \<and> wk_requests w = wk_requests v"
  shows "accounts s'"
  unfolding accounts_def
proof (intro allI impI conjI)
  fix a assume a: "Cancelled a \<notin> set (wq_log s')"
  then have n: "Cancelled a \<notin> set (wq_log s)" using assms(2) by auto
  then show "count_list (wq_log s') (Added a) = count_list (wq_log s') (Completed a) + count_list (wq_log s') (Flushed a) + count_list (wq_owned s') a"
    using assms(1-3) by (auto simp: accounts_def)
  fix w assume "a \<in> set (wq_owned s')" "wq_works s' a = Some w"
  then show "\<not> cancelled w" using n assms(1,3) assms(4) [of a w] by (auto simp: accounts_def cancelled_def)
qed

lemma count_remove1: "a \<in> set xs \<Longrightarrow> count_list xs b = count_list (remove1 a xs) b + (if a = b then 1 else 0)"
  by (induction xs) auto

lemma count_distinct: "distinct xs \<Longrightarrow> count_list xs a = (if a \<in> set xs then 1 else 0)"
  by (induction xs) auto

lemma accounts_back:
  assumes "accounts s" and "distinct (wq_owned s)" "a \<in> set (wq_owned s)" and "e = Completed a \<or> e = Flushed a"
    and "wq_log s' = e # wq_log s" "wq_owned s' = remove1 a (wq_owned s)" "\<And>b. b \<noteq> a \<Longrightarrow> wq_works s' b = wq_works s b"
  shows "accounts s'"
  unfolding accounts_def
proof (intro allI impI conjI)
  fix b assume b: "Cancelled b \<notin> set (wq_log s')"
  then have n: "Cancelled b \<notin> set (wq_log s)" using assms(5) by simp
  then have sum: "count_list (wq_log s) (Added b) = count_list (wq_log s) (Completed b) + count_list (wq_log s) (Flushed b) + count_list (wq_owned s) b"
    using assms(1) by (simp add: accounts_def)
  have "count_list (wq_log s') (Completed b) + count_list (wq_log s') (Flushed b) = count_list (wq_log s) (Completed b) + count_list (wq_log s) (Flushed b) + (if a = b then 1 else 0)"
    "count_list (wq_log s') (Added b) = count_list (wq_log s) (Added b)" using assms(4,5) by auto
  then show "count_list (wq_log s') (Added b) = count_list (wq_log s') (Completed b) + count_list (wq_log s') (Flushed b) + count_list (wq_owned s') b"
    using sum count_remove1 [OF assms(3), of b] unfolding assms(6) by linarith
  fix w assume w: "b \<in> set (wq_owned s')" "wq_works s' b = Some w"
  then have "b \<noteq> a" "b \<in> set (wq_owned s)" using assms(2,6) by auto
  then show "\<not> cancelled w" using w(2) n assms(1) assms(7) [of b] by (simp add: accounts_def)
qed

lemma step_accounts:
  assumes i: "wq_inv xs s" and st: "status_ok s" and ac: "accounts s" and e: "enabled t s" and s': "workqueue_factory rc dt t s = Some s'"
  shows "accounts s'"
proof -
  have t: "t < length (wq_pcs s)" using e by (simp add: enabled_def)
  have d: "distinct (wq_owned s)" using i by (simp add: wq_inv_def owned_ok_def)
  note same = accounts_same [OF ac, where b = 0 and rc = 0]
  show ?thesis
  proof (cases "wq_pcs s ! t")
    case (W_early a)
    then have "a \<in> set (wq_owned s)" "a \<in> dom (wq_works s)" using owns_held [OF i t, of a] by auto
    then have "Cancelled a \<in> set (wq_log s)" using ac status_of [OF st i t, of a] W_early by (auto simp: accounts_def)
    then show ?thesis using ac W_early s' by (auto simp: workqueue_factory_def fields accounts_def)
  next
    case (W_callback a)
    then show ?thesis using s' owns_held(3) [OF i t, of a] by (intro accounts_back [OF ac d, of a "Completed a"]) (auto simp: workqueue_factory_def fields)
  next
    case C_flush
    then obtain p s1 where p: "get_backlog t s = Some (p, s1)" using s' by (auto simp: workqueue_factory_def flush_backlog_def bind_eq_Some_conv)
    show ?thesis
    proof (cases p)
      case None
      then show ?thesis using s' C_flush p get_backlog_fetch [OF i p] by (intro same) (auto simp: workqueue_factory_def flush_backlog_def fields)
    next
      case (Some a)
      then have "a \<in># mset (wq_owned s)" using get_backlog_fetch [OF i p] i by (simp add: wq_inv_def owned_ok_def)
      then show ?thesis using s' C_flush p get_backlog_fetch [OF i p] Some
        by (intro accounts_back [OF ac d, of a "Flushed a"]) (auto simp: workqueue_factory_def flush_backlog_def set_work_def fields split: option.splits)
    qed
  next
    case (W_call a)
    then show ?thesis using s'
      by (intro accounts_same [OF ac, of s' a rc]) (auto simp: workqueue_factory_def set_work_def fields bind_eq_Some_conv dest!: do_work_fields split: option.splits if_splits)
  next
    case W_dequeue
    then obtain p s1 where p: "get_backlog t s = Some (p, s1)" "s' = goto_pc t (W_fetched p) s1" using s' by (auto simp: workqueue_factory_def)
    then show ?thesis using get_backlog_fetch [OF i p(1)] by (intro same) (auto simp: fields split: option.splits)
  next
    case (W_test a)
    then show ?thesis using s' by (intro same) (auto simp: workqueue_factory_def cancel_requested_def complete_work_def set_work_def fields bind_eq_Some_conv split: option.splits if_splits)
  next
    case (P_enqueue a)
    then show ?thesis using s' by (intro same) (auto simp: workqueue_factory_def put_backlog_def fields bind_eq_Some_conv)
  qed (use e s' in \<open>auto intro!: same simp: enabled_def workqueue_factory_def complete_work_def set_work_def flush_fd_def wakeup_first_free_worker_def Let_def fields split: option.splits if_splits\<close>)
qed

section \<open>Whole runs\<close>

definition sound :: "nat list \<Rightarrow> workqueue_t \<Rightarrow> bool" where
  "sound xs s = (wq_inv xs s \<and> status_ok s \<and> accounts s)"

lemma add_sound:
  assumes so: "sound xs s" and r: "ready t s" and a: "a \<in> dom (wq_works s)" "a \<notin> set (wq_owned s)" and s': "workqueue_add_work t (Some a) s = Some (rc, s')"
  shows "sound xs s'"
proof -
  have i: "wq_inv xs s" "wq_inv xs s'" using so add_inv [OF _ r a] s' by (auto simp: sound_def)
  obtain w where w: "wq_works s a = Some w" using a by blast
  show ?thesis
  proof (cases "wk_has_fn w")
    case False
    then show ?thesis using so s' w by (simp add: workqueue_add_work_def)
  next
    case True
    let ?w = "w\<lparr>wk_slice := 0, wk_requests := 0, wk_status := WQ_WORK_QUEUED\<rparr>"
    have s1: "wq_works s' = (wq_works s)(a \<mapsto> ?w)" "wq_owned s' = a # wq_owned s" "wq_pcs s' = (wq_pcs s)[t := P_lock a]" "wq_log s' = Added a # wq_log s"
      using True s' w by (auto simp: workqueue_add_work_def set_work_def fields)
    have t: "t < length (wq_pcs s)" "wq_pcs s ! t = C_ready" using r by (auto simp: ready_def)
    have "status_ok s'" using so t s1 by (intro status_move [OF i _ t(1) s1(3)]) (auto simp: sound_def waiting_def)
    moreover have "accounts s'" using so a(2) by (auto simp: sound_def accounts_def s1 cancelled_def count_list_0_iff)
    ultimately show ?thesis using i by (simp add: sound_def)
  qed
qed

lemma cancel_sound:
  assumes so: "sound xs s" and "wq_inv ys s'" and s': "workqueue_cancel_work (Some a) s = Some s'"
  shows "sound ys s'"
proof -
  let ?f = "\<lambda>w. w\<lparr>wk_requests := wk_requests w OR WQ_REQ_CANCEL_WORK\<rparr>"
  obtain w where w: "wq_works s a = Some w" "s' = emit_event (Cancelled a) (s\<lparr>wq_works := (wq_works s)(a \<mapsto> ?f w)\<rparr>)"
    using s' by (auto simp: workqueue_cancel_work_def set_work_def split: option.splits)
  have keep: "cancelled (?f v)" "status_at c v \<Longrightarrow> status_at c (?f v)" "waiting v \<Longrightarrow> waiting (?f v)" for c v
  proof -
    show "cancelled (?f v)" by (simp add: cancelled_def WQ_REQ_CANCEL_WORK_def bit.conj_disj_distrib2)
    then show "status_at c v \<Longrightarrow> status_at c (?f v)" by (cases c) (auto simp: waiting_def)
    show "waiting v \<Longrightarrow> waiting (?f v)" by (simp add: waiting_def)
  qed
  have "status_ok s'" using so w keep by (auto simp: sound_def status_ok_def emit_event_def)
  moreover have "accounts s'" using so by (auto simp: sound_def accounts_def w emit_event_def)
  ultimately show ?thesis using assms(2) by (simp add: sound_def)
qed

lemma perform_sound:
  assumes so: "sound xs s" and al: "allowed l s" and "\<not> overrun l s"
  shows "\<exists>s' ys. perform l s = Some s' \<and> sound ys s'"
proof -
  have i: "wq_inv xs s" "status_ok s" "accounts s" using so by (auto simp: sound_def)
  obtain s' ys where s': "perform l s = Some s'" "wq_inv ys s'" using perform_inv [OF i(1) al assms(3)] by blast
  have "\<exists>ys. sound ys s'"
  proof (cases l)
    case (Step t rc dt)
    then show ?thesis using step_status [OF i(1) s'(2) i(2)] step_accounts [OF i] s' al by (auto simp: sound_def allowed_def perform_def)
  next
    case (Add t a)
    then show ?thesis using add_sound [OF so, of t a] s'(1) al by (auto simp: allowed_def perform_def)
  next
    case (Cancel a)
    then show ?thesis using cancel_sound [OF so s'(2)] s'(1) by (auto simp: perform_def)
  next
    case (Destroy t)
    then have "status_ok s'" using s' al i(2) by (intro status_same [OF i(1) s'(2) i(2), of t C_flush_lock]) (auto simp: perform_def allowed_def ready_def fields)
    moreover have "accounts s'" using Destroy s'(1) i(3) by (auto simp: perform_def fields accounts_def)
    ultimately show ?thesis using s'(2) by (auto simp: sound_def)
  qed
  then show ?thesis using s'(1) by blast
qed

lemma reachable_sound:
  assumes "reachable (workqueue_started h works n m) s" and "start_ok h works"
  shows "\<exists>xs. sound xs s"
  using assms
proof (induction rule: reachable.induct)
  case initial
  then have "sound [] (workqueue_started h works n m)" using create_inv [of h works n m] by (simp add: sound_def status_ok_def accounts_def) (simp add: workqueue_started_def)
  then show ?case by blast
next
  case (later s l s')
  then show ?case using perform_sound overrun_stuck by (metis option.inject option.distinct(1))
qed

lemma created_sound:
  assumes "workqueue_create calloc h works n m = (0, Some s0)" and "start_ok h works" and "reachable s0 s"
  shows "\<exists>xs. sound xs s"
  using assms reachable_sound [of h works n m s] by (auto simp: workqueue_create_def split: if_splits)

section \<open>Properties\<close>

text \<open>C27: For a work that nobody asked to cancel, the status and the callbacks tell the truth: it is called back or flushed exactly once for each
  time it was added, up to the one time it may still be in the queue; and while the queue owns it, \<open>workqueue_work_is_complete\<close> holds
  only when all that is left is the callback, so that its work function does not run any more.\<close>

theorem workqueue_completion:
  assumes "workqueue_create calloc h works n m = (0, Some s0)" and "start_ok h works" and "reachable s0 s" and "Cancelled a \<notin> set (wq_log s)"
  shows "count_list (wq_log s) (Added a) = count_list (wq_log s) (Completed a) + count_list (wq_log s) (Flushed a) + (if a \<in> set (wq_owned s) then 1 else 0) \<and>
    (a \<in> set (wq_owned s) \<and> workqueue_work_is_complete a s = Some True \<longrightarrow> (\<exists>t<length (wq_pcs s). wq_pcs s ! t = W_callback a))"
proof -
  obtain xs where xs: "sound xs s" using created_sound [OF assms(1-3)] by blast
  have d: "distinct (wq_owned s)" and ac: "accounts s" and st: "status_ok s" using xs by (auto simp: sound_def wq_inv_def owned_ok_def)
  have one: "count_list (wq_owned s) a = (if a \<in> set (wq_owned s) then 1 else 0)" using count_distinct [OF d] .
  have "\<exists>t<length (wq_pcs s). wq_pcs s ! t = W_callback a" if own: "a \<in> set (wq_owned s)" and c: "workqueue_work_is_complete a s = Some True"
  proof -
    obtain w where w: "wq_works s a = Some w" "wk_status w = WQ_WORK_COMPLETE" using c by (auto simp: workqueue_work_is_complete_def)
    then have c: "\<not> cancelled w" "\<not> waiting w" using ac own assms(4) by (simp_all add: accounts_def waiting_def)
    obtain t where t: "t < length (wq_pcs s)" "a \<in># held (wq_pcs s ! t)" using st own w(1) c(2) unfolding status_ok_def by blast
    then have "status_at (wq_pcs s ! t) w" using st own w(1) unfolding status_ok_def by blast
    then have "wq_pcs s ! t = W_callback a" using w(2) c t(2) by (cases "wq_pcs s ! t") (auto split: option.splits)
    then show ?thesis using t(1) by blast
  qed
  then show ?thesis using ac assms(4) one by (simp add: accounts_def)
qed

section \<open>Witnesses\<close>

definition demo_works :: "nat \<Rightarrow> nat \<rightharpoonup> work_t" where
  "demo_works n = map_of (map (\<lambda>a. (a, \<lparr>wk_slice = 0, wk_status = WQ_WORK_NEW, wk_requests = 0, wk_has_fn = True\<rparr>)) [0..<n])"

definition demo_heap :: "nat \<Rightarrow> nheap" where
  "demo_heap n = map_of (map (\<lambda>a. (a, \<lparr>nd_next = NULL, nd_prev = NULL\<rparr>)) [0..<n])"

definition demo :: "nat \<Rightarrow> workqueue_t" where
  \<comment> \<open>one worker, one client and \<open>n\<close> works\<close>
  "demo n = workqueue_started (demo_heap n) (demo_works n) 1 1"

definition adds :: "nat \<Rightarrow> nat \<Rightarrow> label list" where
  \<comment> \<open>\<open>workqueue_add_work\<close> in one go, with \<open>k\<close> steps\<close>
  "adds k a = Add 1 a # replicate k (Step 1 0 0)"

definition turns :: "nat \<Rightarrow> label list" where
  "turns k = replicate k (Step 0 0 0)"

lemma demo_ok: "n \<le> 100 \<Longrightarrow> start_ok (demo_heap n) (demo_works n)"
proof -
  assume n: "n \<le> 100"
  have "dom (demo_heap n) = {..<n}" "dom (demo_works n) = {..<n}" by (auto simp: demo_heap_def demo_works_def dom_map_of_conv_image_fst image_image)
  then show ?thesis using n by (simp add: start_ok_def INT_MAX_def)
qed

definition demo_added :: workqueue_t where
  "demo_added = the (schedule (turns 1 @ adds 5 0) (demo 1))"

lemma demo_added_reachable: "reachable (demo 1) demo_added"
proof -
  have "schedule (turns 1 @ adds 5 0) (demo 1) \<noteq> None" by code_simp
  then show ?thesis using schedule_reachable [OF reachable.initial, of "turns 1 @ adds 5 0" "demo 1"] by (auto simp: demo_added_def)
qed

lemma demo_added_state: "wq_pcs demo_added ! 0 = W_wait False" "length (wq_workers demo_added) = 1" "wr_event (wq_workers demo_added ! 0) = 8" "wq_lock demo_added = None"
    "wq_log demo_added = [Added 0]" "wq_heap demo_added 0 = Some \<lparr>nd_next = NULL, nd_prev = NULL\<rparr>" "q_list (wq_backlog demo_added) = \<lparr>lt_head = Some 0, lt_tail = Some 0\<rparr>"
    "wq_owned demo_added = [0]"
  by code_simp+

lemma demo_created: "workqueue_create True (demo_heap n) (demo_works n) 1 1 = (0, Some (demo n))"
  by (simp add: workqueue_create_def demo_def)

lemma workqueue_completion_witness:
  "count_list (wq_log demo_added) (Added 0) = count_list (wq_log demo_added) (Completed 0) + count_list (wq_log demo_added) (Flushed 0) + 1"
proof -
  have "start_ok (demo_heap 1) (demo_works 1)" by (rule demo_ok) simp
  then show ?thesis using workqueue_completion [OF demo_created _ demo_added_reachable, of 0] by (simp add: demo_added_state)
qed

end
