(* ===== verification/Workqueue_Live.thy ===== *)
theory Workqueue_Live
  imports Workqueue_Status
begin

text \<open>
  Progress of the work queue. A worker that has been woken drains the backlog on its own, whatever the other threads do not do, and goes
  back to sleep; this needs that no work yields forever. The wake-up itself can be lost, in every queue: a work that is added while the workers are about to
  go to sleep can stay in the backlog with every thread asleep, and so can the works whose wake-ups fill the read buffer of a worker.
\<close>

section \<open>A thread on its own\<close>

fun calls :: "nat \<Rightarrow> event list \<Rightarrow> nat" where
  "calls a [] = 0"
| "calls a (Called b rc # es) = (if a = b then Suc (calls a es) else calls a es)"
| "calls a (_ # es) = calls a es"

definition reply :: "(nat \<Rightarrow> nat \<Rightarrow> int) \<Rightarrow> nat \<Rightarrow> workqueue_t \<Rightarrow> int" where
  \<comment> \<open>\<open>f a k\<close> is what the call number \<open>k\<close> of the function of work \<open>a\<close> returns\<close>
  "reply f t s = (case wq_pcs s ! t of W_call a \<Rightarrow> f a (calls a (wq_log s)) | _ \<Rightarrow> 0)"

inductive runs :: "(nat \<Rightarrow> nat \<Rightarrow> int) \<Rightarrow> nat \<Rightarrow> workqueue_t \<Rightarrow> workqueue_t \<Rightarrow> bool" for f t where
  stop: "runs f t s s"
| step: "enabled t s \<Longrightarrow> workqueue_factory (reply f t s) dt t s = Some s1 \<Longrightarrow> runs f t s1 s' \<Longrightarrow> runs f t s s'"

lemma runs_trans: "runs f t s s1 \<Longrightarrow> runs f t s1 s2 \<Longrightarrow> runs f t s s2"
  by (induction rule: runs.induct) (auto intro: runs.step)

lemma runs_sound: "runs f t s s' \<Longrightarrow> sound xs s \<Longrightarrow> \<exists>ys. sound ys s'"
proof (induction arbitrary: xs rule: runs.induct)
  case (step s dt s1 s')
  have "\<not> overrun (Step t (reply f t s) dt) s" using step overrun_stuck [of "Step t (reply f t s) dt" s] by (auto simp: perform_def)
  then have "\<exists>s1 ys. perform (Step t (reply f t s) dt) s = Some s1 \<and> sound ys s1" using step by (intro perform_sound) (auto simp: allowed_def)
  then show ?case using step by (auto simp: perform_def)
qed blast

lemma linked_unique: "linked h p xs NULL \<Longrightarrow> linked h p ys NULL \<Longrightarrow> first_ptr xs NULL = first_ptr ys NULL \<Longrightarrow> xs = ys"
proof (induction xs arbitrary: p ys)
  case Nil
  then show ?case by (cases ys) auto
next
  case (Cons x xs)
  then show ?case by (cases ys) auto
qed

lemma queue_unique: "queue_rel (h, q) xs \<Longrightarrow> queue_rel (h, q) ys \<Longrightarrow> xs = ys"
  by (auto simp: queue_rel_def is_dll_def intro: linked_unique)

lemma sound_queue: "sound xs s \<Longrightarrow> queue_rel (wq_heap s, wq_backlog s) ys \<Longrightarrow> sound ys s"
  using queue_unique by (auto simp: sound_def wq_inv_def backlog_ok_def)

section \<open>One round of the worker\<close>

lemma fetch_one:
  assumes so: "sound (a # ys) s" and t: "t < length (wq_pcs s)" "wq_pcs s ! t = W_fetch" and l: "wq_lock s = None"
  shows "\<exists>h q. runs f t s (goto_pc t (W_test a) (s\<lparr>wq_heap := h, wq_backlog := q, wq_backlog_count := int (length ys)\<rparr>)) \<and> queue_rel (h, q) ys"
proof -
  let ?s1 = "goto_pc t W_dequeue (s\<lparr>wq_lock := Some t\<rparr>)"
  have "wq_inv (a # ys) ?s1" using so t l by (intro inv_lock) (auto simp: sound_def wq_inv_def threads_ok_def dest: spec [of _ t])
  then obtain h q where h: "get_backlog t ?s1 = Some (Some a, ?s1\<lparr>wq_heap := h, wq_backlog := q, wq_backlog_count := int (length ys)\<rparr>)" "queue_rel (h, q) ys"
    using get_backlog_ok(2) [of "a # ys" ?s1 a ys t] by (auto simp: wq_inv_def)
  let ?s2 = "goto_pc t (W_fetched (Some a)) (?s1\<lparr>wq_heap := h, wq_backlog := q, wq_backlog_count := int (length ys)\<rparr>)"
  let ?s3 = "goto_pc t (W_test a) (?s2\<lparr>wq_lock := None\<rparr>)"
  have "?s3 = goto_pc t (W_test a) (s\<lparr>wq_heap := h, wq_backlog := q, wq_backlog_count := int (length ys)\<rparr>)" using l by (cases s) (simp add: goto_pc_def)
  moreover have "runs f t s ?s3"
  proof (rule runs.step [of t s f 0 ?s1])
    show "runs f t ?s1 ?s3"
    proof (rule runs.step [of t ?s1 f 0 ?s2])
      show "runs f t ?s2 ?s3" using t(1) by (intro runs.step [of t ?s2 f 0 ?s3] runs.stop) (simp_all add: enabled_def workqueue_factory_def goto_pc_def)
    qed (use t h(1) in \<open>simp_all add: enabled_def workqueue_factory_def goto_pc_def\<close>)
  qed (use t l in \<open>simp_all add: enabled_def workqueue_factory_def goto_pc_def\<close>)
  ultimately show ?thesis using h(2) by metis
qed

definition apart :: "nat \<Rightarrow> workqueue_t \<Rightarrow> workqueue_t \<Rightarrow> bool" where
  \<comment> \<open>nothing but work \<open>a\<close> and the position of a thread is different\<close>
  "apart a s s' = (length (wq_workers s') = length (wq_workers s) \<and> length (wq_pcs s') = length (wq_pcs s) \<and> wq_lock s' = wq_lock s \<and>
     (\<forall>b. b \<noteq> a \<longrightarrow> wq_works s' b = wq_works s b \<and> calls b (wq_log s') = calls b (wq_log s)))"

definition same_queue :: "workqueue_t \<Rightarrow> workqueue_t \<Rightarrow> bool" where
  "same_queue s s' = (wq_heap s' = wq_heap s \<and> wq_backlog s' = wq_backlog s \<and> wq_backlog_count s' = wq_backlog_count s)"

lemma apart_trans: "apart a s s1 \<Longrightarrow> apart a s1 s2 \<Longrightarrow> apart a s s2"
  by (simp add: apart_def)

lemma same_queue_trans: "same_queue s s1 \<Longrightarrow> same_queue s1 s2 \<Longrightarrow> same_queue s s2"
  by (simp add: same_queue_def)

lemmas run_simps = enabled_def workqueue_factory_def fields reply_def

lemma do_work_none: "do_work 0 w = Some w"
  using sint_ge [of "wk_slice w"] sint_lt [of "wk_slice w"] by (simp add: do_work_def)

lemma begin_one:
  assumes t: "t < length (wq_pcs s)" "wq_pcs s ! t = W_begin a" and w: "wq_works s a = Some w"
  shows "\<exists>s'. runs f t s s' \<and> apart a s s' \<and> same_queue s s' \<and> calls a (wq_log s') = Suc (calls a (wq_log s)) \<and> (\<exists>w. wq_works s' a = Some w) \<and>
    (wq_pcs s' ! t = W_complete a \<or> wq_pcs s' ! t = P_lock a \<and> 0 < f a (calls a (wq_log s)))"
proof -
  let ?rc = "f a (calls a (wq_log s))" and ?w = "w\<lparr>wk_status := WQ_WORK_IN_PROGRESS\<rparr>"
  let ?s1 = "goto_pc t (W_call a) (s\<lparr>wq_works := (wq_works s)(a \<mapsto> ?w)\<rparr>)"
  let ?s2 = "goto_pc t (W_returned a ?rc) (emit_event (Called a ?rc) (?s1\<lparr>wq_works := (wq_works s)(a \<mapsto> ?w)\<rparr>))"
  let ?s3 = "goto_pc t (if ?rc \<le> 0 \<or> cancelled w then W_complete a else P_lock a) ?s2"
  have "do_work 0 ?w = Some ?w" by (rule do_work_none)
  moreover have "runs f t s ?s3" if d: "do_work 0 ?w = Some ?w"
  proof (rule runs.step [of t s f 0 ?s1])
    show "runs f t ?s1 ?s3"
    proof (rule runs.step [of t ?s1 f 0 ?s2])
      show "runs f t ?s2 ?s3" using t(1) by (intro runs.step [of t ?s2 f 0 ?s3] runs.stop) (simp_all add: run_simps cancel_requested_def cancelled_def)
    qed (use t(1) d in \<open>simp_all add: run_simps set_work_def\<close>)
  qed (use t w in \<open>simp_all add: run_simps set_work_def\<close>)
  ultimately have "runs f t s ?s3" by blast
  moreover have "apart a s ?s3" "same_queue s ?s3" by (simp_all add: apart_def same_queue_def fields)
  ultimately show ?thesis using t(1) by (intro exI [of _ ?s3]) (auto simp: fields)
qed

lemma finish_one:
  assumes t: "t < length (wq_pcs s)" "wq_pcs s ! t = W_complete a" and w: "wq_works s a = Some w"
  shows "\<exists>s'. runs f t s s' \<and> apart a s s' \<and> same_queue s s' \<and> calls a (wq_log s') = calls a (wq_log s) \<and> wq_pcs s' ! t = W_fetch \<and> workqueue_work_is_complete a s' = Some True"
proof -
  let ?s1 = "goto_pc t (W_callback a) (s\<lparr>wq_works := (wq_works s)(a \<mapsto> w\<lparr>wk_status := WQ_WORK_COMPLETE\<rparr>)\<rparr>)"
  let ?s2 = "goto_pc t W_fetch (emit_event (Completed a) (?s1\<lparr>wq_owned := remove1 a (wq_owned ?s1)\<rparr>))"
  have "runs f t s ?s2"
  proof (rule runs.step [of t s f 0 ?s1])
    show "runs f t ?s1 ?s2" using t(1) by (intro runs.step [of t ?s1 f 0 ?s2] runs.stop) (simp_all add: run_simps)
  qed (use t w in \<open>simp_all add: run_simps complete_work_def set_work_def\<close>)
  moreover have "apart a s ?s2" "same_queue s ?s2" by (simp_all add: apart_def same_queue_def fields)
  ultimately show ?thesis using t(1) by (intro exI [of _ ?s2]) (auto simp: fields workqueue_work_is_complete_def)
qed

lemma test_one:
  assumes t: "t < length (wq_pcs s)" "wq_pcs s ! t = W_test a" and w: "wq_works s a = Some w"
  shows "\<exists>s'. runs f t s s' \<and> apart a s s' \<and> same_queue s s' \<and> calls a (wq_log s') = calls a (wq_log s) \<and> (\<exists>w. wq_works s' a = Some w) \<and> wq_pcs s' ! t = W_begin a"
proof (cases "cancelled w")
  case False
  have "runs f t s (goto_pc t (W_begin a) s)"
    using t w False by (intro runs.step [of t s f 0 "goto_pc t (W_begin a) s"] runs.stop) (simp_all add: run_simps cancel_requested_def cancelled_def)
  then show ?thesis using t(1) w by (intro exI [of _ "goto_pc t (W_begin a) s"]) (auto simp: fields apart_def same_queue_def)
next
  case True
  let ?s1 = "goto_pc t (W_early a) (s\<lparr>wq_works := (wq_works s)(a \<mapsto> w\<lparr>wk_status := WQ_WORK_COMPLETE\<rparr>)\<rparr>)"
  let ?s2 = "goto_pc t (W_begin a) (emit_event (Completed a) ?s1)"
  have "runs f t s ?s2"
  proof (rule runs.step [of t s f 0 ?s1])
    show "runs f t ?s1 ?s2" using t(1) by (intro runs.step [of t ?s1 f 0 ?s2] runs.stop) (simp_all add: run_simps)
  qed (use t w True in \<open>simp_all add: run_simps cancel_requested_def cancelled_def complete_work_def set_work_def\<close>)
  then show ?thesis using t(1) by (intro exI [of _ ?s2]) (auto simp: fields apart_def same_queue_def)
qed

lemma scan_one:
  assumes "t < length (wq_pcs s)" "wq_pcs s ! t = P_scan k" "t < length (wq_workers s)"
  shows "\<exists>s'. runs f t s s' \<and> apart a s s' \<and> same_queue s s' \<and> wq_log s' = wq_log s \<and> wq_pcs s' ! t = W_fetch"
  using assms
proof (induction "length (wq_workers s) - k" arbitrary: s k rule: less_induct)
  case less
  let ?s1 = "wakeup_first_free_worker t k s"
  have go: "runs f t s s'" if "runs f t ?s1 s'" for s' using less.prems that by (intro runs.step [of t s f 0 ?s1]) (simp_all add: run_simps)
  consider (over) "\<not> k < length (wq_workers s)" | (idle) "k < length (wq_workers s)" "wr_state (wq_workers s ! k) = WQ_WORKER_STATE_IDLE"
    | (busy) "k < length (wq_workers s)" "wr_state (wq_workers s ! k) \<noteq> WQ_WORKER_STATE_IDLE" by blast
  then show ?case
  proof cases
    case over
    then show ?thesis using go [OF runs.stop] less.prems
      by (intro exI [of _ ?s1]) (auto simp: wakeup_first_free_worker_def after_put_def fields apart_def same_queue_def)
  next
    case idle
    let ?s2 = "goto_pc t (after_put t ?s1) (event_set k ?s1)"
    have "runs f t ?s1 ?s2" using idle less.prems by (intro runs.step [of t ?s1 f 0 ?s2] runs.stop) (simp_all add: run_simps wakeup_first_free_worker_def)
    then show ?thesis using idle less.prems go [of ?s2]
      by (intro exI [of _ ?s2]) (auto simp: wakeup_first_free_worker_def after_put_def fields apart_def same_queue_def)
  next
    case busy
    have "\<exists>s'. runs f t ?s1 s' \<and> apart a ?s1 s' \<and> same_queue ?s1 s' \<and> wq_log s' = wq_log ?s1 \<and> wq_pcs s' ! t = W_fetch"
      using busy less.prems by (intro less.hyps [of _ "k + 1"]) (simp_all add: wakeup_first_free_worker_def fields)
    then show ?thesis using go busy by (auto simp: wakeup_first_free_worker_def fields apart_def same_queue_def)
  qed
qed

lemma put_one:
  assumes so: "sound xs s" and t: "t < length (wq_pcs s)" "wq_pcs s ! t = P_lock a" "t < length (wq_workers s)" and l: "wq_lock s = None"
  shows "\<exists>s'. runs f t s s' \<and> apart a s s' \<and> queue_rel (wq_heap s', wq_backlog s') (xs @ [a]) \<and> wq_log s' = wq_log s \<and> wq_pcs s' ! t = W_fetch"
proof -
  let ?s1 = "goto_pc t (P_enqueue a) (s\<lparr>wq_lock := Some t\<rparr>)"
  have i: "wq_inv xs s" using so by (simp add: sound_def)
  then have "wq_inv xs ?s1" using t l by (intro inv_lock) simp_all
  then have bl: "backlog_ok xs ?s1" by (simp add: wq_inv_def)
  have a: "a \<in> dom (wq_works ?s1)" "a \<notin> set xs" using owns_held [OF i t(1), of a] t(2) by (auto simp: goto_pc_def)
  obtain h q where h: "put_backlog a ?s1 = Some (?s1\<lparr>wq_heap := h, wq_backlog := q, wq_backlog_count := int (length (xs @ [a]))\<rparr>)" "queue_rel (h, q) (xs @ [a])"
    using put_backlog_ok [OF bl a] by blast
  let ?s2 = "goto_pc t P_unlock (?s1\<lparr>wq_heap := h, wq_backlog := q, wq_backlog_count := int (length (xs @ [a]))\<rparr>)"
  let ?s3 = "goto_pc t (P_scan 0) (?s2\<lparr>wq_lock := None\<rparr>)"
  have r: "runs f t s s'" if "runs f t ?s3 s'" for s'
  proof (rule runs.step [of t s f 0 ?s1])
    show "runs f t ?s1 s'"
    proof (rule runs.step [of t ?s1 f 0 ?s2])
      show "runs f t ?s2 s'" using t(1) that by (intro runs.step [of t ?s2 f 0 ?s3]) (simp_all add: enabled_def workqueue_factory_def goto_pc_def)
    qed (use t h(1) in \<open>simp_all add: enabled_def workqueue_factory_def goto_pc_def\<close>)
  qed (use t l in \<open>simp_all add: enabled_def workqueue_factory_def goto_pc_def\<close>)
  obtain s4 where s4: "runs f t ?s3 s4" "apart a ?s3 s4" "same_queue ?s3 s4" "wq_log s4 = wq_log ?s3" "wq_pcs s4 ! t = W_fetch"
    using scan_one [of t ?s3 0 f a] t by (auto simp: goto_pc_def)
  moreover have "apart a s ?s3" using l by (simp add: apart_def goto_pc_def)
  ultimately show ?thesis using r [OF s4(1)] h(2) apart_trans [of a s ?s3 s4] by (intro exI [of _ s4]) (auto simp: same_queue_def goto_pc_def)
qed

lemma one_round:
  assumes so: "sound (a # ys) s" and t: "t < length (wq_pcs s)" "wq_pcs s ! t = W_fetch" "t < length (wq_workers s)" and l: "wq_lock s = None"
  shows "\<exists>s'. runs f t s s' \<and> apart a s s' \<and> wq_pcs s' ! t = W_fetch \<and> calls a (wq_log s') = Suc (calls a (wq_log s)) \<and>
    (sound ys s' \<and> workqueue_work_is_complete a s' = Some True \<or> sound (ys @ [a]) s' \<and> 0 < f a (calls a (wq_log s)))"
proof -
  obtain h q where h: "runs f t s (goto_pc t (W_test a) (s\<lparr>wq_heap := h, wq_backlog := q, wq_backlog_count := int (length ys)\<rparr>))" "queue_rel (h, q) ys"
    using fetch_one [OF so t(1,2) l] by blast
  define s1 where "s1 = goto_pc t (W_test a) (s\<lparr>wq_heap := h, wq_backlog := q, wq_backlog_count := int (length ys)\<rparr>)"
  have s1: "runs f t s s1" "apart a s s1" "wq_pcs s1 ! t = W_test a" "queue_rel (wq_heap s1, wq_backlog s1) ys" "wq_log s1 = wq_log s" "wq_works s1 = wq_works s"
    using h t(1) by (auto simp: s1_def apart_def goto_pc_def)
  have "a \<in> dom (wq_works s)" using so backlog_nodes(2) [of "a # ys" s] by (auto simp: sound_def wq_inv_def)
  then obtain w where w: "wq_works s1 a = Some w" using s1(6) by auto
  have t1: "t < length (wq_pcs s1)" using s1(2) t(1) by (simp add: apart_def)
  obtain s2 w2 where s2: "runs f t s1 s2" "apart a s1 s2" "same_queue s1 s2" "calls a (wq_log s2) = calls a (wq_log s1)" "wq_works s2 a = Some w2" "wq_pcs s2 ! t = W_begin a"
    using test_one [OF t1 s1(3) w] by blast
  have t2: "t < length (wq_pcs s2)" using s2(2) t1 by (simp add: apart_def)
  obtain s3 w3 where s3: "runs f t s2 s3" "apart a s2 s3" "same_queue s2 s3" "calls a (wq_log s3) = Suc (calls a (wq_log s2))" "wq_works s3 a = Some w3"
      "wq_pcs s3 ! t = W_complete a \<or> wq_pcs s3 ! t = P_lock a \<and> 0 < f a (calls a (wq_log s2))"
    using begin_one [OF t2 s2(6,5)] by blast
  have r: "runs f t s s3" "apart a s s3" "queue_rel (wq_heap s3, wq_backlog s3) ys" "calls a (wq_log s3) = Suc (calls a (wq_log s))"
    using runs_trans [OF s1(1) runs_trans [OF s2(1) s3(1)]] apart_trans [OF s1(2) apart_trans [OF s2(2) s3(2)]] s1(4,5) s2(3,4) s3(3,4) by (simp_all add: same_queue_def)
  obtain zs where "sound zs s3" using runs_sound [OF r(1) so] by blast
  then have so3: "sound ys s3" using sound_queue r(3) by blast
  have t3: "t < length (wq_pcs s3)" "t < length (wq_workers s3)" "wq_lock s3 = None" using r(2) t l by (auto simp: apart_def)
  from s3(6) show ?thesis
  proof (elim disjE conjE)
    assume "wq_pcs s3 ! t = W_complete a"
    then obtain s4 where s4: "runs f t s3 s4" "apart a s3 s4" "same_queue s3 s4" "calls a (wq_log s4) = calls a (wq_log s3)" "wq_pcs s4 ! t = W_fetch" "workqueue_work_is_complete a s4 = Some True"
      using finish_one [OF t3(1) _ s3(5)] by blast
    obtain zs where "sound zs s4" using runs_sound [OF s4(1) so3] by blast
    moreover have "queue_rel (wq_heap s4, wq_backlog s4) ys" using r(3) s4(3) by (simp add: same_queue_def)
    ultimately have "sound ys s4" by (rule sound_queue)
    then show ?thesis using runs_trans [OF r(1) s4(1)] apart_trans [OF r(2) s4(2)] s4 r(4) by auto
  next
    assume p: "wq_pcs s3 ! t = P_lock a" and y: "0 < f a (calls a (wq_log s2))"
    obtain s4 where s4: "runs f t s3 s4" "apart a s3 s4" "queue_rel (wq_heap s4, wq_backlog s4) (ys @ [a])" "wq_log s4 = wq_log s3" "wq_pcs s4 ! t = W_fetch"
      using put_one [OF so3 t3(1) p t3(2,3)] by blast
    obtain zs where "sound zs s4" using runs_sound [OF s4(1) so3] by blast
    then have "sound (ys @ [a]) s4" using sound_queue s4(3) by blast
    then show ?thesis using runs_trans [OF r(1) s4(1)] apart_trans [OF r(2) s4(2)] s4 r(4) y s1(5) s2(4) by auto
  qed
qed

section \<open>Draining the backlog\<close>

definition rounds :: "(nat \<Rightarrow> nat \<Rightarrow> int) \<Rightarrow> nat \<Rightarrow> nat \<Rightarrow> nat" where
  \<comment> \<open>how often work \<open>a\<close> still yields after \<open>c\<close> calls\<close>
  "rounds f a c = (LEAST k. f a (c + k) \<le> 0)"

lemma rounds_Suc:
  assumes "\<exists>k\<ge>c. f a k \<le> 0" and "0 < f a c"
  shows "rounds f a c = Suc (rounds f a (Suc c))" and "\<exists>k\<ge>Suc c. f a k \<le> 0"
proof -
  obtain k where k: "c \<le> k" "f a k \<le> 0" using assms(1) by blast
  then have "k \<noteq> c" using assms(2) by auto
  then show "\<exists>k\<ge>Suc c. f a k \<le> 0" using k by (intro exI [of _ k]) simp
  have "f a (c + (k - c)) \<le> 0" "\<not> f a (c + 0) \<le> 0" using k assms(2) by simp_all
  from Least_Suc [of "\<lambda>k. f a (c + k) \<le> 0", OF this] show "rounds f a c = Suc (rounds f a (Suc c))"
    by (simp add: rounds_def)
qed

definition work_left :: "(nat \<Rightarrow> nat \<Rightarrow> int) \<Rightarrow> event list \<Rightarrow> nat list \<Rightarrow> nat" where
  "work_left f log xs = (\<Sum>a\<leftarrow>xs. Suc (rounds f a (calls a log)))"

lemma work_left_cong: "(\<And>a. a \<in> set xs \<Longrightarrow> calls a log = calls a log') \<Longrightarrow> work_left f log xs = work_left f log' xs"
  unfolding work_left_def by (rule arg_cong [of _ _ sum_list]) simp

lemma drain:
  assumes "sound xs s" and "t < length (wq_pcs s)" "wq_pcs s ! t = W_fetch" "t < length (wq_workers s)" "wq_lock s = None"
    and "\<forall>a\<in>set xs. \<exists>k\<ge>calls a (wq_log s). f a k \<le> 0"
  shows "\<exists>s'. runs f t s s' \<and> sound [] s' \<and> wq_pcs s' ! t = W_fetch \<and> wq_lock s' = None \<and> length (wq_pcs s') = length (wq_pcs s) \<and>
    (\<forall>a\<in>set xs. workqueue_work_is_complete a s' = Some True) \<and> (\<forall>b. b \<notin> set xs \<longrightarrow> wq_works s' b = wq_works s b)"
  using assms
proof (induction "work_left f (wq_log s) xs" arbitrary: xs s rule: less_induct)
  case less
  show ?case
  proof (cases xs)
    case Nil
    then show ?thesis using less.prems runs.stop by auto
  next
    case (Cons a ys)
    then have d: "a \<notin> set ys" using less.prems(1) backlog_nodes(1) [of xs s] by (auto simp: sound_def wq_inv_def)
    obtain s1 where s1: "runs f t s s1" "apart a s s1" "wq_pcs s1 ! t = W_fetch" "calls a (wq_log s1) = Suc (calls a (wq_log s))"
      and or: "sound ys s1 \<and> workqueue_work_is_complete a s1 = Some True \<or> sound (ys @ [a]) s1 \<and> 0 < f a (calls a (wq_log s))"
      using one_round [of a ys s t f] less.prems Cons by blast
    have same: "calls b (wq_log s1) = calls b (wq_log s)" if "b \<in> set ys" for b using s1(2) that d by (auto simp: apart_def)
    have at: "t < length (wq_pcs s1)" "t < length (wq_workers s1)" "wq_lock s1 = None" using s1(2) less.prems by (auto simp: apart_def)
    have yleft: "work_left f (wq_log s1) ys = work_left f (wq_log s) ys" using same by (intro work_left_cong)
    from or show ?thesis
    proof (elim disjE conjE)
      assume so: "sound ys s1" and c: "workqueue_work_is_complete a s1 = Some True"
      have "work_left f (wq_log s1) ys < work_left f (wq_log s) xs" by (simp add: yleft Cons) (simp add: work_left_def)
      from less.hyps [OF this so at(1) s1(3) at(2,3)] obtain s' where "runs f t s1 s'" "sound [] s'" "wq_pcs s' ! t = W_fetch" "wq_lock s' = None"
          "length (wq_pcs s') = length (wq_pcs s1)" "\<forall>a\<in>set ys. workqueue_work_is_complete a s' = Some True" "\<forall>b. b \<notin> set ys \<longrightarrow> wq_works s' b = wq_works s1 b"
        using less.prems(6) same Cons by auto
      moreover from this have "workqueue_work_is_complete a s' = Some True" using c d by (simp add: workqueue_work_is_complete_def)
      ultimately show ?thesis using runs_trans [OF s1(1)] s1(2) Cons by (intro exI [of _ s']) (auto simp: apart_def)
    next
      assume so: "sound (ys @ [a]) s1" and y: "0 < f a (calls a (wq_log s))"
      have ex: "\<exists>k\<ge>calls a (wq_log s). f a k \<le> 0" using less.prems(6) Cons by simp
      have "work_left f (wq_log s1) (ys @ [a]) < work_left f (wq_log s) xs"
        using rounds_Suc(1) [of "calls a (wq_log s)" f a, OF ex y] yleft s1(4) Cons by (simp add: work_left_def)
      from less.hyps [OF this so at(1) s1(3) at(2,3)] obtain s' where "runs f t s1 s'" "sound [] s'" "wq_pcs s' ! t = W_fetch" "wq_lock s' = None"
          "length (wq_pcs s') = length (wq_pcs s1)" "\<forall>a\<in>set (ys @ [a]). workqueue_work_is_complete a s' = Some True" "\<forall>b. b \<notin> set (ys @ [a]) \<longrightarrow> wq_works s' b = wq_works s1 b"
        using less.prems(6) same Cons rounds_Suc(2) [of "calls a (wq_log s)" f a, OF ex y] s1(4) by auto
      then show ?thesis using runs_trans [OF s1(1)] s1(2) Cons by (intro exI [of _ s']) (auto simp: apart_def)
    qed
  qed
qed

section \<open>Waking up and going to sleep\<close>

lemma wake:
  assumes "t < length (wq_pcs s)" "wq_pcs s ! t = W_wait b" "t < length (wq_workers s)" and "wr_event (wq_workers s ! t) mod 64 \<noteq> 0"
  shows "\<exists>ws. length ws = length (wq_workers s) \<and> runs f t s (goto_pc t W_fetch (s\<lparr>wq_workers := ws\<rparr>))"
  using assms
proof (induction "wr_event (wq_workers s ! t)" arbitrary: s b rule: less_induct)
  case less
  let ?n = "wr_event (wq_workers s ! t)" and ?s1 = "flush_fd 64 t b s"
  have pos: "0 < ?n" using less.prems(4) by (cases ?n) auto
  have go: "runs f t s s'" if "runs f t ?s1 s'" for s' using less.prems pos that by (intro runs.step [of t s f 0 ?s1]) (simp_all add: enabled_def workqueue_factory_def)
  show ?case
  proof (cases "64 \<le> ?n")
    case True
    let ?w = "(wq_workers s ! t)\<lparr>wr_event := ?n - 64\<rparr>"
    have s1: "?s1 = goto_pc t (W_wait True) (s\<lparr>wq_workers := (wq_workers s)[t := ?w]\<rparr>)" using True by (simp add: flush_fd_def min_def Let_def)
    have "(?n - 64) mod 64 \<noteq> 0" using less.prems(4) True by (simp add: mod_if le_mod_geq)
    then obtain ws where ws: "length ws = length (wq_workers ?s1)" "runs f t ?s1 (goto_pc t W_fetch (?s1\<lparr>wq_workers := ws\<rparr>))"
      using less.hyps [of ?s1 True] less.prems pos True by (auto simp: s1 goto_pc_def)
    then show ?thesis using go [OF ws(2)] by (auto simp: s1 goto_pc_def)
  next
    case False
    let ?w = "(wq_workers s ! t)\<lparr>wr_event := 0\<rparr>"
    let ?s2 = "goto_pc t W_fetch (set_state t WQ_WORKER_STATE_RUNNING ?s1)"
    have s1: "?s1 = goto_pc t W_awake (s\<lparr>wq_workers := (wq_workers s)[t := ?w]\<rparr>)" using False pos by (simp add: flush_fd_def min_def Let_def)
    have "runs f t ?s1 ?s2" using less.prems by (intro runs.step [of t ?s1 f 0 ?s2] runs.stop) (simp_all add: s1 enabled_def workqueue_factory_def goto_pc_def)
    then show ?thesis using go [of ?s2] by (intro exI [of _ "(wq_workers s)[t := ?w, t := ((wq_workers s)[t := ?w] ! t)\<lparr>wr_state := WQ_WORKER_STATE_RUNNING\<rparr>]"]) (simp add: s1 goto_pc_def set_state_def)
  qed
qed

lemma go_to_sleep:
  assumes so: "sound [] s" and t: "t < length (wq_pcs s)" "wq_pcs s ! t = W_fetch" and l: "wq_lock s = None"
  shows "\<exists>s'. runs f t s s' \<and> wq_pcs s' ! t = W_wait False \<and> workqueue_backlog_count s' = 0 \<and> wq_works s' = wq_works s"
proof -
  let ?s1 = "goto_pc t W_dequeue (s\<lparr>wq_lock := Some t\<rparr>)"
  let ?s2 = "goto_pc t (W_fetched NULL) ?s1"
  let ?s3 = "goto_pc t W_idle (?s2\<lparr>wq_lock := None\<rparr>)"
  let ?s4 = "goto_pc t (W_wait False) (set_state t WQ_WORKER_STATE_IDLE ?s3)"
  have bl: "backlog_ok [] ?s1" using so by (simp add: sound_def wq_inv_def backlog_ok_def goto_pc_def)
  note get = get_backlog_ok(1) [OF bl refl, of t]
  have "runs f t s ?s4"
  proof (rule runs.step [of t s f 0 ?s1])
    show "runs f t ?s1 ?s4"
    proof (rule runs.step [of t ?s1 f 0 ?s2])
      show "runs f t ?s2 ?s4"
      proof (rule runs.step [of t ?s2 f 0 ?s3])
        show "runs f t ?s3 ?s4" using t(1) by (intro runs.step [of t ?s3 f 0 ?s4] runs.stop) (simp_all add: enabled_def workqueue_factory_def goto_pc_def)
      qed (use t in \<open>simp_all add: enabled_def workqueue_factory_def goto_pc_def\<close>)
    qed (use t get in \<open>simp_all add: enabled_def workqueue_factory_def goto_pc_def\<close>)
  qed (use t l in \<open>simp_all add: enabled_def workqueue_factory_def goto_pc_def\<close>)
  moreover have "wq_backlog_count s = 0" using so by (simp add: sound_def wq_inv_def backlog_ok_def)
  ultimately show ?thesis using t(1) by (intro exI [of _ ?s4]) (simp add: goto_pc_def set_state_def workqueue_backlog_count_def)
qed

section \<open>Properties\<close>

text \<open>C26: A woken worker makes progress on its own: if its pipe holds bytes, and not a multiple of 64 of them, the mutex is free and no work of the backlog yields
  forever, then the worker, without a step of any other thread, completes every work of the backlog, in as many rounds as their
  functions ask for, and goes back to sleep with the backlog empty.\<close>

theorem workqueue_drains:
  assumes "workqueue_create calloc h works n m = (0, Some s0)" and "start_ok h works" and "reachable s0 s" and "t < length (wq_workers s)" and "wq_pcs s ! t = W_wait False"
    and "wr_event (wq_workers s ! t) mod 64 \<noteq> 0" and "wq_lock s = None" and "queue_rel (wq_heap s, wq_backlog s) xs"
    and "\<forall>a\<in>set xs. \<exists>k\<ge>calls a (wq_log s). f a k \<le> 0"
  shows "\<exists>s'. runs f t s s' \<and> wq_pcs s' ! t = W_wait False \<and> workqueue_backlog_count s' = 0 \<and> (\<forall>a\<in>set xs. workqueue_work_is_complete a s' = Some True)"
proof -
  have so: "sound xs s" using created_sound [OF assms(1-3)] sound_queue assms(8) by blast
  then have t: "t < length (wq_pcs s)" using assms(4) by (auto simp: sound_def wq_inv_def threads_ok_def)
  obtain ws where ws: "length ws = length (wq_workers s)" "runs f t s (goto_pc t W_fetch (s\<lparr>wq_workers := ws\<rparr>))" using wake [OF t assms(5,4,6)] by blast
  define s1 where "s1 = goto_pc t W_fetch (s\<lparr>wq_workers := ws\<rparr>)"
  have s1: "length (wq_pcs s1) = length (wq_pcs s)" "wq_pcs s1 ! t = W_fetch" "length (wq_workers s1) = length (wq_workers s)" "wq_lock s1 = None" "wq_log s1 = wq_log s"
    "queue_rel (wq_heap s1, wq_backlog s1) xs" using ws(1) t assms(7,8) by (simp_all add: s1_def goto_pc_def)
  obtain zs where "sound zs s1" using runs_sound [OF _ so] ws(2) s1_def by blast
  then have "sound xs s1" using sound_queue s1(6) by blast
  from drain [OF this, of t f] obtain s2 where s2: "runs f t s1 s2" "sound [] s2" "wq_pcs s2 ! t = W_fetch" "wq_lock s2 = None" "length (wq_pcs s2) = length (wq_pcs s1)"
      "\<forall>a\<in>set xs. workqueue_work_is_complete a s2 = Some True"
    using s1 t assms(4,9) by auto
  obtain s3 where s3: "runs f t s2 s3" "wq_pcs s3 ! t = W_wait False" "workqueue_backlog_count s3 = 0" "wq_works s3 = wq_works s2"
    using go_to_sleep [OF s2(2) _ s2(3,4), of f] s2(5) s1(1) t by auto
  have "runs f t s s3" using runs_trans [OF ws(2) [folded s1_def] runs_trans [OF s2(1) s3(1)]] .
  then show ?thesis using s3 s2(6) by (auto simp: workqueue_work_is_complete_def)
qed

section \<open>Lost wake-ups\<close>

definition asleep :: "workqueue_t \<Rightarrow> bool" where
  \<comment> \<open>nothing happens any more until a client calls\<close>
  "asleep s = (\<forall>t<length (wq_pcs s). \<not> enabled t s)"

lemma runs_reachable: "runs f t s s' \<Longrightarrow> reachable s0 s \<Longrightarrow> reachable s0 s'"
proof (induction rule: runs.induct)
  case (step s dt s1 s')
  have "reachable s0 s1" by (rule reachable.later [of s0 s "Step t (reply f t s) dt"]) (use step.hyps step.prems in \<open>simp_all add: allowed_def perform_def\<close>)
  then show ?case by (rule step.IH)
qed simp

lemma scan_none:
  assumes "t < length (wq_pcs s)" "wq_pcs s ! t = P_scan k" "length (wq_workers s) \<le> t" and "\<forall>u<length (wq_workers s). wr_state (wq_workers s ! u) \<noteq> WQ_WORKER_STATE_IDLE"
  shows "runs f t s (goto_pc t C_ready s)"
  using assms
proof (induction "length (wq_workers s) - k" arbitrary: s k rule: less_induct)
  case less
  let ?s1 = "wakeup_first_free_worker t k s"
  have go: "runs f t s s'" if "runs f t ?s1 s'" for s' using less.prems that by (intro runs.step [of t s f 0 ?s1]) (simp_all add: run_simps)
  show ?case
  proof (cases "k < length (wq_workers s)")
    case True
    then have s1: "?s1 = goto_pc t (P_scan (k + 1)) s" using less.prems by (simp add: wakeup_first_free_worker_def)
    then have "runs f t ?s1 (goto_pc t C_ready ?s1)" using less.prems True by (intro less.hyps [of ?s1 "k + 1"]) (simp_all add: goto_pc_def)
    moreover have "goto_pc t C_ready ?s1 = goto_pc t C_ready s" by (simp add: s1 goto_pc_def)
    ultimately show ?thesis using go by simp
  next
    case False
    then have "?s1 = goto_pc t C_ready s" using less.prems(3) by (simp add: wakeup_first_free_worker_def after_put_def)
    then show ?thesis using go [OF runs.stop] by simp
  qed
qed

lemma put_none:
  \<comment> \<open>\<open>put_backlog\<close> by a client when no worker is marked idle\<close>
  assumes i: "wq_inv xs s" and t: "t < length (wq_pcs s)" "wq_pcs s ! t = P_lock a" "length (wq_workers s) \<le> t" and l: "wq_lock s = None"
    and idle: "\<forall>u<length (wq_workers s). wr_state (wq_workers s ! u) \<noteq> WQ_WORKER_STATE_IDLE"
  shows "\<exists>h q n. runs f t s (goto_pc t C_ready (s\<lparr>wq_heap := h, wq_backlog := q, wq_backlog_count := n\<rparr>)) \<and> queue_rel (h, q) (xs @ [a])"
proof -
  let ?s1 = "goto_pc t (P_enqueue a) (s\<lparr>wq_lock := Some t\<rparr>)"
  have "wq_inv xs ?s1" using i t l by (intro inv_lock) simp_all
  then have bl: "backlog_ok xs ?s1" by (simp add: wq_inv_def)
  have a: "a \<in> dom (wq_works ?s1)" "a \<notin> set xs" using owns_held [OF i t(1), of a] t(2) by (auto simp: goto_pc_def)
  obtain h q n where h: "put_backlog a ?s1 = Some (?s1\<lparr>wq_heap := h, wq_backlog := q, wq_backlog_count := n\<rparr>)" "queue_rel (h, q) (xs @ [a])"
    using put_backlog_ok [OF bl a] by blast
  let ?s2 = "goto_pc t P_unlock (?s1\<lparr>wq_heap := h, wq_backlog := q, wq_backlog_count := n\<rparr>)"
  let ?s3 = "goto_pc t (P_scan 0) (?s2\<lparr>wq_lock := None\<rparr>)"
  have r: "runs f t s s'" if "runs f t ?s3 s'" for s'
  proof (rule runs.step [of t s f 0 ?s1])
    show "runs f t ?s1 s'"
    proof (rule runs.step [of t ?s1 f 0 ?s2])
      show "runs f t ?s2 s'" using t(1) that by (intro runs.step [of t ?s2 f 0 ?s3]) (simp_all add: enabled_def workqueue_factory_def goto_pc_def)
    qed (use t h(1) in \<open>simp_all add: enabled_def workqueue_factory_def goto_pc_def\<close>)
  qed (use t l in \<open>simp_all add: enabled_def workqueue_factory_def goto_pc_def\<close>)
  have "runs f t ?s3 (goto_pc t C_ready ?s3)" using t(1,3) idle by (intro scan_none [of t ?s3 0 f]) (simp_all add: goto_pc_def)
  moreover have "goto_pc t C_ready ?s3 = goto_pc t C_ready (s\<lparr>wq_heap := h, wq_backlog := q, wq_backlog_count := n\<rparr>)" using l by (cases s) (simp add: goto_pc_def)
  ultimately show ?thesis using r h(2) by metis
qed

definition clients_ready :: "workqueue_t \<Rightarrow> bool" where
  "clients_ready s = (length (wq_workers s) \<le> length (wq_pcs s) \<and> (\<forall>u<length (wq_pcs s). length (wq_workers s) \<le> u \<longrightarrow> wq_pcs s ! u = C_ready))"

definition retiring :: "pc \<Rightarrow> bool" where
  \<comment> \<open>the worker is about to mark itself idle and to sleep\<close>
  "retiring c = (c = W_start \<or> c = W_idle)"

lemma all_retire:
  assumes "reachable s0 s" and "clients_ready s" and "k \<le> length (wq_workers s)"
    and "\<forall>u<length (wq_workers s). wr_event (wq_workers s ! u) = 0 \<and> (if u < k then wq_pcs s ! u = W_wait False else retiring (wq_pcs s ! u))"
  shows "\<exists>s'. reachable s0 s' \<and> asleep s' \<and> same_queue s s' \<and> wq_log s' = wq_log s"
  using assms
proof (induction "length (wq_workers s) - k" arbitrary: s k)
  case 0
  have "\<not> enabled u s" if u: "u < length (wq_pcs s)" for u
    using 0 u by (cases "u < length (wq_workers s)") (simp_all add: clients_ready_def enabled_def)
  then have "asleep s" by (simp add: asleep_def)
  then show ?case using "0.prems"(1) by (auto simp: same_queue_def)
next
  case (Suc n)
  then have k: "k < length (wq_workers s)" by simp
  let ?s1 = "goto_pc k (W_wait False) (set_state k WQ_WORKER_STATE_IDLE s)"
  have at: "k < length (wq_pcs s)" "retiring (wq_pcs s ! k)" using Suc.prems k by (auto simp: clients_ready_def)
  have "reachable s0 ?s1"
    by (rule reachable.later [of s0 s "Step k 0 0"]) (use Suc.prems(1) at in \<open>auto simp: retiring_def allowed_def enabled_def perform_def workqueue_factory_def\<close>)
  then have "\<exists>s'. reachable s0 s' \<and> asleep s' \<and> same_queue ?s1 s' \<and> wq_log s' = wq_log ?s1"
    using Suc.prems Suc.hyps(2) k at(1)
    by (intro Suc.hyps(1) [of ?s1 "Suc k"]) (auto simp: goto_pc_def set_state_def clients_ready_def nth_list_update less_Suc_eq)
  then show ?case by (auto simp: same_queue_def goto_pc_def set_state_def)
qed

lemma full_buffers:
  assumes "t < length (wq_pcs s)" "t < length (wq_workers s)" "wq_pcs s ! t = W_wait b" and "wr_event (wq_workers s ! t) = 64 * k"
    and "\<forall>u<length (wq_pcs s). u \<noteq> t \<longrightarrow> \<not> enabled u s"
  shows "\<exists>s'. runs f t s s' \<and> asleep s' \<and> same_queue s s' \<and> wq_log s' = wq_log s"
  using assms
proof (induction k arbitrary: s b)
  case 0
  have "\<not> enabled t s" using 0 by (simp add: enabled_def)
  then have "asleep s" using 0 by (auto simp: asleep_def)
  then show ?case using runs.stop by (auto simp: same_queue_def)
next
  case (Suc k)
  let ?w = "(wq_workers s ! t)\<lparr>wr_event := 64 * k\<rparr>" and ?s1 = "flush_fd 64 t b s"
  have s1: "?s1 = goto_pc t (W_wait True) (s\<lparr>wq_workers := (wq_workers s)[t := ?w]\<rparr>)" using Suc.prems by (simp add: flush_fd_def min_def)
  have go: "runs f t s s'" if "runs f t ?s1 s'" for s' using Suc.prems that by (intro runs.step [of t s f 0 ?s1]) (simp_all add: enabled_def workqueue_factory_def)
  have "\<not> enabled u ?s1" if "u < length (wq_pcs s)" "u \<noteq> t" for u
    using Suc.prems(5) that by (simp add: s1 enabled_def goto_pc_def cong: pc.case_cong)
  then have "\<exists>s'. runs f t ?s1 s' \<and> asleep s' \<and> same_queue ?s1 s' \<and> wq_log s' = wq_log ?s1"
    using Suc.prems(1,2) by (intro Suc.IH [of ?s1 True]) (simp_all add: s1 goto_pc_def)
  then show ?case using go by (auto simp: s1 same_queue_def goto_pc_def)
qed

definition none_idle :: "workqueue_t \<Rightarrow> bool" where
  \<comment> \<open>every worker is about to mark itself idle and to sleep, and nobody has woken it\<close>
  "none_idle s = (\<forall>u<length (wq_workers s). retiring (wq_pcs s ! u) \<and> wr_state (wq_workers s ! u) \<noteq> WQ_WORKER_STATE_IDLE \<and> wr_event (wq_workers s ! u) = 0)"

lemma none_idle_unlocked:
  assumes "lock_ok s" and "clients_ready s" and "none_idle s"
  shows "wq_lock s = None"
proof (rule ccontr)
  assume "wq_lock s \<noteq> None"
  then obtain u where "wq_lock s = Some u" by blast
  then have u: "u < length (wq_pcs s)" "critical (wq_pcs s ! u)" using assms(1) by (auto simp: lock_ok_def)
  then show False using assms(2,3) by (cases "u < length (wq_workers s)") (auto simp: clients_ready_def none_idle_def retiring_def)
qed

lemma lost_addition:
  assumes so: "sound xs s" and re: "reachable s0 s" and cl: "clients_ready s" and ws: "none_idle s" and r: "ready t s"
    and a: "a \<notin> set (wq_owned s)" "wq_works s a = Some w" "wk_has_fn w"
  shows "\<exists>s'. reachable s0 s' \<and> asleep s' \<and> queue_rel (wq_heap s', wq_backlog s') (xs @ [a]) \<and> wq_log s' = Added a # wq_log s"
proof -
  have t: "t < length (wq_pcs s)" "length (wq_workers s) \<le> t" using r by (auto simp: ready_def)
  have dom: "a \<in> dom (wq_works s)" using a(2) by blast
  obtain s1 where s1: "perform (Add t a) s = Some s1" "wq_pcs s1 = (wq_pcs s)[t := P_lock a]" "wq_workers s1 = wq_workers s" "wq_log s1 = Added a # wq_log s"
      "wq_lock s1 = wq_lock s"
    using a(2,3) by (auto simp: perform_def workqueue_add_work_def set_work_def fields)
  have "\<exists>rc. workqueue_add_work t (Some a) s = Some (rc, s1)" using s1(1) by (auto simp: perform_def)
  then have i1: "wq_inv xs s1" using add_sound [OF so r dom a(1)] by (auto simp: sound_def)
  have "allowed (Add t a) s" using r a(1) dom by (simp add: allowed_def)
  then have r1: "reachable s0 s1" using reachable.later [OF re _ s1(1)] by simp
  have "wq_lock s1 = None" using none_idle_unlocked [OF _ cl ws] so s1(5) by (simp add: sound_def wq_inv_def)
  then obtain h q n where q: "runs (\<lambda>_ _. 0) t s1 (goto_pc t C_ready (s1\<lparr>wq_heap := h, wq_backlog := q, wq_backlog_count := n\<rparr>))" "queue_rel (h, q) (xs @ [a])"
    using put_none [OF i1, of t a "\<lambda>_ _. 0"] t ws s1 by (auto simp: none_idle_def)
  let ?s2 = "goto_pc t C_ready (s1\<lparr>wq_heap := h, wq_backlog := q, wq_backlog_count := n\<rparr>)"
  have "reachable s0 ?s2" using runs_reachable [OF q(1) r1] .
  moreover have "clients_ready ?s2" using cl t s1 by (auto simp: clients_ready_def goto_pc_def nth_list_update)
  moreover have "\<forall>u<length (wq_workers ?s2). wr_event (wq_workers ?s2 ! u) = 0 \<and> retiring (wq_pcs ?s2 ! u)" using ws t s1 by (auto simp: none_idle_def goto_pc_def)
  ultimately obtain s' where "reachable s0 s'" "asleep s'" "same_queue ?s2 s'" "wq_log s' = wq_log ?s2" using all_retire [of s0 ?s2 0] by auto
  then show ?thesis using q(2) s1(4) by (intro exI [of _ s']) (auto simp: same_queue_def goto_pc_def)
qed


section \<open>Runs that go wrong\<close>

definition demo_emptied :: workqueue_t where
  \<comment> \<open>the worker has done work 0 and found the backlog empty, but is not marked idle yet\<close>
  "demo_emptied = the (schedule (turns 1 @ adds 5 0 @ turns 14) (demo 2))"

definition demo_flooded :: workqueue_t where
  \<comment> \<open>eight works are added before the worker reads its pipe\<close>
  "demo_flooded = the (schedule (turns 1 @ concat (map (adds 5) [0..<8])) (demo 8))"

lemma demo_emptied_reachable: "reachable (demo 2) demo_emptied"
proof -
  have "schedule (turns 1 @ adds 5 0 @ turns 14) (demo 2) \<noteq> None" by code_simp
  then show ?thesis using schedule_reachable [OF reachable.initial, of "turns 1 @ adds 5 0 @ turns 14" "demo 2"] by (auto simp: demo_emptied_def)
qed

lemma demo_flooded_reachable: "reachable (demo 8) demo_flooded"
proof -
  let ?ls = "turns 1 @ concat (map (adds 5) [0..<8])"
  have "schedule ?ls (demo 8) \<noteq> None" by code_simp
  then show ?thesis using schedule_reachable [OF reachable.initial, of ?ls "demo 8"] by (auto simp: demo_flooded_def)
qed

lemma asleep_two: "length (wq_pcs s) = 2 \<Longrightarrow> asleep s = (\<not> enabled 0 s \<and> \<not> enabled 1 s)"
  by (auto simp: asleep_def less_Suc_eq numeral_2_eq_2)

definition final_view :: "workqueue_t \<Rightarrow> bool \<times> bool \<times> nat \<times> int \<times> event list" where
  "final_view s = (enabled 0 s, enabled 1 s, length (wq_pcs s), wq_backlog_count s, wq_log s)"

lemma stuck_run:
  assumes "map_option final_view (schedule ls (demo n)) = Some (False, False, 2, k, es)"
  shows "\<exists>s. reachable (demo n) s \<and> asleep s \<and> workqueue_backlog_count s = k \<and> wq_log s = es"
  using assms by (auto simp: final_view_def asleep_two workqueue_backlog_count_def intro: schedule_reachable [OF reachable.initial])

text \<open>A cancelled work is not skipped: a work that is cancelled while it waits in the backlog is reported complete and called back, then run all the same, and
  called back a second time, although it was added once.\<close>

lemma workqueue_cancel_runs_twice:
  "\<exists>s. reachable (demo 1) s \<and> workqueue_backlog_count s = 0 \<and> wq_log s = [Completed 0, Called 0 0, Completed 0, Cancelled 0, Added 0]"
proof -
  have "\<exists>s. reachable (demo 1) s \<and> asleep s \<and> workqueue_backlog_count s = 0 \<and> wq_log s = [Completed 0, Called 0 0, Completed 0, Cancelled 0, Added 0]"
    by (rule stuck_run [of "turns 1 @ adds 5 0 @ [Cancel 0] @ turns 16"]) code_simp
  then show ?thesis by blast
qed

section \<open>Witnesses\<close>

lemma workqueue_drains_witness:
  "\<exists>s'. runs (\<lambda>a k. if k = 0 then 1 else 0) 0 demo_added s' \<and> wq_pcs s' ! 0 = W_wait False \<and> workqueue_backlog_count s' = 0 \<and> workqueue_work_is_complete 0 s' = Some True"
proof -
  have "queue_rel (wq_heap demo_added, wq_backlog demo_added) [0]" by (simp add: queue_rel_def is_dll_def demo_added_state)
  moreover have "\<exists>k::nat. (if k = 0 then 1 else 0 :: int) \<le> 0" by (rule exI [of _ 1]) simp
  ultimately show ?thesis using workqueue_drains [OF demo_created _ demo_added_reachable, of 0 "[0]" "\<lambda>a k. if k = 0 then 1 else 0"]
      demo_ok [of 1] demo_added_state by auto
qed

lemma demo_emptied_state: "clients_ready demo_emptied" "none_idle demo_emptied" "ready 1 demo_emptied" "wq_owned demo_emptied = []" "map_option wk_has_fn (wq_works demo_emptied 1) = Some True"
    "wq_log demo_emptied = [Completed 0, Called 0 0, Added 0]"
proof -
  have "wq_pcs demo_emptied = [W_idle, C_ready]" "wq_workers demo_emptied = [\<lparr>wr_state = WQ_WORKER_STATE_RUNNING, wr_event = 0\<rparr>]" by code_simp+
  then show "clients_ready demo_emptied" "none_idle demo_emptied" "ready 1 demo_emptied" by (simp_all add: clients_ready_def none_idle_def retiring_def ready_def less_Suc_eq)
  show "wq_owned demo_emptied = []" "map_option wk_has_fn (wq_works demo_emptied 1) = Some True" "wq_log demo_emptied = [Completed 0, Called 0 0, Added 0]" by code_simp+
qed

lemma demo_flooded_state: "wq_pcs demo_flooded = [W_wait False, C_ready]" "wq_workers demo_flooded = [\<lparr>wr_state = WQ_WORKER_STATE_IDLE, wr_event = 64\<rparr>]"
    "wq_backlog_count demo_flooded = 8"
  by code_simp+


end
