(* ===== verification/Workqueue_Destroy.thy ===== *)
theory Workqueue_Destroy
  imports Workqueue_Status
begin

text \<open>
  The whole life of a work queue, \<open>workqueue_destroy\<close> of \<^verbatim>\<open>src/utils/src/workqueue.c\<close> included. Beside the shared state of the queue, a state says which of the objects that
  the threads use still exist: the mutex, the array of workers and the events in it, which \<open>workqueue_destroy\<close> takes away one by one while
  workers and other clients may still be running. A step that uses an object that is gone is undefined. A cancelled worker ends at the next
  cancellation point of its own code, which is the read of its pipe or the write to the pipe of another worker; the functions of the
  client are taken to contain none. The operations of the queue itself are the steps of the theory \<open>Workqueue\<close>.
\<close>

section \<open>State and steps\<close>

datatype destroy_pc = D_mutex | D_cancel nat | D_cleanup nat | D_free | D_done

record life_t =
  lf_mutex :: bool \<comment> \<open>\<open>backlog_lock\<close> is initialised\<close>
  lf_workers :: bool \<comment> \<open>the array of workers is allocated\<close>
  lf_events :: "bool list" \<comment> \<open>\<open>initialized\<close> of the event of a worker\<close>
  lf_cancelled :: "bool list" \<comment> \<open>\<open>pthread_cancel\<close> has been called\<close>
  lf_entered :: "bool list" \<comment> \<open>the worker is past the test of \<open>event_is_set\<close>, in \<open>read\<close>\<close>
  lf_exited :: "bool list" \<comment> \<open>the worker has ended\<close>
  lf_pcs :: "destroy_pc list" \<comment> \<open>where a client is that has flushed\<close>

type_synonym life = "workqueue_t \<times> life_t"

definition num_workers :: "workqueue_t \<Rightarrow> nat" where
  "num_workers s = length (wq_workers s)"

definition workqueue_destroy :: "nat \<Rightarrow> workqueue_t \<Rightarrow> life_t \<Rightarrow> life_t option" where
  \<comment> \<open>one step of client \<open>t\<close> after \<open>flush_backlog\<close>\<close>
  "workqueue_destroy t s d = (case lf_pcs d ! t of
      D_mutex \<Rightarrow> if lf_mutex d \<and> wq_lock s = None then Some (d\<lparr>lf_mutex := False, lf_pcs := (lf_pcs d)[t := D_cancel 0]\<rparr>) else None
    | D_cancel i \<Rightarrow>
        if i < num_workers s then
          if lf_workers d then Some (d\<lparr>lf_cancelled := (lf_cancelled d)[i := True], lf_pcs := (lf_pcs d)[t := D_cleanup i]\<rparr>) else None
        else Some (d\<lparr>lf_pcs := (lf_pcs d)[t := D_free]\<rparr>)
    | D_cleanup i \<Rightarrow>
        if lf_workers d then Some (d\<lparr>lf_events := (lf_events d)[i := False], lf_pcs := (lf_pcs d)[t := D_cancel (i + 1)]\<rparr>) else None
    | D_free \<Rightarrow> if lf_workers d then Some (d\<lparr>lf_workers := False, lf_pcs := (lf_pcs d)[t := D_done]\<rparr>) else None
    | D_done \<Rightarrow> Some d)"

fun uses_mutex :: "pc \<Rightarrow> bool" where
  "uses_mutex W_fetch = True" | "uses_mutex (W_fetched p) = True" | "uses_mutex (P_lock a) = True" | "uses_mutex P_unlock = True"
| "uses_mutex C_flush_lock = True" | "uses_mutex C_flush_unlock = True" | "uses_mutex _ = False"

fun uses_worker :: "nat \<Rightarrow> pc \<Rightarrow> bool" where
  \<comment> \<open>of an array of \<open>n\<close>\<close>
  "uses_worker n W_start = True" | "uses_worker n W_awake = True" | "uses_worker n W_idle = True" | "uses_worker n (P_scan i) = (i < n)"
| "uses_worker n (P_signal i) = True" | "uses_worker n _ = False"

definition life_enabled :: "nat \<Rightarrow> life \<Rightarrow> bool" where
  "life_enabled t = (\<lambda>(s, d). t < length (wq_pcs s) \<and>
     (if t < num_workers s \<and> lf_exited d ! t then False
      else case wq_pcs s ! t of
        W_wait ret \<Rightarrow> \<not> lf_entered d ! t \<or> lf_cancelled d ! t \<or> 0 < wr_event (wq_workers s ! t)
      | C_gone \<Rightarrow> lf_pcs d ! t \<noteq> D_done
      | _ \<Rightarrow> enabled t s))"

definition exit_worker :: "nat \<Rightarrow> life \<Rightarrow> life" where
  "exit_worker t = (\<lambda>(s, d). (s, d\<lparr>lf_exited := (lf_exited d)[t := True]\<rparr>))"

definition wait_step :: "nat \<Rightarrow> bool \<Rightarrow> life \<Rightarrow> life option" where
  \<comment> \<open>\<open>event_is_set\<close>: the test of \<open>initialized\<close>, then the reads of \<open>flush_fd\<close>\<close>
  "wait_step t ret = (\<lambda>(s, d).
     if \<not> lf_entered d ! t then
       if \<not> lf_workers d then None
       else if lf_events d ! t then Some (s, d\<lparr>lf_entered := (lf_entered d)[t := True]\<rparr>)
       else Some (exit_worker t (s, d))
     else if lf_cancelled d ! t then Some (exit_worker t (s, d))
     else let s' = flush_fd 64 t ret s in Some (s', d\<lparr>lf_entered := (lf_entered d)[t := (wq_pcs s' ! t = W_wait True)]\<rparr>))"

definition dangling :: "pc \<Rightarrow> life \<Rightarrow> bool" where
  "dangling c = (\<lambda>(s, d). uses_mutex c \<and> \<not> lf_mutex d \<or> uses_worker (num_workers s) c \<and> \<not> lf_workers d)"

definition signal_step :: "nat \<Rightarrow> nat \<Rightarrow> life \<Rightarrow> life" where
  \<comment> \<open>\<open>event_set\<close>: the test of \<open>initialized\<close>, then the write\<close>
  "signal_step t i = (\<lambda>(s, d).
     if \<not> lf_events d ! i then (goto_pc t (after_put t s) s, d)
     else if t < num_workers s \<and> lf_cancelled d ! t then exit_worker t (s, d)
     else (goto_pc t (after_put t s) (event_set i s), d))"

definition life_step :: "int \<Rightarrow> int \<Rightarrow> nat \<Rightarrow> life \<Rightarrow> life option" where
  "life_step rc dt t = (\<lambda>(s, d).
     if dangling (wq_pcs s ! t) (s, d) then None
     else case wq_pcs s ! t of
       C_gone \<Rightarrow> map_option (Pair s) (workqueue_destroy t s d)
     | W_wait ret \<Rightarrow> wait_step t ret (s, d)
     | P_signal i \<Rightarrow> Some (signal_step t i (s, d))
     | _ \<Rightarrow> map_option (\<lambda>s. (s, d)) (workqueue_factory rc dt t s))"

definition life_allowed :: "label \<Rightarrow> life \<Rightarrow> bool" where
  "life_allowed l x = (case l of Step t rc dt \<Rightarrow> life_enabled t x | _ \<Rightarrow> allowed l (fst x))"

definition life_perform :: "label \<Rightarrow> life \<Rightarrow> life option" where
  "life_perform l x = (case l of Step t rc dt \<Rightarrow> life_step rc dt t x | _ \<Rightarrow> map_option (\<lambda>s. (s, snd x)) (perform l (fst x)))"

definition life_start :: "workqueue_t \<Rightarrow> life" where
  "life_start s = (s, \<lparr>lf_mutex = True, lf_workers = True, lf_events = replicate (num_workers s) True, lf_cancelled = replicate (num_workers s) False,
     lf_entered = replicate (num_workers s) False, lf_exited = replicate (num_workers s) False, lf_pcs = replicate (length (wq_pcs s)) D_mutex\<rparr>)"

inductive lives :: "life \<Rightarrow> life \<Rightarrow> bool" for x0 where
  born: "lives x0 x0"
| on: "lives x0 x \<Longrightarrow> life_allowed l x \<Longrightarrow> life_perform l x = Some x' \<Longrightarrow> lives x0 x'"

fun life_schedule :: "label list \<Rightarrow> life \<Rightarrow> life option" where
  "life_schedule [] x = Some x"
| "life_schedule (l # ls) x = (if life_allowed l x then Option.bind (life_perform l x) (life_schedule ls) else None)"

lemma life_schedule_lives: "lives x0 x \<Longrightarrow> life_schedule ls x = Some x' \<Longrightarrow> lives x0 x'"
  by (induction ls arbitrary: x) (auto simp: bind_eq_Some_conv split: if_splits intro: lives.on)

section \<open>What is undefined\<close>

definition stray :: "label \<Rightarrow> life \<Rightarrow> bool" where
  \<comment> \<open>the step uses an object that does not exist any more, or destroys the mutex while it is held\<close>
  "stray l = (\<lambda>(s, d). case l of
      Step t rc dt \<Rightarrow> (case wq_pcs s ! t of
          C_gone \<Rightarrow> (case lf_pcs d ! t of
              D_mutex \<Rightarrow> \<not> lf_mutex d \<or> wq_lock s \<noteq> None
            | D_cancel i \<Rightarrow> i < num_workers s \<and> \<not> lf_workers d | D_cleanup i \<Rightarrow> \<not> lf_workers d | D_free \<Rightarrow> \<not> lf_workers d | D_done \<Rightarrow> False)
        | W_wait ret \<Rightarrow> \<not> lf_entered d ! t \<and> \<not> lf_workers d
        | c \<Rightarrow> dangling c (s, d))
    | _ \<Rightarrow> False)"

definition undestroyed :: "workqueue_t \<Rightarrow> bool" where
  \<comment> \<open>no client has come to the end of the flush in \<open>workqueue_destroy\<close>\<close>
  "undestroyed s = (\<forall>t<length (wq_pcs s). wq_pcs s ! t \<noteq> C_gone)"

lemma stray_step:
  "stray (Step t rc dt) (s, d) = (dangling (wq_pcs s ! t) (s, d) \<or>
     wq_pcs s ! t = C_gone \<and> workqueue_destroy t s d = None \<or> (\<exists>ret. wq_pcs s ! t = W_wait ret) \<and> \<not> lf_entered d ! t \<and> \<not> lf_workers d)"
  by (cases "wq_pcs s ! t") (auto simp: stray_def dangling_def workqueue_destroy_def split: destroy_pc.splits)

lemma stray_stuck: "stray l (s, d) \<Longrightarrow> life_perform l (s, d) = None"
proof (cases l)
  case (Step t rc dt)
  then show "stray l (s, d) \<Longrightarrow> ?thesis" by (auto simp: stray_step life_perform_def life_step_def wait_step_def)
qed (simp_all add: stray_def)

lemma overrun_cases:
  assumes "overrun l s"
  obtains t rc dt a where "l = Step t rc dt" "wq_pcs s ! t = W_call a"
  using assms that by (auto simp: overrun_def split: label.splits pc.splits)

lemma life_overrun_stuck:
  assumes o: "overrun l s"
  shows "life_perform l (s, d) = None"
  using o
proof (rule overrun_cases)
  fix t rc dt a
  assume l: "l = Step t rc dt" "wq_pcs s ! t = W_call a"
  have "workqueue_factory rc dt t s = None" using overrun_stuck [OF o] l by (simp add: perform_def)
  then show "life_perform l (s, d) = None" using l by (simp add: life_perform_def life_step_def dangling_def)
qed

section \<open>The invariant\<close>

definition life_inv :: "nat list \<Rightarrow> life \<Rightarrow> bool" where
  "life_inv xs = (\<lambda>(s, d). sound xs s \<and> (lf_mutex d \<and> lf_workers d \<or> \<not> undestroyed s) \<and> (lf_mutex d \<or> wq_lock s = None))"

lemma skip_signal:
  assumes so: "sound xs s" and t: "t < length (wq_pcs s)" and c: "wq_pcs s ! t = P_signal i"
  shows "sound xs (goto_pc t (after_put t s) s)"
proof -
  have i: "wq_inv xs s" "status_ok s" "accounts s" using so by (auto simp: sound_def)
  have j: "wq_inv xs (goto_pc t (after_put t s) s)" using c by (intro inv_quiet [OF i(1) _ _ t]) (auto simp: after_put_def same_shape_def)
  have "status_ok (goto_pc t (after_put t s) s)"
    using c by (intro status_same [OF i(1) j i(2) t, of "after_put t s"]) (auto simp: after_put_def fields)
  moreover have "accounts (goto_pc t (after_put t s) s)" by (intro accounts_same [OF i(3), where b = 0 and rc = 0]) (auto simp: fields)
  ultimately show ?thesis using j by (simp add: sound_def)
qed

lemma step_sound:
  assumes "sound xs s" and "enabled t s" and "\<not> overrun (Step t rc dt) s"
  shows "\<exists>s' ys. workqueue_factory rc dt t s = Some s' \<and> sound ys s'"
  using perform_sound [OF assms(1) _ assms(3)] assms(2) by (simp add: allowed_def perform_def)

lemma life_sound:
  assumes so: "sound xs s" and al: "life_allowed l (s, d)" and st: "\<not> stray l (s, d)" and ov: "\<not> overrun l s"
  shows "\<exists>s' d' ys. life_perform l (s, d) = Some (s', d') \<and> sound ys s'"
proof (cases l)
  case (Step t rc dt)
  have e: "life_enabled t (s, d)" and t: "t < length (wq_pcs s)" using al Step by (auto simp: life_allowed_def life_enabled_def)
  have go: "\<exists>s' ys. workqueue_factory rc dt t s = Some s' \<and> sound ys s'" if "enabled t s" using step_sound [OF so that] ov Step by simp
  have nd: "\<not> dangling (wq_pcs s ! t) (s, d)" using st Step by (simp add: stray_step)
  show ?thesis
  proof (cases "wq_pcs s ! t")
    case C_gone
    then show ?thesis using nd st so Step by (auto simp: life_perform_def life_step_def stray_step)
  next
    case (W_wait ret)
    show ?thesis
    proof (cases "lf_entered d ! t \<and> \<not> lf_cancelled d ! t")
      case True
      then have "enabled t s" using e W_wait t by (auto simp: life_enabled_def enabled_def split: if_splits)
      then show ?thesis using go True W_wait Step nd by (auto simp: life_perform_def life_step_def wait_step_def workqueue_factory_def Let_def)
    next
      case False
      then show ?thesis using W_wait Step so st nd by (auto simp: life_perform_def life_step_def wait_step_def exit_worker_def stray_step)
    qed
  next
    case (P_signal i)
    then have "enabled t s" using t by (simp add: enabled_def)
    then show ?thesis using go P_signal Step so nd skip_signal [OF so t P_signal]
      by (auto simp: life_perform_def life_step_def signal_step_def workqueue_factory_def exit_worker_def)
  qed (use go e nd Step in \<open>auto simp: life_perform_def life_step_def life_enabled_def split: if_splits\<close>)
next
  case (Add t a)
  then show ?thesis using perform_sound [OF so _ ov] al by (fastforce simp: life_allowed_def life_perform_def)
next
  case (Cancel a)
  then show ?thesis using perform_sound [OF so _ ov] al by (fastforce simp: life_allowed_def life_perform_def)
next
  case (Destroy t)
  then show ?thesis using perform_sound [OF so _ ov] al by (fastforce simp: life_allowed_def life_perform_def)
qed

lemma get_backlog_frame: "get_backlog t s = Some (p, s') \<Longrightarrow> wq_pcs s' = wq_pcs s \<and> wq_lock s' = wq_lock s \<and> wq_workers s' = wq_workers s"
  by (auto simp: get_backlog_def bind_eq_Some_conv Let_def split: if_splits)

lemma flush_backlog_frame:
  assumes "flush_backlog t s = Some s'"
  shows "(\<exists>c. wq_pcs s' = (wq_pcs s)[t := c]) \<and> wq_lock s' = wq_lock s"
proof -
  obtain p s1 where p: "get_backlog t s = Some (p, s1)" using assms by (auto simp: flush_backlog_def bind_eq_Some_conv)
  have "wq_pcs s' = (wq_pcs s)[t := C_flush_unlock] \<or> wq_pcs s' = (wq_pcs s)[t := wq_pcs s ! t]" "wq_lock s' = wq_lock s"
    using assms get_backlog_frame [OF p] p by (auto simp: flush_backlog_def set_work_def goto_pc_def emit_event_def split: option.splits)
  then show ?thesis by blast
qed

lemma factory_frame:
  assumes "workqueue_factory rc dt t s = Some s'"
  shows "\<exists>c. wq_pcs s' = (wq_pcs s)[t := c]" and "uses_mutex (wq_pcs s ! t) \<or> wq_lock s' = wq_lock s"
proof -
  have keep: "\<exists>c. wq_pcs s = (wq_pcs s)[t := c]" by (rule exI [of _ "wq_pcs s ! t"]) simp
  have put: "wq_pcs s1 = wq_pcs s \<and> wq_lock s1 = wq_lock s" if "put_backlog a s = Some s1" for a s1
    using that by (auto simp: put_backlog_def bind_eq_Some_conv)
  note simps = workqueue_factory_def goto_pc_def set_state_def emit_event_def event_set_def flush_fd_def set_work_def complete_work_def
    wakeup_first_free_worker_def bind_eq_Some_conv Let_def
  show "\<exists>c. wq_pcs s' = (wq_pcs s)[t := c]"
    using assms keep flush_backlog_frame [of t s s'] by (cases "wq_pcs s ! t") (auto simp: simps split: option.splits if_splits dest!: get_backlog_frame put)
  show "uses_mutex (wq_pcs s ! t) \<or> wq_lock s' = wq_lock s"
    using assms flush_backlog_frame [of t s s'] by (cases "wq_pcs s ! t") (auto simp: simps split: option.splits if_splits dest!: get_backlog_frame put)
qed

definition steady :: "nat \<Rightarrow> life \<Rightarrow> life \<Rightarrow> bool" where
  \<comment> \<open>what a step of a thread that is not destroying the queue leaves alone\<close>
  "steady t = (\<lambda>(s, d) (s', d'). (\<exists>c. wq_pcs s' = (wq_pcs s)[t := c]) \<and> lf_mutex d' = lf_mutex d \<and> lf_workers d' = lf_workers d \<and>
     (lf_mutex d \<or> wq_lock s' = wq_lock s))"

lemma life_steady:
  assumes "life_step rc dt t (s, d) = Some (s', d')" and "wq_pcs s ! t \<noteq> C_gone"
  shows "steady t (s, d) (s', d')"
proof -
  have keep: "\<exists>c. wq_pcs s = (wq_pcs s)[t := c]" by (rule exI [of _ "wq_pcs s ! t"]) simp
  have nd: "\<not> dangling (wq_pcs s ! t) (s, d)" using assms(1) by (auto simp: life_step_def)
  have frame: "steady t (s, d) (s1, d)" if "workqueue_factory rc dt t s = Some s1" for s1
    using factory_frame [OF that] nd by (auto simp: steady_def dangling_def)
  show ?thesis
  proof (cases "wq_pcs s ! t")
    case (W_wait ret)
    then show ?thesis using assms(1) nd keep by (auto simp: life_step_def wait_step_def exit_worker_def flush_fd_def goto_pc_def steady_def Let_def split: if_splits)
  next
    case (P_signal i)
    then show ?thesis using assms(1) nd keep by (auto simp: life_step_def signal_step_def exit_worker_def goto_pc_def event_set_def steady_def split: if_splits)
  qed (use assms nd frame in \<open>auto simp: life_step_def\<close>)
qed

lemma steady_undestroyed:
  assumes "steady t (s, d) (s', d')" and "wq_pcs s ! t \<noteq> C_gone" and "undestroyed s'"
  shows "undestroyed s"
proof -
  obtain c where c: "wq_pcs s' = (wq_pcs s)[t := c]" using assms(1) by (auto simp: steady_def)
  have "wq_pcs s ! t' \<noteq> C_gone" if "t' < length (wq_pcs s)" for t' using that assms(2,3) by (cases "t' = t") (auto simp: c undestroyed_def dest: spec [of _ t'])
  then show ?thesis by (simp add: undestroyed_def)
qed

lemma destroy_mutex: "workqueue_destroy t s d = Some d' \<Longrightarrow> lf_mutex d \<or> wq_lock s = None \<Longrightarrow> lf_mutex d' \<or> wq_lock s = None"
  by (auto simp: workqueue_destroy_def split: destroy_pc.splits if_splits)

lemma life_inv_step:
  assumes i: "life_inv xs (s, d)" and al: "life_allowed l (s, d)" and p: "life_perform l (s, d) = Some (s', d')"
  shows "\<exists>ys. life_inv ys (s', d')"
proof -
  have "sound xs s" "\<not> stray l (s, d)" "\<not> overrun l s" using i p stray_stuck [of l s d] life_overrun_stuck [of l s d] by (auto simp: life_inv_def)
  then obtain ys where so: "sound ys s'" using life_sound [OF _ al] p by fastforce
  have old: "lf_mutex d \<and> lf_workers d \<or> \<not> undestroyed s" "lf_mutex d \<or> wq_lock s = None" using i by (auto simp: life_inv_def)
  have "(lf_mutex d' \<and> lf_workers d' \<or> \<not> undestroyed s') \<and> (lf_mutex d' \<or> wq_lock s' = None)"
  proof (cases l)
    case (Step t rc dt)
    then have st: "life_step rc dt t (s, d) = Some (s', d')" and t: "t < length (wq_pcs s)" using p al by (auto simp: life_perform_def life_allowed_def life_enabled_def)
    show ?thesis
    proof (cases "wq_pcs s ! t = C_gone")
      case True
      then have "s' = s" "workqueue_destroy t s d = Some d'" using st by (auto simp: life_step_def split: if_splits)
      moreover have "\<not> undestroyed s" using True t by (auto simp: undestroyed_def)
      ultimately show ?thesis using old(2) destroy_mutex [of t s d d'] by simp
    next
      case False
      from life_steady [OF st False] show ?thesis using old steady_undestroyed [OF _ False] by (auto simp: steady_def)
    qed
  next
    case (Add t a)
    then have d: "d' = d" and s: "\<exists>c. wq_pcs s' = (wq_pcs s)[t := c]" "wq_lock s' = wq_lock s" and t: "wq_pcs s ! t = C_ready"
      using p al list_update_id [of "wq_pcs s" t, symmetric]
      by (auto simp: life_perform_def perform_def life_allowed_def allowed_def ready_def workqueue_add_work_def set_work_def fields split: option.splits if_splits)
    then have "steady t (s, d) (s', d')" by (auto simp: steady_def)
    then show ?thesis using old d s t steady_undestroyed [of t s d s' d'] by auto
  next
    case (Cancel a)
    then show ?thesis using p old by (auto simp: life_perform_def perform_def workqueue_cancel_work_def set_work_def emit_event_def undestroyed_def split: option.splits)
  next
    case (Destroy t)
    then have d: "d' = d" and s: "\<exists>c. wq_pcs s' = (wq_pcs s)[t := c]" "wq_lock s' = wq_lock s" and t: "wq_pcs s ! t = C_ready"
      using p al by (auto simp: life_perform_def perform_def life_allowed_def allowed_def ready_def goto_pc_def)
    then have "steady t (s, d) (s', d')" by (auto simp: steady_def)
    then show ?thesis using old d s t steady_undestroyed [of t s d s' d'] by auto
  qed
  then show ?thesis using so by (auto simp: life_inv_def)
qed

lemma lives_inv: "lives (life_start s0) x \<Longrightarrow> sound xs s0 \<Longrightarrow> \<exists>xs. life_inv xs x"
proof (induction rule: lives.induct)
  case born
  then show ?case by (auto simp: life_inv_def life_start_def)
next
  case (on x l x')
  then show ?case using life_inv_step by (metis prod.collapse)
qed

section \<open>Properties\<close>

text \<open>C25: However the workers and clients of a work queue interleave, from \<open>workqueue_create\<close> to the end of \<open>workqueue_destroy\<close>, a step is undefined only when it uses
  the mutex, a worker or an event that \<open>workqueue_destroy\<close> has taken away, destroys the mutex while it is held, or overflows the 64-bit time of a work; and then it
  is. None of the first kind happens before some client has flushed the backlog in \<open>workqueue_destroy\<close>. In all these states
  at most one thread is in a critical section, the mutex exists while it is held, the backlog is a well-formed linked queue of distinct works
  whose length is the reported count, and every work that was added and not handed back is in exactly one place, either in the backlog or in
  the hands of one thread. Each single load and store is taken to be indivisible.\<close>

theorem workqueue_safe:
  assumes "workqueue_create calloc h works n m = (0, Some s0)" and "start_ok h works" and "lives (life_start s0) (s, d)"
  shows "\<exists>xs. (\<forall>l. life_allowed l (s, d) \<longrightarrow> (life_perform l (s, d) = None \<longleftrightarrow> stray l (s, d) \<or> overrun l s)) \<and>
    (undestroyed s \<longrightarrow> (\<forall>l. life_allowed l (s, d) \<longrightarrow> \<not> stray l (s, d))) \<and>
    (\<forall>t t'. t < length (wq_pcs s) \<and> t' < length (wq_pcs s) \<and> critical (wq_pcs s ! t) \<and> critical (wq_pcs s ! t') \<longrightarrow> t = t' \<and> lf_mutex d) \<and>
    queue_rel (wq_heap s, wq_backlog s) xs \<and> workqueue_backlog_count s = int (length xs) \<and>
    distinct (wq_owned s) \<and> mset (wq_owned s) = mset xs + holders (wq_pcs s)"
proof -
  obtain ys where "sound ys s0" using created_sound [OF assms(1,2) reachable.initial] by blast
  then obtain xs where i: "life_inv xs (s, d)" using lives_inv [OF assms(3)] by blast
  then have so: "sound xs s" by (simp add: life_inv_def)
  have "life_perform l (s, d) = None \<longleftrightarrow> stray l (s, d) \<or> overrun l s" if "life_allowed l (s, d)" for l
    using life_sound [OF so that] stray_stuck [of l s d] life_overrun_stuck [of l s d] by fastforce
  moreover have "\<not> stray l (s, d)" if u: "undestroyed s" and al: "life_allowed l (s, d)" for l
  proof (cases l)
    case (Step t rc dt)
    then have "wq_pcs s ! t \<noteq> C_gone" using u al by (simp add: undestroyed_def life_allowed_def life_enabled_def)
    then show ?thesis using i u Step by (simp add: life_inv_def stray_step dangling_def)
  qed (simp_all add: stray_def)
  moreover have "t = t' \<and> lf_mutex d" if "t < length (wq_pcs s)" "t' < length (wq_pcs s)" "critical (wq_pcs s ! t)" "critical (wq_pcs s ! t')" for t t'
    using that so i unfolding sound_def wq_inv_def lock_ok_def life_inv_def by (auto dest!: spec [of _ t] spec [of _ t'])
  ultimately show ?thesis using so unfolding sound_def wq_inv_def backlog_ok_def owned_ok_def workqueue_backlog_count_def by blast
qed

section \<open>A queue destroyed while it works\<close>

definition demo_raced :: life where
  \<comment> \<open>the worker has a work in its hands when the client destroys the queue\<close>
  "demo_raced = the (life_schedule (turns 1 @ turns 1 @ adds 5 0 @ turns 6 @ [Destroy 1] @ replicate 8 (Step 1 0 0) @ turns 5) (life_start (demo 1)))"

lemma demo_raced_lives: "lives (life_start (demo 1)) demo_raced"
proof -
  let ?ls = "turns 1 @ turns 1 @ adds 5 0 @ turns 6 @ [Destroy 1] @ replicate 8 (Step 1 0 0) @ turns 5"
  have "life_schedule ?ls (life_start (demo 1)) \<noteq> None" by code_simp
  then show ?thesis using life_schedule_lives [OF lives.born, of ?ls "life_start (demo 1)"] by (auto simp: demo_raced_def)
qed

lemma demo_raced_state: "life_allowed (Step 0 0 0) demo_raced" "stray (Step 0 0 0) demo_raced" "wq_log (fst demo_raced) = [Completed 0, Called 0 0, Added 0]"
    "wq_owned (fst demo_raced) = []"
  by code_simp+

lemma workqueue_safe_witness:
  "life_perform (Step 0 0 0) demo_raced = None \<and> workqueue_backlog_count (fst demo_raced) = 0"
proof -
  have "start_ok (demo_heap 1) (demo_works 1)" by (rule demo_ok) simp
  moreover have "lives (life_start (demo 1)) (fst demo_raced, snd demo_raced)" using demo_raced_lives by simp
  ultimately obtain xs where
    "life_allowed (Step 0 0 0) demo_raced \<longrightarrow> (life_perform (Step 0 0 0) demo_raced = None \<longleftrightarrow> stray (Step 0 0 0) demo_raced \<or> overrun (Step 0 0 0) (fst demo_raced))"
    "workqueue_backlog_count (fst demo_raced) = int (length xs)" "mset (wq_owned (fst demo_raced)) = mset xs + holders (wq_pcs (fst demo_raced))"
    using workqueue_safe [OF demo_created, of 1 "fst demo_raced" "snd demo_raced"] by auto
  then show ?thesis by (simp add: demo_raced_state)
qed

end
