(* ===== verification/Strutils.thy ===== *)
theory Strutils
  imports Prelude
begin

text \<open>
  The string utilities of \<^verbatim>\<open>src/utils/src/strutils.c\<close>. A string argument is the byte array the
  pointer points into, terminator included; the functions that edit a string in place return the
  new array. \<open>cstr buf s\<close> says that \<open>buf\<close> holds the string \<open>s\<close>. Reading past the end of the array,
  that is a missing terminator, is \<open>None\<close>. The C code holds several string lengths and indices in an
  \<^verbatim>\<open>int\<close>; the model has them as natural numbers, which is exact for objects of less than \<open>2^30\<close> bytes
  (so that also the index \<open>2 i\<close> of the hexadecimal loops fits).
\<close>

section \<open>C strings\<close>

definition cstr :: "bytes \<Rightarrow> bytes \<Rightarrow> bool" where
  "cstr buf s \<longleftrightarrow> 0 \<notin> set s \<and> (\<exists>rest. buf = s @ 0 # rest)"

fun c_strlen :: "bytes \<Rightarrow> nat option" where
  "c_strlen [] = None"
| "c_strlen (c # s) = (if c = 0 then Some 0 else map_option Suc (c_strlen s))"

fun c_strchr :: "bytes \<Rightarrow> u8 \<Rightarrow> bool option" where
  \<comment> \<open>\<open>strchr(s, c) != NULL\<close>; the terminator counts as part of the string\<close>
  "c_strchr [] c = None"
| "c_strchr (x # s) c = (if x = c then Some True else if x = 0 then Some False else c_strchr s c)"

definition c_isalpha :: "u8 \<Rightarrow> bool" where
  "c_isalpha c \<longleftrightarrow> (65 \<le> c \<and> c \<le> 90) \<or> (97 \<le> c \<and> c \<le> 122)"

definition c_isspace :: "u8 \<Rightarrow> bool" where
  "c_isspace c \<longleftrightarrow> c = 32 \<or> (9 \<le> c \<and> c \<le> 13)"

section \<open>Hexadecimal strings\<close>

definition hex2int :: "u8 \<Rightarrow> int" where
  "hex2int ch =
     (if 48 \<le> ch \<and> ch \<le> 57 then uint ch - 48
      else let ch = ch AND NOT 0x20 in
        if 65 \<le> ch \<and> ch \<le> 70 then uint ch - 65 + 10 else -1)"

definition int2hex :: "u8 \<Rightarrow> u8" where
  "int2hex v = (let v = v AND 0x0f in if v \<le> 9 then 48 + v else 65 + (v - 10))"

function atohstr_loop :: "nat \<Rightarrow> bytes \<Rightarrow> bytes \<Rightarrow> nat \<Rightarrow> bytes option" where
  "atohstr_loop i hstr arr arr_len =
     (if i < arr_len then do {
        b \<leftarrow> arr_get arr (int i);
        hstr \<leftarrow> arr_set hstr (int (i * 2)) (int2hex (drop_bit 4 b));
        hstr \<leftarrow> arr_set hstr (int (i * 2 + 1)) (int2hex b);
        atohstr_loop (Suc i) hstr arr arr_len
      }
      else arr_set hstr (int (i * 2)) 0)"
  by pat_completeness auto
termination
  by (relation "measure (\<lambda>(i, hstr, arr, n). n - i)") auto

definition atohstr :: "bytes \<Rightarrow> bytes \<Rightarrow> nat \<Rightarrow> (int \<times> bytes) option" where
  "atohstr hstr arr arr_len = map_option (\<lambda>h. (0, h)) (atohstr_loop 0 hstr arr arr_len)"

function hstrtoa_loop :: "nat \<Rightarrow> nat \<Rightarrow> bytes \<Rightarrow> bytes \<Rightarrow> (int \<times> bytes) option" where
  "hstrtoa_loop i len arr hstr =
     (if i < len then do {
        c1 \<leftarrow> arr_get hstr (int (i * 2));
        c2 \<leftarrow> arr_get hstr (int (i * 2 + 1));
        let nib1 = hex2int c1;
        let nib2 = hex2int c2;
        if nib1 = -1 \<or> nib2 = -1 then Some (-1, arr)
        else do {
          arr \<leftarrow> arr_set arr (int i) (word_of_int (push_bit 4 nib1 OR nib2));
          hstrtoa_loop (Suc i) len arr hstr
        }
      }
      else Some (int len, arr))"
  by pat_completeness auto
termination
  by (relation "measure (\<lambda>(i, len, arr, hstr). len - i)") auto

definition hstrtoa :: "bytes \<Rightarrow> bytes \<Rightarrow> (int \<times> bytes) option" where
  "hstrtoa arr hstr = do {
     len \<leftarrow> c_strlen hstr;
     if len mod 2 = 1 \<or> len = 0 then Some (-1, arr)
     else hstrtoa_loop 0 (len div 2) arr hstr
   }"

section \<open>Trimming and filtering in place\<close>

fun rtrim_loop :: "(u8 \<Rightarrow> bool) \<Rightarrow> nat \<Rightarrow> bytes \<Rightarrow> (nat \<times> bytes) option" where
  "rtrim_loop P 0 str = Some (0, str)"
| "rtrim_loop P (Suc i) str = do {
     c \<leftarrow> arr_get str (int i);
     if P c then do {
       str \<leftarrow> arr_set str (int i) 0;
       rtrim_loop P i str
     }
     else Some (Suc i, str)
   }"

definition rstrip :: "bytes \<Rightarrow> (nat \<times> bytes) option" where
  "rstrip str = do { i \<leftarrow> c_strlen str; rtrim_loop (\<lambda>c. c = 32) i str }"

definition chomp :: "bytes \<Rightarrow> (nat \<times> bytes) option" where
  "chomp str = do { i \<leftarrow> c_strlen str; rtrim_loop (\<lambda>c. c = 10 \<or> c = 13) i str }"

fun skip_spaces :: "bytes \<Rightarrow> nat option" where
  \<comment> \<open>\<open>while (str[i] && str[i] == ' ') i++\<close>\<close>
  "skip_spaces [] = None"
| "skip_spaces (c # s) = (if c \<noteq> 0 \<and> c = 32 then map_option Suc (skip_spaces s) else Some 0)"

function filter_down :: "(u8 \<Rightarrow> bool) \<Rightarrow> bytes \<Rightarrow> nat \<Rightarrow> nat \<Rightarrow> (nat \<times> bytes) option" where
  \<comment> \<open>the copying loops of \<open>lstrip\<close> and \<open>remove_all\<close>, with the final terminator\<close>
  "filter_down P str i j =
     (if i < length str then
        (if str ! i = 0 then do { str \<leftarrow> arr_set str (int j) 0; Some (j, str) }
         else if P (str ! i) then
           (if j < length str then filter_down P (str[j := str ! i]) (Suc i) (Suc j) else None)
         else filter_down P str (Suc i) j)
      else None)"
  by pat_completeness auto
termination
  by (relation "measure (\<lambda>(P, str, i, j). length str - i)") auto

definition lstrip :: "bytes \<Rightarrow> (int \<times> bytes) option" where
  "lstrip str = do {
     i \<leftarrow> skip_spaces str;
     if i = 0 then Some (-1, str)
     else do {
       (j, str) \<leftarrow> filter_down (\<lambda>_. True) str i 0;
       Some (if j > 0 then int j - 1 else 0, str)
     }
   }"

definition strip :: "bytes \<Rightarrow> (int \<times> bytes) option" where
  "strip str = do {
     (rs_len, str) \<leftarrow> rstrip str;
     (ls_len, str) \<leftarrow> lstrip str;
     Some (if ls_len > 0 then ls_len else int rs_len, str)
   }"

definition remove_all :: "bytes \<Rightarrow> u8 \<Rightarrow> bytes option" where
  "remove_all str c = map_option snd (filter_down (\<lambda>x. x \<noteq> c) str 0 0)"

fun suffix_loop :: "bytes \<Rightarrow> bytes \<Rightarrow> nat \<Rightarrow> nat \<Rightarrow> nat option" where
  "suffix_loop str suffix i 0 = Some i"
| "suffix_loop str suffix i (Suc j) = do {
     a \<leftarrow> arr_get str (int i - 1);
     b \<leftarrow> arr_get suffix (int j);
     if a = b then suffix_loop str suffix (i - 1) j else Some i
   }"

definition trim_suffix :: "bytes option \<Rightarrow> bytes option \<Rightarrow> (int \<times> bytes option) option" where
  \<comment> \<open>the arguments may be null pointers\<close>
  "trim_suffix str suffix =
     (case (str, suffix) of
        (Some str, Some suffix) \<Rightarrow> do {
          i \<leftarrow> c_strlen str;
          j \<leftarrow> c_strlen suffix;
          if j > i then Some (-1, Some str)
          else do {
            i \<leftarrow> suffix_loop str suffix i j;
            str \<leftarrow> arr_set str (int i) 0;
            Some (0, Some str)
          }
        }
      | _ \<Rightarrow> Some (-1, str))"

fun to_upper :: "bytes \<Rightarrow> bytes option" where
  "to_upper [] = None"
| "to_upper (c # s) =
     (if c = 0 then Some (c # s)
      else map_option ((#) (if c_isalpha c then c AND NOT 0x20 else c)) (to_upper s))"

fun to_lower :: "bytes \<Rightarrow> bytes option" where
  "to_lower [] = None"
| "to_lower (c # s) =
     (if c = 0 then Some (c # s)
      else map_option ((#) (if c_isalpha c then c OR 0x20 else c)) (to_lower s))"

section \<open>Counting and tokens\<close>

fun strcntchr :: "bytes \<Rightarrow> u8 \<Rightarrow> nat option" where
  "strcntchr [] c = None"
| "strcntchr (x # s) c =
     (if x = 0 then Some 0 else map_option (\<lambda>n. if x = c then Suc n else n) (strcntchr s c))"

fun strisempty_loop :: "bytes \<Rightarrow> bool option" where
  "strisempty_loop [] = None"
| "strisempty_loop (c # s) = (if c \<noteq> 0 \<and> c_isspace c then strisempty_loop s else Some (c = 0))"

definition strisempty :: "bytes option \<Rightarrow> bool option" where
  "strisempty s = (case s of None \<Rightarrow> Some True | Some s \<Rightarrow> strisempty_loop s)"

fun span_sep :: "bool \<Rightarrow> bytes \<Rightarrow> bytes \<Rightarrow> nat option" where
  \<comment> \<open>how far a loop \<open>while (*p && [!]strchr(sep, *p)) p++\<close> runs; \<open>want\<close> is false for the negated form\<close>
  "span_sep want sep [] = None"
| "span_sep want sep (c # s) =
     (if c = 0 then Some 0
      else Option.bind (c_strchr sep c)
        (\<lambda>b. if b = want then map_option Suc (span_sep want sep s) else Some 0))"

definition str_sep :: "bytes \<Rightarrow> nat option \<Rightarrow> bytes \<Rightarrow> (nat option \<times> nat option \<times> bytes) option" where
  \<comment> \<open>the cursor \<open>*str\<close> is an index into \<open>buf\<close> or null; the results are the token's index, the new
     cursor and the array with the separator overwritten\<close>
  "str_sep buf str sep =
     (case str of None \<Rightarrow> Some (None, None, buf)
      | Some p \<Rightarrow> do {
          c \<leftarrow> arr_get buf (int p);
          if c = 0 then Some (Some p, Some p, buf)
          else do {
            k \<leftarrow> span_sep True sep (drop p buf);
            let start = p + k;
            m \<leftarrow> span_sep False sep (drop start buf);
            let fin = start + m;
            e \<leftarrow> arr_get buf (int fin);
            if e \<noteq> 0 then do {
              buf \<leftarrow> arr_set buf (int fin) 0;
              Some (Some start, Some (Suc fin), buf)
            }
            else Some (Some start, Some fin, buf)
          }
        })"

function sep_count_loop :: "bytes \<Rightarrow> bytes \<Rightarrow> nat \<Rightarrow> nat option" where
  "sep_count_loop p sep count =
     (case p of [] \<Rightarrow> None
      | c # _ \<Rightarrow>
        if c = 0 then Some count
        else Option.bind (span_sep True sep p) (\<lambda>k.
          Option.bind (arr_get (drop k p) 0) (\<lambda>d.
            if d = 0 then Some count
            else Option.bind (span_sep False sep (drop k p)) (\<lambda>m.
              if k + m = 0 then None
              else sep_count_loop (drop (k + m) p) sep (Suc count)))))"
  by pat_completeness auto
termination
  by (relation "measure (\<lambda>(p, sep, count). length p)") auto

definition str_sep_count :: "bytes option \<Rightarrow> bytes option \<Rightarrow> nat option" where
  "str_sep_count str sep =
     (case str of None \<Rightarrow> Some 0
      | Some s \<Rightarrow> do {
          c \<leftarrow> arr_get s 0;
          if c = 0 then Some 0
          else (case sep of None \<Rightarrow> Some 1 | Some sep \<Rightarrow> sep_count_loop s sep 0)
        })"

section \<open>Hashes\<close>

fun hash32_djb2_loop :: "bytes \<Rightarrow> int \<Rightarrow> u32 \<Rightarrow> u32 option" where
  "hash32_djb2_loop [] len hash = None"
| "hash32_djb2_loop (c # str) len hash =
     (if c \<noteq> 0 \<and> len \<noteq> 0
      then Option.bind (cint (len - 1))
        (\<lambda>len. hash32_djb2_loop str len ((push_bit 5 hash + hash) + scast c))
      else Some hash)"

definition hash32_djb2 :: "bytes \<Rightarrow> int \<Rightarrow> u32 option" where
  "hash32_djb2 str len = hash32_djb2_loop str len 5381"

fun hash32_fnv_loop :: "bytes \<Rightarrow> int \<Rightarrow> u32 \<Rightarrow> u32 option" where
  "hash32_fnv_loop [] len hval = None"
| "hash32_fnv_loop (c # s) len hval =
     (if c \<noteq> 0 \<and> len \<noteq> 0
      then Option.bind (cint (len - 1))
        (\<lambda>len. hash32_fnv_loop s len
          ((hval + (push_bit 1 hval + push_bit 4 hval + push_bit 7 hval + push_bit 8 hval + push_bit 24 hval))
           XOR ucast c))
      else Some hval)"

definition hash32_fnv :: "bytes \<Rightarrow> int \<Rightarrow> u32 option" where
  "hash32_fnv str len = hash32_fnv_loop str len 0"

fun poly_hash_loop :: "bytes \<Rightarrow> int \<Rightarrow> u64 \<Rightarrow> u64 \<Rightarrow> u64 option" where
  "poly_hash_loop [] len hash p_pow = None"
| "poly_hash_loop (c # str) len hash p_pow =
     (if c \<noteq> 0 \<and> len \<noteq> 0
      then Option.bind (cint (len - 1))
        (\<lambda>len. poly_hash_loop str len
          ((hash + word_of_int (sint c - 97 + 1) * p_pow) mod 1000000009)
          ((p_pow * 31) mod 1000000009))
      else Some hash)"

definition poly_hash :: "bytes \<Rightarrow> int \<Rightarrow> u64 option" where
  "poly_hash str len = poly_hash_loop str len 0 1"

declare atohstr_loop.simps [simp del] hstrtoa_loop.simps [simp del] filter_down.simps [simp del]
  sep_count_loop.simps [simp del]

section \<open>Lemmas on C strings\<close>

lemma c_strlen_append [simp]: "0 \<notin> set s \<Longrightarrow> c_strlen (s @ 0 # rest) = Some (length s)"
  by (induction s) auto

lemma cstr_strlen: "cstr buf s \<Longrightarrow> c_strlen buf = Some (length s)"
  by (auto simp: cstr_def)

lemma cstr_takeWhile: "cstr buf s \<Longrightarrow> s = takeWhile (\<lambda>c. c \<noteq> 0) buf"
  by (auto simp: cstr_def takeWhile_append)

lemma c_strchr_append [simp]: "0 \<notin> set s \<Longrightarrow> c \<noteq> 0 \<Longrightarrow> c_strchr (s @ 0 # rest) c = Some (c \<in> set s)"
  by (induction s) auto

section \<open>Hexadecimal round trip\<close>

definition hexstr :: "bytes \<Rightarrow> bytes" where
  "hexstr bs = concat (map (\<lambda>b. [int2hex (drop_bit 4 b), int2hex b]) bs)"

lemma hexstr_simps [simp]:
  "hexstr [] = []"
  "hexstr (b # bs) = int2hex (drop_bit 4 b) # int2hex b # hexstr bs"
  "length (hexstr bs) = 2 * length bs"
  by (auto simp: hexstr_def) (induction bs, auto)

lemma nibble_cases:
  fixes v :: u8
  obtains n where "n < 16" and "v AND 0x0f = word_of_nat n"
proof
  have "v AND 0x0f \<le> 0x0f" by (rule word_and_le1)
  then show "unat (v AND 0x0f) < 16" by (simp add: word_le_nat_alt)
  show "v AND 0x0f = word_of_nat (unat (v AND 0x0f))" by simp
qed

lemma hex2int_int2hex: "hex2int (int2hex v) = uint (v AND 0x0f)" and int2hex_nonzero: "int2hex v \<noteq> 0"
proof -
  obtain n where n: "n < 16" "v AND 0x0f = word_of_nat n" by (rule nibble_cases)
  then have "n \<in> {0, 1, 2, 3, 4, 5, 6, 7, 8, 9, 10, 11, 12, 13, 14, 15}" by simp presburger
  then have "hex2int (int2hex v) = uint (v AND 0x0f) \<and> int2hex v \<noteq> 0"
    using n(2) by (elim insertE) (simp_all add: hex2int_def int2hex_def)
  then show "hex2int (int2hex v) = uint (v AND 0x0f)" "int2hex v \<noteq> 0" by auto
qed

lemma join_nibbles:
  "word_of_int (push_bit 4 (uint (drop_bit 4 b AND 0x0f)) OR uint (b AND 0x0f)) = (b :: u8)"
proof (rule bit_word_eqI)
  fix n assume "n < LENGTH(8)"
  then have "n \<in> {0, 1, 2, 3, 4, 5, 6, 7}" by auto
  then show "bit (word_of_int (push_bit 4 (uint (drop_bit 4 b AND 0x0f)) OR uint (b AND 0x0f)) :: u8) n = bit b n"
    by (elim insertE) (simp_all add: bit_simps bit_numeral_rec)
qed

lemma zero_notin_hexstr [simp]: "0 \<notin> set (hexstr bs)"
  using int2hex_nonzero [symmetric] by (auto simp: hexstr_def)

lemma atohstr_loop_ok:
  "i \<le> n \<Longrightarrow> n \<le> length arr \<Longrightarrow> 2 * n < length h \<Longrightarrow>
   atohstr_loop i h arr n = Some (take (2 * i) h @ hexstr (drop i (take n arr)) @ 0 # drop (2 * n + 1) h)"
proof (induction "n - i" arbitrary: i h)
  case 0
  then show ?case
    by (subst atohstr_loop.simps) (auto simp: arr_set_nat mult.commute upd_conv_take_nth_drop simp del: of_nat_mult)
next
  case (Suc k)
  have i: "i < n" "k = n - Suc i" using Suc.hyps(2) by auto
  let ?h = "h[2 * i := int2hex (drop_bit 4 (arr ! i)), 2 * i + 1 := int2hex (arr ! i)]"
  have "atohstr_loop i h arr n = atohstr_loop (Suc i) ?h arr n"
    using i Suc.prems by (subst atohstr_loop.simps) (simp add: arr_get_def arr_set_def nat_add_distrib nat_mult_distrib mult.commute)
  also have "\<dots> = Some (take (2 * Suc i) ?h @ hexstr (drop (Suc i) (take n arr)) @ 0 # drop (2 * n + 1) ?h)"
    using Suc.hyps(1) [OF i(2), of ?h] i Suc.prems by simp
  also have "drop (2 * n + 1) ?h = drop (2 * n + 1) h"
    using i by simp
  also have "take (2 * Suc i) ?h = take (2 * i) h @ [int2hex (drop_bit 4 (arr ! i)), int2hex (arr ! i)]"
    using i Suc.prems by (simp add: take_Suc_conv_app_nth nth_list_update)
  also have "drop i (take n arr) = arr ! i # drop (Suc i) (take n arr)"
    using i Suc.prems by (subst Cons_nth_drop_Suc [symmetric]) auto
  ultimately show ?case by simp
qed

lemma nth_hexstr:
  "i < length bs \<Longrightarrow> hexstr bs ! (2 * i) = int2hex (drop_bit 4 (bs ! i)) \<and> hexstr bs ! (2 * i + 1) = int2hex (bs ! i)"
proof (induction bs arbitrary: i)
  case (Cons b bs)
  then show ?case by (cases i) auto
qed simp

lemma hstrtoa_loop_ok:
  "i \<le> length bs \<Longrightarrow> length bs \<le> length a \<Longrightarrow>
   hstrtoa_loop i (length bs) a (hexstr bs @ 0 # rest) =
     Some (int (length bs), take i a @ drop i bs @ drop (length bs) a)"
proof (induction "length bs - i" arbitrary: i a)
  case 0
  then show ?case by (subst hstrtoa_loop.simps) auto
next
  case (Suc k)
  have i: "i < length bs" "k = length bs - Suc i" using Suc.hyps(2) by auto
  have n: "uint (v AND 0x0f) \<noteq> -1" for v :: u8
    using uint_ge_0 [of "v AND 0x0f"] by linarith
  have g: "arr_get (hexstr bs @ 0 # rest) (int (i * 2)) = Some (int2hex (drop_bit 4 (bs ! i)))"
    "arr_get (hexstr bs @ 0 # rest) (int (Suc (i * 2))) = Some (int2hex (bs ! i))"
    using nth_hexstr [OF i(1)] i by (simp_all add: arr_get_nat nth_append mult.commute del: of_nat_mult of_nat_add of_nat_Suc)
  have "hstrtoa_loop i (length bs) a (hexstr bs @ 0 # rest) =
      hstrtoa_loop (Suc i) (length bs) (a[i := bs ! i]) (hexstr bs @ 0 # rest)"
    using i Suc.prems n
    by (subst hstrtoa_loop.simps) (simp add: g hex2int_int2hex join_nibbles arr_set_nat del: of_nat_mult of_nat_add of_nat_Suc)
  also have "\<dots> = Some (int (length bs), take (Suc i) (a[i := bs ! i]) @ drop (Suc i) bs @ drop (length bs) (a[i := bs ! i]))"
    using Suc.hyps(1) [OF i(2), of "a[i := bs ! i]"] i Suc.prems by simp
  also have "take (Suc i) (a[i := bs ! i]) @ drop (Suc i) bs = take i a @ drop i bs"
    using i Suc.prems by (simp add: take_Suc_conv_app_nth Cons_nth_drop_Suc)
  ultimately show ?case using i by (simp flip: append_assoc)
qed

section \<open>Trimming\<close>

lemma rtrim_loop_ok:
  "rtrim_loop P (length s) (s @ z) =
     (let t = rev (dropWhile P (rev s)) in Some (length t, t @ replicate (length s - length t) 0 @ z))"
proof (induction s arbitrary: z rule: rev_induct)
  case Nil
  then show ?case by simp
next
  case (snoc c s)
  have len: "length (dropWhile P (rev s)) \<le> length s"
    by (metis length_dropWhile_le length_rev)
  show ?case
  proof (cases "P c")
    case True
    then have "rtrim_loop P (length (s @ [c])) ((s @ [c]) @ z) = rtrim_loop P (length s) (s @ 0 # z)"
      by (simp add: arr_get_nat arr_set_nat)
    then show ?thesis
      using snoc.IH [of "0 # z"] True len
      by (simp add: Let_def Suc_diff_le replicate_app_Cons_same)
  next
    case False
    then show ?thesis by (simp add: arr_get_nat)
  qed
qed

lemma cstr_rtrim:
  assumes "cstr buf s"
  shows "\<exists>buf'. rtrim_loop P (length s) buf = Some (length (rev (dropWhile P (rev s))), buf') \<and>
           cstr buf' (rev (dropWhile P (rev s))) \<and> length buf' = length buf"
proof -
  obtain rest where b: "buf = s @ 0 # rest" and nz: "0 \<notin> set s" using assms by (auto simp: cstr_def)
  let ?t = "rev (dropWhile P (rev s))"
  have len: "length ?t \<le> length s" by (metis length_dropWhile_le length_rev)
  have "0 \<notin> set ?t" using nz set_dropWhileD by fastforce
  then show ?thesis
    using rtrim_loop_ok [of P s "0 # rest"] b len
    by (auto simp: Let_def cstr_def replicate_app_Cons_same)
qed

lemma filter_down_ok:
  "0 \<notin> set s \<Longrightarrow>
   \<exists>rest'. filter_down P (out @ mid @ s @ 0 # rest) (length out + length mid) (length out) =
       Some (length (out @ filter P s), out @ filter P s @ 0 # rest') \<and>
     length (out @ filter P s @ 0 # rest') = length (out @ mid @ s @ 0 # rest)"
proof (induction s arbitrary: out mid)
  case Nil
  show ?case
  proof (cases mid)
    case Nil
    then show ?thesis by (subst filter_down.simps) (auto simp: nth_append arr_set_nat)
  next
    case (Cons m ms)
    then show ?thesis by (subst filter_down.simps) (auto simp: nth_append arr_set_nat)
  qed
next
  case (Cons c s)
  let ?b = "out @ mid @ (c # s) @ 0 # rest"
  have at: "?b ! (length out + length mid) = c" by (simp add: nth_append)
  show ?case
  proof (cases "P c")
    case False
    then have "filter_down P ?b (length out + length mid) (length out) =
        filter_down P (out @ (mid @ [c]) @ s @ 0 # rest) (length out + length (mid @ [c])) (length out)"
      using at Cons.prems by (subst filter_down.simps) auto
    then show ?thesis using Cons.IH [of out "mid @ [c]"] Cons.prems False by auto
  next
    case True
    have "\<exists>ms. length ms = length mid \<and> ?b[length out := c] = (out @ [c]) @ ms @ s @ 0 # rest"
      by (cases mid) (auto simp: list_update_append intro!: exI [of _ "_ @ [c]"])
    then obtain ms where ms: "length ms = length mid" "?b[length out := c] = (out @ [c]) @ ms @ s @ 0 # rest"
      by blast
    have "filter_down P ?b (length out + length mid) (length out) =
        filter_down P (?b[length out := c]) (Suc (length out + length mid)) (Suc (length out))"
      using at True Cons.prems by (subst filter_down.simps) simp
    also have "\<dots> = filter_down P ((out @ [c]) @ ms @ s @ 0 # rest) (length (out @ [c]) + length ms) (length (out @ [c]))"
      unfolding ms(2) using ms(1) by simp
    finally show ?thesis using Cons.IH [of "out @ [c]" ms] Cons.prems True ms(1) by auto
  qed
qed

lemma skip_spaces_ok:
  "0 \<notin> set s \<Longrightarrow> skip_spaces (s @ 0 # rest) = Some (length (takeWhile (\<lambda>c. c = 32) s))"
  by (induction s) auto

lemma lstrip_ok:
  assumes "cstr buf s"
  defines "t \<equiv> dropWhile (\<lambda>c. c = 32) s"
  shows "\<exists>buf'. lstrip buf = Some (if t = s then -1 else if t = [] then 0 else int (length t) - 1, buf') \<and>
           cstr buf' t \<and> length buf' = length buf"
proof -
  obtain rest where b: "buf = s @ 0 # rest" and nz: "0 \<notin> set s" using assms by (auto simp: cstr_def)
  let ?w = "takeWhile (\<lambda>c. c = 32) s"
  have s: "s = ?w @ t" by (simp add: t_def)
  have ts: "t = s \<longleftrightarrow> ?w = []" using s by (metis append_self_conv2)
  have nt: "0 \<notin> set t" using nz s by (metis UnCI set_append)
  have sk: "skip_spaces buf = Some (length ?w)" using skip_spaces_ok [OF nz] b by simp
  have bw: "buf = [] @ ?w @ t @ 0 # rest" using b s by simp
  show ?thesis
  proof (cases "?w = []")
    case True
    then show ?thesis using sk ts assms(1) by (auto simp: lstrip_def)
  next
    case False
    obtain rest' where "filter_down (\<lambda>_. True) buf (length ?w) 0 = Some (length t, t @ 0 # rest')"
        "length (t @ 0 # rest') = length buf"
      using filter_down_ok [OF nt, of "\<lambda>_. True" "[]" ?w rest, folded bw] by auto
    then show ?thesis
      using sk ts False nt by (auto simp: lstrip_def cstr_def)
  qed
qed

lemma remove_all_ok:
  assumes "cstr buf s"
  shows "\<exists>buf'. remove_all buf c = Some buf' \<and> cstr buf' (filter (\<lambda>x. x \<noteq> c) s) \<and> length buf' = length buf"
proof -
  obtain rest where b: "buf = s @ 0 # rest" and nz: "0 \<notin> set s" using assms by (auto simp: cstr_def)
  then show ?thesis
    using filter_down_ok [OF nz, of "\<lambda>x. x \<noteq> c" "[]" "[]" rest] by (auto simp: remove_all_def cstr_def)
qed

lemma suffix_loop_full:
  "suffix_loop (s @ u @ z) (u @ z') (length s + length u) (length u) = Some (length s)"
proof (induction u arbitrary: z z' rule: rev_induct)
  case Nil
  then show ?case by simp
next
  case (snoc c u)
  have "arr_get (s @ u @ c # z) (int (length s + length u)) = Some c" "arr_get (u @ c # z') (int (length u)) = Some c"
    by (simp_all add: arr_get_nat nth_append del: of_nat_add)
  then show ?case
    using snoc.IH [of "c # z" "c # z'"] by simp
qed

lemma trim_suffix_ok:
  assumes "cstr buf (s @ u)" and "cstr suf u"
  shows "\<exists>buf'. trim_suffix (Some buf) (Some suf) = Some (0, Some buf') \<and> cstr buf' s \<and> length buf' = length buf"
proof -
  obtain z z' where b: "buf = (s @ u) @ 0 # z" "suf = u @ 0 # z'" and nz: "0 \<notin> set (s @ u)"
    using assms by (auto simp: cstr_def)
  have "suffix_loop buf suf (length s + length u) (length u) = Some (length s)"
    using suffix_loop_full [of s u "0 # z" "0 # z'"] b by simp
  moreover have "arr_set buf (int (length s)) 0 = Some (buf[length s := 0])" using b by (simp add: arr_set_nat)
  moreover have "cstr (buf[length s := 0]) s" using b nz by (cases u) (auto simp: cstr_def)
  ultimately show ?thesis
    using cstr_strlen [OF assms(1)] cstr_strlen [OF assms(2)] by (auto simp: trim_suffix_def)
qed

section \<open>Tokens\<close>

text \<open>The tokens of a string: the maximal runs of bytes that are no separators.\<close>

function tokens :: "(u8 \<Rightarrow> bool) \<Rightarrow> bytes \<Rightarrow> bytes list" where
  "tokens P s =
     (let r = dropWhile P s in
      if r = [] then []
      else takeWhile (\<lambda>c. \<not> P c) r # tokens P (dropWhile (\<lambda>c. \<not> P c) r))"
  by pat_completeness auto
termination
  by (relation "measure (\<lambda>(P, s). length s)") (simp_all only: wf_measure in_measure case_prod_conv length_dropWhile_dropWhile not_False_eq_True)

declare tokens.simps [simp del]

lemma span_sep_ok:
  assumes "cstr sep ss"
  shows "0 \<notin> set s \<Longrightarrow> span_sep want sep (s @ 0 # z) = Some (length (takeWhile (\<lambda>c. (c \<in> set ss) = want) s))"
proof (induction s)
  case (Cons c s)
  then show ?case using assms by (auto simp: cstr_def)
qed simp

lemma sep_count_loop_ok:
  assumes sep: "cstr sep ss"
  shows "0 \<notin> set s \<Longrightarrow> sep_count_loop (s @ 0 # z) sep n = Some (n + length (tokens (\<lambda>c. c \<in> set ss) s))"
proof (induction "\<lambda>c. c \<in> set ss" s arbitrary: n rule: tokens.induct)
  case (1 s)
  let ?P = "\<lambda>c. c \<in> set ss"
  let ?w = "takeWhile ?P s" and ?r = "dropWhile ?P s"
  have k: "span_sep True sep (s @ 0 # z) = Some (length ?w)"
    using span_sep_ok [OF sep 1(2), of True] by simp
  have d: "drop (length ?w) (s @ 0 # z) = ?r @ 0 # z"
    by (rule drop_length_takeWhile)
  show ?case
  proof (cases "?r = []")
    case True
    then show ?thesis
      using k d 1(2) by (subst sep_count_loop.simps, subst tokens.simps)
        (auto simp: arr_get_def Let_def split: list.splits)
  next
    case False
    let ?t = "takeWhile (\<lambda>c. \<not> ?P c) ?r" and ?q = "dropWhile (\<lambda>c. \<not> ?P c) ?r"
    have nr: "0 \<notin> set ?r" and nq: "0 \<notin> set ?q"
      using 1(2) by (auto dest: set_dropWhileD)
    have r0: "?r ! 0 \<noteq> 0" using False nr by (metis length_greater_0_conv nth_mem)
    have "\<not> ?P (hd ?r)" using False by (rule hd_dropWhile)
    then have t: "?t \<noteq> []" using False by (cases ?r) simp_all
    have m: "span_sep False sep (?r @ 0 # z) = Some (length ?t)"
      using span_sep_ok [OF sep nr, of False] by simp
    have dm: "drop (length ?t) (?r @ 0 # z) = ?q @ 0 # z"
      by (rule drop_length_takeWhile)
    have "drop (length ?w + length ?t) (s @ 0 # z) = ?q @ 0 # z"
      by (subst add.commute) (simp only: drop_drop [symmetric] d dm)
    moreover obtain c s' where "s = c # s'" "c \<noteq> 0" using False 1(2) by (cases s) auto
    moreover have "arr_get (?r @ 0 # z) 0 = Some (?r ! 0)" using False by (simp add: arr_get_def nth_append)
    ultimately have "sep_count_loop (s @ 0 # z) sep n = sep_count_loop (?q @ 0 # z) sep (Suc n)"
      using k d m t r0 by (subst sep_count_loop.simps) simp
    also have "\<dots> = Some (Suc n + length (tokens ?P ?q))"
      using 1(1) [OF refl False nq] .
    finally show ?thesis using False by (subst tokens.simps) (simp add: Let_def)
  qed
qed

section \<open>Hashes\<close>

lemma djb2_loop_ok:
  "0 \<notin> set s \<Longrightarrow> INT_MIN \<le> len - int (length s) \<Longrightarrow> len < 0 \<Longrightarrow>
   hash32_djb2_loop (s @ 0 # z) len h = Some (foldl (\<lambda>h c. h * 33 + scast c) h s)"
proof (induction s arbitrary: len h)
  case (Cons c s)
  have "push_bit 5 h + h = 33 * h" by (simp add: push_bit_eq_mult)
  moreover have "cint (len - 1) = Some (len - 1)"
    using Cons.prems by (intro cint_Some) (auto simp: INT_MAX_def)
  ultimately show ?case using Cons by (simp add: mult.commute)
qed simp

lemma fnv_loop_ok:
  "0 \<notin> set s \<Longrightarrow> INT_MIN \<le> len - int (length s) \<Longrightarrow> len < 0 \<Longrightarrow>
   hash32_fnv_loop (s @ 0 # z) len h = Some (foldl (\<lambda>h c. (h * 0x01000193) XOR ucast c) h s)"
proof (induction s arbitrary: len h)
  case (Cons c s)
  have "h + (push_bit 1 h + push_bit 4 h + push_bit 7 h + push_bit 8 h + push_bit 24 h) = h * 0x01000193"
    by (simp add: push_bit_eq_mult)
  moreover have "cint (len - 1) = Some (len - 1)"
    using Cons.prems by (intro cint_Some) (auto simp: INT_MAX_def)
  ultimately show ?case using Cons by (simp add: mult.commute)
qed simp

lemma djb2_cstr:
  assumes "cstr buf s" and "length s < 2 ^ 31"
  shows "hash32_djb2 buf (-1) = Some (foldl (\<lambda>h c. h * 33 + scast c) 5381 s)"
  using assms djb2_loop_ok [of s "-1"] by (auto simp: hash32_djb2_def cstr_def INT_MIN_def)

section \<open>Properties\<close>

text \<open>
  Hexadecimal round trip: \<open>atohstr\<close> writes the C string of the \<open>2 n\<close> digits of \<open>n > 0\<close> bytes, and
  \<open>hstrtoa\<close> on that string returns \<open>n\<close> and writes the same bytes back.
\<close>

theorem hex_round_trip:
  assumes "bs \<noteq> []" and "2 * length bs < length hbuf" and "length bs \<le> length arr"
  shows "\<exists>h. atohstr hbuf bs (length bs) = Some (0, h) \<and> cstr h (hexstr bs) \<and>
    hstrtoa arr h = Some (int (length bs), bs @ drop (length bs) arr)"
proof -
  let ?h = "hexstr bs @ 0 # drop (2 * length bs + 1) hbuf"
  have "atohstr hbuf bs (length bs) = Some (0, ?h)"
    using atohstr_loop_ok [of 0 "length bs" bs hbuf] assms(2) by (simp add: atohstr_def)
  moreover have "cstr ?h (hexstr bs)" by (simp add: cstr_def)
  moreover have "hstrtoa arr ?h = Some (int (length bs), bs @ drop (length bs) arr)"
    using hstrtoa_loop_ok [of 0 bs arr] assms(1,3) by (simp add: hstrtoa_def)
  ultimately show ?thesis by blast
qed

theorem hex_round_trip_witness:
  "\<exists>h. atohstr (replicate 7 1) [0x1f, 0xa0] 2 = Some (0, h) \<and> hstrtoa [9, 9, 9] h = Some (2, [0x1f, 0xa0, 9])"
  using hex_round_trip [of "[0x1f, 0xa0]" "replicate 7 1" "[9, 9, 9]"] 
  by (auto simp: numeral_2_eq_2)

text \<open>
  \<open>strip\<close> leaves in the buffer the string without its leading and trailing spaces. The value it
  returns is the length of that string only when there was no leading space; otherwise it is one less
  (as soon as two characters are left).
\<close>

theorem strip_spec:
  assumes "cstr buf s"
  defines "r \<equiv> rev (dropWhile (\<lambda>c. c = 32) (rev s))"
  defines "t \<equiv> dropWhile (\<lambda>c. c = 32) r"
  shows "\<exists>rc buf'. strip buf = Some (rc, buf') \<and> cstr buf' t \<and> length buf' = length buf \<and>
    (t = r \<longrightarrow> rc = int (length t)) \<and> (t \<noteq> r \<and> 2 \<le> length t \<longrightarrow> rc = int (length t) - 1)"
proof -
  obtain b1 where b1: "rstrip buf = Some (length r, b1)" "cstr b1 r" "length b1 = length buf"
    using cstr_rtrim [OF assms(1), of "\<lambda>c. c = 32"] cstr_strlen [OF assms(1)]
    unfolding r_def by (auto simp: rstrip_def)
  obtain b2 where b2: "lstrip b1 = Some (if t = r then -1 else if t = [] then 0 else int (length t) - 1, b2)"
      "cstr b2 t" "length b2 = length b1"
    using lstrip_ok [OF b1(2)] unfolding t_def by blast
  show ?thesis using b1 b2 by (auto simp: strip_def)
qed

theorem strip_spec_witness:
  "\<exists>rc buf'. strip [32, 97, 98, 32, 0] = Some (rc, buf') \<and> cstr buf' [97, 98] \<and> rc = 1"
  using strip_spec [of "[32, 97, 98, 32, 0]" "[32, 97, 98, 32]"] by (auto simp: cstr_def)

lemma strcntchr_ok: "0 \<notin> set s \<Longrightarrow> strcntchr (s @ 0 # z) c = Some (length (filter (\<lambda>x. x = c) s))"
  by (induction s) auto

text \<open>
  \<open>remove_all\<close> compacts the string in place to its characters other than \<open>c\<close>, in their order, and
  \<open>strcntchr\<close> counts exactly the characters it removes.
\<close>

theorem remove_all_spec:
  assumes "cstr buf s"
  shows "\<exists>buf' n. remove_all buf c = Some buf' \<and> cstr buf' (filter (\<lambda>x. x \<noteq> c) s) \<and>
    length buf' = length buf \<and> strcntchr buf c = Some n \<and> strcntchr buf' c = Some 0 \<and>
    length (filter (\<lambda>x. x \<noteq> c) s) + n = length s"
proof -
  obtain b where b: "remove_all buf c = Some b" "cstr b (filter (\<lambda>x. x \<noteq> c) s)" "length b = length buf"
    using remove_all_ok [OF assms] by blast
  obtain z where "b = filter (\<lambda>x. x \<noteq> c) s @ 0 # z" "0 \<notin> set (filter (\<lambda>x. x \<noteq> c) s)"
    using b(2) by (auto simp: cstr_def)
  then have "strcntchr b c = Some 0" using strcntchr_ok by (simp add: filter_filter)
  moreover have "strcntchr buf c = Some (length (filter (\<lambda>x. x = c) s))"
    using assms strcntchr_ok by (auto simp: cstr_def)
  ultimately show ?thesis
    using b sum_length_filter_compl [of "\<lambda>x. x = c" s] by (simp add: add.commute)
qed

theorem remove_all_spec_witness:
  "\<exists>buf'. remove_all [97, 98, 97, 99, 0, 5] 97 = Some buf' \<and> cstr buf' [98, 99]"
  using remove_all_spec [of "[97, 98, 97, 99, 0, 5]" "[97, 98, 97, 99]" 97] by (auto simp: cstr_def)

lemma suffix_loop_common:
  "length u \<le> length s \<Longrightarrow>
   \<exists>t v w. s = t @ w \<and> u = v @ w \<and> (v = [] \<or> last t \<noteq> last v) \<and>
     suffix_loop (s @ z) (u @ z') (length s) (length u) = Some (length t)"
proof (induction u arbitrary: s z z' rule: rev_induct)
  case Nil
  then show ?case by (intro exI [of _ s] exI [of _ "[]"]) simp
next
  case (snoc b u)
  obtain s' a where s: "s = s' @ [a]" using snoc.prems by (cases s rule: rev_cases) auto
  have reads: "arr_get (s @ z) (int (length s) - 1) = Some a" "arr_get ((u @ [b]) @ z') (int (length u)) = Some b"
    by (simp_all add: s arr_get_def nth_append)
  show ?case
  proof (cases "a = b")
    case True
    obtain t v w where "s' = t @ w" "u = v @ w" "v = [] \<or> last t \<noteq> last v"
        "suffix_loop (s' @ a # z) (u @ b # z') (length s') (length u) = Some (length t)"
      using snoc.IH [of s' "a # z" "b # z'"] snoc.prems s by (metis Suc_le_mono length_append_singleton)
    then show ?thesis
      using reads s True by (intro exI [of _ t] exI [of _ v] exI [of _ "w @ [b]"]) simp
  next
    case False
    then show ?thesis
      using reads s by (intro exI [of _ s] exI [of _ "u @ [b]"] exI [of _ "[]"]) simp
  qed
qed

text \<open>
  \<open>trim_suffix\<close> removes the longest common suffix of the two strings: the whole suffix when the
  string ends with it, but also any shorter tail the two share; it answers -1 and changes nothing
  when the suffix is longer than the string.
\<close>

theorem trim_suffix_spec:
  assumes "cstr buf s" and "cstr suf u"
  shows "if length u > length s then trim_suffix (Some buf) (Some suf) = Some (-1, Some buf)
    else \<exists>buf' t v w. trim_suffix (Some buf) (Some suf) = Some (0, Some buf') \<and> cstr buf' t \<and>
      s = t @ w \<and> u = v @ w \<and> (v = [] \<or> last t \<noteq> last v)"
proof (cases "length u > length s")
  case True
  then show ?thesis using cstr_strlen [OF assms(1)] cstr_strlen [OF assms(2)] by (simp add: trim_suffix_def)
next
  case False
  obtain z z' where b: "buf = s @ 0 # z" "suf = u @ 0 # z'" "0 \<notin> set s" using assms by (auto simp: cstr_def)
  obtain t v w where t: "s = t @ w" "u = v @ w" "v = [] \<or> last t \<noteq> last v"
      "suffix_loop buf suf (length s) (length u) = Some (length t)"
    using suffix_loop_common [of u s "0 # z" "0 # z'"] False unfolding b(1,2) by (metis not_le)
  let ?b = "buf[length t := 0]"
  have "?b = t @ 0 # tl (w @ 0 # z)" using b(1) t(1) by (cases w) simp_all
  then have "cstr ?b t" using b(3) t(1) by (auto simp: cstr_def)
  moreover have "trim_suffix (Some buf) (Some suf) = Some (0, Some ?b)"
    using cstr_strlen [OF assms(1)] cstr_strlen [OF assms(2)] t(1,4) False b(1)
    by (simp add: trim_suffix_def mem_simps)
  ultimately show ?thesis using False t by auto
qed

theorem trim_suffix_spec_witness:
  "\<exists>buf' t v w. trim_suffix (Some [97, 46, 99, 0]) (Some [46, 99, 0]) = Some (0, Some buf') \<and> cstr buf' t \<and>
      [97, 46, 99] = t @ w \<and> [46, 99] = v @ w \<and> (v = [] \<or> last t \<noteq> last v)"
  using trim_suffix_spec [of "[97, 46, 99, 0]" "[97, 46, 99]" "[46, 99, 0]" "[46, 99]"] by (auto simp: cstr_def)

text \<open>
  \<open>str_sep_count\<close> is the number of tokens of the string, a token being a maximal run of
  characters that are not separators; the loop ends on every C string.
\<close>

theorem str_sep_count_spec:
  assumes "cstr buf s" and "cstr sep ss"
  shows "str_sep_count (Some buf) (Some sep) = Some (length (tokens (\<lambda>c. c \<in> set ss) s))"
proof (cases s)
  case Nil
  then show ?thesis
    using assms(1) by (subst tokens.simps) (auto simp: str_sep_count_def cstr_def arr_get_def)
next
  case (Cons c s')
  then have "arr_get buf 0 = Some c" "c \<noteq> 0" using assms(1) by (auto simp: cstr_def arr_get_def)
  moreover obtain z where "buf = s @ 0 # z" "0 \<notin> set s" using assms(1) by (auto simp: cstr_def)
  ultimately show ?thesis
    using sep_count_loop_ok [OF assms(2), of s z 0] by (simp add: str_sep_count_def)
qed

theorem str_sep_count_spec_witness: "str_sep_count (Some [44, 97, 44, 44, 98, 0]) (Some [44, 0]) = Some 2"
  using str_sep_count_spec [of "[44, 97, 44, 44, 98, 0]" "[44, 97, 44, 44, 98]" "[44, 0]" "[44]"]
  by (simp add: cstr_def tokens.simps)

text \<open>
  On a whole C string (length -1) both 32-bit hashes are their polynomial closed forms modulo
  \<open>2^32\<close>: multiply by 33 and add the signed character from 5381, and multiply by the FNV prime and
  exclusive-or the unsigned character from 0.
\<close>

theorem string_hashes:
  assumes "cstr buf s" and "length s < 2 ^ 31"
  shows "hash32_djb2 buf (-1) = Some (foldl (\<lambda>h c. h * 33 + scast c) 5381 s) \<and>
    hash32_fnv buf (-1) = Some (foldl (\<lambda>h c. (h * 16777619) XOR ucast c) 0 s)"
  using assms djb2_cstr [OF assms] fnv_loop_ok [of s "-1"]
  by (auto simp: hash32_fnv_def cstr_def INT_MIN_def)

theorem string_hashes_witness: "hash32_djb2 [97, 0] (-1) = Some 177670 \<and> hash32_fnv [97, 0] (-1) = Some 97"
  using string_hashes [of "[97, 0]" "[97]"] by (simp add: cstr_def)

end
