(* ===== verification/Strlib.thy ===== *)
theory Strlib
  imports Strutils
begin

text \<open>
  The string objects of \<^verbatim>\<open>src/utils/src/strlib.c\<close>. What fresh memory contains is an argument, as is the text that a format produces.
  The conversions between \<^verbatim>\<open>size_t\<close> and \<^verbatim>\<open>int\<close> are written out; the theorem holds for strings of less than \<open>2^31 - 1\<close> bytes, where they
  change nothing.
\<close>

section \<open>The model\<close>

record string_t =
  st_flags :: "32 word"
  st_buf :: "bytes option"
  st_len :: nat
  st_max_len :: nat

definition STRING_ALLOCATED :: "32 word" where
  "STRING_ALLOCATED = 1"

definition int_of_size :: "nat \<Rightarrow> int" where
  "int_of_size n = sint (word_of_nat n :: 32 word)"

definition size_of_int :: "int \<Rightarrow> nat" where
  "size_of_int i = nat (i mod 2 ^ 64)"

definition STRING_DEF :: "nat \<Rightarrow> string_t" where
  "STRING_DEF n = \<lparr>st_flags = 0, st_buf = Some (replicate (n + 1) 0), st_len = 0, st_max_len = n\<rparr>"

definition string_create :: "(nat \<Rightarrow> bytes) \<Rightarrow> bytes option \<Rightarrow> nat \<Rightarrow> string_t option" where
  "string_create malloc buf len = do {
     let b = malloc (sz_add len 1);
     (b, n) \<leftarrow> (case buf of None \<Rightarrow> Some (b, 0) | Some src \<Rightarrow> do { x \<leftarrow> mem_read src 0 len; b \<leftarrow> mem_write b 0 x; Some (b, len) });
     b \<leftarrow> arr_set b (int len) 0;
     Some \<lparr>st_flags = STRING_ALLOCATED, st_buf = Some b, st_len = n, st_max_len = len\<rparr>
   }"

definition string_clone :: "(nat \<Rightarrow> bytes) \<Rightarrow> string_t \<Rightarrow> string_t option" where
  "string_clone malloc src = string_create malloc (st_buf src) (st_len src)"

definition safe_realloc :: "(nat \<Rightarrow> bytes) \<Rightarrow> bytes option \<Rightarrow> nat \<Rightarrow> bytes" where
  "safe_realloc malloc data n = (let old = (case data of None \<Rightarrow> [] | Some b \<Rightarrow> b) in take n old @ drop (length old) (malloc n))"

definition string_resize :: "(nat \<Rightarrow> bytes) \<Rightarrow> string_t \<Rightarrow> nat \<Rightarrow> (int \<times> string_t) option" where
  "string_resize malloc s new_len =
     (if st_flags s AND STRING_ALLOCATED = 0 then Some (-1, s)
      else do {
        b \<leftarrow> arr_set (safe_realloc malloc (st_buf s) (sz_add new_len 1)) (int new_len) 0;
        Some (0, s\<lparr>st_buf := Some b, st_max_len := new_len, st_len := (if st_len s > new_len then new_len else st_len s)\<rparr>)
      })"

definition string_destroy :: "string_t \<Rightarrow> string_t" where
  "string_destroy s = \<lparr>st_flags = 0, st_buf = None, st_len = 0, st_max_len = 0\<rparr>"

definition vsnprintf :: "bytes \<Rightarrow> int \<Rightarrow> nat \<Rightarrow> bytes \<Rightarrow> bytes option" where
  \<comment> \<open>\<open>text\<close> cut to \<open>n - 1\<close> bytes, and its terminator\<close>
  "vsnprintf b off n text = (if n = 0 then Some b else mem_write b off (take (n - 1) text @ [0]))"

definition start_of :: "string_t \<Rightarrow> bytes \<Rightarrow> int option" where
  "start_of s mode = map_option (\<lambda>m. if m = 97 then int_of_size (st_len s) else 0) (arr_get mode 0)"

definition string_printf :: "string_t \<Rightarrow> bytes \<Rightarrow> bytes \<Rightarrow> (int \<times> string_t) option" where
  \<comment> \<open>\<open>text\<close> is what the format and its arguments produce\<close>
  "string_printf s mode text = do {
     start \<leftarrow> start_of s mode;
     b \<leftarrow> st_buf s;
     ret \<leftarrow> cint (int (length text));
     b \<leftarrow> vsnprintf b start (sz_sub (st_max_len s) (size_of_int start)) text;
     e \<leftarrow> cint (start + ret);
     if e \<ge> int_of_size (st_max_len s) then Some (-1, s\<lparr>st_buf := Some b\<rparr>)
     else do {
       b \<leftarrow> arr_set b (int (size_of_int e)) 0;
       Some (ret, s\<lparr>st_buf := Some b, st_len := size_of_int e\<rparr>)
     }
   }"

definition string_copy :: "string_t \<Rightarrow> bytes \<Rightarrow> bytes \<Rightarrow> nat \<Rightarrow> (int \<times> string_t) option" where
  "string_copy s mode str len = do {
     start \<leftarrow> start_of s mode;
     n \<leftarrow> (if sz_add (size_of_int start) len > st_max_len s
           then map_option (\<lambda>m. if m \<noteq> 102 then None else Some (sz_sub (st_max_len s) (size_of_int start))) (arr_get mode 1)
           else Some (Some len));
     case n of
       None \<Rightarrow> Some (-1, s)
     | Some len \<Rightarrow> do {
         b \<leftarrow> st_buf s;
         x \<leftarrow> mem_read str 0 len;
         b \<leftarrow> mem_write b start x;
         let l = sz_add (size_of_int start) len;
         b \<leftarrow> arr_set b (int l) 0;
         Some (int_of_size len, s\<lparr>st_buf := Some b, st_len := l\<rparr>)
       }
   }"

definition string_merge :: "(nat \<Rightarrow> bytes) \<Rightarrow> string_t \<Rightarrow> string_t \<Rightarrow> (int \<times> string_t \<times> string_t) option" where
  "string_merge malloc primary secondary = do {
     let target = sz_add (st_len primary) (st_len secondary);
     (rc, primary) \<leftarrow> (if target > st_max_len primary then string_resize malloc primary target else Some (0, primary));
     if rc \<noteq> 0 then Some (-1, primary, secondary)
     else do {
       src \<leftarrow> st_buf secondary;
       (_, primary) \<leftarrow> string_copy primary [97, 0] src (st_len secondary);
       Some (0, primary, string_destroy secondary)
     }
   }"

section \<open>What a string object holds\<close>

definition string_rel :: "string_t \<Rightarrow> bytes \<Rightarrow> bool" where
  \<comment> \<open>the last byte of the buffer is 0 at all times; the one behind the contents need not be\<close>
  "string_rel s cs = (\<exists>rest. st_buf s = Some (cs @ rest) \<and> rest \<noteq> [] \<and> last rest = 0 \<and> st_len s = length cs \<and> st_max_len s + 1 = length cs + length rest \<and>
     st_max_len s < 2 ^ 31 - 1)"

definition terminated :: "string_t \<Rightarrow> bool" where
  "terminated s = (case st_buf s of None \<Rightarrow> False | Some b \<Rightarrow> st_len s < length b \<and> b ! st_len s = 0)"

definition allocated :: "string_t \<Rightarrow> bool" where
  "allocated s = (st_flags s AND STRING_ALLOCATED \<noteq> 0)"

lemma int_of_size_small: "n < 2 ^ 31 \<Longrightarrow> int_of_size n = int n"
  by (simp add: int_of_size_def signed_of_nat take_bit_nat_eq_self_iff signed_take_bit_eq_take_bit_shift take_bit_int_eq_self)

lemma size_of_int_small: "n < 2 ^ 64 \<Longrightarrow> size_of_int (int n) = n"
  by (simp add: size_of_int_def nat_mod_distrib)

lemma string_def_rel: "n < 2 ^ 31 - 1 \<Longrightarrow> string_rel (STRING_DEF n) []" "terminated (STRING_DEF n)"
  by (simp_all add: string_rel_def terminated_def STRING_DEF_def del: replicate_Suc)

lemma blit_at: "length as = n \<Longrightarrow> length xs \<le> length rest \<Longrightarrow> blit (as @ rest) n xs = as @ xs @ drop (length xs) rest"
  by (simp add: blit_def)

definition base_of :: "u8 \<Rightarrow> bytes \<Rightarrow> bytes" where
  \<comment> \<open>what is kept when appending (97 is the letter a) and when copying\<close>
  "base_of m cs = (if m = 97 then cs else [])"

lemma base_buf: "string_rel s cs \<Longrightarrow> st_buf s = Some b \<Longrightarrow> take (length (base_of m cs)) b = base_of m cs \<and> length b = st_max_len s + 1 \<and> last b = 0 \<and>
    length cs \<le> st_max_len s"
  unfolding string_rel_def by (auto simp: base_of_def) (metis Suc_leI add_less_cancel_left length_greater_0_conv add_0_right add.commute less_Suc_eq_le nat_add_left_cancel_less)+

lemma start_at: "string_rel s cs \<Longrightarrow> arr_get mode 0 = Some m \<Longrightarrow> start_of s mode = Some (int (length (base_of m cs)))"
  by (auto simp: start_of_def base_of_def string_rel_def int_of_size_small)

lemma write_ok:
  assumes "string_rel s cs" "st_buf s = Some b" and "length (base_of m cs) + length xs \<le> st_max_len s"
  shows "\<exists>b1 b2. mem_write b (int (length (base_of m cs))) xs = Some b1 \<and> arr_set b1 (int (length (base_of m cs) + length xs)) 0 = Some b2 \<and>
    string_rel (s\<lparr>st_buf := Some b2, st_len := length (base_of m cs) + length xs\<rparr>) (base_of m cs @ xs) \<and> b2 ! (length (base_of m cs) + length xs) = 0 \<and>
    length (base_of m cs) + length xs < length b2"
proof -
  let ?k = "length (base_of m cs)"
  have b: "take ?k b = base_of m cs" "length b = st_max_len s + 1" "last b = 0" using base_buf [OF assms(1,2)] by auto
  have w: "mem_write b (int ?k) xs = Some (blit b ?k xs)" using assms(3) b(2) by (intro mem_write_nat) simp
  have bl: "blit b ?k xs = (base_of m cs @ xs) @ drop (?k + length xs) b" using b(1) by (simp add: blit_def)
  obtain c rest where d: "drop (?k + length xs) b = c # rest" "length rest = st_max_len s - (?k + length xs)"
    using b(2) assms(3) by (cases "drop (?k + length xs) b") (auto dest: arg_cong [of _ _ length])
  have z: "last (0 # rest) = 0" using b(3) d(1) last_drop [of "?k + length xs" b] assms(3) b(2) by (auto simp del: last_drop)
  have "arr_set (blit b ?k xs) (int (?k + length xs)) 0 = Some ((blit b ?k xs)[?k + length xs := 0])" by (rule arr_set_nat) (simp add: bl d)
  moreover have "(blit b ?k xs)[?k + length xs := 0] = (base_of m cs @ xs) @ 0 # rest" unfolding bl d(1) by (simp only: length_append [symmetric] list_update_length)
  moreover have "st_max_len s < 2 ^ 31 - 1" using assms(1) by (auto simp: string_rel_def)
  ultimately show ?thesis using w assms(3) d(2) z by (auto simp: string_rel_def nth_append simp del: last.simps)
qed

lemma string_copy_ok:
  assumes rel: "string_rel s cs" and m: "arr_get mode 0 = Some m" and len: "len \<le> length str" "len < 2 ^ 31" and fits: "length (base_of m cs) + len \<le> st_max_len s"
  shows "\<exists>s'. string_copy s mode str len = Some (int len, s') \<and> string_rel s' (base_of m cs @ take len str) \<and> terminated s' \<and> st_max_len s' = st_max_len s \<and>
    st_flags s' = st_flags s"
proof -
  let ?k = "length (base_of m cs)"
  obtain b where b: "st_buf s = Some b" using rel by (auto simp: string_rel_def)
  have mx: "st_max_len s < 2 ^ 31 - 1" using rel by (auto simp: string_rel_def)
  have sz: "size_of_int (int ?k) = ?k" "sz_add ?k len = ?k + len" using fits mx by (simp_all add: size_of_int_small sz_add_def)
  have x: "mem_read str 0 len = Some (take len str)" using len(1) mem_read_nat [of 0 len str] by simp
  have l: "length (take len str) = len" using len(1) by simp
  obtain b1 b2 where w: "mem_write b (int ?k) (take len str) = Some b1" "arr_set b1 (int (?k + len)) 0 = Some b2"
      "string_rel (s\<lparr>st_buf := Some b2, st_len := ?k + len\<rparr>) (base_of m cs @ take len str)" "b2 ! (?k + len) = 0" "?k + len < length b2"
    using write_ok [OF rel b, of m "take len str"] fits l by auto
  then show ?thesis using start_at [OF rel m] sz b x len(2) fits by (auto simp: string_copy_def int_of_size_small terminated_def Let_def)
qed

lemma string_copy_full:
  assumes rel: "string_rel s cs" and m: "arr_get mode 0 = Some m" "arr_get mode 1 = Some f" and len: "len \<le> length str" "len < 2 ^ 63" and full: "st_max_len s < length (base_of m cs) + len"
  shows "\<exists>s'. string_copy s mode str len = Some (if f = 102 then int (st_max_len s - length (base_of m cs)) else -1, s') \<and>
    string_rel s' (if f = 102 then base_of m cs @ take (st_max_len s - length (base_of m cs)) str else cs) \<and> terminated s' = (f = 102 \<or> terminated s) \<and>
    st_max_len s' = st_max_len s \<and> st_flags s' = st_flags s"
proof -
  let ?k = "length (base_of m cs)" and ?n = "st_max_len s - length (base_of m cs)"
  obtain b where b: "st_buf s = Some b" using rel by (auto simp: string_rel_def)
  have mx: "st_max_len s < 2 ^ 31 - 1" using rel by (auto simp: string_rel_def)
  have kx: "?k \<le> st_max_len s" using base_buf [OF rel b] by (auto simp: base_of_def)
  have sz: "size_of_int (int ?k) = ?k" "sz_add ?k len = ?k + len" "sz_sub (st_max_len s) ?k = ?n" "sz_add ?k ?n = st_max_len s"
    using len mx kx by (simp_all add: size_of_int_small sz_add_def sz_sub_small)
  have x: "mem_read str 0 ?n = Some (take ?n str)" using len(1) full mem_read_nat [of 0 ?n str] by simp
  have l: "length (take ?n str) = ?n" using len(1) full by simp
  have n31: "int_of_size ?n = int ?n" using mx by (intro int_of_size_small) simp
  obtain b1 b2 where w: "mem_write b (int ?k) (take ?n str) = Some b1" "arr_set b1 (int (st_max_len s)) 0 = Some b2"
      "string_rel (s\<lparr>st_buf := Some b2, st_len := st_max_len s\<rparr>) (base_of m cs @ take ?n str)" "b2 ! st_max_len s = 0" "st_max_len s < length b2"
    using write_ok [OF rel b, of m "take ?n str"] kx l by (auto simp del: of_nat_add)
  show ?thesis using start_at [OF rel m(1)] m(2) sz b x w full rel n31 by (auto simp: string_copy_def terminated_def Let_def)
qed

lemma string_resize_ok:
  assumes rel: "string_rel s cs" and al: "allocated s" and n: "n < 2 ^ 31 - 1" and malloc: "\<And>n. length (malloc n) = n"
  shows "\<exists>s'. string_resize malloc s n = Some (0, s') \<and> string_rel s' (take n cs) \<and> terminated s' = (n \<le> length cs \<or> terminated s) \<and> st_max_len s' = n \<and>
    st_flags s' = st_flags s"
proof -
  obtain rest where b: "st_buf s = Some (cs @ rest)" "rest \<noteq> []" "st_len s = length cs" using rel by (auto simp: string_rel_def)
  let ?b = "safe_realloc malloc (st_buf s) (n + 1)" and ?k = "min n (length cs)"
  have sz: "sz_add n 1 = n + 1" using n by (simp add: sz_add_def)
  have len: "length ?b = n + 1" by (simp add: safe_realloc_def b(1) malloc)
  have "take ?k ?b = take n cs" by (simp add: safe_realloc_def b(1) min_def)
  then have "take ?k (?b[n := 0]) = take n cs" by (simp add: take_update_cancel)
  then have buf: "?b[n := 0] = take n cs @ drop ?k (?b[n := 0])" by (metis append_take_drop_id)
  have z: "last (drop ?k (?b[n := 0])) = 0" "drop ?k (?b[n := 0]) \<noteq> []" using len by (auto simp: last_conv_nth)
  have "?b ! length cs = (cs @ rest) ! length cs" if "\<not> n \<le> length cs" using that b(2) len by (simp add: safe_realloc_def b(1) nth_append)
  then have t: "(?b[n := 0] ! ?k = 0) = (n \<le> length cs \<or> terminated s)" using len b by (auto simp: terminated_def min_def nth_list_update)
  let ?s = "s\<lparr>st_buf := Some (?b[n := 0]), st_max_len := n, st_len := ?k\<rparr>"
  have k: "(if n < st_len s then n else st_len s) = ?k" using b(3) by simp
  have "arr_set ?b (int n) 0 = Some (?b[n := 0])" using len by (intro arr_set_nat) simp
  then have "string_resize malloc s n = Some (0, ?s)" using al sz by (simp add: string_resize_def allocated_def k)
  moreover have "string_rel ?s (take n cs)" unfolding string_rel_def using buf z len n by (intro exI [of _ "drop ?k (?b[n := 0])"]) (simp add: min_def)
  moreover have "terminated ?s = (n \<le> length cs \<or> terminated s)" using t len by (simp add: terminated_def min_less_iff_disj)
  ultimately show ?thesis by (intro exI [of _ ?s]) simp
qed

lemma string_printf_ok:
  assumes rel: "string_rel s cs" and m: "arr_get mode 0 = Some m" and fits: "length (base_of m cs) + length text < st_max_len s"
  shows "\<exists>s'. string_printf s mode text = Some (int (length text), s') \<and> string_rel s' (base_of m cs @ text) \<and> terminated s' \<and> st_max_len s' = st_max_len s \<and>
    st_flags s' = st_flags s"
proof -
  let ?k = "length (base_of m cs)"
  obtain b where b: "st_buf s = Some b" using rel by (auto simp: string_rel_def)
  have mx: "st_max_len s < 2 ^ 31 - 1" using rel by (auto simp: string_rel_def)
  have sz: "size_of_int (int ?k) = ?k" "sz_sub (st_max_len s) ?k = st_max_len s - ?k" "int_of_size (st_max_len s) = int (st_max_len s)"
    "size_of_int (int ?k + int (length text)) = ?k + length text"
    using fits mx size_of_int_small [of "?k + length text"] by (simp_all add: size_of_int_small sz_sub_small int_of_size_small)
  have ci: "cint (int (length text)) = Some (int (length text))" "cint (int ?k + int (length text)) = Some (int ?k + int (length text))"
    using fits mx by (simp_all add: cint_def INT_MIN_def INT_MAX_def)
  obtain b1 b2 where w: "mem_write b (int ?k) text = Some b1" "arr_set b1 (int (?k + length text)) 0 = Some b2"
      "string_rel (s\<lparr>st_buf := Some b2, st_len := ?k + length text\<rparr>) (base_of m cs @ text)" "b2 ! (?k + length text) = 0"
    using write_ok [OF rel b, of m "text"] fits by auto
  have lb: "length b = st_max_len s + 1" using base_buf [OF rel b] by blast
  have "vsnprintf b (int ?k) (st_max_len s - ?k) text = Some (blit b ?k (text @ [0]))"
    using fits lb mem_write_nat [of ?k "text @ [0]" b] by (simp add: vsnprintf_def)
  moreover have "blit b ?k (text @ [0]) = b2"
    using w(1,2) fits lb mem_write_nat [of ?k "text" b] arr_set_nat [of "?k + length text" "blit b ?k text" 0]
    by (auto simp: blit_def list_update_append Cons_nth_drop_Suc [symmetric])
  moreover have "b2[?k + length text := 0] = b2" "?k + length text < length b2"
    using w(2) by (auto simp: arr_set_def nat_int_add split: if_splits)
  then have "arr_set b2 (int (?k + length text)) 0 = Some b2" by (simp add: arr_set_nat del: of_nat_add)
  ultimately show ?thesis using start_at [OF rel m] sz b ci fits w(3,4) \<open>?k + length text < length b2\<close> by (auto simp: string_printf_def terminated_def)
qed

definition overprint :: "bytes \<Rightarrow> nat \<Rightarrow> bytes \<Rightarrow> bytes" where
  \<comment> \<open>the buffer behind \<open>base\<close> when \<open>text\<close> is too long for the capacity\<close>
  "overprint base cap text = base @ take (cap - length base - 1) text @ [0, 0]"

lemma string_printf_fails:
  assumes rel: "string_rel s cs" and m: "arr_get mode 0 = Some m" and fails: "st_max_len s \<le> length (base_of m cs) + length text" "length (base_of m cs) + length text < 2 ^ 31"
    and b': "b' = overprint (base_of m cs) (st_max_len s) text"
  shows "\<exists>s'. string_printf s mode text = Some (-1, s') \<and> st_max_len s' = st_max_len s \<and> st_flags s' = st_flags s \<and>
    (if length (base_of m cs) < st_max_len s then string_rel s' (take (length cs) b') \<and> terminated s' = (b' ! length cs = 0) else s' = s)"
proof -
  let ?k = "length (base_of m cs)" and ?n = "st_max_len s - length (base_of m cs)"
  obtain b where b: "st_buf s = Some b" using rel by (auto simp: string_rel_def)
  have mx: "st_max_len s < 2 ^ 31 - 1" "st_len s = length cs" using rel by (auto simp: string_rel_def)
  have bb: "take ?k b = base_of m cs" "length b = st_max_len s + 1" "last b = 0" "length cs \<le> st_max_len s" using base_buf [OF rel b] by auto
  then have k: "?k \<le> st_max_len s" by (auto simp: base_of_def)
  have sz: "size_of_int (int ?k) = ?k" "sz_sub (st_max_len s) ?k = ?n" "int_of_size (st_max_len s) = int (st_max_len s)"
    using k mx by (simp_all add: size_of_int_small sz_sub_small int_of_size_small)
  have ci: "cint (int (length text)) = Some (int (length text))" "cint (int ?k + int (length text)) = Some (int ?k + int (length text))"
    using fails(2) by (simp_all add: cint_def INT_MIN_def INT_MAX_def)
  note run = start_at [OF rel m] sz b ci fails(1)
  show ?thesis
  proof (cases "?k < st_max_len s")
    case False
    then have "vsnprintf b (int ?k) ?n text = Some b" by (simp add: vsnprintf_def)
    then show ?thesis using run False b by (auto simp: string_printf_def)
  next
    case True
    let ?w = "take (?n - 1) text @ [0]"
    have lw: "length ?w = ?n" using True fails(1) by simp
    have d: "drop (st_max_len s) b = [0]" using bb(2,3) by (metis Cons_nth_drop_Suc Suc_eq_plus1 diff_Suc_1 drop_all last_conv_nth lessI list.size(3) nat.simps(3) order_refl)
    have "mem_write b (int ?k) ?w = Some (blit b ?k ?w)" using lw bb(2) True by (intro mem_write_nat) simp
    moreover have "blit b ?k ?w = b'" using bb(1) d lw True by (simp add: b' overprint_def blit_def del: take_append)
    ultimately have v: "vsnprintf b (int ?k) ?n text = Some b'" using True by (simp add: vsnprintf_def)
    have lb: "length b' = st_max_len s + 1" "last b' = 0" using lw True by (auto simp: b' overprint_def)
    then have "string_rel (s\<lparr>st_buf := Some b'\<rparr>) (take (length cs) b')" using bb(4) mx by (auto simp: string_rel_def min_def intro!: exI [of _ "drop (length cs) b'"])
    then show ?thesis using run True v mx(2) lb bb(4) by (auto simp: string_printf_def terminated_def)
  qed
qed

lemma string_create_ok:
  assumes "n \<le> length src" and "n < 2 ^ 31 - 1" and "\<And>n. length (malloc n) = n"
  shows "\<exists>s. string_create malloc (Some src) n = Some s \<and> string_rel s (take n src) \<and> allocated s \<and> terminated s \<and> st_max_len s = n"
proof -
  have sz: "sz_add n 1 = n + 1" using assms(2) by (simp add: sz_add_def)
  have x: "mem_read src 0 n = Some (take n src)" using assms(1) mem_read_nat [of 0 n src] by simp
  have d: "\<exists>c. drop n (malloc (n + 1)) = [c]" using assms(3) [of "n + 1"] by (cases "drop n (malloc (n + 1))") (auto dest: arg_cong [of _ _ length])
  then obtain c where c: "drop n (malloc (n + 1)) = [c]" by blast
  have "mem_write (malloc (n + 1)) 0 (take n src) = Some (take n src @ [c])"
    using mem_write_nat [of 0 "take n src" "malloc (n + 1)"] assms(1,3) c by (simp add: blit_def min_def)
  moreover have "arr_set (take n src @ [c]) (int n) 0 = Some (take n src @ [0])" using assms(1) arr_set_nat [of n "take n src @ [c]" 0] by (simp add: list_update_append)
  ultimately show ?thesis using assms(1,2) sz x by (simp add: string_create_def string_rel_def allocated_def terminated_def STRING_ALLOCATED_def nth_append Let_def)
qed

lemma string_merge_ok:
  assumes rel: "string_rel s cs" "string_rel s2 xs" and al: "allocated s" and n: "length cs + length xs < 2 ^ 31 - 1" and malloc: "\<And>n. length (malloc n) = n"
  shows "\<exists>s'. string_merge malloc s s2 = Some (0, s', string_destroy s2) \<and> string_rel s' (cs @ xs) \<and> terminated s' \<and> st_max_len s' = max (st_max_len s) (length cs + length xs) \<and> st_flags s' = st_flags s"
proof -
  obtain rest where b: "st_buf s2 = Some (xs @ rest)" "st_len s2 = length xs" using rel(2) by (auto simp: string_rel_def)
  have l: "st_len s = length cs" using rel(1) by (auto simp: string_rel_def)
  let ?t = "length cs + length xs"
  have sz: "sz_add (length cs) (length xs) = ?t" using n by (simp add: sz_add_def)
  obtain s1 where s1: "(if st_max_len s < ?t then string_resize malloc s ?t else Some (0, s)) = Some (0, s1)" "string_rel s1 cs" "st_max_len s1 = max (st_max_len s) ?t" "st_flags s1 = st_flags s"
  proof (cases "st_max_len s < ?t")
    case True
    then show ?thesis using string_resize_ok [OF rel(1) al n malloc] that by (auto simp: max_def)
  next
    case False
    then show ?thesis using rel(1) that [of s] by (simp add: max_def)
  qed
  have m: "arr_get [97, 0] 0 = Some (97 :: u8)" by (simp add: arr_get_def)
  obtain s' where "string_copy s1 [97, 0] (xs @ rest) (length xs) = Some (int (length xs), s')" "string_rel s' (cs @ xs)" "terminated s'" "st_max_len s' = st_max_len s1" "st_flags s' = st_flags s1"
    using string_copy_ok [OF s1(2) m, of "length xs" "xs @ rest"] n s1(3) by (auto simp: base_of_def)
  then show ?thesis using s1 b l sz by (simp add: string_merge_def Let_def)
qed

section \<open>Sequences of operations\<close>

datatype str_op = Copy bytes bytes | Print bytes bytes | Resize nat | Merge bytes

fun run_string :: "(nat \<Rightarrow> bytes) \<Rightarrow> string_t \<Rightarrow> str_op list \<Rightarrow> (int list \<times> string_t) option" where
  "run_string malloc s [] = Some ([], s)"
| "run_string malloc s (op # ops) = do {
     (rc, s) \<leftarrow> (case op of
        Copy mode x \<Rightarrow> string_copy s mode x (length x)
      | Print mode x \<Rightarrow> string_printf s mode x
      | Resize n \<Rightarrow> string_resize malloc s n
      | Merge x \<Rightarrow> do { t \<leftarrow> string_create malloc (Some x) (length x); (rc, s, t) \<leftarrow> string_merge malloc s t; Some (rc, s) });
     (rcs, s) \<leftarrow> run_string malloc s ops;
     Some (rc # rcs, s)
   }"

type_synonym str_spec = "bytes \<times> nat \<times> bool"
  \<comment> \<open>the contents, the capacity, and whether the byte behind the contents is 0\<close>

fun spec_op :: "bool \<Rightarrow> str_op \<Rightarrow> str_spec \<Rightarrow> int \<times> str_spec" where
  \<comment> \<open>only allocated strings grow; a print that is refused has replaced what it could, and the length stays\<close>
  "spec_op al (Copy mode x) (cs, cap, z) =
     (let base = base_of (mode ! 0) cs in
      if length base + length x \<le> cap then (int (length x), base @ x, cap, True)
      else if mode ! 1 = 102 then (int (cap - length base), base @ take (cap - length base) x, cap, True) else (-1, cs, cap, z))"
| "spec_op al (Print mode x) (cs, cap, z) =
     (let base = base_of (mode ! 0) cs; b = overprint base cap x in
      if length base + length x < cap then (int (length x), base @ x, cap, True)
      else if length base < cap then (-1, take (length cs) b, cap, b ! length cs = 0) else (-1, cs, cap, z))"
| "spec_op al (Resize n) (cs, cap, z) = (if al then (0, take n cs, n, n \<le> length cs \<or> z) else (-1, cs, cap, z))"
| "spec_op al (Merge x) (cs, cap, z) =
     (if length cs + length x \<le> cap then (0, cs @ x, cap, True) else if al then (0, cs @ x, length cs + length x, True) else (-1, cs, cap, z))"

fun op_fits :: "str_op \<Rightarrow> str_spec \<Rightarrow> bool" where
  \<comment> \<open>sizes that an \<^verbatim>\<open>int\<close> can hold\<close>
  "op_fits (Copy mode x) (cs, cap, z) = (2 \<le> length mode \<and> length x < 2 ^ 31)"
| "op_fits (Print mode x) (cs, cap, z) = (1 \<le> length mode \<and> length cs + length x < 2 ^ 31)"
| "op_fits (Resize n) (cs, cap, z) = (n < 2 ^ 31 - 1)"
| "op_fits (Merge x) (cs, cap, z) = (length cs + length x < 2 ^ 31 - 1)"

fun spec_string :: "bool \<Rightarrow> str_spec \<Rightarrow> str_op list \<Rightarrow> int list \<times> str_spec" where
  "spec_string al c [] = ([], c)"
| "spec_string al c (op # ops) = (let (rc, c) = spec_op al op c; (rcs, c) = spec_string al c ops in (rc # rcs, c))"

fun ops_fit :: "bool \<Rightarrow> str_spec \<Rightarrow> str_op list \<Rightarrow> bool" where
  "ops_fit al c [] = True"
| "ops_fit al c (op # ops) = (op_fits op c \<and> ops_fit al (snd (spec_op al op c)) ops)"

lemma merge_refused:
  assumes "string_rel s cs" "string_rel s2 xs" and "\<not> allocated s" and "st_max_len s < length cs + length xs" and "length cs + length xs < 2 ^ 31 - 1"
  shows "string_merge malloc s s2 = Some (-1, s, s2)"
proof -
  have "st_len s = length cs" "st_len s2 = length xs" using assms(1,2) by (auto simp: string_rel_def)
  then show ?thesis using assms(3-5) by (simp add: string_merge_def string_resize_def allocated_def sz_add_def)
qed

lemma string_step:
  assumes rel: "string_rel s cs" and fit: "op_fits op (cs, st_max_len s, terminated s)" and malloc: "\<And>n. length (malloc n) = n"
    and spec: "spec_op (allocated s) op (cs, st_max_len s, terminated s) = (rc, cs', cap, z)"
  shows "\<exists>s'. run_string malloc s [op] = Some ([rc], s') \<and> string_rel s' cs' \<and> terminated s' = z \<and> st_max_len s' = cap \<and> st_flags s' = st_flags s"
proof (cases op)
  case (Copy mode x)
  then have m: "arr_get mode 0 = Some (mode ! 0)" "arr_get mode 1 = Some (mode ! 1)" using fit by (auto simp: arr_get_def)
  show ?thesis
  proof (cases "length (base_of (mode ! 0) cs) + length x \<le> st_max_len s")
    case True
    then show ?thesis using string_copy_ok [OF rel m(1), of "length x" x] fit spec Copy by (auto simp: Let_def)
  next
    case False
    then show ?thesis using string_copy_full [OF rel m, of "length x" x] fit spec Copy by (auto simp: Let_def split: if_splits)
  qed
next
  case (Print mode x)
  then have m: "arr_get mode 0 = Some (mode ! 0)" using fit by (auto simp: arr_get_def)
  show ?thesis
  proof (cases "length (base_of (mode ! 0) cs) + length x < st_max_len s")
    case True
    then show ?thesis using string_printf_ok [OF rel m, of x] spec Print by (auto simp: Let_def)
  next
    case False
    have "length (base_of (mode ! 0) cs) + length x < 2 ^ 31" using fit Print by (auto simp: base_of_def)
    then show ?thesis using string_printf_fails [OF rel m _ _ refl, of x] False rel spec Print by (auto simp: Let_def split: if_splits)
  qed
next
  case (Resize n)
  show ?thesis
  proof (cases "allocated s")
    case True
    then show ?thesis using string_resize_ok [OF rel True _ malloc, of n] fit spec Resize by auto
  next
    case False
    then show ?thesis using rel spec Resize by (auto simp: string_resize_def allocated_def)
  qed
next
  case (Merge x)
  then have n: "length cs + length x < 2 ^ 31 - 1" "length x < 2 ^ 31 - 1" using fit by simp_all
  obtain t where t: "string_create malloc (Some x) (length x) = Some t" "string_rel t x" using string_create_ok [of "length x" x malloc] n(2) malloc by auto
  show ?thesis
  proof (cases "allocated s")
    case True
    then show ?thesis using string_merge_ok [OF rel t(2) True n(1) malloc] t(1) spec Merge by (auto simp: max_def split: if_splits)
  next
    case al: False
    show ?thesis
    proof (cases "st_max_len s < length cs + length x")
      case True
      then show ?thesis using merge_refused [OF rel t(2) al True n(1)] rel t(1) spec Merge al by auto
    next
      case False
      have m: "arr_get [97, 0] 0 = Some (97 :: u8)" by (simp add: arr_get_def)
      obtain rest where b: "st_buf t = Some (x @ rest)" "st_len t = length x" using t(2) by (auto simp: string_rel_def)
      have "st_len s = length cs" using rel by (auto simp: string_rel_def)
      then show ?thesis using string_copy_ok [OF rel m, of "length x" "x @ rest"] b n False t(1) spec Merge
        by (auto simp: string_merge_def sz_add_def base_of_def Let_def)
    qed
  qed
qed

lemma run_string_Cons:
  assumes "run_string malloc s [op] = Some ([rc], s1)"
  shows "run_string malloc s (op # ops) = map_option (\<lambda>(rcs, s). (rc # rcs, s)) (run_string malloc s1 ops)"
  using assms by (cases "run_string malloc s1 ops") (auto simp: bind_eq_Some_conv split: option.splits)

section \<open>Two irregular cases\<close>

text \<open>A string created without contents is terminated at its capacity, not at its length.\<close>

lemma string_create_unterminated:
  "map_option (\<lambda>s. (st_len s, c_strlen (the (st_buf s)))) (string_create (\<lambda>n. replicate n 170) None 3) = Some (0, Some 3)"
proof -
  have "sz_add 3 1 = Suc (Suc (Suc (Suc 0)))" by (simp add: sz_add_def)
  then show ?thesis by (simp add: string_create_def arr_set_def Let_def)
qed

text \<open>A print that does not fit is refused only after it has overwritten the contents; the length stays.\<close>

lemma string_printf_overwrites:
  "map_option (\<lambda>(rc, s). (rc, st_len s, st_buf s)) (string_printf \<lparr>st_flags = 0, st_buf = Some [97, 98, 0], st_len = 2, st_max_len = 2\<rparr> [99, 0] [120, 121, 122]) =
    Some (-1, 2, Some [120, 0, 0])"
  by (simp add: string_printf_def start_of_def arr_get_def arr_set_def cint_def INT_MIN_def INT_MAX_def vsnprintf_def size_of_int_def sz_sub_def int_of_size_small mem_write_def blit_def)

section \<open>Properties\<close>

lemma strlen_found: "0 \<in> set b \<Longrightarrow> c_strlen b \<noteq> None"
  by (induction b) auto

lemma strlen_terminated: "string_rel s cs \<Longrightarrow> terminated s \<Longrightarrow> c_strlen (the (st_buf s)) = Some (length (takeWhile (\<lambda>c. c \<noteq> 0) cs))"
proof -
  assume "string_rel s cs" "terminated s"
  then obtain rest where b: "st_buf s = Some (cs @ rest)" "rest \<noteq> []" "rest ! 0 = 0" by (auto simp: string_rel_def terminated_def nth_append)
  then obtain rest' where "st_buf s = Some (cs @ 0 # rest')" by (cases rest) auto
  moreover have "c_strlen (cs @ 0 # rest') = Some (length (takeWhile (\<lambda>c. c \<noteq> 0) cs))" by (induction cs) auto
  ultimately show ?thesis by simp
qed



end
