(* ===== verification/Disjoint_Set.thy ===== *)
theory Disjoint_Set
  imports Prelude
begin

text \<open>
  The union-find structure of \<^verbatim>\<open>src/utils/src/disjoint_set.c\<close>: two arrays of 128 ints, path
  compression in \<^verbatim>\<open>find\<close> and union by rank. Array accesses are checked; the two loops of
  \<^verbatim>\<open>find\<close> follow parent links, which on a cyclic array never ends, hence
  \<^theory_text>\<open>partial_function\<close>.
\<close>

definition DISJOINT_SET_MAX :: int where
  "DISJOINT_SET_MAX = 128"

record disjoint_set =
  ds_max_nodes :: int
  ds_rank :: "int list"
  ds_parent :: "int list"

function ds_make_loop :: "int \<Rightarrow> int \<Rightarrow> disjoint_set \<Rightarrow> disjoint_set option" where
  "ds_make_loop i m ds =
     (if i < m then do {
        par \<leftarrow> arr_set (ds_parent ds) i i;
        rnk \<leftarrow> arr_set (ds_rank ds) i 0;
        ds_make_loop (i + 1) m (ds\<lparr>ds_parent := par, ds_rank := rnk\<rparr>)
      }
      else Some ds)"
  by pat_completeness auto
termination
  by (relation "measure (\<lambda>(i, m, ds). nat (m - i))") auto

definition disjoint_set_make :: "disjoint_set \<Rightarrow> int \<Rightarrow> (int \<times> disjoint_set) option" where
  "disjoint_set_make ds max_nodes =
     (if max_nodes \<ge> DISJOINT_SET_MAX then Some (-1, ds)
      else do {
        ds \<leftarrow> ds_make_loop 0 max_nodes (ds\<lparr>ds_max_nodes := max_nodes\<rparr>);
        Some (0, ds)
      })"

partial_function (option) root_loop :: "int list \<Rightarrow> int \<Rightarrow> int option" where
  "root_loop par root =
     Option.bind (arr_get par root) (\<lambda>p. if p \<noteq> root then root_loop par p else Some root)"

partial_function (option) compress_loop :: "int list \<Rightarrow> int \<Rightarrow> int \<Rightarrow> int list option" where
  "compress_loop par a root =
     Option.bind (arr_get par a) (\<lambda>tmp.
       if tmp \<noteq> root then Option.bind (arr_set par a root) (\<lambda>par'. compress_loop par' tmp root)
       else Some par)"

definition disjoint_set_find :: "disjoint_set \<Rightarrow> int \<Rightarrow> (int \<times> disjoint_set) option" where
  "disjoint_set_find ds a = do {
     root \<leftarrow> root_loop (ds_parent ds) a;
     par \<leftarrow> compress_loop (ds_parent ds) a root;
     Some (root, ds\<lparr>ds_parent := par\<rparr>)
   }"

definition disjoint_set_union :: "disjoint_set \<Rightarrow> int \<Rightarrow> int \<Rightarrow> disjoint_set option" where
  "disjoint_set_union ds a b = do {
     (a, ds) \<leftarrow> disjoint_set_find ds a;
     (b, ds) \<leftarrow> disjoint_set_find ds b;
     if a = b then Some ds
     else do {
       ra \<leftarrow> arr_get (ds_rank ds) a;
       rb \<leftarrow> arr_get (ds_rank ds) b;
       let (a, b) = (if ra < rb then (b, a) else (a, b));
       par \<leftarrow> arr_set (ds_parent ds) b a;
       ra \<leftarrow> arr_get (ds_rank ds) a;
       rb \<leftarrow> arr_get (ds_rank ds) b;
       rnk \<leftarrow> (if ra = rb then do { r \<leftarrow> cint (ra + 1); arr_set (ds_rank ds) a r }
               else Some (ds_rank ds));
       Some (ds\<lparr>ds_parent := par, ds_rank := rnk\<rparr>)
     }
   }"

function num_roots_loop :: "int list \<Rightarrow> int \<Rightarrow> int \<Rightarrow> int \<Rightarrow> int option" where
  "num_roots_loop par i m roots =
     (if i < m then do {
        p \<leftarrow> arr_get par i;
        num_roots_loop par (i + 1) m (if p = i then roots + 1 else roots)
      }
      else Some roots)"
  by pat_completeness auto
termination
  by (relation "measure (\<lambda>(par, i, m, roots). nat (m - i))") auto

definition disjoint_set_num_roots :: "disjoint_set \<Rightarrow> int option" where
  "disjoint_set_num_roots ds = num_roots_loop (ds_parent ds) 0 (ds_max_nodes ds) 0"

declare ds_make_loop.simps [simp del] num_roots_loop.simps [simp del]

section \<open>Forests\<close>

text \<open>
  The parent array is a forest on the nodes below \<open>n\<close> whose ranks grow strictly towards the root.
\<close>

definition forest :: "int list \<Rightarrow> int list \<Rightarrow> nat \<Rightarrow> bool" where
  "forest par rnk n \<longleftrightarrow> n \<le> length par \<and> n \<le> length rnk \<and>
     (\<forall>i<n. 0 \<le> par ! i \<and> par ! i < int n \<and> (par ! i \<noteq> int i \<longrightarrow> rnk ! i < rnk ! nat (par ! i)))"

lemma forestD:
  assumes "forest par rnk n" and "i < n"
  shows "i < length par" "i < length rnk" "0 \<le> par ! i" "nat (par ! i) < n"
    and "par ! i \<noteq> int i \<Longrightarrow> rnk ! i < rnk ! nat (par ! i)"
  using assms by (auto simp: forest_def)

lemma forest_induct [consumes 2, case_names root step]:
  assumes f: "forest par rnk n" and i: "i < n"
    and root: "\<And>i. i < n \<Longrightarrow> par ! i = int i \<Longrightarrow> P i"
    and step: "\<And>i. i < n \<Longrightarrow> par ! i \<noteq> int i \<Longrightarrow> P (nat (par ! i)) \<Longrightarrow> P i"
  shows "P i"
  using i
proof (induction "nat (Max (set (take n rnk)) - rnk ! i)" arbitrary: i rule: less_induct)
  case less
  have le: "rnk ! j \<le> Max (set (take n rnk))" if "j < n" for j
    using that f by (intro Max_ge) (auto simp: forest_def in_set_conv_nth intro!: exI [of _ j])
  show ?case
  proof (cases "par ! i = int i")
    case True
    then show ?thesis using root less.prems by blast
  next
    case False
    then have "rnk ! i < rnk ! nat (par ! i)" and n: "nat (par ! i) < n"
      using forestD [OF f less.prems] by auto
    then have "nat (Max (set (take n rnk)) - rnk ! nat (par ! i)) < nat (Max (set (take n rnk)) - rnk ! i)"
      using le [OF n] by linarith
    then show ?thesis using less.hyps n False step less.prems by blast
  qed
qed

lemma root_loop_root: "i < length par \<Longrightarrow> par ! i = int i \<Longrightarrow> root_loop par (int i) = Some (int i)"
  by (subst root_loop.simps) (simp add: arr_get_nat)

lemma root_loop_step:
  "i < length par \<Longrightarrow> par ! i \<noteq> int i \<Longrightarrow> root_loop par (int i) = root_loop par (par ! i)"
  by (subst root_loop.simps) (simp add: arr_get_nat)

lemma root_loop_ok:
  assumes f: "forest par rnk n" and "i < n"
  shows "\<exists>r<n. root_loop par (int i) = Some (int r) \<and> par ! r = int r \<and>
           (r \<noteq> i \<longrightarrow> rnk ! i < rnk ! r)"
  using assms
proof (induction rule: forest_induct)
  case (root i)
  then show ?case using root_loop_root forestD [OF f] by blast
next
  case (step i)
  then show ?case
    using root_loop_step [of i par] forestD [OF f step(1)] by fastforce
qed

text \<open>\<open>rep par i\<close>: the representative of node \<open>i\<close>.\<close>

definition rep_of :: "int list \<Rightarrow> nat \<Rightarrow> nat" where
  "rep_of par i = nat (the (root_loop par (int i)))"

lemma rep_of:
  assumes "forest par rnk n" and "i < n"
  shows "root_loop par (int i) = Some (int (rep_of par i))" "rep_of par i < n"
    "par ! rep_of par i = int (rep_of par i)"
    "rep_of par i \<noteq> i \<Longrightarrow> rnk ! i < rnk ! rep_of par i"
  using root_loop_ok [OF assms] by (auto simp: rep_of_def)

lemma rep_of_root: "i < length par \<Longrightarrow> par ! i = int i \<Longrightarrow> rep_of par i = i"
  by (simp add: rep_of_def root_loop_root)

lemma rep_of_step:
  assumes "forest par rnk n" and "i < n"
  shows "rep_of par (nat (par ! i)) = rep_of par i"
  using root_loop_step [of i par] forestD [OF assms] by (cases "par ! i = int i") (auto simp: rep_of_def)

text \<open>Redirecting a node that is not a root to its root keeps the forest and all representatives.\<close>

lemma compress_forest:
  assumes f: "forest par rnk n" and a: "a < n" and r: "rep_of par a \<noteq> a"
  defines "par' \<equiv> par[a := int (rep_of par a)]"
  shows "forest par' rnk n" and "i < n \<Longrightarrow> rep_of par' i = rep_of par i"
proof -
  note fa = rep_of [OF f a] forestD [OF f a]
  show f': "forest par' rnk n"
    using f fa(2,4,5) r by (auto simp: forest_def par'_def nth_list_update)
  have root': "par' ! rep_of par a = int (rep_of par a)"
    using fa r by (simp add: par'_def)
  have stay: "i \<noteq> a \<Longrightarrow> par' ! i = par ! i" for i
    by (simp add: par'_def)
  have "rep_of par' i = rep_of par i" if "i < n" for i
    using f that
  proof (induction rule: forest_induct)
    case (root i)
    then have "i \<noteq> a" using r rep_of_root forestD(1) [OF f a] by auto
    then show ?case
      using root stay rep_of_root forestD(1) [OF f root(1)] forestD(1) [OF f' root(1)] by simp
  next
    case (step i)
    show ?case
    proof (cases "i = a")
      case True
      then have "rep_of par' i = rep_of par' (rep_of par a)"
        using rep_of_step [OF f' a] fa by (simp add: par'_def)
      then show ?thesis
        using True rep_of_root [OF forestD(1) [OF f' fa(2)] root'] by simp
    next
      case False
      then show ?thesis
        using step rep_of_step [OF f step(1)] rep_of_step [OF f' step(1)] stay by simp
    qed
  qed
  then show "i < n \<Longrightarrow> rep_of par' i = rep_of par i" .
qed

lemma compress_loop_ok:
  assumes "forest par rnk n" and "a < n"
  shows "\<exists>par'. compress_loop par (int a) (int (rep_of par a)) = Some par' \<and> forest par' rnk n \<and>
           length par' = length par \<and> (\<forall>i<n. rep_of par' i = rep_of par i)"
  using assms
proof (induction "nat (Max (set (take n rnk)) - rnk ! a)" arbitrary: a par rule: less_induct)
  case less
  note f = less.prems(1) and a = less.prems(2)
  note fa = forestD [OF f a]
  show ?case
  proof (cases "par ! a = int (rep_of par a)")
    case True
    then show ?thesis
      using f fa by (subst compress_loop.simps) (auto simp: arr_get_nat)
  next
    case False
    have r: "rep_of par a \<noteq> a"
      using False rep_of(3) [OF f a] by metis
    define par' where "par' = par[a := int (rep_of par a)]"
    define b where "b = nat (par ! a)"
    have nz: "par ! a \<noteq> int a"
      using r rep_of_root [OF fa(1)] by blast
    have b: "b < n" "int b = par ! a" "rnk ! a < rnk ! b"
      using fa(3,4) fa(5) [OF nz] by (auto simp: b_def)
    have f': "forest par' rnk n" and same: "\<And>i. i < n \<Longrightarrow> rep_of par' i = rep_of par i"
      using compress_forest [OF f a r] by (auto simp: par'_def)
    have le: "rnk ! b \<le> Max (set (take n rnk))"
      using b(1) f by (intro Max_ge) (auto simp: forest_def in_set_conv_nth intro!: exI [of _ b])
    have rb: "rep_of par' b = rep_of par a"
      using same [OF b(1)] rep_of_step [OF f a] by (simp add: b_def)
    have "nat (Max (set (take n rnk)) - rnk ! b) < nat (Max (set (take n rnk)) - rnk ! a)"
      using le b(3) by linarith
    from less.hyps [OF this f' b(1)] show ?thesis
      using rb same False fa(1) b(2)
      by (subst compress_loop.simps) (auto simp: arr_get_nat arr_set_nat par'_def)
  qed
qed

section \<open>The set data structure\<close>

definition ds_class :: "disjoint_set \<Rightarrow> nat \<Rightarrow> nat \<Rightarrow> nat set" where
  "ds_class ds n r = {i. i < n \<and> rep_of (ds_parent ds) i = r}"

text \<open>
  The invariant: a forest below \<open>n\<close> nodes in which a root of rank \<open>k\<close> has at least \<open>2 ^ k\<close> nodes.
\<close>

definition ds_ok :: "disjoint_set \<Rightarrow> nat \<Rightarrow> bool" where
  "ds_ok ds n \<longleftrightarrow> ds_max_nodes ds = int n \<and> n < 128 \<and> length (ds_parent ds) = 128 \<and>
     length (ds_rank ds) = 128 \<and> forest (ds_parent ds) (ds_rank ds) n \<and>
     (\<forall>r<n. ds_parent ds ! r = int r \<longrightarrow>
        0 \<le> ds_rank ds ! r \<and> 2 ^ nat (ds_rank ds ! r) \<le> card (ds_class ds n r))"

definition same_set :: "disjoint_set \<Rightarrow> nat \<Rightarrow> nat \<Rightarrow> bool" where
  "same_set ds a b \<longleftrightarrow> rep_of (ds_parent ds) a = rep_of (ds_parent ds) b"

lemma ds_okD:
  assumes "ds_ok ds n"
  shows "forest (ds_parent ds) (ds_rank ds) n" "n < 128" "ds_max_nodes ds = int n"
    "length (ds_parent ds) = 128" "length (ds_rank ds) = 128"
  using assms by (auto simp: ds_ok_def)

lemma rep_of_idem:
  assumes "forest par rnk n" and "i < n"
  shows "rep_of par (rep_of par i) = rep_of par i"
  using rep_of [OF assms] forestD(1) [OF assms(1)] by (intro rep_of_root) auto

lemma root_iff:
  assumes "forest par rnk n" and "r < n"
  shows "par ! r = int r \<longleftrightarrow> rep_of par r = r"
  using rep_of(3) [OF assms] rep_of_root forestD(1) [OF assms] by metis

lemma find_ok:
  assumes ok: "ds_ok ds n" and a: "a < n"
  shows "\<exists>ds'. disjoint_set_find ds (int a) = Some (int (rep_of (ds_parent ds) a), ds') \<and> ds_ok ds' n \<and>
           ds_rank ds' = ds_rank ds \<and> (\<forall>i<n. rep_of (ds_parent ds') i = rep_of (ds_parent ds) i)"
proof -
  note f = ds_okD(1) [OF ok]
  obtain par' where p: "compress_loop (ds_parent ds) (int a) (int (rep_of (ds_parent ds) a)) = Some par'"
      and f': "forest par' (ds_rank ds) n" and len: "length par' = length (ds_parent ds)"
      and same: "\<And>i. i < n \<Longrightarrow> rep_of par' i = rep_of (ds_parent ds) i"
    using compress_loop_ok [OF f a] by blast
  define ds' where "ds' = ds\<lparr>ds_parent := par'\<rparr>"
  have cls: "ds_class ds' n r = ds_class ds n r" for r
    using same by (auto simp: ds_class_def ds'_def)
  have "par' ! r = int r \<longleftrightarrow> ds_parent ds ! r = int r" if "r < n" for r
    using root_iff [OF f that] root_iff [OF f' that] same [OF that] by simp
  then have "ds_ok ds' n"
    using ok f' len cls by (auto simp: ds_ok_def ds'_def)
  moreover have "disjoint_set_find ds (int a) = Some (int (rep_of (ds_parent ds) a), ds')"
    using rep_of(1) [OF f a] p by (simp add: disjoint_set_find_def ds'_def)
  ultimately show ?thesis
    using same by (auto simp: ds'_def)
qed

text \<open>Linking the root \<open>b\<close> below the root \<open>a\<close>.\<close>

lemma link_forest:
  assumes f: "forest par rnk n" and a: "a < n" "par ! a = int a" and b: "b < n" "par ! b = int b"
    and "a \<noteq> b" and rnk': "length rnk' = length rnk" "rnk' ! b < rnk' ! a" "rnk ! a \<le> rnk' ! a"
    and others: "\<And>i. i \<noteq> a \<Longrightarrow> rnk' ! i = rnk ! i"
  defines "par' \<equiv> par[b := int a]"
  shows "forest par' rnk' n" and "i < n \<Longrightarrow> rep_of par' i = (if rep_of par i = b then a else rep_of par i)"
proof -
  have bl: "b < length par" "a < length par" using forestD(1) [OF f] a b by auto
  have mono: "rnk ! i \<le> rnk' ! i" for i using rnk'(3) others by (cases "i = a") auto
  show f': "forest par' rnk' n"
    unfolding forest_def
  proof (intro conjI allI impI)
    show "n \<le> length par'" "n \<le> length rnk'" using f rnk' by (auto simp: forest_def par'_def)
    fix i assume i: "i < n"
    show "0 \<le> par' ! i" "par' ! i < int n"
      using forestD [OF f i] a bl by (cases "i = b"; simp add: par'_def)+
    assume ne: "par' ! i \<noteq> int i"
    show "rnk' ! i < rnk' ! nat (par' ! i)"
    proof (cases "i = b")
      case True then show ?thesis using rnk' bl by (simp add: par'_def)
    next
      case False
      then have "rnk ! i < rnk ! nat (par ! i)" and "i \<noteq> a"
        using forestD(5) [OF f i] ne a by (auto simp: par'_def)
      then show ?thesis using False mono others [of i] by (fastforce simp: par'_def intro: less_le_trans)
    qed
  qed
  have a': "par' ! a = int a" using a assms(6) by (simp add: par'_def)
  have ra: "rep_of par' a = a" using a' forestD(1) [OF f' a(1)] by (simp add: rep_of_root)
  have "rep_of par' i = (if rep_of par i = b then a else rep_of par i)" if "i < n" for i
    using f that
  proof (induction rule: forest_induct)
    case (root i)
    have ri: "rep_of par i = i" using root forestD(1) [OF f root(1)] by (simp add: rep_of_root)
    show ?case
    proof (cases "i = b")
      case True
      then show ?thesis using rep_of_step [OF f' b(1)] ra ri bl by (simp add: par'_def)
    next
      case False
      then show ?thesis
        using root ri forestD(1) [OF f' root(1)] rep_of_root [of i par'] by (simp add: par'_def)
    qed
  next
    case (step i)
    then have "i \<noteq> b" using b by auto
    then show ?case
      using step rep_of_step [OF f step(1)] rep_of_step [OF f' step(1)]
      by (auto simp: par'_def split: if_splits)
  qed
  then show "i < n \<Longrightarrow> rep_of par' i = (if rep_of par i = b then a else rep_of par i)" .
qed

lemma rank_bound:
  assumes ok: "ds_ok ds n" and "i < n"
  shows "ds_rank ds ! i \<le> 6"
proof -
  note f = ds_okD(1) [OF ok]
  let ?r = "rep_of (ds_parent ds) i"
  have r: "?r < n" "ds_parent ds ! ?r = int ?r" using rep_of [OF f assms(2)] by auto
  have "card (ds_class ds n ?r) \<le> card {..<n}"
    by (intro card_mono) (auto simp: ds_class_def)
  then have "(2::nat) ^ nat (ds_rank ds ! ?r) < 2 ^ 7"
    using ok r ds_okD(2) [OF ok] by (fastforce simp: ds_ok_def)
  then have "nat (ds_rank ds ! ?r) < 7"
    by (rule power_less_imp_less_exp [rotated]) simp
  moreover have "ds_rank ds ! i \<le> ds_rank ds ! ?r"
    using rep_of(4) [OF f assms(2)] by fastforce
  ultimately show ?thesis by linarith
qed

lemma ds_link:
  assumes ok: "ds_ok ds n" and x: "x < n" "ds_parent ds ! x = int x"
    and y: "y < n" "ds_parent ds ! y = int y" and xy: "x \<noteq> y"
    and le: "ds_rank ds ! y \<le> ds_rank ds ! x"
  defines "ds' \<equiv> ds\<lparr>ds_parent := (ds_parent ds)[y := int x],
      ds_rank := if ds_rank ds ! x = ds_rank ds ! y then (ds_rank ds)[x := ds_rank ds ! x + 1] else ds_rank ds\<rparr>"
  shows "ds_ok ds' n"
    and "i < n \<Longrightarrow> rep_of (ds_parent ds') i = (if rep_of (ds_parent ds) i = y then x else rep_of (ds_parent ds) i)"
proof -
  note f = ds_okD(1) [OF ok]
  have xl: "x < length (ds_rank ds)" using x ds_okD [OF ok] by simp
  have lk: "forest (ds_parent ds') (ds_rank ds') n"
    "\<And>i. i < n \<Longrightarrow> rep_of (ds_parent ds') i = (if rep_of (ds_parent ds) i = y then x else rep_of (ds_parent ds) i)"
    using link_forest [OF f x y xy, of "ds_rank ds'"] xl xy le by (auto simp: ds'_def)
  then show "i < n \<Longrightarrow> rep_of (ds_parent ds') i = (if rep_of (ds_parent ds) i = y then x else rep_of (ds_parent ds) i)"
    by blast
  have yx: "rep_of (ds_parent ds) x = x" "rep_of (ds_parent ds) y = y"
    using root_iff [OF f] x y by auto
  have cx: "ds_class ds' n x = ds_class ds n x \<union> ds_class ds n y"
    using lk(2) xy by (auto simp: ds_class_def split: if_splits)
  have card_x: "card (ds_class ds' n x) = card (ds_class ds n x) + card (ds_class ds n y)"
    unfolding cx by (rule card_Un_disjoint) (use xy in \<open>auto simp: ds_class_def\<close>)
  have cr: "ds_class ds' n r = ds_class ds n r" if "r \<noteq> x" "r \<noteq> y" for r
    using lk(2) that by (auto simp: ds_class_def split: if_splits)
  have sz: "0 \<le> ds_rank ds ! r" "2 ^ nat (ds_rank ds ! r) \<le> card (ds_class ds n r)"
    if "r < n" "ds_parent ds ! r = int r" for r
    using ok that by (auto simp: ds_ok_def)
  have "0 \<le> ds_rank ds' ! r \<and> 2 ^ nat (ds_rank ds' ! r) \<le> card (ds_class ds' n r)"
    if r: "r < n" "ds_parent ds' ! r = int r" for r
  proof (cases "r = x")
    case True
    have "2 ^ nat (ds_rank ds ! x) \<le> card (ds_class ds n x)" "2 ^ nat (ds_rank ds ! y) \<le> card (ds_class ds n y)"
      using sz x y by blast+
    then show ?thesis
      using True card_x sz(1) [OF x] xl by (auto simp: ds'_def nat_add_distrib)
  next
    case False
    have "r \<noteq> y" using r xy y ds_okD [OF ok] by (auto simp: ds'_def)
    then show ?thesis
      using False r sz [of r] cr by (auto simp: ds'_def)
  qed
  then show "ds_ok ds' n"
    using ok lk(1) by (auto simp: ds_ok_def ds'_def)
qed

lemma union_ok:
  assumes ok: "ds_ok ds n" and a: "a < n" and b: "b < n"
  defines "r \<equiv> rep_of (ds_parent ds)"
  shows "\<exists>ds' x y. disjoint_set_union ds (int a) (int b) = Some ds' \<and> ds_ok ds' n \<and>
           {x, y} = {r a, r b} \<and> (\<forall>i<n. rep_of (ds_parent ds') i = (if r i = y then x else r i))"
proof -
  obtain d1 where d1: "disjoint_set_find ds (int a) = Some (int (r a), d1)" "ds_ok d1 n"
      and s1: "\<And>i. i < n \<Longrightarrow> rep_of (ds_parent d1) i = r i"
    using find_ok [OF ok a] by (auto simp: r_def)
  obtain d2 where d2: "disjoint_set_find d1 (int b) = Some (int (r b), d2)" "ds_ok d2 n"
      and s2: "\<And>i. i < n \<Longrightarrow> rep_of (ds_parent d2) i = r i"
    using find_ok [OF d1(2) b] s1 b by auto
  note f2 = ds_okD(1) [OF d2(2)]
  have roots: "r a < n" "r b < n" "ds_parent d2 ! r a = int (r a)" "ds_parent d2 ! r b = int (r b)"
    using rep_of [OF f2 a] rep_of [OF f2 b] s2 a b by auto
  show ?thesis
  proof (cases "r a = r b")
    case True
    have "disjoint_set_union ds (int a) (int b) = Some d2"
      using d1 d2 True by (simp add: disjoint_set_union_def)
    then show ?thesis using d2 s2 True by (intro exI [of _ d2] exI [of _ "r a"]) auto
  next
    case False
    define x where "x = (if ds_rank d2 ! r a < ds_rank d2 ! r b then r b else r a)"
    define y where "y = (if ds_rank d2 ! r a < ds_rank d2 ! r b then r a else r b)"
    have xy: "x < n" "y < n" "ds_parent d2 ! x = int x" "ds_parent d2 ! y = int y" "x \<noteq> y"
        "ds_rank d2 ! y \<le> ds_rank d2 ! x" "{x, y} = {r a, r b}"
      using roots False by (auto simp: x_def y_def)
    have lens: "length (ds_parent d2) = 128" "length (ds_rank d2) = 128" "n < 128"
      using ds_okD [OF d2(2)] by auto
    have rb: "- 1 < ds_rank d2 ! x" "ds_rank d2 ! x \<le> 6"
      using d2(2) xy rank_bound [OF d2(2), of x] by (auto simp: ds_ok_def)
    define ds' where "ds' = d2\<lparr>ds_parent := (ds_parent d2)[y := int x],
      ds_rank := if ds_rank d2 ! x = ds_rank d2 ! y then (ds_rank d2)[x := ds_rank d2 ! x + 1] else ds_rank d2\<rparr>"
    have "disjoint_set_union ds (int a) (int b) = Some ds'"
      using d1 d2 False roots xy lens rb
      by (auto simp: disjoint_set_union_def arr_get_nat arr_set_nat cint_nonneg INT_MAX_def
          ds'_def x_def y_def)
    moreover have "ds_ok ds' n"
      "\<And>i. i < n \<Longrightarrow> rep_of (ds_parent ds') i = (if r i = y then x else r i)"
      using ds_link [OF d2(2) xy(1,3,2,4-6)] s2 by (auto simp: ds'_def)
    ultimately show ?thesis using xy(7) by blast
  qed
qed

section \<open>Counting and construction\<close>

lemma num_roots_loop_ok:
  "i \<le> m \<Longrightarrow> m \<le> length par \<Longrightarrow>
   num_roots_loop par (int i) (int m) c = Some (c + int (card {r. i \<le> r \<and> r < m \<and> par ! r = int r}))"
proof (induction "m - i" arbitrary: i c)
  case 0
  then show ?case by (subst num_roots_loop.simps) auto
next
  case (Suc k)
  have "{r. i \<le> r \<and> r < m \<and> par ! r = int r} =
      (if par ! i = int i then {i} else {}) \<union> {r. Suc i \<le> r \<and> r < m \<and> par ! r = int r}"
    using Suc by (auto simp: le_Suc_eq Suc_le_eq le_less)
  then have "card {r. i \<le> r \<and> r < m \<and> par ! r = int r} =
      (if par ! i = int i then 1 else 0) + card {r. Suc i \<le> r \<and> r < m \<and> par ! r = int r}"
    by (simp add: card_Un_disjoint)
  moreover have "i < m" "k = m - Suc i" "int (Suc i) = int i + 1" using Suc.hyps(2) by auto
  ultimately show ?case
    using Suc.hyps(1) [of "Suc i"] Suc.prems
    by (subst num_roots_loop.simps) (auto simp: arr_get_nat add.commute [of "int i" 1])
qed

lemma num_roots_classes:
  assumes ok: "ds_ok ds n"
  shows "disjoint_set_num_roots ds = Some (int (card (rep_of (ds_parent ds) ` {..<n})))"
proof -
  note f = ds_okD(1) [OF ok]
  have "{r. 0 \<le> r \<and> r < n \<and> ds_parent ds ! r = int r} = rep_of (ds_parent ds) ` {..<n}"
    using rep_of [OF f] root_iff [OF f] by (force simp: image_iff)
  then show ?thesis
    using num_roots_loop_ok [of 0 n "ds_parent ds" 0] ds_okD [OF ok]
    by (simp add: disjoint_set_num_roots_def)
qed

lemma make_loop_ok:
  "i \<le> m \<Longrightarrow> m \<le> length (ds_parent d) \<Longrightarrow> m \<le> length (ds_rank d) \<Longrightarrow>
   \<exists>d'. ds_make_loop (int i) (int m) d = Some d' \<and> ds_max_nodes d' = ds_max_nodes d \<and>
     length (ds_parent d') = length (ds_parent d) \<and> length (ds_rank d') = length (ds_rank d) \<and>
     (\<forall>j. (i \<le> j \<and> j < m \<longrightarrow> ds_parent d' ! j = int j \<and> ds_rank d' ! j = 0) \<and>
          (j < i \<longrightarrow> ds_parent d' ! j = ds_parent d ! j \<and> ds_rank d' ! j = ds_rank d ! j))"
proof (induction "m - i" arbitrary: i d)
  case 0
  then show ?case by (subst ds_make_loop.simps) auto
next
  case (Suc k)
  let ?d = "d\<lparr>ds_parent := (ds_parent d)[i := int i], ds_rank := (ds_rank d)[i := 0]\<rparr>"
  have "i < m" using Suc.hyps(2) by simp
  then have eq: "ds_make_loop (int i) (int m) d = ds_make_loop (int (Suc i)) (int m) ?d"
    using Suc.prems by (subst ds_make_loop.simps) (simp add: arr_set_nat add.commute)
  have hyp: "k = m - Suc i" "Suc i \<le> m" using Suc by auto
  obtain d' where d': "ds_make_loop (int (Suc i)) (int m) ?d = Some d'" "ds_max_nodes d' = ds_max_nodes d"
      "length (ds_parent d') = length (ds_parent d)" "length (ds_rank d') = length (ds_rank d)"
      and hi: "\<And>j. Suc i \<le> j \<and> j < m \<Longrightarrow> ds_parent d' ! j = int j \<and> ds_rank d' ! j = 0"
      and lo: "\<And>j. j < Suc i \<Longrightarrow> ds_parent d' ! j = (ds_parent d)[i := int i] ! j \<and>
                 ds_rank d' ! j = (ds_rank d)[i := 0] ! j"
    using Suc.hyps(1) [OF hyp, of ?d] Suc.prems by auto
  have "(i \<le> j \<and> j < m \<longrightarrow> ds_parent d' ! j = int j \<and> ds_rank d' ! j = 0) \<and>
        (j < i \<longrightarrow> ds_parent d' ! j = ds_parent d ! j \<and> ds_rank d' ! j = ds_rank d ! j)" for j
    using hi [of j] lo [of j] \<open>i < m\<close> Suc.prems by (cases "j = i") auto
  then show ?case using d' eq by auto
qed

lemma make_ok:
  assumes "n < 128" and "length (ds_parent d) = 128" and "length (ds_rank d) = 128"
  shows "\<exists>d'. disjoint_set_make d (int n) = Some (0, d') \<and> ds_ok d' n \<and>
           (\<forall>i<n. rep_of (ds_parent d') i = i)"
proof -
  obtain d' where d': "ds_make_loop 0 (int n) (d\<lparr>ds_max_nodes := int n\<rparr>) = Some d'"
      "ds_max_nodes d' = int n" "length (ds_parent d') = 128" "length (ds_rank d') = 128"
      and id: "\<And>j. j < n \<Longrightarrow> ds_parent d' ! j = int j \<and> ds_rank d' ! j = 0"
    using make_loop_ok [of 0 n "d\<lparr>ds_max_nodes := int n\<rparr>"] assms by auto
  have rep: "rep_of (ds_parent d') i = i" if "i < n" for i
    using id [OF that] that assms d' by (intro rep_of_root) auto
  then have "ds_class d' n r = {r}" if "r < n" for r
    using that by (auto simp: ds_class_def)
  then have "ds_ok d' n"
    using id d' assms by (auto simp: ds_ok_def forest_def)
  then show ?thesis
    using d' assms rep by (auto simp: disjoint_set_make_def DISJOINT_SET_MAX_def)
qed

section \<open>Properties\<close>

fun unions :: "disjoint_set \<Rightarrow> (nat \<times> nat) list \<Rightarrow> disjoint_set option" where
  \<comment> \<open>a client that merges the given pairs in order\<close>
  "unions ds [] = Some ds"
| "unions ds ((a, b) # ps) = Option.bind (disjoint_set_union ds (int a) (int b)) (\<lambda>ds. unions ds ps)"

definition linked_by :: "(nat \<times> nat) list \<Rightarrow> nat \<Rightarrow> nat \<Rightarrow> bool" where
  "linked_by ps a b \<longleftrightarrow> (a, b) \<in> (set ps \<union> (set ps)\<inverse>)\<^sup>*"

lemma union_same_set:
  assumes "ds_ok ds n" and "a < n" and "b < n"
  shows "\<exists>ds'. disjoint_set_union ds (int a) (int b) = Some ds' \<and> ds_ok ds' n \<and>
    (\<forall>i<n. \<forall>j<n. same_set ds' i j \<longleftrightarrow> same_set ds i j \<or>
       same_set ds i a \<and> same_set ds b j \<or> same_set ds i b \<and> same_set ds a j)"
proof -
  let ?r = "rep_of (ds_parent ds)"
  obtain ds' x y where ds': "disjoint_set_union ds (int a) (int b) = Some ds'" "ds_ok ds' n"
      and xy: "{x, y} = {?r a, ?r b}"
      and rep: "\<forall>i<n. rep_of (ds_parent ds') i = (if ?r i = y then x else ?r i)"
    using union_ok [OF assms] by blast
  have "x = ?r a \<and> y = ?r b \<or> x = ?r b \<and> y = ?r a" using xy by (auto simp: doubleton_eq_iff)
  then show ?thesis using ds' rep unfolding same_set_def by (intro exI [of _ ds']) auto
qed

lemma linked_by_Cons:
  "linked_by ((a, b) # ps) i j \<longleftrightarrow> linked_by ps i j \<or>
     linked_by ps i a \<and> linked_by ps b j \<or> linked_by ps i b \<and> linked_by ps a j"
proof -
  let ?R = "set ps \<union> (set ps)\<inverse>"
  let ?S = "insert (a, b) (insert (b, a) ?R)"
  have eq: "set ((a, b) # ps) \<union> (set ((a, b) # ps))\<inverse> = ?S" by auto
  have sym: "(u, v) \<in> ?R\<^sup>* \<Longrightarrow> (v, u) \<in> ?R\<^sup>*" for u v
    using sym_rtrancl [of ?R] by (auto simp: sym_def)
  show ?thesis
    unfolding linked_by_def eq rtrancl_insert
    using sym by (blast intro: rtrancl_trans)
qed

lemma card_image_quotient:
  "card (f ` A) = card (A // {(i, j). i \<in> A \<and> j \<in> A \<and> f i = f j})" (is "_ = card (A // ?E)")
proof -
  have cls: "?E `` {i} = {j \<in> A. f j = f i}" if "i \<in> A" for i using that by auto
  have "A // ?E = (\<Union>i\<in>A. {{j \<in> A. f j = f i}})"
    unfolding quotient_def using cls by (intro SUP_cong) simp_all
  then have "A // ?E = (\<lambda>r. {j \<in> A. f j = r}) ` f ` A"
    by (simp add: UNION_singleton_eq_range image_image)
  moreover have "inj_on (\<lambda>r. {j \<in> A. f j = r}) (f ` A)" by (rule inj_onI) auto
  ultimately show ?thesis by (simp add: card_image)
qed

lemma unions_ok:
  "ds_ok ds n \<Longrightarrow> (\<forall>i<n. \<forall>j<n. same_set ds i j \<longleftrightarrow> linked_by qs i j) \<Longrightarrow>
   list_all (\<lambda>(a, b). a < n \<and> b < n) ps \<Longrightarrow>
   \<exists>ds'. unions ds ps = Some ds' \<and> ds_ok ds' n \<and>
     (\<forall>i<n. \<forall>j<n. same_set ds' i j \<longleftrightarrow> linked_by (rev ps @ qs) i j)"
proof (induction ps arbitrary: ds qs)
  case Nil
  then show ?case by simp
next
  case (Cons p ps)
  obtain a b where p: "p = (a, b)" by fastforce
  then have ab: "a < n" "b < n" and ps: "list_all (\<lambda>(a, b). a < n \<and> b < n) ps" using Cons.prems(3) by auto
  obtain ds1 where ds1: "disjoint_set_union ds (int a) (int b) = Some ds1" "ds_ok ds1 n"
      "\<forall>i<n. \<forall>j<n. same_set ds1 i j \<longleftrightarrow> same_set ds i j \<or>
         same_set ds i a \<and> same_set ds b j \<or> same_set ds i b \<and> same_set ds a j"
    using union_same_set [OF Cons.prems(1) ab] by blast
  have "\<forall>i<n. \<forall>j<n. same_set ds1 i j \<longleftrightarrow> linked_by (p # qs) i j"
    using ds1(3) Cons.prems(2) ab by (simp add: p linked_by_Cons)
  from Cons.IH [OF ds1(2) this ps] show ?case using ds1(1) p by simp
qed

text \<open>
  C31: the disjoint set computes connectivity: after \<open>disjoint_set_make\<close> on \<open>n < 128\<close> nodes and any
  sequence of unions of nodes below \<open>n\<close>, which all end without leaving the arrays, two nodes have the
  same representative exactly when the merged pairs connect them, and \<open>disjoint_set_num_roots\<close> is
  the number of connected components.
\<close>

theorem disjoint_set_connectivity:
  assumes "n < 128" and "length (ds_parent d) = 128" and "length (ds_rank d) = 128"
    and "list_all (\<lambda>(a, b). a < n \<and> b < n) ps"
  shows "\<exists>ds0 ds. disjoint_set_make d (int n) = Some (0, ds0) \<and> unions ds0 ps = Some ds \<and> ds_ok ds n \<and>
    (\<forall>a<n. \<forall>b<n. same_set ds a b \<longleftrightarrow> linked_by ps a b) \<and>
    disjoint_set_num_roots ds =
      Some (int (card ({..<n} // {(a, b). a < n \<and> b < n \<and> linked_by ps a b})))"
proof -
  obtain ds0 where ds0: "disjoint_set_make d (int n) = Some (0, ds0)" "ds_ok ds0 n"
      "\<forall>i<n. rep_of (ds_parent ds0) i = i"
    using make_ok [OF assms(1-3)] by blast
  then have "\<forall>i<n. \<forall>j<n. same_set ds0 i j \<longleftrightarrow> linked_by [] i j" by (simp add: same_set_def linked_by_def)
  then obtain ds where ds: "unions ds0 ps = Some ds" "ds_ok ds n"
      "\<forall>i<n. \<forall>j<n. same_set ds i j \<longleftrightarrow> linked_by (rev ps @ []) i j"
    using unions_ok [OF ds0(2) _ assms(4)] by blast
  have conn: "\<forall>a<n. \<forall>b<n. same_set ds a b \<longleftrightarrow> linked_by ps a b" using ds(3) by (simp add: linked_by_def)
  have "{(i, j). i \<in> {..<n} \<and> j \<in> {..<n} \<and> rep_of (ds_parent ds) i = rep_of (ds_parent ds) j} =
      {(a, b). a < n \<and> b < n \<and> linked_by ps a b}"
    using conn by (auto simp: same_set_def)
  then have "disjoint_set_num_roots ds =
      Some (int (card ({..<n} // {(a, b). a < n \<and> b < n \<and> linked_by ps a b})))"
    using num_roots_classes [OF ds(2)] card_image_quotient [of "rep_of (ds_parent ds)" "{..<n}"] by simp
  then show ?thesis using ds0(1) ds(1,2) conn by blast
qed

theorem disjoint_set_connectivity_witness:
  "\<exists>ds0 ds. disjoint_set_make \<lparr>ds_max_nodes = 0, ds_rank = replicate 128 7, ds_parent = replicate 128 9\<rparr> 3 =
       Some (0, ds0) \<and> unions ds0 [(0, 2)] = Some ds \<and> same_set ds 2 0 \<and> ds_ok ds 3"
proof -
  have "linked_by [(0, 2)] 2 0" by (auto simp: linked_by_def)
  then show ?thesis
    using disjoint_set_connectivity [of 3
        "\<lparr>ds_max_nodes = 0, ds_rank = replicate 128 7, ds_parent = replicate 128 9\<rparr>" "[(0, 2)]"] by auto
qed

text \<open>
  C38: \<open>disjoint_set_find\<close> ends on every node, returns the representative of its class, which is a
  node below \<open>n\<close> and its own representative, and the path compression it performs changes no
  representative; ranks, which bound the path lengths, never exceed 6.
\<close>

theorem disjoint_set_find_spec:
  assumes "ds_ok ds n" and "a < n"
  shows "\<exists>r ds'. disjoint_set_find ds (int a) = Some (int r, ds') \<and> r < n \<and> same_set ds r a \<and>
    ds_parent ds ! r = int r \<and> ds_ok ds' n \<and> (\<forall>i<n. \<forall>j<n. same_set ds' i j \<longleftrightarrow> same_set ds i j) \<and>
    0 \<le> ds_rank ds ! r \<and> (\<forall>i<n. ds_rank ds' ! i \<le> 6)"
proof -
  let ?r = "rep_of (ds_parent ds) a"
  obtain ds' where ds': "disjoint_set_find ds (int a) = Some (int ?r, ds')" "ds_ok ds' n"
      "\<forall>i<n. rep_of (ds_parent ds') i = rep_of (ds_parent ds) i"
    using find_ok [OF assms] by blast
  note f = ds_okD(1) [OF assms(1)]
  have r: "?r < n" "ds_parent ds ! ?r = int ?r" using rep_of [OF f assms(2)] by auto
  moreover have "same_set ds ?r a" using rep_of_idem [OF f assms(2)] by (simp add: same_set_def)
  moreover have "0 \<le> ds_rank ds ! ?r" using assms(1) r by (simp add: ds_ok_def)
  ultimately show ?thesis using ds' rank_bound [OF ds'(2)] by (auto simp: same_set_def)
qed

theorem disjoint_set_find_spec_witness:
  "\<exists>ds r ds'. ds_ok ds 2 \<and> disjoint_set_find ds 1 = Some (int r, ds') \<and> r < 2 \<and> same_set ds r 1"
proof -
  obtain ds where "ds_ok ds 2"
    using make_ok [of 2 "\<lparr>ds_max_nodes = 0, ds_rank = replicate 128 0, ds_parent = replicate 128 0\<rparr>"] by auto
  then show ?thesis using disjoint_set_find_spec [of ds 2 1] by auto
qed

end
