(* ===== verification/Bitops.thy ===== *)
theory Bitops
  imports Prelude
begin

text \<open>
  The bit tricks of \<^verbatim>\<open>src/utils/src/utils.c\<close> and \<^verbatim>\<open>src/utils/include/utils/utils.h\<close>, and the byte-order
  macros of \<^verbatim>\<open>src/utils/include/utils/byteorder.h\<close>, on machine words.
\<close>

definition round_up_pow2 :: "u32 \<Rightarrow> u32" where
  "round_up_pow2 v =
     (let v = v - 1;
          v = v OR drop_bit 1 v;
          v = v OR drop_bit 2 v;
          v = v OR drop_bit 4 v;
          v = v OR drop_bit 8 v;
          v = v OR drop_bit 16 v
      in v + 1)"

definition u8_bit_reverse :: "u8 \<Rightarrow> u8" where
  "u8_bit_reverse b =
     (let b = drop_bit 1 (b AND 0xaa) OR push_bit 1 (b AND 0x55);
          b = drop_bit 2 (b AND 0xcc) OR push_bit 2 (b AND 0x33)
      in drop_bit 4 b OR push_bit 4 b)"

definition u16_bit_reverse :: "u16 \<Rightarrow> u16" where
  "u16_bit_reverse x =
     (let x = drop_bit 1 (x AND 0xaaaa) OR push_bit 1 (x AND 0x5555);
          x = drop_bit 2 (x AND 0xcccc) OR push_bit 2 (x AND 0x3333);
          x = drop_bit 4 (x AND 0xf0f0) OR push_bit 4 (x AND 0x0f0f)
      in drop_bit 8 x OR push_bit 8 x)"

definition u32_bit_reverse :: "u32 \<Rightarrow> u32" where
  "u32_bit_reverse x =
     (let x = drop_bit 1 (x AND 0xaaaaaaaa) OR push_bit 1 (x AND 0x55555555);
          x = drop_bit 2 (x AND 0xcccccccc) OR push_bit 2 (x AND 0x33333333);
          x = drop_bit 4 (x AND 0xf0f0f0f0) OR push_bit 4 (x AND 0x0f0f0f0f);
          x = drop_bit 8 (x AND 0xff00ff00) OR push_bit 8 (x AND 0x00ff00ff)
      in drop_bit 16 x OR push_bit 16 x)"

definition round_up :: "nat \<Rightarrow> nat \<Rightarrow> nat" where
  \<comment> \<open>the macro \<open>ROUND_UP(x, y)\<close> on \<open>size_t\<close>: \<open>(x + y - 1) & ~(y - 1)\<close>\<close>
  "round_up x y = unat ((word_of_nat x + word_of_nat y - 1) AND NOT (word_of_nat y - 1 :: u64))"

definition bswap_16 :: "u16 \<Rightarrow> u16" where
  "bswap_16 x = (drop_bit 8 x AND 0xff) OR push_bit 8 (x AND 0xff)"

definition bswap_32 :: "u32 \<Rightarrow> u32" where
  "bswap_32 x = (drop_bit 24 x AND 0xff) OR (drop_bit 8 x AND 0xff00) OR
     push_bit 8 (x AND 0xff00) OR push_bit 24 (x AND 0xff)"

definition bswap_64 :: "u64 \<Rightarrow> u64" where
  "bswap_64 x = (drop_bit 56 x AND 0xff) OR (drop_bit 40 x AND 0xff00) OR
     (drop_bit 24 x AND 0xff0000) OR (drop_bit 8 x AND 0xff000000) OR
     push_bit 8 (x AND 0xff000000) OR push_bit 24 (x AND 0xff0000) OR
     push_bit 40 (x AND 0xff00) OR push_bit 56 (x AND 0xff)"

function num_digits_loop :: "int \<Rightarrow> int \<Rightarrow> int" where
  "num_digits_loop n digits = (if n > 0 then num_digits_loop (n div 10) (digits + 1) else digits)"
  by pat_completeness auto
termination
  by (relation "measure (\<lambda>(n, digits). nat n)") auto

definition num_digits_in_number :: "int \<Rightarrow> int option" where
  "num_digits_in_number num = do {
     n \<leftarrow> (if num \<ge> 0 then Some num else cint (- num));
     Some (num_digits_loop n 0)
   }"

declare num_digits_loop.simps [simp del]

section \<open>Bit reversal\<close>

lemma less_8_cases: "n < (8::nat) \<longleftrightarrow> n \<in> {0, 1, 2, 3, 4, 5, 6, 7}"
  by simp presburger

lemma less_16_cases: "n < (16::nat) \<longleftrightarrow> n < 8 \<or> n \<in> {8, 9, 10, 11, 12, 13, 14, 15}"
  by simp presburger

lemma less_32_cases: "n < (32::nat) \<longleftrightarrow>
    n < 16 \<or> n \<in> {16, 17, 18, 19, 20, 21, 22, 23} \<or> n \<in> {24, 25, 26, 27, 28, 29, 30, 31}"
  by simp presburger

lemmas bit_eval = Let_def bit_simps bit_numeral_rec

lemma bit_u8_bit_reverse:
  assumes "n < 8"
  shows "bit (u8_bit_reverse b) n = bit b (7 - n)"
  using assms unfolding less_8_cases
  by (elim insertE) (simp_all add: u8_bit_reverse_def bit_eval del: push_bit_Suc)

lemma bit_u16_bit_reverse:
  assumes "n < 16"
  shows "bit (u16_bit_reverse b) n = bit b (15 - n)"
  using assms unfolding less_16_cases less_8_cases
  by (elim insertE disjE) (simp_all add: u16_bit_reverse_def bit_eval del: push_bit_Suc)

text \<open>Each stage of the 32-bit reversal exchanges neighbouring groups of \<open>k\<close> bits.\<close>

definition swap_group :: "nat \<Rightarrow> nat \<Rightarrow> nat" where
  "swap_group k n = (if even (n div k) then n + k else n - k)"

lemma masks_32:
  "list_all (\<lambda>i. bit (0xaaaaaaaa :: u32) i = odd i \<and> bit (0x55555555 :: u32) i = even i) [0..<32]"
  "list_all (\<lambda>i. bit (0xcccccccc :: u32) i = odd (i div 2) \<and> bit (0x33333333 :: u32) i = even (i div 2)) [0..<32]"
  "list_all (\<lambda>i. bit (0xf0f0f0f0 :: u32) i = odd (i div 4) \<and> bit (0x0f0f0f0f :: u32) i = even (i div 4)) [0..<32]"
  "list_all (\<lambda>i. bit (0xff00ff00 :: u32) i = odd (i div 8) \<and> bit (0x00ff00ff :: u32) i = even (i div 8)) [0..<32]"
  by code_simp+

lemma swap_group_up:
  assumes k: "0 < k" "2 * k dvd 32" and n: "n < 32" and ev: "even (n div k)"
  shows "n + k < (32 :: nat)"
proof -
  obtain c where c: "32 = 2 * k * c" using k(2) by (rule dvdE)
  obtain d where d: "n div k = 2 * d" using ev by (rule evenE)
  have "2 * d < 2 * c"
  proof (rule ccontr)
    assume "\<not> 2 * d < 2 * c"
    then have "2 * c * k \<le> 2 * d * k" by simp
    also have "\<dots> \<le> n" using d div_times_less_eq_dividend [of n k] by simp
    finally show False using n c by (simp add: mult.commute mult.left_commute)
  qed
  then have "(2 * d + 2) * k \<le> 2 * c * k" by (intro mult_le_mono1) simp
  then have "(2 * d + 2) * k \<le> 32" using c by (simp add: mult.commute mult.left_commute)
  moreover have "n mod k < k" using k(1) by simp
  then have "n < (2 * d + 1) * k" using d div_mult_mod_eq [of n k] by (simp add: algebra_simps)
  ultimately show ?thesis by (simp add: algebra_simps)
qed

lemma swap_stage:
  fixes x hi lo :: u32
  assumes k: "0 < k" "2 * k dvd 32" and n: "n < 32"
    and masks: "list_all (\<lambda>i. bit hi i = odd (i div k) \<and> bit lo i = even (i div k)) [0..<32]"
  shows "bit (drop_bit k (x AND hi) OR push_bit k (x AND lo)) n = bit x (swap_group k n)"
proof -
  have m: "bit hi i = odd (i div k)" "bit lo i = even (i div k)" if "i < 32" for i
    using masks that by (simp_all add: list_all_iff)
  have step: "(n + k) div k = Suc (n div k)" "k \<le> n \<Longrightarrow> (n - k) div k = n div k - 1" using k(1) by (simp_all add: le_div_geq)
  have low: "k \<le> n \<Longrightarrow> 0 < n div k" using k(1) by (simp add: div_greater_zero_iff)
  note up = swap_group_up [OF k n]
  show ?thesis
  proof (cases "even (n div k)")
    case True
    then show ?thesis using up [OF True] m [of "n + k"] m [of "n - k"] step low n k(1)
      by (auto simp: swap_group_def bit_simps add.commute)
  next
    case False
    then have "k \<le> n" using k(1) by (metis div_less even_zero not_le_imp_less)
    then show ?thesis using False m [of "n + k"] m [of "n - k"] step n k(1)
      by (auto simp: swap_group_def bit_simps add.commute dest: bit_imp_le_length)
  qed
qed

lemma bit_stages_32:
  fixes x :: u32
  assumes "n < 32"
  shows "bit (drop_bit 1 (x AND 0xaaaaaaaa) OR push_bit 1 (x AND 0x55555555)) n = bit x (swap_group 1 n)"
    and "bit (drop_bit 2 (x AND 0xcccccccc) OR push_bit 2 (x AND 0x33333333)) n = bit x (swap_group 2 n)"
    and "bit (drop_bit 4 (x AND 0xf0f0f0f0) OR push_bit 4 (x AND 0x0f0f0f0f)) n = bit x (swap_group 4 n)"
    and "bit (drop_bit 8 (x AND 0xff00ff00) OR push_bit 8 (x AND 0x00ff00ff)) n = bit x (swap_group 8 n)"
    and "bit (drop_bit 16 x OR push_bit 16 x) n = bit x (swap_group 16 n)"
proof -
  show "bit (drop_bit 1 (x AND 0xaaaaaaaa) OR push_bit 1 (x AND 0x55555555)) n = bit x (swap_group 1 n)"
    using masks_32(1) by (intro swap_stage assms) simp_all
  show "bit (drop_bit 2 (x AND 0xcccccccc) OR push_bit 2 (x AND 0x33333333)) n = bit x (swap_group 2 n)"
    using masks_32(2) by (intro swap_stage assms) simp_all
  show "bit (drop_bit 4 (x AND 0xf0f0f0f0) OR push_bit 4 (x AND 0x0f0f0f0f)) n = bit x (swap_group 4 n)"
    using masks_32(3) by (intro swap_stage assms) simp_all
  show "bit (drop_bit 8 (x AND 0xff00ff00) OR push_bit 8 (x AND 0x00ff00ff)) n = bit x (swap_group 8 n)"
    using masks_32(4) by (intro swap_stage assms) simp_all
  have "n div 16 = (if n < 16 then 0 else 1)" using assms by auto
  then show "bit (drop_bit 16 x OR push_bit 16 x) n = bit x (swap_group 16 n)"
    using assms by (auto simp: swap_group_def bit_simps add.commute dest: bit_imp_le_length)
qed

lemma swap_groups_all:
  "map (swap_group 1) (map (swap_group 2) (map (swap_group 4) (map (swap_group 8) (map (swap_group 16) [0..<32])))) =
     map (\<lambda>n. 31 - n) [0..<32]"
proof -
  have "[0..<32] = 0 # 1 # [2..<32 :: nat]" by (subst upt_conv_Cons, simp, subst upt_conv_Cons, simp_all add: numeral_2_eq_2)
  then show ?thesis by (simp add: upt_rec_numeral swap_group_def del: map_map One_nat_def)
qed

lemma swap_groups_32:
  assumes "n < 32"
  shows "swap_group 16 n < 32" "swap_group 8 (swap_group 16 n) < 32" "swap_group 4 (swap_group 8 (swap_group 16 n)) < 32"
    "swap_group 2 (swap_group 4 (swap_group 8 (swap_group 16 n))) < 32"
    "swap_group 1 (swap_group 2 (swap_group 4 (swap_group 8 (swap_group 16 n)))) = 31 - n"
proof -
  have lt: "swap_group k i < 32" if "i < 32" "0 < k" "2 * k dvd 32" for i k
    using that swap_group_up [of k i] by (auto simp: swap_group_def)
  show l: "swap_group 16 n < 32" "swap_group 8 (swap_group 16 n) < 32" "swap_group 4 (swap_group 8 (swap_group 16 n)) < 32"
      "swap_group 2 (swap_group 4 (swap_group 8 (swap_group 16 n))) < 32"
    using assms by (intro lt; simp)+
  show "swap_group 1 (swap_group 2 (swap_group 4 (swap_group 8 (swap_group 16 n)))) = 31 - n"
    using swap_groups_all assms by (auto simp: map_eq_conv)
qed

lemma bit_u32_bit_reverse:
  assumes "n < 32"
  shows "bit (u32_bit_reverse b) n = bit b (31 - n)"
  unfolding u32_bit_reverse_def Let_def by (simp only: bit_stages_32 swap_groups_32 assms)

section \<open>Byte order\<close>

lemma bit_bswap_16:
  assumes "n < 16"
  shows "bit (bswap_16 b) n = bit b (if n < 8 then n + 8 else n - 8)"
  using assms unfolding less_16_cases less_8_cases
  by (elim insertE disjE) (simp_all add: bswap_16_def bit_eval del: push_bit_Suc)

lemma bit_bswap_32:
  assumes "n < 32"
  shows "bit (bswap_32 b) n = bit b (8 * (3 - n div 8) + n mod 8)"
  using assms unfolding less_32_cases less_16_cases less_8_cases
  by (elim insertE disjE) (simp_all add: bswap_32_def bit_eval numeral_2_eq_2 [symmetric] del: push_bit_Suc)

section \<open>Rounding up to a power of two\<close>

text \<open>Every shift-or doubles the window of higher bits that is folded into each position.\<close>

lemma smear_step:
  fixes v w :: "'a::len word"
  assumes "\<And>n. bit v n \<longleftrightarrow> (\<exists>j<k. bit w (n + j))"
  shows "bit (v OR drop_bit k v) n \<longleftrightarrow> (\<exists>j<2 * k. bit w (n + j))"
proof -
  have "bit (v OR drop_bit k v) n \<longleftrightarrow> (\<exists>j<k. bit w (n + j)) \<or> (\<exists>j<k. bit w (k + n + j))"
    by (simp add: bit_simps assms)
  also have "(\<exists>j<k. bit w (k + n + j)) \<longleftrightarrow> (\<exists>j. k \<le> j \<and> j < 2 * k \<and> bit w (n + j))"
    by (rule iffI; elim exE conjE) (rule_tac x = "k + j" in exI, simp add: add_ac, rule_tac x = "j - k" in exI, simp)
  finally show ?thesis by (metis leI less_le_trans mult_2 le_add1)
qed

definition smear :: "u32 \<Rightarrow> u32" where
  "smear v =
     (let v = v OR drop_bit 1 v; v = v OR drop_bit 2 v; v = v OR drop_bit 4 v; v = v OR drop_bit 8 v
      in v OR drop_bit 16 v)"

lemma bit_smear: "bit (smear w) n \<longleftrightarrow> (\<exists>j<32. bit w (n + j))"
proof -
  have 1: "\<And>n. bit w n \<longleftrightarrow> (\<exists>j<1. bit w (n + j))" by simp
  note 2 = smear_step [OF 1, simplified]
  note 4 = smear_step [OF 2, simplified]
  note 8 = smear_step [OF 4, simplified]
  note 16 = smear_step [OF 8, simplified]
  show ?thesis using smear_step [OF 16, of n] by (simp add: smear_def Let_def)
qed

lemma smear_mask:
  assumes "\<And>m. K \<le> m \<Longrightarrow> \<not> bit w m" and "K = 0 \<or> bit w (K - 1)" and "K \<le> 32"
  shows "smear w = mask K"
proof (rule bit_word_eqI)
  fix n assume n: "n < LENGTH(32)"
  show "bit (smear w) n = bit (mask K :: u32) n"
  proof (cases "n < K")
    case True
    then have "n + (K - 1 - n) = K - 1" "K - 1 - n < 32" using assms(3) by auto
    then have "bit (smear w) n" using assms(2) True unfolding bit_smear by fastforce
    then show ?thesis using True n by (simp add: bit_mask_iff)
  next
    case False
    then have "\<not> bit (smear w) n" using assms(1) unfolding bit_smear by auto
    then show ?thesis using False by (simp add: bit_mask_iff)
  qed
qed

lemma word_top_bit:
  fixes w :: u32
  obtains K where "K \<le> 32" "unat w < 2 ^ K" "K = 0 \<or> 2 ^ (K - 1) \<le> unat w"
    "\<And>m. K \<le> m \<Longrightarrow> \<not> bit w m" "K = 0 \<or> bit w (K - 1)"
proof (cases "w = 0")
  case True
  then show ?thesis by (intro that [of 0]) auto
next
  case False
  define A where "A = {m. bit w m}"
  have fin: "finite A" unfolding A_def by (rule finite_subset [of _ "{..<32}"]) (auto dest: bit_imp_le_length)
  have ne: "A \<noteq> {}" using False by (auto simp: A_def bit_eq_iff)
  define K where "K = Suc (Max A)"
  have top: "bit w (Max A)" using Max_in [OF fin ne] by (simp add: A_def)
  have above: "\<not> bit w m" if "K \<le> m" for m
  proof
    assume "bit w m"
    then have "m \<le> Max A" by (intro Max_ge [OF fin]) (simp add: A_def)
    then show False using that by (simp add: K_def)
  qed
  have K: "K \<le> 32" using top bit_imp_le_length by (fastforce simp: K_def)
  have "w = take_bit K w"
  proof (rule bit_word_eqI)
    fix n assume "n < LENGTH(32)"
    have "bit w n \<Longrightarrow> n < K" using above not_le by blast
    then show "bit w n = bit (take_bit K w) n" by (auto simp: bit_take_bit_iff)
  qed
  then have lt: "unat w < 2 ^ K" by (metis take_bit_nat_less_exp unsigned_take_bit_eq)
  have "2 ^ Max A \<le> unat w"
  proof (rule ccontr)
    assume "\<not> 2 ^ Max A \<le> unat w"
    then have "unat w div 2 ^ Max A = 0" by simp
    then have "\<not> bit (unat w) (Max A)" by (simp add: bit_iff_odd)
    moreover have "bit (unat w) (Max A)" using top by (simp add: bit_unsigned_iff)
    ultimately show False by simp
  qed
  then show ?thesis using that [of K] K lt above top by (auto simp: K_def)
qed

lemma round_up_pow2_ok:
  assumes "0 < v" and "v \<le> 2 ^ 31"
  shows "\<exists>k. unat (round_up_pow2 v) = 2 ^ k \<and> unat v \<le> 2 ^ k \<and> (k = 0 \<or> 2 ^ (k - 1) < unat v)"
proof -
  have v: "unat (v - 1) = unat v - 1" "0 < unat v" "unat v \<le> 2 ^ 31"
    using assms by (auto simp: unat_minus_one word_le_nat_alt unat_gt_0)
  obtain K where K: "K \<le> 32" "unat (v - 1) < 2 ^ K" "K = 0 \<or> 2 ^ (K - 1) \<le> unat (v - 1)"
      "\<And>m. K \<le> m \<Longrightarrow> \<not> bit (v - 1) m" "K = 0 \<or> bit (v - 1) (K - 1)"
    using word_top_bit [of "v - 1"] by blast
  have "K \<noteq> 32"
  proof
    assume "K = 32"
    then have "2 ^ 31 \<le> unat v - 1" using K(3) v by simp
    then show False using v by linarith
  qed
  then have lt: "K < 32" using K(1) by simp
  have "round_up_pow2 v = mask K + 1"
    using smear_mask [OF K(4,5,1)] by (simp add: round_up_pow2_def smear_def Let_def)
  also have "\<dots> = 2 ^ K" by (simp add: mask_eq_exp_minus_1)
  also have "\<dots> = word_of_nat (2 ^ K)" by simp
  finally have "unat (round_up_pow2 v) = 2 ^ K mod 2 ^ 32" by (simp only: unat_of_nat len_of_numeral_defs) simp
  moreover have "(2::nat) ^ K < 2 ^ 32" using lt by (intro power_strict_increasing) auto
  ultimately have "unat (round_up_pow2 v) = 2 ^ K" by simp
  then show ?thesis using K(2,3) v by (intro exI [of _ K]) auto
qed

section \<open>Properties\<close>

text \<open>
  the bit reversals and byte swaps permute the bits as they should: bit \<open>n\<close> of the 8-, 16- and
  32-bit reversals is the mirrored bit of the argument, and bit \<open>n\<close> of the 32-bit byte swap is the
  bit of the mirrored byte at the same place.
\<close>

theorem bit_permutations:
  "(\<forall>n<8. bit (u8_bit_reverse a) n = bit a (7 - n)) \<and>
   (\<forall>n<16. bit (u16_bit_reverse b) n = bit b (15 - n)) \<and>
   (\<forall>n<32. bit (u32_bit_reverse c) n = bit c (31 - n)) \<and>
   (\<forall>n<32. bit (bswap_32 c) n = bit c (8 * (3 - n div 8) + n mod 8))"
  using bit_u8_bit_reverse bit_u16_bit_reverse bit_u32_bit_reverse bit_bswap_32 by simp

theorem bit_permutations_witness:
  "bit (u32_bit_reverse 1) 31 \<and> bit (bswap_32 0x12) 25"
  using bit_permutations [where c = 1] bit_permutations [where c = "0x12"] by (simp add: bit_numeral_rec)

text \<open>
  For \<open>0 < v \<le> 2^31\<close>, \<open>round_up_pow2\<close> is the least power of two that is at least \<open>v\<close>.
\<close>

theorem round_up_pow2_least:
  assumes "0 < v" and "v \<le> 2 ^ 31"
  shows "(\<exists>k. unat (round_up_pow2 v) = 2 ^ k) \<and> v \<le> round_up_pow2 v \<and>
    (\<forall>k. unat v \<le> 2 ^ k \<longrightarrow> unat (round_up_pow2 v) \<le> 2 ^ k)"
proof -
  obtain k where k: "unat (round_up_pow2 v) = 2 ^ k" "unat v \<le> 2 ^ k" "k = 0 \<or> 2 ^ (k - 1) < unat v"
    using round_up_pow2_ok [OF assms] by blast
  have "2 ^ k \<le> (2 ^ j :: nat)" if "unat v \<le> 2 ^ j" for j
  proof (rule power_increasing)
    show "k \<le> j"
    proof (rule ccontr)
      assume "\<not> k \<le> j"
      then have "(2::nat) ^ j \<le> 2 ^ (k - 1)" "k \<noteq> 0" by (auto intro: power_increasing)
      then show False using that k(3) by linarith
    qed
  qed simp
  then show ?thesis using k by (auto simp: word_le_nat_alt)
qed

theorem round_up_pow2_least_witness: "unat (round_up_pow2 33) \<le> 2 ^ 6 \<and> 33 \<le> round_up_pow2 33"
proof -
  have "33 \<le> round_up_pow2 33" "\<forall>k. unat (33 :: u32) \<le> 2 ^ k \<longrightarrow> unat (round_up_pow2 33) \<le> 2 ^ k"
    using round_up_pow2_least [of 33] by (simp_all add: word_le_nat_alt)
  moreover have "unat (33 :: u32) \<le> 2 ^ 6" by simp
  ultimately show ?thesis by blast
qed

end
