(* ===== verification/Dictionary.thy ===== *)
theory Dictionary
  imports Prelude
begin

text \<open>
  The contract of a key/value container: an insertion that overwrites, a lookup and a removal that
  answer with the stored value, and an abstraction relation to partial maps. The locale shows once
  that every sequence of operations on admissible keys behaves like the map.
\<close>

datatype ('k, 'v) dop = DIns 'k 'v | DGet 'k | DDel 'k

fun dop_key :: "('k, 'v) dop \<Rightarrow> 'k" where
  "dop_key (DIns k v) = k"
| "dop_key (DGet k) = k"
| "dop_key (DDel k) = k"

fun run_dict :: "('s \<Rightarrow> 'k \<Rightarrow> 'v \<Rightarrow> 's option) \<Rightarrow> ('s \<Rightarrow> 'k \<Rightarrow> 'v option option)
    \<Rightarrow> ('s \<Rightarrow> 'k \<Rightarrow> ('v option \<times> 's) option) \<Rightarrow> 's \<Rightarrow> ('k, 'v) dop list
    \<Rightarrow> ('v option list \<times> 's) option" where
  "run_dict ins get del s [] = Some ([], s)"
| "run_dict ins get del s (DIns k v # ops) = do {
     s' \<leftarrow> ins s k v;
     (outs, t) \<leftarrow> run_dict ins get del s' ops;
     Some (None # outs, t)
   }"
| "run_dict ins get del s (DGet k # ops) = do {
     r \<leftarrow> get s k;
     (outs, t) \<leftarrow> run_dict ins get del s ops;
     Some (r # outs, t)
   }"
| "run_dict ins get del s (DDel k # ops) = do {
     (r, s') \<leftarrow> del s k;
     (outs, t) \<leftarrow> run_dict ins get del s' ops;
     Some (r # outs, t)
   }"

fun spec_dict :: "('k \<rightharpoonup> 'v) \<Rightarrow> ('k, 'v) dop list \<Rightarrow> 'v option list \<times> ('k \<rightharpoonup> 'v)" where
  "spec_dict m [] = ([], m)"
| "spec_dict m (DIns k v # ops) = (let (outs, m') = spec_dict (m(k \<mapsto> v)) ops in (None # outs, m'))"
| "spec_dict m (DGet k # ops) = (let (outs, m') = spec_dict m ops in (m k # outs, m'))"
| "spec_dict m (DDel k # ops) = (let (outs, m') = spec_dict (m(k := None)) ops in (m k # outs, m'))"

locale dict =
  fixes rep :: "'s \<Rightarrow> ('k \<rightharpoonup> 'v) \<Rightarrow> bool"
    and adm :: "'k \<Rightarrow> bool"
    and lim :: nat
    and ins :: "'s \<Rightarrow> 'k \<Rightarrow> 'v \<Rightarrow> 's option"
    and get :: "'s \<Rightarrow> 'k \<Rightarrow> 'v option option"
    and del :: "'s \<Rightarrow> 'k \<Rightarrow> ('v option \<times> 's) option"
  assumes rep_finite: "rep s m \<Longrightarrow> finite (dom m)"
    and ins_law: "rep s m \<Longrightarrow> adm k \<Longrightarrow> card (dom m) < lim \<Longrightarrow>
      \<exists>s'. ins s k v = Some s' \<and> rep s' (m(k \<mapsto> v))"
    and get_law: "rep s m \<Longrightarrow> adm k \<Longrightarrow> get s k = Some (m k)"
    and del_law: "rep s m \<Longrightarrow> adm k \<Longrightarrow> \<exists>s'. del s k = Some (m k, s') \<and> rep s' (m(k := None))"
begin

lemma card_dom_ins: "rep s m \<Longrightarrow> card (dom (m(k \<mapsto> v))) \<le> Suc (card (dom m))"
  using rep_finite [of s m] by (simp add: card_insert_if)

lemma card_dom_del: "rep s m \<Longrightarrow> card (dom (m(k := None))) \<le> card (dom m)"
  using rep_finite [of s m] by (simp add: card_Diff1_le)

lemma run_dict_refines:
  "rep s m \<Longrightarrow> (\<And>op. op \<in> set ops \<Longrightarrow> adm (dop_key op)) \<Longrightarrow> card (dom m) + length ops \<le> lim \<Longrightarrow>
   \<exists>s'. run_dict ins get del s ops = Some (fst (spec_dict m ops), s') \<and> rep s' (snd (spec_dict m ops))"
proof (induction ops arbitrary: s m)
  case Nil
  then show ?case by simp
next
  case (Cons op ops)
  have ops: "adm (dop_key o1)" if "o1 \<in> set ops" for o1 using Cons.prems(2) that by simp
  show ?case
  proof (cases op)
    case (DIns k v)
    then have "adm k" using Cons.prems(2) [of op] by simp
    then obtain s' where s': "ins s k v = Some s'" "rep s' (m(k \<mapsto> v))"
      using ins_law [OF Cons.prems(1), of k v] Cons.prems(3) by auto
    have "card (dom (m(k \<mapsto> v))) + length ops \<le> lim"
      using card_dom_ins [OF Cons.prems(1), of k v] Cons.prems(3) by simp
    from Cons.IH [OF s'(2) ops this] show ?thesis
      using s' DIns by (auto simp: Let_def split_beta simp del: fun_upd_apply)
  next
    case (DGet k)
    then have "get s k = Some (m k)" using get_law [OF Cons.prems(1)] Cons.prems(2) [of op] by simp
    moreover have "card (dom m) + length ops \<le> lim" using Cons.prems(3) by simp
    ultimately show ?thesis
      using Cons.IH [OF Cons.prems(1) ops] DGet by (auto simp: Let_def split_beta simp del: fun_upd_apply)
  next
    case (DDel k)
    then obtain s' where s': "del s k = Some (m k, s')" "rep s' (m(k := None))"
      using del_law [OF Cons.prems(1)] Cons.prems(2) [of op] by auto
    have "card (dom (m(k := None))) + length ops \<le> lim"
      using card_dom_del [OF Cons.prems(1), of k] Cons.prems(3) by simp
    from Cons.IH [OF s'(2) ops this] show ?thesis
      using s' DDel by (auto simp: Let_def split_beta simp del: fun_upd_apply)
  qed
qed

end

end
