(* ===== verification/Hashmap.thy ===== *)
theory Hashmap
  imports Strutils Bitops Dictionary "HOL-Library.Multiset"
begin

text \<open>
  The chained hash map of \<^verbatim>\<open>src/utils/src/hashmap.c\<close>. A chain reached from \<open>pool[i]\<close> through the
  \<open>next\<close> links is the list of its items, head first: each item belongs to exactly one chain, and the
  operations below follow and relink the chains in the order of the code. A key is the content of a
  C string. \<open>None\<close> is a failed assertion or a null pointer handed to \<^verbatim>\<open>strcmp\<close>. Allocation goes
  through the do-or-die wrappers of \<^verbatim>\<open>memory.c\<close>, which end the process when memory runs out.
\<close>

record 'v hash_map_item =
  hi_hash :: u32
  hi_key :: bytes
  hi_val :: 'v

record 'v hash_map =
  hm_pool :: "'v hash_map_item list list"
  hm_capacity :: nat
  hm_count :: nat

definition HASH_MAP_BASE_SIZE :: nat where
  "HASH_MAP_BASE_SIZE = 32"

definition hash_fn :: "bytes \<Rightarrow> u32 option" where
  "hash_fn key = hash32_djb2 (key @ [0]) (-1)"

definition get_pool_pos :: "nat \<Rightarrow> u32 \<Rightarrow> nat" where
  "get_pool_pos capacity hash = unat hash AND sz_sub capacity 1"

definition density_exceeded :: "'v hash_map \<Rightarrow> bool" where
  \<comment> \<open>\<open>count / capacity > 0.8\<close> in double precision: the constant is \<open>3602879701896397 / 2^52\<close>, and
     dividing a count below \<open>2^53\<close> by a power of two is exact\<close>
  "density_exceeded m \<longleftrightarrow> hm_count m * 2 ^ 52 > 3602879701896397 * hm_capacity m"

definition hash_map_count :: "'v hash_map \<Rightarrow> nat" where
  "hash_map_count m = sum_list (map length (take (hm_capacity m) (hm_pool m)))"

definition hash_map_lint :: "'v hash_map \<Rightarrow> 'v hash_map option" where
  "hash_map_lint m = (if hash_map_count m = hm_count m then Some m else None)"

fun rehash_chain :: "nat \<Rightarrow> nat \<Rightarrow> 'v hash_map_item list \<Rightarrow> 'v hash_map_item list
    \<Rightarrow> 'v hash_map_item list list \<Rightarrow> 'v hash_map_item list list option" where
  \<comment> \<open>the inner loop at \<open>pivot\<close>: \<open>kept\<close> are the items up to and including \<open>prev\<close>, the next list starts
     at \<open>item\<close>\<close>
  "rehash_chain capacity pivot kept [] pool = Some pool"
| "rehash_chain capacity pivot kept (item # rest) pool =
     (let target = get_pool_pos capacity (hi_hash item) in
      if \<not> target < capacity then None
      else if pivot \<noteq> target then
        (let pool = pool[pivot := kept @ rest];
             pool = pool[target := item # pool ! target]
         in rehash_chain capacity pivot kept rest pool)
      else rehash_chain capacity pivot (kept @ [item]) rest pool)"

function rehash_pivots :: "nat \<Rightarrow> nat \<Rightarrow> nat \<Rightarrow> 'v hash_map_item list list
    \<Rightarrow> 'v hash_map_item list list option" where
  "rehash_pivots capacity pivot old_capacity pool =
     (if pivot < old_capacity
      then Option.bind (rehash_chain capacity pivot [] (pool ! pivot) pool)
        (rehash_pivots capacity (Suc pivot) old_capacity)
      else Some pool)"
  by pat_completeness auto
termination
  by (relation "measure (\<lambda>(c, p, old, pool). old - p)") auto

definition hash_map_rehash :: "'v hash_map \<Rightarrow> 'v hash_map option" where
  "hash_map_rehash m = do {
     let old_capacity = hm_capacity m;
     let capacity = sz_mul old_capacity 2;
     let pool = hm_pool m @ replicate (capacity - old_capacity) [];
     pool \<leftarrow> rehash_pivots capacity 0 old_capacity pool;
     hash_map_lint (m\<lparr>hm_pool := pool, hm_capacity := capacity\<rparr>)
   }"

definition hash_map_init :: "'v hash_map" where
  "hash_map_init =
     (let size = unat (round_up_pow2 (of_nat HASH_MAP_BASE_SIZE))
      in \<lparr>hm_pool = replicate size [], hm_capacity = size, hm_count = 0\<rparr>)"

definition hash_map_free :: "'v hash_map \<Rightarrow> (bytes \<times> 'v) list \<times> 'v hash_map" where
  \<comment> \<open>the callback's arguments in call order, and what is left in the structure\<close>
  "hash_map_free m =
     (map (\<lambda>i. (hi_key i, hi_val i)) (concat (take (hm_capacity m) (hm_pool m))),
      m\<lparr>hm_pool := [], hm_capacity := 0\<rparr>)"

fun insert_chain :: "u32 \<Rightarrow> bytes \<Rightarrow> 'v \<Rightarrow> 'v hash_map_item list \<Rightarrow> bool \<times> 'v hash_map_item list" where
  \<comment> \<open>whether the key was there, and the chain with the value stored\<close>
  "insert_chain hash key val [] = (False, [\<lparr>hi_hash = hash, hi_key = key, hi_val = val\<rparr>])"
| "insert_chain hash key val (item # rest) =
     (if hi_hash item = hash \<and> hi_key item = key then (True, item\<lparr>hi_val := val\<rparr> # rest)
      else (let (found, rest') = insert_chain hash key val rest in (found, item # rest')))"

definition insert_item :: "'v hash_map \<Rightarrow> bytes \<Rightarrow> 'v \<Rightarrow> (u32 \<times> 'v hash_map) option" where
  \<comment> \<open>\<open>hash_map_insert\<close> after the density check\<close>
  "insert_item m key val = do {
     hash \<leftarrow> hash_fn key;
     let pos = get_pool_pos (hm_capacity m) hash;
     chain \<leftarrow> arr_get (hm_pool m) (int pos);
     let (found, chain') = insert_chain hash key val chain;
     let pool = (hm_pool m)[pos := chain'];
     Some (hash, if found then m\<lparr>hm_pool := pool\<rparr>
                 else m\<lparr>hm_pool := pool, hm_count := sz_add (hm_count m) 1\<rparr>)
   }"

definition hash_map_insert :: "'v hash_map \<Rightarrow> bytes \<Rightarrow> 'v \<Rightarrow> (u32 \<times> 'v hash_map) option" where
  "hash_map_insert m key val = do {
     m \<leftarrow> (if density_exceeded m then hash_map_rehash m else Some m);
     insert_item m key val
   }"

fun find_chain :: "u32 \<Rightarrow> bytes option \<Rightarrow> 'v hash_map_item list
    \<Rightarrow> ('v hash_map_item list \<times> 'v hash_map_item list) option" where
  \<comment> \<open>the walk of \<open>get\<close> and \<open>delete\<close>: the items passed and the chain from the match on;
     \<open>strcmp\<close> on a null key is undefined\<close>
  "find_chain hash key [] = Some ([], [])"
| "find_chain hash key (item # rest) =
     (if hi_hash item = hash then
        (case key of None \<Rightarrow> None
         | Some k \<Rightarrow> if hi_key item = k then Some ([], item # rest)
                    else map_option (\<lambda>(p, r). (item # p, r)) (find_chain hash key rest))
      else map_option (\<lambda>(p, r). (item # p, r)) (find_chain hash key rest))"

definition key_or_hash :: "bytes option \<Rightarrow> u32 \<Rightarrow> u32 option" where
  "key_or_hash key key_hash = (case key of Some k \<Rightarrow> hash_fn k | None \<Rightarrow> Some key_hash)"

definition hash_map_get :: "'v hash_map \<Rightarrow> bytes option \<Rightarrow> u32 \<Rightarrow> 'v option option" where
  "hash_map_get m key key_hash = do {
     hash \<leftarrow> key_or_hash key key_hash;
     chain \<leftarrow> arr_get (hm_pool m) (int (get_pool_pos (hm_capacity m) hash));
     (_, r) \<leftarrow> find_chain hash key chain;
     Some (case r of [] \<Rightarrow> None | item # _ \<Rightarrow> Some (hi_val item))
   }"

definition hash_map_delete :: "'v hash_map \<Rightarrow> bytes option \<Rightarrow> u32 \<Rightarrow> ('v option \<times> 'v hash_map) option" where
  "hash_map_delete m key key_hash = do {
     hash \<leftarrow> key_or_hash key key_hash;
     let pos = get_pool_pos (hm_capacity m) hash;
     chain \<leftarrow> arr_get (hm_pool m) (int pos);
     (p, r) \<leftarrow> find_chain hash key chain;
     Some (case r of [] \<Rightarrow> (None, m)
       | item # rest \<Rightarrow> (Some (hi_val item),
           m\<lparr>hm_pool := (hm_pool m)[pos := p @ rest], hm_count := sz_sub (hm_count m) 1\<rparr>))
   }"

section \<open>Iterators\<close>

record 'v hash_map_iterator =
  it_pos :: nat
  it_item :: "'v hash_map_item list"  \<comment> \<open>the chain from the item pointed to; empty for null\<close>

definition hash_map_it_init :: "'v hash_map_iterator" where
  "hash_map_it_init = \<lparr>it_pos = 0, it_item = []\<rparr>"

function it_skip :: "'v hash_map \<Rightarrow> nat \<Rightarrow> nat" where
  "it_skip m pos = (if pos < hm_capacity m \<and> hm_pool m ! pos = [] then it_skip m (Suc pos) else pos)"
  by pat_completeness auto
termination
  by (relation "measure (\<lambda>(m, pos). hm_capacity m - pos)") auto

definition hash_map_it_next :: "'v hash_map \<Rightarrow> 'v hash_map_iterator
    \<Rightarrow> (int \<times> (bytes \<times> 'v) option \<times> 'v hash_map_iterator)" where
  "hash_map_it_next m it =
     (case it_item it of
        cur # rest \<Rightarrow> (0, Some (hi_key cur, hi_val cur), it\<lparr>it_item := rest\<rparr>)
      | [] \<Rightarrow>
        (let pos = it_skip m (it_pos it) in
         if pos \<ge> hm_capacity m then (-1, None, it\<lparr>it_pos := pos\<rparr>)
         else (case hm_pool m ! pos of
             [] \<Rightarrow> (-1, None, it\<lparr>it_pos := pos\<rparr>)
           | cur # rest \<Rightarrow> (0, Some (hi_key cur, hi_val cur), \<lparr>it_pos = Suc pos, it_item = rest\<rparr>))))"

fun it_collect :: "nat \<Rightarrow> 'v hash_map \<Rightarrow> 'v hash_map_iterator \<Rightarrow> (bytes \<times> 'v) list option" where
  \<comment> \<open>\<open>HASH_MAP_FOREACH\<close> with at most \<open>fuel\<close> calls of \<open>hash_map_it_next\<close>: the body runs on the key and value it has
    stored, as long as it returns 0\<close>
  "it_collect 0 m it = None"
| "it_collect (Suc fuel) m it =
     (let (rc, e, it') = hash_map_it_next m it in
      if rc = 0 then do { entry \<leftarrow> e; es \<leftarrow> it_collect fuel m it'; Some (entry # es) } else Some [])"

declare rehash_pivots.simps [simp del] it_skip.simps [simp del]

section \<open>The invariant\<close>

definition key_ok :: "bytes \<Rightarrow> bool" where
  "key_ok k \<longleftrightarrow> 0 \<notin> set k \<and> length k < 2 ^ 31"

definition key_hash :: "bytes \<Rightarrow> u32" where
  "key_hash k = foldl (\<lambda>h c. h * 33 + scast c) 5381 k"

definition item_ok :: "'v hash_map_item \<Rightarrow> bool" where
  "item_ok x \<longleftrightarrow> key_ok (hi_key x) \<and> hi_hash x = key_hash (hi_key x)"

definition hm_ok :: "'v hash_map \<Rightarrow> nat \<Rightarrow> bool" where
  "hm_ok m k \<longleftrightarrow> k \<le> 54 \<and> hm_capacity m = 2 ^ k \<and> length (hm_pool m) = 2 ^ k \<and>
     (\<forall>i<2 ^ k. \<forall>x\<in>set (hm_pool m ! i). item_ok x \<and> unat (hi_hash x) mod 2 ^ k = i) \<and>
     distinct (map hi_key (concat (hm_pool m))) \<and> hm_count m = length (concat (hm_pool m)) \<and>
     hm_count m \<le> 2 ^ 53"

definition entries :: "'v hash_map_item list \<Rightarrow> (bytes \<times> 'v) list" where
  "entries xs = map (\<lambda>x. (hi_key x, hi_val x)) xs"

definition hm_rel :: "'v hash_map \<Rightarrow> (bytes \<rightharpoonup> 'v) \<Rightarrow> bool" where
  "hm_rel m f \<longleftrightarrow> (\<exists>k. hm_ok m k) \<and> f = map_of (entries (concat (hm_pool m)))"

lemma hash_fn_ok: "key_ok k \<Longrightarrow> hash_fn k = Some (key_hash k)"
  using djb2_cstr [of "k @ [0]" k] by (simp add: hash_fn_def key_hash_def key_ok_def cstr_def)

lemma get_pool_pos_pow2:
  assumes "k \<le> 62"
  shows "get_pool_pos (2 ^ k) h = unat h mod 2 ^ k"
proof -
  have "(2::nat) ^ k < 2 ^ 64" using assms by (intro power_strict_increasing) auto
  then have "sz_sub (2 ^ k) 1 = mask k" by (subst sz_sub_small) (simp_all add: mask_eq_exp_minus_1)
  then show ?thesis by (simp add: get_pool_pos_def take_bit_eq_mask [symmetric] take_bit_eq_mod)
qed

lemma mset_concat_update:
  "i < length P \<Longrightarrow> mset (concat (P[i := xs])) + mset (P ! i) = mset (concat P) + mset xs"
proof (induction P arbitrary: i)
  case (Cons a P)
  then show ?case by (cases i) (auto simp: ac_simps)
qed simp

section \<open>Rehashing\<close>

definition target :: "nat \<Rightarrow> 'v hash_map_item \<Rightarrow> nat" where
  "target k x = unat (hi_hash x) mod 2 ^ k"

lemma target_Suc: "target (Suc k) x = target k x \<or> target (Suc k) x = 2 ^ k + target k x"
proof -
  let ?n = "target (Suc k) x"
  have "?n < 2 * 2 ^ k" by (simp add: target_def)
  moreover have "target k x = ?n mod 2 ^ k" by (simp add: target_def mod_mod_cancel)
  ultimately show ?thesis by (cases "?n < 2 ^ k") (auto simp: mod_if le_mod_geq)
qed

lemma rehash_chain_ok:
  assumes "k \<le> 61" and "p < 2 ^ k" and Q: "\<And>x. target (Suc k) x = 2 ^ k + p \<Longrightarrow> Q (2 ^ k + p) x"
  shows "length P = 2 ^ Suc k \<Longrightarrow> P ! p = kept @ rest \<Longrightarrow>
     (\<And>i x. i < 2 ^ Suc k \<Longrightarrow> i \<noteq> p \<Longrightarrow> x \<in> set (P ! i) \<Longrightarrow> Q i x) \<Longrightarrow>
     (\<And>x. x \<in> set kept \<Longrightarrow> target (Suc k) x = p) \<Longrightarrow> (\<And>x. x \<in> set rest \<Longrightarrow> target k x = p) \<Longrightarrow>
     \<exists>P'. rehash_chain (2 ^ Suc k) p kept rest P = Some P' \<and> length P' = 2 ^ Suc k \<and>
       mset (concat P') = mset (concat P) \<and>
       (\<forall>i<2 ^ Suc k. \<forall>x\<in>set (P' ! i). if i = p then target (Suc k) x = p else Q i x)"
proof (induction rest arbitrary: kept P)
  case Nil
  then show ?case by auto
next
  case (Cons item rest)
  let ?t = "target (Suc k) item"
  have pos: "get_pool_pos (2 ^ Suc k) (hi_hash item) = ?t"
    using get_pool_pos_pow2 [of "Suc k"] assms(1) by (simp add: target_def)
  have tlt: "?t < 2 ^ Suc k" by (simp add: target_def)
  have tk: "target k item = p" using Cons.prems(5) by simp
  show ?case
  proof (cases "?t = p")
    case True
    have "\<exists>P'. rehash_chain (2 ^ Suc k) p (kept @ [item]) rest P = Some P' \<and> length P' = 2 ^ Suc k \<and>
       mset (concat P') = mset (concat P) \<and>
       (\<forall>i<2 ^ Suc k. \<forall>x\<in>set (P' ! i). if i = p then target (Suc k) x = p else Q i x)"
      using Cons.prems True by (intro Cons.IH) auto
    then show ?thesis using pos tlt True by (simp add: Let_def)
  next
    case False
    then have t: "?t = 2 ^ k + p" using target_Suc [of k item] tk by auto
    let ?P1 = "P[p := kept @ rest]"
    let ?P2 = "?P1[?t := item # ?P1 ! ?t]"
    have len: "length ?P2 = 2 ^ Suc k" and lp: "p < length P" and lt: "?t < length P"
      using Cons.prems(1) assms(2) tlt by auto
    have eq: "mset (concat ?P2) = mset (concat P)"
      using mset_concat_update [OF lp, of "kept @ rest"] mset_concat_update [of ?t ?P1 "item # ?P1 ! ?t"]
        lt Cons.prems(2) by (auto simp: ac_simps)
    have "\<exists>P'. rehash_chain (2 ^ Suc k) p kept rest ?P2 = Some P' \<and> length P' = 2 ^ Suc k \<and>
       mset (concat P') = mset (concat ?P2) \<and>
       (\<forall>i<2 ^ Suc k. \<forall>x\<in>set (P' ! i). if i = p then target (Suc k) x = p else Q i x)"
    proof (rule Cons.IH [OF len])
      show "?P2 ! p = kept @ rest" using False lp by simp
      show "Q i x" if "i < 2 ^ Suc k" "i \<noteq> p" "x \<in> set (?P2 ! i)" for i x
        using that Q [of item] t False lt Cons.prems(1,3) by (cases "i = ?t") auto
    qed (use Cons.prems in auto)
    then show ?thesis using pos tlt False eq by (simp add: Let_def)
  qed
qed

definition settled :: "nat \<Rightarrow> nat \<Rightarrow> nat \<Rightarrow> 'v hash_map_item \<Rightarrow> bool" where
  \<comment> \<open>where an item in chain \<open>i\<close> belongs once the pivots below \<open>p\<close> are done\<close>
  "settled k p i x \<longleftrightarrow> (if i < p \<or> 2 ^ k \<le> i then target (Suc k) x = i else target k x = i)"

lemma rehash_pivots_ok:
  assumes "k \<le> 61"
  shows "p \<le> 2 ^ k \<Longrightarrow> length P = 2 ^ Suc k \<Longrightarrow>
     (\<And>i x. i < 2 ^ Suc k \<Longrightarrow> x \<in> set (P ! i) \<Longrightarrow> settled k p i x) \<Longrightarrow>
     \<exists>P'. rehash_pivots (2 ^ Suc k) p (2 ^ k) P = Some P' \<and> length P' = 2 ^ Suc k \<and>
       mset (concat P') = mset (concat P) \<and>
       (\<forall>i<2 ^ Suc k. \<forall>x\<in>set (P' ! i). target (Suc k) x = i)"
proof (induction "2 ^ k - p" arbitrary: p P)
  case 0
  then have p: "p = 2 ^ k" by simp
  then have "target (Suc k) x = i" if "i < 2 ^ Suc k" "x \<in> set (P ! i)" for i x
    using 0(4) [OF that] by (auto simp: settled_def split: if_splits)
  then show ?case
    using 0 p by (intro exI [of _ P]) (simp add: rehash_pivots.simps [of _ "2 ^ k"])
next
  case (Suc n)
  then have p: "p < 2 ^ k" by simp
  obtain P1 where P1: "rehash_chain (2 ^ Suc k) p [] (P ! p) P = Some P1" "length P1 = 2 ^ Suc k"
      "mset (concat P1) = mset (concat P)"
      "\<forall>i<2 ^ Suc k. \<forall>x\<in>set (P1 ! i). if i = p then target (Suc k) x = p else settled k p i x"
    using rehash_chain_ok [OF assms p, of "settled k p" P "[]" "P ! p"] Suc.prems p
    by (auto simp: settled_def)
  have st: "settled k (Suc p) i x" if "i < 2 ^ Suc k" "x \<in> set (P1 ! i)" for i x
    using P1(4) that by (cases "i = p") (auto simp: settled_def)
  have "n = 2 ^ k - Suc p" "Suc p \<le> 2 ^ k" using Suc.hyps(2) p by auto
  from Suc.hyps(1) [OF this P1(2) st] show ?case
    using P1 p by (subst rehash_pivots.simps) simp
qed

lemma hm_ok_item:
  assumes "hm_ok m k" and "x \<in> set (concat (hm_pool m))"
  shows "item_ok x"
proof -
  obtain ys where "ys \<in> set (hm_pool m)" "x \<in> set ys" using assms(2) by auto
  then obtain i where "i < length (hm_pool m)" "x \<in> set (hm_pool m ! i)" by (metis in_set_conv_nth)
  then show ?thesis using assms(1) by (auto simp: hm_ok_def)
qed

lemma hm_okI:
  assumes "hm_ok m k" and "k' \<le> 54" and "length P = 2 ^ k'" and "mset (concat P) = mset (concat (hm_pool m))"
    and "\<And>i x. i < 2 ^ k' \<Longrightarrow> x \<in> set (P ! i) \<Longrightarrow> target k' x = i"
  shows "hm_ok (m\<lparr>hm_pool := P, hm_capacity := 2 ^ k'\<rparr>) k'"
proof -
  have set_eq: "set (concat P) = set (concat (hm_pool m))" using assms(4) by (rule mset_eq_setD)
  have items: "item_ok x" if "x \<in> set (concat P)" for x
    using hm_ok_item [OF assms(1)] that unfolding set_eq by blast
  have "item_ok x" if "i < 2 ^ k'" "x \<in> set (P ! i)" for i x
    using that assms(3) by (intro items) (auto intro!: bexI [of _ "P ! i"])
  moreover have "distinct (map hi_key (concat P))"
    using assms(1,4) by (metis distinct_map hm_ok_def mset_eq_imp_distinct_iff set_eq)
  moreover have "length (concat P) = length (concat (hm_pool m))"
    using assms(4) by (rule mset_eq_length)
  ultimately show ?thesis
    using assms by (auto simp: hm_ok_def target_def)
qed

lemma map_of_entries_mset:
  assumes "mset xs = mset ys" and "distinct (map hi_key xs)"
  shows "map_of (entries xs) = map_of (entries ys)"
proof (rule map_of_inject_set [THEN iffD2])
  have fst_e: "map fst (entries zs) = map hi_key zs" for zs :: "'a hash_map_item list"
    by (simp add: entries_def comp_def)
  have "distinct (map hi_key ys)"
    using assms by (metis distinct_map mset_eq_imp_distinct_iff mset_eq_setD)
  then show "distinct (map fst (entries xs))" "distinct (map fst (entries ys))"
    using assms(2) by (simp_all only: fst_e)
  show "set (entries xs) = set (entries ys)"
    using mset_eq_setD [OF assms(1)] by (simp add: entries_def)
qed

lemma hash_map_count_ok: "hm_ok m k \<Longrightarrow> hash_map_count m = hm_count m"
  by (simp add: hash_map_count_def hm_ok_def length_concat)

lemma hash_map_rehash_ok:
  assumes ok: "hm_ok m k" and "k < 54"
  shows "\<exists>m'. hash_map_rehash m = Some m' \<and> hm_ok m' (Suc k) \<and> hm_count m' = hm_count m \<and>
           mset (concat (hm_pool m')) = mset (concat (hm_pool m))"
proof -
  let ?P = "hm_pool m @ replicate (2 ^ k) []"
  have len: "length (hm_pool m) = 2 ^ k" and cap: "hm_capacity m = 2 ^ k" using ok by (auto simp: hm_ok_def)
  have "(2::nat) ^ Suc k < 2 ^ 64" using assms(2) by (intro power_strict_increasing) auto
  then have dbl: "sz_mul (2 ^ k) 2 = 2 ^ Suc k" by (simp add: sz_mul_def)
  have st: "settled k 0 i x" if "i < 2 ^ Suc k" "x \<in> set (?P ! i)" for i x
    using that ok by (auto simp: settled_def nth_append len target_def hm_ok_def split: if_splits)
  obtain P' where P': "rehash_pivots (2 ^ Suc k) 0 (2 ^ k) ?P = Some P'" "length P' = 2 ^ Suc k"
      "mset (concat P') = mset (concat ?P)" "\<forall>i<2 ^ Suc k. \<forall>x\<in>set (P' ! i). target (Suc k) x = i"
    using rehash_pivots_ok [of k 0 ?P] st assms(2) len by auto
  have ms: "mset (concat P') = mset (concat (hm_pool m))" using P'(3) by simp
  let ?m = "m\<lparr>hm_pool := P', hm_capacity := 2 ^ Suc k\<rparr>"
  have ok': "hm_ok ?m (Suc k)"
    using hm_okI [OF ok _ P'(2) ms] P'(4) assms(2) by simp
  have "hash_map_rehash m = Some ?m"
    using P'(1) hash_map_count_ok [OF ok'] dbl cap
    by (simp add: hash_map_rehash_def hash_map_lint_def Let_def)
  then show ?thesis using ok' ms by simp
qed

section \<open>The operations\<close>

lemma insert_chain_new:
  "key \<notin> hi_key ` set xs \<Longrightarrow>
   insert_chain h key v xs = (False, xs @ [\<lparr>hi_hash = h, hi_key = key, hi_val = v\<rparr>])"
  by (induction xs) auto

lemma insert_chain_old:
  "x = y\<lparr>hi_val := v\<rparr> \<Longrightarrow> hi_key y = key \<Longrightarrow> hi_hash y = h \<Longrightarrow> key \<notin> hi_key ` set us \<Longrightarrow>
   insert_chain h key v (us @ y # vs) = (True, us @ x # vs)"
  by (induction us) auto

lemma find_chain_absent:
  "key \<notin> hi_key ` set xs \<Longrightarrow> find_chain h (Some key) xs = Some (xs, [])"
  by (induction xs) auto

lemma find_chain_present:
  "hi_key y = key \<Longrightarrow> hi_hash y = h \<Longrightarrow> key \<notin> hi_key ` set us \<Longrightarrow>
   find_chain h (Some key) (us @ y # vs) = Some (us, y # vs)"
  by (induction us) auto

lemma entries_simps [simp]:
  "entries [] = []" "entries (x # xs) = (hi_key x, hi_val x) # entries xs"
  "entries (xs @ ys) = entries xs @ entries ys"
  by (simp_all add: entries_def)

lemma map_of_entries_None: "map_of (entries xs) k = None \<longleftrightarrow> k \<notin> hi_key ` set xs"
  by (simp add: entries_def map_of_eq_None_iff image_image)

lemma map_of_entries_mid:
  "hi_key x \<notin> hi_key ` set us \<Longrightarrow>
   map_of (entries (us @ x # vs)) = (map_of (entries (us @ vs)))(hi_key x \<mapsto> hi_val x)"
  by (induction us) auto

lemma map_of_entries_upd:
  "hi_key x \<notin> hi_key ` set us \<Longrightarrow>
   map_of (entries (us @ x\<lparr>hi_val := v\<rparr> # vs)) = (map_of (entries (us @ x # vs)))(hi_key x \<mapsto> v)"
  by (induction us) auto

lemma map_of_entries_del:
  "hi_key x \<notin> hi_key ` (set us \<union> set vs) \<Longrightarrow>
   map_of (entries (us @ vs)) = (map_of (entries (us @ x # vs)))(hi_key x := None)"
  by (induction us) (auto simp: fun_upd_idem map_of_entries_None)

lemma hm_okD:
  assumes "hm_ok m j"
  shows "j \<le> 54" "hm_capacity m = 2 ^ j" "length (hm_pool m) = 2 ^ j"
    and "distinct (map hi_key (concat (hm_pool m)))" "hm_count m = length (concat (hm_pool m))"
    and "hm_count m \<le> 2 ^ 53"
    and "i < 2 ^ j \<Longrightarrow> x \<in> set (hm_pool m ! i) \<Longrightarrow> item_ok x \<and> target j x = i"
  using assms by (auto simp: hm_ok_def target_def)

lemma hm_ok_update:
  assumes "hm_ok m j" and "pos < 2 ^ j" and "\<And>x. x \<in> set C \<Longrightarrow> item_ok x \<and> target j x = pos"
    and "distinct (map hi_key (concat ((hm_pool m)[pos := C])))"
    and "n = length (concat ((hm_pool m)[pos := C]))" and "n \<le> 2 ^ 53"
  shows "hm_ok (m\<lparr>hm_pool := (hm_pool m)[pos := C], hm_count := n\<rparr>) j"
  using assms by (simp add: hm_ok_def nth_list_update target_def)

lemma concat_at:
  assumes "pos < length P"
  shows "concat P = concat (take pos P) @ P ! pos @ concat (drop (Suc pos) P)"
    and "concat (P[pos := C]) = concat (take pos P) @ C @ concat (drop (Suc pos) P)"
proof -
  show "concat P = concat (take pos P) @ P ! pos @ concat (drop (Suc pos) P)"
    by (subst id_take_nth_drop [OF assms]) simp
  show "concat (P[pos := C]) = concat (take pos P) @ C @ concat (drop (Suc pos) P)"
    by (simp add: upd_conv_take_nth_drop [OF assms])
qed

definition home :: "nat \<Rightarrow> bytes \<Rightarrow> nat" where
  "home j k = unat (key_hash k) mod 2 ^ j"

lemma hm_home:
  assumes ok: "hm_ok m j" and "key_ok k"
  shows "home j k < 2 ^ j" and "get_pool_pos (hm_capacity m) (key_hash k) = home j k"
    and "arr_get (hm_pool m) (int (home j k)) = Some (hm_pool m ! home j k)"
    and "i < 2 ^ j \<Longrightarrow> i \<noteq> home j k \<Longrightarrow> k \<notin> hi_key ` set (hm_pool m ! i)"
proof -
  show lt: "home j k < 2 ^ j" by (simp add: home_def)
  show "get_pool_pos (hm_capacity m) (key_hash k) = home j k"
    using get_pool_pos_pow2 [of j] hm_okD(1,2) [OF ok] by (simp add: home_def)
  show "arr_get (hm_pool m) (int (home j k)) = Some (hm_pool m ! home j k)"
    using lt hm_okD(3) [OF ok] by (simp add: mem_simps)
  show "k \<notin> hi_key ` set (hm_pool m ! i)" if "i < 2 ^ j" "i \<noteq> home j k"
  proof
    assume "k \<in> hi_key ` set (hm_pool m ! i)"
    then obtain x where "x \<in> set (hm_pool m ! i)" "hi_key x = k" by auto
    with hm_okD(7) [OF ok that(1), of x] have "home j k = i" by (auto simp: item_ok_def target_def home_def)
    with that(2) show False by simp
  qed
qed

lemma hm_others:
  assumes ok: "hm_ok m j" and "key_ok k"
  shows "k \<notin> hi_key ` set (concat (take (home j k) (hm_pool m)))"
    and "k \<notin> hi_key ` set (concat (drop (Suc (home j k)) (hm_pool m)))"
proof -
  have len: "length (hm_pool m) = 2 ^ j" by (rule hm_okD(3) [OF ok])
  have "k \<notin> hi_key ` set ys" if ys: "ys \<in> set (take (home j k) (hm_pool m))" for ys
  proof -
    obtain i where "i < home j k" "i < 2 ^ j" "ys = hm_pool m ! i"
      using ys len unfolding in_set_conv_nth by auto
    then show ?thesis using hm_home(4) [OF assms, of i] by simp
  qed
  then show "k \<notin> hi_key ` set (concat (take (home j k) (hm_pool m)))" by auto
  have "k \<notin> hi_key ` set ys" if ys: "ys \<in> set (drop (Suc (home j k)) (hm_pool m))" for ys
  proof -
    obtain i where "i < 2 ^ j - Suc (home j k)" "ys = hm_pool m ! (Suc (home j k) + i)"
      using ys len unfolding in_set_conv_nth by auto
    then show ?thesis using hm_home(4) [OF assms, of "Suc (home j k) + i"] by simp
  qed
  then show "k \<notin> hi_key ` set (concat (drop (Suc (home j k)) (hm_pool m)))" by auto
qed

lemma chain_split:
  assumes "k \<in> hi_key ` set xs"
  obtains us y vs where "xs = us @ y # vs" "hi_key y = k" "k \<notin> hi_key ` set us"
  using split_list_first_prop [of xs "\<lambda>x. hi_key x = k"] assms by fastforce

lemma insert_item_ok:
  assumes ok: "hm_ok m j" and k: "key_ok k" and room: "hm_count m < 2 ^ 53"
  shows "\<exists>m'. insert_item m k v = Some (key_hash k, m') \<and> hm_ok m' j \<and>
           map_of (entries (concat (hm_pool m'))) = (map_of (entries (concat (hm_pool m))))(k \<mapsto> v) \<and>
           hm_count m' = (if k \<in> hi_key ` set (concat (hm_pool m)) then hm_count m else hm_count m + 1)"
proof -
  let ?p = "home j k" and ?P = "hm_pool m"
  let ?A = "concat (take ?p ?P)" and ?C = "?P ! ?p" and ?B = "concat (drop (Suc ?p) ?P)"
  have lt: "?p < length ?P" using hm_home(1) [OF ok k] hm_okD(3) [OF ok] by simp
  note parts = concat_at [OF lt] and others = hm_others [OF ok k] and home = hm_home(1-3) [OF ok k]
  have items: "item_ok x \<and> target j x = ?p" if "x \<in> set ?C" for x
    using hm_okD(7) [OF ok home(1) that] .
  have dist: "distinct (map hi_key (?A @ ?C @ ?B))" and cnt: "hm_count m = length (?A @ ?C @ ?B)"
    using hm_okD(4,5) [OF ok] parts(1) by simp_all
  have step: "insert_item m k v = (let (found, C') = insert_chain (key_hash k) k v ?C in
      Some (key_hash k, m\<lparr>hm_pool := ?P[?p := C'], hm_count := if found then hm_count m else hm_count m + 1\<rparr>))"
    using home room
    by (simp add: insert_item_def hash_fn_ok [OF k] sz_add_small split_beta Let_def)
  show ?thesis
  proof (cases "k \<in> hi_key ` set ?C")
    case True
    then obtain us y vs where C: "?C = us @ y # vs" "hi_key y = k" "k \<notin> hi_key ` set us"
      by (rule chain_split)
    let ?C' = "us @ y\<lparr>hi_val := v\<rparr> # vs"
    have "hi_hash y = key_hash k" using items [of y] C by (simp add: item_ok_def)
    then have ins: "insert_chain (key_hash k) k v ?C = (True, ?C')"
      using insert_chain_old [OF refl C(2) _ C(3)] C(1) by simp
    let ?m = "m\<lparr>hm_pool := ?P[?p := ?C'], hm_count := hm_count m\<rparr>"
    have "item_ok x \<and> target j x = ?p" if "x \<in> set ?C'" for x
      using that items [of x] items [of y] C by (auto simp: item_ok_def target_def)
    then have "hm_ok ?m j"
      using dist cnt hm_okD(6) [OF ok] C by (intro hm_ok_update [OF ok home(1)]) (auto simp: parts(2))
    moreover have "map_of (entries (?A @ ?C' @ ?B)) = (map_of (entries (?A @ ?C @ ?B)))(k \<mapsto> v)"
      using map_of_entries_upd [of y "?A @ us" v "vs @ ?B"] others(1) C
      by (simp add: image_Un del: entries_simps)
    moreover have "k \<in> hi_key ` set (concat ?P)" using True parts(1) by auto
    ultimately show ?thesis using step ins parts by simp
  next
    case False
    let ?x = "\<lparr>hi_hash = key_hash k, hi_key = k, hi_val = v\<rparr>"
    let ?C' = "?C @ [?x]"
    have ins: "insert_chain (key_hash k) k v ?C = (False, ?C')"
      using insert_chain_new [OF False] .
    let ?m = "m\<lparr>hm_pool := ?P[?p := ?C'], hm_count := hm_count m + 1\<rparr>"
    have "item_ok x \<and> target j x = ?p" if "x \<in> set ?C'" for x
      using that items k by (auto simp: item_ok_def target_def home_def)
    moreover have "distinct (map hi_key (?A @ ?C' @ ?B))"
      using dist others False by auto
    ultimately have "hm_ok ?m j"
      using cnt room by (intro hm_ok_update [OF ok home(1)]) (simp_all add: parts(2))
    moreover have "map_of (entries (?A @ ?C' @ ?B)) = (map_of (entries (?A @ ?C @ ?B)))(k \<mapsto> v)"
      using map_of_entries_mid [of ?x "?A @ ?C" ?B] others(1) False
      by (simp add: image_Un del: entries_simps)
    moreover have "k \<notin> hi_key ` set (concat ?P)"
      using False others unfolding parts(1) by auto
    ultimately show ?thesis using step ins parts by simp
  qed
qed

lemma hm_rehash_if_dense:
  assumes ok: "hm_ok m j" and room: "hm_count m < 2 ^ 53" and dense: "density_exceeded m"
  shows "j < 54"
proof (rule ccontr)
  assume "\<not> j < 54"
  then have "j = 54" using hm_okD(1) [OF ok] by simp
  then show False using dense room hm_okD(2) [OF ok] by (simp add: density_exceeded_def)
qed

lemma hash_map_insert_ok:
  assumes ok: "hm_ok m j" and k: "key_ok k" and room: "hm_count m < 2 ^ 53"
  shows "\<exists>m' j'. hash_map_insert m k v = Some (key_hash k, m') \<and> hm_ok m' j' \<and>
           map_of (entries (concat (hm_pool m'))) = (map_of (entries (concat (hm_pool m))))(k \<mapsto> v) \<and>
           hm_count m' = (if k \<in> hi_key ` set (concat (hm_pool m)) then hm_count m else hm_count m + 1)"
proof (cases "density_exceeded m")
  case True
  then have "j < 54" by (rule hm_rehash_if_dense [OF ok room])
  then obtain m1 where m1: "hash_map_rehash m = Some m1" "hm_ok m1 (Suc j)" "hm_count m1 = hm_count m"
      "mset (concat (hm_pool m1)) = mset (concat (hm_pool m))"
    using hash_map_rehash_ok [OF ok] by blast
  have "map_of (entries (concat (hm_pool m1))) = map_of (entries (concat (hm_pool m)))"
    using m1(2,4) by (intro map_of_entries_mset) (auto simp: hm_ok_def)
  moreover have "set (concat (hm_pool m1)) = set (concat (hm_pool m))"
    using m1(4) by (rule mset_eq_setD)
  moreover have "hm_count m1 < 2 ^ 53" using m1(3) room by simp
  moreover have "hash_map_insert m k v = insert_item m1 k v"
    using m1(1) True by (simp add: hash_map_insert_def)
  ultimately show ?thesis
    using insert_item_ok [OF m1(2) k, of v] m1(3) by metis
next
  case False
  then show ?thesis using insert_item_ok [OF ok k room, of v] by (auto simp: hash_map_insert_def simp del: set_concat)
qed

lemma hash_map_get_ok:
  assumes ok: "hm_ok m j" and k: "key_ok k"
  shows "hash_map_get m (Some k) h = Some (map_of (entries (concat (hm_pool m))) k)"
proof -
  let ?p = "home j k" and ?P = "hm_pool m"
  let ?A = "concat (take ?p ?P)" and ?C = "?P ! ?p" and ?B = "concat (drop (Suc ?p) ?P)"
  have lt: "?p < length ?P" using hm_home(1) [OF ok k] hm_okD(3) [OF ok] by simp
  note parts = concat_at [OF lt] and others = hm_others [OF ok k] and home = hm_home(1-3) [OF ok k]
  have step: "hash_map_get m (Some k) h = do {
      (_, r) \<leftarrow> find_chain (key_hash k) (Some k) ?C;
      Some (case r of [] \<Rightarrow> None | item # _ \<Rightarrow> Some (hi_val item)) }"
    using home by (simp add: hash_map_get_def key_or_hash_def hash_fn_ok [OF k])
  show ?thesis
  proof (cases "k \<in> hi_key ` set ?C")
    case True
    then obtain us y vs where C: "?C = us @ y # vs" "hi_key y = k" "k \<notin> hi_key ` set us"
      by (rule chain_split)
    have "hi_hash y = key_hash k" using hm_okD(7) [OF ok home(1), of y] C by (simp add: item_ok_def)
    then have "hash_map_get m (Some k) h = Some (Some (hi_val y))"
      using step find_chain_present [OF C(2) _ C(3)] C(1) by simp
    moreover have "map_of (entries (concat ?P)) k = Some (hi_val y)"
      using map_of_entries_mid [of y "?A @ us" "vs @ ?B"] others(1) C
      by (simp add: parts(1) image_Un del: entries_simps)
    ultimately show ?thesis by simp
  next
    case False
    then have "k \<notin> hi_key ` set (concat ?P)" using others unfolding parts(1) by auto
    then show ?thesis
      using step find_chain_absent [OF False] map_of_entries_None [of "concat ?P" k] by simp
  qed
qed

lemma hash_map_delete_ok:
  assumes ok: "hm_ok m j" and k: "key_ok k"
  shows "\<exists>m'. hash_map_delete m (Some k) h = Some (map_of (entries (concat (hm_pool m))) k, m') \<and> hm_ok m' j \<and>
           map_of (entries (concat (hm_pool m'))) = (map_of (entries (concat (hm_pool m))))(k := None) \<and>
           hm_count m' = (if k \<in> hi_key ` set (concat (hm_pool m)) then hm_count m - 1 else hm_count m)"
proof -
  let ?p = "home j k" and ?P = "hm_pool m"
  let ?A = "concat (take ?p ?P)" and ?C = "?P ! ?p" and ?B = "concat (drop (Suc ?p) ?P)"
  have lt: "?p < length ?P" using hm_home(1) [OF ok k] hm_okD(3) [OF ok] by simp
  note parts = concat_at [OF lt] and others = hm_others [OF ok k] and home = hm_home(1-3) [OF ok k]
  have dist: "distinct (map hi_key (?A @ ?C @ ?B))" and cnt: "hm_count m = length (?A @ ?C @ ?B)"
    using hm_okD(4,5) [OF ok] parts(1) by simp_all
  have step: "hash_map_delete m (Some k) h = do {
      (p, r) \<leftarrow> find_chain (key_hash k) (Some k) ?C;
      Some (case r of [] \<Rightarrow> (None, m)
        | item # rest \<Rightarrow> (Some (hi_val item),
            m\<lparr>hm_pool := ?P[?p := p @ rest], hm_count := sz_sub (hm_count m) 1\<rparr>)) }"
    unfolding hash_map_delete_def key_or_hash_def
    by (simp only: option.case hash_fn_ok [OF k] Let_def home bind.bind_lunit)
  show ?thesis
  proof (cases "k \<in> hi_key ` set ?C")
    case True
    then obtain us y vs where C: "?C = us @ y # vs" "hi_key y = k" "k \<notin> hi_key ` set us"
      by (rule chain_split)
    have "hi_hash y = key_hash k" using hm_okD(7) [OF ok home(1), of y] C by (simp add: item_ok_def)
    moreover have "sz_sub (hm_count m) 1 = hm_count m - 1"
      using cnt C(1) hm_okD(6) [OF ok] by (intro sz_sub_small) simp_all
    ultimately have del: "hash_map_delete m (Some k) h = Some (Some (hi_val y),
        m\<lparr>hm_pool := ?P[?p := us @ vs], hm_count := hm_count m - 1\<rparr>)" (is "_ = Some (_, ?m)")
      using step find_chain_present [OF C(2) _ C(3)] C(1) by simp
    have items: "item_ok x \<and> target j x = ?p" if "x \<in> set (us @ vs)" for x
      using hm_okD(7) [OF ok home(1), of x] that C(1) by auto
    have "hm_ok ?m j"
      using dist cnt hm_okD(6) [OF ok] C(1) items
      by (intro hm_ok_update [OF ok home(1)]) (auto simp: parts(2))
    moreover have "map_of (entries (?A @ (us @ vs) @ ?B)) = (map_of (entries (?A @ ?C @ ?B)))(k := None)"
      using map_of_entries_del [of y "?A @ us" "vs @ ?B"] dist C
      by (simp add: image_Un del: entries_simps)
    moreover have "map_of (entries (?A @ ?C @ ?B)) k = Some (hi_val y)"
      using map_of_entries_mid [of y "?A @ us" "vs @ ?B"] others(1) C
      by (simp add: image_Un del: entries_simps)
    moreover have "k \<in> hi_key ` set (concat ?P)" using True parts(1) by auto
    ultimately show ?thesis using del parts by simp
  next
    case False
    then have out: "k \<notin> hi_key ` set (concat ?P)" using others unfolding parts(1) by auto
    then have "map_of (entries (concat ?P)) k = None" using map_of_entries_None by blast
    then show ?thesis using step find_chain_absent [OF False] ok out by (simp add: fun_upd_idem)
  qed
qed

section \<open>The hash map is a dictionary\<close>

lemma hm_count_card: "hm_rel m f \<Longrightarrow> hm_count m = card (dom f)"
proof -
  assume rel: "hm_rel m f"
  let ?xs = "concat (hm_pool m)"
  have "dom f = set (map hi_key ?xs)"
    using rel by (auto simp: hm_rel_def dom_map_of_conv_image_fst entries_def image_image)
  moreover have "distinct (map hi_key ?xs)" "hm_count m = length (map hi_key ?xs)"
    using rel by (auto simp: hm_rel_def hm_ok_def)
  ultimately show ?thesis using distinct_card [of "map hi_key ?xs"] by simp
qed

interpretation hmd: dict hm_rel key_ok "2 ^ 53"
  "\<lambda>m k v. map_option snd (hash_map_insert m k v)" "\<lambda>m k. hash_map_get m (Some k) 0"
  "\<lambda>m k. hash_map_delete m (Some k) 0"
proof unfold_locales
  fix m :: "'a hash_map" and f k v
  assume rel: "hm_rel m f"
  then obtain j where j: "hm_ok m j" and f: "f = map_of (entries (concat (hm_pool m)))"
    by (auto simp: hm_rel_def)
  show "finite (dom f)" by (simp add: f finite_dom_map_of)
  assume k: "key_ok k"
  show "\<exists>s'. map_option snd (hash_map_insert m k v) = Some s' \<and> hm_rel s' (f(k \<mapsto> v))"
    if "card (dom f) < 2 ^ 53"
  proof -
    have "hm_count m < 2 ^ 53" using hm_count_card [OF rel] that by simp
    from hash_map_insert_ok [OF j k this, of v] show ?thesis
      unfolding hm_rel_def f by (metis option.simps(9) snd_conv)
  qed
  show "hash_map_get m (Some k) 0 = Some (f k)" using hash_map_get_ok [OF j k] f by simp
  show "\<exists>s'. hash_map_delete m (Some k) 0 = Some (f k, s') \<and> hm_rel s' (f(k := None))"
    using hash_map_delete_ok [OF j k, of 0] unfolding hm_rel_def f by metis
qed

lemma hash_map_init_rel: "hm_rel (hash_map_init :: 'v hash_map) Map.empty"
proof -
  have size: "unat (round_up_pow2 (of_nat HASH_MAP_BASE_SIZE)) = 2 ^ 5"
    by (simp add: round_up_pow2_def HASH_MAP_BASE_SIZE_def Let_def)
  have "hm_ok (hash_map_init :: 'v hash_map) 5"
    by (simp add: hm_ok_def hash_map_init_def size Let_def)
  then show ?thesis by (auto simp: hm_rel_def hash_map_init_def size Let_def)
qed

section \<open>Iteration\<close>

lemma it_skip_ok:
  assumes "hm_capacity m = length (hm_pool m)" and "pos \<le> length (hm_pool m)"
  shows "pos \<le> it_skip m pos \<and> it_skip m pos \<le> length (hm_pool m) \<and>
     concat (drop pos (hm_pool m)) = concat (drop (it_skip m pos) (hm_pool m)) \<and>
     (it_skip m pos < length (hm_pool m) \<longrightarrow> hm_pool m ! it_skip m pos \<noteq> [])"
  using assms
proof (induction m pos rule: it_skip.induct)
  case (1 m pos)
  show ?case
  proof (cases "pos < hm_capacity m \<and> hm_pool m ! pos = []")
    case True
    then have "concat (drop pos (hm_pool m)) = concat (drop (Suc pos) (hm_pool m))"
      using 1(2) by (simp add: Cons_nth_drop_Suc [symmetric])
    then show ?thesis using 1 True by (subst (1 2 3 4 5) it_skip.simps) simp
  next
    case False
    then show ?thesis using 1(2,3) by (subst (1 2 3 4 5) it_skip.simps) auto
  qed
qed

lemma it_collect_ok:
  assumes cap: "hm_capacity m = length (hm_pool m)"
  shows "it_pos it \<le> length (hm_pool m) \<Longrightarrow> xs = it_item it @ concat (drop (it_pos it) (hm_pool m)) \<Longrightarrow>
    length xs < fuel \<Longrightarrow> it_collect fuel m it = Some (entries xs)"
proof (induction fuel arbitrary: it xs)
  case (Suc fuel)
  show ?case
  proof (cases "it_item it")
    case (Cons x rest)
    then show ?thesis
      using Suc.prems Suc.IH [of "it\<lparr>it_item := rest\<rparr>" "rest @ concat (drop (it_pos it) (hm_pool m))"]
      by (simp add: hash_map_it_next_def)
  next
    case Nil
    let ?q = "it_skip m (it_pos it)"
    note sk = it_skip_ok [OF cap Suc.prems(1)]
    show ?thesis
    proof (cases "?q < length (hm_pool m)")
      case True
      then obtain x rest where ch: "hm_pool m ! ?q = x # rest" using sk by (cases "hm_pool m ! ?q") auto
      then have xs: "xs = x # rest @ concat (drop (Suc ?q) (hm_pool m))"
        using Suc.prems(2) Nil sk Cons_nth_drop_Suc [OF True, symmetric] by simp
      then have "it_collect fuel m \<lparr>it_pos = Suc ?q, it_item = rest\<rparr> = Some (entries (tl xs))"
        using Suc.prems(3) True by (intro Suc.IH) auto
      then show ?thesis using Nil True ch xs cap by (simp add: hash_map_it_next_def Let_def)
    next
      case False
      then have "xs = []" using Suc.prems(2) Nil sk by simp
      then show ?thesis using Nil False cap by (simp add: hash_map_it_next_def Let_def)
    qed
  qed
qed simp

section \<open>Properties\<close>

text \<open>
  C4: the hash map implements a finite map: from \<open>hash_map_init\<close>, any sequence of fewer than \<open>2^53\<close>
  insertions, lookups and removals of C-string keys, including every rehash they trigger, runs
  without a failed assertion and answers exactly like the map from keys to values; the structure it
  leaves again represents that map, and its count is the number of keys.
\<close>

theorem hash_map_refines_map:
  assumes "list_all (\<lambda>op. key_ok (dop_key op)) ops" and "length ops \<le> 2 ^ 53"
  shows "\<exists>m'. run_dict (\<lambda>m k v. map_option snd (hash_map_insert m k v)) (\<lambda>m k. hash_map_get m (Some k) 0)
      (\<lambda>m k. hash_map_delete m (Some k) 0) hash_map_init ops = Some (fst (spec_dict Map.empty ops), m') \<and>
    hm_rel m' (snd (spec_dict Map.empty ops)) \<and> hm_count m' = card (dom (snd (spec_dict Map.empty ops)))"
proof -
  have "key_ok (dop_key op)" if "op \<in> set ops" for op using assms(1) that by (simp add: list_all_iff)
  then show ?thesis
    using hmd.run_dict_refines [OF hash_map_init_rel] assms(2) hm_count_card by fastforce
qed

theorem hash_map_refines_map_witness:
  "\<exists>m' :: nat hash_map. run_dict (\<lambda>m k v. map_option snd (hash_map_insert m k v)) (\<lambda>m k. hash_map_get m (Some k) 0)
      (\<lambda>m k. hash_map_delete m (Some k) 0) hash_map_init
      [DIns [97] 1, DIns [98, 99] 2, DIns [97] 3, DGet [97], DDel [98, 99], DGet [98, 99]] =
        Some ([None, None, None, Some 3, Some 2, None], m') \<and> hm_count m' = 1"
  using hash_map_refines_map [of "[DIns [97] 1, DIns [98, 99] (2::nat), DIns [97] 3, DGet [97], DDel [98, 99], DGet [98, 99]]"]
  by (auto simp: key_ok_def simp del: run_dict.simps)

text \<open>
  C33: \<open>hash_map_rehash\<close> of a well-formed map never fails its assertions, doubles the number of
  chains, moves every item to the chain of its hash, and keeps exactly the same items, hence the
  same contents.
\<close>

theorem hash_map_rehash_spec:
  assumes "hm_ok m k" and "k < 54"
  shows "\<exists>m'. hash_map_rehash m = Some m' \<and> hm_ok m' (Suc k) \<and> hm_capacity m' = 2 * hm_capacity m \<and>
    mset (concat (hm_pool m')) = mset (concat (hm_pool m)) \<and>
    map_of (entries (concat (hm_pool m'))) = map_of (entries (concat (hm_pool m)))"
proof -
  obtain m' where m': "hash_map_rehash m = Some m'" "hm_ok m' (Suc k)"
      "mset (concat (hm_pool m')) = mset (concat (hm_pool m))"
    using hash_map_rehash_ok [OF assms] by blast
  then have "map_of (entries (concat (hm_pool m'))) = map_of (entries (concat (hm_pool m)))"
    by (intro map_of_entries_mset) (auto dest: hm_okD(4))
  then show ?thesis using m' hm_okD(2) [OF assms(1)] hm_okD(2) [OF m'(2)] by simp
qed

theorem hash_map_rehash_spec_witness:
  "\<exists>m'. hash_map_rehash \<lparr>hm_pool = [[\<lparr>hi_hash = 177670, hi_key = [97], hi_val = 1 :: nat\<rparr>,
       \<lparr>hi_hash = 177671, hi_key = [98], hi_val = 2\<rparr>]], hm_capacity = 1, hm_count = 2\<rparr> = Some m' \<and>
     hm_capacity m' = 2"
  using hash_map_rehash_spec [of "\<lparr>hm_pool = [[\<lparr>hi_hash = 177670, hi_key = [97], hi_val = 1 :: nat\<rparr>,
       \<lparr>hi_hash = 177671, hi_key = [98], hi_val = 2\<rparr>]], hm_capacity = 1, hm_count = 2\<rparr>" 0]
  by (auto simp: hm_ok_def item_ok_def key_ok_def key_hash_def)

text \<open>
  C39: the loop \<open>HASH_MAP_FOREACH\<close> over a well-formed map, which calls \<open>hash_map_it_next\<close> until it returns something else than 0, ends after at most
  \<open>count + 1\<close> calls and visits every key exactly once, with its value.
\<close>

theorem hash_map_iteration:
  assumes "hm_rel m f"
  shows "\<exists>es. it_collect (hm_count m + 1) m hash_map_it_init = Some es \<and> distinct (map fst es) \<and> map_of es = f"
proof -
  obtain j where j: "hm_ok m j" and f: "f = map_of (entries (concat (hm_pool m)))"
    using assms by (auto simp: hm_rel_def)
  note d = hm_okD [OF j]
  have "it_collect (hm_count m + 1) m hash_map_it_init = Some (entries (concat (hm_pool m)))"
    using d by (intro it_collect_ok) (simp_all add: hash_map_it_init_def)
  moreover have "map fst (entries (concat (hm_pool m))) = map hi_key (concat (hm_pool m))"
    by (simp add: entries_def)
  ultimately show ?thesis using d(4) f by simp
qed

theorem hash_map_iteration_witness:
  "\<exists>es. it_collect 3 \<lparr>hm_pool = [[], [\<lparr>hi_hash = 177671, hi_key = [98], hi_val = 2 :: nat\<rparr>, \<lparr>hi_hash = 177673, hi_key = [100], hi_val = 4\<rparr>]], hm_capacity = 2, hm_count = 2\<rparr>
      hash_map_it_init = Some es \<and> distinct (map fst es) \<and> map_of es [100] = Some 4"
proof -
  let ?m = "\<lparr>hm_pool = [[], [\<lparr>hi_hash = 177671, hi_key = [98], hi_val = 2 :: nat\<rparr>, \<lparr>hi_hash = 177673, hi_key = [100], hi_val = 4\<rparr>]], hm_capacity = 2, hm_count = 2\<rparr>"
  have "hm_ok ?m 1" by (auto simp: hm_ok_def item_ok_def key_ok_def key_hash_def less_2_cases_iff)
  then have "hm_rel ?m (map_of [([98], 2), ([100], 4)])" by (auto simp: hm_rel_def entries_def)
  from hash_map_iteration [OF this] show ?thesis by auto
qed

text \<open>
  A lookup or a removal by hash alone (a null key) is undefined behaviour whenever an item with
  that hash is stored: the code compares the stored key with the null pointer.
\<close>

theorem hash_map_null_key:
  assumes "hm_ok m j" and "x \<in> set (concat (hm_pool m))"
  shows "hash_map_get m None (hi_hash x) = None \<and> hash_map_delete m None (hi_hash x) = None"
proof -
  obtain i where i: "i < length (hm_pool m)" "x \<in> set (hm_pool m ! i)"
    using assms(2) by (metis in_set_conv_nth in_set_conv_decomp concat_at(1) set_concat UN_iff)
  then have "target j x = i" using hm_okD(3,7) [OF assms(1)] by auto
  then have pos: "get_pool_pos (hm_capacity m) (hi_hash x) = i"
    using hm_okD(1,2) [OF assms(1)] get_pool_pos_pow2 [of j] by (simp add: target_def)
  have "find_chain (hi_hash x) None xs = None" if "x \<in> set xs" for xs
    using that by (induction xs) auto
  then show ?thesis
    using i by (simp add: hash_map_get_def hash_map_delete_def key_or_hash_def pos Let_def mem_simps)
qed

theorem hash_map_null_key_witness:
  "hash_map_get \<lparr>hm_pool = [[\<lparr>hi_hash = 177670, hi_key = [97], hi_val = 1 :: nat\<rparr>]], hm_capacity = 1, hm_count = 1\<rparr>
     None 177670 = None"
  using hash_map_null_key [of "\<lparr>hm_pool = [[\<lparr>hi_hash = 177670, hi_key = [97], hi_val = 1 :: nat\<rparr>]],
      hm_capacity = 1, hm_count = 1\<rparr>" 0 "\<lparr>hi_hash = 177670, hi_key = [97], hi_val = 1 :: nat\<rparr>"]
  by (auto simp: hm_ok_def item_ok_def key_ok_def key_hash_def)

end
