(* ===== verification/Endian.thy ===== *)
theory Endian
  imports Prelude
begin

text \<open>
  Little-endian 32-bit words in byte buffers: what the code reads and writes through
  \<^verbatim>\<open>uint32_t\<close> pointers and packed structures.
\<close>

definition le32 :: "u8 \<Rightarrow> u8 \<Rightarrow> u8 \<Rightarrow> u8 \<Rightarrow> u32" where
  "le32 b0 b1 b2 b3 = ucast b0 OR push_bit 8 (ucast b1) OR push_bit 16 (ucast b2) OR push_bit 24 (ucast b3)"

definition le32_bytes :: "u32 \<Rightarrow> bytes" where
  "le32_bytes w = [ucast w, ucast (drop_bit 8 w), ucast (drop_bit 16 w), ucast (drop_bit 24 w)]"

definition get32 :: "bytes \<Rightarrow> nat \<Rightarrow> u32 option" where
  "get32 buf off = Option.bind (mem_read buf (int off) 4)
     (\<lambda>bs. Some (le32 (bs ! 0) (bs ! 1) (bs ! 2) (bs ! 3)))"

definition put32 :: "bytes \<Rightarrow> nat \<Rightarrow> u32 \<Rightarrow> bytes option" where
  "put32 buf off w = mem_write buf (int off) (le32_bytes w)"

lemma le32_take:
  "take_bit 8 (le32 b0 b1 b2 b3) = ucast b0" "take_bit 8 (drop_bit 8 (le32 b0 b1 b2 b3)) = ucast b1"
  "take_bit 8 (drop_bit 16 (le32 b0 b1 b2 b3)) = ucast b2" "take_bit 8 (drop_bit 24 (le32 b0 b1 b2 b3)) = ucast b3"
  by (rule bit_word_eqI; auto simp: le32_def bit_simps dest: bit_imp_le_length)+

lemma le32_xor:
  "le32 b0 b1 b2 b3 = ucast b0 XOR push_bit 8 (ucast b1) XOR push_bit 16 (ucast b2) XOR push_bit 24 (ucast b3)"
  by (rule bit_word_eqI) (auto simp: le32_def bit_simps dest: bit_imp_le_length)

lemma length_le32_bytes [simp]: "length (le32_bytes w) = 4"
  by (simp add: le32_bytes_def)

lemma le32_le32_bytes: "le32 (ucast w) (ucast (drop_bit 8 w)) (ucast (drop_bit 16 w)) (ucast (drop_bit 24 w)) = (w :: u32)"
proof (rule bit_word_eqI)
  fix n assume "n < LENGTH(32)"
  then have "n < 32" by simp
  moreover have "n < 8 \<or> 8 \<le> n \<and> n < 16 \<or> 16 \<le> n \<and> n < 24 \<or> 24 \<le> n" by linarith
  ultimately show "bit (le32 (ucast w) (ucast (drop_bit 8 w)) (ucast (drop_bit 16 w)) (ucast (drop_bit 24 w))) n = bit w n"
    by (auto simp: le32_def bit_simps)
qed

lemma put32_ok: "off + 4 \<le> length buf \<Longrightarrow> put32 buf off w = Some (blit buf off (le32_bytes w))"
  by (simp add: put32_def mem_write_nat)

lemma get32_ok:
  "off + 4 \<le> length buf \<Longrightarrow>
   get32 buf off = Some (le32 (buf ! off) (buf ! (off + 1)) (buf ! (off + 2)) (buf ! (off + 3)))"
  by (simp add: get32_def mem_read_nat)

lemma get32_put_same:
  assumes "off + 4 \<le> length buf"
  shows "get32 (blit buf off (le32_bytes w)) off = Some w"
proof -
  have n: "blit buf off (le32_bytes w) ! (off + i) = le32_bytes w ! i" if "i < 4" for i
    using that assms nth_blit [of off "le32_bytes w" buf "off + i"] by simp
  show ?thesis
    using assms n [of 0] n [of 1] n [of 2] n [of 3] by (simp add: get32_ok le32_bytes_def le32_le32_bytes)
qed

lemma get32_blit_other:
  assumes "off + length bs \<le> length buf" and "o2 + 4 \<le> length buf" and "o2 + 4 \<le> off \<or> off + length bs \<le> o2"
  shows "get32 (blit buf off bs) o2 = get32 buf o2"
proof -
  have n: "blit buf off bs ! (o2 + i) = buf ! (o2 + i)" if "i < 4" for i
    using that assms nth_blit [OF assms(1), of "o2 + i"] by auto
  show ?thesis
    using assms n [of 0] n [of 1] n [of 2] n [of 3] by (simp add: get32_ok)
qed

end
