(* ===== verification/Crc32.thy ===== *)
theory Crc32
  imports Crc32_Tables Endian
begin

text \<open>
  CRC-32C of \<^verbatim>\<open>src/utils/src/crc32.c\<close>: the byte-wise routine, the slicing-by-8 routine and the
  dispatcher, against the bitwise definition of the code (reflected polynomial \<open>0x82F63B78\<close>). The
  buffer is the list of its bytes together with its address, whose low two bits select how many
  bytes are consumed before the first aligned word; reading past the buffer is \<open>None\<close>.
\<close>

section \<open>The code\<close>

fun table_loop :: "u32 list \<Rightarrow> nat \<Rightarrow> u32 \<Rightarrow> bytes \<Rightarrow> (u32 \<times> bytes) option" where
  \<comment> \<open>\<open>crc = table[(crc ^ *p++) & 0xff] ^ (crc >> 8)\<close>, \<open>n\<close> times\<close>
  "table_loop table 0 crc p = Some (crc, p)"
| "table_loop table (Suc n) crc [] = None"
| "table_loop table (Suc n) crc (b # p) = do {
     t \<leftarrow> arr_get table (uint ((crc XOR ucast b) AND 0xff));
     table_loop table n (t XOR drop_bit 8 crc) p
   }"

definition singletable_crc32c :: "u32 \<Rightarrow> bytes \<Rightarrow> nat \<Rightarrow> u32 option" where
  "singletable_crc32c crc buf len = map_option fst (table_loop crc32Table len crc buf)"

definition read_le32 :: "bytes \<Rightarrow> u32 option" where
  \<comment> \<open>\<open>*(const uint32_t *) p\<close> on a little-endian machine\<close>
  "read_le32 p = (case p of b0 # b1 # b2 # b3 # _ \<Rightarrow> Some (le32 b0 b1 b2 b3) | _ \<Rightarrow> None)"

definition tab8 :: "u32 list \<Rightarrow> u32 \<Rightarrow> u32 option" where
  \<comment> \<open>\<open>table[x & 0x000000FF]\<close>\<close>
  "tab8 table x = arr_get table (uint (x AND 0xff))"

definition sb8_tables :: "u32 \<Rightarrow> u32 option" where
  \<comment> \<open>the first four table terms of an iteration\<close>
  "sb8_tables crc = do {
     t88 \<leftarrow> tab8 sctp_crc_tableil8_o88 crc;
     t80 \<leftarrow> tab8 sctp_crc_tableil8_o80 (drop_bit 8 crc);
     let term1 = t88 XOR t80;
     let term2 = drop_bit 16 crc;
     t72 \<leftarrow> tab8 sctp_crc_tableil8_o72 term2;
     t64 \<leftarrow> tab8 sctp_crc_tableil8_o64 (drop_bit 8 term2);
     Some (term1 XOR t72 XOR t64)
   }"

definition sb8_block_le :: "u32 \<Rightarrow> bytes \<Rightarrow> (u32 \<times> bytes) option" where
  \<comment> \<open>one iteration of the main loop on a little-endian machine\<close>
  "sb8_block_le crc p = do {
     w \<leftarrow> read_le32 p;
     crc \<leftarrow> sb8_tables (crc XOR w);
     let p = drop 4 p;
     w \<leftarrow> read_le32 p;
     t56 \<leftarrow> tab8 sctp_crc_tableil8_o56 w;
     t48 \<leftarrow> tab8 sctp_crc_tableil8_o48 (drop_bit 8 w);
     let term1 = t56 XOR t48;
     let term2 = drop_bit 16 w;
     t40 \<leftarrow> tab8 sctp_crc_tableil8_o40 term2;
     t32 \<leftarrow> tab8 sctp_crc_tableil8_o32 (drop_bit 8 term2);
     Some (crc XOR term1 XOR t40 XOR t32, drop 4 p)
   }"

definition sb8_block_be :: "u32 \<Rightarrow> bytes \<Rightarrow> (u32 \<times> bytes) option" where
  \<comment> \<open>the variant that reads byte by byte; \<open>(*p_buf++) << 24\<close> shifts a promoted \<open>int\<close>, whose value for
    bytes from \<open>0x80\<close> is taken as two's complement compilers define it\<close>
  "sb8_block_be crc p =
     (case p of b0 # b1 # b2 # b3 # b4 # b5 # b6 # b7 # p \<Rightarrow> do {
        let crc = crc XOR ucast b0;
        let crc = crc XOR push_bit 8 (ucast b1);
        let crc = crc XOR push_bit 16 (ucast b2);
        let crc = crc XOR push_bit 24 (ucast b3);
        crc \<leftarrow> sb8_tables crc;
        t56 \<leftarrow> arr_get sctp_crc_tableil8_o56 (uint b4);
        t48 \<leftarrow> arr_get sctp_crc_tableil8_o48 (uint b5);
        t40 \<leftarrow> arr_get sctp_crc_tableil8_o40 (uint b6);
        t32 \<leftarrow> arr_get sctp_crc_tableil8_o32 (uint b7);
        Some (crc XOR t56 XOR t48 XOR t40 XOR t32, p)
      }
      | _ \<Rightarrow> None)"

fun sb8_loop :: "bool \<Rightarrow> nat \<Rightarrow> u32 \<Rightarrow> bytes \<Rightarrow> (u32 \<times> bytes) option" where
  "sb8_loop big 0 crc p = Some (crc, p)"
| "sb8_loop big (Suc n) crc p = do {
     (crc, p) \<leftarrow> (if big then sb8_block_be crc p else sb8_block_le crc p);
     sb8_loop big n crc p
   }"

definition crc32c_sb8_64_bit :: "bool \<Rightarrow> u32 \<Rightarrow> bytes \<Rightarrow> u32 \<Rightarrow> u32 \<Rightarrow> u32 option" where
  \<comment> \<open>\<open>big\<close>: the code was compiled with \<open>BYTE_ORDER == BIG_ENDIAN\<close>\<close>
  "crc32c_sb8_64_bit big crc p_buf len init_bytes = do {
     let running_length = ((len - init_bytes) div 8) * 8;
     let end_bytes = len - init_bytes - running_length;
     (crc, p) \<leftarrow> table_loop sctp_crc_tableil8_o32 (unat init_bytes) crc p_buf;
     (crc, p) \<leftarrow> sb8_loop big (unat (running_length div 8)) crc p;
     (crc, p) \<leftarrow> table_loop sctp_crc_tableil8_o32 (unat end_bytes) crc p;
     Some crc
   }"

definition multitable_crc32c :: "bool \<Rightarrow> u64 \<Rightarrow> u32 \<Rightarrow> bytes \<Rightarrow> u32 \<Rightarrow> u32 option" where
  \<comment> \<open>\<open>addr\<close> is the address of the buffer\<close>
  "multitable_crc32c big addr crc buffer len =
     (if len = 0 then Some crc
      else let to_even_word = ucast (4 - (addr AND 0x3))
           in crc32c_sb8_64_bit big crc buffer len to_even_word)"

definition compute_crc32 :: "bool \<Rightarrow> u64 \<Rightarrow> u32 \<Rightarrow> bytes \<Rightarrow> nat \<Rightarrow> u32 option" where
  \<comment> \<open>the \<open>size_t\<close> length is truncated to 32 bits for the multi-table routine\<close>
  "compute_crc32 big addr seed buffer len =
     (if len < 4 then singletable_crc32c seed buffer len
      else multitable_crc32c big addr seed buffer (of_nat len))"

section \<open>The bitwise definition\<close>

definition crc_bit :: "u32 \<Rightarrow> u32 \<Rightarrow> u32" where
  "crc_bit poly c = (if bit c 0 then drop_bit 1 c XOR poly else drop_bit 1 c)"

definition crc_byte :: "u32 \<Rightarrow> u32 \<Rightarrow> u32" where
  "crc_byte poly c = (crc_bit poly ^^ 8) c"

definition CRC32C_POLY :: u32 where
  "CRC32C_POLY = 0x82F63B78"

definition crc32c :: "u32 \<Rightarrow> bytes \<Rightarrow> u32" where
  "crc32c seed bs = foldl (\<lambda>c b. crc_byte CRC32C_POLY (c XOR ucast b)) seed bs"

lemma crc_bit_linear: "crc_bit poly (a XOR b) = crc_bit poly a XOR crc_bit poly b"
  by (rule bit_word_eqI) (auto simp: crc_bit_def bit_simps)

lemma crc_byte_linear: "crc_byte poly (a XOR b) = crc_byte poly a XOR crc_byte poly b"
proof -
  have "(crc_bit poly ^^ n) (a XOR b) = (crc_bit poly ^^ n) a XOR (crc_bit poly ^^ n) b" for n
    by (induction n) (simp_all add: crc_bit_linear)
  then show ?thesis by (simp add: crc_byte_def)
qed

lemma crc_bit_0 [simp]: "crc_bit poly 0 = 0"
  by (simp add: crc_bit_def)

lemma crc_byte_0 [simp]: "crc_byte poly 0 = 0"
  using crc_byte_linear [of poly 0 0] by simp

lemma crc_byte_shift: "take_bit 8 c = 0 \<Longrightarrow> crc_byte poly c = drop_bit 8 c"
proof -
  assume "take_bit 8 c = 0"
  then have low: "\<not> bit c i" if "i < 8" for i
    using that by (metis bit_0_eq bit_take_bit_iff bot_apply bot_bool_def)
  have "n \<le> 8 \<Longrightarrow> (crc_bit poly ^^ n) c = drop_bit n c" for n
  proof (induction n)
    case (Suc n)
    then show ?case using low [of n] by (simp add: crc_bit_def bit_drop_bit_eq)
  qed simp
  then show ?thesis by (simp add: crc_byte_def)
qed

section \<open>Linear tables\<close>

definition span :: "u32 list \<Rightarrow> u32 list" where
  \<comment> \<open>all exclusive-or combinations, in the order of the index bits\<close>
  "span vs = foldl (\<lambda>t v. t @ map ((XOR) v) t) [0] vs"

lemma map_span:
  assumes "f 0 = 0" and "\<And>a b. f (a XOR b) = f a XOR f b"
  shows "map f (span vs) = span (map f vs)"
proof -
  have "map f (foldl (\<lambda>t v. t @ map ((XOR) v) t) t vs) = foldl (\<lambda>t v. t @ map ((XOR) v) t) (map f t) (map f vs)" for t
    by (induction vs arbitrary: t) (simp_all add: assms(2) comp_def)
  then show ?thesis by (simp add: span_def assms(1))
qed

lemma span_bytes: "span [1, 2, 4, 8, 16, 32, 64, 128] = map of_nat [0..<256]"
proof -
  have "[0..<256] = 0 # 1 # [2..<256]" by (subst upt_conv_Cons, simp, subst upt_conv_Cons, simp_all add: numeral_2_eq_2)
  then show ?thesis by (simp add: span_def upt_rec_numeral del: One_nat_def)
qed


definition basis :: "nat \<Rightarrow> u32 list" where
  "basis n = map ((crc_byte CRC32C_POLY ^^ n) \<circ> of_nat) [1, 2, 4, 8, 16, 32, 64, 128]"

definition byte_table :: "nat \<Rightarrow> u32 list" where
  \<comment> \<open>the register after \<open>n\<close> further zero bytes, for every byte\<close>
  "byte_table n = map (\<lambda>b. (crc_byte CRC32C_POLY ^^ n) (of_nat b)) [0..<256]"

lemma crc_byte_eval: "crc_byte poly c = crc_bit poly (crc_bit poly (crc_bit poly (crc_bit poly (crc_bit poly
    (crc_bit poly (crc_bit poly (crc_bit poly c)))))))"
  by (simp add: crc_byte_def numeral_eq_Suc)

lemma pow_linear:
  "(crc_byte poly ^^ n) (a XOR b) = (crc_byte poly ^^ n) a XOR (crc_byte poly ^^ n) b" "(crc_byte poly ^^ n) 0 = 0"
  by (induction n) (simp_all add: crc_byte_linear)

lemma byte_table_span: "byte_table n = span (basis n)"
proof -
  have "byte_table n = map (crc_byte CRC32C_POLY ^^ n) (map of_nat [0..<256])"
    by (simp add: byte_table_def comp_def)
  also have "\<dots> = span (map (crc_byte CRC32C_POLY ^^ n) [1, 2, 4, 8, 16, 32, 64, 128])"
    unfolding span_bytes [symmetric] by (rule map_span) (simp_all add: pow_linear)
  finally show ?thesis by (simp add: basis_def)
qed

lemma basis_0: "basis 0 = [1, 2, 4, 8, 16, 32, 64, 128]"
  by (simp add: basis_def)

lemma basis_Suc: "basis (Suc n) = map (crc_byte CRC32C_POLY) (basis n)"
  by (simp add: basis_def)

lemmas basis_eval = basis_Suc crc_byte_eval crc_bit_def CRC32C_POLY_def

lemma basis_1: "basis (Suc 0) = [0xf26b8303, 0xe13b70f7, 0xc79a971f, 0x8ad958cf, 0x105ec76f, 0x20bd8ede, 0x417b1dbc, 0x82f63b78]"
  using basis_Suc [of 0] by (simp add: basis_0 crc_byte_eval crc_bit_def CRC32C_POLY_def)

lemma basis_2: "basis 2 = [0x13a29877, 0x274530ee, 0x4e8a61dc, 0x9d14c3b8, 0x3fc5f181, 0x7f8be302, 0xff17c604, 0xfbc3faf9]"
  unfolding numeral_2_eq_2 basis_Suc [of "Suc 0"] by (simp add: basis_1 crc_byte_eval crc_bit_def CRC32C_POLY_def)

lemma basis_3: "basis 3 = [0xa541927e, 0x4f6f520d, 0x9edea41a, 0x38513ec5, 0x70a27d8a, 0xe144fb14, 0xc76580d9, 0x8b277743]"
  using basis_Suc [of 2] by (simp add: basis_2 crc_byte_eval crc_bit_def CRC32C_POLY_def)

lemma basis_4: "basis 4 = [0xdd45aab8, 0xbf672381, 0x7b2231f3, 0xf64463e6, 0xe964b13d, 0xd725148b, 0xaba65fe7, 0x52a0c93f]"
  using basis_Suc [of 3] by (simp add: basis_3 crc_byte_eval crc_bit_def CRC32C_POLY_def)

lemma basis_5: "basis 5 = [0x38116fac, 0x7022df58, 0xe045beb0, 0xc5670b91, 0x8f2261d3, 0x1ba8b557, 0x37516aae, 0x6ea2d55c]"
  using basis_Suc [of 4] by (simp add: basis_4 crc_byte_eval crc_bit_def CRC32C_POLY_def)

lemma basis_6: "basis 6 = [0xef306b19, 0xdb8ca0c3, 0xb2f53777, 0x6006181f, 0xc00c303e, 0x85f4168d, 0xe045beb, 0x1c08b7d6]"
  using basis_Suc [of 5] by (simp add: basis_5 crc_byte_eval crc_bit_def CRC32C_POLY_def)

lemma basis_7: "basis 7 = [0x68032cc8, 0xd0065990, 0xa5e0c5d1, 0x4e2dfd53, 0x9c5bfaa6, 0x3d5b83bd, 0x7ab7077a, 0xf56e0ef4]"
  using basis_Suc [of 6] by (simp add: basis_6 crc_byte_eval crc_bit_def CRC32C_POLY_def)

lemma basis_8: "basis 8 = [0x493c7d27, 0x9278fa4e, 0x211d826d, 0x423b04da, 0x847609b4, 0xd006599, 0x1a00cb32, 0x34019664]"
  using basis_Suc [of 7] by (simp add: basis_7 crc_byte_eval crc_bit_def CRC32C_POLY_def)

lemma table_o32: "sctp_crc_tableil8_o32 = byte_table (Suc 0)"
  by (simp add: byte_table_span basis_1 span_def sctp_crc_tableil8_o32_def)

lemma table_o40: "sctp_crc_tableil8_o40 = byte_table 2"
  by (simp add: byte_table_span basis_2 span_def sctp_crc_tableil8_o40_def)

lemma table_o48: "sctp_crc_tableil8_o48 = byte_table 3"
  by (simp add: byte_table_span basis_3 span_def sctp_crc_tableil8_o48_def)

lemma table_o56: "sctp_crc_tableil8_o56 = byte_table 4"
  by (simp add: byte_table_span basis_4 span_def sctp_crc_tableil8_o56_def)

lemma table_o64: "sctp_crc_tableil8_o64 = byte_table 5"
  by (simp add: byte_table_span basis_5 span_def sctp_crc_tableil8_o64_def)

lemma table_o72: "sctp_crc_tableil8_o72 = byte_table 6"
  by (simp add: byte_table_span basis_6 span_def sctp_crc_tableil8_o72_def)

lemma table_o80: "sctp_crc_tableil8_o80 = byte_table 7"
  by (simp add: byte_table_span basis_7 span_def sctp_crc_tableil8_o80_def)

lemma table_o88: "sctp_crc_tableil8_o88 = byte_table 8"
  by (simp add: byte_table_span basis_8 span_def sctp_crc_tableil8_o88_def)

lemma table_single: "crc32Table = byte_table (Suc 0)"
  by (simp add: byte_table_span basis_1 span_def crc32Table_def)


section \<open>Byte steps\<close>

lemma length_byte_table [simp]: "length (byte_table n) = 256"
  by (simp add: byte_table_def)

lemma byte_index: "uint ((x :: u32) AND 0xff) = int (unat (take_bit 8 x))" "unat (take_bit 8 (x :: u32)) < 256"
proof -
  have "x AND 0xff = take_bit 8 x" by (simp add: take_bit_eq_mask mask_eq_exp_minus_1)
  then show "uint (x AND 0xff) = int (unat (take_bit 8 x))" by simp
  have "unat (take_bit 8 x) < 2 ^ 8" unfolding unsigned_take_bit_eq by (rule take_bit_nat_less_exp)
  then show "unat (take_bit 8 x) < 256" by simp
qed

lemma byte_table_get: "arr_get (byte_table n) (uint ((x :: u32) AND 0xff)) = Some ((crc_byte CRC32C_POLY ^^ n) (take_bit 8 x))"
proof -
  have "(of_nat (unat (take_bit 8 x)) :: u32) = take_bit 8 x" by simp
  then show ?thesis
    unfolding byte_index(1) using byte_index(2) [of x] by (simp only: arr_get_nat length_byte_table) (simp add: byte_table_def)
qed

lemma crc_byte_split: "crc_byte poly c = crc_byte poly (take_bit 8 c) XOR drop_bit 8 c"
proof -
  let ?h = "push_bit 8 (drop_bit 8 c)"
  have c: "c = take_bit 8 c XOR ?h" by (rule bit_word_eqI) (auto simp: bit_simps)
  have "crc_byte poly c = crc_byte poly (take_bit 8 c) XOR crc_byte poly ?h"
    by (subst c) (rule crc_byte_linear)
  also have "crc_byte poly ?h = drop_bit 8 ?h"
    by (rule crc_byte_shift) (rule bit_word_eqI, auto simp: bit_simps)
  also have "drop_bit 8 ?h = drop_bit 8 c" by (rule bit_word_eqI) (auto simp: bit_simps dest: bit_imp_le_length)
  finally show ?thesis .
qed

lemma drop_bit_8_xor_byte: "drop_bit 8 (c XOR ucast (b :: u8)) = drop_bit 8 (c :: u32)"
  by (rule bit_word_eqI) (auto simp: bit_simps dest: bit_imp_le_length)

lemma table_loop_ok:
  "n \<le> length p \<Longrightarrow> table_loop (byte_table (Suc 0)) n crc p = Some (crc32c crc (take n p), drop n p)"
proof (induction n arbitrary: crc p)
  case 0
  then show ?case by (simp add: crc32c_def)
next
  case (Suc n)
  then obtain b p' where p: "p = b # p'" by (cases p) auto
  have "crc_byte CRC32C_POLY (take_bit 8 (crc XOR ucast b)) XOR drop_bit 8 crc = crc_byte CRC32C_POLY (crc XOR ucast b)"
    using crc_byte_split [of CRC32C_POLY "crc XOR ucast b"] by (simp only: drop_bit_8_xor_byte)
  then show ?case
    using Suc by (simp add: p byte_table_get crc32c_def)
qed

section \<open>Eight bytes at a time\<close>

abbreviation crc_zeros :: "nat \<Rightarrow> u32 \<Rightarrow> u32" where
  \<comment> \<open>the register after \<open>n\<close> zero bytes\<close>
  "crc_zeros n \<equiv> crc_byte CRC32C_POLY ^^ n"

lemma zeros_split: "crc_zeros (Suc n) c = crc_zeros (Suc n) (take_bit 8 c) XOR crc_zeros n (drop_bit 8 c)"
  unfolding funpow_Suc_right comp_apply
  by (subst crc_byte_split) (simp add: pow_linear)

lemma drop_bit_32: "drop_bit 32 (c :: u32) = 0"
  by (rule bit_word_eqI) (auto simp: bit_simps dest: bit_imp_le_length)

lemma zeros_bytes:
  "crc_zeros (4 + n) c = crc_zeros (4 + n) (take_bit 8 c) XOR crc_zeros (3 + n) (take_bit 8 (drop_bit 8 c)) XOR
     crc_zeros (2 + n) (take_bit 8 (drop_bit 16 c)) XOR crc_zeros (1 + n) (take_bit 8 (drop_bit 24 c))"
proof -
  have "4 + n = Suc (3 + n)" "3 + n = Suc (2 + n)" "2 + n = Suc (1 + n)" "1 + n = Suc n" by simp_all
  then have "crc_zeros (4 + n) c = crc_zeros (4 + n) (take_bit 8 c) XOR (crc_zeros (3 + n) (take_bit 8 (drop_bit 8 c)) XOR
      (crc_zeros (2 + n) (take_bit 8 (drop_bit 8 (drop_bit 8 c))) XOR
       (crc_zeros (1 + n) (take_bit 8 (drop_bit 8 (drop_bit 8 (drop_bit 8 c)))) XOR
        crc_zeros n (drop_bit 8 (drop_bit 8 (drop_bit 8 (drop_bit 8 c)))))))"
    using zeros_split [of "3 + n" c] zeros_split [of "2 + n" "drop_bit 8 c"] zeros_split [of "1 + n" "drop_bit 8 (drop_bit 8 c)"]
      zeros_split [of n "drop_bit 8 (drop_bit 8 (drop_bit 8 c))"] by metis
  moreover have "drop_bit 8 (drop_bit 8 c) = drop_bit 16 c" "drop_bit 8 (drop_bit 16 c) = drop_bit 24 c"
      "drop_bit 8 (drop_bit 24 c) = 0"
    by (simp_all add: drop_bit_drop_bit drop_bit_32)
  ultimately show ?thesis by (simp only: pow_linear(2) xor.assoc xor.right_neutral)
qed

lemma crc32c_4: "crc32c c [b0, b1, b2, b3] = crc_zeros 4 (c XOR le32 b0 b1 b2 b3)"
proof -
  have "crc_zeros 4 (le32 b0 b1 b2 b3) = crc_zeros 4 (ucast b0) XOR crc_zeros 3 (ucast b1) XOR crc_zeros 2 (ucast b2) XOR crc_zeros 1 (ucast b3)"
    using zeros_bytes [of 0 "le32 b0 b1 b2 b3"] by (simp add: le32_take)
  then show ?thesis
    by (simp add: crc32c_def pow_linear crc_byte_linear numeral_eq_Suc ac_simps)
qed

lemma tab8_get: "tab8 (byte_table n) x = Some (crc_zeros n (take_bit 8 x))"
  by (simp add: tab8_def byte_table_get)

lemma byte_table_get_byte: "arr_get (byte_table n) (uint (b :: u8)) = Some (crc_zeros n (ucast b))"
proof -
  have "take_bit 8 (ucast b :: u32) = ucast b" by (rule bit_word_eqI) (auto simp: bit_simps dest: bit_imp_le_length)
  moreover have "uint ((ucast b :: u32) AND 0xff) = uint b"
  proof -
    have "unat b < 2 ^ 32" using unsigned_less [of b, where 'a = nat] by simp
    then have "unat (ucast b :: u32) = unat b" by (simp add: unsigned_ucast_eq take_bit_nat_eq_self)
    then show ?thesis
      unfolding byte_index(1) \<open>take_bit 8 (ucast b :: u32) = ucast b\<close> by simp
  qed
  ultimately show ?thesis using byte_table_get [of n "ucast b"] by simp
qed

lemmas sb8_byte_tables = table_o32 table_o40 table_o48 table_o56 table_o64 table_o72 table_o80 table_o88

lemma sb8_tables_ok: "sb8_tables x = Some (crc_zeros 8 x)"
  using zeros_bytes [of 4 x]
  by (simp add: sb8_tables_def sb8_byte_tables tab8_get drop_bit_drop_bit xor.assoc)

lemma crc32c_append: "crc32c c (xs @ ys) = crc32c (crc32c c xs) ys"
  by (simp add: crc32c_def)

lemma crc32c_8:
  "crc32c c [b0, b1, b2, b3, b4, b5, b6, b7] =
     crc_zeros 8 (c XOR le32 b0 b1 b2 b3) XOR crc_zeros 4 (le32 b4 b5 b6 b7)"
proof -
  have "crc32c c ([b0, b1, b2, b3] @ [b4, b5, b6, b7]) =
      crc_zeros 4 (crc_zeros 4 (c XOR le32 b0 b1 b2 b3) XOR le32 b4 b5 b6 b7)"
    by (simp only: crc32c_append crc32c_4)
  also have "\<dots> = crc_zeros (4 + 4) (c XOR le32 b0 b1 b2 b3) XOR crc_zeros 4 (le32 b4 b5 b6 b7)"
    by (simp only: pow_linear(1) funpow_add comp_apply)
  finally show ?thesis by simp
qed

lemma zeros_4_le32:
  "crc_zeros 4 (le32 b0 b1 b2 b3) =
     crc_zeros 4 (ucast b0) XOR crc_zeros 3 (ucast b1) XOR crc_zeros 2 (ucast b2) XOR crc_zeros (Suc 0) (ucast b3)"
  using zeros_bytes [of 0 "le32 b0 b1 b2 b3"] by (simp add: le32_take)

lemma eight_bytes:
  assumes "8 \<le> length p"
  obtains b0 b1 b2 b3 b4 b5 b6 b7 p' where "p = b0 # b1 # b2 # b3 # b4 # b5 # b6 # b7 # p'"
  using assms by (auto simp: numeral_eq_Suc Suc_le_length_iff)

lemma sb8_block_ok:
  assumes "8 \<le> length p"
  shows "sb8_block_le crc p = Some (crc32c crc (take 8 p), drop 8 p)"
    and "sb8_block_be crc p = Some (crc32c crc (take 8 p), drop 8 p)"
proof -
  obtain b0 b1 b2 b3 b4 b5 b6 b7 p' where p: "p = b0 # b1 # b2 # b3 # b4 # b5 # b6 # b7 # p'"
    using assms by (rule eight_bytes)
  have td: "take 8 p = [b0, b1, b2, b3, b4, b5, b6, b7]" "drop 8 p = p'" by (simp_all add: p)
  have r1: "read_le32 p = Some (le32 b0 b1 b2 b3)" and r2: "read_le32 (drop 4 p) = Some (le32 b4 b5 b6 b7)"
    by (simp_all add: p read_le32_def)
  have d: "drop 4 (drop 4 p) = p'" by (simp add: p)
  show "sb8_block_le crc p = Some (crc32c crc (take 8 p), drop 8 p)"
    unfolding sb8_block_le_def r1 td crc32c_8 zeros_4_le32
    by (simp only: bind.bind_lunit sb8_tables_ok Let_def r2 d sb8_byte_tables tab8_get drop_bit_drop_bit)
       (simp add: le32_take xor.assoc)
  have x: "crc XOR ucast b0 XOR push_bit 8 (ucast b1) XOR push_bit 16 (ucast b2) XOR push_bit 24 (ucast b3) =
      crc XOR le32 b0 b1 b2 b3"
    by (simp add: le32_xor xor.assoc)
  show "sb8_block_be crc p = Some (crc32c crc (take 8 p), drop 8 p)"
    unfolding td crc32c_8 zeros_4_le32
    by (simp add: sb8_block_be_def p Let_def x sb8_tables_ok sb8_byte_tables byte_table_get_byte xor.assoc)
qed

lemma sb8_loop_ok:
  "8 * n \<le> length p \<Longrightarrow> sb8_loop big n crc p = Some (crc32c crc (take (8 * n) p), drop (8 * n) p)"
proof (induction n arbitrary: crc p)
  case 0
  then show ?case by (simp add: crc32c_def)
next
  case (Suc n)
  have td: "take (8 * Suc n) p = take 8 p @ take (8 * n) (drop 8 p)" "drop (8 * Suc n) p = drop (8 * n) (drop 8 p)"
    by (simp_all add: take_add add.commute)
  have "sb8_loop big (Suc n) crc p = sb8_loop big n (crc32c crc (take 8 p)) (drop 8 p)"
    using sb8_block_ok [of p crc] Suc.prems by simp
  also have "\<dots> = Some (crc32c (crc32c crc (take 8 p)) (take (8 * n) (drop 8 p)), drop (8 * n) (drop 8 p))"
    using Suc.prems by (intro Suc.IH) simp
  finally show ?case by (simp only: td crc32c_append)
qed

lemma sb8_ok:
  fixes len init :: u32
  assumes "unat len = length p" and "init \<le> len"
  shows "crc32c_sb8_64_bit big crc p len init = Some (crc32c crc p)"
proof -
  let ?i = "unat init" and ?r = "unat len - unat init"
  let ?d = "(len - init) div 8"
  have le: "?i \<le> length p" using assms by (simp add: word_le_nat_alt)
  have sub: "unat (len - init) = ?r" using assms(2) by (simp add: unat_sub)
  have d: "unat ?d = ?r div 8" by (simp add: unat_div sub)
  have small: "?r div 8 * 8 < 2 ^ 32" using unsigned_less [of len, where 'a = nat] by simp
  have "unat (?d * 8) = (unat ?d * 8) mod 2 ^ 32" by (simp add: unat_word_ariths(2))
  then have run: "unat (?d * 8) = ?r div 8 * 8" unfolding d using small by simp
  then have run8: "unat (?d * 8 div 8) = ?r div 8" by (simp add: unat_div)
  have fin: "unat (len - init - ?d * 8) = ?r - ?r div 8 * 8"
    using run sub by (subst unat_sub) (simp_all add: word_le_nat_alt)
  let ?p1 = "drop ?i p" and ?p2 = "drop (?r div 8 * 8) (drop ?i p)"
  have "8 * (?r div 8) \<le> length ?p1" using assms(1) by simp
  note loop = sb8_loop_ok [OF this, of big]
  have "?r - ?r div 8 * 8 \<le> length ?p2" using assms(1) by simp
  note tail = table_loop_ok [OF this]
  have whole: "p = take ?i p @ take (?r div 8 * 8) ?p1 @ take (?r - ?r div 8 * 8) ?p2"
    using assms(1) by (simp flip: drop_drop)
  have "crc32c_sb8_64_bit big crc p len init =
      Some (crc32c (crc32c (crc32c crc (take ?i p)) (take (?r div 8 * 8) ?p1)) (take (?r - ?r div 8 * 8) ?p2))"
    unfolding crc32c_sb8_64_bit_def Let_def table_o32 run8 fin
    using table_loop_ok [OF le, of crc] loop tail by (simp add: mult.commute)
  then show ?thesis by (simp only: crc32c_append [symmetric] append_assoc whole [symmetric])
qed


lemma single_ok: "length p = n \<Longrightarrow> singletable_crc32c crc p n = Some (crc32c crc p)"
  using table_loop_ok [of n p crc] by (simp add: singletable_crc32c_def table_single)

section \<open>Properties\<close>

text \<open>
  C19: for every buffer of less than \<open>2^32\<close> bytes at every address, on both kinds of byte order,
  \<open>compute_crc32\<close> reads exactly the buffer and computes the CRC-32C register update defined bit by
  bit: the eight slicing tables and the byte table are correct, and so are the splits at the word
  boundary and at the tail.
\<close>

theorem compute_crc32_correct:
  assumes "length buffer < 2 ^ 32"
  shows "compute_crc32 big addr seed buffer (length buffer) = Some (crc32c seed buffer)"
proof (cases "length buffer < 4")
  case True
  then show ?thesis by (simp add: compute_crc32_def single_ok)
next
  case False
  let ?len = "of_nat (length buffer) :: u32" and ?e = "ucast (4 - (addr AND 0x3)) :: u32"
  have len: "unat ?len = length buffer" using assms by (simp add: unat_of_nat)
  have "addr AND 0x3 \<le> 3" by (rule word_and_le1)
  then have "unat (addr AND 0x3) \<le> 3" by (simp add: word_le_nat_alt)
  then have "unat (4 - (addr AND 0x3)) \<le> 4" by (subst unat_sub) (simp_all add: word_le_nat_alt)
  moreover have "unat ?e \<le> unat (4 - (addr AND 0x3))"
    unfolding unsigned_ucast_eq by (rule take_bit_nat_less_eq_self)
  ultimately have "unat ?e \<le> 4" by linarith
  then have "?e \<le> ?len" using False len by (simp add: word_le_nat_alt)
  moreover have "?len \<noteq> 0" using False len by auto
  ultimately show ?thesis
    using False sb8_ok [OF len, of ?e] by (simp add: compute_crc32_def multitable_crc32c_def Let_def)
qed

theorem compute_crc32_correct_witness:
  "compute_crc32 False 5 0 [1, 2, 3, 4, 5, 6, 7, 8, 9] (length [1, 2, 3, 4, 5, 6, 7, 8, 9 :: u8]) =
     Some (crc32c 0 [1, 2, 3, 4, 5, 6, 7, 8, 9])"
  using compute_crc32_correct [of "[1, 2, 3, 4, 5, 6, 7, 8, 9]" False 5 0] by simp

definition ieee_basis :: "u32 list" where
  "ieee_basis = map (crc_byte 0xEDB88320) [1, 2, 4, 8, 16, 32, 64, 128]"

text \<open>
  the exported table of the IEEE polynomial, kept for the documented \<open>crc32\<close> routine, holds for
  every byte the register after eight bit steps with the reflected polynomial \<open>0xEDB88320\<close>.
\<close>

theorem crc32_tab_correct: "crc32_tab = map (\<lambda>b. crc_byte 0xEDB88320 (of_nat b)) [0..<256]"
proof -
  have "crc32_tab = span ieee_basis"
    by (simp add: crc32_tab_def span_def ieee_basis_def crc_byte_eval crc_bit_def)
  also have "\<dots> = map (crc_byte 0xEDB88320) (span [1, 2, 4, 8, 16, 32, 64, 128])"
    unfolding ieee_basis_def by (rule map_span [symmetric]) (simp_all add: crc_byte_linear)
  finally show ?thesis by (simp add: span_bytes comp_def)
qed

end
