(* ===== verification/Slab.thy ===== *)
theory Slab
  imports Endian Bitops
begin

text \<open>
  The slab allocator of \<^verbatim>\<open>src/utils/src/slab.c\<close> on the bytes of its arena: every unit starts with the
  packed header \<^verbatim>\<open>leased\<close>, \<^verbatim>\<open>canary\<close>, followed by the data. A block is its offset in the arena.
  \<open>slab_client\<close> is a client of the allocator that allocates, writes into its blocks and frees them.
\<close>

record slab_t =
  sl_blob :: bytes
  sl_size :: nat
  sl_count :: nat

definition UNIT_HEADER :: nat where
  \<comment> \<open>\<open>sizeof(struct slab_unit)\<close>, and the offset of \<open>data\<close>\<close>
  "UNIT_HEADER = 8"

definition CANARY :: u32 where
  "CANARY = 0xdeadbeaf"

definition slab_init :: "slab_t \<Rightarrow> nat \<Rightarrow> bytes \<Rightarrow> nat \<Rightarrow> (int \<times> slab_t) option" where
  "slab_init slab slab_size blob blob_size =
     (let slab = slab\<lparr>sl_size := sz_add (round_up slab_size 8) UNIT_HEADER\<rparr> in
      if sl_size slab > blob_size then Some (-1, slab)
      else do {
        let slab = slab\<lparr>sl_count := blob_size div sl_size slab\<rparr>;
        blob \<leftarrow> mem_write blob 0 (replicate blob_size 0);
        let slab = slab\<lparr>sl_blob := blob\<rparr>;
        Some (sint (word_of_nat (sl_count slab) :: u32), slab)
      })"

function slab_alloc_loop :: "nat \<Rightarrow> slab_t \<Rightarrow> (int \<times> nat option \<times> slab_t) option" where
  "slab_alloc_loop i slab =
     (if i < sl_count slab then do {
        let p = sz_mul i (sl_size slab);
        leased \<leftarrow> get32 (sl_blob slab) p;
        if leased = 0 then do {
          blob \<leftarrow> put32 (sl_blob slab) p 1;
          blob \<leftarrow> put32 blob (p + 4) CANARY;
          Some (0, Some (p + UNIT_HEADER), slab\<lparr>sl_blob := blob\<rparr>)
        }
        else slab_alloc_loop (Suc i) slab
      }
      else Some (-1, None, slab))"
  by pat_completeness auto
termination
  by (relation "measure (\<lambda>(i, slab). sl_count slab - i)") auto

declare slab_alloc_loop.simps [simp del]

definition slab_alloc :: "slab_t \<Rightarrow> (int \<times> nat option \<times> slab_t) option" where
  \<comment> \<open>the status, the value stored in \<open>*block\<close> if any, and the slab\<close>
  "slab_alloc slab = slab_alloc_loop 0 slab"

definition slab_free :: "slab_t \<Rightarrow> nat \<Rightarrow> (int \<times> slab_t) option" where
  "slab_free slab block =
     (if block < UNIT_HEADER then None
      else do {
        let p = block - UNIT_HEADER;
        canary \<leftarrow> get32 (sl_blob slab) (p + 4);
        if canary \<noteq> CANARY then Some (-1, slab)
        else do {
          blob \<leftarrow> put32 (sl_blob slab) p 0;
          Some (0, slab\<lparr>sl_blob := blob\<rparr>)
        }
      })"

section \<open>A client\<close>

inductive slab_client :: "nat \<Rightarrow> bytes \<Rightarrow> slab_t \<Rightarrow> (nat \<rightharpoonup> bytes) \<Rightarrow> bool" for slab_size arena where
  start: "slab_init slab slab_size arena (length arena) = Some (n, s) \<Longrightarrow> n \<noteq> -1 \<Longrightarrow> slab_client slab_size arena s Map.empty"
| alloc: "slab_client slab_size arena s live \<Longrightarrow> slab_alloc s = Some (0, Some b, s') \<Longrightarrow>
     mem_read (sl_blob s') (int b) slab_size = Some d \<Longrightarrow> slab_client slab_size arena s' (live(b \<mapsto> d))"
| store: "slab_client slab_size arena s live \<Longrightarrow> live b = Some d \<Longrightarrow> k + length bs \<le> slab_size \<Longrightarrow>
     mem_write (sl_blob s) (int (b + k)) bs = Some blob \<Longrightarrow>
     slab_client slab_size arena (s\<lparr>sl_blob := blob\<rparr>) (live(b \<mapsto> blit d k bs))"
| free: "slab_client slab_size arena s live \<Longrightarrow> live b = Some d \<Longrightarrow> slab_free s b = Some (0, s') \<Longrightarrow>
     slab_client slab_size arena s' (live(b := None))"

section \<open>Units\<close>

lemma clear_low_bits: "(w :: 'a :: len word) AND NOT (mask k) = push_bit k (drop_bit k w)"
  by (rule bit_word_eqI) (auto simp: bit_simps)

lemma round_up_8:
  assumes "x + 7 < 2 ^ 64"
  shows "round_up x 8 = (x + 7) div 8 * 8"
proof -
  let ?w = "word_of_nat x + word_of_nat 8 - 1 :: u64"
  have "unat (word_of_nat (x + 7) :: u64) = x + 7"
    using assms by (simp add: unsigned_of_nat take_bit_nat_eq_self del: of_nat_add of_nat_numeral)
  moreover have w: "?w = word_of_nat (x + 7)" by (simp add: add.commute)
  ultimately have u: "unat ?w = x + 7" by (simp only: w)
  have "(word_of_nat 8 - 1 :: u64) = mask 3" by (simp add: mask_eq_exp_minus_1)
  then have "?w AND NOT (word_of_nat 8 - 1 :: u64) = push_bit 3 (drop_bit 3 ?w)"
    using clear_low_bits [of ?w 3] by (simp only:)
  then have "round_up x 8 = unat (push_bit 3 (drop_bit 3 ?w))" by (simp only: round_up_def)
  also have "\<dots> = take_bit 64 (unat ?w div 8 * 8)"
    using u assms
    by (simp only: unsigned_push_bit_eq unsigned_drop_bit_eq) (simp add: push_bit_eq_mult drop_bit_eq_div take_bit_nat_eq_self)
  also have "\<dots> = (x + 7) div 8 * 8"
    unfolding u using assms by (intro take_bit_nat_eq_self) (meson div_times_less_eq_dividend le_less_trans)
  finally show ?thesis .
qed

lemma data_blit_other:
  assumes "off + length bs \<le> length buf" and "o2 + n \<le> length buf" and "o2 + n \<le> off \<or> off + length bs \<le> o2"
  shows "take n (drop o2 (blit buf off bs)) = take n (drop o2 buf)"
proof (rule nth_equalityI)
  show "length (take n (drop o2 (blit buf off bs))) = length (take n (drop o2 buf))" using assms(1) by simp
  fix i assume "i < length (take n (drop o2 (blit buf off bs)))"
  then have "i < n" by simp
  then show "take n (drop o2 (blit buf off bs)) ! i = take n (drop o2 buf) ! i"
    using assms nth_blit [OF assms(1), of "o2 + i"] by auto
qed

lemma data_blit_inside:
  assumes "k + length bs \<le> n" and "b + n \<le> length buf"
  shows "take n (drop b (blit buf (b + k) bs)) = blit (take n (drop b buf)) k bs"
proof (rule nth_equalityI)
  show "length (take n (drop b (blit buf (b + k) bs))) = length (blit (take n (drop b buf)) k bs)" using assms by simp
  fix i assume "i < length (take n (drop b (blit buf (b + k) bs)))"
  then have "i < n" by simp
  then show "take n (drop b (blit buf (b + k) bs)) ! i = blit (take n (drop b buf)) k bs ! i"
    using assms nth_blit [of "b + k" bs buf "b + i"] nth_blit [of k bs "take n (drop b buf)" i] by auto
qed

definition unit_ok :: "nat \<Rightarrow> slab_t \<Rightarrow> bytes option \<Rightarrow> nat \<Rightarrow> bool" where
  \<comment> \<open>unit \<open>i\<close> is free, or leased with contents \<open>d\<close>\<close>
  "unit_ok n s v i =
     (let p = i * sl_size s in
      case v of None \<Rightarrow> get32 (sl_blob s) p = Some 0
      | Some d \<Rightarrow> get32 (sl_blob s) p = Some 1 \<and> get32 (sl_blob s) (p + 4) = Some CANARY \<and>
          length d = n \<and> take n (drop (p + 8) (sl_blob s)) = d)"

definition slab_inv :: "nat \<Rightarrow> slab_t \<Rightarrow> (nat \<rightharpoonup> bytes) \<Rightarrow> bool" where
  "slab_inv n s live \<longleftrightarrow>
     n + 8 \<le> sl_size s \<and> sl_count s * sl_size s \<le> length (sl_blob s) \<and> length (sl_blob s) < 2 ^ 64 \<and>
     dom live \<subseteq> (\<lambda>i. i * sl_size s + 8) ` {..<sl_count s} \<and>
     (\<forall>i < sl_count s. unit_ok n s (live (i * sl_size s + 8)) i)"

lemma slab_invD:
  assumes "slab_inv n s live"
  shows "n + 8 \<le> sl_size s" "length (sl_blob s) < 2 ^ 64" "\<And>i. i < sl_count s \<Longrightarrow> unit_ok n s (live (i * sl_size s + 8)) i"
    and "\<And>i. i < sl_count s \<Longrightarrow> i * sl_size s + sl_size s \<le> length (sl_blob s)"
    and "\<And>i. i < sl_count s \<Longrightarrow> sz_mul i (sl_size s) = i * sl_size s"
proof -
  show "n + 8 \<le> sl_size s" "length (sl_blob s) < 2 ^ 64" "\<And>i. i < sl_count s \<Longrightarrow> unit_ok n s (live (i * sl_size s + 8)) i"
    using assms by (simp_all add: slab_inv_def)
  show fits: "i * sl_size s + sl_size s \<le> length (sl_blob s)" if "i < sl_count s" for i
    using assms slot_le [OF that, of "sl_size s"] by (simp add: slab_inv_def)
  show "sz_mul i (sl_size s) = i * sl_size s" if "i < sl_count s" for i
    using assms fits [OF that] by (intro sz_mul_small) (simp add: slab_inv_def)
qed

lemma slab_inv_block:
  assumes "slab_inv n s live" and "live b = Some d"
  obtains i where "i < sl_count s" "b = i * sl_size s + 8" "unit_ok n s (Some d) i"
proof -
  have "b \<in> dom live" using assms(2) by blast
  then obtain i where "i < sl_count s" "b = i * sl_size s + 8" using assms(1) by (auto simp: slab_inv_def)
  then show ?thesis using that slab_invD(3) [OF assms(1)] assms(2) by metis
qed

lemma units_apart:
  assumes "i \<noteq> j"
  shows "i * es + es \<le> j * es \<or> j * es + es \<le> i * (es :: nat)"
  using assms slot_le [of i j es] slot_le [of j i es] by (meson nat_neq_iff)

lemma unit_addr_inj: "0 < es \<Longrightarrow> i * es + 8 = j * es + 8 \<longleftrightarrow> i = (j :: nat)"
  by simp

text \<open>A write inside one unit that leaves the others alone keeps the invariant.\<close>

lemma slab_inv_update:
  assumes inv: "slab_inv n s live" and i: "i < sl_count s"
    and bs: "i * sl_size s \<le> off" "off + length bs \<le> i * sl_size s + sl_size s"
    and new: "unit_ok n (s\<lparr>sl_blob := blit (sl_blob s) off bs\<rparr>) v i"
  shows "slab_inv n (s\<lparr>sl_blob := blit (sl_blob s) off bs\<rparr>) (live(i * sl_size s + 8 := v))"
proof -
  note D = slab_invD [OF inv]
  let ?s = "s\<lparr>sl_blob := blit (sl_blob s) off bs\<rparr>"
  have len: "off + length bs \<le> length (sl_blob s)" using bs(2) D(4) [OF i] by linarith
  have other: "unit_ok n ?s (live (j * sl_size s + 8)) j" if j: "j < sl_count s" "j \<noteq> i" for j
  proof -
    have fits: "j * sl_size s + 8 + n \<le> length (sl_blob s)" using D(1) D(4) [OF j(1)] by linarith
    have "j * sl_size s + 8 + n \<le> off \<or> off + length bs \<le> j * sl_size s"
      using units_apart [OF j(2), of "sl_size s"] bs D(1) by linarith
    then show ?thesis
      using D(3) [OF j(1)] fits len
      by (auto simp: unit_ok_def Let_def get32_blit_other data_blit_other split: option.splits)
  qed
  have "unit_ok n ?s ((live(i * sl_size s + 8 := v)) (j * sl_size s + 8)) j" if "j < sl_count s" for j
    using new other [OF that] D(1) by (cases "j = i") auto
  moreover have "dom (live(i * sl_size s + 8 := v)) \<subseteq> (\<lambda>i. i * sl_size s + 8) ` {..<sl_count s}"
    using inv i by (auto simp: slab_inv_def split: if_splits)
  ultimately show ?thesis
    using inv len by (simp add: slab_inv_def)
qed

section \<open>Operations\<close>

lemma blit_adjacent:
  "off + length a + length b \<le> length buf \<Longrightarrow> blit (blit buf off a) (off + length a) b = blit buf off (a @ b)"
  by (simp add: blit_def add.assoc) (simp add: ac_simps)

lemma header_blit:
  assumes "p + 8 \<le> length buf"
  shows "get32 (blit buf p (le32_bytes v @ le32_bytes w)) p = Some v"
    and "get32 (blit buf p (le32_bytes v @ le32_bytes w)) (p + 4) = Some w"
proof -
  have eq: "blit buf p (le32_bytes v @ le32_bytes w) = blit (blit buf p (le32_bytes v)) (p + 4) (le32_bytes w)"
    using blit_adjacent [of p "le32_bytes v" "le32_bytes w" buf] assms by simp
  show "get32 (blit buf p (le32_bytes v @ le32_bytes w)) (p + 4) = Some w"
    using assms by (simp add: eq get32_put_same)
  show "get32 (blit buf p (le32_bytes v @ le32_bytes w)) p = Some v"
    using assms by (simp add: eq get32_blit_other get32_put_same)
qed

lemma slab_alloc_loop_ok:
  assumes inv: "slab_inv n s live" and "i \<le> sl_count s" and "\<And>j. j < i \<Longrightarrow> live (j * sl_size s + 8) \<noteq> None"
  shows "(\<exists>k s'. k < sl_count s \<and> live (k * sl_size s + 8) = None \<and>
        slab_alloc_loop i s = Some (0, Some (k * sl_size s + 8), s') \<and> sl_size s' = sl_size s \<and>
        sl_count s' = sl_count s \<and> length (sl_blob s') = length (sl_blob s) \<and>
        slab_inv n s' (live(k * sl_size s + 8 \<mapsto> take n (drop (k * sl_size s + 8) (sl_blob s'))))) \<or>
      (\<forall>k < sl_count s. live (k * sl_size s + 8) \<noteq> None) \<and> slab_alloc_loop i s = Some (-1, None, s)"
  using assms(2,3)
proof (induction "sl_count s - i" arbitrary: i)
  case 0
  then have "i = sl_count s" by simp
  then show ?case using "0.prems"(2) slab_alloc_loop.simps [of i s] by auto
next
  case (Suc m)
  note D = slab_invD [OF inv]
  have i: "i < sl_count s" using Suc.hyps(2) by simp
  let ?p = "i * sl_size s"
  have fits: "?p + 8 + n \<le> length (sl_blob s)" using D(1) D(4) [OF i] by linarith
  show ?case
  proof (cases "live (?p + 8)")
    case (Some d)
    then have "get32 (sl_blob s) ?p = Some 1" using D(3) [OF i] by (simp add: unit_ok_def Let_def)
    then have "slab_alloc_loop i s = slab_alloc_loop (Suc i) s"
      using i D(5) [OF i] by (subst slab_alloc_loop.simps) simp
    moreover have "j < Suc i \<Longrightarrow> live (j * sl_size s + 8) \<noteq> None" for j
      using Some Suc.prems(2) by (cases "j = i") auto
    ultimately show ?thesis using Suc.hyps i by (auto simp: Suc_le_eq)
  next
    case None
    let ?h = "le32_bytes 1 @ le32_bytes CANARY"
    let ?s = "s\<lparr>sl_blob := blit (sl_blob s) ?p ?h\<rparr>"
    have "get32 (sl_blob s) ?p = Some 0" using D(3) [OF i] None by (simp add: unit_ok_def Let_def)
    then have "slab_alloc_loop i s = Some (0, Some (?p + 8), ?s)"
      using i D(5) [OF i] fits blit_adjacent [of ?p "le32_bytes 1" "le32_bytes CANARY" "sl_blob s"]
      by (subst slab_alloc_loop.simps) (simp add: put32_ok UNIT_HEADER_def Let_def)
    moreover have "slab_inv n ?s (live(?p + 8 \<mapsto> take n (drop (?p + 8) (sl_blob ?s))))"
      using fits D(1) by (intro slab_inv_update [OF inv i]) (simp_all add: unit_ok_def header_blit)
    ultimately show ?thesis using None i fits by force
  qed
qed

lemma slab_free_ok:
  assumes inv: "slab_inv n s live" and b: "live b = Some d"
  shows "\<exists>s'. slab_free s b = Some (0, s') \<and> sl_size s' = sl_size s \<and> sl_count s' = sl_count s \<and>
      length (sl_blob s') = length (sl_blob s) \<and> slab_inv n s' (live(b := None))"
proof -
  note D = slab_invD [OF inv]
  obtain i where i: "i < sl_count s" "b = i * sl_size s + 8" "unit_ok n s (Some d) i"
    using slab_inv_block [OF inv b] .
  let ?p = "i * sl_size s"
  let ?s = "s\<lparr>sl_blob := blit (sl_blob s) ?p (le32_bytes 0)\<rparr>"
  have fits: "?p + 8 + n \<le> length (sl_blob s)" using D(1) D(4) [OF i(1)] by linarith
  have "get32 (sl_blob s) (?p + 4) = Some CANARY" using i(3) by (simp add: unit_ok_def Let_def)
  then have "slab_free s b = Some (0, ?s)"
    using fits by (simp add: i(2) slab_free_def UNIT_HEADER_def put32_ok)
  moreover have "slab_inv n ?s (live(b := None))"
    unfolding i(2) using fits D(1) by (intro slab_inv_update [OF inv i(1)]) (simp_all add: unit_ok_def get32_put_same)
  ultimately show ?thesis using fits by auto
qed

lemma slab_store_ok:
  assumes inv: "slab_inv n s live" and b: "live b = Some d" and k: "k + length bs \<le> n"
  shows "mem_write (sl_blob s) (int (b + k)) bs = Some (blit (sl_blob s) (b + k) bs)"
    and "slab_inv n (s\<lparr>sl_blob := blit (sl_blob s) (b + k) bs\<rparr>) (live(b \<mapsto> blit d k bs))"
proof -
  note D = slab_invD [OF inv]
  obtain i where i: "i < sl_count s" "b = i * sl_size s + 8" "unit_ok n s (Some d) i"
    using slab_inv_block [OF inv b] .
  have fits: "b + n \<le> length (sl_blob s)" "b + n \<le> i * sl_size s + sl_size s" using D(1) D(4) [OF i(1)] i(2) by simp_all
  show "mem_write (sl_blob s) (int (b + k)) bs = Some (blit (sl_blob s) (b + k) bs)"
    using fits k by (intro mem_write_nat) simp
  have d: "take n (drop b (sl_blob s)) = d" "length d = n" using i by (simp_all add: unit_ok_def Let_def)
  have "unit_ok n (s\<lparr>sl_blob := blit (sl_blob s) (b + k) bs\<rparr>) (Some (blit d k bs)) i"
    using i(3) fits k d data_blit_inside [OF k fits(1)]
    by (simp add: unit_ok_def Let_def get32_blit_other flip: i(2)) (simp add: i(2) get32_blit_other)
  then have "slab_inv n (s\<lparr>sl_blob := blit (sl_blob s) (b + k) bs\<rparr>) (live(i * sl_size s + 8 \<mapsto> blit d k bs))"
    using fits k i(2) by (intro slab_inv_update [OF inv i(1)]) auto
  then show "slab_inv n (s\<lparr>sl_blob := blit (sl_blob s) (b + k) bs\<rparr>) (live(b \<mapsto> blit d k bs))" by (simp add: i(2))
qed

lemma slab_init_inv:
  assumes n: "n + 16 \<le> 2 ^ 64" and len: "length arena < 2 ^ 64"
    and init: "slab_init slab n arena (length arena) = Some (r, s)" and r: "r \<noteq> -1"
  shows "slab_inv n s Map.empty"
proof -
  have size: "sz_add (round_up n 8) UNIT_HEADER = (n + 7) div 8 * 8 + 8"
    using n round_up_8 [of n] sz_add_small [of "(n + 7) div 8 * 8" 8] div_times_less_eq_dividend [of "n + 7" 8]
    by (simp add: UNIT_HEADER_def)
  let ?sz = "(n + 7) div 8 * 8 + 8"
  have "n \<le> (n + 7) div 8 * 8" by linarith
  moreover have s: "?sz \<le> length arena" "s = \<lparr>sl_blob = replicate (length arena) 0, sl_size = ?sz, sl_count = length arena div ?sz, \<dots> = slab_t.more slab\<rparr>"
    using init r by (auto simp: slab_init_def size Let_def mem_write_def blit_def split: if_splits)
  moreover have "get32 (replicate (length arena) 0) (i * ?sz) = Some 0" if "i < length arena div ?sz" for i
  proof -
    have "i * ?sz + ?sz \<le> length arena"
      using slot_le [OF that, of ?sz] div_times_less_eq_dividend [of "length arena" ?sz] by linarith
    then show ?thesis by (simp add: get32_ok le32_def)
  qed
  ultimately show ?thesis
    using len by (simp add: slab_inv_def unit_ok_def Let_def)
qed

lemma mem_read_block: "mem_read buf (int b) n = Some d \<Longrightarrow> take n (drop b buf) = d"
  by (simp add: mem_read_def split: if_splits)

lemma slab_client_inv:
  assumes "slab_client n arena s live" and "n + 16 \<le> 2 ^ 64" and "length arena < 2 ^ 64"
  shows "slab_inv n s live"
  using assms(1)
proof (induction rule: slab_client.induct)
  case (start slab r s)
  then show ?case using slab_init_inv assms by blast
next
  case (alloc s live b s' d)
  then show ?case
    using slab_alloc_loop_ok [OF alloc.IH, of 0] mem_read_block [OF alloc.hyps(3)] by (auto simp: slab_alloc_def fun_upd_def)
next
  case (store s live b d k bs blob)
  then show ?case using slab_store_ok [OF store.IH store.hyps(2,3)] by (simp add: fun_upd_def)
next
  case (free s live b d s')
  then show ?case using slab_free_ok [OF free.IH free.hyps(2)] by (auto simp: fun_upd_def)
qed

section \<open>Properties\<close>

text \<open>
  C18: the allocator on the bytes of its arena. In every state a client reaches from \<open>slab_init\<close> by
  allocating, writing into its live blocks and freeing them: live blocks lie inside the arena, are
  pairwise disjoint and hold exactly what was written to them; an allocation succeeds with a block
  that is not live as long as fewer blocks are live than units exist, and otherwise fails without
  change; freeing a live block succeeds.
\<close>

theorem slab_allocator_spec:
  assumes "slab_client slab_size arena s live" and "slab_size + 16 \<le> 2 ^ 64" and "length arena < 2 ^ 64"
  shows "(\<forall>b d. live b = Some d \<longrightarrow> mem_read (sl_blob s) (int b) slab_size = Some d \<and> (\<exists>s'. slab_free s b = Some (0, s'))) \<and>
    (\<forall>b c. b \<in> dom live \<and> c \<in> dom live \<and> b \<noteq> c \<longrightarrow> b + slab_size \<le> c \<or> c + slab_size \<le> b) \<and>
    (if card (dom live) < sl_count s
         then \<exists>b s'. slab_alloc s = Some (0, Some b, s') \<and> b \<notin> dom live \<and> b + slab_size \<le> length (sl_blob s')
         else slab_alloc s = Some (-1, None, s))"
proof (intro conjI)
  have inv: "slab_inv slab_size s live" using slab_client_inv assms .
  note D = slab_invD [OF inv]
  show "\<forall>b d. live b = Some d \<longrightarrow> mem_read (sl_blob s) (int b) slab_size = Some d \<and> (\<exists>s'. slab_free s b = Some (0, s'))"
  proof (intro allI impI conjI)
    fix b d assume b: "live b = Some d"
    obtain i where i: "i < sl_count s" "b = i * sl_size s + 8" "unit_ok slab_size s (Some d) i"
      using slab_inv_block [OF inv b] .
    then show "mem_read (sl_blob s) (int b) slab_size = Some d"
      using D(1) D(4) [OF i(1)] mem_read_nat [of b slab_size "sl_blob s"] by (simp add: unit_ok_def Let_def)
    show "\<exists>s'. slab_free s b = Some (0, s')" using slab_free_ok [OF inv b] by blast
  qed
  let ?units = "(\<lambda>i. i * sl_size s + 8) ` {..<sl_count s}"
  have sub: "dom live \<subseteq> ?units" using inv by (simp add: slab_inv_def)
  show "\<forall>b c. b \<in> dom live \<and> c \<in> dom live \<and> b \<noteq> c \<longrightarrow> b + slab_size \<le> c \<or> c + slab_size \<le> b"
  proof (intro allI impI, elim conjE)
    fix b c assume "b \<in> dom live" "c \<in> dom live" "b \<noteq> c"
    then obtain i j where "b = i * sl_size s + 8" "c = j * sl_size s + 8" "i \<noteq> j"
      using sub by blast
    then show "b + slab_size \<le> c \<or> c + slab_size \<le> b"
      using units_apart [of i j "sl_size s"] D(1) by auto
  qed
  have "inj_on (\<lambda>i. i * sl_size s + 8) {..<sl_count s}" using D(1) by (auto simp: inj_on_def)
  then have card: "card ?units = sl_count s" by (simp add: card_image)
  have full: "(\<forall>k < sl_count s. live (k * sl_size s + 8) \<noteq> None) \<longleftrightarrow> \<not> card (dom live) < sl_count s"
  proof -
    have "(\<forall>k < sl_count s. live (k * sl_size s + 8) \<noteq> None) \<longleftrightarrow> dom live = ?units" using sub by auto
    also have "\<dots> \<longleftrightarrow> \<not> card (dom live) < sl_count s"
      using card sub card_mono [of ?units "dom live"] card_subset_eq [of ?units "dom live"] by fastforce
    finally show ?thesis .
  qed
  show "if card (dom live) < sl_count s
      then \<exists>b s'. slab_alloc s = Some (0, Some b, s') \<and> b \<notin> dom live \<and> b + slab_size \<le> length (sl_blob s')
      else slab_alloc s = Some (-1, None, s)"
    using slab_alloc_loop_ok [OF inv, of 0] full D(1,4) by (fastforce simp: slab_alloc_def domIff)
qed

definition demo_slab :: slab_t where
  \<comment> \<open>an arena of 40 bytes with blocks of 5: two units of 16\<close>
  "demo_slab = \<lparr>sl_blob = replicate 40 0, sl_size = 16, sl_count = 2\<rparr>"

theorem slab_allocator_spec_witness:
  "slab_client 5 (replicate 40 7) demo_slab Map.empty \<and>
   (\<exists>b s'. slab_alloc demo_slab = Some (0, Some b, s') \<and> b + 5 \<le> length (sl_blob s'))"
proof -
  have "slab_init demo_slab 5 (replicate 40 7) (length (replicate 40 (7 :: u8))) = Some (2, demo_slab)"
    using round_up_8 [of 5] by (simp add: slab_init_def demo_slab_def sz_add_def UNIT_HEADER_def mem_write_def blit_def)
  then have reach: "slab_client 5 (replicate 40 7) demo_slab Map.empty" by (rule slab_client.start) simp
  then show ?thesis using slab_allocator_spec [OF reach] by (auto simp: demo_slab_def)
qed

text \<open>The canary survives \<open>slab_free\<close>, so a second free of the same block is accepted.\<close>

lemma slab_double_free:
  assumes "slab_inv n s live" and "live b = Some d" and "slab_free s b = Some (0, s')"
  shows "slab_free s' b = Some (0, s')"
proof -
  note D = slab_invD [OF assms(1)]
  obtain i where i: "i < sl_count s" "b = i * sl_size s + 8" "unit_ok n s (Some d) i"
    using slab_inv_block [OF assms(1,2)] .
  let ?p = "i * sl_size s"
  have fits: "?p + 8 + n \<le> length (sl_blob s)" using D(1) D(4) [OF i(1)] by linarith
  have can: "get32 (sl_blob s) (?p + 4) = Some CANARY" using i(3) by (simp add: unit_ok_def Let_def)
  then have s': "s' = s\<lparr>sl_blob := blit (sl_blob s) ?p (le32_bytes 0)\<rparr>"
    using fits assms(3) by (simp add: i(2) slab_free_def UNIT_HEADER_def put32_ok)
  have "blit (blit (sl_blob s) ?p (le32_bytes 0)) ?p (le32_bytes 0) = blit (sl_blob s) ?p (le32_bytes 0)"
    using fits by (simp add: blit_def)
  then show ?thesis
    using fits can by (simp add: s' i(2) slab_free_def UNIT_HEADER_def put32_ok get32_blit_other)
qed

end
