(* ===== verification/Ngx_Core.thy ===== *)
theory Ngx_Core
  imports Prelude
begin

text \<open>
  What the nginx theories share: the return codes of \<^verbatim>\<open>src/nginx/src/core/ngx_core.h\<close> and the signed 64-bit
  arithmetic of \<^verbatim>\<open>ngx_int_t\<close>, \<^verbatim>\<open>off_t\<close> and \<^verbatim>\<open>time_t\<close>, where overflow is undefined behaviour, and
  \<open>ngx_tolower\<close> of \<^verbatim>\<open>ngx_string.h\<close>.
\<close>

abbreviation (input) NGX_OK :: int where
  "NGX_OK \<equiv> 0"

abbreviation (input) NGX_ERROR :: int where
  "NGX_ERROR \<equiv> -1"

abbreviation (input) NGX_AGAIN :: int where
  "NGX_AGAIN \<equiv> -2"

abbreviation (input) NGX_BUSY :: int where
  "NGX_BUSY \<equiv> -3"

abbreviation (input) NGX_DONE :: int where
  "NGX_DONE \<equiv> -4"

definition MAX64 :: int where
  \<comment> \<open>\<open>NGX_MAX_INT_T_VALUE\<close>, and the limits of \<open>ssize_t\<close>, \<open>off_t\<close> and \<open>time_t\<close> on 64-bit platforms\<close>
  "MAX64 = 9223372036854775807"

definition c64 :: "int \<Rightarrow> int option" where
  "c64 i = (if - MAX64 - 1 \<le> i \<and> i \<le> MAX64 then Some i else None)"

definition ngx_tolower :: "u8 \<Rightarrow> u8" where
  "ngx_tolower c = (if 65 \<le> c \<and> c \<le> 90 then c OR 0x20 else c)"

lemma c64_nonneg [cint_simps]: "0 \<le> i \<Longrightarrow> i \<le> MAX64 \<Longrightarrow> c64 i = Some i"
  by (simp add: c64_def MAX64_def)

end
