(* ===== verification/Ngx_Radix.thy ===== *)
theory Ngx_Radix
  imports Ngx_Core
begin

text \<open>
  The radix tree of \<^verbatim>\<open>src/nginx/src/core/ngx_radix_tree.c\<close> on an explicit heap of nodes with parent
  links and a free list. The IPv4 operations walk the bits of a 32-bit key, the IPv6 operations the
  bits of sixteen bytes. \<open>ngx_pmemalign\<close> hands out pages of the operating system: its future results
  are the list \<open>rt_pool\<close>, \<open>None\<close> for a failed call.
\<close>

section \<open>The code\<close>

record ngx_radix_node_t =
  rn_right :: ptr
  rn_left :: ptr
  rn_parent :: ptr
  rn_value :: u64

type_synonym rheap = "nat \<rightharpoonup> ngx_radix_node_t"

record ngx_radix_tree_t =
  rt_root :: ptr
  rt_pool :: "nat option list"
  rt_free :: ptr
  rt_start :: nat
  rt_size :: nat

definition NGX_RADIX_NO_VALUE :: u64 where
  "NGX_RADIX_NO_VALUE = -1"

definition NODE_SIZE :: nat where
  \<comment> \<open>\<open>sizeof(ngx_radix_node_t)\<close>: three pointers and a \<open>uintptr_t\<close>\<close>
  "NODE_SIZE = 32"

definition rderef :: "rheap \<Rightarrow> ptr \<Rightarrow> ngx_radix_node_t option" where
  "rderef h p = (case p of None \<Rightarrow> None | Some a \<Rightarrow> h a)"

definition rupd :: "rheap \<Rightarrow> ptr \<Rightarrow> (ngx_radix_node_t \<Rightarrow> ngx_radix_node_t) \<Rightarrow> rheap option" where
  \<comment> \<open>a store through a node pointer\<close>
  "rupd h p f = (case p of None \<Rightarrow> None | Some a \<Rightarrow> (case h a of None \<Rightarrow> None | Some n \<Rightarrow> Some (h(a \<mapsto> f n))))"

definition blank_node :: ngx_radix_node_t where
  \<comment> \<open>a node of a new page; every field is written before it is read\<close>
  "blank_node = \<lparr>rn_right = NULL, rn_left = NULL, rn_parent = NULL, rn_value = 0\<rparr>"

definition take_slot :: "rheap \<Rightarrow> ngx_radix_tree_t \<Rightarrow> ptr \<times> rheap \<times> ngx_radix_tree_t" where
  \<comment> \<open>the next node of the current page\<close>
  "take_slot h t = (Some (rt_start t), h(rt_start t \<mapsto> blank_node),
     t\<lparr>rt_start := rt_start t + NODE_SIZE, rt_size := rt_size t - NODE_SIZE\<rparr>)"

definition ngx_radix_alloc :: "nat \<Rightarrow> rheap \<Rightarrow> ngx_radix_tree_t \<Rightarrow> (ptr \<times> rheap \<times> ngx_radix_tree_t) option" where
  \<comment> \<open>the first argument is \<open>ngx_pagesize\<close>\<close>
  "ngx_radix_alloc pagesize h t =
     (if rt_free t \<noteq> NULL then do {
        n \<leftarrow> rderef h (rt_free t);
        Some (rt_free t, h, t\<lparr>rt_free := rn_right n\<rparr>)
      }
      else if rt_size t < NODE_SIZE then
        (case rt_pool t of
           Some page # pool \<Rightarrow> Some (take_slot h (t\<lparr>rt_pool := pool, rt_start := page, rt_size := pagesize\<rparr>))
         | None # pool \<Rightarrow> Some (NULL, h, t\<lparr>rt_pool := pool\<rparr>)
         | [] \<Rightarrow> Some (NULL, h, t))
      else Some (take_slot h t))"

subsection \<open>IPv4 keys\<close>

function ins_walk32 :: "rheap \<Rightarrow> u32 \<Rightarrow> u32 \<Rightarrow> u32 \<Rightarrow> ptr \<Rightarrow> ptr \<Rightarrow> (u32 \<times> ptr \<times> ptr) option" where
  "ins_walk32 h key msk bt node nxt =
     (if bt AND msk \<noteq> 0 then do {
        n \<leftarrow> rderef h node;
        let nxt = (if key AND bt \<noteq> 0 then rn_right n else rn_left n);
        if nxt = NULL then Some (bt, node, nxt)
        else ins_walk32 h key msk (drop_bit 1 bt) nxt nxt
      }
      else Some (bt, node, nxt))"
  by pat_completeness auto

lemma shift_less: "(b :: 'a :: len word) AND m \<noteq> 0 \<Longrightarrow> unat (drop_bit 1 b) < unat b"
proof -
  assume "b AND m \<noteq> 0"
  then have "b \<noteq> 0" by auto
  then have "0 < unat b" by (simp add: unat_gt_0)
  then show ?thesis unfolding unat_drop_bit_eq by (simp add: drop_bit_eq_div)
qed

termination ins_walk32
  by (relation "measure (\<lambda>(h, key, msk, bt, node, nxt). unat bt)") (auto dest: shift_less)

definition link_child :: "rheap \<Rightarrow> ptr \<Rightarrow> bool \<Rightarrow> ptr \<Rightarrow> rheap option" where
  \<comment> \<open>initialise the new node \<open>nxt\<close> and hang it under \<open>node\<close>\<close>
  "link_child h node right nxt = do {
     h \<leftarrow> rupd h nxt (\<lambda>_. \<lparr>rn_right = NULL, rn_left = NULL, rn_parent = node, rn_value = NGX_RADIX_NO_VALUE\<rparr>);
     rupd h node (\<lambda>n. if right then n\<lparr>rn_right := nxt\<rparr> else n\<lparr>rn_left := nxt\<rparr>)
   }"

function ins_extend32 :: "nat \<Rightarrow> u32 \<Rightarrow> u32 \<Rightarrow> u32 \<Rightarrow> ptr \<Rightarrow> rheap \<Rightarrow> ngx_radix_tree_t
    \<Rightarrow> (int \<times> ptr \<times> rheap \<times> ngx_radix_tree_t) option" where
  "ins_extend32 pagesize key msk bt node h t =
     (if bt AND msk \<noteq> 0 then do {
        (nxt, h, t) \<leftarrow> ngx_radix_alloc pagesize h t;
        if nxt = NULL then Some (NGX_ERROR, node, h, t)
        else do {
          h \<leftarrow> link_child h node (key AND bt \<noteq> 0) nxt;
          ins_extend32 pagesize key msk (drop_bit 1 bt) nxt h t
        }
      }
      else Some (NGX_OK, node, h, t))"
  by pat_completeness auto
termination
  by (relation "measure (\<lambda>(pagesize, key, msk, bt, node, h, t). unat bt)") (auto dest: shift_less)

definition ngx_radix32tree_insert :: "nat \<Rightarrow> rheap \<Rightarrow> ngx_radix_tree_t \<Rightarrow> u32 \<Rightarrow> u32 \<Rightarrow> u64
    \<Rightarrow> (int \<times> rheap \<times> ngx_radix_tree_t) option" where
  "ngx_radix32tree_insert pagesize h t key msk val = do {
     (bt, node, nxt) \<leftarrow> ins_walk32 h key msk 0x80000000 (rt_root t) (rt_root t);
     if nxt \<noteq> NULL then do {
       n \<leftarrow> rderef h node;
       if rn_value n \<noteq> NGX_RADIX_NO_VALUE then Some (NGX_BUSY, h, t)
       else do { h \<leftarrow> rupd h node (\<lambda>n. n\<lparr>rn_value := val\<rparr>); Some (NGX_OK, h, t) }
     }
     else do {
       (rc, node, h, t) \<leftarrow> ins_extend32 pagesize key msk bt node h t;
       if rc \<noteq> NGX_OK then Some (rc, h, t)
       else do { h \<leftarrow> rupd h node (\<lambda>n. n\<lparr>rn_value := val\<rparr>); Some (NGX_OK, h, t) }
     }
   }"

function del_walk32 :: "rheap \<Rightarrow> u32 \<Rightarrow> u32 \<Rightarrow> u32 \<Rightarrow> ptr \<Rightarrow> ptr option" where
  "del_walk32 h key msk bt node =
     (if node \<noteq> NULL \<and> bt AND msk \<noteq> 0 then do {
        n \<leftarrow> rderef h node;
        del_walk32 h key msk (drop_bit 1 bt) (if key AND bt \<noteq> 0 then rn_right n else rn_left n)
      }
      else Some node)"
  by pat_completeness auto
termination
  by (relation "measure (\<lambda>(h, key, msk, bt, node). unat bt)") (auto dest: shift_less)

partial_function (option) prune_loop :: "rheap \<Rightarrow> ngx_radix_tree_t \<Rightarrow> ptr \<Rightarrow> (rheap \<times> ngx_radix_tree_t) option" where
  "prune_loop h t node =
     Option.bind (rderef h node) (\<lambda>n.
     Option.bind (rupd h (rn_parent n) (\<lambda>p. if rn_right p = node then p\<lparr>rn_right := NULL\<rparr> else p\<lparr>rn_left := NULL\<rparr>)) (\<lambda>h.
     Option.bind (rupd h node (\<lambda>n. n\<lparr>rn_right := rt_free t\<rparr>)) (\<lambda>h.
     Option.bind (rderef h node) (\<lambda>n.
     Option.bind (rderef h (rn_parent n)) (\<lambda>p.
       if rn_right p \<noteq> NULL \<or> rn_left p \<noteq> NULL \<or> rn_value p \<noteq> NGX_RADIX_NO_VALUE \<or> rn_parent p = NULL
       then Some (h, t\<lparr>rt_free := node\<rparr>)
       else prune_loop h (t\<lparr>rt_free := node\<rparr>) (rn_parent n))))))"

definition del_node :: "rheap \<Rightarrow> ngx_radix_tree_t \<Rightarrow> ptr \<Rightarrow> (int \<times> rheap \<times> ngx_radix_tree_t) option" where
  \<comment> \<open>what both deletions do with the node they found\<close>
  "del_node h t node =
     (if node = NULL then Some (NGX_ERROR, h, t)
      else do {
        n \<leftarrow> rderef h node;
        if rn_right n \<noteq> NULL \<or> rn_left n \<noteq> NULL then
          (if rn_value n \<noteq> NGX_RADIX_NO_VALUE
           then do { h \<leftarrow> rupd h node (\<lambda>n. n\<lparr>rn_value := NGX_RADIX_NO_VALUE\<rparr>); Some (NGX_OK, h, t) }
           else Some (NGX_ERROR, h, t))
        else do { (h, t) \<leftarrow> prune_loop h t node; Some (NGX_OK, h, t) }
      })"

definition ngx_radix32tree_delete :: "rheap \<Rightarrow> ngx_radix_tree_t \<Rightarrow> u32 \<Rightarrow> u32
    \<Rightarrow> (int \<times> rheap \<times> ngx_radix_tree_t) option" where
  "ngx_radix32tree_delete h t key msk = do {
     node \<leftarrow> del_walk32 h key msk 0x80000000 (rt_root t);
     del_node h t node
   }"

partial_function (option) find_loop32 :: "rheap \<Rightarrow> u32 \<Rightarrow> u32 \<Rightarrow> u64 \<Rightarrow> ptr \<Rightarrow> u64 option" where
  "find_loop32 h key bt val node =
     (if node = NULL then Some val
      else Option.bind (rderef h node) (\<lambda>n.
        find_loop32 h key (drop_bit 1 bt) (if rn_value n \<noteq> NGX_RADIX_NO_VALUE then rn_value n else val)
          (if key AND bt \<noteq> 0 then rn_right n else rn_left n)))"

definition ngx_radix32tree_find :: "rheap \<Rightarrow> ngx_radix_tree_t \<Rightarrow> u32 \<Rightarrow> u64 option" where
  "ngx_radix32tree_find h t key = find_loop32 h key 0x80000000 NGX_RADIX_NO_VALUE (rt_root t)"

subsection \<open>IPv6 keys\<close>

function ins_walk128 :: "rheap \<Rightarrow> bytes \<Rightarrow> bytes \<Rightarrow> nat \<Rightarrow> u8 \<Rightarrow> ptr \<Rightarrow> ptr \<Rightarrow> (nat \<times> u8 \<times> ptr \<times> ptr) option" where
  "ins_walk128 h key msk i bt node nxt = do {
     m \<leftarrow> arr_get msk (int i);
     if bt AND m \<noteq> 0 then do {
       n \<leftarrow> rderef h node;
       k \<leftarrow> arr_get key (int i);
       let nxt = (if k AND bt \<noteq> 0 then rn_right n else rn_left n);
       if nxt = NULL then Some (i, bt, node, nxt)
       else if drop_bit 1 bt = 0 then
         (if Suc i = 16 then Some (Suc i, 0, nxt, nxt) else ins_walk128 h key msk (Suc i) 0x80 nxt nxt)
       else ins_walk128 h key msk i (drop_bit 1 bt) nxt nxt
     }
     else Some (i, bt, node, nxt)
   }"
  by pat_completeness auto

lemma arr_get_lt: "arr_get xs (int i) = Some x \<Longrightarrow> i < length xs"
  by (simp add: arr_get_def split: if_splits)

definition cursor_measure :: "bytes \<Rightarrow> nat \<Rightarrow> u8 \<Rightarrow> nat" where
  "cursor_measure msk i bt = (length msk - i) * 256 + unat bt"

lemma cursor_next: "arr_get msk (int i) = Some m \<Longrightarrow> cursor_measure msk (Suc i) 0x80 < cursor_measure msk i bt"
  using arr_get_lt [of msk i m] by (simp add: cursor_measure_def)

lemma cursor_shift: "bt AND m \<noteq> 0 \<Longrightarrow> cursor_measure msk i (drop_bit 1 bt) < cursor_measure msk i bt"
  using shift_less [of bt m] by (simp add: cursor_measure_def)

termination ins_walk128
  by (relation "measure (\<lambda>(h, key, msk, i, bt, node, nxt). cursor_measure msk i bt)")
    (auto dest: cursor_next cursor_shift)

function ins_extend128 :: "nat \<Rightarrow> bytes \<Rightarrow> bytes \<Rightarrow> nat \<Rightarrow> u8 \<Rightarrow> ptr \<Rightarrow> rheap \<Rightarrow> ngx_radix_tree_t
    \<Rightarrow> (int \<times> ptr \<times> rheap \<times> ngx_radix_tree_t) option" where
  "ins_extend128 pagesize key msk i bt node h t = do {
     m \<leftarrow> arr_get msk (int i);
     if bt AND m \<noteq> 0 then do {
       (nxt, h, t) \<leftarrow> ngx_radix_alloc pagesize h t;
       if nxt = NULL then Some (NGX_ERROR, node, h, t)
       else do {
         k \<leftarrow> arr_get key (int i);
         h \<leftarrow> link_child h node (k AND bt \<noteq> 0) nxt;
         if drop_bit 1 bt = 0 then
           (if Suc i = 16 then Some (NGX_OK, nxt, h, t) else ins_extend128 pagesize key msk (Suc i) 0x80 nxt h t)
         else ins_extend128 pagesize key msk i (drop_bit 1 bt) nxt h t
       }
     }
     else Some (NGX_OK, node, h, t)
   }"
  by pat_completeness auto
termination
  by (relation "measure (\<lambda>(pagesize, key, msk, i, bt, node, h, t). cursor_measure msk i bt)")
    (auto dest: cursor_next cursor_shift)

definition ngx_radix128tree_insert :: "nat \<Rightarrow> rheap \<Rightarrow> ngx_radix_tree_t \<Rightarrow> bytes \<Rightarrow> bytes \<Rightarrow> u64
    \<Rightarrow> (int \<times> rheap \<times> ngx_radix_tree_t) option" where
  "ngx_radix128tree_insert pagesize h t key msk val = do {
     (i, bt, node, nxt) \<leftarrow> ins_walk128 h key msk 0 0x80 (rt_root t) (rt_root t);
     if nxt \<noteq> NULL then do {
       n \<leftarrow> rderef h node;
       if rn_value n \<noteq> NGX_RADIX_NO_VALUE then Some (NGX_BUSY, h, t)
       else do { h \<leftarrow> rupd h node (\<lambda>n. n\<lparr>rn_value := val\<rparr>); Some (NGX_OK, h, t) }
     }
     else do {
       (rc, node, h, t) \<leftarrow> ins_extend128 pagesize key msk i bt node h t;
       if rc \<noteq> NGX_OK then Some (rc, h, t)
       else do { h \<leftarrow> rupd h node (\<lambda>n. n\<lparr>rn_value := val\<rparr>); Some (NGX_OK, h, t) }
     }
   }"

function del_walk128 :: "rheap \<Rightarrow> bytes \<Rightarrow> bytes \<Rightarrow> nat \<Rightarrow> u8 \<Rightarrow> ptr \<Rightarrow> ptr option" where
  "del_walk128 h key msk i bt node =
     (if node = NULL then Some node
      else do {
        m \<leftarrow> arr_get msk (int i);
        if bt AND m \<noteq> 0 then do {
          n \<leftarrow> rderef h node;
          k \<leftarrow> arr_get key (int i);
          let node = (if k AND bt \<noteq> 0 then rn_right n else rn_left n);
          if drop_bit 1 bt = 0 then
            (if Suc i = 16 then Some node else del_walk128 h key msk (Suc i) 0x80 node)
          else del_walk128 h key msk i (drop_bit 1 bt) node
        }
        else Some node
      })"
  by pat_completeness auto
termination
  by (relation "measure (\<lambda>(h, key, msk, i, bt, node). cursor_measure msk i bt)")
    (auto dest: cursor_next cursor_shift)

definition ngx_radix128tree_delete :: "rheap \<Rightarrow> ngx_radix_tree_t \<Rightarrow> bytes \<Rightarrow> bytes
    \<Rightarrow> (int \<times> rheap \<times> ngx_radix_tree_t) option" where
  "ngx_radix128tree_delete h t key msk = do {
     node \<leftarrow> del_walk128 h key msk 0 0x80 (rt_root t);
     del_node h t node
   }"

partial_function (option) find_loop128 :: "rheap \<Rightarrow> bytes \<Rightarrow> nat \<Rightarrow> u8 \<Rightarrow> u64 \<Rightarrow> ptr \<Rightarrow> u64 option" where
  "find_loop128 h key i bt val node =
     (if node = NULL then Some val
      else Option.bind (rderef h node) (\<lambda>n. Option.bind (arr_get key (int i)) (\<lambda>k.
        let val = (if rn_value n \<noteq> NGX_RADIX_NO_VALUE then rn_value n else val);
            node = (if k AND bt \<noteq> 0 then rn_right n else rn_left n)
        in if drop_bit 1 bt = 0 then find_loop128 h key (Suc i) 0x80 val node
           else find_loop128 h key i (drop_bit 1 bt) val node)))"

definition ngx_radix128tree_find :: "rheap \<Rightarrow> ngx_radix_tree_t \<Rightarrow> bytes \<Rightarrow> u64 option" where
  "ngx_radix128tree_find h t key = find_loop128 h key 0 0x80 NGX_RADIX_NO_VALUE (rt_root t)"

subsection \<open>Creation\<close>

partial_function (option) prealloc_keys :: "nat \<Rightarrow> u32 \<Rightarrow> u32 \<Rightarrow> u32 \<Rightarrow> rheap \<Rightarrow> ngx_radix_tree_t
    \<Rightarrow> (bool \<times> rheap \<times> ngx_radix_tree_t) option" where
  \<comment> \<open>the inner do-while loop; \<open>False\<close> when an insertion failed\<close>
  "prealloc_keys pagesize msk inc key h t =
     Option.bind (ngx_radix32tree_insert pagesize h t key msk NGX_RADIX_NO_VALUE) (\<lambda>(rc, h, t).
       if rc \<noteq> NGX_OK then Some (False, h, t)
       else if key + inc = 0 then Some (True, h, t)
       else prealloc_keys pagesize msk inc (key + inc) h t)"

partial_function (option) prealloc_levels :: "nat \<Rightarrow> int \<Rightarrow> u32 \<Rightarrow> u32 \<Rightarrow> rheap \<Rightarrow> ngx_radix_tree_t
    \<Rightarrow> (bool \<times> rheap \<times> ngx_radix_tree_t) option" where
  "prealloc_levels pagesize preallocate msk inc h t =
     (if preallocate = 0 then Some (True, h, t)
      else let msk = drop_bit 1 msk OR 0x80000000 in
        Option.bind (prealloc_keys pagesize msk inc 0 h t) (\<lambda>(ok, h, t).
          if \<not> ok then Some (False, h, t)
          else prealloc_levels pagesize (preallocate - 1) msk (drop_bit 1 inc) h t))"

definition default_preallocate :: "nat \<Rightarrow> int" where
  "default_preallocate pagesize =
     (if pagesize div NODE_SIZE = 128 then 6 else if pagesize div NODE_SIZE = 256 then 7 else 8)"

definition ngx_radix_tree_create :: "nat \<Rightarrow> nat option list \<Rightarrow> rheap \<Rightarrow> int
    \<Rightarrow> (ngx_radix_tree_t option \<times> rheap) option" where
  \<comment> \<open>the tree structure itself comes from \<open>ngx_palloc\<close>, taken to succeed; \<open>None\<close> inside the pair is the
     null pointer the code returns when a node cannot be allocated\<close>
  "ngx_radix_tree_create pagesize pool h preallocate = do {
     let t = \<lparr>rt_root = NULL, rt_pool = pool, rt_free = NULL, rt_start = 0, rt_size = 0\<rparr>;
     (root, h, t) \<leftarrow> ngx_radix_alloc pagesize h t;
     if root = NULL then Some (None, h)
     else do {
       h \<leftarrow> rupd h root (\<lambda>_. \<lparr>rn_right = NULL, rn_left = NULL, rn_parent = NULL, rn_value = NGX_RADIX_NO_VALUE\<rparr>);
       let t = t\<lparr>rt_root := root\<rparr>;
       if preallocate = 0 then Some (Some t, h)
       else do {
         let preallocate = (if preallocate = -1 then default_preallocate pagesize else preallocate);
         (ok, h, t) \<leftarrow> prealloc_levels pagesize preallocate 0 0x80000000 h t;
         Some (if ok then Some t else None, h)
       }
     }
   }"

end
