(* ===== verification/Prefix_Table.thy ===== *)
theory Prefix_Table
  imports Prelude
begin

text \<open>
  The contract of a table from bit prefixes to values with longest prefix match. A state refines a map
  from paths to values, \<open>none\<close> standing for no value. An insertion may fail for lack of memory and then
  changes nothing; a deletion of a prefix without a value may report either result. The contract names the deletions and lookups
  that may be undefined, and a run is described up to the first of them.
\<close>

type_synonym path = "bool list"

datatype ('k, 'a) table_op = Insert 'k u64 | Delete 'k | Find 'a

definition longest_match :: "u64 \<Rightarrow> (path \<Rightarrow> u64) \<Rightarrow> path \<Rightarrow> u64" where
  \<comment> \<open>the value of the longest prefix that has one\<close>
  "longest_match none V kb =
     (case filter (\<lambda>i. V (take i kb) \<noteq> none) (rev [0..<Suc (length kb)]) of [] \<Rightarrow> none | i # _ \<Rightarrow> V (take i kb))"

fun table_run :: "('s \<Rightarrow> 'k \<Rightarrow> u64 \<Rightarrow> (int \<times> 's) option) \<Rightarrow> ('s \<Rightarrow> 'k \<Rightarrow> (int \<times> 's) option) \<Rightarrow> ('s \<Rightarrow> 'a \<Rightarrow> u64 option)
    \<Rightarrow> 's \<Rightarrow> ('k, 'a) table_op list \<Rightarrow> (int + u64) list option" where
  "table_run ins del lookup s [] = Some []"
| "table_run ins del lookup s (Insert k v # ops) = do {
     (rc, s) \<leftarrow> ins s k v; outs \<leftarrow> table_run ins del lookup s ops; Some (Inl rc # outs) }"
| "table_run ins del lookup s (Delete k # ops) = do {
     (rc, s) \<leftarrow> del s k; outs \<leftarrow> table_run ins del lookup s ops; Some (Inl rc # outs) }"
| "table_run ins del lookup s (Find a # ops) = do {
     v \<leftarrow> lookup s a; outs \<leftarrow> table_run ins del lookup s ops; Some (Inr v # outs) }"

fun table_allows :: "u64 \<Rightarrow> ('k \<Rightarrow> path) \<Rightarrow> ('a \<Rightarrow> path) \<Rightarrow> (path \<Rightarrow> u64) \<Rightarrow> ('k, 'a) table_op list \<Rightarrow> (int + u64) list \<Rightarrow> bool" where
  \<comment> \<open>the outputs a table with contents \<open>V\<close> may give: \<open>0\<close> for success, \<open>-3\<close> for a prefix that is taken, \<open>-1\<close>
     for an error\<close>
  "table_allows none path addr V [] [] = True"
| "table_allows none path addr V (Insert k v # ops) (Inl rc # outs) =
     (if V (path k) \<noteq> none then rc = -3 \<and> table_allows none path addr V ops outs
      else rc = 0 \<and> table_allows none path addr (V(path k := v)) ops outs \<or>
           rc = -1 \<and> table_allows none path addr V ops outs)"
| "table_allows none path addr V (Delete k # ops) (Inl rc # outs) =
     ((rc = 0 \<or> rc = -1 \<and> V (path k) = none) \<and> table_allows none path addr (V(path k := none)) ops outs)"
| "table_allows none path addr V (Find a # ops) (Inr v # outs) =
     (v = longest_match none V (addr a) \<and> table_allows none path addr V ops outs)"
| "table_allows none path addr V _ _ = False"

fun op_valid :: "('k \<Rightarrow> bool) \<Rightarrow> ('k \<Rightarrow> bool) \<Rightarrow> ('a \<Rightarrow> bool) \<Rightarrow> ('k, 'a) table_op \<Rightarrow> bool" where
  "op_valid vi vd va (Insert k v) = vi k"
| "op_valid vi vd va (Delete k) = vd k"
| "op_valid vi vd va (Find a) = va a"

fun table_contents :: "u64 \<Rightarrow> ('k \<Rightarrow> path) \<Rightarrow> (path \<Rightarrow> u64) \<Rightarrow> ('k, 'a) table_op list \<Rightarrow> (int + u64) list \<Rightarrow> path \<Rightarrow> u64" where
  \<comment> \<open>what the table holds after operations with the given outputs\<close>
  "table_contents none path V (Insert k v # ops) (Inl rc # outs) = table_contents none path (if rc = 0 then V(path k := v) else V) ops outs"
| "table_contents none path V (Delete k # ops) (x # outs) = table_contents none path (V(path k := none)) ops outs"
| "table_contents none path V (Find a # ops) (x # outs) = table_contents none path V ops outs"
| "table_contents none path V _ _ = V"

fun op_traps :: "((path \<Rightarrow> u64) \<Rightarrow> 'k \<Rightarrow> bool) \<Rightarrow> ('a \<Rightarrow> bool) \<Rightarrow> (path \<Rightarrow> u64) \<Rightarrow> ('k, 'a) table_op \<Rightarrow> bool" where
  \<comment> \<open>the operation may be undefined on a table with contents \<open>V\<close>\<close>
  "op_traps td tf V (Insert k v) = False"
| "op_traps td tf V (Delete k) = td V k"
| "op_traps td tf V (Find a) = tf a"

definition runs_to_trap :: "(('k, 'a) table_op list \<Rightarrow> (int + u64) list option) \<Rightarrow> (('k, 'a) table_op list \<Rightarrow> (int + u64) list \<Rightarrow> bool)
    \<Rightarrow> (('k, 'a) table_op list \<Rightarrow> (int + u64) list \<Rightarrow> ('k, 'a) table_op \<Rightarrow> bool) \<Rightarrow> ('k, 'a) table_op list \<Rightarrow> bool" where
  \<comment> \<open>the operations run with allowed outputs, all of them or up to one that is undefined and is a trap at that point\<close>
  "runs_to_trap run allows traps ops = (\<exists>n outs. n \<le> length ops \<and> run (take n ops) = Some outs \<and> allows (take n ops) outs \<and>
     (n < length ops \<longrightarrow> run (take (Suc n) ops) = None \<and> traps (take n ops) outs (ops ! n)))"

lemma runs_to_trap_step:
  assumes "runs_to_trap run allows traps ops" and "\<And>xs. run' (c # xs) = map_option (\<lambda>outs. x # outs) (run xs)"
    and "\<And>xs outs. allows xs outs \<Longrightarrow> allows' (c # xs) (x # outs)" and "\<And>xs outs d. traps xs outs d \<Longrightarrow> traps' (c # xs) (x # outs) d"
  shows "runs_to_trap run' allows' traps' (c # ops)"
proof -
  obtain n outs where n: "n \<le> length ops" "run (take n ops) = Some outs" "allows (take n ops) outs"
      "n < length ops \<longrightarrow> run (take (Suc n) ops) = None \<and> traps (take n ops) outs (ops ! n)"
    using assms(1) by (auto simp: runs_to_trap_def)
  then show ?thesis using assms(2-4) unfolding runs_to_trap_def by (intro exI [of _ "Suc n"] exI [of _ "x # outs"]) auto
qed

locale prefix_table =
  fixes refines :: "'s \<Rightarrow> (path \<Rightarrow> u64) \<Rightarrow> bool"
    and ins :: "'s \<Rightarrow> 'k \<Rightarrow> u64 \<Rightarrow> (int \<times> 's) option"
    and del :: "'s \<Rightarrow> 'k \<Rightarrow> (int \<times> 's) option"
    and lookup :: "'s \<Rightarrow> 'a \<Rightarrow> u64 option"
    and none :: u64
    and path :: "'k \<Rightarrow> path"
    and addr :: "'a \<Rightarrow> path"
    and vk :: "'k \<Rightarrow> bool"
    and va :: "'a \<Rightarrow> bool"
    and td :: "(path \<Rightarrow> u64) \<Rightarrow> 'k \<Rightarrow> bool"
    and tf :: "'a \<Rightarrow> bool"
  assumes ins_law: "refines s V \<Longrightarrow> vk k \<Longrightarrow> \<exists>rc s' V'. ins s k v = Some (rc, s') \<and> refines s' V' \<and>
      (if V (path k) \<noteq> none then rc = -3 \<and> V' = V
       else rc = 0 \<and> V' = V(path k := v) \<or> rc = -1 \<and> V' = V)"
    and del_law: "refines s V \<Longrightarrow> vk k \<Longrightarrow> (\<exists>rc s'. del s k = Some (rc, s') \<and> refines s' (V(path k := none)) \<and>
      (rc = 0 \<or> rc = -1 \<and> V (path k) = none)) \<or> del s k = None \<and> td V k"
    and lookup_law: "refines s V \<Longrightarrow> va a \<Longrightarrow> lookup s a = Some (longest_match none V (addr a)) \<or> lookup s a = None \<and> tf a"
begin

lemma run_allowed:
  assumes "refines s V" and "\<forall>c\<in>set ops. op_valid vk vk va c"
  shows "runs_to_trap (table_run ins del lookup s) (table_allows none path addr V) (\<lambda>xs outs. op_traps td tf (table_contents none path V xs outs)) ops"
  using assms
proof (induction ops arbitrary: s V)
  case Nil
  then show ?case by (simp add: runs_to_trap_def)
next
  case (Cons c ops)
  then have IH: "refines s V \<Longrightarrow> runs_to_trap (table_run ins del lookup s) (table_allows none path addr V)
      (\<lambda>xs outs. op_traps td tf (table_contents none path V xs outs)) ops" for s V
    by simp
  have now: "runs_to_trap (table_run ins del lookup s) (table_allows none path addr V) (\<lambda>xs outs. op_traps td tf (table_contents none path V xs outs)) (c # ops)"
    if "table_run ins del lookup s [c] = None" "op_traps td tf V c"
    using that unfolding runs_to_trap_def by (intro exI [of _ 0] exI [of _ "[]"]) simp
  show ?case
  proof (cases c)
    case (Insert k v)
    obtain rc s' V' where i: "ins s k v = Some (rc, s')" "refines s' V'"
        "if V (path k) \<noteq> none then rc = -3 \<and> V' = V else rc = 0 \<and> V' = V(path k := v) \<or> rc = -1 \<and> V' = V"
      using ins_law [OF Cons.prems(1), of k v] Cons.prems(2) Insert by auto
    show ?thesis unfolding Insert
      by (rule runs_to_trap_step [OF IH [OF i(2)], where x = "Inl rc"]) (use i in \<open>auto simp: map_option_case split: if_splits option.splits\<close>)
  next
    case (Delete k)
    consider rc s' where "del s k = Some (rc, s')" "refines s' (V(path k := none))" "rc = 0 \<or> rc = -1 \<and> V (path k) = none" | "del s k = None" "td V k"
      using del_law [OF Cons.prems(1), of k] Cons.prems(2) Delete by auto
    then show ?thesis
    proof cases
      case 1
      show ?thesis unfolding Delete
        by (rule runs_to_trap_step [OF IH [OF 1(2)], where x = "Inl rc"]) (use 1 in \<open>auto simp: map_option_case split: option.splits\<close>)
    next
      case 2
      then show ?thesis using now Delete by simp
    qed
  next
    case (Find a)
    consider "lookup s a = Some (longest_match none V (addr a))" | "lookup s a = None" "tf a" using lookup_law [OF Cons.prems(1), of a] Cons.prems(2) Find by auto
    then show ?thesis
    proof cases
      case 1
      show ?thesis unfolding Find
        by (rule runs_to_trap_step [OF IH [OF Cons.prems(1)], where x = "Inr (longest_match none V (addr a))"]) (use 1 in \<open>auto simp: map_option_case split: option.splits\<close>)
    next
      case 2
      then show ?thesis using now Find by simp
    qed
  qed
qed

end

end
