(* ===== verification/Ngx_Radix_Map.thy ===== *)
theory Ngx_Radix_Map
  imports Ngx_Radix Prefix_Table
begin

text \<open>
  Correctness of the radix tree. A path is the list of key bits under the leading ones of the mask.
  \<open>rtree_ok h root N\<close> says that the heap holds exactly the nodes \<open>N\<close>, a partial map from paths to addresses
  that is closed under prefixes, with the child and parent links between them; \<open>mem_ok\<close> keeps the free
  list and the unused slots of the pages apart from it. The abstract state is the map \<open>vals\<close> from paths
  to values, and lookup is longest prefix match on it.
\<close>

section \<open>Abstract state\<close>

definition kid :: "bool \<Rightarrow> ngx_radix_node_t \<Rightarrow> ptr" where
  "kid b n = (if b then rn_right n else rn_left n)"

definition vals :: "rheap \<Rightarrow> (path \<Rightarrow> ptr) \<Rightarrow> path \<Rightarrow> u64" where
  "vals h N \<pi> = (case N \<pi> of None \<Rightarrow> NGX_RADIX_NO_VALUE
     | Some p \<Rightarrow> (case h p of None \<Rightarrow> NGX_RADIX_NO_VALUE | Some n \<Rightarrow> rn_value n))"

definition node_ok :: "rheap \<Rightarrow> (path \<Rightarrow> ptr) \<Rightarrow> path \<Rightarrow> nat \<Rightarrow> bool" where
  "node_ok h N \<pi> p \<longleftrightarrow> (\<exists>n. h p = Some n \<and> rn_right n = N (\<pi> @ [True]) \<and> rn_left n = N (\<pi> @ [False]) \<and>
     rn_parent n = (if \<pi> = [] then NULL else N (butlast \<pi>)))"

definition rtree_ok :: "nat \<Rightarrow> rheap \<Rightarrow> ptr \<Rightarrow> (path \<Rightarrow> ptr) \<Rightarrow> bool" where
  "rtree_ok W h root N \<longleftrightarrow> root = N [] \<and> N [] \<noteq> NULL \<and>
     (\<forall>\<pi> \<rho> p. N \<pi> = Some p \<longrightarrow> N \<rho> = Some p \<longrightarrow> \<pi> = \<rho>) \<and>
     (\<forall>\<pi> b. N (\<pi> @ [b]) \<noteq> NULL \<longrightarrow> N \<pi> \<noteq> NULL) \<and>
     (\<forall>\<pi>. N \<pi> \<noteq> NULL \<longrightarrow> length \<pi> \<le> W) \<and>
     (\<forall>\<pi> p. N \<pi> = Some p \<longrightarrow> node_ok h N \<pi> p)"

fun free_list :: "rheap \<Rightarrow> ptr \<Rightarrow> nat list \<Rightarrow> bool" where
  "free_list h p [] = (p = NULL)"
| "free_list h p (a # as) = (p = Some a \<and> (\<exists>n. h a = Some n \<and> free_list h (rn_right n) as))"

definition slots :: "nat \<Rightarrow> nat \<Rightarrow> nat list" where
  \<comment> \<open>the node addresses in \<open>sz\<close> bytes from \<open>start\<close>\<close>
  "slots start sz = map (\<lambda>i. start + NODE_SIZE * i) [0..<sz div NODE_SIZE]"

definition room :: "nat \<Rightarrow> ngx_radix_tree_t \<Rightarrow> nat list" where
  "room pagesize t = slots (rt_start t) (rt_size t) @
     concat (map (\<lambda>pg. case pg of None \<Rightarrow> [] | Some a \<Rightarrow> slots a pagesize) (rt_pool t))"

definition mem_ok :: "nat \<Rightarrow> rheap \<Rightarrow> ngx_radix_tree_t \<Rightarrow> (path \<Rightarrow> ptr) \<Rightarrow> nat list \<Rightarrow> bool" where
  "mem_ok pagesize h t N F \<longleftrightarrow> free_list h (rt_free t) F \<and> distinct F \<and> (\<forall>\<pi> p. N \<pi> = Some p \<longrightarrow> p \<notin> set F) \<and>
     distinct (room pagesize t) \<and> set (room pagesize t) \<inter> dom h = {}"

definition radix_ok :: "nat \<Rightarrow> nat \<Rightarrow> rheap \<Rightarrow> ngx_radix_tree_t \<Rightarrow> (path \<Rightarrow> ptr) \<Rightarrow> nat list \<Rightarrow> bool" where
  "radix_ok W pagesize h t N F \<longleftrightarrow> rtree_ok W h (rt_root t) N \<and> mem_ok pagesize h t N F"

lemma rtree_okD:
  assumes "rtree_ok W h root N"
  shows "root = N []" "N [] \<noteq> NULL" "\<And>\<pi> \<rho> p. N \<pi> = Some p \<Longrightarrow> N \<rho> = Some p \<Longrightarrow> \<pi> = \<rho>"
    "\<And>\<pi> b. N (\<pi> @ [b]) \<noteq> NULL \<Longrightarrow> N \<pi> \<noteq> NULL" "\<And>\<pi>. N \<pi> \<noteq> NULL \<Longrightarrow> length \<pi> \<le> W"
    "\<And>\<pi> p. N \<pi> = Some p \<Longrightarrow> node_ok h N \<pi> p"
  using assms unfolding rtree_ok_def by blast+

lemma tree_node:
  assumes "rtree_ok W h root N" and "N \<pi> \<noteq> NULL"
  obtains p n where "N \<pi> = Some p" "h p = Some n" "rderef h (N \<pi>) = Some n" "\<And>b. kid b n = N (\<pi> @ [b])"
    "rn_right n = N (\<pi> @ [True])" "rn_left n = N (\<pi> @ [False])"
    "rn_parent n = (if \<pi> = [] then NULL else N (butlast \<pi>))" "rn_value n = vals h N \<pi>"
proof -
  obtain p where p: "N \<pi> = Some p" using assms(2) by auto
  obtain n where n: "h p = Some n" "rn_right n = N (\<pi> @ [True])" "rn_left n = N (\<pi> @ [False])"
      "rn_parent n = (if \<pi> = [] then NULL else N (butlast \<pi>))"
    using rtree_okD(6) [OF assms(1) p] by (auto simp: node_ok_def)
  moreover have "kid b n = N (\<pi> @ [b])" for b using n by (cases b) (simp_all add: kid_def)
  ultimately show ?thesis using that [of p n] p by (simp add: rderef_def vals_def)
qed

lemma tree_prefix:
  assumes "rtree_ok W h root N" and "N (\<pi> @ \<rho>) \<noteq> NULL"
  shows "N \<pi> \<noteq> NULL"
  using assms(2)
proof (induction \<rho> rule: rev_induct)
  case (snoc b \<rho>)
  then show ?case using rtree_okD(4) [OF assms(1), of "\<pi> @ \<rho>" b] by simp
qed simp

lemma tree_beyond: "rtree_ok W h root N \<Longrightarrow> N \<pi> = NULL \<Longrightarrow> N (\<pi> @ \<rho>) = NULL"
  using tree_prefix by blast

lemma free_list_frame: "a \<notin> set F \<Longrightarrow> free_list (h(a := x)) q F = free_list h q F"
  by (induction F arbitrary: q) auto

section \<open>Walks along a path\<close>

fun g_walk :: "rheap \<Rightarrow> path \<Rightarrow> ptr \<Rightarrow> ptr \<Rightarrow> (path \<times> ptr \<times> ptr) option" where
  "g_walk h [] node nxt = Some ([], node, nxt)"
| "g_walk h (b # bs) node nxt = do {
     n \<leftarrow> rderef h node;
     if kid b n = NULL then Some (b # bs, node, NULL) else g_walk h bs (kid b n) (kid b n)
   }"

fun g_del :: "rheap \<Rightarrow> path \<Rightarrow> ptr \<Rightarrow> ptr option" where
  "g_del h [] node = Some node"
| "g_del h (b # bs) node = (if node = NULL then Some NULL else do { n \<leftarrow> rderef h node; g_del h bs (kid b n) })"

fun g_ext :: "nat \<Rightarrow> path \<Rightarrow> ptr \<Rightarrow> rheap \<Rightarrow> ngx_radix_tree_t \<Rightarrow> (int \<times> ptr \<times> rheap \<times> ngx_radix_tree_t) option" where
  "g_ext pagesize [] node h t = Some (NGX_OK, node, h, t)"
| "g_ext pagesize (b # bs) node h t = do {
     (nxt, h, t) \<leftarrow> ngx_radix_alloc pagesize h t;
     if nxt = NULL then Some (NGX_ERROR, node, h, t)
     else do { h \<leftarrow> link_child h node b nxt; g_ext pagesize bs nxt h t }
   }"

lemma g_walk_ok:
  assumes ok: "rtree_ok W h root N"
  shows "N \<pi> \<noteq> NULL \<Longrightarrow> \<exists>\<pi>' rs nxt. g_walk h bs (N \<pi>) (N \<pi>) = Some (rs, N \<pi>', nxt) \<and> \<pi>' @ rs = \<pi> @ bs \<and> N \<pi>' \<noteq> NULL \<and>
     (if nxt = NULL then rs \<noteq> [] \<and> N (\<pi>' @ [hd rs]) = NULL else rs = [])"
proof (induction bs arbitrary: \<pi>)
  case Nil
  then show ?case by auto
next
  case (Cons b bs)
  obtain p n where n: "N \<pi> = Some p" "rderef h (N \<pi>) = Some n" "\<And>b. kid b n = N (\<pi> @ [b])"
    using tree_node [OF ok Cons.prems] by metis
  show ?case
  proof (cases "N (\<pi> @ [b])")
    case None
    then show ?thesis using n Cons.prems by (intro exI [of _ \<pi>] exI [of _ "b # bs"] exI [of _ NULL]) (simp del: if_split)
  next
    case (Some q)
    then show ?thesis using Cons.IH [of "\<pi> @ [b]"] n by (simp del: if_split)
  qed
qed

lemma g_del_ok:
  assumes ok: "rtree_ok W h root N"
  shows "g_del h bs (N \<pi>) = Some (N (\<pi> @ bs))"
proof (induction bs arbitrary: \<pi>)
  case (Cons b bs)
  show ?case
  proof (cases "N \<pi> = NULL")
    case True
    then have "N (\<pi> @ b # bs) = NULL" using tree_prefix [OF ok] by blast
    then show ?thesis using True by simp
  next
    case False
    then obtain p n where "N \<pi> = Some p" "rderef h (N \<pi>) = Some n" "\<And>b. kid b n = N (\<pi> @ [b])"
      using tree_node [OF ok] by metis
    then show ?thesis using Cons.IH [of "\<pi> @ [b]"] by (simp del: if_split)
  qed
qed simp

section \<open>Updates\<close>

lemma vals_upd:
  assumes "rtree_ok W h root N" and "N \<pi> = Some p" and "h p = Some n"
  shows "vals (h(p \<mapsto> n\<lparr>rn_value := v\<rparr>)) N = (vals h N)(\<pi> := v)"
proof
  fix \<rho>
  show "vals (h(p \<mapsto> n\<lparr>rn_value := v\<rparr>)) N \<rho> = ((vals h N)(\<pi> := v)) \<rho>"
    using assms rtree_okD(3) [OF assms(1,2), of \<rho>] by (cases "\<rho> = \<pi>") (auto simp: vals_def split: option.splits)
qed

lemma radix_ok_value:
  assumes ok: "radix_ok W ps h t N F" and p: "N \<pi> = Some p" "h p = Some n"
  shows "radix_ok W ps (h(p \<mapsto> n\<lparr>rn_value := v\<rparr>)) t N F"
proof -
  have T: "rtree_ok W h (rt_root t) N" and M: "mem_ok ps h t N F" using ok by (simp_all add: radix_ok_def)
  have "node_ok (h(p \<mapsto> n\<lparr>rn_value := v\<rparr>)) N \<rho> q" if "N \<rho> = Some q" for \<rho> q
    using rtree_okD(6) [OF T that] p(2) by (auto simp: node_ok_def)
  then have "rtree_ok W (h(p \<mapsto> n\<lparr>rn_value := v\<rparr>)) (rt_root t) N"
    using T by (simp add: rtree_ok_def)
  moreover have "p \<notin> set F" using M p by (auto simp: mem_ok_def)
  then have "mem_ok ps (h(p \<mapsto> n\<lparr>rn_value := v\<rparr>)) t N F"
    using M p(2) by (auto simp: mem_ok_def free_list_frame)
  ultimately show ?thesis by (simp add: radix_ok_def)
qed

text \<open>A node that is neither in the tree nor in the free list nor in the unused pages.\<close>

definition loose :: "nat \<Rightarrow> rheap \<Rightarrow> ngx_radix_tree_t \<Rightarrow> (path \<Rightarrow> ptr) \<Rightarrow> nat list \<Rightarrow> nat \<Rightarrow> bool" where
  "loose ps h t N F p \<longleftrightarrow> p \<in> dom h \<and> (\<forall>\<pi>. N \<pi> \<noteq> Some p) \<and> p \<notin> set F"

lemma slots_Cons: "NODE_SIZE \<le> sz \<Longrightarrow> slots a sz = a # slots (a + NODE_SIZE) (sz - NODE_SIZE)"
proof -
  assume "NODE_SIZE \<le> sz"
  then obtain m where "sz = m + NODE_SIZE" by (metis le_add_diff_inverse2)
  moreover have "map f [0..<Suc k] = f 0 # map (\<lambda>i. f (Suc i)) [0..<k]" for f :: "nat \<Rightarrow> nat" and k
    by (induction k) auto
  ultimately show ?thesis by (simp add: slots_def NODE_SIZE_def div_add_self2 del: upt_Suc)
qed

lemma slots_small: "sz < NODE_SIZE \<Longrightarrow> slots a sz = []"
  by (simp add: slots_def)

lemma take_slot_ok:
  assumes T: "rtree_ok W h root N" and M: "mem_ok ps h t N F" and sz: "NODE_SIZE \<le> rt_size t"
  shows "\<exists>p h' t'. take_slot h t = (Some p, h', t') \<and> rt_root t' = rt_root t \<and> rtree_ok W h' root N \<and>
    mem_ok ps h' t' N F \<and> loose ps h' t' N F p \<and> vals h' N = vals h N"
proof -
  let ?p = "rt_start t" and ?t = "t\<lparr>rt_start := rt_start t + NODE_SIZE, rt_size := rt_size t - NODE_SIZE\<rparr>"
  let ?h = "h(?p \<mapsto> blank_node)"
  have room: "room ps t = ?p # room ps ?t" using slots_Cons [OF sz] by (simp add: room_def)
  then have p: "?p \<notin> dom h" using M by (auto simp: mem_ok_def)
  have "free_list h q F \<Longrightarrow> set F \<subseteq> dom h" for q by (induction F arbitrary: q) auto
  then have pF: "?p \<notin> set F" using M p by (auto simp: mem_ok_def)
  have pN: "N \<pi> \<noteq> Some ?p" for \<pi> using p rtree_okD(6) [OF T, of \<pi> ?p] by (auto simp: node_ok_def)
  have "node_ok ?h N \<rho> q" if "N \<rho> = Some q" for \<rho> q
    using rtree_okD(6) [OF T that] that pN by (auto simp: node_ok_def)
  then have "rtree_ok W ?h root N" using T by (simp add: rtree_ok_def)
  moreover have "mem_ok ps ?h ?t N F" using M room by (auto simp: mem_ok_def free_list_frame pF)
  moreover have "loose ps ?h ?t N F ?p" using pN pF by (simp add: loose_def)
  moreover have "vals ?h N = vals h N" using pN by (auto simp: vals_def fun_eq_iff split: option.splits)
  ultimately show ?thesis by (auto simp: take_slot_def)
qed

lemma alloc_ok:
  assumes ok: "radix_ok W ps h t N F" and ps: "NODE_SIZE \<le> ps"
  shows "\<exists>q h' t' F'. ngx_radix_alloc ps h t = Some (q, h', t') \<and> rt_root t' = rt_root t \<and> radix_ok W ps h' t' N F' \<and>
    vals h' N = vals h N \<and> (case q of None \<Rightarrow> True | Some p \<Rightarrow> loose ps h' t' N F' p)"
proof -
  have T: "rtree_ok W h (rt_root t) N" and M: "mem_ok ps h t N F" using ok by (simp_all add: radix_ok_def)
  show ?thesis
  proof (cases F)
    case (Cons a F')
    then obtain n where n: "rt_free t = Some a" "h a = Some n" "free_list h (rn_right n) F'"
      using M by (auto simp: mem_ok_def)
    let ?t = "t\<lparr>rt_free := rn_right n\<rparr>"
    have "room ps ?t = room ps t" by (simp add: room_def)
    then have "radix_ok W ps h ?t N F'" using T M n Cons by (auto simp: radix_ok_def mem_ok_def)
    moreover have "loose ps h ?t N F' a" using M Cons n(2) by (auto simp: loose_def mem_ok_def)
    ultimately show ?thesis using n
      by (intro exI [of _ "Some a"] exI [of _ h] exI [of _ ?t] exI [of _ F']) (simp add: ngx_radix_alloc_def rderef_def)
  next
    case Nil
    then have fr: "rt_free t = NULL" using M by (simp add: mem_ok_def)
    show ?thesis
    proof (cases "NODE_SIZE \<le> rt_size t")
      case True
      then show ?thesis
        using take_slot_ok [OF T M True] fr by (auto simp: ngx_radix_alloc_def radix_ok_def)
    next
      case small: False
      show ?thesis
      proof (cases "rt_pool t")
        case pool: Nil
        then show ?thesis using fr small ok
          by (intro exI [of _ NULL] exI [of _ h] exI [of _ t] exI [of _ F]) (simp add: ngx_radix_alloc_def)
      next
        case (Cons pg pool)
        show ?thesis
        proof (cases pg)
          case None
          let ?t = "t\<lparr>rt_pool := pool\<rparr>"
          have "room ps ?t = room ps t" using Cons None by (simp add: room_def)
          then have "radix_ok W ps h ?t N F" using T M by (auto simp: radix_ok_def mem_ok_def)
          then show ?thesis using fr small Cons None
            by (intro exI [of _ NULL] exI [of _ h] exI [of _ ?t] exI [of _ F]) (simp add: ngx_radix_alloc_def)
        next
          case (Some a)
          let ?t = "t\<lparr>rt_pool := pool, rt_start := a, rt_size := ps\<rparr>"
          have "room ps ?t = room ps t" using Cons Some small by (simp add: room_def slots_small)
          then have M': "mem_ok ps h ?t N F" using M by (auto simp: mem_ok_def)
          have "ngx_radix_alloc ps h t = Some (take_slot h ?t)"
            using fr small Cons Some by (simp add: ngx_radix_alloc_def)
          then show ?thesis using take_slot_ok [OF T M'] ps by (auto simp: radix_ok_def)
        qed
      qed
    qed
  qed
qed

subsection \<open>Hanging a node into the tree\<close>

lemma link_tree:
  assumes T: "rtree_ok W h root N" and a: "N \<pi> = Some a" "h a = Some n" and free: "N (\<pi> @ [b]) = NULL"
    and p: "\<And>\<rho>. N \<rho> \<noteq> Some p" and len: "length \<pi> < W"
  shows "rtree_ok W (h(p \<mapsto> \<lparr>rn_right = NULL, rn_left = NULL, rn_parent = Some a, rn_value = NGX_RADIX_NO_VALUE\<rparr>,
      a \<mapsto> (if b then n\<lparr>rn_right := Some p\<rparr> else n\<lparr>rn_left := Some p\<rparr>))) root (N(\<pi> @ [b] \<mapsto> p))"
    (is "rtree_ok W ?h root ?N")
proof -
  have ap: "a \<noteq> p" using a(1) p by blast
  have beyond: "N (\<pi> @ [b] @ \<rho>) = NULL" for \<rho> using tree_beyond [OF T free, of \<rho>] by simp
  have node: "node_ok ?h ?N \<rho> q" if q: "?N \<rho> = Some q" for \<rho> q
  proof (cases "\<rho> = \<pi> @ [b]")
    case True
    then have "q = p" using q by simp
    then show ?thesis using True ap a beyond [of "[True]"] beyond [of "[False]"] by (simp add: node_ok_def)
  next
    case other: False
    then have Nq: "N \<rho> = Some q" using q by simp
    obtain m where m: "h q = Some m" "rn_right m = N (\<rho> @ [True])" "rn_left m = N (\<rho> @ [False])"
        "rn_parent m = (if \<rho> = [] then NULL else N (butlast \<rho>))"
      using rtree_okD(6) [OF T Nq] by (auto simp: node_ok_def)
    have "\<rho> \<noteq> [] \<Longrightarrow> butlast \<rho> \<noteq> \<pi> @ [b]"
    proof
      assume "\<rho> \<noteq> []" "butlast \<rho> = \<pi> @ [b]"
      then have "\<rho> = \<pi> @ [b] @ [last \<rho>]" by (metis append.assoc append_butlast_last_id)
      then show False using beyond [of "[last \<rho>]"] Nq by simp
    qed
    then have par: "rn_parent m = (if \<rho> = [] then NULL else ?N (butlast \<rho>))" using m(4) by simp
    show ?thesis
    proof (cases "\<rho> = \<pi>")
      case True
      then have "q = a" "m = n" using Nq a m(1) by simp_all
      then show ?thesis using True m par by (auto simp: node_ok_def)
    next
      case False
      then have "q \<noteq> a" "q \<noteq> p" using Nq a(1) p rtree_okD(3) [OF T Nq] by blast+
      then show ?thesis using False m par by (auto simp: node_ok_def)
    qed
  qed
  have inj: "\<rho> = \<sigma>" if "?N \<rho> = Some q" "?N \<sigma> = Some q" for \<rho> \<sigma> q
    using that p rtree_okD(3) [OF T, of \<rho> q \<sigma>] by (auto split: if_splits)
  have closed: "?N \<rho> \<noteq> NULL" if "?N (\<rho> @ [c]) \<noteq> NULL" for \<rho> c
    using that a(1) rtree_okD(4) [OF T, of \<rho> c] by (auto split: if_splits)
  have depth: "length \<rho> \<le> W" if "?N \<rho> \<noteq> NULL" for \<rho>
    using that len rtree_okD(5) [OF T, of \<rho>] by (auto split: if_splits)
  have "root = ?N []" "?N [] \<noteq> NULL" using rtree_okD(1,2) [OF T] by simp_all
  then show ?thesis unfolding rtree_ok_def using inj closed depth node by blast
qed

lemma link_child_ok:
  assumes ok: "radix_ok W ps h t N F" and p: "loose ps h t N F p" and \<pi>: "N \<pi> \<noteq> NULL"
    and free: "N (\<pi> @ [b]) = NULL" and len: "length \<pi> < W"
  shows "\<exists>h'. link_child h (N \<pi>) b (Some p) = Some h' \<and> radix_ok W ps h' t (N(\<pi> @ [b] \<mapsto> p)) F \<and>
    vals h' (N(\<pi> @ [b] \<mapsto> p)) = vals h N"
proof -
  have T: "rtree_ok W h (rt_root t) N" and M: "mem_ok ps h t N F" using ok by (simp_all add: radix_ok_def)
  obtain a n where a: "N \<pi> = Some a" "h a = Some n" using tree_node [OF T \<pi>] by metis
  have pN: "N \<rho> \<noteq> Some p" for \<rho> using p by (simp add: loose_def)
  then have ap: "a \<noteq> p" using a(1) by blast
  obtain m where m: "h p = Some m" using p by (auto simp: loose_def)
  let ?h = "h(p \<mapsto> \<lparr>rn_right = NULL, rn_left = NULL, rn_parent = Some a, rn_value = NGX_RADIX_NO_VALUE\<rparr>,
      a \<mapsto> (if b then n\<lparr>rn_right := Some p\<rparr> else n\<lparr>rn_left := Some p\<rparr>))"
  have "link_child h (N \<pi>) b (Some p) = Some ?h"
    using a ap m by (simp add: link_child_def rupd_def)
  moreover have "a \<notin> set F" "p \<notin> set F" using M a(1) p by (auto simp: mem_ok_def loose_def)
  then have "mem_ok ps ?h t (N(\<pi> @ [b] \<mapsto> p)) F"
    using M a(2) m by (auto simp: mem_ok_def free_list_frame)
  moreover have "vals ?h (N(\<pi> @ [b] \<mapsto> p)) = vals h N"
  proof
    fix \<rho> show "vals ?h (N(\<pi> @ [b] \<mapsto> p)) \<rho> = vals h N \<rho>"
      using ap a free pN [of \<rho>] by (cases "\<rho> = \<pi> @ [b]") (auto simp: vals_def split: option.splits)
  qed
  ultimately show ?thesis
    using link_tree [OF T a free pN len] by (simp add: radix_ok_def)
qed

lemma g_ext_ok:
  assumes ps: "NODE_SIZE \<le> ps"
  shows "radix_ok W ps h t N F \<Longrightarrow> N \<pi> \<noteq> NULL \<Longrightarrow> bs \<noteq> [] \<longrightarrow> N (\<pi> @ [hd bs]) = NULL \<Longrightarrow> length \<pi> + length bs \<le> W \<Longrightarrow>
    \<exists>rc q h' t' N' F'. g_ext ps bs (N \<pi>) h t = Some (rc, q, h', t') \<and> radix_ok W ps h' t' N' F' \<and> vals h' N' = vals h N \<and>
      rt_root t' = rt_root t \<and> (rc = NGX_OK \<and> q = N' (\<pi> @ bs) \<and> q \<noteq> NULL \<or> rc = NGX_ERROR)"
proof (induction bs arbitrary: \<pi> h t N F)
  case Nil
  then show ?case by (intro exI [of _ NGX_OK] exI [of _ "N \<pi>"] exI [of _ h] exI [of _ t] exI [of _ N] exI [of _ F]) simp
next
  case (Cons b bs)
  obtain q h1 t1 F1 where al: "ngx_radix_alloc ps h t = Some (q, h1, t1)" "rt_root t1 = rt_root t" "radix_ok W ps h1 t1 N F1"
      "vals h1 N = vals h N" "case q of None \<Rightarrow> True | Some p \<Rightarrow> loose ps h1 t1 N F1 p"
    using alloc_ok [OF Cons.prems(1) ps] by auto
  show ?case
  proof (cases q)
    case None
    then show ?thesis using al
      by (intro exI [of _ NGX_ERROR] exI [of _ "N \<pi>"] exI [of _ h1] exI [of _ t1] exI [of _ N] exI [of _ F1]) simp
  next
    case (Some p)
    have free: "N (\<pi> @ [b]) = NULL" and len: "length \<pi> < W" using Cons.prems(3,4) by simp_all
    obtain h2 where h2: "link_child h1 (N \<pi>) b (Some p) = Some h2" "radix_ok W ps h2 t1 (N(\<pi> @ [b] \<mapsto> p)) F1"
        "vals h2 (N(\<pi> @ [b] \<mapsto> p)) = vals h1 N"
      using link_child_ok [OF al(3) _ Cons.prems(2) free len] al(5) Some by auto
    let ?N = "N(\<pi> @ [b] \<mapsto> p)"
    have T: "rtree_ok W h1 (rt_root t1) N" using al(3) by (simp add: radix_ok_def)
    have "?N ((\<pi> @ [b]) @ [hd bs]) = NULL" using tree_beyond [OF T free, of "[hd bs]"] by simp
    then have "\<exists>rc q h' t' N' F'. g_ext ps bs (?N (\<pi> @ [b])) h2 t1 = Some (rc, q, h', t') \<and> radix_ok W ps h' t' N' F' \<and>
        vals h' N' = vals h2 ?N \<and> rt_root t' = rt_root t1 \<and>
        (rc = NGX_OK \<and> q = N' ((\<pi> @ [b]) @ bs) \<and> q \<noteq> NULL \<or> rc = NGX_ERROR)"
      using Cons.prems(4) by (intro Cons.IH [OF h2(2)]) simp_all
    then show ?thesis using al Some h2 by simp
  qed
qed

definition g_insert :: "nat \<Rightarrow> rheap \<Rightarrow> ngx_radix_tree_t \<Rightarrow> path \<Rightarrow> u64 \<Rightarrow> (int \<times> rheap \<times> ngx_radix_tree_t) option" where
  \<comment> \<open>insertion at a path: what both insertions are shown to be\<close>
  "g_insert ps h t \<pi> val = do {
     (rs, node, nxt) \<leftarrow> g_walk h \<pi> (rt_root t) (rt_root t);
     if nxt \<noteq> NULL then do {
       n \<leftarrow> rderef h node;
       if rn_value n \<noteq> NGX_RADIX_NO_VALUE then Some (NGX_BUSY, h, t)
       else do { h \<leftarrow> rupd h node (\<lambda>n. n\<lparr>rn_value := val\<rparr>); Some (NGX_OK, h, t) }
     }
     else do {
       (rc, node, h, t) \<leftarrow> g_ext ps rs node h t;
       if rc \<noteq> NGX_OK then Some (rc, h, t)
       else do { h \<leftarrow> rupd h node (\<lambda>n. n\<lparr>rn_value := val\<rparr>); Some (NGX_OK, h, t) }
     }
   }"

lemma store_value:
  assumes ok: "radix_ok W ps h t N F" and \<pi>: "N \<pi> \<noteq> NULL"
  shows "\<exists>h'. rupd h (N \<pi>) (\<lambda>n. n\<lparr>rn_value := v\<rparr>) = Some h' \<and> radix_ok W ps h' t N F \<and> vals h' N = (vals h N)(\<pi> := v)"
proof -
  have T: "rtree_ok W h (rt_root t) N" using ok by (simp add: radix_ok_def)
  obtain p n where p: "N \<pi> = Some p" "h p = Some n" using tree_node [OF T \<pi>] by metis
  then show ?thesis using radix_ok_value [OF ok p] vals_upd [OF T p] by (simp add: rupd_def)
qed

lemma g_insert_ok:
  assumes ok: "radix_ok W ps h t N F" and ps: "NODE_SIZE \<le> ps" and len: "length \<pi> \<le> W"
  shows "\<exists>rc h' t' N' F'. g_insert ps h t \<pi> v = Some (rc, h', t') \<and> radix_ok W ps h' t' N' F' \<and>
    (if vals h N \<pi> \<noteq> NGX_RADIX_NO_VALUE then rc = NGX_BUSY \<and> vals h' N' = vals h N
     else rc = NGX_OK \<and> vals h' N' = (vals h N)(\<pi> := v) \<or> rc = NGX_ERROR \<and> vals h' N' = vals h N)"
proof -
  have T: "rtree_ok W h (rt_root t) N" using ok by (simp add: radix_ok_def)
  obtain \<pi>' rs nxt where w: "g_walk h \<pi> (rt_root t) (rt_root t) = Some (rs, N \<pi>', nxt)" "\<pi>' @ rs = \<pi>" "N \<pi>' \<noteq> NULL"
      "if nxt = NULL then rs \<noteq> [] \<and> N (\<pi>' @ [hd rs]) = NULL else rs = []"
    using g_walk_ok [OF T rtree_okD(2) [OF T], of \<pi>] rtree_okD(1) [OF T] by auto
  show ?thesis
  proof (cases "nxt = NULL")
    case False
    then have \<pi>: "N \<pi> \<noteq> NULL" "\<pi>' = \<pi>" using w by simp_all
    obtain n where n: "rderef h (N \<pi>) = Some n" "rn_value n = vals h N \<pi>" using tree_node [OF T \<pi>(1)] by metis
    show ?thesis
    proof (cases "vals h N \<pi> = NGX_RADIX_NO_VALUE")
      case True
      obtain h' where h': "rupd h (N \<pi>) (\<lambda>n. n\<lparr>rn_value := v\<rparr>) = Some h'" "radix_ok W ps h' t N F" "vals h' N = (vals h N)(\<pi> := v)"
        using store_value [OF ok \<pi>(1)] by blast
      have "g_insert ps h t \<pi> v = Some (NGX_OK, h', t)" using w(1) \<pi>(2) n False True h'(1) by (simp add: g_insert_def)
      then show ?thesis using h'(2,3) True by fastforce
    next
      case busy: False
      then have "g_insert ps h t \<pi> v = Some (NGX_BUSY, h, t)" using w(1) \<pi>(2) n False by (simp add: g_insert_def)
      then show ?thesis using ok busy by auto
    qed
  next
    case True
    then have rs: "rs \<noteq> []" "N (\<pi>' @ [hd rs]) = NULL" using w(4) by simp_all
    have "\<pi> = (\<pi>' @ [hd rs]) @ tl rs" using w(2) rs(1) by simp
    then have "N \<pi> = NULL" using tree_beyond [OF T rs(2)] by metis
    then have V: "vals h N \<pi> = NGX_RADIX_NO_VALUE" by (simp add: vals_def)
    have "length \<pi>' + length rs \<le> W" using len w(2) by (metis length_append)
    note E = g_ext_ok [OF ps ok w(3) impI [OF rs(2)] this, unfolded w(2)]
    obtain rc q h1 t1 N1 F1 where e: "g_ext ps rs (N \<pi>') h t = Some (rc, q, h1, t1)" "radix_ok W ps h1 t1 N1 F1"
        "vals h1 N1 = vals h N" "rc = NGX_OK \<and> q = N1 \<pi> \<and> q \<noteq> NULL \<or> rc = NGX_ERROR"
      using E by blast
    show ?thesis
    proof (cases "rc = NGX_OK")
      case ok1: True
      then obtain h' where h': "rupd h1 (N1 \<pi>) (\<lambda>n. n\<lparr>rn_value := v\<rparr>) = Some h'" "radix_ok W ps h' t1 N1 F1" "vals h' N1 = (vals h1 N1)(\<pi> := v)"
        using store_value [OF e(2)] e(4) by fastforce
      have "g_insert ps h t \<pi> v = Some (NGX_OK, h', t1)" using w(1) True e ok1 h'(1) by (auto simp: g_insert_def)
      then show ?thesis using h'(2,3) e(3) V by fastforce
    next
      case False
      then have "g_insert ps h t \<pi> v = Some (NGX_ERROR, h1, t1)" using e True w(1) by (auto simp: g_insert_def)
      then show ?thesis using e V by auto
    qed
  qed
qed

subsection \<open>Taking a leaf out of the tree\<close>

lemma unlink_tree:
  assumes T: "rtree_ok W h root N" and a: "N (\<pi> @ [c]) = Some a" "h a = Some n" and p: "N \<pi> = Some p" "h p = Some m"
    and leaf: "\<And>b. N (\<pi> @ [c, b]) = NULL"
  shows "rtree_ok W (h(p \<mapsto> (if rn_right m = Some a then m\<lparr>rn_right := NULL\<rparr> else m\<lparr>rn_left := NULL\<rparr>), a \<mapsto> n')) root (N(\<pi> @ [c] := NULL))"
    (is "rtree_ok W ?h root ?N")
proof -
  have ap: "a \<noteq> p" using rtree_okD(3) [OF T a(1), of \<pi>] p(1) by auto
  have m: "rn_right m = N (\<pi> @ [True])" "rn_left m = N (\<pi> @ [False])" "rn_parent m = (if \<pi> = [] then NULL else N (butlast \<pi>))"
    using rtree_okD(6) [OF T p(1)] p(2) by (auto simp: node_ok_def)
  have side: "rn_right m = Some a \<longleftrightarrow> c" using m(1) a(1) rtree_okD(3) [OF T a(1), of "\<pi> @ [True]"] by (cases c) auto
  have node: "node_ok ?h ?N \<rho> q" if q: "?N \<rho> = Some q" for \<rho> q
  proof -
    have Nq: "N \<rho> = Some q" "\<rho> \<noteq> \<pi> @ [c]" using q by (auto split: if_splits)
    then have qa: "q \<noteq> a" using rtree_okD(3) [OF T a(1), of \<rho>] by auto
    obtain k where k: "h q = Some k" "rn_right k = N (\<rho> @ [True])" "rn_left k = N (\<rho> @ [False])"
        "rn_parent k = (if \<rho> = [] then NULL else N (butlast \<rho>))"
      using rtree_okD(6) [OF T Nq(1)] by (auto simp: node_ok_def)
    have "\<rho> \<noteq> [] \<Longrightarrow> butlast \<rho> \<noteq> \<pi> @ [c]"
    proof
      assume "\<rho> \<noteq> []" "butlast \<rho> = \<pi> @ [c]"
      then have "\<rho> = \<pi> @ [c, last \<rho>]" by (metis append.assoc append_butlast_last_id append_Cons append_Nil)
      then show False using leaf [of "last \<rho>"] Nq(1) by simp
    qed
    then have par: "rn_parent k = (if \<rho> = [] then NULL else ?N (butlast \<rho>))" using k(4) by simp
    show ?thesis
    proof (cases "\<rho> = \<pi>")
      case True
      then have "q = p" "k = m" using Nq(1) p k(1) by simp_all
      then show ?thesis using True m par side qa by (cases c) (auto simp: node_ok_def)
    next
      case False
      then have "q \<noteq> p" using rtree_okD(3) [OF T Nq(1), of \<pi>] p(1) by auto
      then show ?thesis using False k par qa by (auto simp: node_ok_def)
    qed
  qed
  have inj: "\<rho> = \<sigma>" if "?N \<rho> = Some q" "?N \<sigma> = Some q" for \<rho> \<sigma> q
    using that rtree_okD(3) [OF T, of \<rho> q \<sigma>] by (auto split: if_splits)
  have closed: "?N \<rho> \<noteq> NULL" if "?N (\<rho> @ [b]) \<noteq> NULL" for \<rho> b
    using that rtree_okD(4) [OF T, of \<rho> b] leaf [of b] by (auto split: if_splits)
  have depth: "length \<rho> \<le> W" if "?N \<rho> \<noteq> NULL" for \<rho>
    using that rtree_okD(5) [OF T, of \<rho>] by (auto split: if_splits)
  have "root = ?N []" "?N [] \<noteq> NULL" using rtree_okD(1,2) [OF T] by simp_all
  then show ?thesis unfolding rtree_ok_def using inj closed depth node by blast
qed

lemma unlink_ok:
  assumes ok: "radix_ok W ps h t N F" and a: "N (\<pi> @ [c]) = Some a" "h a = Some n" and p: "N \<pi> = Some p" "h p = Some m"
    and leaf: "\<And>b. N (\<pi> @ [c, b]) = NULL"
  defines "h' \<equiv> h(p \<mapsto> (if rn_right m = Some a then m\<lparr>rn_right := NULL\<rparr> else m\<lparr>rn_left := NULL\<rparr>), a \<mapsto> n\<lparr>rn_right := rt_free t\<rparr>)"
  shows "radix_ok W ps h' (t\<lparr>rt_free := Some a\<rparr>) (N(\<pi> @ [c] := NULL)) (a # F)"
    and "vals h' (N(\<pi> @ [c] := NULL)) = (vals h N)(\<pi> @ [c] := NGX_RADIX_NO_VALUE)"
proof -
  have T: "rtree_ok W h (rt_root t) N" and M: "mem_ok ps h t N F" using ok by (simp_all add: radix_ok_def)
  have ap: "a \<noteq> p" using rtree_okD(3) [OF T a(1), of \<pi>] p(1) by auto
  have nF: "a \<notin> set F" "p \<notin> set F" using M a p by (auto simp: mem_ok_def)
  have other: "N \<rho> \<noteq> Some a" if "\<rho> \<noteq> \<pi> @ [c]" for \<rho> using that rtree_okD(3) [OF T a(1), of \<rho>] by auto
  have "room ps (t\<lparr>rt_free := Some a\<rparr>) = room ps t" by (simp add: room_def)
  then have "mem_ok ps h' (t\<lparr>rt_free := Some a\<rparr>) (N(\<pi> @ [c] := NULL)) (a # F)"
    using M a(2) p(2) nF other by (auto simp: mem_ok_def free_list_frame h'_def)
  then show "radix_ok W ps h' (t\<lparr>rt_free := Some a\<rparr>) (N(\<pi> @ [c] := NULL)) (a # F)"
    using unlink_tree [OF T a p leaf] by (simp add: radix_ok_def h'_def)
  show "vals h' (N(\<pi> @ [c] := NULL)) = (vals h N)(\<pi> @ [c] := NGX_RADIX_NO_VALUE)"
  proof
    fix \<rho> show "vals h' (N(\<pi> @ [c] := NULL)) \<rho> = ((vals h N)(\<pi> @ [c] := NGX_RADIX_NO_VALUE)) \<rho>"
      using p(2) ap other [of \<rho>] by (cases "\<rho> = \<pi> @ [c]") (auto simp: vals_def h'_def split: option.splits)
  qed
qed

lemma prune_loop_ok:
  assumes "radix_ok W ps h t N F" and "N \<pi> \<noteq> NULL" and "\<pi> \<noteq> []" and "\<And>b. N (\<pi> @ [b]) = NULL"
  shows "\<exists>h' t' N' F'. prune_loop h t (N \<pi>) = Some (h', t') \<and> radix_ok W ps h' t' N' F' \<and> rt_root t' = rt_root t \<and>
    vals h' N' = (vals h N)(\<pi> := NGX_RADIX_NO_VALUE)"
  using assms
proof (induction "length \<pi>" arbitrary: \<pi> h t N F)
  case 0
  then show ?case by simp
next
  case (Suc k)
  obtain \<rho> c where \<rho>: "\<pi> = \<rho> @ [c]" using Suc.prems(3) by (metis rev_exhaust)
  have T: "rtree_ok W h (rt_root t) N" using Suc.prems(1) by (simp add: radix_ok_def)
  obtain a n where a: "N (\<rho> @ [c]) = Some a" "h a = Some n" "rn_parent n = N \<rho>"
    using tree_node [OF T Suc.prems(2)] \<rho> by (metis butlast_snoc snoc_eq_iff_butlast)
  have "N \<rho> \<noteq> NULL" using rtree_okD(4) [OF T] Suc.prems(2) \<rho> by blast
  then obtain p m where p: "N \<rho> = Some p" "h p = Some m" using tree_node [OF T] by metis
  have ap: "a \<noteq> p" using rtree_okD(3) [OF T a(1), of \<rho>] p(1) by auto
  have leaf: "N (\<rho> @ [c, b]) = NULL" for b using Suc.prems(4) \<rho> by simp
  let ?h = "h(p \<mapsto> (if rn_right m = Some a then m\<lparr>rn_right := NULL\<rparr> else m\<lparr>rn_left := NULL\<rparr>), a \<mapsto> n\<lparr>rn_right := rt_free t\<rparr>)"
  let ?t = "t\<lparr>rt_free := Some a\<rparr>" and ?N = "N(\<rho> @ [c] := NULL)"
  note U = unlink_ok [OF Suc.prems(1) a(1,2) p leaf]
  have T': "rtree_ok W ?h (rt_root ?t) ?N" using U(1) by (simp add: radix_ok_def)
  have pN: "?N \<rho> = Some p" using p(1) by simp
  obtain m' where m': "?h p = Some m'" "rderef ?h (Some p) = Some m'" "rn_right m' = ?N (\<rho> @ [True])" "rn_left m' = ?N (\<rho> @ [False])"
      "rn_parent m' = (if \<rho> = [] then NULL else ?N (butlast \<rho>))" "rn_value m' = vals ?h ?N \<rho>"
    using tree_node [OF T', of \<rho>] pN by (metis option.distinct(1) option.inject)
  let ?stop = "rn_right m' \<noteq> NULL \<or> rn_left m' \<noteq> NULL \<or> rn_value m' \<noteq> NGX_RADIX_NO_VALUE \<or> rn_parent m' = NULL"
  have step: "prune_loop h t (N \<pi>) = (if ?stop then Some (?h, ?t) else prune_loop ?h ?t (Some p))"
    using a p ap m'(1,2) by (subst prune_loop.simps) (auto simp: \<rho> rderef_def rupd_def)
  have V: "vals ?h ?N = (vals h N)(\<pi> := NGX_RADIX_NO_VALUE)" using U(2) \<rho> by simp
  show ?case
  proof (cases ?stop)
    case True
    then have "prune_loop h t (N \<pi>) = Some (?h, ?t)" using step by (simp only: if_True)
    then show ?thesis using U(1) V
      by (intro exI [of _ ?h] exI [of _ ?t] exI [of _ ?N] exI [of _ "a # F"]) simp
  next
    case False
    then have leaf': "?N (\<rho> @ [b]) = NULL" for b using m'(3,4) by (cases b) auto
    have ne: "\<rho> \<noteq> []" using False m'(5) by auto
    have "\<exists>h' t' N' F'. prune_loop ?h ?t (?N \<rho>) = Some (h', t') \<and> radix_ok W ps h' t' N' F' \<and> rt_root t' = rt_root ?t \<and>
        vals h' N' = (vals ?h ?N)(\<rho> := NGX_RADIX_NO_VALUE)"
      using Suc.hyps(2) \<rho> pN by (intro Suc.hyps(1) [OF _ U(1) _ ne leaf']) simp_all
    moreover have "(vals ?h ?N)(\<rho> := NGX_RADIX_NO_VALUE) = vals ?h ?N" using False m'(6) by auto
    moreover have "prune_loop h t (N \<pi>) = prune_loop ?h ?t (Some p)" using step False by (simp only: if_False)
    ultimately show ?thesis using V pN by simp
  qed
qed

lemma del_node_ok:
  assumes ok: "radix_ok W ps h t N F" and ne: "\<pi> = [] \<longrightarrow> N [True] \<noteq> NULL \<or> N [False] \<noteq> NULL"
  shows "\<exists>rc h' t' N' F'. del_node h t (N \<pi>) = Some (rc, h', t') \<and> radix_ok W ps h' t' N' F' \<and>
    vals h' N' = (vals h N)(\<pi> := NGX_RADIX_NO_VALUE) \<and> (rc = NGX_OK \<or> rc = NGX_ERROR \<and> vals h N \<pi> = NGX_RADIX_NO_VALUE)"
proof (cases "N \<pi> = NULL")
  case True
  then have "vals h N \<pi> = NGX_RADIX_NO_VALUE" by (simp add: vals_def)
  then have "(vals h N)(\<pi> := NGX_RADIX_NO_VALUE) = vals h N" by auto
  then show ?thesis using ok True \<open>vals h N \<pi> = _\<close>
    by (intro exI [of _ NGX_ERROR] exI [of _ h] exI [of _ t] exI [of _ N] exI [of _ F]) (simp add: del_node_def)
next
  case False
  have T: "rtree_ok W h (rt_root t) N" using ok by (simp add: radix_ok_def)
  obtain n where n: "rderef h (N \<pi>) = Some n" "rn_right n = N (\<pi> @ [True])" "rn_left n = N (\<pi> @ [False])" "rn_value n = vals h N \<pi>"
    using tree_node [OF T False] by metis
  show ?thesis
  proof (cases "N (\<pi> @ [True]) \<noteq> NULL \<or> N (\<pi> @ [False]) \<noteq> NULL")
    case inner: True
    show ?thesis
    proof (cases "vals h N \<pi> = NGX_RADIX_NO_VALUE")
      case True
      then have "(vals h N)(\<pi> := NGX_RADIX_NO_VALUE) = vals h N" by auto
      moreover have "del_node h t (N \<pi>) = Some (NGX_ERROR, h, t)" using n inner False True by (auto simp: del_node_def)
      ultimately show ?thesis using ok True by metis
    next
      case val: False
      obtain h' where h': "rupd h (N \<pi>) (\<lambda>n. n\<lparr>rn_value := NGX_RADIX_NO_VALUE\<rparr>) = Some h'" "radix_ok W ps h' t N F"
          "vals h' N = (vals h N)(\<pi> := NGX_RADIX_NO_VALUE)"
        using store_value [OF ok False] by blast
      have "del_node h t (N \<pi>) = Some (NGX_OK, h', t)" using n inner False val h'(1) by (auto simp: del_node_def)
      then show ?thesis using h'(2,3) by blast
    qed
  next
    case leaf: False
    then have "\<pi> \<noteq> []" using ne by auto
    moreover have "N (\<pi> @ [b]) = NULL" for b using leaf by (cases b) auto
    ultimately obtain h' t' N' F' where pr: "prune_loop h t (N \<pi>) = Some (h', t')" "radix_ok W ps h' t' N' F'"
        "vals h' N' = (vals h N)(\<pi> := NGX_RADIX_NO_VALUE)"
      using prune_loop_ok [OF ok False] by blast
    then have "del_node h t (N \<pi>) = Some (NGX_OK, h', t')" using n leaf False by (simp add: del_node_def)
    then show ?thesis using pr by blast
  qed
qed

text \<open>Deleting the root of a tree that has no other node dereferences the root's null parent.\<close>

lemma del_node_lone_root:
  assumes ok: "radix_ok W ps h t N F" and "N [True] = NULL" and "N [False] = NULL"
  shows "del_node h t (N []) = None"
proof -
  have T: "rtree_ok W h (rt_root t) N" using ok by (simp add: radix_ok_def)
  obtain n where n: "rderef h (N []) = Some n" "rn_right n = NULL" "rn_left n = NULL" "rn_parent n = NULL"
    using tree_node [OF T rtree_okD(2) [OF T]] assms(2,3) by (metis append_Nil)
  then have "prune_loop h t (N []) = None" by (subst prune_loop.simps) (simp add: rupd_def)
  then show ?thesis using n rtree_okD(2) [OF T] by (auto simp: del_node_def)
qed

end
