(* ===== verification/Ngx_Radix_Keys.thy ===== *)
theory Ngx_Radix_Keys
  imports Ngx_Radix_Map
begin

text \<open>
  The loops over the bits of a key. The cursor of the code, a single bit of a 32-bit word or a byte
  index with a single bit, is a position in the list of key bits, most significant first; the IPv4
  and the IPv6 loops are then the same walk along a path.
\<close>

declare ins_walk32.simps [simp del] ins_extend32.simps [simp del] del_walk32.simps [simp del]
  ins_walk128.simps [simp del] ins_extend128.simps [simp del] del_walk128.simps [simp del]

definition bits32 :: "u32 \<Rightarrow> path" where
  "bits32 w = map (\<lambda>j. bit w (31 - j)) [0..<32]"

definition bits128 :: "bytes \<Rightarrow> path" where
  "bits128 bs = map (\<lambda>j. bit (bs ! (j div 8)) (7 - j mod 8)) [0..<8 * length bs]"

definition path_of :: "path \<Rightarrow> path \<Rightarrow> path" where
  \<comment> \<open>the key bits under the leading ones of the mask\<close>
  "path_of kb mb = take (length (takeWhile id mb)) kb"

lemma length_key_bits [simp]: "length (bits32 w) = 32" "length (bits128 bs) = 8 * length bs"
  by (simp_all add: bits32_def bits128_def)

lemma nth_key_bits: "j < 32 \<Longrightarrow> bits32 w ! j = bit w (31 - j)"
    "j < 8 * length bs \<Longrightarrow> bits128 bs ! j = bit (bs ! (j div 8)) (7 - j mod 8)"
  by (simp_all add: bits32_def bits128_def)

lemma path_length: "length kb = length mb \<Longrightarrow> length (path_of kb mb) = length (takeWhile id mb)"
  using length_takeWhile_le [of id mb] by (simp add: path_of_def)

lemma path_bound: "length (path_of kb mb) \<le> length kb"
  by (simp add: path_of_def)

lemma path_step:
  assumes "length kb = length mb" and "j \<le> length (path_of kb mb)" and "j < length mb"
  shows "mb ! j \<longleftrightarrow> j < length (path_of kb mb)"
proof
  assume "mb ! j"
  then show "j < length (path_of kb mb)"
    using assms nth_length_takeWhile [of id mb] by (auto simp: path_length le_less)
next
  assume "j < length (path_of kb mb)"
  then show "mb ! j" using assms(1) nth_mem [of j "takeWhile id mb"] set_takeWhileD [of _ id mb]
    by (metis path_length takeWhile_nth id_apply)
qed

lemma path_drop: "j < length (path_of kb mb) \<Longrightarrow> drop j (path_of kb mb) = kb ! j # drop (Suc j) (path_of kb mb)"
  by (simp add: Cons_nth_drop_Suc [symmetric] path_of_def)

section \<open>IPv4\<close>

definition bp :: "nat \<Rightarrow> u32" where
  "bp j = drop_bit j 0x80000000"

lemma bit_single:
  assumes "k < LENGTH('a)"
  shows "bit (drop_bit j (2 ^ k :: 'a :: len word)) n \<longleftrightarrow> j + n = k"
  using assms by (auto simp: bit_drop_bit_eq bit_exp_iff)

lemma word_nonzero: "(w :: 'a :: len word) \<noteq> 0 \<longleftrightarrow> (\<exists>n. bit w n)"
  using bit_eq_iff [of w 0] by auto

lemma single_and:
  assumes "k < LENGTH('a)"
  shows "drop_bit j (2 ^ k :: 'a :: len word) AND w \<noteq> 0 \<longleftrightarrow> j \<le> k \<and> bit w (k - j)"
proof -
  have "drop_bit j (2 ^ k :: 'a word) AND w \<noteq> 0 \<longleftrightarrow> (\<exists>n. j + n = k \<and> bit w n)"
    using word_nonzero [of "drop_bit j (2 ^ k) AND w"] by (simp only: bit_and_iff bit_single [OF assms])
  also have "\<dots> \<longleftrightarrow> j \<le> k \<and> bit w (k - j)" by (metis add_diff_cancel_left' le_add1 le_add_diff_inverse)
  finally show ?thesis .
qed

lemma bp_exp: "bp j = drop_bit j (2 ^ 31)"
  by (simp add: bp_def)

lemma bp_and: "bp j AND w \<noteq> 0 \<longleftrightarrow> j < 32 \<and> bits32 w ! j" "w AND bp j \<noteq> 0 \<longleftrightarrow> j < 32 \<and> bits32 w ! j"
proof -
  have "bp j AND w \<noteq> 0 \<longleftrightarrow> j \<le> 31 \<and> bit w (31 - j)" unfolding bp_exp by (rule single_and) simp
  then show "bp j AND w \<noteq> 0 \<longleftrightarrow> j < 32 \<and> bits32 w ! j" by (auto simp: nth_key_bits)
  then show "w AND bp j \<noteq> 0 \<longleftrightarrow> j < 32 \<and> bits32 w ! j" by (simp add: and.commute)
qed

lemma bp_0: "bp 0 = 0x80000000"
  by (simp add: bp_def)

lemma bp_Suc: "drop_bit 1 (bp j) = bp (Suc j)"
  by (simp add: bp_def drop_bit_drop_bit del: drop_bit_numeral_bit0)

abbreviation path32 :: "u32 \<Rightarrow> u32 \<Rightarrow> path" where
  "path32 key msk \<equiv> path_of (bits32 key) (bits32 msk)"

lemma cond32: "j \<le> length (path32 key msk) \<Longrightarrow> bp j AND msk = 0 \<longleftrightarrow> \<not> j < length (path32 key msk)"
  using path_step [of "bits32 key" "bits32 msk" j] path_bound [of "bits32 key" "bits32 msk"] bp_and(1) [of j msk] by fastforce

lemma key32: "j < length (path32 key msk) \<Longrightarrow> key AND bp j = 0 \<longleftrightarrow> \<not> bits32 key ! j"
  using path_bound [of "bits32 key" "bits32 msk"] bp_and(2) [of key j] by auto

text \<open>Induction from a position to the end of a path.\<close>

lemma to_end_induct [consumes 1, case_names last step]:
  assumes "j \<le> (n :: nat)" and "P n" and "\<And>j. j < n \<Longrightarrow> P (Suc j) \<Longrightarrow> P j"
  shows "P j"
  using assms(1) by (induction j rule: inc_induct) (simp_all add: assms(2,3))

lemma ins_walk32_path:
  assumes "j \<le> length (path32 key msk)"
  shows "ins_walk32 h key msk (bp j) node nxt =
    map_option (\<lambda>(rs, nd, nx). (bp (length (path32 key msk) - length rs), nd, nx)) (g_walk h (drop j (path32 key msk)) node nxt)"
  using assms
proof (induction j arbitrary: node nxt rule: to_end_induct)
  case last
  then show ?case by (subst ins_walk32.simps) (simp add: cond32 [of _ key msk])
next
  case (step j)
  then show ?case
    unfolding ins_walk32.simps [of h key msk "bp j"] bp_Suc path_drop [OF step.hyps]
    by (cases "rderef h node") (auto simp: cond32 [of _ key msk] key32 [of _ key msk] kid_def Let_def)
qed

lemma ins_extend32_path:
  assumes "j \<le> length (path32 key msk)"
  shows "ins_extend32 ps key msk (bp j) node h t = g_ext ps (drop j (path32 key msk)) node h t"
  using assms
proof (induction j arbitrary: node h t rule: to_end_induct)
  case last
  then show ?case by (subst ins_extend32.simps) (simp add: cond32 [of _ key msk])
next
  case (step j)
  then show ?case
    unfolding ins_extend32.simps [of ps key msk "bp j"] bp_Suc path_drop [OF step.hyps]
    by (simp add: cond32 [of _ key msk] key32 [of _ key msk] cong: if_cong)
qed

lemma del_walk32_path:
  assumes "j \<le> length (path32 key msk)"
  shows "del_walk32 h key msk (bp j) node = g_del h (drop j (path32 key msk)) node"
  using assms
proof (induction j arbitrary: node rule: to_end_induct)
  case last
  then show ?case by (subst del_walk32.simps) (simp add: cond32 [of _ key msk])
next
  case (step j)
  then show ?case
    unfolding del_walk32.simps [of h key msk "bp j"] bp_Suc path_drop [OF step.hyps]
    by (simp add: cond32 [of _ key msk] key32 [of _ key msk] kid_def)
qed

lemma g_walk_rest: "g_walk h bs node nxt = Some (rs, nd, nx) \<Longrightarrow> \<exists>k. rs = drop k bs \<and> k \<le> length bs"
proof (induction bs arbitrary: node nxt)
  case (Cons b bs)
  then show ?case
  proof (cases "rderef h node")
    case (Some n)
    show ?thesis
    proof (cases "kid b n")
      case None
      then show ?thesis using Cons.prems Some by (intro exI [of _ 0]) simp
    next
      case (Some q)
      then obtain k where "rs = drop k bs" "k \<le> length bs" using Cons \<open>rderef h node = Some n\<close> by auto
      then show ?thesis by (intro exI [of _ "Suc k"]) simp
    qed
  qed simp
qed simp

lemma insert32_path: "ngx_radix32tree_insert ps h t key msk v = g_insert ps h t (path32 key msk) v"
proof -
  have "ins_extend32 ps key msk (bp (length (path32 key msk) - length rs)) nd h t = g_ext ps rs nd h t"
    if w: "g_walk h (path32 key msk) node nxt = Some (rs, nd, nx)" for rs nd nx node nxt h t
  proof -
    obtain k where "rs = drop k (path32 key msk)" "k \<le> length (path32 key msk)" using g_walk_rest [OF w] by blast
    then show ?thesis using ins_extend32_path [of k key msk ps nd h t] by simp
  qed
  then show ?thesis
    using ins_walk32_path [of 0 key msk h "rt_root t" "rt_root t"]
    by (cases "g_walk h (path32 key msk) (rt_root t) (rt_root t)")
      (auto simp: ngx_radix32tree_insert_def g_insert_def bp_0)
qed

lemma delete32_path: "ngx_radix32tree_delete h t key msk = Option.bind (g_del h (path32 key msk) (rt_root t)) (del_node h t)"
  using del_walk32_path [of 0 key msk h "rt_root t"] by (simp add: ngx_radix32tree_delete_def bp_0)

section \<open>IPv6\<close>

definition c8 :: "nat \<Rightarrow> u8" where
  \<comment> \<open>the bit of the cursor at position \<open>j\<close>; its byte is \<open>j div 8\<close>\<close>
  "c8 j = (if j < 128 then drop_bit (j mod 8) 0x80 else 0)"

lemma c8_and: "j < 128 \<Longrightarrow> c8 j AND m = 0 \<longleftrightarrow> \<not> bit m (7 - j mod 8)" "j < 128 \<Longrightarrow> m AND c8 j = 0 \<longleftrightarrow> \<not> bit m (7 - j mod 8)"
proof -
  assume j: "j < 128"
  have "drop_bit (j mod 8) (2 ^ 7 :: u8) AND m \<noteq> 0 \<longleftrightarrow> j mod 8 \<le> 7 \<and> bit m (7 - j mod 8)"
    by (rule single_and) simp
  moreover have "j mod 8 \<le> 7" using mod_less_divisor [of 8 j] by linarith
  ultimately show "c8 j AND m = 0 \<longleftrightarrow> \<not> bit m (7 - j mod 8)" using j by (auto simp: c8_def)
  then show "m AND c8 j = 0 \<longleftrightarrow> \<not> bit m (7 - j mod 8)" by (simp add: and.commute)
qed

lemma c8_0: "c8 0 = 0x80"
  by (simp add: c8_def)

lemma next_byte: "j mod 8 = 7 \<Longrightarrow> Suc j mod 8 = 0 \<and> Suc j div 8 = Suc (j div 8)"
    "j mod 8 \<noteq> 7 \<Longrightarrow> Suc j mod 8 = Suc (j mod 8) \<and> Suc j div 8 = j div (8 :: nat)"
  by (auto simp: mod_Suc div_Suc)

lemma c8_step:
  assumes "j < 128"
  shows "drop_bit (Suc 0) (c8 j) = 0 \<longleftrightarrow> j mod 8 = 7"
    and "j mod 8 \<noteq> 7 \<Longrightarrow> drop_bit (Suc 0) (c8 j) = c8 (Suc j)"
    and "j mod 8 = 7 \<Longrightarrow> Suc j < 128 \<Longrightarrow> c8 (Suc j) = 0x80"
proof -
  have e: "drop_bit (Suc 0) (c8 j) = drop_bit (Suc (j mod 8)) (2 ^ 7)"
    using assms by (simp add: c8_def drop_bit_drop_bit del: drop_bit_numeral_bit0)
  have "drop_bit (Suc 0) (c8 j) \<noteq> 0 \<longleftrightarrow> Suc (j mod 8) \<le> 7"
    using single_and [of 7 "Suc (j mod 8)" "-1 :: u8"] unfolding e by auto
  then show "drop_bit (Suc 0) (c8 j) = 0 \<longleftrightarrow> j mod 8 = 7" using mod_less_divisor [of 8 j] by linarith
  show "drop_bit (Suc 0) (c8 j) = c8 (Suc j)" if "j mod 8 \<noteq> 7"
  proof -
    have "Suc j < 128" using that assms by (cases "j = 127") auto
    then show ?thesis unfolding e using next_byte(2) [OF that] by (simp add: c8_def)
  qed
  show "j mod 8 = 7 \<Longrightarrow> Suc j < 128 \<Longrightarrow> c8 (Suc j) = 0x80" using next_byte(1) by (simp add: c8_def)
qed

lemma last_byte: "j < 128 \<Longrightarrow> j mod 8 = 7 \<Longrightarrow> Suc (j div 8) = 16 \<longleftrightarrow> Suc j = 128"
  using next_byte(1) [of j] by auto

abbreviation path128 :: "bytes \<Rightarrow> bytes \<Rightarrow> path" where
  "path128 key msk \<equiv> path_of (bits128 key) (bits128 msk)"

lemma cond128:
  assumes "length key = 16" and "length msk = 16" and "j \<le> length (path128 key msk)" and "j < 128"
  shows "c8 j AND msk ! (j div 8) = 0 \<longleftrightarrow> \<not> j < length (path128 key msk)"
  using path_step [of "bits128 key" "bits128 msk" j] assms by (simp add: c8_and nth_key_bits)

lemma key128:
  assumes "length key = 16" and "j < 128"
  shows "key ! (j div 8) AND c8 j = 0 \<longleftrightarrow> \<not> bits128 key ! j"
  using assms by (simp add: c8_and nth_key_bits)

lemma get128: "length (bs :: bytes) = 16 \<Longrightarrow> j < 128 \<Longrightarrow> arr_get bs (int (j div 8)) = Some (bs ! (j div 8))"
  by (intro arr_get_nat) simp

lemma len128: "length key = 16 \<Longrightarrow> length (path128 key msk) \<le> 128"
  using path_bound [of "bits128 key" "bits128 msk"] by simp

lemma ins_walk128_path:
  assumes k: "length key = 16" and m: "length msk = 16" and "j \<le> length (path128 key msk)"
  shows "j < 128 \<Longrightarrow> ins_walk128 h key msk (j div 8) (c8 j) node nxt =
    map_option (\<lambda>(rs, nd, nx). ((length (path128 key msk) - length rs) div 8, c8 (length (path128 key msk) - length rs), nd, nx))
      (g_walk h (drop j (path128 key msk)) node nxt)"
  using assms(3)
proof (induction j arbitrary: node nxt rule: to_end_induct)
  case last
  then show ?case by (subst ins_walk128.simps) (simp add: get128 [OF m] cond128 [OF k m])
next
  case (step j)
  note c = get128 [OF m step.prems] get128 [OF k step.prems] cond128 [OF k m less_imp_le [OF step.hyps] step.prems]
    key128 [OF k step.prems] c8_step [OF step.prems] last_byte [OF step.prems] next_byte [of j]
  show ?case
  proof (cases "Suc j = 128")
    case True
    then have L: "length (path128 key msk) = 128" "j mod 8 = 7" "drop (Suc j) (path128 key msk) = []" "c8 128 = 0"
      using step.hyps len128 [OF k, of msk] by (auto simp: c8_def)
    then show ?thesis
      unfolding ins_walk128.simps [of h key msk "j div 8" "c8 j"] path_drop [OF step.hyps]
      using c step.hyps True by (cases "rderef h node") (auto simp: kid_def Let_def)
  next
    case False
    then have S: "Suc j < 128" using step.prems by simp
    note IH = step.IH [OF S]
    show ?thesis
      unfolding ins_walk128.simps [of h key msk "j div 8" "c8 j"] path_drop [OF step.hyps]
      using c step.hyps False S IH by (cases "rderef h node"; cases "j mod 8 = 7") (auto simp: kid_def Let_def)
  qed
qed

lemma ins_extend128_path:
  assumes k: "length key = 16" and m: "length msk = 16" and "j \<le> length (path128 key msk)"
  shows "j < 128 \<Longrightarrow> ins_extend128 ps key msk (j div 8) (c8 j) node h t = g_ext ps (drop j (path128 key msk)) node h t"
  using assms(3)
proof (induction j arbitrary: node h t rule: to_end_induct)
  case last
  then show ?case by (subst ins_extend128.simps) (simp add: get128 [OF m] cond128 [OF k m])
next
  case (step j)
  note c = get128 [OF m step.prems] get128 [OF k step.prems] cond128 [OF k m less_imp_le [OF step.hyps] step.prems]
    key128 [OF k step.prems] c8_step [OF step.prems] last_byte [OF step.prems] next_byte [of j]
  show ?case
  proof (cases "Suc j = 128")
    case True
    then have L: "length (path128 key msk) = 128" "j mod 8 = 7" "drop (Suc j) (path128 key msk) = []"
      using step.hyps len128 [OF k, of msk] by auto
    then show ?thesis
      unfolding ins_extend128.simps [of ps key msk "j div 8" "c8 j"] path_drop [OF step.hyps]
      using c step.hyps True by (simp cong: if_cong)
  next
    case False
    then have S: "Suc j < 128" using step.prems by simp
    note IH = step.IH [OF S]
    show ?thesis
      unfolding ins_extend128.simps [of ps key msk "j div 8" "c8 j"] path_drop [OF step.hyps]
      using c step.hyps False S IH by (cases "j mod 8 = 7") (simp_all cong: if_cong)
  qed
qed

lemma del_walk128_path:
  assumes k: "length key = 16" and m: "length msk = 16" and "j \<le> length (path128 key msk)"
  shows "j < 128 \<Longrightarrow> del_walk128 h key msk (j div 8) (c8 j) node = g_del h (drop j (path128 key msk)) node"
  using assms(3)
proof (induction j arbitrary: node rule: to_end_induct)
  case last
  then show ?case by (subst del_walk128.simps) (simp add: get128 [OF m] cond128 [OF k m])
next
  case (step j)
  note c = get128 [OF m step.prems] get128 [OF k step.prems] cond128 [OF k m less_imp_le [OF step.hyps] step.prems]
    key128 [OF k step.prems] c8_step [OF step.prems] last_byte [OF step.prems] next_byte [of j]
  show ?case
  proof (cases "Suc j = 128")
    case True
    then have L: "length (path128 key msk) = 128" "j mod 8 = 7" "drop (Suc j) (path128 key msk) = []"
      using step.hyps len128 [OF k, of msk] by auto
    then show ?thesis
      unfolding del_walk128.simps [of h key msk "j div 8" "c8 j"] path_drop [OF step.hyps]
      using c step.hyps True by (simp add: kid_def Let_def cong: if_cong)
  next
    case False
    then have S: "Suc j < 128" using step.prems by simp
    note IH = step.IH [OF S]
    show ?thesis
      unfolding del_walk128.simps [of h key msk "j div 8" "c8 j"] path_drop [OF step.hyps]
      using c step.hyps False S IH by (cases "j mod 8 = 7") (simp_all add: kid_def Let_def cong: if_cong)
  qed
qed

lemma g_walk_end: "g_walk h bs node nxt = Some ([], nd, nx) \<Longrightarrow> nxt \<noteq> NULL \<Longrightarrow> nx \<noteq> NULL"
proof (induction bs arbitrary: node nxt)
  case (Cons b bs)
  then show ?case by (cases "rderef h node") (auto split: if_splits)
qed simp

lemma insert128_path:
  assumes k: "length key = 16" and m: "length msk = 16" and root: "rt_root t \<noteq> NULL"
  shows "ngx_radix128tree_insert ps h t key msk v = g_insert ps h t (path128 key msk) v"
proof -
  let ?L = "length (path128 key msk)"
  have ext: "ins_extend128 ps key msk ((?L - length rs) div 8) (c8 (?L - length rs)) nd h t = g_ext ps rs nd h t"
    if w: "g_walk h (path128 key msk) q q = Some (rs, nd, NULL)" "q \<noteq> NULL" for rs nd q h t
  proof -
    obtain i where i: "rs = drop i (path128 key msk)" "i \<le> ?L" using g_walk_rest [OF w(1)] by blast
    have "rs \<noteq> []" using g_walk_end w by blast
    then have "i < 128" using i len128 [OF k, of msk] by auto
    then show ?thesis using ins_extend128_path [OF k m i(2)] i by simp
  qed
  show ?thesis
    using ins_walk128_path [OF k m, of 0 h "rt_root t" "rt_root t"] ext root
    by (cases "g_walk h (path128 key msk) (rt_root t) (rt_root t)")
      (auto simp: ngx_radix128tree_insert_def g_insert_def c8_0)
qed

lemma delete128_path:
  assumes "length key = 16" and "length msk = 16"
  shows "ngx_radix128tree_delete h t key msk = Option.bind (g_del h (path128 key msk) (rt_root t)) (del_node h t)"
  using del_walk128_path [OF assms, of 0 h "rt_root t"] by (simp add: ngx_radix128tree_delete_def c8_0)

section \<open>Lookup\<close>

definition match_from :: "(path \<Rightarrow> u64) \<Rightarrow> path \<Rightarrow> nat \<Rightarrow> u64 \<Rightarrow> u64" where
  \<comment> \<open>the last value on the prefixes from length \<open>j\<close> on, or \<open>val\<close>\<close>
  "match_from V kb j val = foldl (\<lambda>v i. if V (take i kb) \<noteq> NGX_RADIX_NO_VALUE then V (take i kb) else v) val [j..<Suc (length kb)]"

lemma match_from_step:
  "j \<le> length kb \<Longrightarrow> match_from V kb j val =
     match_from V kb (Suc j) (if V (take j kb) \<noteq> NGX_RADIX_NO_VALUE then V (take j kb) else val)"
  by (simp add: match_from_def upt_conv_Cons del: upt_Suc)

lemma match_from_none:
  "(\<And>i. j \<le> i \<Longrightarrow> i \<le> length kb \<Longrightarrow> V (take i kb) = NGX_RADIX_NO_VALUE) \<Longrightarrow> match_from V kb j val = val"
proof -
  assume *: "\<And>i. j \<le> i \<Longrightarrow> i \<le> length kb \<Longrightarrow> V (take i kb) = NGX_RADIX_NO_VALUE"
  have "foldl (\<lambda>v i. if V (take i kb) \<noteq> NGX_RADIX_NO_VALUE then V (take i kb) else v) val xs = val"
    if "\<forall>i\<in>set xs. V (take i kb) = NGX_RADIX_NO_VALUE" for xs using that by (induction xs) auto
  then show ?thesis using * by (simp add: match_from_def del: upt_Suc)
qed

lemma match_from_longest: "match_from V kb 0 NGX_RADIX_NO_VALUE = longest_match NGX_RADIX_NO_VALUE V kb"
proof -
  have "foldl (\<lambda>v i. if V (take i kb) \<noteq> NGX_RADIX_NO_VALUE then V (take i kb) else v) NGX_RADIX_NO_VALUE xs =
      (case filter (\<lambda>i. V (take i kb) \<noteq> NGX_RADIX_NO_VALUE) (rev xs) of [] \<Rightarrow> NGX_RADIX_NO_VALUE | i # _ \<Rightarrow> V (take i kb))" for xs
    by (induction xs rule: rev_induct) auto
  then show ?thesis by (simp only: match_from_def longest_match_def)
qed

lemma match_from_gone:
  assumes T: "rtree_ok W h root N" and "N (take j kb) = NULL" and "j \<le> length kb"
  shows "match_from (vals h N) kb j val = val"
proof (rule match_from_none)
  fix i assume "j \<le> i" "i \<le> length kb"
  then have "take i kb = take j kb @ take (i - j) (drop j kb)" by (metis le_add_diff_inverse take_add)
  then have "N (take i kb) = NULL" using tree_beyond [OF T assms(2)] by simp
  then show "vals h N (take i kb) = NGX_RADIX_NO_VALUE" by (simp add: vals_def)
qed

lemma match_from_past: "length kb < j \<Longrightarrow> match_from V kb j val = val"
  by (simp add: match_from_def)

lemma find_loop32_ok:
  assumes T: "rtree_ok 32 h root N" and "j \<le> 33"
  shows "find_loop32 h key (bp j) val (if j \<le> 32 then N (take j (bits32 key)) else NULL) =
    Some (match_from (vals h N) (bits32 key) j val)"
  using assms(2)
proof (induction j arbitrary: val rule: to_end_induct)
  case last
  show ?case by (subst find_loop32.simps) (simp add: match_from_past)
next
  case (step j)
  then have j: "j \<le> 32" by simp
  let ?p = "take j (bits32 key)"
  show ?case
  proof (cases "N ?p = NULL")
    case True
    then show ?thesis using j match_from_gone [OF T True] by (subst find_loop32.simps) simp
  next
    case False
    obtain n where n: "rderef h (N ?p) = Some n" "rn_right n = N (?p @ [True])" "rn_left n = N (?p @ [False])" "rn_value n = vals h N ?p"
      using tree_node [OF T False] by metis
    have "(if key AND bp j \<noteq> 0 then rn_right n else rn_left n) = (if Suc j \<le> 32 then N (take (Suc j) (bits32 key)) else NULL)"
    proof (cases "j = 32")
      case True
      have "N (?p @ [False]) = NULL" using rtree_okD(5) [OF T, of "?p @ [False]"] True by fastforce
      moreover have "key AND bp j = 0" using bp_and(2) [of key j] True by auto
      ultimately show ?thesis using True n by simp
    next
      case False
      then have "take (Suc j) (bits32 key) = ?p @ [bits32 key ! j]" using j by (simp add: take_Suc_conv_app_nth)
      moreover have "key AND bp j \<noteq> 0 \<longleftrightarrow> bits32 key ! j" using bp_and(2) [of key j] False j by auto
      ultimately show ?thesis using n False j by (cases "bits32 key ! j") auto
    qed
    then have "find_loop32 h key (bp j) val (N ?p) = find_loop32 h key (bp (Suc j))
        (if vals h N ?p \<noteq> NGX_RADIX_NO_VALUE then vals h N ?p else val) (if Suc j \<le> 32 then N (take (Suc j) (bits32 key)) else NULL)"
      using n(1,4) False by (subst find_loop32.simps) (simp only: bp_Suc bind.bind_lunit if_False)
    then show ?thesis using step.IH j match_from_step [of j "bits32 key"] by simp
  qed
qed

lemma find32_ok:
  assumes "rtree_ok 32 h (rt_root t) N"
  shows "ngx_radix32tree_find h t key = Some (longest_match NGX_RADIX_NO_VALUE (vals h N) (bits32 key))"
  using find_loop32_ok [OF assms, of 0] rtree_okD(1) [OF assms]
  by (simp add: ngx_radix32tree_find_def bp_0 match_from_longest)

lemma find_loop128_end: "find_loop128 h key i b val NULL = Some val"
  by (subst find_loop128.simps) simp

lemma find_loop128_step:
  assumes "rderef h node = Some n" and "arr_get key (int i) = Some k"
  shows "find_loop128 h key i b val node =
    find_loop128 h key (if drop_bit 1 b = 0 then Suc i else i) (if drop_bit 1 b = 0 then 0x80 else drop_bit 1 b)
      (if rn_value n \<noteq> NGX_RADIX_NO_VALUE then rn_value n else val) (if k AND b \<noteq> 0 then rn_right n else rn_left n)"
  using assms by (subst find_loop128.simps) (auto simp: rderef_def Let_def split: option.splits)

lemma cursor128:
  assumes "j < 128"
  shows "(if drop_bit 1 (c8 j) = 0 then Suc (j div 8) else j div 8) = Suc j div 8"
    and "(if drop_bit 1 (c8 j) = 0 then 0x80 else drop_bit 1 (c8 j)) = (if Suc j < 128 then c8 (Suc j) else 0x80)"
proof -
  note c = c8_step [OF assms, folded One_nat_def]
  have "j mod 8 = 7" if "\<not> Suc j < 128" using that assms by (cases "j = 127") simp_all
  then show "(if drop_bit 1 (c8 j) = 0 then 0x80 else drop_bit 1 (c8 j)) = (if Suc j < 128 then c8 (Suc j) else 0x80)"
    unfolding c(1) using c(2,3) by metis
  show "(if drop_bit 1 (c8 j) = 0 then Suc (j div 8) else j div 8) = Suc j div 8"
    unfolding c(1) using next_byte [of j] by presburger
qed

lemma find_loop128_ok:
  assumes T: "rtree_ok 128 h root N" and len: "16 \<le> length key" and "j \<le> 128"
  defines "kb \<equiv> bits128 (take 16 key)"
  shows "find_loop128 h key (j div 8) (if j < 128 then c8 j else 0x80) val (N (take j kb)) =
    (if N kb \<noteq> NULL \<and> length key = 16 then None else Some (match_from (vals h N) kb j val))"
  using assms(3)
proof (induction j arbitrary: val rule: to_end_induct)
  case last
  have L: "length kb = 128" using len by (simp add: kb_def)
  show ?case
  proof (cases "N kb = NULL")
    case True
    then show ?thesis using match_from_gone [OF T, of 128 kb] L by (simp add: find_loop128_end)
  next
    case False
    obtain n where n: "rderef h (N kb) = Some n" "rn_right n = N (kb @ [True])" "rn_left n = N (kb @ [False])" "rn_value n = vals h N kb"
      using tree_node [OF T False] by metis
    have deep: "N (kb @ [b]) = NULL" for b using rtree_okD(5) [OF T, of "kb @ [b]"] L by fastforce
    show ?thesis
    proof (cases "length key = 16")
      case True
      then have "arr_get key 16 = None" by (simp add: arr_get_def)
      then show ?thesis using False True n(1) L by (subst find_loop128.simps) simp
    next
      case long: False
      then have "arr_get key (int 16) = Some (key ! 16)" using len by (intro arr_get_nat) simp
      then show ?thesis
        using find_loop128_step [OF n(1)] n deep long L match_from_step [of 128 kb] match_from_past [of kb 129]
        by (simp add: find_loop128_end)
    qed
  qed
next
  case (step j)
  let ?p = "take j kb"
  have L: "length kb = 128" using len by (simp add: kb_def)
  show ?case
  proof (cases "N ?p = NULL")
    case True
    have "kb = ?p @ drop j kb" by simp
    then have "N kb = NULL" using tree_beyond [OF T True] by metis
    then show ?thesis using match_from_gone [OF T True] step.hyps L True by (simp add: find_loop128_end)
  next
    case False
    obtain n where n: "rderef h (N ?p) = Some n" "rn_right n = N (?p @ [True])" "rn_left n = N (?p @ [False])" "rn_value n = vals h N ?p"
      using tree_node [OF T False] by metis
    have k: "arr_get key (int (j div 8)) = Some (key ! (j div 8))" using len step.hyps by (intro arr_get_nat) simp
    have "key ! (j div 8) = take 16 key ! (j div 8)" using step.hyps by simp
    then have bit: "key ! (j div 8) AND c8 j \<noteq> 0 \<longleftrightarrow> kb ! j"
      using key128 [of "take 16 key" j] len step.hyps by (simp add: kb_def)
    have "take (Suc j) kb = ?p @ [kb ! j]" using step.hyps L by (simp add: take_Suc_conv_app_nth)
    then have kid: "(if key ! (j div 8) AND c8 j \<noteq> 0 then rn_right n else rn_left n) = N (take (Suc j) kb)"
      unfolding bit using n by (cases "kb ! j") simp_all
    note cur = cursor128 [OF step.hyps]
    show ?thesis
      using step.IH find_loop128_step [OF n(1) k, of "c8 j" val] step.hyps L match_from_step [of j kb] n(4)
      unfolding kid cur by simp
  qed
qed

lemma find128_ok:
  assumes T: "rtree_ok 128 h (rt_root t) N" and len: "16 \<le> length key"
  shows "ngx_radix128tree_find h t key =
    (if N (bits128 (take 16 key)) \<noteq> NULL \<and> length key = 16 then None
     else Some (longest_match NGX_RADIX_NO_VALUE (vals h N) (bits128 (take 16 key))))"
  using find_loop128_ok [OF T len, of 0 NGX_RADIX_NO_VALUE] rtree_okD(1) [OF T]
  by (simp add: ngx_radix128tree_find_def c8_0 match_from_longest del: take_all_iff take_all)

section \<open>The tables\<close>

definition radix_refines :: "nat \<Rightarrow> nat \<Rightarrow> rheap \<times> ngx_radix_tree_t \<Rightarrow> (path \<Rightarrow> u64) \<Rightarrow> bool" where
  "radix_refines W ps s V \<longleftrightarrow> NODE_SIZE \<le> ps \<and> (\<exists>N F. radix_ok W ps (fst s) (snd s) N F \<and> vals (fst s) N = V)"

definition insert32 :: "nat \<Rightarrow> rheap \<times> ngx_radix_tree_t \<Rightarrow> u32 \<times> u32 \<Rightarrow> u64 \<Rightarrow> (int \<times> rheap \<times> ngx_radix_tree_t) option" where
  "insert32 ps s k v = ngx_radix32tree_insert ps (fst s) (snd s) (fst k) (snd k) v"

definition delete32 :: "rheap \<times> ngx_radix_tree_t \<Rightarrow> u32 \<times> u32 \<Rightarrow> (int \<times> rheap \<times> ngx_radix_tree_t) option" where
  "delete32 s k = ngx_radix32tree_delete (fst s) (snd s) (fst k) (snd k)"

definition find32 :: "rheap \<times> ngx_radix_tree_t \<Rightarrow> u32 \<Rightarrow> u64 option" where
  "find32 s a = ngx_radix32tree_find (fst s) (snd s) a"

definition insert128 :: "nat \<Rightarrow> rheap \<times> ngx_radix_tree_t \<Rightarrow> bytes \<times> bytes \<Rightarrow> u64 \<Rightarrow> (int \<times> rheap \<times> ngx_radix_tree_t) option" where
  "insert128 ps s k v = ngx_radix128tree_insert ps (fst s) (snd s) (fst k) (snd k) v"

definition delete128 :: "rheap \<times> ngx_radix_tree_t \<Rightarrow> bytes \<times> bytes \<Rightarrow> (int \<times> rheap \<times> ngx_radix_tree_t) option" where
  "delete128 s k = ngx_radix128tree_delete (fst s) (snd s) (fst k) (snd k)"

definition find128 :: "rheap \<times> ngx_radix_tree_t \<Rightarrow> bytes \<Rightarrow> u64 option" where
  "find128 s a = ngx_radix128tree_find (fst s) (snd s) a"

definition addr_key :: "bytes \<times> bytes \<Rightarrow> bool" where
  \<comment> \<open>key and mask are sixteen bytes\<close>
  "addr_key k \<longleftrightarrow> length (fst k) = 16 \<and> length (snd k) = 16"

lemma g_insert_refines:
  assumes "radix_refines W ps s V" and "length \<pi> \<le> W"
  shows "\<exists>rc s' V'. g_insert ps (fst s) (snd s) \<pi> v = Some (rc, s') \<and> radix_refines W ps s' V' \<and>
      (if V \<pi> \<noteq> NGX_RADIX_NO_VALUE then rc = -3 \<and> V' = V else rc = 0 \<and> V' = V(\<pi> := v) \<or> rc = -1 \<and> V' = V)"
proof -
  obtain N F where ok: "radix_ok W ps (fst s) (snd s) N F" "vals (fst s) N = V" "NODE_SIZE \<le> ps"
    using assms(1) by (auto simp: radix_refines_def)
  obtain rc h' t' N' F' where g: "g_insert ps (fst s) (snd s) \<pi> v = Some (rc, h', t')" "radix_ok W ps h' t' N' F'"
    "if vals (fst s) N \<pi> \<noteq> NGX_RADIX_NO_VALUE then rc = -3 \<and> vals h' N' = vals (fst s) N
     else rc = 0 \<and> vals h' N' = (vals (fst s) N)(\<pi> := v) \<or> rc = -1 \<and> vals h' N' = vals (fst s) N"
    using g_insert_ok [OF ok(1,3) assms(2), of v] by blast
  have "radix_refines W ps (h', t') (vals h' N')" using g(2) ok(3) by (auto simp: radix_refines_def)
  then show ?thesis using g(1,3) ok(2) by (intro exI [of _ rc] exI [of _ "(h', t')"] exI [of _ "vals h' N'"]) (auto split: if_splits)
qed

definition bare_root :: "(path \<Rightarrow> u64) \<Rightarrow> path \<Rightarrow> bool" where
  \<comment> \<open>the prefix \<open>/0\<close> when no longer prefix is stored\<close>
  "bare_root V \<pi> = (\<pi> = [] \<and> (\<forall>\<rho>. \<rho> \<noteq> [] \<longrightarrow> V \<rho> = NGX_RADIX_NO_VALUE))"

lemma lone_root_bare:
  assumes T: "rtree_ok W h root N" and "N [True] = NULL" "N [False] = NULL"
  shows "bare_root (vals h N) []"
proof -
  have "N \<rho> = NULL" if "\<rho> \<noteq> []" for \<rho>
  proof -
    obtain b \<sigma> where "\<rho> = [b] @ \<sigma>" using \<open>\<rho> \<noteq> []\<close> by (cases \<rho>) auto
    moreover have "N [b] = NULL" using assms(2,3) by (cases b) auto
    ultimately show ?thesis using tree_beyond [OF T, of "[b]" \<sigma>] by simp
  qed
  then show ?thesis by (simp add: bare_root_def vals_def)
qed

lemma g_delete_refines:
  assumes "radix_refines W ps s V"
  shows "(\<exists>rc s'. Option.bind (g_del (fst s) \<pi> (rt_root (snd s))) (del_node (fst s) (snd s)) = Some (rc, s') \<and>
    radix_refines W ps s' (V(\<pi> := NGX_RADIX_NO_VALUE)) \<and> (rc = 0 \<or> rc = -1 \<and> V \<pi> = NGX_RADIX_NO_VALUE)) \<or>
    Option.bind (g_del (fst s) \<pi> (rt_root (snd s))) (del_node (fst s) (snd s)) = None \<and> bare_root V \<pi>"
proof -
  obtain N F where ok: "radix_ok W ps (fst s) (snd s) N F" "vals (fst s) N = V" "NODE_SIZE \<le> ps"
    using assms by (auto simp: radix_refines_def)
  have T: "rtree_ok W (fst s) (rt_root (snd s)) N" using ok(1) by (simp add: radix_ok_def)
  have walk: "g_del (fst s) \<pi> (rt_root (snd s)) = Some (N \<pi>)" using g_del_ok [OF T, of \<pi> "[]"] rtree_okD(1) [OF T] by simp
  show ?thesis
  proof (cases "\<pi> = [] \<and> N [True] = NULL \<and> N [False] = NULL")
    case True
    then show ?thesis using del_node_lone_root [OF ok(1)] lone_root_bare [OF T] walk ok(2) by auto
  next
    case False
    then have "\<pi> = [] \<longrightarrow> N [True] \<noteq> NULL \<or> N [False] \<noteq> NULL" by auto
    then obtain rc h' t' N' F' where d: "del_node (fst s) (snd s) (N \<pi>) = Some (rc, h', t')" "radix_ok W ps h' t' N' F'"
        "vals h' N' = (vals (fst s) N)(\<pi> := NGX_RADIX_NO_VALUE)" "rc = 0 \<or> rc = -1 \<and> vals (fst s) N \<pi> = NGX_RADIX_NO_VALUE"
      using del_node_ok [OF ok(1)] by blast
    have "radix_refines W ps (h', t') (vals h' N')" using d(2) ok(3) by (auto simp: radix_refines_def)
    then show ?thesis using d walk ok(2) by (intro disjI1 exI [of _ rc] exI [of _ "(h', t')"]) simp
  qed
qed

interpretation r32: prefix_table "radix_refines 32 ps" "insert32 ps" delete32 find32 NGX_RADIX_NO_VALUE
  "\<lambda>k. path32 (fst k) (snd k)" bits32 "\<lambda>k. True" "\<lambda>a. True" "\<lambda>V k. bare_root V (path32 (fst k) (snd k))" "\<lambda>a. False"
proof
  fix s V k v assume *: "radix_refines 32 ps s V"
  have "length (path32 (fst k) (snd k)) \<le> 32" using path_bound [of "bits32 (fst k)"] by simp
  then show "\<exists>rc s' V'. insert32 ps s k v = Some (rc, s') \<and> radix_refines 32 ps s' V' \<and>
      (if V (path32 (fst k) (snd k)) \<noteq> NGX_RADIX_NO_VALUE then rc = -3 \<and> V' = V
       else rc = 0 \<and> V' = V(path32 (fst k) (snd k) := v) \<or> rc = -1 \<and> V' = V)"
    unfolding insert32_def insert32_path by (rule g_insert_refines [OF *])
next
  fix s V k assume "radix_refines 32 ps s V"
  then show "(\<exists>rc s'. delete32 s k = Some (rc, s') \<and> radix_refines 32 ps s' (V(path32 (fst k) (snd k) := NGX_RADIX_NO_VALUE)) \<and>
      (rc = 0 \<or> rc = -1 \<and> V (path32 (fst k) (snd k)) = NGX_RADIX_NO_VALUE)) \<or> delete32 s k = None \<and> bare_root V (path32 (fst k) (snd k))"
    unfolding delete32_def delete32_path by (rule g_delete_refines)
next
  fix s V a assume "radix_refines 32 ps s V"
  then show "find32 s a = Some (longest_match NGX_RADIX_NO_VALUE V (bits32 a)) \<or> find32 s a = None \<and> False"
    using find32_ok by (auto simp: find32_def radix_refines_def radix_ok_def)
qed

interpretation r128: prefix_table "radix_refines 128 ps" "insert128 ps" delete128 find128 NGX_RADIX_NO_VALUE
  "\<lambda>k. path128 (fst k) (snd k)" "\<lambda>a. bits128 (take 16 a)" addr_key
  "\<lambda>a. 16 \<le> length a" "\<lambda>V k. bare_root V (path128 (fst k) (snd k))" "\<lambda>a. length a = 16"
proof
  fix s V k v assume *: "radix_refines 128 ps s V" "addr_key k"
  have len: "length (fst k) = 16" "length (snd k) = 16" using *(2) by (simp_all add: addr_key_def)
  have root: "rt_root (snd s) \<noteq> NULL" using *(1) by (auto simp: radix_refines_def radix_ok_def rtree_ok_def)
  have "length (path128 (fst k) (snd k)) \<le> 128" using path_bound [of "bits128 (fst k)"] len by simp
  then show "\<exists>rc s' V'. insert128 ps s k v = Some (rc, s') \<and> radix_refines 128 ps s' V' \<and>
      (if V (path128 (fst k) (snd k)) \<noteq> NGX_RADIX_NO_VALUE then rc = -3 \<and> V' = V
       else rc = 0 \<and> V' = V(path128 (fst k) (snd k) := v) \<or> rc = -1 \<and> V' = V)"
    unfolding insert128_def insert128_path [OF len root] by (rule g_insert_refines [OF *(1)])
next
  fix s V k assume *: "radix_refines 128 ps s V" "addr_key k"
  have len: "length (fst k) = 16" "length (snd k) = 16" using *(2) by (simp_all add: addr_key_def)
  show "(\<exists>rc s'. delete128 s k = Some (rc, s') \<and> radix_refines 128 ps s' (V(path128 (fst k) (snd k) := NGX_RADIX_NO_VALUE)) \<and>
      (rc = 0 \<or> rc = -1 \<and> V (path128 (fst k) (snd k)) = NGX_RADIX_NO_VALUE)) \<or> delete128 s k = None \<and> bare_root V (path128 (fst k) (snd k))"
    unfolding delete128_def delete128_path [OF len] by (rule g_delete_refines [OF *(1)])
next
  fix s V and a :: bytes assume "radix_refines 128 ps s V" "16 \<le> length a"
  then show "find128 s a = Some (longest_match NGX_RADIX_NO_VALUE V (bits128 (take 16 a))) \<or> find128 s a = None \<and> length a = 16"
    using find128_ok [of "fst s" "snd s" _ a] by (auto simp: find128_def radix_refines_def radix_ok_def split: if_splits)
qed

end
