(* ===== verification/Ngx_Radix_Table.thy ===== *)
theory Ngx_Radix_Table
  imports Ngx_Radix_Keys
begin

text \<open>
  Creation of the radix tree, preallocation included, and the properties of the whole component: from
  \<open>ngx_radix_tree_create\<close> on, the IPv4 and the IPv6 operations are a table with longest prefix match.
\<close>

definition pool_ok :: "nat \<Rightarrow> nat option list \<Rightarrow> rheap \<Rightarrow> bool" where
  \<comment> \<open>what \<open>ngx_pmemalign\<close> promises: pages that overlap neither each other nor memory in use\<close>
  "pool_ok ps pool h \<longleftrightarrow> NODE_SIZE \<le> ps \<and>
     (let free = concat (map (\<lambda>pg. case pg of None \<Rightarrow> [] | Some a \<Rightarrow> slots a ps) pool)
      in distinct free \<and> set free \<inter> dom h = {})"

abbreviation no_values :: "path \<Rightarrow> u64" where
  "no_values \<equiv> \<lambda>_. NGX_RADIX_NO_VALUE"

section \<open>Preallocation\<close>

lemma prealloc_insert:
  assumes "radix_refines W ps (h, t) no_values" and "32 \<le> W"
  shows "\<exists>rc h' t'. ngx_radix32tree_insert ps h t key msk NGX_RADIX_NO_VALUE = Some (rc, h', t') \<and>
    radix_refines W ps (h', t') no_values"
proof -
  have "length (path32 key msk) \<le> W" using path_bound [of "bits32 key" "bits32 msk"] assms(2) by simp
  then show ?thesis
    using g_insert_refines [OF assms(1), of "path32 key msk" NGX_RADIX_NO_VALUE] unfolding insert32_path
    by (auto simp: fun_upd_def)
qed

lemma word_add_small: "unat (a :: u32) + unat b < 2 ^ 32 \<Longrightarrow> unat (a + b) = unat a + unat b"
  by (simp add: unat_word_ariths)

lemma next_key:
  assumes "unat inc dvd 2 ^ 32" and "unat inc dvd unat key" and "key + inc \<noteq> (0 :: u32)"
  shows "unat (key + inc) = unat key + unat inc"
proof (rule word_add_small, rule ccontr)
  assume "\<not> unat key + unat inc < 2 ^ 32"
  moreover have "unat key < 2 ^ 32" using unsigned_less [of key] by simp
  then have "unat key + unat inc \<le> 2 ^ 32"
  proof -
    obtain a where a: "2 ^ 32 = unat inc * a" using assms(1) by (rule dvdE)
    obtain b where b: "unat key = unat inc * b" using assms(2) by (rule dvdE)
    note ab = a b
    have "b < a" using \<open>unat key < 2 ^ 32\<close> unfolding ab by (metis nat_mult_less_cancel_disj)
    then have "unat inc * (b + 1) \<le> unat inc * a" by (intro mult_le_mono2) simp
    then show ?thesis unfolding ab by simp
  qed
  ultimately have "unat key + unat inc = 2 ^ 32" by simp
  then have "unat (key + inc) = 0" by (simp add: unat_word_ariths)
  then show False using assms(3) unsigned_eq_0_iff by blast
qed

lemma prealloc_keys_ok:
  assumes "radix_refines W ps (h, t) no_values" and "32 \<le> W" and "unat inc dvd 2 ^ 32" and "unat inc dvd unat key"
  shows "\<exists>ok h' t'. prealloc_keys ps msk inc key h t = Some (ok, h', t') \<and> radix_refines W ps (h', t') no_values"
  using assms(1,4)
proof (induction "2 ^ 32 - unat key" arbitrary: key h t rule: less_induct)
  case less
  obtain rc h1 t1 where i: "ngx_radix32tree_insert ps h t key msk NGX_RADIX_NO_VALUE = Some (rc, h1, t1)"
      "radix_refines W ps (h1, t1) no_values"
    using prealloc_insert [OF less.prems(1) assms(2)] by blast
  show ?case
  proof (cases "rc \<noteq> NGX_OK \<or> key + inc = 0")
    case True
    then show ?thesis using i by (subst prealloc_keys.simps) auto
  next
    case False
    then have n: "unat (key + inc) = unat key + unat inc" using next_key [OF assms(3) less.prems(2)] by simp
    have "inc \<noteq> 0" using assms(3) by auto
    then have "0 < unat inc" by (simp add: unat_gt_0)
    moreover have "unat key < 2 ^ 32" using unsigned_less [of key] by simp
    ultimately have "2 ^ 32 - unat (key + inc) < 2 ^ 32 - unat key" unfolding n by linarith
    then have "\<exists>ok h' t'. prealloc_keys ps msk inc (key + inc) h1 t1 = Some (ok, h', t') \<and> radix_refines W ps (h', t') no_values"
      by (rule less.hyps [OF _ i(2)]) (simp add: n less.prems(2))
    then show ?thesis using i(1) False by (subst prealloc_keys.simps) simp
  qed
qed

lemma prealloc_keys_zero:
  assumes "radix_refines W ps (h, t) no_values" and "32 \<le> W"
  shows "\<exists>ok h' t'. prealloc_keys ps msk 0 0 h t = Some (ok, h', t') \<and> radix_refines W ps (h', t') no_values"
  using prealloc_insert [OF assms, of 0 msk] by (subst prealloc_keys.simps) auto

lemma inc_divides: "j < 32 \<Longrightarrow> unat (bp j) dvd 2 ^ 32"
proof -
  assume j: "j < 32"
  have "unat (bp j) = drop_bit j (2 ^ 31)" unfolding bp_def unat_drop_bit_eq by simp
  also have "\<dots> = 2 ^ (31 - j)" using j by (simp add: drop_bit_eq_div power_diff)
  finally show ?thesis by (simp only:) (rule le_imp_power_dvd, simp)
qed

lemma bp_gone: "32 \<le> j \<Longrightarrow> bp j = 0"
  using word_nonzero [of "bp j"] bit_single [of 31 j, where ?'a = 32] by (auto simp: bp_exp)

lemma prealloc_levels_ok:
  assumes "radix_refines W ps (h, t) no_values" and "32 \<le> W"
  shows "\<exists>ok h' t'. prealloc_levels ps (int n) msk (bp j) h t = Some (ok, h', t') \<and>
    (ok \<longrightarrow> radix_refines W ps (h', t') no_values)"
  using assms(1)
proof (induction n arbitrary: msk j h t)
  case 0
  then show ?case by (subst prealloc_levels.simps) auto
next
  case (Suc n)
  let ?m = "drop_bit 1 msk OR 0x80000000"
  obtain ok h1 t1 where k: "prealloc_keys ps ?m (bp j) 0 h t = Some (ok, h1, t1)" "radix_refines W ps (h1, t1) no_values"
    using prealloc_keys_ok [OF Suc.prems assms(2) inc_divides, of j 0 ?m] prealloc_keys_zero [OF Suc.prems assms(2), of ?m] bp_gone [of j]
    by (cases "j < 32") auto
  have "prealloc_levels ps (int (Suc n)) msk (bp j) h t =
      (if ok then prealloc_levels ps (int n) ?m (bp (Suc j)) h1 t1 else Some (False, h1, t1))"
    using k(1) by (subst prealloc_levels.simps) (simp add: bp_Suc [unfolded One_nat_def])
  then show ?case using Suc.IH [OF k(2), of ?m "Suc j"] by (cases ok) auto
qed

section \<open>Creation\<close>

lemma alloc_root:
  assumes "pool_ok ps pool h"
  shows "ngx_radix_alloc ps h \<lparr>rt_root = NULL, rt_pool = pool, rt_free = NULL, rt_start = 0, rt_size = 0\<rparr> =
    Some (case pool of Some a # pool \<Rightarrow> (Some a, h(a \<mapsto> blank_node),
             \<lparr>rt_root = NULL, rt_pool = pool, rt_free = NULL, rt_start = a + NODE_SIZE, rt_size = ps - NODE_SIZE\<rparr>)
      | None # pool \<Rightarrow> (NULL, h, \<lparr>rt_root = NULL, rt_pool = pool, rt_free = NULL, rt_start = 0, rt_size = 0\<rparr>)
      | [] \<Rightarrow> (NULL, h, \<lparr>rt_root = NULL, rt_pool = pool, rt_free = NULL, rt_start = 0, rt_size = 0\<rparr>))"
  by (simp add: ngx_radix_alloc_def take_slot_def NODE_SIZE_def split: list.split option.split)

lemma root_refines:
  assumes "pool_ok ps (Some a # pool) h"
  shows "radix_refines W ps (h(a \<mapsto> \<lparr>rn_right = NULL, rn_left = NULL, rn_parent = NULL, rn_value = NGX_RADIX_NO_VALUE\<rparr>),
    \<lparr>rt_root = Some a, rt_pool = pool, rt_free = NULL, rt_start = a + NODE_SIZE, rt_size = ps - NODE_SIZE\<rparr>) no_values"
    (is "radix_refines W ps (?h, ?t) no_values")
proof -
  let ?N = "\<lambda>\<pi> :: path. if \<pi> = [] then Some a else NULL"
  have ps: "NODE_SIZE \<le> ps" using assms by (simp add: pool_ok_def)
  have "rtree_ok W ?h (Some a) ?N" by (auto simp: rtree_ok_def node_ok_def split: if_splits)
  moreover have "mem_ok ps ?h ?t ?N []"
    using assms slots_Cons [OF ps] by (auto simp: mem_ok_def room_def pool_ok_def Let_def)
  moreover have "vals ?h ?N = no_values" by (auto simp: vals_def)
  ultimately show ?thesis using ps by (auto simp: radix_refines_def radix_ok_def intro!: exI [of _ ?N] exI [of _ "[]"])
qed

lemma create_ok:
  assumes pool: "pool_ok ps pool h" and pre: "preallocate = -1 \<or> 0 \<le> preallocate" and W: "32 \<le> W"
  shows "\<exists>r h'. ngx_radix_tree_create ps pool h preallocate = Some (r, h') \<and>
    (\<forall>t. r = Some t \<longrightarrow> radix_refines W ps (h', t) no_values)"
proof (cases "\<exists>a pool'. pool = Some a # pool'")
  case False
  then have "ngx_radix_tree_create ps pool h preallocate = Some (None, h)"
    by (auto simp: ngx_radix_tree_create_def alloc_root [OF pool] split: list.split option.split)
  then show ?thesis by simp
next
  case True
  then obtain a pool' where p: "pool = Some a # pool'" by blast
  let ?h = "h(a \<mapsto> \<lparr>rn_right = NULL, rn_left = NULL, rn_parent = NULL, rn_value = NGX_RADIX_NO_VALUE\<rparr>)"
  let ?t = "\<lparr>rt_root = Some a, rt_pool = pool', rt_free = NULL, rt_start = a + NODE_SIZE, rt_size = ps - NODE_SIZE\<rparr>"
  have r: "radix_refines W ps (?h, ?t) no_values" using root_refines pool p by blast
  let ?pre = "if preallocate = -1 then default_preallocate ps else preallocate"
  have "0 \<le> ?pre" using pre by (auto simp: default_preallocate_def)
  then obtain n where n: "?pre = int n" by (metis nonneg_int_cases)
  obtain ok h' t' where l: "prealloc_levels ps ?pre 0 0x80000000 ?h ?t = Some (ok, h', t')"
      "ok \<longrightarrow> radix_refines W ps (h', t') no_values"
    using prealloc_levels_ok [OF r W, of n 0 0] unfolding n by (auto simp: bp_0)
  have "ngx_radix_tree_create ps pool h preallocate = (if preallocate = 0 then Some (Some ?t, ?h) else Some (if ok then Some t' else None, h'))"
    using l(1) alloc_root [OF pool] unfolding p
    by (cases "preallocate = -1") (simp_all add: ngx_radix_tree_create_def rupd_def Let_def)
  then show ?thesis using r l(2) by auto
qed

section \<open>Properties\<close>

lemma valid_any: "op_valid (\<lambda>k. True) (\<lambda>k. True) (\<lambda>a. True) c"
  by (cases c) simp_all

lemma op_trap_cases: "op_traps td tf V c \<Longrightarrow> (\<exists>k. c = Delete k \<and> td V k) \<or> (\<exists>a. c = Find a \<and> tf a)"
  by (cases c) simp_all

lemma op_trap_delete: "op_traps td (\<lambda>a. False) V c \<Longrightarrow> \<exists>k. c = Delete k \<and> td V k"
  by (cases c) simp_all





lemma free_list_unique: "free_list h p xs \<Longrightarrow> free_list h p ys \<Longrightarrow> xs = ys"
proof (induction xs arbitrary: p ys)
  case Nil
  then show ?case by (cases ys) auto
next
  case (Cons x xs)
  then show ?case by (cases ys) auto
qed

section \<open>Two unguarded accesses\<close>

text \<open>
  Deleting the prefix \<open>/0\<close> from a tree that has no other node dereferences the root's null parent, for
  both key widths.
\<close>

lemma path_nil: "mb \<noteq> [] \<Longrightarrow> \<not> hd mb \<Longrightarrow> path_of kb mb = []"
  by (cases mb) (simp_all add: path_of_def)

lemma radix_delete_root:
  assumes "radix_ok W ps h t N F" and "N [True] = NULL" and "N [False] = NULL" and "length key6 = 16"
  shows "ngx_radix32tree_delete h t key 0 = None" and "ngx_radix128tree_delete h t key6 (replicate 16 0) = None"
proof -
  have T: "rtree_ok W h (rt_root t) N" using assms by (simp add: radix_ok_def)
  have "path32 key 0 = []" by (rule path_nil) (simp_all add: bits32_def hd_map)
  then show "ngx_radix32tree_delete h t key 0 = None"
    using del_node_lone_root [OF assms(1-3)] rtree_okD(1) [OF T] by (simp add: delete32_path)
  have "path128 key6 (replicate 16 0) = []" by (rule path_nil) (simp_all add: bits128_def hd_map)
  then show "ngx_radix128tree_delete h t key6 (replicate 16 0) = None"
    using del_node_lone_root [OF assms(1-3)] rtree_okD(1) [OF T] assms(4) by (simp add: delete128_path)
qed

text \<open>With enough unused nodes an insertion does not fail.\<close>

definition spare :: "nat \<Rightarrow> ngx_radix_tree_t \<Rightarrow> nat list \<Rightarrow> nat" where
  "spare ps t F = (if None \<in> set (rt_pool t) then 0 else length F + length (room ps t))"

lemma alloc_live:
  assumes ok: "radix_ok W ps h t N F" and ps: "NODE_SIZE \<le> ps" and "0 < spare ps t F"
  shows "\<exists>p h' t' F'. ngx_radix_alloc ps h t = Some (Some p, h', t') \<and> radix_ok W ps h' t' N F' \<and> vals h' N = vals h N \<and>
    loose ps h' t' N F' p \<and> spare ps t F = Suc (spare ps t' F')"
proof -
  have T: "rtree_ok W h (rt_root t) N" and M: "mem_ok ps h t N F" using ok by (simp_all add: radix_ok_def)
  have pool: "None \<notin> set (rt_pool t)" using assms(3) by (auto simp: spare_def split: if_splits)
  obtain q h' t' F' where al: "ngx_radix_alloc ps h t = Some (q, h', t')" "radix_ok W ps h' t' N F'" "vals h' N = vals h N"
      "case q of None \<Rightarrow> True | Some p \<Rightarrow> loose ps h' t' N F' p"
    using alloc_ok [OF ok ps] by blast
  show ?thesis
  proof (cases F)
    case (Cons a F1)
    then obtain n where n: "rt_free t = Some a" "h a = Some n" using M by (auto simp: mem_ok_def)
    then have e: "q = Some a" "h' = h" "t' = t\<lparr>rt_free := rn_right n\<rparr>"
      using al(1) by (auto simp: ngx_radix_alloc_def rderef_def)
    have "free_list h' (rt_free t') F'" "free_list h' (rt_free t') F1"
      using al(2) M Cons n e by (auto simp: radix_ok_def mem_ok_def)
    then have "F' = F1" by (rule free_list_unique)
    then have "spare ps t F = Suc (spare ps t' F')" using Cons pool e by (simp add: spare_def room_def)
    then show ?thesis using al e by auto
  next
    case Nil
    then have fr: "rt_free t = NULL" using M by (simp add: mem_ok_def)
    have room: "room ps t \<noteq> []" using assms(3) Nil pool by (auto simp: spare_def)
    have "\<exists>t1. ngx_radix_alloc ps h t = Some (take_slot h t1) \<and> room ps t1 = room ps t \<and> NODE_SIZE \<le> rt_size t1 \<and>
        None \<notin> set (rt_pool t1) \<and> rt_free t1 = NULL"
    proof (cases "NODE_SIZE \<le> rt_size t")
      case True
      then show ?thesis using fr pool by (intro exI [of _ t]) (simp add: ngx_radix_alloc_def)
    next
      case small: False
      then have "rt_pool t \<noteq> []" using room by (auto simp: room_def slots_small)
      then obtain a pl where p: "rt_pool t = Some a # pl" using pool by (metis list.exhaust list.set_intros(1) not_None_eq)
      then show ?thesis using fr pool small ps
        by (intro exI [of _ "t\<lparr>rt_pool := pl, rt_start := a, rt_size := ps\<rparr>"])
          (simp add: ngx_radix_alloc_def room_def slots_small)
    qed
    then obtain t1 where t1: "ngx_radix_alloc ps h t = Some (take_slot h t1)" "room ps t1 = room ps t" "NODE_SIZE \<le> rt_size t1"
        "None \<notin> set (rt_pool t1)" "rt_free t1 = NULL" by blast
    have e: "q = Some (rt_start t1)" "t' = t1\<lparr>rt_start := rt_start t1 + NODE_SIZE, rt_size := rt_size t1 - NODE_SIZE\<rparr>"
      using al(1) t1(1) by (simp_all add: take_slot_def)
    have "F' = []" using al(2) e t1(5) by (cases F') (auto simp: radix_ok_def mem_ok_def)
    moreover have "room ps t = rt_start t1 # room ps t'"
      unfolding t1(2) [symmetric] using slots_Cons [OF t1(3)] e by (simp add: room_def)
    ultimately have "spare ps t F = Suc (spare ps t' F')" using Nil pool t1(4) e by (simp add: spare_def)
    then show ?thesis using al e by auto
  qed
qed

lemma g_ext_live:
  assumes ps: "NODE_SIZE \<le> ps"
  shows "radix_ok W ps h t N F \<Longrightarrow> N \<pi> \<noteq> NULL \<Longrightarrow> bs \<noteq> [] \<longrightarrow> N (\<pi> @ [hd bs]) = NULL \<Longrightarrow> length \<pi> + length bs \<le> W \<Longrightarrow>
    length bs \<le> spare ps t F \<Longrightarrow> \<exists>q h' t'. g_ext ps bs (N \<pi>) h t = Some (NGX_OK, q, h', t')"
proof (induction bs arbitrary: \<pi> h t N F)
  case (Cons b bs)
  then have "0 < spare ps t F" by simp
  then obtain p h1 t1 F1 where al: "ngx_radix_alloc ps h t = Some (Some p, h1, t1)" "radix_ok W ps h1 t1 N F1"
      "loose ps h1 t1 N F1 p" "spare ps t F = Suc (spare ps t1 F1)"
    using alloc_live [OF Cons.prems(1) ps] by blast
  have free: "N (\<pi> @ [b]) = NULL" and len: "length \<pi> < W" using Cons.prems(3,4) by simp_all
  obtain h2 where h2: "link_child h1 (N \<pi>) b (Some p) = Some h2" "radix_ok W ps h2 t1 (N(\<pi> @ [b] \<mapsto> p)) F1"
    using link_child_ok [OF al(2,3) Cons.prems(2) free len] by blast
  let ?N = "N(\<pi> @ [b] \<mapsto> p)"
  have T: "rtree_ok W h1 (rt_root t1) N" using al(2) by (simp add: radix_ok_def)
  have "?N ((\<pi> @ [b]) @ [hd bs]) = NULL" using tree_beyond [OF T free, of "[hd bs]"] by simp
  then have "\<exists>q h' t'. g_ext ps bs (?N (\<pi> @ [b])) h2 t1 = Some (NGX_OK, q, h', t')"
    using Cons.prems(4,5) al(4) by (intro Cons.IH [OF h2(2)]) simp_all
  then show ?case using al(1) h2(1) by simp
qed simp

lemma g_insert_live:
  assumes ok: "radix_ok W ps h t N F" and ps: "NODE_SIZE \<le> ps" and len: "length \<pi> \<le> W" and mem: "length \<pi> \<le> spare ps t F"
    and free: "vals h N \<pi> = NGX_RADIX_NO_VALUE"
  shows "\<exists>h' t' N' F'. g_insert ps h t \<pi> v = Some (NGX_OK, h', t') \<and> radix_ok W ps h' t' N' F' \<and> vals h' N' = (vals h N)(\<pi> := v)"
proof -
  have T: "rtree_ok W h (rt_root t) N" using ok by (simp add: radix_ok_def)
  obtain rc h' t' N' F' where g: "g_insert ps h t \<pi> v = Some (rc, h', t')" "radix_ok W ps h' t' N' F'"
    "rc = NGX_OK \<and> vals h' N' = (vals h N)(\<pi> := v) \<or> rc = NGX_ERROR"
    using g_insert_ok [OF ok ps len, of v] free by auto
  obtain \<pi>' rs nxt where w: "g_walk h \<pi> (rt_root t) (rt_root t) = Some (rs, N \<pi>', nxt)" "\<pi>' @ rs = \<pi>" "N \<pi>' \<noteq> NULL"
      "if nxt = NULL then rs \<noteq> [] \<and> N (\<pi>' @ [hd rs]) = NULL else rs = []"
    using g_walk_ok [OF T rtree_okD(2) [OF T], of \<pi>] rtree_okD(1) [OF T] by auto
  have "rc \<noteq> NGX_ERROR"
  proof (cases "nxt = NULL")
    case True
    have "length \<pi>' + length rs \<le> W" "length rs \<le> spare ps t F" using len mem w(2) by auto
    then obtain q h1 t1 where "g_ext ps rs (N \<pi>') h t = Some (NGX_OK, q, h1, t1)"
      using g_ext_live [OF ps ok w(3), of rs] w(4) True by auto
    then show ?thesis using g(1) w(1) True by (auto simp: g_insert_def bind_eq_Some_conv)
  next
    case False
    then show ?thesis using g(1) w(1) by (auto simp: g_insert_def bind_eq_Some_conv split: if_splits)
  qed
  then show ?thesis using g by blast
qed

lemma full_path: "length kb = length mb \<Longrightarrow> list_all id mb \<Longrightarrow> path_of kb mb = kb"
  using takeWhile_eq_all_conv [of id mb] by (metis id_apply list_all_iff order_refl path_of_def take_all)

lemma longest_match_full: "V kb \<noteq> none \<Longrightarrow> longest_match none V kb = V kb"
  by (simp add: longest_match_def)

text \<open>
  C40: a stored host address is read past its end. In every tree with at least 128 unused nodes, storing
  a value for a full sixteen-byte IPv6 address succeeds, and a lookup of that same address then reads
  \<open>key[16]\<close>, one byte past the key; with one more readable byte, whatever it holds, the lookup returns
  the stored value.
\<close>

theorem radix128_find_overread:
  assumes "radix_ok 128 ps h t N F" and "NODE_SIZE \<le> ps" and "128 \<le> spare ps t F"
    and "length key = 16" and "vals h N (bits128 key) = NGX_RADIX_NO_VALUE" and "v \<noteq> NGX_RADIX_NO_VALUE"
  shows "\<exists>h' t'. ngx_radix128tree_insert ps h t key (replicate 16 0xff) v = Some (NGX_OK, h', t') \<and>
    ngx_radix128tree_find h' t' key = None \<and> (\<forall>b. ngx_radix128tree_find h' t' (key @ [b]) = Some v)"
proof -
  have T: "rtree_ok 128 h (rt_root t) N" using assms(1) by (simp add: radix_ok_def)
  have ones: "bit (0xff :: u8) (7 - j mod 8)" for j :: nat
  proof -
    have "(0xff :: u8) = mask 8" by (simp add: mask_eq_exp_minus_1)
    then show ?thesis by (simp only: bit_mask_iff) auto
  qed
  have "path128 key (replicate 16 0xff) = bits128 key"
  proof (rule full_path)
    show "length (bits128 key) = length (bits128 (replicate 16 0xff))" using assms(4) by simp
    show "list_all id (bits128 (replicate 16 0xff))" using ones by (simp add: list_all_iff bits128_def)
  qed
  then obtain h' t' N' F' where i: "ngx_radix128tree_insert ps h t key (replicate 16 0xff) v = Some (NGX_OK, h', t')"
      "radix_ok 128 ps h' t' N' F'" "vals h' N' = (vals h N)(bits128 key := v)"
    using g_insert_live [OF assms(1,2), of "bits128 key" v] assms(3-5) rtree_okD(1,2) [OF T]
      insert128_path [OF assms(4), of "replicate 16 0xff" t ps h v] by auto
  have T': "rtree_ok 128 h' (rt_root t') N'" using i(2) by (simp add: radix_ok_def)
  have val: "vals h' N' (bits128 key) = v" using i(3) by simp
  then have "N' (bits128 key) \<noteq> NULL" using assms(6) by (auto simp: vals_def split: option.splits)
  then have "ngx_radix128tree_find h' t' key = None" using find128_ok [OF T', of key] assms(4) by simp
  moreover have "ngx_radix128tree_find h' t' (key @ [b]) = Some v" for b
    using find128_ok [OF T', of "key @ [b]"] assms(4,6) longest_match_full [of "vals h' N'" "bits128 key"] val by simp
  ultimately show ?thesis using i(1) by blast
qed

definition root_heap :: rheap where
  "root_heap = [64 \<mapsto> \<lparr>rn_right = NULL, rn_left = NULL, rn_parent = NULL, rn_value = NGX_RADIX_NO_VALUE\<rparr>]"

definition root_tree :: ngx_radix_tree_t where
  "root_tree = \<lparr>rt_root = Some 64, rt_pool = [], rt_free = NULL, rt_start = 96, rt_size = 8160\<rparr>"

theorem radix128_find_overread_witness:
  "\<exists>h' t'. ngx_radix128tree_insert 8192 root_heap root_tree (replicate 16 1) (replicate 16 0xff) 7 = Some (NGX_OK, h', t') \<and>
    ngx_radix128tree_find h' t' (replicate 16 1) = None \<and> (\<forall>b. ngx_radix128tree_find h' t' (replicate 16 1 @ [b]) = Some 7)"
proof (rule radix128_find_overread)
  have len: "length (room 8192 root_tree) = 255" by (simp add: room_def root_tree_def slots_def NODE_SIZE_def)
  show "radix_ok 128 8192 root_heap root_tree (\<lambda>\<pi>. if \<pi> = [] then Some 64 else NULL) []"
    by (auto simp: radix_ok_def rtree_ok_def node_ok_def mem_ok_def root_heap_def root_tree_def room_def slots_def NODE_SIZE_def
        distinct_map inj_on_def split: if_splits)
  show "128 \<le> spare 8192 root_tree []" using len by (simp add: spare_def root_tree_def)
  have "bits128 (replicate 16 1) \<noteq> []" using length_key_bits(2) [of "replicate 16 1"] by fastforce
  then show "vals root_heap (\<lambda>\<pi>. if \<pi> = [] then Some 64 else NULL) (bits128 (replicate 16 1)) = NGX_RADIX_NO_VALUE"
    by (simp add: vals_def)
qed (simp_all add: NODE_SIZE_def NGX_RADIX_NO_VALUE_def)

end
