(* ===== verification/Huffman_Tables.thy ===== *)
theory Huffman_Tables
  imports Prelude
begin

text \<open>
  The tables of nginx's HPACK Huffman coder, entry by entry: the transition table of
  \<^verbatim>\<open>src/nginx/src/http/ngx_http_huff_decode.c\<close>, 256 states of 16 transitions, one list per block of
  rows, and the two code tables of \<^verbatim>\<open>src/nginx/src/http/ngx_http_huff_encode.c\<close>. The fields are
  unsigned bytes and 32-bit numbers that the coder only copies, compares and shifts; they are natural
  numbers here.
\<close>

datatype ngx_http_huff_decode_code_t = DC (dc_next: nat) (dc_emit: nat) (dc_sym: nat) (dc_ending: nat)

datatype ngx_http_huff_encode_code_t = EC (ec_code: nat) (ec_len: nat)

section \<open>The decoder's transitions\<close>

definition huff_decode_codes_0 :: "ngx_http_huff_decode_code_t list list" where
  \<comment> \<open>the states 0 to 13\<close>
  "huff_decode_codes_0 = [
    [DC 4 0 0 0, DC 5 0 0 0, DC 7 0 0 0, DC 8 0 0 0,
     DC 11 0 0 0, DC 12 0 0 0, DC 16 0 0 0, DC 19 0 0 0,
     DC 25 0 0 0, DC 28 0 0 0, DC 32 0 0 0, DC 35 0 0 0,
     DC 42 0 0 0, DC 49 0 0 0, DC 57 0 0 0, DC 64 0 0 1],
    [DC 0 1 48 1, DC 0 1 49 1, DC 0 1 50 1, DC 0 1 97 1,
     DC 0 1 99 1, DC 0 1 101 1, DC 0 1 105 1, DC 0 1 111 1,
     DC 0 1 115 1, DC 0 1 116 1, DC 13 0 0 0, DC 14 0 0 0,
     DC 17 0 0 0, DC 18 0 0 0, DC 20 0 0 0, DC 21 0 0 0],
    [DC 1 1 48 0, DC 22 1 48 1, DC 1 1 49 0, DC 22 1 49 1,
     DC 1 1 50 0, DC 22 1 50 1, DC 1 1 97 0, DC 22 1 97 1,
     DC 1 1 99 0, DC 22 1 99 1, DC 1 1 101 0, DC 22 1 101 1,
     DC 1 1 105 0, DC 22 1 105 1, DC 1 1 111 0, DC 22 1 111 1],
    [DC 2 1 48 0, DC 9 1 48 0, DC 23 1 48 0, DC 40 1 48 1,
     DC 2 1 49 0, DC 9 1 49 0, DC 23 1 49 0, DC 40 1 49 1,
     DC 2 1 50 0, DC 9 1 50 0, DC 23 1 50 0, DC 40 1 50 1,
     DC 2 1 97 0, DC 9 1 97 0, DC 23 1 97 0, DC 40 1 97 1],
    [DC 3 1 48 0, DC 6 1 48 0, DC 10 1 48 0, DC 15 1 48 0,
     DC 24 1 48 0, DC 31 1 48 0, DC 41 1 48 0, DC 56 1 48 1,
     DC 3 1 49 0, DC 6 1 49 0, DC 10 1 49 0, DC 15 1 49 0,
     DC 24 1 49 0, DC 31 1 49 0, DC 41 1 49 0, DC 56 1 49 1],
    [DC 3 1 50 0, DC 6 1 50 0, DC 10 1 50 0, DC 15 1 50 0,
     DC 24 1 50 0, DC 31 1 50 0, DC 41 1 50 0, DC 56 1 50 1,
     DC 3 1 97 0, DC 6 1 97 0, DC 10 1 97 0, DC 15 1 97 0,
     DC 24 1 97 0, DC 31 1 97 0, DC 41 1 97 0, DC 56 1 97 1],
    [DC 2 1 99 0, DC 9 1 99 0, DC 23 1 99 0, DC 40 1 99 1,
     DC 2 1 101 0, DC 9 1 101 0, DC 23 1 101 0, DC 40 1 101 1,
     DC 2 1 105 0, DC 9 1 105 0, DC 23 1 105 0, DC 40 1 105 1,
     DC 2 1 111 0, DC 9 1 111 0, DC 23 1 111 0, DC 40 1 111 1],
    [DC 3 1 99 0, DC 6 1 99 0, DC 10 1 99 0, DC 15 1 99 0,
     DC 24 1 99 0, DC 31 1 99 0, DC 41 1 99 0, DC 56 1 99 1,
     DC 3 1 101 0, DC 6 1 101 0, DC 10 1 101 0, DC 15 1 101 0,
     DC 24 1 101 0, DC 31 1 101 0, DC 41 1 101 0, DC 56 1 101 1],
    [DC 3 1 105 0, DC 6 1 105 0, DC 10 1 105 0, DC 15 1 105 0,
     DC 24 1 105 0, DC 31 1 105 0, DC 41 1 105 0, DC 56 1 105 1,
     DC 3 1 111 0, DC 6 1 111 0, DC 10 1 111 0, DC 15 1 111 0,
     DC 24 1 111 0, DC 31 1 111 0, DC 41 1 111 0, DC 56 1 111 1],
    [DC 1 1 115 0, DC 22 1 115 1, DC 1 1 116 0, DC 22 1 116 1,
     DC 0 1 32 1, DC 0 1 37 1, DC 0 1 45 1, DC 0 1 46 1,
     DC 0 1 47 1, DC 0 1 51 1, DC 0 1 52 1, DC 0 1 53 1,
     DC 0 1 54 1, DC 0 1 55 1, DC 0 1 56 1, DC 0 1 57 1],
    [DC 2 1 115 0, DC 9 1 115 0, DC 23 1 115 0, DC 40 1 115 1,
     DC 2 1 116 0, DC 9 1 116 0, DC 23 1 116 0, DC 40 1 116 1,
     DC 1 1 32 0, DC 22 1 32 1, DC 1 1 37 0, DC 22 1 37 1,
     DC 1 1 45 0, DC 22 1 45 1, DC 1 1 46 0, DC 22 1 46 1],
    [DC 3 1 115 0, DC 6 1 115 0, DC 10 1 115 0, DC 15 1 115 0,
     DC 24 1 115 0, DC 31 1 115 0, DC 41 1 115 0, DC 56 1 115 1,
     DC 3 1 116 0, DC 6 1 116 0, DC 10 1 116 0, DC 15 1 116 0,
     DC 24 1 116 0, DC 31 1 116 0, DC 41 1 116 0, DC 56 1 116 1],
    [DC 2 1 32 0, DC 9 1 32 0, DC 23 1 32 0, DC 40 1 32 1,
     DC 2 1 37 0, DC 9 1 37 0, DC 23 1 37 0, DC 40 1 37 1,
     DC 2 1 45 0, DC 9 1 45 0, DC 23 1 45 0, DC 40 1 45 1,
     DC 2 1 46 0, DC 9 1 46 0, DC 23 1 46 0, DC 40 1 46 1],
    [DC 3 1 32 0, DC 6 1 32 0, DC 10 1 32 0, DC 15 1 32 0,
     DC 24 1 32 0, DC 31 1 32 0, DC 41 1 32 0, DC 56 1 32 1,
     DC 3 1 37 0, DC 6 1 37 0, DC 10 1 37 0, DC 15 1 37 0,
     DC 24 1 37 0, DC 31 1 37 0, DC 41 1 37 0, DC 56 1 37 1]]"

definition huff_decode_codes_1 :: "ngx_http_huff_decode_code_t list list" where
  \<comment> \<open>the states 14 to 27\<close>
  "huff_decode_codes_1 = [
    [DC 3 1 45 0, DC 6 1 45 0, DC 10 1 45 0, DC 15 1 45 0,
     DC 24 1 45 0, DC 31 1 45 0, DC 41 1 45 0, DC 56 1 45 1,
     DC 3 1 46 0, DC 6 1 46 0, DC 10 1 46 0, DC 15 1 46 0,
     DC 24 1 46 0, DC 31 1 46 0, DC 41 1 46 0, DC 56 1 46 1],
    [DC 1 1 47 0, DC 22 1 47 1, DC 1 1 51 0, DC 22 1 51 1,
     DC 1 1 52 0, DC 22 1 52 1, DC 1 1 53 0, DC 22 1 53 1,
     DC 1 1 54 0, DC 22 1 54 1, DC 1 1 55 0, DC 22 1 55 1,
     DC 1 1 56 0, DC 22 1 56 1, DC 1 1 57 0, DC 22 1 57 1],
    [DC 2 1 47 0, DC 9 1 47 0, DC 23 1 47 0, DC 40 1 47 1,
     DC 2 1 51 0, DC 9 1 51 0, DC 23 1 51 0, DC 40 1 51 1,
     DC 2 1 52 0, DC 9 1 52 0, DC 23 1 52 0, DC 40 1 52 1,
     DC 2 1 53 0, DC 9 1 53 0, DC 23 1 53 0, DC 40 1 53 1],
    [DC 3 1 47 0, DC 6 1 47 0, DC 10 1 47 0, DC 15 1 47 0,
     DC 24 1 47 0, DC 31 1 47 0, DC 41 1 47 0, DC 56 1 47 1,
     DC 3 1 51 0, DC 6 1 51 0, DC 10 1 51 0, DC 15 1 51 0,
     DC 24 1 51 0, DC 31 1 51 0, DC 41 1 51 0, DC 56 1 51 1],
    [DC 3 1 52 0, DC 6 1 52 0, DC 10 1 52 0, DC 15 1 52 0,
     DC 24 1 52 0, DC 31 1 52 0, DC 41 1 52 0, DC 56 1 52 1,
     DC 3 1 53 0, DC 6 1 53 0, DC 10 1 53 0, DC 15 1 53 0,
     DC 24 1 53 0, DC 31 1 53 0, DC 41 1 53 0, DC 56 1 53 1],
    [DC 2 1 54 0, DC 9 1 54 0, DC 23 1 54 0, DC 40 1 54 1,
     DC 2 1 55 0, DC 9 1 55 0, DC 23 1 55 0, DC 40 1 55 1,
     DC 2 1 56 0, DC 9 1 56 0, DC 23 1 56 0, DC 40 1 56 1,
     DC 2 1 57 0, DC 9 1 57 0, DC 23 1 57 0, DC 40 1 57 1],
    [DC 3 1 54 0, DC 6 1 54 0, DC 10 1 54 0, DC 15 1 54 0,
     DC 24 1 54 0, DC 31 1 54 0, DC 41 1 54 0, DC 56 1 54 1,
     DC 3 1 55 0, DC 6 1 55 0, DC 10 1 55 0, DC 15 1 55 0,
     DC 24 1 55 0, DC 31 1 55 0, DC 41 1 55 0, DC 56 1 55 1],
    [DC 3 1 56 0, DC 6 1 56 0, DC 10 1 56 0, DC 15 1 56 0,
     DC 24 1 56 0, DC 31 1 56 0, DC 41 1 56 0, DC 56 1 56 1,
     DC 3 1 57 0, DC 6 1 57 0, DC 10 1 57 0, DC 15 1 57 0,
     DC 24 1 57 0, DC 31 1 57 0, DC 41 1 57 0, DC 56 1 57 1],
    [DC 26 0 0 0, DC 27 0 0 0, DC 29 0 0 0, DC 30 0 0 0,
     DC 33 0 0 0, DC 34 0 0 0, DC 36 0 0 0, DC 37 0 0 0,
     DC 43 0 0 0, DC 46 0 0 0, DC 50 0 0 0, DC 53 0 0 0,
     DC 58 0 0 0, DC 61 0 0 0, DC 65 0 0 0, DC 68 0 0 1],
    [DC 0 1 61 1, DC 0 1 65 1, DC 0 1 95 1, DC 0 1 98 1,
     DC 0 1 100 1, DC 0 1 102 1, DC 0 1 103 1, DC 0 1 104 1,
     DC 0 1 108 1, DC 0 1 109 1, DC 0 1 110 1, DC 0 1 112 1,
     DC 0 1 114 1, DC 0 1 117 1, DC 38 0 0 0, DC 39 0 0 0],
    [DC 1 1 61 0, DC 22 1 61 1, DC 1 1 65 0, DC 22 1 65 1,
     DC 1 1 95 0, DC 22 1 95 1, DC 1 1 98 0, DC 22 1 98 1,
     DC 1 1 100 0, DC 22 1 100 1, DC 1 1 102 0, DC 22 1 102 1,
     DC 1 1 103 0, DC 22 1 103 1, DC 1 1 104 0, DC 22 1 104 1],
    [DC 2 1 61 0, DC 9 1 61 0, DC 23 1 61 0, DC 40 1 61 1,
     DC 2 1 65 0, DC 9 1 65 0, DC 23 1 65 0, DC 40 1 65 1,
     DC 2 1 95 0, DC 9 1 95 0, DC 23 1 95 0, DC 40 1 95 1,
     DC 2 1 98 0, DC 9 1 98 0, DC 23 1 98 0, DC 40 1 98 1],
    [DC 3 1 61 0, DC 6 1 61 0, DC 10 1 61 0, DC 15 1 61 0,
     DC 24 1 61 0, DC 31 1 61 0, DC 41 1 61 0, DC 56 1 61 1,
     DC 3 1 65 0, DC 6 1 65 0, DC 10 1 65 0, DC 15 1 65 0,
     DC 24 1 65 0, DC 31 1 65 0, DC 41 1 65 0, DC 56 1 65 1],
    [DC 3 1 95 0, DC 6 1 95 0, DC 10 1 95 0, DC 15 1 95 0,
     DC 24 1 95 0, DC 31 1 95 0, DC 41 1 95 0, DC 56 1 95 1,
     DC 3 1 98 0, DC 6 1 98 0, DC 10 1 98 0, DC 15 1 98 0,
     DC 24 1 98 0, DC 31 1 98 0, DC 41 1 98 0, DC 56 1 98 1]]"

definition huff_decode_codes_2 :: "ngx_http_huff_decode_code_t list list" where
  \<comment> \<open>the states 28 to 41\<close>
  "huff_decode_codes_2 = [
    [DC 2 1 100 0, DC 9 1 100 0, DC 23 1 100 0, DC 40 1 100 1,
     DC 2 1 102 0, DC 9 1 102 0, DC 23 1 102 0, DC 40 1 102 1,
     DC 2 1 103 0, DC 9 1 103 0, DC 23 1 103 0, DC 40 1 103 1,
     DC 2 1 104 0, DC 9 1 104 0, DC 23 1 104 0, DC 40 1 104 1],
    [DC 3 1 100 0, DC 6 1 100 0, DC 10 1 100 0, DC 15 1 100 0,
     DC 24 1 100 0, DC 31 1 100 0, DC 41 1 100 0, DC 56 1 100 1,
     DC 3 1 102 0, DC 6 1 102 0, DC 10 1 102 0, DC 15 1 102 0,
     DC 24 1 102 0, DC 31 1 102 0, DC 41 1 102 0, DC 56 1 102 1],
    [DC 3 1 103 0, DC 6 1 103 0, DC 10 1 103 0, DC 15 1 103 0,
     DC 24 1 103 0, DC 31 1 103 0, DC 41 1 103 0, DC 56 1 103 1,
     DC 3 1 104 0, DC 6 1 104 0, DC 10 1 104 0, DC 15 1 104 0,
     DC 24 1 104 0, DC 31 1 104 0, DC 41 1 104 0, DC 56 1 104 1],
    [DC 1 1 108 0, DC 22 1 108 1, DC 1 1 109 0, DC 22 1 109 1,
     DC 1 1 110 0, DC 22 1 110 1, DC 1 1 112 0, DC 22 1 112 1,
     DC 1 1 114 0, DC 22 1 114 1, DC 1 1 117 0, DC 22 1 117 1,
     DC 0 1 58 1, DC 0 1 66 1, DC 0 1 67 1, DC 0 1 68 1],
    [DC 2 1 108 0, DC 9 1 108 0, DC 23 1 108 0, DC 40 1 108 1,
     DC 2 1 109 0, DC 9 1 109 0, DC 23 1 109 0, DC 40 1 109 1,
     DC 2 1 110 0, DC 9 1 110 0, DC 23 1 110 0, DC 40 1 110 1,
     DC 2 1 112 0, DC 9 1 112 0, DC 23 1 112 0, DC 40 1 112 1],
    [DC 3 1 108 0, DC 6 1 108 0, DC 10 1 108 0, DC 15 1 108 0,
     DC 24 1 108 0, DC 31 1 108 0, DC 41 1 108 0, DC 56 1 108 1,
     DC 3 1 109 0, DC 6 1 109 0, DC 10 1 109 0, DC 15 1 109 0,
     DC 24 1 109 0, DC 31 1 109 0, DC 41 1 109 0, DC 56 1 109 1],
    [DC 3 1 110 0, DC 6 1 110 0, DC 10 1 110 0, DC 15 1 110 0,
     DC 24 1 110 0, DC 31 1 110 0, DC 41 1 110 0, DC 56 1 110 1,
     DC 3 1 112 0, DC 6 1 112 0, DC 10 1 112 0, DC 15 1 112 0,
     DC 24 1 112 0, DC 31 1 112 0, DC 41 1 112 0, DC 56 1 112 1],
    [DC 2 1 114 0, DC 9 1 114 0, DC 23 1 114 0, DC 40 1 114 1,
     DC 2 1 117 0, DC 9 1 117 0, DC 23 1 117 0, DC 40 1 117 1,
     DC 1 1 58 0, DC 22 1 58 1, DC 1 1 66 0, DC 22 1 66 1,
     DC 1 1 67 0, DC 22 1 67 1, DC 1 1 68 0, DC 22 1 68 1],
    [DC 3 1 114 0, DC 6 1 114 0, DC 10 1 114 0, DC 15 1 114 0,
     DC 24 1 114 0, DC 31 1 114 0, DC 41 1 114 0, DC 56 1 114 1,
     DC 3 1 117 0, DC 6 1 117 0, DC 10 1 117 0, DC 15 1 117 0,
     DC 24 1 117 0, DC 31 1 117 0, DC 41 1 117 0, DC 56 1 117 1],
    [DC 2 1 58 0, DC 9 1 58 0, DC 23 1 58 0, DC 40 1 58 1,
     DC 2 1 66 0, DC 9 1 66 0, DC 23 1 66 0, DC 40 1 66 1,
     DC 2 1 67 0, DC 9 1 67 0, DC 23 1 67 0, DC 40 1 67 1,
     DC 2 1 68 0, DC 9 1 68 0, DC 23 1 68 0, DC 40 1 68 1],
    [DC 3 1 58 0, DC 6 1 58 0, DC 10 1 58 0, DC 15 1 58 0,
     DC 24 1 58 0, DC 31 1 58 0, DC 41 1 58 0, DC 56 1 58 1,
     DC 3 1 66 0, DC 6 1 66 0, DC 10 1 66 0, DC 15 1 66 0,
     DC 24 1 66 0, DC 31 1 66 0, DC 41 1 66 0, DC 56 1 66 1],
    [DC 3 1 67 0, DC 6 1 67 0, DC 10 1 67 0, DC 15 1 67 0,
     DC 24 1 67 0, DC 31 1 67 0, DC 41 1 67 0, DC 56 1 67 1,
     DC 3 1 68 0, DC 6 1 68 0, DC 10 1 68 0, DC 15 1 68 0,
     DC 24 1 68 0, DC 31 1 68 0, DC 41 1 68 0, DC 56 1 68 1],
    [DC 44 0 0 0, DC 45 0 0 0, DC 47 0 0 0, DC 48 0 0 0,
     DC 51 0 0 0, DC 52 0 0 0, DC 54 0 0 0, DC 55 0 0 0,
     DC 59 0 0 0, DC 60 0 0 0, DC 62 0 0 0, DC 63 0 0 0,
     DC 66 0 0 0, DC 67 0 0 0, DC 69 0 0 0, DC 72 0 0 1],
    [DC 0 1 69 1, DC 0 1 70 1, DC 0 1 71 1, DC 0 1 72 1,
     DC 0 1 73 1, DC 0 1 74 1, DC 0 1 75 1, DC 0 1 76 1,
     DC 0 1 77 1, DC 0 1 78 1, DC 0 1 79 1, DC 0 1 80 1,
     DC 0 1 81 1, DC 0 1 82 1, DC 0 1 83 1, DC 0 1 84 1]]"

definition huff_decode_codes_3 :: "ngx_http_huff_decode_code_t list list" where
  \<comment> \<open>the states 42 to 55\<close>
  "huff_decode_codes_3 = [
    [DC 1 1 69 0, DC 22 1 69 1, DC 1 1 70 0, DC 22 1 70 1,
     DC 1 1 71 0, DC 22 1 71 1, DC 1 1 72 0, DC 22 1 72 1,
     DC 1 1 73 0, DC 22 1 73 1, DC 1 1 74 0, DC 22 1 74 1,
     DC 1 1 75 0, DC 22 1 75 1, DC 1 1 76 0, DC 22 1 76 1],
    [DC 2 1 69 0, DC 9 1 69 0, DC 23 1 69 0, DC 40 1 69 1,
     DC 2 1 70 0, DC 9 1 70 0, DC 23 1 70 0, DC 40 1 70 1,
     DC 2 1 71 0, DC 9 1 71 0, DC 23 1 71 0, DC 40 1 71 1,
     DC 2 1 72 0, DC 9 1 72 0, DC 23 1 72 0, DC 40 1 72 1],
    [DC 3 1 69 0, DC 6 1 69 0, DC 10 1 69 0, DC 15 1 69 0,
     DC 24 1 69 0, DC 31 1 69 0, DC 41 1 69 0, DC 56 1 69 1,
     DC 3 1 70 0, DC 6 1 70 0, DC 10 1 70 0, DC 15 1 70 0,
     DC 24 1 70 0, DC 31 1 70 0, DC 41 1 70 0, DC 56 1 70 1],
    [DC 3 1 71 0, DC 6 1 71 0, DC 10 1 71 0, DC 15 1 71 0,
     DC 24 1 71 0, DC 31 1 71 0, DC 41 1 71 0, DC 56 1 71 1,
     DC 3 1 72 0, DC 6 1 72 0, DC 10 1 72 0, DC 15 1 72 0,
     DC 24 1 72 0, DC 31 1 72 0, DC 41 1 72 0, DC 56 1 72 1],
    [DC 2 1 73 0, DC 9 1 73 0, DC 23 1 73 0, DC 40 1 73 1,
     DC 2 1 74 0, DC 9 1 74 0, DC 23 1 74 0, DC 40 1 74 1,
     DC 2 1 75 0, DC 9 1 75 0, DC 23 1 75 0, DC 40 1 75 1,
     DC 2 1 76 0, DC 9 1 76 0, DC 23 1 76 0, DC 40 1 76 1],
    [DC 3 1 73 0, DC 6 1 73 0, DC 10 1 73 0, DC 15 1 73 0,
     DC 24 1 73 0, DC 31 1 73 0, DC 41 1 73 0, DC 56 1 73 1,
     DC 3 1 74 0, DC 6 1 74 0, DC 10 1 74 0, DC 15 1 74 0,
     DC 24 1 74 0, DC 31 1 74 0, DC 41 1 74 0, DC 56 1 74 1],
    [DC 3 1 75 0, DC 6 1 75 0, DC 10 1 75 0, DC 15 1 75 0,
     DC 24 1 75 0, DC 31 1 75 0, DC 41 1 75 0, DC 56 1 75 1,
     DC 3 1 76 0, DC 6 1 76 0, DC 10 1 76 0, DC 15 1 76 0,
     DC 24 1 76 0, DC 31 1 76 0, DC 41 1 76 0, DC 56 1 76 1],
    [DC 1 1 77 0, DC 22 1 77 1, DC 1 1 78 0, DC 22 1 78 1,
     DC 1 1 79 0, DC 22 1 79 1, DC 1 1 80 0, DC 22 1 80 1,
     DC 1 1 81 0, DC 22 1 81 1, DC 1 1 82 0, DC 22 1 82 1,
     DC 1 1 83 0, DC 22 1 83 1, DC 1 1 84 0, DC 22 1 84 1],
    [DC 2 1 77 0, DC 9 1 77 0, DC 23 1 77 0, DC 40 1 77 1,
     DC 2 1 78 0, DC 9 1 78 0, DC 23 1 78 0, DC 40 1 78 1,
     DC 2 1 79 0, DC 9 1 79 0, DC 23 1 79 0, DC 40 1 79 1,
     DC 2 1 80 0, DC 9 1 80 0, DC 23 1 80 0, DC 40 1 80 1],
    [DC 3 1 77 0, DC 6 1 77 0, DC 10 1 77 0, DC 15 1 77 0,
     DC 24 1 77 0, DC 31 1 77 0, DC 41 1 77 0, DC 56 1 77 1,
     DC 3 1 78 0, DC 6 1 78 0, DC 10 1 78 0, DC 15 1 78 0,
     DC 24 1 78 0, DC 31 1 78 0, DC 41 1 78 0, DC 56 1 78 1],
    [DC 3 1 79 0, DC 6 1 79 0, DC 10 1 79 0, DC 15 1 79 0,
     DC 24 1 79 0, DC 31 1 79 0, DC 41 1 79 0, DC 56 1 79 1,
     DC 3 1 80 0, DC 6 1 80 0, DC 10 1 80 0, DC 15 1 80 0,
     DC 24 1 80 0, DC 31 1 80 0, DC 41 1 80 0, DC 56 1 80 1],
    [DC 2 1 81 0, DC 9 1 81 0, DC 23 1 81 0, DC 40 1 81 1,
     DC 2 1 82 0, DC 9 1 82 0, DC 23 1 82 0, DC 40 1 82 1,
     DC 2 1 83 0, DC 9 1 83 0, DC 23 1 83 0, DC 40 1 83 1,
     DC 2 1 84 0, DC 9 1 84 0, DC 23 1 84 0, DC 40 1 84 1],
    [DC 3 1 81 0, DC 6 1 81 0, DC 10 1 81 0, DC 15 1 81 0,
     DC 24 1 81 0, DC 31 1 81 0, DC 41 1 81 0, DC 56 1 81 1,
     DC 3 1 82 0, DC 6 1 82 0, DC 10 1 82 0, DC 15 1 82 0,
     DC 24 1 82 0, DC 31 1 82 0, DC 41 1 82 0, DC 56 1 82 1],
    [DC 3 1 83 0, DC 6 1 83 0, DC 10 1 83 0, DC 15 1 83 0,
     DC 24 1 83 0, DC 31 1 83 0, DC 41 1 83 0, DC 56 1 83 1,
     DC 3 1 84 0, DC 6 1 84 0, DC 10 1 84 0, DC 15 1 84 0,
     DC 24 1 84 0, DC 31 1 84 0, DC 41 1 84 0, DC 56 1 84 1]]"

definition huff_decode_codes_4 :: "ngx_http_huff_decode_code_t list list" where
  \<comment> \<open>the states 56 to 69\<close>
  "huff_decode_codes_4 = [
    [DC 0 1 85 1, DC 0 1 86 1, DC 0 1 87 1, DC 0 1 89 1,
     DC 0 1 106 1, DC 0 1 107 1, DC 0 1 113 1, DC 0 1 118 1,
     DC 0 1 119 1, DC 0 1 120 1, DC 0 1 121 1, DC 0 1 122 1,
     DC 70 0 0 0, DC 71 0 0 0, DC 73 0 0 0, DC 74 0 0 1],
    [DC 1 1 85 0, DC 22 1 85 1, DC 1 1 86 0, DC 22 1 86 1,
     DC 1 1 87 0, DC 22 1 87 1, DC 1 1 89 0, DC 22 1 89 1,
     DC 1 1 106 0, DC 22 1 106 1, DC 1 1 107 0, DC 22 1 107 1,
     DC 1 1 113 0, DC 22 1 113 1, DC 1 1 118 0, DC 22 1 118 1],
    [DC 2 1 85 0, DC 9 1 85 0, DC 23 1 85 0, DC 40 1 85 1,
     DC 2 1 86 0, DC 9 1 86 0, DC 23 1 86 0, DC 40 1 86 1,
     DC 2 1 87 0, DC 9 1 87 0, DC 23 1 87 0, DC 40 1 87 1,
     DC 2 1 89 0, DC 9 1 89 0, DC 23 1 89 0, DC 40 1 89 1],
    [DC 3 1 85 0, DC 6 1 85 0, DC 10 1 85 0, DC 15 1 85 0,
     DC 24 1 85 0, DC 31 1 85 0, DC 41 1 85 0, DC 56 1 85 1,
     DC 3 1 86 0, DC 6 1 86 0, DC 10 1 86 0, DC 15 1 86 0,
     DC 24 1 86 0, DC 31 1 86 0, DC 41 1 86 0, DC 56 1 86 1],
    [DC 3 1 87 0, DC 6 1 87 0, DC 10 1 87 0, DC 15 1 87 0,
     DC 24 1 87 0, DC 31 1 87 0, DC 41 1 87 0, DC 56 1 87 1,
     DC 3 1 89 0, DC 6 1 89 0, DC 10 1 89 0, DC 15 1 89 0,
     DC 24 1 89 0, DC 31 1 89 0, DC 41 1 89 0, DC 56 1 89 1],
    [DC 2 1 106 0, DC 9 1 106 0, DC 23 1 106 0, DC 40 1 106 1,
     DC 2 1 107 0, DC 9 1 107 0, DC 23 1 107 0, DC 40 1 107 1,
     DC 2 1 113 0, DC 9 1 113 0, DC 23 1 113 0, DC 40 1 113 1,
     DC 2 1 118 0, DC 9 1 118 0, DC 23 1 118 0, DC 40 1 118 1],
    [DC 3 1 106 0, DC 6 1 106 0, DC 10 1 106 0, DC 15 1 106 0,
     DC 24 1 106 0, DC 31 1 106 0, DC 41 1 106 0, DC 56 1 106 1,
     DC 3 1 107 0, DC 6 1 107 0, DC 10 1 107 0, DC 15 1 107 0,
     DC 24 1 107 0, DC 31 1 107 0, DC 41 1 107 0, DC 56 1 107 1],
    [DC 3 1 113 0, DC 6 1 113 0, DC 10 1 113 0, DC 15 1 113 0,
     DC 24 1 113 0, DC 31 1 113 0, DC 41 1 113 0, DC 56 1 113 1,
     DC 3 1 118 0, DC 6 1 118 0, DC 10 1 118 0, DC 15 1 118 0,
     DC 24 1 118 0, DC 31 1 118 0, DC 41 1 118 0, DC 56 1 118 1],
    [DC 1 1 119 0, DC 22 1 119 1, DC 1 1 120 0, DC 22 1 120 1,
     DC 1 1 121 0, DC 22 1 121 1, DC 1 1 122 0, DC 22 1 122 1,
     DC 0 1 38 1, DC 0 1 42 1, DC 0 1 44 1, DC 0 1 59 1,
     DC 0 1 88 1, DC 0 1 90 1, DC 75 0 0 0, DC 78 0 0 1],
    [DC 2 1 119 0, DC 9 1 119 0, DC 23 1 119 0, DC 40 1 119 1,
     DC 2 1 120 0, DC 9 1 120 0, DC 23 1 120 0, DC 40 1 120 1,
     DC 2 1 121 0, DC 9 1 121 0, DC 23 1 121 0, DC 40 1 121 1,
     DC 2 1 122 0, DC 9 1 122 0, DC 23 1 122 0, DC 40 1 122 1],
    [DC 3 1 119 0, DC 6 1 119 0, DC 10 1 119 0, DC 15 1 119 0,
     DC 24 1 119 0, DC 31 1 119 0, DC 41 1 119 0, DC 56 1 119 1,
     DC 3 1 120 0, DC 6 1 120 0, DC 10 1 120 0, DC 15 1 120 0,
     DC 24 1 120 0, DC 31 1 120 0, DC 41 1 120 0, DC 56 1 120 1],
    [DC 3 1 121 0, DC 6 1 121 0, DC 10 1 121 0, DC 15 1 121 0,
     DC 24 1 121 0, DC 31 1 121 0, DC 41 1 121 0, DC 56 1 121 1,
     DC 3 1 122 0, DC 6 1 122 0, DC 10 1 122 0, DC 15 1 122 0,
     DC 24 1 122 0, DC 31 1 122 0, DC 41 1 122 0, DC 56 1 122 1],
    [DC 1 1 38 0, DC 22 1 38 1, DC 1 1 42 0, DC 22 1 42 1,
     DC 1 1 44 0, DC 22 1 44 1, DC 1 1 59 0, DC 22 1 59 1,
     DC 1 1 88 0, DC 22 1 88 1, DC 1 1 90 0, DC 22 1 90 1,
     DC 76 0 0 0, DC 77 0 0 0, DC 79 0 0 0, DC 81 0 0 1],
    [DC 2 1 38 0, DC 9 1 38 0, DC 23 1 38 0, DC 40 1 38 1,
     DC 2 1 42 0, DC 9 1 42 0, DC 23 1 42 0, DC 40 1 42 1,
     DC 2 1 44 0, DC 9 1 44 0, DC 23 1 44 0, DC 40 1 44 1,
     DC 2 1 59 0, DC 9 1 59 0, DC 23 1 59 0, DC 40 1 59 1]]"

definition huff_decode_codes_5 :: "ngx_http_huff_decode_code_t list list" where
  \<comment> \<open>the states 70 to 83\<close>
  "huff_decode_codes_5 = [
    [DC 3 1 38 0, DC 6 1 38 0, DC 10 1 38 0, DC 15 1 38 0,
     DC 24 1 38 0, DC 31 1 38 0, DC 41 1 38 0, DC 56 1 38 1,
     DC 3 1 42 0, DC 6 1 42 0, DC 10 1 42 0, DC 15 1 42 0,
     DC 24 1 42 0, DC 31 1 42 0, DC 41 1 42 0, DC 56 1 42 1],
    [DC 3 1 44 0, DC 6 1 44 0, DC 10 1 44 0, DC 15 1 44 0,
     DC 24 1 44 0, DC 31 1 44 0, DC 41 1 44 0, DC 56 1 44 1,
     DC 3 1 59 0, DC 6 1 59 0, DC 10 1 59 0, DC 15 1 59 0,
     DC 24 1 59 0, DC 31 1 59 0, DC 41 1 59 0, DC 56 1 59 1],
    [DC 2 1 88 0, DC 9 1 88 0, DC 23 1 88 0, DC 40 1 88 1,
     DC 2 1 90 0, DC 9 1 90 0, DC 23 1 90 0, DC 40 1 90 1,
     DC 0 1 33 1, DC 0 1 34 1, DC 0 1 40 1, DC 0 1 41 1,
     DC 0 1 63 1, DC 80 0 0 0, DC 82 0 0 0, DC 84 0 0 1],
    [DC 3 1 88 0, DC 6 1 88 0, DC 10 1 88 0, DC 15 1 88 0,
     DC 24 1 88 0, DC 31 1 88 0, DC 41 1 88 0, DC 56 1 88 1,
     DC 3 1 90 0, DC 6 1 90 0, DC 10 1 90 0, DC 15 1 90 0,
     DC 24 1 90 0, DC 31 1 90 0, DC 41 1 90 0, DC 56 1 90 1],
    [DC 1 1 33 0, DC 22 1 33 1, DC 1 1 34 0, DC 22 1 34 1,
     DC 1 1 40 0, DC 22 1 40 1, DC 1 1 41 0, DC 22 1 41 1,
     DC 1 1 63 0, DC 22 1 63 1, DC 0 1 39 1, DC 0 1 43 1,
     DC 0 1 124 1, DC 83 0 0 0, DC 85 0 0 0, DC 88 0 0 1],
    [DC 2 1 33 0, DC 9 1 33 0, DC 23 1 33 0, DC 40 1 33 1,
     DC 2 1 34 0, DC 9 1 34 0, DC 23 1 34 0, DC 40 1 34 1,
     DC 2 1 40 0, DC 9 1 40 0, DC 23 1 40 0, DC 40 1 40 1,
     DC 2 1 41 0, DC 9 1 41 0, DC 23 1 41 0, DC 40 1 41 1],
    [DC 3 1 33 0, DC 6 1 33 0, DC 10 1 33 0, DC 15 1 33 0,
     DC 24 1 33 0, DC 31 1 33 0, DC 41 1 33 0, DC 56 1 33 1,
     DC 3 1 34 0, DC 6 1 34 0, DC 10 1 34 0, DC 15 1 34 0,
     DC 24 1 34 0, DC 31 1 34 0, DC 41 1 34 0, DC 56 1 34 1],
    [DC 3 1 40 0, DC 6 1 40 0, DC 10 1 40 0, DC 15 1 40 0,
     DC 24 1 40 0, DC 31 1 40 0, DC 41 1 40 0, DC 56 1 40 1,
     DC 3 1 41 0, DC 6 1 41 0, DC 10 1 41 0, DC 15 1 41 0,
     DC 24 1 41 0, DC 31 1 41 0, DC 41 1 41 0, DC 56 1 41 1],
    [DC 2 1 63 0, DC 9 1 63 0, DC 23 1 63 0, DC 40 1 63 1,
     DC 1 1 39 0, DC 22 1 39 1, DC 1 1 43 0, DC 22 1 43 1,
     DC 1 1 124 0, DC 22 1 124 1, DC 0 1 35 1, DC 0 1 62 1,
     DC 86 0 0 0, DC 87 0 0 0, DC 89 0 0 0, DC 90 0 0 1],
    [DC 3 1 63 0, DC 6 1 63 0, DC 10 1 63 0, DC 15 1 63 0,
     DC 24 1 63 0, DC 31 1 63 0, DC 41 1 63 0, DC 56 1 63 1,
     DC 2 1 39 0, DC 9 1 39 0, DC 23 1 39 0, DC 40 1 39 1,
     DC 2 1 43 0, DC 9 1 43 0, DC 23 1 43 0, DC 40 1 43 1],
    [DC 3 1 39 0, DC 6 1 39 0, DC 10 1 39 0, DC 15 1 39 0,
     DC 24 1 39 0, DC 31 1 39 0, DC 41 1 39 0, DC 56 1 39 1,
     DC 3 1 43 0, DC 6 1 43 0, DC 10 1 43 0, DC 15 1 43 0,
     DC 24 1 43 0, DC 31 1 43 0, DC 41 1 43 0, DC 56 1 43 1],
    [DC 2 1 124 0, DC 9 1 124 0, DC 23 1 124 0, DC 40 1 124 1,
     DC 1 1 35 0, DC 22 1 35 1, DC 1 1 62 0, DC 22 1 62 1,
     DC 0 1 0 1, DC 0 1 36 1, DC 0 1 64 1, DC 0 1 91 1,
     DC 0 1 93 1, DC 0 1 126 1, DC 91 0 0 0, DC 92 0 0 1],
    [DC 3 1 124 0, DC 6 1 124 0, DC 10 1 124 0, DC 15 1 124 0,
     DC 24 1 124 0, DC 31 1 124 0, DC 41 1 124 0, DC 56 1 124 1,
     DC 2 1 35 0, DC 9 1 35 0, DC 23 1 35 0, DC 40 1 35 1,
     DC 2 1 62 0, DC 9 1 62 0, DC 23 1 62 0, DC 40 1 62 1],
    [DC 3 1 35 0, DC 6 1 35 0, DC 10 1 35 0, DC 15 1 35 0,
     DC 24 1 35 0, DC 31 1 35 0, DC 41 1 35 0, DC 56 1 35 1,
     DC 3 1 62 0, DC 6 1 62 0, DC 10 1 62 0, DC 15 1 62 0,
     DC 24 1 62 0, DC 31 1 62 0, DC 41 1 62 0, DC 56 1 62 1]]"

definition huff_decode_codes_6 :: "ngx_http_huff_decode_code_t list list" where
  \<comment> \<open>the states 84 to 97\<close>
  "huff_decode_codes_6 = [
    [DC 1 1 0 0, DC 22 1 0 1, DC 1 1 36 0, DC 22 1 36 1,
     DC 1 1 64 0, DC 22 1 64 1, DC 1 1 91 0, DC 22 1 91 1,
     DC 1 1 93 0, DC 22 1 93 1, DC 1 1 126 0, DC 22 1 126 1,
     DC 0 1 94 1, DC 0 1 125 1, DC 93 0 0 0, DC 94 0 0 1],
    [DC 2 1 0 0, DC 9 1 0 0, DC 23 1 0 0, DC 40 1 0 1,
     DC 2 1 36 0, DC 9 1 36 0, DC 23 1 36 0, DC 40 1 36 1,
     DC 2 1 64 0, DC 9 1 64 0, DC 23 1 64 0, DC 40 1 64 1,
     DC 2 1 91 0, DC 9 1 91 0, DC 23 1 91 0, DC 40 1 91 1],
    [DC 3 1 0 0, DC 6 1 0 0, DC 10 1 0 0, DC 15 1 0 0,
     DC 24 1 0 0, DC 31 1 0 0, DC 41 1 0 0, DC 56 1 0 1,
     DC 3 1 36 0, DC 6 1 36 0, DC 10 1 36 0, DC 15 1 36 0,
     DC 24 1 36 0, DC 31 1 36 0, DC 41 1 36 0, DC 56 1 36 1],
    [DC 3 1 64 0, DC 6 1 64 0, DC 10 1 64 0, DC 15 1 64 0,
     DC 24 1 64 0, DC 31 1 64 0, DC 41 1 64 0, DC 56 1 64 1,
     DC 3 1 91 0, DC 6 1 91 0, DC 10 1 91 0, DC 15 1 91 0,
     DC 24 1 91 0, DC 31 1 91 0, DC 41 1 91 0, DC 56 1 91 1],
    [DC 2 1 93 0, DC 9 1 93 0, DC 23 1 93 0, DC 40 1 93 1,
     DC 2 1 126 0, DC 9 1 126 0, DC 23 1 126 0, DC 40 1 126 1,
     DC 1 1 94 0, DC 22 1 94 1, DC 1 1 125 0, DC 22 1 125 1,
     DC 0 1 60 1, DC 0 1 96 1, DC 0 1 123 1, DC 95 0 0 1],
    [DC 3 1 93 0, DC 6 1 93 0, DC 10 1 93 0, DC 15 1 93 0,
     DC 24 1 93 0, DC 31 1 93 0, DC 41 1 93 0, DC 56 1 93 1,
     DC 3 1 126 0, DC 6 1 126 0, DC 10 1 126 0, DC 15 1 126 0,
     DC 24 1 126 0, DC 31 1 126 0, DC 41 1 126 0, DC 56 1 126 1],
    [DC 2 1 94 0, DC 9 1 94 0, DC 23 1 94 0, DC 40 1 94 1,
     DC 2 1 125 0, DC 9 1 125 0, DC 23 1 125 0, DC 40 1 125 1,
     DC 1 1 60 0, DC 22 1 60 1, DC 1 1 96 0, DC 22 1 96 1,
     DC 1 1 123 0, DC 22 1 123 1, DC 96 0 0 0, DC 110 0 0 1],
    [DC 3 1 94 0, DC 6 1 94 0, DC 10 1 94 0, DC 15 1 94 0,
     DC 24 1 94 0, DC 31 1 94 0, DC 41 1 94 0, DC 56 1 94 1,
     DC 3 1 125 0, DC 6 1 125 0, DC 10 1 125 0, DC 15 1 125 0,
     DC 24 1 125 0, DC 31 1 125 0, DC 41 1 125 0, DC 56 1 125 1],
    [DC 2 1 60 0, DC 9 1 60 0, DC 23 1 60 0, DC 40 1 60 1,
     DC 2 1 96 0, DC 9 1 96 0, DC 23 1 96 0, DC 40 1 96 1,
     DC 2 1 123 0, DC 9 1 123 0, DC 23 1 123 0, DC 40 1 123 1,
     DC 97 0 0 0, DC 101 0 0 0, DC 111 0 0 0, DC 133 0 0 1],
    [DC 3 1 60 0, DC 6 1 60 0, DC 10 1 60 0, DC 15 1 60 0,
     DC 24 1 60 0, DC 31 1 60 0, DC 41 1 60 0, DC 56 1 60 1,
     DC 3 1 96 0, DC 6 1 96 0, DC 10 1 96 0, DC 15 1 96 0,
     DC 24 1 96 0, DC 31 1 96 0, DC 41 1 96 0, DC 56 1 96 1],
    [DC 3 1 123 0, DC 6 1 123 0, DC 10 1 123 0, DC 15 1 123 0,
     DC 24 1 123 0, DC 31 1 123 0, DC 41 1 123 0, DC 56 1 123 1,
     DC 98 0 0 0, DC 99 0 0 0, DC 102 0 0 0, DC 105 0 0 0,
     DC 112 0 0 0, DC 119 0 0 0, DC 134 0 0 0, DC 153 0 0 1],
    [DC 0 1 92 1, DC 0 1 195 1, DC 0 1 208 1, DC 100 0 0 0,
     DC 103 0 0 0, DC 104 0 0 0, DC 106 0 0 0, DC 107 0 0 0,
     DC 113 0 0 0, DC 116 0 0 0, DC 120 0 0 0, DC 126 0 0 0,
     DC 135 0 0 0, DC 142 0 0 0, DC 154 0 0 0, DC 169 0 0 1],
    [DC 1 1 92 0, DC 22 1 92 1, DC 1 1 195 0, DC 22 1 195 1,
     DC 1 1 208 0, DC 22 1 208 1, DC 0 1 128 1, DC 0 1 130 1,
     DC 0 1 131 1, DC 0 1 162 1, DC 0 1 184 1, DC 0 1 194 1,
     DC 0 1 224 1, DC 0 1 226 1, DC 108 0 0 0, DC 109 0 0 0],
    [DC 2 1 92 0, DC 9 1 92 0, DC 23 1 92 0, DC 40 1 92 1,
     DC 2 1 195 0, DC 9 1 195 0, DC 23 1 195 0, DC 40 1 195 1,
     DC 2 1 208 0, DC 9 1 208 0, DC 23 1 208 0, DC 40 1 208 1,
     DC 1 1 128 0, DC 22 1 128 1, DC 1 1 130 0, DC 22 1 130 1]]"

definition huff_decode_codes_7 :: "ngx_http_huff_decode_code_t list list" where
  \<comment> \<open>the states 98 to 111\<close>
  "huff_decode_codes_7 = [
    [DC 3 1 92 0, DC 6 1 92 0, DC 10 1 92 0, DC 15 1 92 0,
     DC 24 1 92 0, DC 31 1 92 0, DC 41 1 92 0, DC 56 1 92 1,
     DC 3 1 195 0, DC 6 1 195 0, DC 10 1 195 0, DC 15 1 195 0,
     DC 24 1 195 0, DC 31 1 195 0, DC 41 1 195 0, DC 56 1 195 1],
    [DC 3 1 208 0, DC 6 1 208 0, DC 10 1 208 0, DC 15 1 208 0,
     DC 24 1 208 0, DC 31 1 208 0, DC 41 1 208 0, DC 56 1 208 1,
     DC 2 1 128 0, DC 9 1 128 0, DC 23 1 128 0, DC 40 1 128 1,
     DC 2 1 130 0, DC 9 1 130 0, DC 23 1 130 0, DC 40 1 130 1],
    [DC 3 1 128 0, DC 6 1 128 0, DC 10 1 128 0, DC 15 1 128 0,
     DC 24 1 128 0, DC 31 1 128 0, DC 41 1 128 0, DC 56 1 128 1,
     DC 3 1 130 0, DC 6 1 130 0, DC 10 1 130 0, DC 15 1 130 0,
     DC 24 1 130 0, DC 31 1 130 0, DC 41 1 130 0, DC 56 1 130 1],
    [DC 1 1 131 0, DC 22 1 131 1, DC 1 1 162 0, DC 22 1 162 1,
     DC 1 1 184 0, DC 22 1 184 1, DC 1 1 194 0, DC 22 1 194 1,
     DC 1 1 224 0, DC 22 1 224 1, DC 1 1 226 0, DC 22 1 226 1,
     DC 0 1 153 1, DC 0 1 161 1, DC 0 1 167 1, DC 0 1 172 1],
    [DC 2 1 131 0, DC 9 1 131 0, DC 23 1 131 0, DC 40 1 131 1,
     DC 2 1 162 0, DC 9 1 162 0, DC 23 1 162 0, DC 40 1 162 1,
     DC 2 1 184 0, DC 9 1 184 0, DC 23 1 184 0, DC 40 1 184 1,
     DC 2 1 194 0, DC 9 1 194 0, DC 23 1 194 0, DC 40 1 194 1],
    [DC 3 1 131 0, DC 6 1 131 0, DC 10 1 131 0, DC 15 1 131 0,
     DC 24 1 131 0, DC 31 1 131 0, DC 41 1 131 0, DC 56 1 131 1,
     DC 3 1 162 0, DC 6 1 162 0, DC 10 1 162 0, DC 15 1 162 0,
     DC 24 1 162 0, DC 31 1 162 0, DC 41 1 162 0, DC 56 1 162 1],
    [DC 3 1 184 0, DC 6 1 184 0, DC 10 1 184 0, DC 15 1 184 0,
     DC 24 1 184 0, DC 31 1 184 0, DC 41 1 184 0, DC 56 1 184 1,
     DC 3 1 194 0, DC 6 1 194 0, DC 10 1 194 0, DC 15 1 194 0,
     DC 24 1 194 0, DC 31 1 194 0, DC 41 1 194 0, DC 56 1 194 1],
    [DC 2 1 224 0, DC 9 1 224 0, DC 23 1 224 0, DC 40 1 224 1,
     DC 2 1 226 0, DC 9 1 226 0, DC 23 1 226 0, DC 40 1 226 1,
     DC 1 1 153 0, DC 22 1 153 1, DC 1 1 161 0, DC 22 1 161 1,
     DC 1 1 167 0, DC 22 1 167 1, DC 1 1 172 0, DC 22 1 172 1],
    [DC 3 1 224 0, DC 6 1 224 0, DC 10 1 224 0, DC 15 1 224 0,
     DC 24 1 224 0, DC 31 1 224 0, DC 41 1 224 0, DC 56 1 224 1,
     DC 3 1 226 0, DC 6 1 226 0, DC 10 1 226 0, DC 15 1 226 0,
     DC 24 1 226 0, DC 31 1 226 0, DC 41 1 226 0, DC 56 1 226 1],
    [DC 2 1 153 0, DC 9 1 153 0, DC 23 1 153 0, DC 40 1 153 1,
     DC 2 1 161 0, DC 9 1 161 0, DC 23 1 161 0, DC 40 1 161 1,
     DC 2 1 167 0, DC 9 1 167 0, DC 23 1 167 0, DC 40 1 167 1,
     DC 2 1 172 0, DC 9 1 172 0, DC 23 1 172 0, DC 40 1 172 1],
    [DC 3 1 153 0, DC 6 1 153 0, DC 10 1 153 0, DC 15 1 153 0,
     DC 24 1 153 0, DC 31 1 153 0, DC 41 1 153 0, DC 56 1 153 1,
     DC 3 1 161 0, DC 6 1 161 0, DC 10 1 161 0, DC 15 1 161 0,
     DC 24 1 161 0, DC 31 1 161 0, DC 41 1 161 0, DC 56 1 161 1],
    [DC 3 1 167 0, DC 6 1 167 0, DC 10 1 167 0, DC 15 1 167 0,
     DC 24 1 167 0, DC 31 1 167 0, DC 41 1 167 0, DC 56 1 167 1,
     DC 3 1 172 0, DC 6 1 172 0, DC 10 1 172 0, DC 15 1 172 0,
     DC 24 1 172 0, DC 31 1 172 0, DC 41 1 172 0, DC 56 1 172 1],
    [DC 114 0 0 0, DC 115 0 0 0, DC 117 0 0 0, DC 118 0 0 0,
     DC 121 0 0 0, DC 123 0 0 0, DC 127 0 0 0, DC 130 0 0 0,
     DC 136 0 0 0, DC 139 0 0 0, DC 143 0 0 0, DC 146 0 0 0,
     DC 155 0 0 0, DC 162 0 0 0, DC 170 0 0 0, DC 180 0 0 1],
    [DC 0 1 176 1, DC 0 1 177 1, DC 0 1 179 1, DC 0 1 209 1,
     DC 0 1 216 1, DC 0 1 217 1, DC 0 1 227 1, DC 0 1 229 1,
     DC 0 1 230 1, DC 122 0 0 0, DC 124 0 0 0, DC 125 0 0 0,
     DC 128 0 0 0, DC 129 0 0 0, DC 131 0 0 0, DC 132 0 0 0]]"

definition huff_decode_codes_8 :: "ngx_http_huff_decode_code_t list list" where
  \<comment> \<open>the states 112 to 125\<close>
  "huff_decode_codes_8 = [
    [DC 1 1 176 0, DC 22 1 176 1, DC 1 1 177 0, DC 22 1 177 1,
     DC 1 1 179 0, DC 22 1 179 1, DC 1 1 209 0, DC 22 1 209 1,
     DC 1 1 216 0, DC 22 1 216 1, DC 1 1 217 0, DC 22 1 217 1,
     DC 1 1 227 0, DC 22 1 227 1, DC 1 1 229 0, DC 22 1 229 1],
    [DC 2 1 176 0, DC 9 1 176 0, DC 23 1 176 0, DC 40 1 176 1,
     DC 2 1 177 0, DC 9 1 177 0, DC 23 1 177 0, DC 40 1 177 1,
     DC 2 1 179 0, DC 9 1 179 0, DC 23 1 179 0, DC 40 1 179 1,
     DC 2 1 209 0, DC 9 1 209 0, DC 23 1 209 0, DC 40 1 209 1],
    [DC 3 1 176 0, DC 6 1 176 0, DC 10 1 176 0, DC 15 1 176 0,
     DC 24 1 176 0, DC 31 1 176 0, DC 41 1 176 0, DC 56 1 176 1,
     DC 3 1 177 0, DC 6 1 177 0, DC 10 1 177 0, DC 15 1 177 0,
     DC 24 1 177 0, DC 31 1 177 0, DC 41 1 177 0, DC 56 1 177 1],
    [DC 3 1 179 0, DC 6 1 179 0, DC 10 1 179 0, DC 15 1 179 0,
     DC 24 1 179 0, DC 31 1 179 0, DC 41 1 179 0, DC 56 1 179 1,
     DC 3 1 209 0, DC 6 1 209 0, DC 10 1 209 0, DC 15 1 209 0,
     DC 24 1 209 0, DC 31 1 209 0, DC 41 1 209 0, DC 56 1 209 1],
    [DC 2 1 216 0, DC 9 1 216 0, DC 23 1 216 0, DC 40 1 216 1,
     DC 2 1 217 0, DC 9 1 217 0, DC 23 1 217 0, DC 40 1 217 1,
     DC 2 1 227 0, DC 9 1 227 0, DC 23 1 227 0, DC 40 1 227 1,
     DC 2 1 229 0, DC 9 1 229 0, DC 23 1 229 0, DC 40 1 229 1],
    [DC 3 1 216 0, DC 6 1 216 0, DC 10 1 216 0, DC 15 1 216 0,
     DC 24 1 216 0, DC 31 1 216 0, DC 41 1 216 0, DC 56 1 216 1,
     DC 3 1 217 0, DC 6 1 217 0, DC 10 1 217 0, DC 15 1 217 0,
     DC 24 1 217 0, DC 31 1 217 0, DC 41 1 217 0, DC 56 1 217 1],
    [DC 3 1 227 0, DC 6 1 227 0, DC 10 1 227 0, DC 15 1 227 0,
     DC 24 1 227 0, DC 31 1 227 0, DC 41 1 227 0, DC 56 1 227 1,
     DC 3 1 229 0, DC 6 1 229 0, DC 10 1 229 0, DC 15 1 229 0,
     DC 24 1 229 0, DC 31 1 229 0, DC 41 1 229 0, DC 56 1 229 1],
    [DC 1 1 230 0, DC 22 1 230 1, DC 0 1 129 1, DC 0 1 132 1,
     DC 0 1 133 1, DC 0 1 134 1, DC 0 1 136 1, DC 0 1 146 1,
     DC 0 1 154 1, DC 0 1 156 1, DC 0 1 160 1, DC 0 1 163 1,
     DC 0 1 164 1, DC 0 1 169 1, DC 0 1 170 1, DC 0 1 173 1],
    [DC 2 1 230 0, DC 9 1 230 0, DC 23 1 230 0, DC 40 1 230 1,
     DC 1 1 129 0, DC 22 1 129 1, DC 1 1 132 0, DC 22 1 132 1,
     DC 1 1 133 0, DC 22 1 133 1, DC 1 1 134 0, DC 22 1 134 1,
     DC 1 1 136 0, DC 22 1 136 1, DC 1 1 146 0, DC 22 1 146 1],
    [DC 3 1 230 0, DC 6 1 230 0, DC 10 1 230 0, DC 15 1 230 0,
     DC 24 1 230 0, DC 31 1 230 0, DC 41 1 230 0, DC 56 1 230 1,
     DC 2 1 129 0, DC 9 1 129 0, DC 23 1 129 0, DC 40 1 129 1,
     DC 2 1 132 0, DC 9 1 132 0, DC 23 1 132 0, DC 40 1 132 1],
    [DC 3 1 129 0, DC 6 1 129 0, DC 10 1 129 0, DC 15 1 129 0,
     DC 24 1 129 0, DC 31 1 129 0, DC 41 1 129 0, DC 56 1 129 1,
     DC 3 1 132 0, DC 6 1 132 0, DC 10 1 132 0, DC 15 1 132 0,
     DC 24 1 132 0, DC 31 1 132 0, DC 41 1 132 0, DC 56 1 132 1],
    [DC 2 1 133 0, DC 9 1 133 0, DC 23 1 133 0, DC 40 1 133 1,
     DC 2 1 134 0, DC 9 1 134 0, DC 23 1 134 0, DC 40 1 134 1,
     DC 2 1 136 0, DC 9 1 136 0, DC 23 1 136 0, DC 40 1 136 1,
     DC 2 1 146 0, DC 9 1 146 0, DC 23 1 146 0, DC 40 1 146 1],
    [DC 3 1 133 0, DC 6 1 133 0, DC 10 1 133 0, DC 15 1 133 0,
     DC 24 1 133 0, DC 31 1 133 0, DC 41 1 133 0, DC 56 1 133 1,
     DC 3 1 134 0, DC 6 1 134 0, DC 10 1 134 0, DC 15 1 134 0,
     DC 24 1 134 0, DC 31 1 134 0, DC 41 1 134 0, DC 56 1 134 1],
    [DC 3 1 136 0, DC 6 1 136 0, DC 10 1 136 0, DC 15 1 136 0,
     DC 24 1 136 0, DC 31 1 136 0, DC 41 1 136 0, DC 56 1 136 1,
     DC 3 1 146 0, DC 6 1 146 0, DC 10 1 146 0, DC 15 1 146 0,
     DC 24 1 146 0, DC 31 1 146 0, DC 41 1 146 0, DC 56 1 146 1]]"

definition huff_decode_codes_9 :: "ngx_http_huff_decode_code_t list list" where
  \<comment> \<open>the states 126 to 139\<close>
  "huff_decode_codes_9 = [
    [DC 1 1 154 0, DC 22 1 154 1, DC 1 1 156 0, DC 22 1 156 1,
     DC 1 1 160 0, DC 22 1 160 1, DC 1 1 163 0, DC 22 1 163 1,
     DC 1 1 164 0, DC 22 1 164 1, DC 1 1 169 0, DC 22 1 169 1,
     DC 1 1 170 0, DC 22 1 170 1, DC 1 1 173 0, DC 22 1 173 1],
    [DC 2 1 154 0, DC 9 1 154 0, DC 23 1 154 0, DC 40 1 154 1,
     DC 2 1 156 0, DC 9 1 156 0, DC 23 1 156 0, DC 40 1 156 1,
     DC 2 1 160 0, DC 9 1 160 0, DC 23 1 160 0, DC 40 1 160 1,
     DC 2 1 163 0, DC 9 1 163 0, DC 23 1 163 0, DC 40 1 163 1],
    [DC 3 1 154 0, DC 6 1 154 0, DC 10 1 154 0, DC 15 1 154 0,
     DC 24 1 154 0, DC 31 1 154 0, DC 41 1 154 0, DC 56 1 154 1,
     DC 3 1 156 0, DC 6 1 156 0, DC 10 1 156 0, DC 15 1 156 0,
     DC 24 1 156 0, DC 31 1 156 0, DC 41 1 156 0, DC 56 1 156 1],
    [DC 3 1 160 0, DC 6 1 160 0, DC 10 1 160 0, DC 15 1 160 0,
     DC 24 1 160 0, DC 31 1 160 0, DC 41 1 160 0, DC 56 1 160 1,
     DC 3 1 163 0, DC 6 1 163 0, DC 10 1 163 0, DC 15 1 163 0,
     DC 24 1 163 0, DC 31 1 163 0, DC 41 1 163 0, DC 56 1 163 1],
    [DC 2 1 164 0, DC 9 1 164 0, DC 23 1 164 0, DC 40 1 164 1,
     DC 2 1 169 0, DC 9 1 169 0, DC 23 1 169 0, DC 40 1 169 1,
     DC 2 1 170 0, DC 9 1 170 0, DC 23 1 170 0, DC 40 1 170 1,
     DC 2 1 173 0, DC 9 1 173 0, DC 23 1 173 0, DC 40 1 173 1],
    [DC 3 1 164 0, DC 6 1 164 0, DC 10 1 164 0, DC 15 1 164 0,
     DC 24 1 164 0, DC 31 1 164 0, DC 41 1 164 0, DC 56 1 164 1,
     DC 3 1 169 0, DC 6 1 169 0, DC 10 1 169 0, DC 15 1 169 0,
     DC 24 1 169 0, DC 31 1 169 0, DC 41 1 169 0, DC 56 1 169 1],
    [DC 3 1 170 0, DC 6 1 170 0, DC 10 1 170 0, DC 15 1 170 0,
     DC 24 1 170 0, DC 31 1 170 0, DC 41 1 170 0, DC 56 1 170 1,
     DC 3 1 173 0, DC 6 1 173 0, DC 10 1 173 0, DC 15 1 173 0,
     DC 24 1 173 0, DC 31 1 173 0, DC 41 1 173 0, DC 56 1 173 1],
    [DC 137 0 0 0, DC 138 0 0 0, DC 140 0 0 0, DC 141 0 0 0,
     DC 144 0 0 0, DC 145 0 0 0, DC 147 0 0 0, DC 150 0 0 0,
     DC 156 0 0 0, DC 159 0 0 0, DC 163 0 0 0, DC 166 0 0 0,
     DC 171 0 0 0, DC 174 0 0 0, DC 181 0 0 0, DC 190 0 0 1],
    [DC 0 1 178 1, DC 0 1 181 1, DC 0 1 185 1, DC 0 1 186 1,
     DC 0 1 187 1, DC 0 1 189 1, DC 0 1 190 1, DC 0 1 196 1,
     DC 0 1 198 1, DC 0 1 228 1, DC 0 1 232 1, DC 0 1 233 1,
     DC 148 0 0 0, DC 149 0 0 0, DC 151 0 0 0, DC 152 0 0 0],
    [DC 1 1 178 0, DC 22 1 178 1, DC 1 1 181 0, DC 22 1 181 1,
     DC 1 1 185 0, DC 22 1 185 1, DC 1 1 186 0, DC 22 1 186 1,
     DC 1 1 187 0, DC 22 1 187 1, DC 1 1 189 0, DC 22 1 189 1,
     DC 1 1 190 0, DC 22 1 190 1, DC 1 1 196 0, DC 22 1 196 1],
    [DC 2 1 178 0, DC 9 1 178 0, DC 23 1 178 0, DC 40 1 178 1,
     DC 2 1 181 0, DC 9 1 181 0, DC 23 1 181 0, DC 40 1 181 1,
     DC 2 1 185 0, DC 9 1 185 0, DC 23 1 185 0, DC 40 1 185 1,
     DC 2 1 186 0, DC 9 1 186 0, DC 23 1 186 0, DC 40 1 186 1],
    [DC 3 1 178 0, DC 6 1 178 0, DC 10 1 178 0, DC 15 1 178 0,
     DC 24 1 178 0, DC 31 1 178 0, DC 41 1 178 0, DC 56 1 178 1,
     DC 3 1 181 0, DC 6 1 181 0, DC 10 1 181 0, DC 15 1 181 0,
     DC 24 1 181 0, DC 31 1 181 0, DC 41 1 181 0, DC 56 1 181 1],
    [DC 3 1 185 0, DC 6 1 185 0, DC 10 1 185 0, DC 15 1 185 0,
     DC 24 1 185 0, DC 31 1 185 0, DC 41 1 185 0, DC 56 1 185 1,
     DC 3 1 186 0, DC 6 1 186 0, DC 10 1 186 0, DC 15 1 186 0,
     DC 24 1 186 0, DC 31 1 186 0, DC 41 1 186 0, DC 56 1 186 1],
    [DC 2 1 187 0, DC 9 1 187 0, DC 23 1 187 0, DC 40 1 187 1,
     DC 2 1 189 0, DC 9 1 189 0, DC 23 1 189 0, DC 40 1 189 1,
     DC 2 1 190 0, DC 9 1 190 0, DC 23 1 190 0, DC 40 1 190 1,
     DC 2 1 196 0, DC 9 1 196 0, DC 23 1 196 0, DC 40 1 196 1]]"

definition huff_decode_codes_10 :: "ngx_http_huff_decode_code_t list list" where
  \<comment> \<open>the states 140 to 153\<close>
  "huff_decode_codes_10 = [
    [DC 3 1 187 0, DC 6 1 187 0, DC 10 1 187 0, DC 15 1 187 0,
     DC 24 1 187 0, DC 31 1 187 0, DC 41 1 187 0, DC 56 1 187 1,
     DC 3 1 189 0, DC 6 1 189 0, DC 10 1 189 0, DC 15 1 189 0,
     DC 24 1 189 0, DC 31 1 189 0, DC 41 1 189 0, DC 56 1 189 1],
    [DC 3 1 190 0, DC 6 1 190 0, DC 10 1 190 0, DC 15 1 190 0,
     DC 24 1 190 0, DC 31 1 190 0, DC 41 1 190 0, DC 56 1 190 1,
     DC 3 1 196 0, DC 6 1 196 0, DC 10 1 196 0, DC 15 1 196 0,
     DC 24 1 196 0, DC 31 1 196 0, DC 41 1 196 0, DC 56 1 196 1],
    [DC 1 1 198 0, DC 22 1 198 1, DC 1 1 228 0, DC 22 1 228 1,
     DC 1 1 232 0, DC 22 1 232 1, DC 1 1 233 0, DC 22 1 233 1,
     DC 0 1 1 1, DC 0 1 135 1, DC 0 1 137 1, DC 0 1 138 1,
     DC 0 1 139 1, DC 0 1 140 1, DC 0 1 141 1, DC 0 1 143 1],
    [DC 2 1 198 0, DC 9 1 198 0, DC 23 1 198 0, DC 40 1 198 1,
     DC 2 1 228 0, DC 9 1 228 0, DC 23 1 228 0, DC 40 1 228 1,
     DC 2 1 232 0, DC 9 1 232 0, DC 23 1 232 0, DC 40 1 232 1,
     DC 2 1 233 0, DC 9 1 233 0, DC 23 1 233 0, DC 40 1 233 1],
    [DC 3 1 198 0, DC 6 1 198 0, DC 10 1 198 0, DC 15 1 198 0,
     DC 24 1 198 0, DC 31 1 198 0, DC 41 1 198 0, DC 56 1 198 1,
     DC 3 1 228 0, DC 6 1 228 0, DC 10 1 228 0, DC 15 1 228 0,
     DC 24 1 228 0, DC 31 1 228 0, DC 41 1 228 0, DC 56 1 228 1],
    [DC 3 1 232 0, DC 6 1 232 0, DC 10 1 232 0, DC 15 1 232 0,
     DC 24 1 232 0, DC 31 1 232 0, DC 41 1 232 0, DC 56 1 232 1,
     DC 3 1 233 0, DC 6 1 233 0, DC 10 1 233 0, DC 15 1 233 0,
     DC 24 1 233 0, DC 31 1 233 0, DC 41 1 233 0, DC 56 1 233 1],
    [DC 1 1 1 0, DC 22 1 1 1, DC 1 1 135 0, DC 22 1 135 1,
     DC 1 1 137 0, DC 22 1 137 1, DC 1 1 138 0, DC 22 1 138 1,
     DC 1 1 139 0, DC 22 1 139 1, DC 1 1 140 0, DC 22 1 140 1,
     DC 1 1 141 0, DC 22 1 141 1, DC 1 1 143 0, DC 22 1 143 1],
    [DC 2 1 1 0, DC 9 1 1 0, DC 23 1 1 0, DC 40 1 1 1,
     DC 2 1 135 0, DC 9 1 135 0, DC 23 1 135 0, DC 40 1 135 1,
     DC 2 1 137 0, DC 9 1 137 0, DC 23 1 137 0, DC 40 1 137 1,
     DC 2 1 138 0, DC 9 1 138 0, DC 23 1 138 0, DC 40 1 138 1],
    [DC 3 1 1 0, DC 6 1 1 0, DC 10 1 1 0, DC 15 1 1 0,
     DC 24 1 1 0, DC 31 1 1 0, DC 41 1 1 0, DC 56 1 1 1,
     DC 3 1 135 0, DC 6 1 135 0, DC 10 1 135 0, DC 15 1 135 0,
     DC 24 1 135 0, DC 31 1 135 0, DC 41 1 135 0, DC 56 1 135 1],
    [DC 3 1 137 0, DC 6 1 137 0, DC 10 1 137 0, DC 15 1 137 0,
     DC 24 1 137 0, DC 31 1 137 0, DC 41 1 137 0, DC 56 1 137 1,
     DC 3 1 138 0, DC 6 1 138 0, DC 10 1 138 0, DC 15 1 138 0,
     DC 24 1 138 0, DC 31 1 138 0, DC 41 1 138 0, DC 56 1 138 1],
    [DC 2 1 139 0, DC 9 1 139 0, DC 23 1 139 0, DC 40 1 139 1,
     DC 2 1 140 0, DC 9 1 140 0, DC 23 1 140 0, DC 40 1 140 1,
     DC 2 1 141 0, DC 9 1 141 0, DC 23 1 141 0, DC 40 1 141 1,
     DC 2 1 143 0, DC 9 1 143 0, DC 23 1 143 0, DC 40 1 143 1],
    [DC 3 1 139 0, DC 6 1 139 0, DC 10 1 139 0, DC 15 1 139 0,
     DC 24 1 139 0, DC 31 1 139 0, DC 41 1 139 0, DC 56 1 139 1,
     DC 3 1 140 0, DC 6 1 140 0, DC 10 1 140 0, DC 15 1 140 0,
     DC 24 1 140 0, DC 31 1 140 0, DC 41 1 140 0, DC 56 1 140 1],
    [DC 3 1 141 0, DC 6 1 141 0, DC 10 1 141 0, DC 15 1 141 0,
     DC 24 1 141 0, DC 31 1 141 0, DC 41 1 141 0, DC 56 1 141 1,
     DC 3 1 143 0, DC 6 1 143 0, DC 10 1 143 0, DC 15 1 143 0,
     DC 24 1 143 0, DC 31 1 143 0, DC 41 1 143 0, DC 56 1 143 1],
    [DC 157 0 0 0, DC 158 0 0 0, DC 160 0 0 0, DC 161 0 0 0,
     DC 164 0 0 0, DC 165 0 0 0, DC 167 0 0 0, DC 168 0 0 0,
     DC 172 0 0 0, DC 173 0 0 0, DC 175 0 0 0, DC 177 0 0 0,
     DC 182 0 0 0, DC 185 0 0 0, DC 191 0 0 0, DC 207 0 0 1]]"

definition huff_decode_codes_11 :: "ngx_http_huff_decode_code_t list list" where
  \<comment> \<open>the states 154 to 167\<close>
  "huff_decode_codes_11 = [
    [DC 0 1 147 1, DC 0 1 149 1, DC 0 1 150 1, DC 0 1 151 1,
     DC 0 1 152 1, DC 0 1 155 1, DC 0 1 157 1, DC 0 1 158 1,
     DC 0 1 165 1, DC 0 1 166 1, DC 0 1 168 1, DC 0 1 174 1,
     DC 0 1 175 1, DC 0 1 180 1, DC 0 1 182 1, DC 0 1 183 1],
    [DC 1 1 147 0, DC 22 1 147 1, DC 1 1 149 0, DC 22 1 149 1,
     DC 1 1 150 0, DC 22 1 150 1, DC 1 1 151 0, DC 22 1 151 1,
     DC 1 1 152 0, DC 22 1 152 1, DC 1 1 155 0, DC 22 1 155 1,
     DC 1 1 157 0, DC 22 1 157 1, DC 1 1 158 0, DC 22 1 158 1],
    [DC 2 1 147 0, DC 9 1 147 0, DC 23 1 147 0, DC 40 1 147 1,
     DC 2 1 149 0, DC 9 1 149 0, DC 23 1 149 0, DC 40 1 149 1,
     DC 2 1 150 0, DC 9 1 150 0, DC 23 1 150 0, DC 40 1 150 1,
     DC 2 1 151 0, DC 9 1 151 0, DC 23 1 151 0, DC 40 1 151 1],
    [DC 3 1 147 0, DC 6 1 147 0, DC 10 1 147 0, DC 15 1 147 0,
     DC 24 1 147 0, DC 31 1 147 0, DC 41 1 147 0, DC 56 1 147 1,
     DC 3 1 149 0, DC 6 1 149 0, DC 10 1 149 0, DC 15 1 149 0,
     DC 24 1 149 0, DC 31 1 149 0, DC 41 1 149 0, DC 56 1 149 1],
    [DC 3 1 150 0, DC 6 1 150 0, DC 10 1 150 0, DC 15 1 150 0,
     DC 24 1 150 0, DC 31 1 150 0, DC 41 1 150 0, DC 56 1 150 1,
     DC 3 1 151 0, DC 6 1 151 0, DC 10 1 151 0, DC 15 1 151 0,
     DC 24 1 151 0, DC 31 1 151 0, DC 41 1 151 0, DC 56 1 151 1],
    [DC 2 1 152 0, DC 9 1 152 0, DC 23 1 152 0, DC 40 1 152 1,
     DC 2 1 155 0, DC 9 1 155 0, DC 23 1 155 0, DC 40 1 155 1,
     DC 2 1 157 0, DC 9 1 157 0, DC 23 1 157 0, DC 40 1 157 1,
     DC 2 1 158 0, DC 9 1 158 0, DC 23 1 158 0, DC 40 1 158 1],
    [DC 3 1 152 0, DC 6 1 152 0, DC 10 1 152 0, DC 15 1 152 0,
     DC 24 1 152 0, DC 31 1 152 0, DC 41 1 152 0, DC 56 1 152 1,
     DC 3 1 155 0, DC 6 1 155 0, DC 10 1 155 0, DC 15 1 155 0,
     DC 24 1 155 0, DC 31 1 155 0, DC 41 1 155 0, DC 56 1 155 1],
    [DC 3 1 157 0, DC 6 1 157 0, DC 10 1 157 0, DC 15 1 157 0,
     DC 24 1 157 0, DC 31 1 157 0, DC 41 1 157 0, DC 56 1 157 1,
     DC 3 1 158 0, DC 6 1 158 0, DC 10 1 158 0, DC 15 1 158 0,
     DC 24 1 158 0, DC 31 1 158 0, DC 41 1 158 0, DC 56 1 158 1],
    [DC 1 1 165 0, DC 22 1 165 1, DC 1 1 166 0, DC 22 1 166 1,
     DC 1 1 168 0, DC 22 1 168 1, DC 1 1 174 0, DC 22 1 174 1,
     DC 1 1 175 0, DC 22 1 175 1, DC 1 1 180 0, DC 22 1 180 1,
     DC 1 1 182 0, DC 22 1 182 1, DC 1 1 183 0, DC 22 1 183 1],
    [DC 2 1 165 0, DC 9 1 165 0, DC 23 1 165 0, DC 40 1 165 1,
     DC 2 1 166 0, DC 9 1 166 0, DC 23 1 166 0, DC 40 1 166 1,
     DC 2 1 168 0, DC 9 1 168 0, DC 23 1 168 0, DC 40 1 168 1,
     DC 2 1 174 0, DC 9 1 174 0, DC 23 1 174 0, DC 40 1 174 1],
    [DC 3 1 165 0, DC 6 1 165 0, DC 10 1 165 0, DC 15 1 165 0,
     DC 24 1 165 0, DC 31 1 165 0, DC 41 1 165 0, DC 56 1 165 1,
     DC 3 1 166 0, DC 6 1 166 0, DC 10 1 166 0, DC 15 1 166 0,
     DC 24 1 166 0, DC 31 1 166 0, DC 41 1 166 0, DC 56 1 166 1],
    [DC 3 1 168 0, DC 6 1 168 0, DC 10 1 168 0, DC 15 1 168 0,
     DC 24 1 168 0, DC 31 1 168 0, DC 41 1 168 0, DC 56 1 168 1,
     DC 3 1 174 0, DC 6 1 174 0, DC 10 1 174 0, DC 15 1 174 0,
     DC 24 1 174 0, DC 31 1 174 0, DC 41 1 174 0, DC 56 1 174 1],
    [DC 2 1 175 0, DC 9 1 175 0, DC 23 1 175 0, DC 40 1 175 1,
     DC 2 1 180 0, DC 9 1 180 0, DC 23 1 180 0, DC 40 1 180 1,
     DC 2 1 182 0, DC 9 1 182 0, DC 23 1 182 0, DC 40 1 182 1,
     DC 2 1 183 0, DC 9 1 183 0, DC 23 1 183 0, DC 40 1 183 1],
    [DC 3 1 175 0, DC 6 1 175 0, DC 10 1 175 0, DC 15 1 175 0,
     DC 24 1 175 0, DC 31 1 175 0, DC 41 1 175 0, DC 56 1 175 1,
     DC 3 1 180 0, DC 6 1 180 0, DC 10 1 180 0, DC 15 1 180 0,
     DC 24 1 180 0, DC 31 1 180 0, DC 41 1 180 0, DC 56 1 180 1]]"

definition huff_decode_codes_12 :: "ngx_http_huff_decode_code_t list list" where
  \<comment> \<open>the states 168 to 181\<close>
  "huff_decode_codes_12 = [
    [DC 3 1 182 0, DC 6 1 182 0, DC 10 1 182 0, DC 15 1 182 0,
     DC 24 1 182 0, DC 31 1 182 0, DC 41 1 182 0, DC 56 1 182 1,
     DC 3 1 183 0, DC 6 1 183 0, DC 10 1 183 0, DC 15 1 183 0,
     DC 24 1 183 0, DC 31 1 183 0, DC 41 1 183 0, DC 56 1 183 1],
    [DC 0 1 188 1, DC 0 1 191 1, DC 0 1 197 1, DC 0 1 231 1,
     DC 0 1 239 1, DC 176 0 0 0, DC 178 0 0 0, DC 179 0 0 0,
     DC 183 0 0 0, DC 184 0 0 0, DC 186 0 0 0, DC 187 0 0 0,
     DC 192 0 0 0, DC 199 0 0 0, DC 208 0 0 0, DC 223 0 0 1],
    [DC 1 1 188 0, DC 22 1 188 1, DC 1 1 191 0, DC 22 1 191 1,
     DC 1 1 197 0, DC 22 1 197 1, DC 1 1 231 0, DC 22 1 231 1,
     DC 1 1 239 0, DC 22 1 239 1, DC 0 1 9 1, DC 0 1 142 1,
     DC 0 1 144 1, DC 0 1 145 1, DC 0 1 148 1, DC 0 1 159 1],
    [DC 2 1 188 0, DC 9 1 188 0, DC 23 1 188 0, DC 40 1 188 1,
     DC 2 1 191 0, DC 9 1 191 0, DC 23 1 191 0, DC 40 1 191 1,
     DC 2 1 197 0, DC 9 1 197 0, DC 23 1 197 0, DC 40 1 197 1,
     DC 2 1 231 0, DC 9 1 231 0, DC 23 1 231 0, DC 40 1 231 1],
    [DC 3 1 188 0, DC 6 1 188 0, DC 10 1 188 0, DC 15 1 188 0,
     DC 24 1 188 0, DC 31 1 188 0, DC 41 1 188 0, DC 56 1 188 1,
     DC 3 1 191 0, DC 6 1 191 0, DC 10 1 191 0, DC 15 1 191 0,
     DC 24 1 191 0, DC 31 1 191 0, DC 41 1 191 0, DC 56 1 191 1],
    [DC 3 1 197 0, DC 6 1 197 0, DC 10 1 197 0, DC 15 1 197 0,
     DC 24 1 197 0, DC 31 1 197 0, DC 41 1 197 0, DC 56 1 197 1,
     DC 3 1 231 0, DC 6 1 231 0, DC 10 1 231 0, DC 15 1 231 0,
     DC 24 1 231 0, DC 31 1 231 0, DC 41 1 231 0, DC 56 1 231 1],
    [DC 2 1 239 0, DC 9 1 239 0, DC 23 1 239 0, DC 40 1 239 1,
     DC 1 1 9 0, DC 22 1 9 1, DC 1 1 142 0, DC 22 1 142 1,
     DC 1 1 144 0, DC 22 1 144 1, DC 1 1 145 0, DC 22 1 145 1,
     DC 1 1 148 0, DC 22 1 148 1, DC 1 1 159 0, DC 22 1 159 1],
    [DC 3 1 239 0, DC 6 1 239 0, DC 10 1 239 0, DC 15 1 239 0,
     DC 24 1 239 0, DC 31 1 239 0, DC 41 1 239 0, DC 56 1 239 1,
     DC 2 1 9 0, DC 9 1 9 0, DC 23 1 9 0, DC 40 1 9 1,
     DC 2 1 142 0, DC 9 1 142 0, DC 23 1 142 0, DC 40 1 142 1],
    [DC 3 1 9 0, DC 6 1 9 0, DC 10 1 9 0, DC 15 1 9 0,
     DC 24 1 9 0, DC 31 1 9 0, DC 41 1 9 0, DC 56 1 9 1,
     DC 3 1 142 0, DC 6 1 142 0, DC 10 1 142 0, DC 15 1 142 0,
     DC 24 1 142 0, DC 31 1 142 0, DC 41 1 142 0, DC 56 1 142 1],
    [DC 2 1 144 0, DC 9 1 144 0, DC 23 1 144 0, DC 40 1 144 1,
     DC 2 1 145 0, DC 9 1 145 0, DC 23 1 145 0, DC 40 1 145 1,
     DC 2 1 148 0, DC 9 1 148 0, DC 23 1 148 0, DC 40 1 148 1,
     DC 2 1 159 0, DC 9 1 159 0, DC 23 1 159 0, DC 40 1 159 1],
    [DC 3 1 144 0, DC 6 1 144 0, DC 10 1 144 0, DC 15 1 144 0,
     DC 24 1 144 0, DC 31 1 144 0, DC 41 1 144 0, DC 56 1 144 1,
     DC 3 1 145 0, DC 6 1 145 0, DC 10 1 145 0, DC 15 1 145 0,
     DC 24 1 145 0, DC 31 1 145 0, DC 41 1 145 0, DC 56 1 145 1],
    [DC 3 1 148 0, DC 6 1 148 0, DC 10 1 148 0, DC 15 1 148 0,
     DC 24 1 148 0, DC 31 1 148 0, DC 41 1 148 0, DC 56 1 148 1,
     DC 3 1 159 0, DC 6 1 159 0, DC 10 1 159 0, DC 15 1 159 0,
     DC 24 1 159 0, DC 31 1 159 0, DC 41 1 159 0, DC 56 1 159 1],
    [DC 0 1 171 1, DC 0 1 206 1, DC 0 1 215 1, DC 0 1 225 1,
     DC 0 1 236 1, DC 0 1 237 1, DC 188 0 0 0, DC 189 0 0 0,
     DC 193 0 0 0, DC 196 0 0 0, DC 200 0 0 0, DC 203 0 0 0,
     DC 209 0 0 0, DC 216 0 0 0, DC 224 0 0 0, DC 238 0 0 1],
    [DC 1 1 171 0, DC 22 1 171 1, DC 1 1 206 0, DC 22 1 206 1,
     DC 1 1 215 0, DC 22 1 215 1, DC 1 1 225 0, DC 22 1 225 1,
     DC 1 1 236 0, DC 22 1 236 1, DC 1 1 237 0, DC 22 1 237 1,
     DC 0 1 199 1, DC 0 1 207 1, DC 0 1 234 1, DC 0 1 235 1]]"

definition huff_decode_codes_13 :: "ngx_http_huff_decode_code_t list list" where
  \<comment> \<open>the states 182 to 195\<close>
  "huff_decode_codes_13 = [
    [DC 2 1 171 0, DC 9 1 171 0, DC 23 1 171 0, DC 40 1 171 1,
     DC 2 1 206 0, DC 9 1 206 0, DC 23 1 206 0, DC 40 1 206 1,
     DC 2 1 215 0, DC 9 1 215 0, DC 23 1 215 0, DC 40 1 215 1,
     DC 2 1 225 0, DC 9 1 225 0, DC 23 1 225 0, DC 40 1 225 1],
    [DC 3 1 171 0, DC 6 1 171 0, DC 10 1 171 0, DC 15 1 171 0,
     DC 24 1 171 0, DC 31 1 171 0, DC 41 1 171 0, DC 56 1 171 1,
     DC 3 1 206 0, DC 6 1 206 0, DC 10 1 206 0, DC 15 1 206 0,
     DC 24 1 206 0, DC 31 1 206 0, DC 41 1 206 0, DC 56 1 206 1],
    [DC 3 1 215 0, DC 6 1 215 0, DC 10 1 215 0, DC 15 1 215 0,
     DC 24 1 215 0, DC 31 1 215 0, DC 41 1 215 0, DC 56 1 215 1,
     DC 3 1 225 0, DC 6 1 225 0, DC 10 1 225 0, DC 15 1 225 0,
     DC 24 1 225 0, DC 31 1 225 0, DC 41 1 225 0, DC 56 1 225 1],
    [DC 2 1 236 0, DC 9 1 236 0, DC 23 1 236 0, DC 40 1 236 1,
     DC 2 1 237 0, DC 9 1 237 0, DC 23 1 237 0, DC 40 1 237 1,
     DC 1 1 199 0, DC 22 1 199 1, DC 1 1 207 0, DC 22 1 207 1,
     DC 1 1 234 0, DC 22 1 234 1, DC 1 1 235 0, DC 22 1 235 1],
    [DC 3 1 236 0, DC 6 1 236 0, DC 10 1 236 0, DC 15 1 236 0,
     DC 24 1 236 0, DC 31 1 236 0, DC 41 1 236 0, DC 56 1 236 1,
     DC 3 1 237 0, DC 6 1 237 0, DC 10 1 237 0, DC 15 1 237 0,
     DC 24 1 237 0, DC 31 1 237 0, DC 41 1 237 0, DC 56 1 237 1],
    [DC 2 1 199 0, DC 9 1 199 0, DC 23 1 199 0, DC 40 1 199 1,
     DC 2 1 207 0, DC 9 1 207 0, DC 23 1 207 0, DC 40 1 207 1,
     DC 2 1 234 0, DC 9 1 234 0, DC 23 1 234 0, DC 40 1 234 1,
     DC 2 1 235 0, DC 9 1 235 0, DC 23 1 235 0, DC 40 1 235 1],
    [DC 3 1 199 0, DC 6 1 199 0, DC 10 1 199 0, DC 15 1 199 0,
     DC 24 1 199 0, DC 31 1 199 0, DC 41 1 199 0, DC 56 1 199 1,
     DC 3 1 207 0, DC 6 1 207 0, DC 10 1 207 0, DC 15 1 207 0,
     DC 24 1 207 0, DC 31 1 207 0, DC 41 1 207 0, DC 56 1 207 1],
    [DC 3 1 234 0, DC 6 1 234 0, DC 10 1 234 0, DC 15 1 234 0,
     DC 24 1 234 0, DC 31 1 234 0, DC 41 1 234 0, DC 56 1 234 1,
     DC 3 1 235 0, DC 6 1 235 0, DC 10 1 235 0, DC 15 1 235 0,
     DC 24 1 235 0, DC 31 1 235 0, DC 41 1 235 0, DC 56 1 235 1],
    [DC 194 0 0 0, DC 195 0 0 0, DC 197 0 0 0, DC 198 0 0 0,
     DC 201 0 0 0, DC 202 0 0 0, DC 204 0 0 0, DC 205 0 0 0,
     DC 210 0 0 0, DC 213 0 0 0, DC 217 0 0 0, DC 220 0 0 0,
     DC 225 0 0 0, DC 231 0 0 0, DC 239 0 0 0, DC 246 0 0 1],
    [DC 0 1 192 1, DC 0 1 193 1, DC 0 1 200 1, DC 0 1 201 1,
     DC 0 1 202 1, DC 0 1 205 1, DC 0 1 210 1, DC 0 1 213 1,
     DC 0 1 218 1, DC 0 1 219 1, DC 0 1 238 1, DC 0 1 240 1,
     DC 0 1 242 1, DC 0 1 243 1, DC 0 1 255 1, DC 206 0 0 0],
    [DC 1 1 192 0, DC 22 1 192 1, DC 1 1 193 0, DC 22 1 193 1,
     DC 1 1 200 0, DC 22 1 200 1, DC 1 1 201 0, DC 22 1 201 1,
     DC 1 1 202 0, DC 22 1 202 1, DC 1 1 205 0, DC 22 1 205 1,
     DC 1 1 210 0, DC 22 1 210 1, DC 1 1 213 0, DC 22 1 213 1],
    [DC 2 1 192 0, DC 9 1 192 0, DC 23 1 192 0, DC 40 1 192 1,
     DC 2 1 193 0, DC 9 1 193 0, DC 23 1 193 0, DC 40 1 193 1,
     DC 2 1 200 0, DC 9 1 200 0, DC 23 1 200 0, DC 40 1 200 1,
     DC 2 1 201 0, DC 9 1 201 0, DC 23 1 201 0, DC 40 1 201 1],
    [DC 3 1 192 0, DC 6 1 192 0, DC 10 1 192 0, DC 15 1 192 0,
     DC 24 1 192 0, DC 31 1 192 0, DC 41 1 192 0, DC 56 1 192 1,
     DC 3 1 193 0, DC 6 1 193 0, DC 10 1 193 0, DC 15 1 193 0,
     DC 24 1 193 0, DC 31 1 193 0, DC 41 1 193 0, DC 56 1 193 1],
    [DC 3 1 200 0, DC 6 1 200 0, DC 10 1 200 0, DC 15 1 200 0,
     DC 24 1 200 0, DC 31 1 200 0, DC 41 1 200 0, DC 56 1 200 1,
     DC 3 1 201 0, DC 6 1 201 0, DC 10 1 201 0, DC 15 1 201 0,
     DC 24 1 201 0, DC 31 1 201 0, DC 41 1 201 0, DC 56 1 201 1]]"

definition huff_decode_codes_14 :: "ngx_http_huff_decode_code_t list list" where
  \<comment> \<open>the states 196 to 209\<close>
  "huff_decode_codes_14 = [
    [DC 2 1 202 0, DC 9 1 202 0, DC 23 1 202 0, DC 40 1 202 1,
     DC 2 1 205 0, DC 9 1 205 0, DC 23 1 205 0, DC 40 1 205 1,
     DC 2 1 210 0, DC 9 1 210 0, DC 23 1 210 0, DC 40 1 210 1,
     DC 2 1 213 0, DC 9 1 213 0, DC 23 1 213 0, DC 40 1 213 1],
    [DC 3 1 202 0, DC 6 1 202 0, DC 10 1 202 0, DC 15 1 202 0,
     DC 24 1 202 0, DC 31 1 202 0, DC 41 1 202 0, DC 56 1 202 1,
     DC 3 1 205 0, DC 6 1 205 0, DC 10 1 205 0, DC 15 1 205 0,
     DC 24 1 205 0, DC 31 1 205 0, DC 41 1 205 0, DC 56 1 205 1],
    [DC 3 1 210 0, DC 6 1 210 0, DC 10 1 210 0, DC 15 1 210 0,
     DC 24 1 210 0, DC 31 1 210 0, DC 41 1 210 0, DC 56 1 210 1,
     DC 3 1 213 0, DC 6 1 213 0, DC 10 1 213 0, DC 15 1 213 0,
     DC 24 1 213 0, DC 31 1 213 0, DC 41 1 213 0, DC 56 1 213 1],
    [DC 1 1 218 0, DC 22 1 218 1, DC 1 1 219 0, DC 22 1 219 1,
     DC 1 1 238 0, DC 22 1 238 1, DC 1 1 240 0, DC 22 1 240 1,
     DC 1 1 242 0, DC 22 1 242 1, DC 1 1 243 0, DC 22 1 243 1,
     DC 1 1 255 0, DC 22 1 255 1, DC 0 1 203 1, DC 0 1 204 1],
    [DC 2 1 218 0, DC 9 1 218 0, DC 23 1 218 0, DC 40 1 218 1,
     DC 2 1 219 0, DC 9 1 219 0, DC 23 1 219 0, DC 40 1 219 1,
     DC 2 1 238 0, DC 9 1 238 0, DC 23 1 238 0, DC 40 1 238 1,
     DC 2 1 240 0, DC 9 1 240 0, DC 23 1 240 0, DC 40 1 240 1],
    [DC 3 1 218 0, DC 6 1 218 0, DC 10 1 218 0, DC 15 1 218 0,
     DC 24 1 218 0, DC 31 1 218 0, DC 41 1 218 0, DC 56 1 218 1,
     DC 3 1 219 0, DC 6 1 219 0, DC 10 1 219 0, DC 15 1 219 0,
     DC 24 1 219 0, DC 31 1 219 0, DC 41 1 219 0, DC 56 1 219 1],
    [DC 3 1 238 0, DC 6 1 238 0, DC 10 1 238 0, DC 15 1 238 0,
     DC 24 1 238 0, DC 31 1 238 0, DC 41 1 238 0, DC 56 1 238 1,
     DC 3 1 240 0, DC 6 1 240 0, DC 10 1 240 0, DC 15 1 240 0,
     DC 24 1 240 0, DC 31 1 240 0, DC 41 1 240 0, DC 56 1 240 1],
    [DC 2 1 242 0, DC 9 1 242 0, DC 23 1 242 0, DC 40 1 242 1,
     DC 2 1 243 0, DC 9 1 243 0, DC 23 1 243 0, DC 40 1 243 1,
     DC 2 1 255 0, DC 9 1 255 0, DC 23 1 255 0, DC 40 1 255 1,
     DC 1 1 203 0, DC 22 1 203 1, DC 1 1 204 0, DC 22 1 204 1],
    [DC 3 1 242 0, DC 6 1 242 0, DC 10 1 242 0, DC 15 1 242 0,
     DC 24 1 242 0, DC 31 1 242 0, DC 41 1 242 0, DC 56 1 242 1,
     DC 3 1 243 0, DC 6 1 243 0, DC 10 1 243 0, DC 15 1 243 0,
     DC 24 1 243 0, DC 31 1 243 0, DC 41 1 243 0, DC 56 1 243 1],
    [DC 3 1 255 0, DC 6 1 255 0, DC 10 1 255 0, DC 15 1 255 0,
     DC 24 1 255 0, DC 31 1 255 0, DC 41 1 255 0, DC 56 1 255 1,
     DC 2 1 203 0, DC 9 1 203 0, DC 23 1 203 0, DC 40 1 203 1,
     DC 2 1 204 0, DC 9 1 204 0, DC 23 1 204 0, DC 40 1 204 1],
    [DC 3 1 203 0, DC 6 1 203 0, DC 10 1 203 0, DC 15 1 203 0,
     DC 24 1 203 0, DC 31 1 203 0, DC 41 1 203 0, DC 56 1 203 1,
     DC 3 1 204 0, DC 6 1 204 0, DC 10 1 204 0, DC 15 1 204 0,
     DC 24 1 204 0, DC 31 1 204 0, DC 41 1 204 0, DC 56 1 204 1],
    [DC 211 0 0 0, DC 212 0 0 0, DC 214 0 0 0, DC 215 0 0 0,
     DC 218 0 0 0, DC 219 0 0 0, DC 221 0 0 0, DC 222 0 0 0,
     DC 226 0 0 0, DC 228 0 0 0, DC 232 0 0 0, DC 235 0 0 0,
     DC 240 0 0 0, DC 243 0 0 0, DC 247 0 0 0, DC 250 0 0 1],
    [DC 0 1 211 1, DC 0 1 212 1, DC 0 1 214 1, DC 0 1 221 1,
     DC 0 1 222 1, DC 0 1 223 1, DC 0 1 241 1, DC 0 1 244 1,
     DC 0 1 245 1, DC 0 1 246 1, DC 0 1 247 1, DC 0 1 248 1,
     DC 0 1 250 1, DC 0 1 251 1, DC 0 1 252 1, DC 0 1 253 1],
    [DC 1 1 211 0, DC 22 1 211 1, DC 1 1 212 0, DC 22 1 212 1,
     DC 1 1 214 0, DC 22 1 214 1, DC 1 1 221 0, DC 22 1 221 1,
     DC 1 1 222 0, DC 22 1 222 1, DC 1 1 223 0, DC 22 1 223 1,
     DC 1 1 241 0, DC 22 1 241 1, DC 1 1 244 0, DC 22 1 244 1]]"

definition huff_decode_codes_15 :: "ngx_http_huff_decode_code_t list list" where
  \<comment> \<open>the states 210 to 223\<close>
  "huff_decode_codes_15 = [
    [DC 2 1 211 0, DC 9 1 211 0, DC 23 1 211 0, DC 40 1 211 1,
     DC 2 1 212 0, DC 9 1 212 0, DC 23 1 212 0, DC 40 1 212 1,
     DC 2 1 214 0, DC 9 1 214 0, DC 23 1 214 0, DC 40 1 214 1,
     DC 2 1 221 0, DC 9 1 221 0, DC 23 1 221 0, DC 40 1 221 1],
    [DC 3 1 211 0, DC 6 1 211 0, DC 10 1 211 0, DC 15 1 211 0,
     DC 24 1 211 0, DC 31 1 211 0, DC 41 1 211 0, DC 56 1 211 1,
     DC 3 1 212 0, DC 6 1 212 0, DC 10 1 212 0, DC 15 1 212 0,
     DC 24 1 212 0, DC 31 1 212 0, DC 41 1 212 0, DC 56 1 212 1],
    [DC 3 1 214 0, DC 6 1 214 0, DC 10 1 214 0, DC 15 1 214 0,
     DC 24 1 214 0, DC 31 1 214 0, DC 41 1 214 0, DC 56 1 214 1,
     DC 3 1 221 0, DC 6 1 221 0, DC 10 1 221 0, DC 15 1 221 0,
     DC 24 1 221 0, DC 31 1 221 0, DC 41 1 221 0, DC 56 1 221 1],
    [DC 2 1 222 0, DC 9 1 222 0, DC 23 1 222 0, DC 40 1 222 1,
     DC 2 1 223 0, DC 9 1 223 0, DC 23 1 223 0, DC 40 1 223 1,
     DC 2 1 241 0, DC 9 1 241 0, DC 23 1 241 0, DC 40 1 241 1,
     DC 2 1 244 0, DC 9 1 244 0, DC 23 1 244 0, DC 40 1 244 1],
    [DC 3 1 222 0, DC 6 1 222 0, DC 10 1 222 0, DC 15 1 222 0,
     DC 24 1 222 0, DC 31 1 222 0, DC 41 1 222 0, DC 56 1 222 1,
     DC 3 1 223 0, DC 6 1 223 0, DC 10 1 223 0, DC 15 1 223 0,
     DC 24 1 223 0, DC 31 1 223 0, DC 41 1 223 0, DC 56 1 223 1],
    [DC 3 1 241 0, DC 6 1 241 0, DC 10 1 241 0, DC 15 1 241 0,
     DC 24 1 241 0, DC 31 1 241 0, DC 41 1 241 0, DC 56 1 241 1,
     DC 3 1 244 0, DC 6 1 244 0, DC 10 1 244 0, DC 15 1 244 0,
     DC 24 1 244 0, DC 31 1 244 0, DC 41 1 244 0, DC 56 1 244 1],
    [DC 1 1 245 0, DC 22 1 245 1, DC 1 1 246 0, DC 22 1 246 1,
     DC 1 1 247 0, DC 22 1 247 1, DC 1 1 248 0, DC 22 1 248 1,
     DC 1 1 250 0, DC 22 1 250 1, DC 1 1 251 0, DC 22 1 251 1,
     DC 1 1 252 0, DC 22 1 252 1, DC 1 1 253 0, DC 22 1 253 1],
    [DC 2 1 245 0, DC 9 1 245 0, DC 23 1 245 0, DC 40 1 245 1,
     DC 2 1 246 0, DC 9 1 246 0, DC 23 1 246 0, DC 40 1 246 1,
     DC 2 1 247 0, DC 9 1 247 0, DC 23 1 247 0, DC 40 1 247 1,
     DC 2 1 248 0, DC 9 1 248 0, DC 23 1 248 0, DC 40 1 248 1],
    [DC 3 1 245 0, DC 6 1 245 0, DC 10 1 245 0, DC 15 1 245 0,
     DC 24 1 245 0, DC 31 1 245 0, DC 41 1 245 0, DC 56 1 245 1,
     DC 3 1 246 0, DC 6 1 246 0, DC 10 1 246 0, DC 15 1 246 0,
     DC 24 1 246 0, DC 31 1 246 0, DC 41 1 246 0, DC 56 1 246 1],
    [DC 3 1 247 0, DC 6 1 247 0, DC 10 1 247 0, DC 15 1 247 0,
     DC 24 1 247 0, DC 31 1 247 0, DC 41 1 247 0, DC 56 1 247 1,
     DC 3 1 248 0, DC 6 1 248 0, DC 10 1 248 0, DC 15 1 248 0,
     DC 24 1 248 0, DC 31 1 248 0, DC 41 1 248 0, DC 56 1 248 1],
    [DC 2 1 250 0, DC 9 1 250 0, DC 23 1 250 0, DC 40 1 250 1,
     DC 2 1 251 0, DC 9 1 251 0, DC 23 1 251 0, DC 40 1 251 1,
     DC 2 1 252 0, DC 9 1 252 0, DC 23 1 252 0, DC 40 1 252 1,
     DC 2 1 253 0, DC 9 1 253 0, DC 23 1 253 0, DC 40 1 253 1],
    [DC 3 1 250 0, DC 6 1 250 0, DC 10 1 250 0, DC 15 1 250 0,
     DC 24 1 250 0, DC 31 1 250 0, DC 41 1 250 0, DC 56 1 250 1,
     DC 3 1 251 0, DC 6 1 251 0, DC 10 1 251 0, DC 15 1 251 0,
     DC 24 1 251 0, DC 31 1 251 0, DC 41 1 251 0, DC 56 1 251 1],
    [DC 3 1 252 0, DC 6 1 252 0, DC 10 1 252 0, DC 15 1 252 0,
     DC 24 1 252 0, DC 31 1 252 0, DC 41 1 252 0, DC 56 1 252 1,
     DC 3 1 253 0, DC 6 1 253 0, DC 10 1 253 0, DC 15 1 253 0,
     DC 24 1 253 0, DC 31 1 253 0, DC 41 1 253 0, DC 56 1 253 1],
    [DC 0 1 254 1, DC 227 0 0 0, DC 229 0 0 0, DC 230 0 0 0,
     DC 233 0 0 0, DC 234 0 0 0, DC 236 0 0 0, DC 237 0 0 0,
     DC 241 0 0 0, DC 242 0 0 0, DC 244 0 0 0, DC 245 0 0 0,
     DC 248 0 0 0, DC 249 0 0 0, DC 251 0 0 0, DC 252 0 0 1]]"

definition huff_decode_codes_16 :: "ngx_http_huff_decode_code_t list list" where
  \<comment> \<open>the states 224 to 237\<close>
  "huff_decode_codes_16 = [
    [DC 1 1 254 0, DC 22 1 254 1, DC 0 1 2 1, DC 0 1 3 1,
     DC 0 1 4 1, DC 0 1 5 1, DC 0 1 6 1, DC 0 1 7 1,
     DC 0 1 8 1, DC 0 1 11 1, DC 0 1 12 1, DC 0 1 14 1,
     DC 0 1 15 1, DC 0 1 16 1, DC 0 1 17 1, DC 0 1 18 1],
    [DC 2 1 254 0, DC 9 1 254 0, DC 23 1 254 0, DC 40 1 254 1,
     DC 1 1 2 0, DC 22 1 2 1, DC 1 1 3 0, DC 22 1 3 1,
     DC 1 1 4 0, DC 22 1 4 1, DC 1 1 5 0, DC 22 1 5 1,
     DC 1 1 6 0, DC 22 1 6 1, DC 1 1 7 0, DC 22 1 7 1],
    [DC 3 1 254 0, DC 6 1 254 0, DC 10 1 254 0, DC 15 1 254 0,
     DC 24 1 254 0, DC 31 1 254 0, DC 41 1 254 0, DC 56 1 254 1,
     DC 2 1 2 0, DC 9 1 2 0, DC 23 1 2 0, DC 40 1 2 1,
     DC 2 1 3 0, DC 9 1 3 0, DC 23 1 3 0, DC 40 1 3 1],
    [DC 3 1 2 0, DC 6 1 2 0, DC 10 1 2 0, DC 15 1 2 0,
     DC 24 1 2 0, DC 31 1 2 0, DC 41 1 2 0, DC 56 1 2 1,
     DC 3 1 3 0, DC 6 1 3 0, DC 10 1 3 0, DC 15 1 3 0,
     DC 24 1 3 0, DC 31 1 3 0, DC 41 1 3 0, DC 56 1 3 1],
    [DC 2 1 4 0, DC 9 1 4 0, DC 23 1 4 0, DC 40 1 4 1,
     DC 2 1 5 0, DC 9 1 5 0, DC 23 1 5 0, DC 40 1 5 1,
     DC 2 1 6 0, DC 9 1 6 0, DC 23 1 6 0, DC 40 1 6 1,
     DC 2 1 7 0, DC 9 1 7 0, DC 23 1 7 0, DC 40 1 7 1],
    [DC 3 1 4 0, DC 6 1 4 0, DC 10 1 4 0, DC 15 1 4 0,
     DC 24 1 4 0, DC 31 1 4 0, DC 41 1 4 0, DC 56 1 4 1,
     DC 3 1 5 0, DC 6 1 5 0, DC 10 1 5 0, DC 15 1 5 0,
     DC 24 1 5 0, DC 31 1 5 0, DC 41 1 5 0, DC 56 1 5 1],
    [DC 3 1 6 0, DC 6 1 6 0, DC 10 1 6 0, DC 15 1 6 0,
     DC 24 1 6 0, DC 31 1 6 0, DC 41 1 6 0, DC 56 1 6 1,
     DC 3 1 7 0, DC 6 1 7 0, DC 10 1 7 0, DC 15 1 7 0,
     DC 24 1 7 0, DC 31 1 7 0, DC 41 1 7 0, DC 56 1 7 1],
    [DC 1 1 8 0, DC 22 1 8 1, DC 1 1 11 0, DC 22 1 11 1,
     DC 1 1 12 0, DC 22 1 12 1, DC 1 1 14 0, DC 22 1 14 1,
     DC 1 1 15 0, DC 22 1 15 1, DC 1 1 16 0, DC 22 1 16 1,
     DC 1 1 17 0, DC 22 1 17 1, DC 1 1 18 0, DC 22 1 18 1],
    [DC 2 1 8 0, DC 9 1 8 0, DC 23 1 8 0, DC 40 1 8 1,
     DC 2 1 11 0, DC 9 1 11 0, DC 23 1 11 0, DC 40 1 11 1,
     DC 2 1 12 0, DC 9 1 12 0, DC 23 1 12 0, DC 40 1 12 1,
     DC 2 1 14 0, DC 9 1 14 0, DC 23 1 14 0, DC 40 1 14 1],
    [DC 3 1 8 0, DC 6 1 8 0, DC 10 1 8 0, DC 15 1 8 0,
     DC 24 1 8 0, DC 31 1 8 0, DC 41 1 8 0, DC 56 1 8 1,
     DC 3 1 11 0, DC 6 1 11 0, DC 10 1 11 0, DC 15 1 11 0,
     DC 24 1 11 0, DC 31 1 11 0, DC 41 1 11 0, DC 56 1 11 1],
    [DC 3 1 12 0, DC 6 1 12 0, DC 10 1 12 0, DC 15 1 12 0,
     DC 24 1 12 0, DC 31 1 12 0, DC 41 1 12 0, DC 56 1 12 1,
     DC 3 1 14 0, DC 6 1 14 0, DC 10 1 14 0, DC 15 1 14 0,
     DC 24 1 14 0, DC 31 1 14 0, DC 41 1 14 0, DC 56 1 14 1],
    [DC 2 1 15 0, DC 9 1 15 0, DC 23 1 15 0, DC 40 1 15 1,
     DC 2 1 16 0, DC 9 1 16 0, DC 23 1 16 0, DC 40 1 16 1,
     DC 2 1 17 0, DC 9 1 17 0, DC 23 1 17 0, DC 40 1 17 1,
     DC 2 1 18 0, DC 9 1 18 0, DC 23 1 18 0, DC 40 1 18 1],
    [DC 3 1 15 0, DC 6 1 15 0, DC 10 1 15 0, DC 15 1 15 0,
     DC 24 1 15 0, DC 31 1 15 0, DC 41 1 15 0, DC 56 1 15 1,
     DC 3 1 16 0, DC 6 1 16 0, DC 10 1 16 0, DC 15 1 16 0,
     DC 24 1 16 0, DC 31 1 16 0, DC 41 1 16 0, DC 56 1 16 1],
    [DC 3 1 17 0, DC 6 1 17 0, DC 10 1 17 0, DC 15 1 17 0,
     DC 24 1 17 0, DC 31 1 17 0, DC 41 1 17 0, DC 56 1 17 1,
     DC 3 1 18 0, DC 6 1 18 0, DC 10 1 18 0, DC 15 1 18 0,
     DC 24 1 18 0, DC 31 1 18 0, DC 41 1 18 0, DC 56 1 18 1]]"

definition huff_decode_codes_17 :: "ngx_http_huff_decode_code_t list list" where
  \<comment> \<open>the states 238 to 251\<close>
  "huff_decode_codes_17 = [
    [DC 0 1 19 1, DC 0 1 20 1, DC 0 1 21 1, DC 0 1 23 1,
     DC 0 1 24 1, DC 0 1 25 1, DC 0 1 26 1, DC 0 1 27 1,
     DC 0 1 28 1, DC 0 1 29 1, DC 0 1 30 1, DC 0 1 31 1,
     DC 0 1 127 1, DC 0 1 220 1, DC 0 1 249 1, DC 253 0 0 1],
    [DC 1 1 19 0, DC 22 1 19 1, DC 1 1 20 0, DC 22 1 20 1,
     DC 1 1 21 0, DC 22 1 21 1, DC 1 1 23 0, DC 22 1 23 1,
     DC 1 1 24 0, DC 22 1 24 1, DC 1 1 25 0, DC 22 1 25 1,
     DC 1 1 26 0, DC 22 1 26 1, DC 1 1 27 0, DC 22 1 27 1],
    [DC 2 1 19 0, DC 9 1 19 0, DC 23 1 19 0, DC 40 1 19 1,
     DC 2 1 20 0, DC 9 1 20 0, DC 23 1 20 0, DC 40 1 20 1,
     DC 2 1 21 0, DC 9 1 21 0, DC 23 1 21 0, DC 40 1 21 1,
     DC 2 1 23 0, DC 9 1 23 0, DC 23 1 23 0, DC 40 1 23 1],
    [DC 3 1 19 0, DC 6 1 19 0, DC 10 1 19 0, DC 15 1 19 0,
     DC 24 1 19 0, DC 31 1 19 0, DC 41 1 19 0, DC 56 1 19 1,
     DC 3 1 20 0, DC 6 1 20 0, DC 10 1 20 0, DC 15 1 20 0,
     DC 24 1 20 0, DC 31 1 20 0, DC 41 1 20 0, DC 56 1 20 1],
    [DC 3 1 21 0, DC 6 1 21 0, DC 10 1 21 0, DC 15 1 21 0,
     DC 24 1 21 0, DC 31 1 21 0, DC 41 1 21 0, DC 56 1 21 1,
     DC 3 1 23 0, DC 6 1 23 0, DC 10 1 23 0, DC 15 1 23 0,
     DC 24 1 23 0, DC 31 1 23 0, DC 41 1 23 0, DC 56 1 23 1],
    [DC 2 1 24 0, DC 9 1 24 0, DC 23 1 24 0, DC 40 1 24 1,
     DC 2 1 25 0, DC 9 1 25 0, DC 23 1 25 0, DC 40 1 25 1,
     DC 2 1 26 0, DC 9 1 26 0, DC 23 1 26 0, DC 40 1 26 1,
     DC 2 1 27 0, DC 9 1 27 0, DC 23 1 27 0, DC 40 1 27 1],
    [DC 3 1 24 0, DC 6 1 24 0, DC 10 1 24 0, DC 15 1 24 0,
     DC 24 1 24 0, DC 31 1 24 0, DC 41 1 24 0, DC 56 1 24 1,
     DC 3 1 25 0, DC 6 1 25 0, DC 10 1 25 0, DC 15 1 25 0,
     DC 24 1 25 0, DC 31 1 25 0, DC 41 1 25 0, DC 56 1 25 1],
    [DC 3 1 26 0, DC 6 1 26 0, DC 10 1 26 0, DC 15 1 26 0,
     DC 24 1 26 0, DC 31 1 26 0, DC 41 1 26 0, DC 56 1 26 1,
     DC 3 1 27 0, DC 6 1 27 0, DC 10 1 27 0, DC 15 1 27 0,
     DC 24 1 27 0, DC 31 1 27 0, DC 41 1 27 0, DC 56 1 27 1],
    [DC 1 1 28 0, DC 22 1 28 1, DC 1 1 29 0, DC 22 1 29 1,
     DC 1 1 30 0, DC 22 1 30 1, DC 1 1 31 0, DC 22 1 31 1,
     DC 1 1 127 0, DC 22 1 127 1, DC 1 1 220 0, DC 22 1 220 1,
     DC 1 1 249 0, DC 22 1 249 1, DC 254 0 0 0, DC 255 0 0 1],
    [DC 2 1 28 0, DC 9 1 28 0, DC 23 1 28 0, DC 40 1 28 1,
     DC 2 1 29 0, DC 9 1 29 0, DC 23 1 29 0, DC 40 1 29 1,
     DC 2 1 30 0, DC 9 1 30 0, DC 23 1 30 0, DC 40 1 30 1,
     DC 2 1 31 0, DC 9 1 31 0, DC 23 1 31 0, DC 40 1 31 1],
    [DC 3 1 28 0, DC 6 1 28 0, DC 10 1 28 0, DC 15 1 28 0,
     DC 24 1 28 0, DC 31 1 28 0, DC 41 1 28 0, DC 56 1 28 1,
     DC 3 1 29 0, DC 6 1 29 0, DC 10 1 29 0, DC 15 1 29 0,
     DC 24 1 29 0, DC 31 1 29 0, DC 41 1 29 0, DC 56 1 29 1],
    [DC 3 1 30 0, DC 6 1 30 0, DC 10 1 30 0, DC 15 1 30 0,
     DC 24 1 30 0, DC 31 1 30 0, DC 41 1 30 0, DC 56 1 30 1,
     DC 3 1 31 0, DC 6 1 31 0, DC 10 1 31 0, DC 15 1 31 0,
     DC 24 1 31 0, DC 31 1 31 0, DC 41 1 31 0, DC 56 1 31 1],
    [DC 2 1 127 0, DC 9 1 127 0, DC 23 1 127 0, DC 40 1 127 1,
     DC 2 1 220 0, DC 9 1 220 0, DC 23 1 220 0, DC 40 1 220 1,
     DC 2 1 249 0, DC 9 1 249 0, DC 23 1 249 0, DC 40 1 249 1,
     DC 0 1 10 1, DC 0 1 13 1, DC 0 1 22 1, DC 250 0 0 0],
    [DC 3 1 127 0, DC 6 1 127 0, DC 10 1 127 0, DC 15 1 127 0,
     DC 24 1 127 0, DC 31 1 127 0, DC 41 1 127 0, DC 56 1 127 1,
     DC 3 1 220 0, DC 6 1 220 0, DC 10 1 220 0, DC 15 1 220 0,
     DC 24 1 220 0, DC 31 1 220 0, DC 41 1 220 0, DC 56 1 220 1]]"

definition huff_decode_codes_18 :: "ngx_http_huff_decode_code_t list list" where
  \<comment> \<open>the states 252 to 255\<close>
  "huff_decode_codes_18 = [
    [DC 3 1 249 0, DC 6 1 249 0, DC 10 1 249 0, DC 15 1 249 0,
     DC 24 1 249 0, DC 31 1 249 0, DC 41 1 249 0, DC 56 1 249 1,
     DC 1 1 10 0, DC 22 1 10 1, DC 1 1 13 0, DC 22 1 13 1,
     DC 1 1 22 0, DC 22 1 22 1, DC 252 0 0 0, DC 252 0 0 0],
    [DC 2 1 10 0, DC 9 1 10 0, DC 23 1 10 0, DC 40 1 10 1,
     DC 2 1 13 0, DC 9 1 13 0, DC 23 1 13 0, DC 40 1 13 1,
     DC 2 1 22 0, DC 9 1 22 0, DC 23 1 22 0, DC 40 1 22 1,
     DC 253 0 0 0, DC 253 0 0 0, DC 253 0 0 0, DC 253 0 0 0],
    [DC 3 1 10 0, DC 6 1 10 0, DC 10 1 10 0, DC 15 1 10 0,
     DC 24 1 10 0, DC 31 1 10 0, DC 41 1 10 0, DC 56 1 10 1,
     DC 3 1 13 0, DC 6 1 13 0, DC 10 1 13 0, DC 15 1 13 0,
     DC 24 1 13 0, DC 31 1 13 0, DC 41 1 13 0, DC 56 1 13 1],
    [DC 3 1 22 0, DC 6 1 22 0, DC 10 1 22 0, DC 15 1 22 0,
     DC 24 1 22 0, DC 31 1 22 0, DC 41 1 22 0, DC 56 1 22 1,
     DC 255 0 0 0, DC 255 0 0 0, DC 255 0 0 0, DC 255 0 0 0,
     DC 255 0 0 0, DC 255 0 0 0, DC 255 0 0 0, DC 255 0 0 0]]"

definition ngx_http_huff_decode_codes :: "ngx_http_huff_decode_code_t list list" where
  "ngx_http_huff_decode_codes =
     huff_decode_codes_0 @ huff_decode_codes_1 @ huff_decode_codes_2 @ huff_decode_codes_3 @
     huff_decode_codes_4 @ huff_decode_codes_5 @ huff_decode_codes_6 @ huff_decode_codes_7 @
     huff_decode_codes_8 @ huff_decode_codes_9 @ huff_decode_codes_10 @ huff_decode_codes_11 @
     huff_decode_codes_12 @ huff_decode_codes_13 @ huff_decode_codes_14 @ huff_decode_codes_15 @
     huff_decode_codes_16 @ huff_decode_codes_17 @ huff_decode_codes_18"

section \<open>The encoder's codes\<close>

definition ngx_http_huff_encode_table :: "ngx_http_huff_encode_code_t list" where
  "ngx_http_huff_encode_table = [
    EC 0x1ff8 13, EC 0x7fffd8 23, EC 0xfffffe2 28, EC 0xfffffe3 28, EC 0xfffffe4 28, EC 0xfffffe5 28,
    EC 0xfffffe6 28, EC 0xfffffe7 28, EC 0xfffffe8 28, EC 0xffffea 24, EC 0x3ffffffc 30, EC 0xfffffe9 28,
    EC 0xfffffea 28, EC 0x3ffffffd 30, EC 0xfffffeb 28, EC 0xfffffec 28, EC 0xfffffed 28, EC 0xfffffee 28,
    EC 0xfffffef 28, EC 0xffffff0 28, EC 0xffffff1 28, EC 0xffffff2 28, EC 0x3ffffffe 30, EC 0xffffff3 28,
    EC 0xffffff4 28, EC 0xffffff5 28, EC 0xffffff6 28, EC 0xffffff7 28, EC 0xffffff8 28, EC 0xffffff9 28,
    EC 0xffffffa 28, EC 0xffffffb 28, EC 0x14 6, EC 0x3f8 10, EC 0x3f9 10, EC 0xffa 12,
    EC 0x1ff9 13, EC 0x15 6, EC 0xf8 8, EC 0x7fa 11, EC 0x3fa 10, EC 0x3fb 10,
    EC 0xf9 8, EC 0x7fb 11, EC 0xfa 8, EC 0x16 6, EC 0x17 6, EC 0x18 6,
    EC 0x0 5, EC 0x1 5, EC 0x2 5, EC 0x19 6, EC 0x1a 6, EC 0x1b 6,
    EC 0x1c 6, EC 0x1d 6, EC 0x1e 6, EC 0x1f 6, EC 0x5c 7, EC 0xfb 8,
    EC 0x7ffc 15, EC 0x20 6, EC 0xffb 12, EC 0x3fc 10, EC 0x1ffa 13, EC 0x21 6,
    EC 0x5d 7, EC 0x5e 7, EC 0x5f 7, EC 0x60 7, EC 0x61 7, EC 0x62 7,
    EC 0x63 7, EC 0x64 7, EC 0x65 7, EC 0x66 7, EC 0x67 7, EC 0x68 7,
    EC 0x69 7, EC 0x6a 7, EC 0x6b 7, EC 0x6c 7, EC 0x6d 7, EC 0x6e 7,
    EC 0x6f 7, EC 0x70 7, EC 0x71 7, EC 0x72 7, EC 0xfc 8, EC 0x73 7,
    EC 0xfd 8, EC 0x1ffb 13, EC 0x7fff0 19, EC 0x1ffc 13, EC 0x3ffc 14, EC 0x22 6,
    EC 0x7ffd 15, EC 0x3 5, EC 0x23 6, EC 0x4 5, EC 0x24 6, EC 0x5 5,
    EC 0x25 6, EC 0x26 6, EC 0x27 6, EC 0x6 5, EC 0x74 7, EC 0x75 7,
    EC 0x28 6, EC 0x29 6, EC 0x2a 6, EC 0x7 5, EC 0x2b 6, EC 0x76 7,
    EC 0x2c 6, EC 0x8 5, EC 0x9 5, EC 0x2d 6, EC 0x77 7, EC 0x78 7,
    EC 0x79 7, EC 0x7a 7, EC 0x7b 7, EC 0x7ffe 15, EC 0x7fc 11, EC 0x3ffd 14,
    EC 0x1ffd 13, EC 0xffffffc 28, EC 0xfffe6 20, EC 0x3fffd2 22, EC 0xfffe7 20, EC 0xfffe8 20,
    EC 0x3fffd3 22, EC 0x3fffd4 22, EC 0x3fffd5 22, EC 0x7fffd9 23, EC 0x3fffd6 22, EC 0x7fffda 23,
    EC 0x7fffdb 23, EC 0x7fffdc 23, EC 0x7fffdd 23, EC 0x7fffde 23, EC 0xffffeb 24, EC 0x7fffdf 23,
    EC 0xffffec 24, EC 0xffffed 24, EC 0x3fffd7 22, EC 0x7fffe0 23, EC 0xffffee 24, EC 0x7fffe1 23,
    EC 0x7fffe2 23, EC 0x7fffe3 23, EC 0x7fffe4 23, EC 0x1fffdc 21, EC 0x3fffd8 22, EC 0x7fffe5 23,
    EC 0x3fffd9 22, EC 0x7fffe6 23, EC 0x7fffe7 23, EC 0xffffef 24, EC 0x3fffda 22, EC 0x1fffdd 21,
    EC 0xfffe9 20, EC 0x3fffdb 22, EC 0x3fffdc 22, EC 0x7fffe8 23, EC 0x7fffe9 23, EC 0x1fffde 21,
    EC 0x7fffea 23, EC 0x3fffdd 22, EC 0x3fffde 22, EC 0xfffff0 24, EC 0x1fffdf 21, EC 0x3fffdf 22,
    EC 0x7fffeb 23, EC 0x7fffec 23, EC 0x1fffe0 21, EC 0x1fffe1 21, EC 0x3fffe0 22, EC 0x1fffe2 21,
    EC 0x7fffed 23, EC 0x3fffe1 22, EC 0x7fffee 23, EC 0x7fffef 23, EC 0xfffea 20, EC 0x3fffe2 22,
    EC 0x3fffe3 22, EC 0x3fffe4 22, EC 0x7ffff0 23, EC 0x3fffe5 22, EC 0x3fffe6 22, EC 0x7ffff1 23,
    EC 0x3ffffe0 26, EC 0x3ffffe1 26, EC 0xfffeb 20, EC 0x7fff1 19, EC 0x3fffe7 22, EC 0x7ffff2 23,
    EC 0x3fffe8 22, EC 0x1ffffec 25, EC 0x3ffffe2 26, EC 0x3ffffe3 26, EC 0x3ffffe4 26, EC 0x7ffffde 27,
    EC 0x7ffffdf 27, EC 0x3ffffe5 26, EC 0xfffff1 24, EC 0x1ffffed 25, EC 0x7fff2 19, EC 0x1fffe3 21,
    EC 0x3ffffe6 26, EC 0x7ffffe0 27, EC 0x7ffffe1 27, EC 0x3ffffe7 26, EC 0x7ffffe2 27, EC 0xfffff2 24,
    EC 0x1fffe4 21, EC 0x1fffe5 21, EC 0x3ffffe8 26, EC 0x3ffffe9 26, EC 0xffffffd 28, EC 0x7ffffe3 27,
    EC 0x7ffffe4 27, EC 0x7ffffe5 27, EC 0xfffec 20, EC 0xfffff3 24, EC 0xfffed 20, EC 0x1fffe6 21,
    EC 0x3fffe9 22, EC 0x1fffe7 21, EC 0x1fffe8 21, EC 0x7ffff3 23, EC 0x3fffea 22, EC 0x3fffeb 22,
    EC 0x1ffffee 25, EC 0x1ffffef 25, EC 0xfffff4 24, EC 0xfffff5 24, EC 0x3ffffea 26, EC 0x7ffff4 23,
    EC 0x3ffffeb 26, EC 0x7ffffe6 27, EC 0x3ffffec 26, EC 0x3ffffed 26, EC 0x7ffffe7 27, EC 0x7ffffe8 27,
    EC 0x7ffffe9 27, EC 0x7ffffea 27, EC 0x7ffffeb 27, EC 0xffffffe 28, EC 0x7ffffec 27, EC 0x7ffffed 27,
    EC 0x7ffffee 27, EC 0x7ffffef 27, EC 0x7fffff0 27, EC 0x3ffffee 26]"

definition ngx_http_huff_encode_table_lc :: "ngx_http_huff_encode_code_t list" where
  "ngx_http_huff_encode_table_lc = [
    EC 0x1ff8 13, EC 0x7fffd8 23, EC 0xfffffe2 28, EC 0xfffffe3 28, EC 0xfffffe4 28, EC 0xfffffe5 28,
    EC 0xfffffe6 28, EC 0xfffffe7 28, EC 0xfffffe8 28, EC 0xffffea 24, EC 0x3ffffffc 30, EC 0xfffffe9 28,
    EC 0xfffffea 28, EC 0x3ffffffd 30, EC 0xfffffeb 28, EC 0xfffffec 28, EC 0xfffffed 28, EC 0xfffffee 28,
    EC 0xfffffef 28, EC 0xffffff0 28, EC 0xffffff1 28, EC 0xffffff2 28, EC 0x3ffffffe 30, EC 0xffffff3 28,
    EC 0xffffff4 28, EC 0xffffff5 28, EC 0xffffff6 28, EC 0xffffff7 28, EC 0xffffff8 28, EC 0xffffff9 28,
    EC 0xffffffa 28, EC 0xffffffb 28, EC 0x14 6, EC 0x3f8 10, EC 0x3f9 10, EC 0xffa 12,
    EC 0x1ff9 13, EC 0x15 6, EC 0xf8 8, EC 0x7fa 11, EC 0x3fa 10, EC 0x3fb 10,
    EC 0xf9 8, EC 0x7fb 11, EC 0xfa 8, EC 0x16 6, EC 0x17 6, EC 0x18 6,
    EC 0x0 5, EC 0x1 5, EC 0x2 5, EC 0x19 6, EC 0x1a 6, EC 0x1b 6,
    EC 0x1c 6, EC 0x1d 6, EC 0x1e 6, EC 0x1f 6, EC 0x5c 7, EC 0xfb 8,
    EC 0x7ffc 15, EC 0x20 6, EC 0xffb 12, EC 0x3fc 10, EC 0x1ffa 13, EC 0x3 5,
    EC 0x23 6, EC 0x4 5, EC 0x24 6, EC 0x5 5, EC 0x25 6, EC 0x26 6,
    EC 0x27 6, EC 0x6 5, EC 0x74 7, EC 0x75 7, EC 0x28 6, EC 0x29 6,
    EC 0x2a 6, EC 0x7 5, EC 0x2b 6, EC 0x76 7, EC 0x2c 6, EC 0x8 5,
    EC 0x9 5, EC 0x2d 6, EC 0x77 7, EC 0x78 7, EC 0x79 7, EC 0x7a 7,
    EC 0x7b 7, EC 0x1ffb 13, EC 0x7fff0 19, EC 0x1ffc 13, EC 0x3ffc 14, EC 0x22 6,
    EC 0x7ffd 15, EC 0x3 5, EC 0x23 6, EC 0x4 5, EC 0x24 6, EC 0x5 5,
    EC 0x25 6, EC 0x26 6, EC 0x27 6, EC 0x6 5, EC 0x74 7, EC 0x75 7,
    EC 0x28 6, EC 0x29 6, EC 0x2a 6, EC 0x7 5, EC 0x2b 6, EC 0x76 7,
    EC 0x2c 6, EC 0x8 5, EC 0x9 5, EC 0x2d 6, EC 0x77 7, EC 0x78 7,
    EC 0x79 7, EC 0x7a 7, EC 0x7b 7, EC 0x7ffe 15, EC 0x7fc 11, EC 0x3ffd 14,
    EC 0x1ffd 13, EC 0xffffffc 28, EC 0xfffe6 20, EC 0x3fffd2 22, EC 0xfffe7 20, EC 0xfffe8 20,
    EC 0x3fffd3 22, EC 0x3fffd4 22, EC 0x3fffd5 22, EC 0x7fffd9 23, EC 0x3fffd6 22, EC 0x7fffda 23,
    EC 0x7fffdb 23, EC 0x7fffdc 23, EC 0x7fffdd 23, EC 0x7fffde 23, EC 0xffffeb 24, EC 0x7fffdf 23,
    EC 0xffffec 24, EC 0xffffed 24, EC 0x3fffd7 22, EC 0x7fffe0 23, EC 0xffffee 24, EC 0x7fffe1 23,
    EC 0x7fffe2 23, EC 0x7fffe3 23, EC 0x7fffe4 23, EC 0x1fffdc 21, EC 0x3fffd8 22, EC 0x7fffe5 23,
    EC 0x3fffd9 22, EC 0x7fffe6 23, EC 0x7fffe7 23, EC 0xffffef 24, EC 0x3fffda 22, EC 0x1fffdd 21,
    EC 0xfffe9 20, EC 0x3fffdb 22, EC 0x3fffdc 22, EC 0x7fffe8 23, EC 0x7fffe9 23, EC 0x1fffde 21,
    EC 0x7fffea 23, EC 0x3fffdd 22, EC 0x3fffde 22, EC 0xfffff0 24, EC 0x1fffdf 21, EC 0x3fffdf 22,
    EC 0x7fffeb 23, EC 0x7fffec 23, EC 0x1fffe0 21, EC 0x1fffe1 21, EC 0x3fffe0 22, EC 0x1fffe2 21,
    EC 0x7fffed 23, EC 0x3fffe1 22, EC 0x7fffee 23, EC 0x7fffef 23, EC 0xfffea 20, EC 0x3fffe2 22,
    EC 0x3fffe3 22, EC 0x3fffe4 22, EC 0x7ffff0 23, EC 0x3fffe5 22, EC 0x3fffe6 22, EC 0x7ffff1 23,
    EC 0x3ffffe0 26, EC 0x3ffffe1 26, EC 0xfffeb 20, EC 0x7fff1 19, EC 0x3fffe7 22, EC 0x7ffff2 23,
    EC 0x3fffe8 22, EC 0x1ffffec 25, EC 0x3ffffe2 26, EC 0x3ffffe3 26, EC 0x3ffffe4 26, EC 0x7ffffde 27,
    EC 0x7ffffdf 27, EC 0x3ffffe5 26, EC 0xfffff1 24, EC 0x1ffffed 25, EC 0x7fff2 19, EC 0x1fffe3 21,
    EC 0x3ffffe6 26, EC 0x7ffffe0 27, EC 0x7ffffe1 27, EC 0x3ffffe7 26, EC 0x7ffffe2 27, EC 0xfffff2 24,
    EC 0x1fffe4 21, EC 0x1fffe5 21, EC 0x3ffffe8 26, EC 0x3ffffe9 26, EC 0xffffffd 28, EC 0x7ffffe3 27,
    EC 0x7ffffe4 27, EC 0x7ffffe5 27, EC 0xfffec 20, EC 0xfffff3 24, EC 0xfffed 20, EC 0x1fffe6 21,
    EC 0x3fffe9 22, EC 0x1fffe7 21, EC 0x1fffe8 21, EC 0x7ffff3 23, EC 0x3fffea 22, EC 0x3fffeb 22,
    EC 0x1ffffee 25, EC 0x1ffffef 25, EC 0xfffff4 24, EC 0xfffff5 24, EC 0x3ffffea 26, EC 0x7ffff4 23,
    EC 0x3ffffeb 26, EC 0x7ffffe6 27, EC 0x3ffffec 26, EC 0x3ffffed 26, EC 0x7ffffe7 27, EC 0x7ffffe8 27,
    EC 0x7ffffe9 27, EC 0x7ffffea 27, EC 0x7ffffeb 27, EC 0xffffffe 28, EC 0x7ffffec 27, EC 0x7ffffed 27,
    EC 0x7ffffee 27, EC 0x7ffffef 27, EC 0x7fffff0 27, EC 0x3ffffee 26]"

end
