(* ===== verification/Huffman_Check.thy ===== *)
theory Huffman_Check
  imports Huffman_Tables
begin

text \<open>
  The decoder's transition table against the code table. A state stands for the bits read since the
  last complete symbol; \<open>prefix_of\<close> gives them for every state, and the lemmas at the end say that
  every one of the 4096 transitions moves consistently with the codes: it appends the four bits and,
  if that completes a symbol, removes the symbol's code and emits it; it is an error exactly when the
  bits contain thirty ones; and it is marked as a possible end exactly when the remaining bits are
  all ones. Bit strings are pairs of a length and a value.
\<close>

definition code_of :: "nat \<Rightarrow> nat \<times> nat" where
  "code_of s = (let e = ngx_http_huff_encode_table ! s in (ec_len e, ec_code e))"

section \<open>The partial code of each state\<close>

text \<open>
  The state of the decoder stands for the bits read since the last complete symbol. The lists give
  for every state its number, the number of these bits and their value.
\<close>

definition huff_prefixes_0 :: "(nat \<times> nat \<times> nat) list" where
  "huff_prefixes_0 = [
    (0, 0, 0), (1, 1, 0), (2, 2, 0), (3, 3, 0), (4, 4, 0),
    (5, 4, 1), (6, 3, 1), (7, 4, 2), (8, 4, 3), (9, 2, 1),
    (10, 3, 2), (11, 4, 4), (12, 4, 5), (13, 5, 10)]"

definition huff_prefixes_1 :: "(nat \<times> nat \<times> nat) list" where
  "huff_prefixes_1 = [
    (14, 5, 11), (15, 3, 3), (16, 4, 6), (17, 5, 12), (18, 5, 13),
    (19, 4, 7), (20, 5, 14), (21, 5, 15), (22, 1, 1), (23, 2, 2),
    (24, 3, 4), (25, 4, 8), (26, 5, 16), (27, 5, 17)]"

definition huff_prefixes_2 :: "(nat \<times> nat \<times> nat) list" where
  "huff_prefixes_2 = [
    (28, 4, 9), (29, 5, 18), (30, 5, 19), (31, 3, 5), (32, 4, 10),
    (33, 5, 20), (34, 5, 21), (35, 4, 11), (36, 5, 22), (37, 5, 23),
    (38, 6, 46), (39, 6, 47), (40, 2, 3), (41, 3, 6)]"

definition huff_prefixes_3 :: "(nat \<times> nat \<times> nat) list" where
  "huff_prefixes_3 = [
    (42, 4, 12), (43, 5, 24), (44, 6, 48), (45, 6, 49), (46, 5, 25),
    (47, 6, 50), (48, 6, 51), (49, 4, 13), (50, 5, 26), (51, 6, 52),
    (52, 6, 53), (53, 5, 27), (54, 6, 54), (55, 6, 55)]"

definition huff_prefixes_4 :: "(nat \<times> nat \<times> nat) list" where
  "huff_prefixes_4 = [
    (56, 3, 7), (57, 4, 14), (58, 5, 28), (59, 6, 56), (60, 6, 57),
    (61, 5, 29), (62, 6, 58), (63, 6, 59), (64, 4, 15), (65, 5, 30),
    (66, 6, 60), (67, 6, 61), (68, 5, 31), (69, 6, 62)]"

definition huff_prefixes_5 :: "(nat \<times> nat \<times> nat) list" where
  "huff_prefixes_5 = [
    (70, 7, 124), (71, 7, 125), (72, 6, 63), (73, 7, 126), (74, 7, 127),
    (75, 8, 254), (76, 9, 508), (77, 9, 509), (78, 8, 255), (79, 9, 510),
    (80, 10, 1021), (81, 9, 511), (82, 10, 1022), (83, 11, 2045)]"

definition huff_prefixes_6 :: "(nat \<times> nat \<times> nat) list" where
  "huff_prefixes_6 = [
    (84, 10, 1023), (85, 11, 2046), (86, 12, 4092), (87, 12, 4093), (88, 11, 2047),
    (89, 12, 4094), (90, 12, 4095), (91, 13, 8190), (92, 13, 8191), (93, 14, 16382),
    (94, 14, 16383), (95, 15, 32767), (96, 16, 65534), (97, 17, 131068)]"

definition huff_prefixes_7 :: "(nat \<times> nat \<times> nat) list" where
  "huff_prefixes_7 = [
    (98, 18, 262136), (99, 18, 262137), (100, 19, 524275), (101, 17, 131069), (102, 18, 262138),
    (103, 19, 524276), (104, 19, 524277), (105, 18, 262139), (106, 19, 524278), (107, 19, 524279),
    (108, 20, 1048558), (109, 20, 1048559), (110, 16, 65535), (111, 17, 131070)]"

definition huff_prefixes_8 :: "(nat \<times> nat \<times> nat) list" where
  "huff_prefixes_8 = [
    (112, 18, 262140), (113, 19, 524280), (114, 20, 1048560), (115, 20, 1048561), (116, 19, 524281),
    (117, 20, 1048562), (118, 20, 1048563), (119, 18, 262141), (120, 19, 524282), (121, 20, 1048564),
    (122, 21, 2097129), (123, 20, 1048565), (124, 21, 2097130), (125, 21, 2097131)]"

definition huff_prefixes_9 :: "(nat \<times> nat \<times> nat) list" where
  "huff_prefixes_9 = [
    (126, 19, 524283), (127, 20, 1048566), (128, 21, 2097132), (129, 21, 2097133), (130, 20, 1048567),
    (131, 21, 2097134), (132, 21, 2097135), (133, 17, 131071), (134, 18, 262142), (135, 19, 524284),
    (136, 20, 1048568), (137, 21, 2097136), (138, 21, 2097137), (139, 20, 1048569)]"

definition huff_prefixes_10 :: "(nat \<times> nat \<times> nat) list" where
  "huff_prefixes_10 = [
    (140, 21, 2097138), (141, 21, 2097139), (142, 19, 524285), (143, 20, 1048570), (144, 21, 2097140),
    (145, 21, 2097141), (146, 20, 1048571), (147, 21, 2097142), (148, 22, 4194284), (149, 22, 4194285),
    (150, 21, 2097143), (151, 22, 4194286), (152, 22, 4194287), (153, 18, 262143)]"

definition huff_prefixes_11 :: "(nat \<times> nat \<times> nat) list" where
  "huff_prefixes_11 = [
    (154, 19, 524286), (155, 20, 1048572), (156, 21, 2097144), (157, 22, 4194288), (158, 22, 4194289),
    (159, 21, 2097145), (160, 22, 4194290), (161, 22, 4194291), (162, 20, 1048573), (163, 21, 2097146),
    (164, 22, 4194292), (165, 22, 4194293), (166, 21, 2097147), (167, 22, 4194294)]"

definition huff_prefixes_12 :: "(nat \<times> nat \<times> nat) list" where
  "huff_prefixes_12 = [
    (168, 22, 4194295), (169, 19, 524287), (170, 20, 1048574), (171, 21, 2097148), (172, 22, 4194296),
    (173, 22, 4194297), (174, 21, 2097149), (175, 22, 4194298), (176, 23, 8388597), (177, 22, 4194299),
    (178, 23, 8388598), (179, 23, 8388599), (180, 20, 1048575), (181, 21, 2097150)]"

definition huff_prefixes_13 :: "(nat \<times> nat \<times> nat) list" where
  "huff_prefixes_13 = [
    (182, 22, 4194300), (183, 23, 8388600), (184, 23, 8388601), (185, 22, 4194301), (186, 23, 8388602),
    (187, 23, 8388603), (188, 24, 16777206), (189, 24, 16777207), (190, 21, 2097151), (191, 22, 4194302),
    (192, 23, 8388604), (193, 24, 16777208), (194, 25, 33554416), (195, 25, 33554417)]"

definition huff_prefixes_14 :: "(nat \<times> nat \<times> nat) list" where
  "huff_prefixes_14 = [
    (196, 24, 16777209), (197, 25, 33554418), (198, 25, 33554419), (199, 23, 8388605), (200, 24, 16777210),
    (201, 25, 33554420), (202, 25, 33554421), (203, 24, 16777211), (204, 25, 33554422), (205, 25, 33554423),
    (206, 26, 67108847), (207, 22, 4194303), (208, 23, 8388606), (209, 24, 16777212)]"

definition huff_prefixes_15 :: "(nat \<times> nat \<times> nat) list" where
  "huff_prefixes_15 = [
    (210, 25, 33554424), (211, 26, 67108848), (212, 26, 67108849), (213, 25, 33554425), (214, 26, 67108850),
    (215, 26, 67108851), (216, 24, 16777213), (217, 25, 33554426), (218, 26, 67108852), (219, 26, 67108853),
    (220, 25, 33554427), (221, 26, 67108854), (222, 26, 67108855), (223, 23, 8388607)]"

definition huff_prefixes_16 :: "(nat \<times> nat \<times> nat) list" where
  "huff_prefixes_16 = [
    (224, 24, 16777214), (225, 25, 33554428), (226, 26, 67108856), (227, 27, 134217713), (228, 26, 67108857),
    (229, 27, 134217714), (230, 27, 134217715), (231, 25, 33554429), (232, 26, 67108858), (233, 27, 134217716),
    (234, 27, 134217717), (235, 26, 67108859), (236, 27, 134217718), (237, 27, 134217719)]"

definition huff_prefixes_17 :: "(nat \<times> nat \<times> nat) list" where
  "huff_prefixes_17 = [
    (238, 24, 16777215), (239, 25, 33554430), (240, 26, 67108860), (241, 27, 134217720), (242, 27, 134217721),
    (243, 26, 67108861), (244, 27, 134217722), (245, 27, 134217723), (246, 25, 33554431), (247, 26, 67108862),
    (248, 27, 134217724), (249, 27, 134217725), (250, 26, 67108863), (251, 27, 134217726)]"

definition huff_prefixes_18 :: "(nat \<times> nat \<times> nat) list" where
  "huff_prefixes_18 = [
    (252, 27, 134217727), (253, 28, 268435455), (254, 29, 536870910), (255, 29, 536870911)]"

definition huff_prefixes :: "(nat \<times> nat \<times> nat) list" where
  "huff_prefixes =
     huff_prefixes_0 @ huff_prefixes_1 @ huff_prefixes_2 @ huff_prefixes_3 @
     huff_prefixes_4 @ huff_prefixes_5 @ huff_prefixes_6 @ huff_prefixes_7 @
     huff_prefixes_8 @ huff_prefixes_9 @ huff_prefixes_10 @ huff_prefixes_11 @
     huff_prefixes_12 @ huff_prefixes_13 @ huff_prefixes_14 @ huff_prefixes_15 @
     huff_prefixes_16 @ huff_prefixes_17 @ huff_prefixes_18"

definition prefix_of :: "nat \<Rightarrow> nat \<times> nat" where
  "prefix_of q = snd (huff_prefixes ! q)"

definition has_eos :: "nat \<times> nat \<Rightarrow> bool" where
  \<comment> \<open>the bit string starts with thirty ones\<close>
  "has_eos = (\<lambda>(l, v). 30 \<le> l \<and> v div 2 ^ (l - 30) = 2 ^ 30 - 1)"

definition entry_ok :: "nat \<Rightarrow> nat \<Rightarrow> nat \<Rightarrow> nat \<Rightarrow> ngx_http_huff_decode_code_t \<Rightarrow> bool" where
  "entry_ok q l v b e \<longleftrightarrow>
     (if has_eos (l + 4, v * 16 + b) then dc_next e = q
      else dc_next e \<noteq> q \<and> dc_next e < 256 \<and> dc_sym e < 256 \<and>
        (let (cl, cv) = (if dc_emit e = 0 then (0, 0) else code_of (dc_sym e));
             (l', v') = prefix_of (dc_next e)
         in cl + l' = l + 4 \<and> cv * 2 ^ l' + v' = v * 16 + b \<and> (dc_ending e \<noteq> 0 \<longleftrightarrow> v' + 1 = 2 ^ l')))"

fun entries_ok :: "nat \<Rightarrow> nat \<Rightarrow> nat \<Rightarrow> nat \<Rightarrow> ngx_http_huff_decode_code_t list \<Rightarrow> bool" where
  "entries_ok q l v b [] = (b = 16)"
| "entries_ok q l v b (e # es) = (entry_ok q l v b e \<and> entries_ok q l v (b + 1) es)"

definition row_ok :: "nat \<times> nat \<times> nat \<Rightarrow> ngx_http_huff_decode_code_t list \<Rightarrow> bool" where
  "row_ok = (\<lambda>(q, l, v) row. v < 2 ^ l \<and> entries_ok q l v 0 row)"

section \<open>Evaluation\<close>

lemma code_of_eval:
  "code_of 0 = (13, 8184) \<and>
   code_of 1 = (23, 8388568) \<and>
   code_of 2 = (28, 268435426) \<and>
   code_of 3 = (28, 268435427) \<and>
   code_of 4 = (28, 268435428) \<and>
   code_of 5 = (28, 268435429) \<and>
   code_of 6 = (28, 268435430) \<and>
   code_of 7 = (28, 268435431) \<and>
   code_of 8 = (28, 268435432) \<and>
   code_of 9 = (24, 16777194) \<and>
   code_of 10 = (30, 1073741820) \<and>
   code_of 11 = (28, 268435433) \<and>
   code_of 12 = (28, 268435434) \<and>
   code_of 13 = (30, 1073741821) \<and>
   code_of 14 = (28, 268435435) \<and>
   code_of 15 = (28, 268435436) \<and>
   code_of 16 = (28, 268435437) \<and>
   code_of 17 = (28, 268435438) \<and>
   code_of 18 = (28, 268435439) \<and>
   code_of 19 = (28, 268435440) \<and>
   code_of 20 = (28, 268435441) \<and>
   code_of 21 = (28, 268435442) \<and>
   code_of 22 = (30, 1073741822) \<and>
   code_of 23 = (28, 268435443) \<and>
   code_of 24 = (28, 268435444) \<and>
   code_of 25 = (28, 268435445) \<and>
   code_of 26 = (28, 268435446) \<and>
   code_of 27 = (28, 268435447) \<and>
   code_of 28 = (28, 268435448) \<and>
   code_of 29 = (28, 268435449) \<and>
   code_of 30 = (28, 268435450) \<and>
   code_of 31 = (28, 268435451) \<and>
   code_of 32 = (6, 20) \<and>
   code_of 33 = (10, 1016) \<and>
   code_of 34 = (10, 1017) \<and>
   code_of 35 = (12, 4090) \<and>
   code_of 36 = (13, 8185) \<and>
   code_of 37 = (6, 21) \<and>
   code_of 38 = (8, 248) \<and>
   code_of 39 = (11, 2042) \<and>
   code_of 40 = (10, 1018) \<and>
   code_of 41 = (10, 1019) \<and>
   code_of 42 = (8, 249) \<and>
   code_of 43 = (11, 2043) \<and>
   code_of 44 = (8, 250) \<and>
   code_of 45 = (6, 22) \<and>
   code_of 46 = (6, 23) \<and>
   code_of 47 = (6, 24) \<and>
   code_of 48 = (5, 0) \<and>
   code_of 49 = (5, 1) \<and>
   code_of 50 = (5, 2) \<and>
   code_of 51 = (6, 25) \<and>
   code_of 52 = (6, 26) \<and>
   code_of 53 = (6, 27) \<and>
   code_of 54 = (6, 28) \<and>
   code_of 55 = (6, 29) \<and>
   code_of 56 = (6, 30) \<and>
   code_of 57 = (6, 31) \<and>
   code_of 58 = (7, 92) \<and>
   code_of 59 = (8, 251) \<and>
   code_of 60 = (15, 32764) \<and>
   code_of 61 = (6, 32) \<and>
   code_of 62 = (12, 4091) \<and>
   code_of 63 = (10, 1020) \<and>
   code_of 64 = (13, 8186) \<and>
   code_of 65 = (6, 33) \<and>
   code_of 66 = (7, 93) \<and>
   code_of 67 = (7, 94) \<and>
   code_of 68 = (7, 95) \<and>
   code_of 69 = (7, 96) \<and>
   code_of 70 = (7, 97) \<and>
   code_of 71 = (7, 98) \<and>
   code_of 72 = (7, 99) \<and>
   code_of 73 = (7, 100) \<and>
   code_of 74 = (7, 101) \<and>
   code_of 75 = (7, 102) \<and>
   code_of 76 = (7, 103) \<and>
   code_of 77 = (7, 104) \<and>
   code_of 78 = (7, 105) \<and>
   code_of 79 = (7, 106) \<and>
   code_of 80 = (7, 107) \<and>
   code_of 81 = (7, 108) \<and>
   code_of 82 = (7, 109) \<and>
   code_of 83 = (7, 110) \<and>
   code_of 84 = (7, 111) \<and>
   code_of 85 = (7, 112) \<and>
   code_of 86 = (7, 113) \<and>
   code_of 87 = (7, 114) \<and>
   code_of 88 = (8, 252) \<and>
   code_of 89 = (7, 115) \<and>
   code_of 90 = (8, 253) \<and>
   code_of 91 = (13, 8187) \<and>
   code_of 92 = (19, 524272) \<and>
   code_of 93 = (13, 8188) \<and>
   code_of 94 = (14, 16380) \<and>
   code_of 95 = (6, 34) \<and>
   code_of 96 = (15, 32765) \<and>
   code_of 97 = (5, 3) \<and>
   code_of 98 = (6, 35) \<and>
   code_of 99 = (5, 4) \<and>
   code_of 100 = (6, 36) \<and>
   code_of 101 = (5, 5) \<and>
   code_of 102 = (6, 37) \<and>
   code_of 103 = (6, 38) \<and>
   code_of 104 = (6, 39) \<and>
   code_of 105 = (5, 6) \<and>
   code_of 106 = (7, 116) \<and>
   code_of 107 = (7, 117) \<and>
   code_of 108 = (6, 40) \<and>
   code_of 109 = (6, 41) \<and>
   code_of 110 = (6, 42) \<and>
   code_of 111 = (5, 7) \<and>
   code_of 112 = (6, 43) \<and>
   code_of 113 = (7, 118) \<and>
   code_of 114 = (6, 44) \<and>
   code_of 115 = (5, 8) \<and>
   code_of 116 = (5, 9) \<and>
   code_of 117 = (6, 45) \<and>
   code_of 118 = (7, 119) \<and>
   code_of 119 = (7, 120) \<and>
   code_of 120 = (7, 121) \<and>
   code_of 121 = (7, 122) \<and>
   code_of 122 = (7, 123) \<and>
   code_of 123 = (15, 32766) \<and>
   code_of 124 = (11, 2044) \<and>
   code_of 125 = (14, 16381) \<and>
   code_of 126 = (13, 8189) \<and>
   code_of 127 = (28, 268435452) \<and>
   code_of 128 = (20, 1048550) \<and>
   code_of 129 = (22, 4194258) \<and>
   code_of 130 = (20, 1048551) \<and>
   code_of 131 = (20, 1048552) \<and>
   code_of 132 = (22, 4194259) \<and>
   code_of 133 = (22, 4194260) \<and>
   code_of 134 = (22, 4194261) \<and>
   code_of 135 = (23, 8388569) \<and>
   code_of 136 = (22, 4194262) \<and>
   code_of 137 = (23, 8388570) \<and>
   code_of 138 = (23, 8388571) \<and>
   code_of 139 = (23, 8388572) \<and>
   code_of 140 = (23, 8388573) \<and>
   code_of 141 = (23, 8388574) \<and>
   code_of 142 = (24, 16777195) \<and>
   code_of 143 = (23, 8388575) \<and>
   code_of 144 = (24, 16777196) \<and>
   code_of 145 = (24, 16777197) \<and>
   code_of 146 = (22, 4194263) \<and>
   code_of 147 = (23, 8388576) \<and>
   code_of 148 = (24, 16777198) \<and>
   code_of 149 = (23, 8388577) \<and>
   code_of 150 = (23, 8388578) \<and>
   code_of 151 = (23, 8388579) \<and>
   code_of 152 = (23, 8388580) \<and>
   code_of 153 = (21, 2097116) \<and>
   code_of 154 = (22, 4194264) \<and>
   code_of 155 = (23, 8388581) \<and>
   code_of 156 = (22, 4194265) \<and>
   code_of 157 = (23, 8388582) \<and>
   code_of 158 = (23, 8388583) \<and>
   code_of 159 = (24, 16777199) \<and>
   code_of 160 = (22, 4194266) \<and>
   code_of 161 = (21, 2097117) \<and>
   code_of 162 = (20, 1048553) \<and>
   code_of 163 = (22, 4194267) \<and>
   code_of 164 = (22, 4194268) \<and>
   code_of 165 = (23, 8388584) \<and>
   code_of 166 = (23, 8388585) \<and>
   code_of 167 = (21, 2097118) \<and>
   code_of 168 = (23, 8388586) \<and>
   code_of 169 = (22, 4194269) \<and>
   code_of 170 = (22, 4194270) \<and>
   code_of 171 = (24, 16777200) \<and>
   code_of 172 = (21, 2097119) \<and>
   code_of 173 = (22, 4194271) \<and>
   code_of 174 = (23, 8388587) \<and>
   code_of 175 = (23, 8388588) \<and>
   code_of 176 = (21, 2097120) \<and>
   code_of 177 = (21, 2097121) \<and>
   code_of 178 = (22, 4194272) \<and>
   code_of 179 = (21, 2097122) \<and>
   code_of 180 = (23, 8388589) \<and>
   code_of 181 = (22, 4194273) \<and>
   code_of 182 = (23, 8388590) \<and>
   code_of 183 = (23, 8388591) \<and>
   code_of 184 = (20, 1048554) \<and>
   code_of 185 = (22, 4194274) \<and>
   code_of 186 = (22, 4194275) \<and>
   code_of 187 = (22, 4194276) \<and>
   code_of 188 = (23, 8388592) \<and>
   code_of 189 = (22, 4194277) \<and>
   code_of 190 = (22, 4194278) \<and>
   code_of 191 = (23, 8388593) \<and>
   code_of 192 = (26, 67108832) \<and>
   code_of 193 = (26, 67108833) \<and>
   code_of 194 = (20, 1048555) \<and>
   code_of 195 = (19, 524273) \<and>
   code_of 196 = (22, 4194279) \<and>
   code_of 197 = (23, 8388594) \<and>
   code_of 198 = (22, 4194280) \<and>
   code_of 199 = (25, 33554412) \<and>
   code_of 200 = (26, 67108834) \<and>
   code_of 201 = (26, 67108835) \<and>
   code_of 202 = (26, 67108836) \<and>
   code_of 203 = (27, 134217694) \<and>
   code_of 204 = (27, 134217695) \<and>
   code_of 205 = (26, 67108837) \<and>
   code_of 206 = (24, 16777201) \<and>
   code_of 207 = (25, 33554413) \<and>
   code_of 208 = (19, 524274) \<and>
   code_of 209 = (21, 2097123) \<and>
   code_of 210 = (26, 67108838) \<and>
   code_of 211 = (27, 134217696) \<and>
   code_of 212 = (27, 134217697) \<and>
   code_of 213 = (26, 67108839) \<and>
   code_of 214 = (27, 134217698) \<and>
   code_of 215 = (24, 16777202) \<and>
   code_of 216 = (21, 2097124) \<and>
   code_of 217 = (21, 2097125) \<and>
   code_of 218 = (26, 67108840) \<and>
   code_of 219 = (26, 67108841) \<and>
   code_of 220 = (28, 268435453) \<and>
   code_of 221 = (27, 134217699) \<and>
   code_of 222 = (27, 134217700) \<and>
   code_of 223 = (27, 134217701) \<and>
   code_of 224 = (20, 1048556) \<and>
   code_of 225 = (24, 16777203) \<and>
   code_of 226 = (20, 1048557) \<and>
   code_of 227 = (21, 2097126) \<and>
   code_of 228 = (22, 4194281) \<and>
   code_of 229 = (21, 2097127) \<and>
   code_of 230 = (21, 2097128) \<and>
   code_of 231 = (23, 8388595) \<and>
   code_of 232 = (22, 4194282) \<and>
   code_of 233 = (22, 4194283) \<and>
   code_of 234 = (25, 33554414) \<and>
   code_of 235 = (25, 33554415) \<and>
   code_of 236 = (24, 16777204) \<and>
   code_of 237 = (24, 16777205) \<and>
   code_of 238 = (26, 67108842) \<and>
   code_of 239 = (23, 8388596) \<and>
   code_of 240 = (26, 67108843) \<and>
   code_of 241 = (27, 134217702) \<and>
   code_of 242 = (26, 67108844) \<and>
   code_of 243 = (26, 67108845) \<and>
   code_of 244 = (27, 134217703) \<and>
   code_of 245 = (27, 134217704) \<and>
   code_of 246 = (27, 134217705) \<and>
   code_of 247 = (27, 134217706) \<and>
   code_of 248 = (27, 134217707) \<and>
   code_of 249 = (28, 268435454) \<and>
   code_of 250 = (27, 134217708) \<and>
   code_of 251 = (27, 134217709) \<and>
   code_of 252 = (27, 134217710) \<and>
   code_of 253 = (27, 134217711) \<and>
   code_of 254 = (27, 134217712) \<and>
   code_of 255 = (26, 67108846)"
  by (simp_all add: code_of_def ngx_http_huff_encode_table_def Let_def del: One_nat_def)

lemma prefix_of_eval:
  "prefix_of 0 = (0, 0) \<and>
   prefix_of 1 = (1, 0) \<and>
   prefix_of 2 = (2, 0) \<and>
   prefix_of 3 = (3, 0) \<and>
   prefix_of 4 = (4, 0) \<and>
   prefix_of 5 = (4, 1) \<and>
   prefix_of 6 = (3, 1) \<and>
   prefix_of 7 = (4, 2) \<and>
   prefix_of 8 = (4, 3) \<and>
   prefix_of 9 = (2, 1) \<and>
   prefix_of 10 = (3, 2) \<and>
   prefix_of 11 = (4, 4) \<and>
   prefix_of 12 = (4, 5) \<and>
   prefix_of 13 = (5, 10) \<and>
   prefix_of 14 = (5, 11) \<and>
   prefix_of 15 = (3, 3) \<and>
   prefix_of 16 = (4, 6) \<and>
   prefix_of 17 = (5, 12) \<and>
   prefix_of 18 = (5, 13) \<and>
   prefix_of 19 = (4, 7) \<and>
   prefix_of 20 = (5, 14) \<and>
   prefix_of 21 = (5, 15) \<and>
   prefix_of 22 = (1, 1) \<and>
   prefix_of 23 = (2, 2) \<and>
   prefix_of 24 = (3, 4) \<and>
   prefix_of 25 = (4, 8) \<and>
   prefix_of 26 = (5, 16) \<and>
   prefix_of 27 = (5, 17) \<and>
   prefix_of 28 = (4, 9) \<and>
   prefix_of 29 = (5, 18) \<and>
   prefix_of 30 = (5, 19) \<and>
   prefix_of 31 = (3, 5) \<and>
   prefix_of 32 = (4, 10) \<and>
   prefix_of 33 = (5, 20) \<and>
   prefix_of 34 = (5, 21) \<and>
   prefix_of 35 = (4, 11) \<and>
   prefix_of 36 = (5, 22) \<and>
   prefix_of 37 = (5, 23) \<and>
   prefix_of 38 = (6, 46) \<and>
   prefix_of 39 = (6, 47) \<and>
   prefix_of 40 = (2, 3) \<and>
   prefix_of 41 = (3, 6) \<and>
   prefix_of 42 = (4, 12) \<and>
   prefix_of 43 = (5, 24) \<and>
   prefix_of 44 = (6, 48) \<and>
   prefix_of 45 = (6, 49) \<and>
   prefix_of 46 = (5, 25) \<and>
   prefix_of 47 = (6, 50) \<and>
   prefix_of 48 = (6, 51) \<and>
   prefix_of 49 = (4, 13) \<and>
   prefix_of 50 = (5, 26) \<and>
   prefix_of 51 = (6, 52) \<and>
   prefix_of 52 = (6, 53) \<and>
   prefix_of 53 = (5, 27) \<and>
   prefix_of 54 = (6, 54) \<and>
   prefix_of 55 = (6, 55) \<and>
   prefix_of 56 = (3, 7) \<and>
   prefix_of 57 = (4, 14) \<and>
   prefix_of 58 = (5, 28) \<and>
   prefix_of 59 = (6, 56) \<and>
   prefix_of 60 = (6, 57) \<and>
   prefix_of 61 = (5, 29) \<and>
   prefix_of 62 = (6, 58) \<and>
   prefix_of 63 = (6, 59) \<and>
   prefix_of 64 = (4, 15) \<and>
   prefix_of 65 = (5, 30) \<and>
   prefix_of 66 = (6, 60) \<and>
   prefix_of 67 = (6, 61) \<and>
   prefix_of 68 = (5, 31) \<and>
   prefix_of 69 = (6, 62) \<and>
   prefix_of 70 = (7, 124) \<and>
   prefix_of 71 = (7, 125) \<and>
   prefix_of 72 = (6, 63) \<and>
   prefix_of 73 = (7, 126) \<and>
   prefix_of 74 = (7, 127) \<and>
   prefix_of 75 = (8, 254) \<and>
   prefix_of 76 = (9, 508) \<and>
   prefix_of 77 = (9, 509) \<and>
   prefix_of 78 = (8, 255) \<and>
   prefix_of 79 = (9, 510) \<and>
   prefix_of 80 = (10, 1021) \<and>
   prefix_of 81 = (9, 511) \<and>
   prefix_of 82 = (10, 1022) \<and>
   prefix_of 83 = (11, 2045) \<and>
   prefix_of 84 = (10, 1023) \<and>
   prefix_of 85 = (11, 2046) \<and>
   prefix_of 86 = (12, 4092) \<and>
   prefix_of 87 = (12, 4093) \<and>
   prefix_of 88 = (11, 2047) \<and>
   prefix_of 89 = (12, 4094) \<and>
   prefix_of 90 = (12, 4095) \<and>
   prefix_of 91 = (13, 8190) \<and>
   prefix_of 92 = (13, 8191) \<and>
   prefix_of 93 = (14, 16382) \<and>
   prefix_of 94 = (14, 16383) \<and>
   prefix_of 95 = (15, 32767) \<and>
   prefix_of 96 = (16, 65534) \<and>
   prefix_of 97 = (17, 131068) \<and>
   prefix_of 98 = (18, 262136) \<and>
   prefix_of 99 = (18, 262137) \<and>
   prefix_of 100 = (19, 524275) \<and>
   prefix_of 101 = (17, 131069) \<and>
   prefix_of 102 = (18, 262138) \<and>
   prefix_of 103 = (19, 524276) \<and>
   prefix_of 104 = (19, 524277) \<and>
   prefix_of 105 = (18, 262139) \<and>
   prefix_of 106 = (19, 524278) \<and>
   prefix_of 107 = (19, 524279) \<and>
   prefix_of 108 = (20, 1048558) \<and>
   prefix_of 109 = (20, 1048559) \<and>
   prefix_of 110 = (16, 65535) \<and>
   prefix_of 111 = (17, 131070) \<and>
   prefix_of 112 = (18, 262140) \<and>
   prefix_of 113 = (19, 524280) \<and>
   prefix_of 114 = (20, 1048560) \<and>
   prefix_of 115 = (20, 1048561) \<and>
   prefix_of 116 = (19, 524281) \<and>
   prefix_of 117 = (20, 1048562) \<and>
   prefix_of 118 = (20, 1048563) \<and>
   prefix_of 119 = (18, 262141) \<and>
   prefix_of 120 = (19, 524282) \<and>
   prefix_of 121 = (20, 1048564) \<and>
   prefix_of 122 = (21, 2097129) \<and>
   prefix_of 123 = (20, 1048565) \<and>
   prefix_of 124 = (21, 2097130) \<and>
   prefix_of 125 = (21, 2097131) \<and>
   prefix_of 126 = (19, 524283) \<and>
   prefix_of 127 = (20, 1048566) \<and>
   prefix_of 128 = (21, 2097132) \<and>
   prefix_of 129 = (21, 2097133) \<and>
   prefix_of 130 = (20, 1048567) \<and>
   prefix_of 131 = (21, 2097134) \<and>
   prefix_of 132 = (21, 2097135) \<and>
   prefix_of 133 = (17, 131071) \<and>
   prefix_of 134 = (18, 262142) \<and>
   prefix_of 135 = (19, 524284) \<and>
   prefix_of 136 = (20, 1048568) \<and>
   prefix_of 137 = (21, 2097136) \<and>
   prefix_of 138 = (21, 2097137) \<and>
   prefix_of 139 = (20, 1048569) \<and>
   prefix_of 140 = (21, 2097138) \<and>
   prefix_of 141 = (21, 2097139) \<and>
   prefix_of 142 = (19, 524285) \<and>
   prefix_of 143 = (20, 1048570) \<and>
   prefix_of 144 = (21, 2097140) \<and>
   prefix_of 145 = (21, 2097141) \<and>
   prefix_of 146 = (20, 1048571) \<and>
   prefix_of 147 = (21, 2097142) \<and>
   prefix_of 148 = (22, 4194284) \<and>
   prefix_of 149 = (22, 4194285) \<and>
   prefix_of 150 = (21, 2097143) \<and>
   prefix_of 151 = (22, 4194286) \<and>
   prefix_of 152 = (22, 4194287) \<and>
   prefix_of 153 = (18, 262143) \<and>
   prefix_of 154 = (19, 524286) \<and>
   prefix_of 155 = (20, 1048572) \<and>
   prefix_of 156 = (21, 2097144) \<and>
   prefix_of 157 = (22, 4194288) \<and>
   prefix_of 158 = (22, 4194289) \<and>
   prefix_of 159 = (21, 2097145) \<and>
   prefix_of 160 = (22, 4194290) \<and>
   prefix_of 161 = (22, 4194291) \<and>
   prefix_of 162 = (20, 1048573) \<and>
   prefix_of 163 = (21, 2097146) \<and>
   prefix_of 164 = (22, 4194292) \<and>
   prefix_of 165 = (22, 4194293) \<and>
   prefix_of 166 = (21, 2097147) \<and>
   prefix_of 167 = (22, 4194294) \<and>
   prefix_of 168 = (22, 4194295) \<and>
   prefix_of 169 = (19, 524287) \<and>
   prefix_of 170 = (20, 1048574) \<and>
   prefix_of 171 = (21, 2097148) \<and>
   prefix_of 172 = (22, 4194296) \<and>
   prefix_of 173 = (22, 4194297) \<and>
   prefix_of 174 = (21, 2097149) \<and>
   prefix_of 175 = (22, 4194298) \<and>
   prefix_of 176 = (23, 8388597) \<and>
   prefix_of 177 = (22, 4194299) \<and>
   prefix_of 178 = (23, 8388598) \<and>
   prefix_of 179 = (23, 8388599) \<and>
   prefix_of 180 = (20, 1048575) \<and>
   prefix_of 181 = (21, 2097150) \<and>
   prefix_of 182 = (22, 4194300) \<and>
   prefix_of 183 = (23, 8388600) \<and>
   prefix_of 184 = (23, 8388601) \<and>
   prefix_of 185 = (22, 4194301) \<and>
   prefix_of 186 = (23, 8388602) \<and>
   prefix_of 187 = (23, 8388603) \<and>
   prefix_of 188 = (24, 16777206) \<and>
   prefix_of 189 = (24, 16777207) \<and>
   prefix_of 190 = (21, 2097151) \<and>
   prefix_of 191 = (22, 4194302) \<and>
   prefix_of 192 = (23, 8388604) \<and>
   prefix_of 193 = (24, 16777208) \<and>
   prefix_of 194 = (25, 33554416) \<and>
   prefix_of 195 = (25, 33554417) \<and>
   prefix_of 196 = (24, 16777209) \<and>
   prefix_of 197 = (25, 33554418) \<and>
   prefix_of 198 = (25, 33554419) \<and>
   prefix_of 199 = (23, 8388605) \<and>
   prefix_of 200 = (24, 16777210) \<and>
   prefix_of 201 = (25, 33554420) \<and>
   prefix_of 202 = (25, 33554421) \<and>
   prefix_of 203 = (24, 16777211) \<and>
   prefix_of 204 = (25, 33554422) \<and>
   prefix_of 205 = (25, 33554423) \<and>
   prefix_of 206 = (26, 67108847) \<and>
   prefix_of 207 = (22, 4194303) \<and>
   prefix_of 208 = (23, 8388606) \<and>
   prefix_of 209 = (24, 16777212) \<and>
   prefix_of 210 = (25, 33554424) \<and>
   prefix_of 211 = (26, 67108848) \<and>
   prefix_of 212 = (26, 67108849) \<and>
   prefix_of 213 = (25, 33554425) \<and>
   prefix_of 214 = (26, 67108850) \<and>
   prefix_of 215 = (26, 67108851) \<and>
   prefix_of 216 = (24, 16777213) \<and>
   prefix_of 217 = (25, 33554426) \<and>
   prefix_of 218 = (26, 67108852) \<and>
   prefix_of 219 = (26, 67108853) \<and>
   prefix_of 220 = (25, 33554427) \<and>
   prefix_of 221 = (26, 67108854) \<and>
   prefix_of 222 = (26, 67108855) \<and>
   prefix_of 223 = (23, 8388607) \<and>
   prefix_of 224 = (24, 16777214) \<and>
   prefix_of 225 = (25, 33554428) \<and>
   prefix_of 226 = (26, 67108856) \<and>
   prefix_of 227 = (27, 134217713) \<and>
   prefix_of 228 = (26, 67108857) \<and>
   prefix_of 229 = (27, 134217714) \<and>
   prefix_of 230 = (27, 134217715) \<and>
   prefix_of 231 = (25, 33554429) \<and>
   prefix_of 232 = (26, 67108858) \<and>
   prefix_of 233 = (27, 134217716) \<and>
   prefix_of 234 = (27, 134217717) \<and>
   prefix_of 235 = (26, 67108859) \<and>
   prefix_of 236 = (27, 134217718) \<and>
   prefix_of 237 = (27, 134217719) \<and>
   prefix_of 238 = (24, 16777215) \<and>
   prefix_of 239 = (25, 33554430) \<and>
   prefix_of 240 = (26, 67108860) \<and>
   prefix_of 241 = (27, 134217720) \<and>
   prefix_of 242 = (27, 134217721) \<and>
   prefix_of 243 = (26, 67108861) \<and>
   prefix_of 244 = (27, 134217722) \<and>
   prefix_of 245 = (27, 134217723) \<and>
   prefix_of 246 = (25, 33554431) \<and>
   prefix_of 247 = (26, 67108862) \<and>
   prefix_of 248 = (27, 134217724) \<and>
   prefix_of 249 = (27, 134217725) \<and>
   prefix_of 250 = (26, 67108863) \<and>
   prefix_of 251 = (27, 134217726) \<and>
   prefix_of 252 = (27, 134217727) \<and>
   prefix_of 253 = (28, 268435455) \<and>
   prefix_of 254 = (29, 536870910) \<and>
   prefix_of 255 = (29, 536870911)"
  by (simp_all add: prefix_of_def huff_prefixes_def huff_prefixes_0_def huff_prefixes_1_def huff_prefixes_2_def huff_prefixes_3_def huff_prefixes_4_def huff_prefixes_5_def huff_prefixes_6_def huff_prefixes_7_def huff_prefixes_8_def huff_prefixes_9_def huff_prefixes_10_def huff_prefixes_11_def huff_prefixes_12_def huff_prefixes_13_def huff_prefixes_14_def huff_prefixes_15_def huff_prefixes_16_def huff_prefixes_17_def huff_prefixes_18_def del: One_nat_def)

lemmas entry_eval = row_ok_def entry_ok_def has_eos_def code_of_eval prefix_of_eval

lemma huff_rows_0: "list_all2 row_ok huff_prefixes_0 huff_decode_codes_0"
  by (simp add: huff_prefixes_0_def huff_decode_codes_0_def entry_eval del: One_nat_def)

lemma huff_rows_1: "list_all2 row_ok huff_prefixes_1 huff_decode_codes_1"
  by (simp add: huff_prefixes_1_def huff_decode_codes_1_def entry_eval del: One_nat_def)

lemma huff_rows_2: "list_all2 row_ok huff_prefixes_2 huff_decode_codes_2"
  by (simp add: huff_prefixes_2_def huff_decode_codes_2_def entry_eval del: One_nat_def)

lemma huff_rows_3: "list_all2 row_ok huff_prefixes_3 huff_decode_codes_3"
  by (simp add: huff_prefixes_3_def huff_decode_codes_3_def entry_eval del: One_nat_def)

lemma huff_rows_4: "list_all2 row_ok huff_prefixes_4 huff_decode_codes_4"
  by (simp add: huff_prefixes_4_def huff_decode_codes_4_def entry_eval del: One_nat_def)

lemma huff_rows_5: "list_all2 row_ok huff_prefixes_5 huff_decode_codes_5"
  by (simp add: huff_prefixes_5_def huff_decode_codes_5_def entry_eval del: One_nat_def)

lemma huff_rows_6: "list_all2 row_ok huff_prefixes_6 huff_decode_codes_6"
  by (simp add: huff_prefixes_6_def huff_decode_codes_6_def entry_eval del: One_nat_def)

lemma huff_rows_7: "list_all2 row_ok huff_prefixes_7 huff_decode_codes_7"
  by (simp add: huff_prefixes_7_def huff_decode_codes_7_def entry_eval del: One_nat_def)

lemma huff_rows_8: "list_all2 row_ok huff_prefixes_8 huff_decode_codes_8"
  by (simp add: huff_prefixes_8_def huff_decode_codes_8_def entry_eval del: One_nat_def)

lemma huff_rows_9: "list_all2 row_ok huff_prefixes_9 huff_decode_codes_9"
  by (simp add: huff_prefixes_9_def huff_decode_codes_9_def entry_eval del: One_nat_def)

lemma huff_rows_10: "list_all2 row_ok huff_prefixes_10 huff_decode_codes_10"
  by (simp add: huff_prefixes_10_def huff_decode_codes_10_def entry_eval del: One_nat_def)

lemma huff_rows_11: "list_all2 row_ok huff_prefixes_11 huff_decode_codes_11"
  by (simp add: huff_prefixes_11_def huff_decode_codes_11_def entry_eval del: One_nat_def)

lemma huff_rows_12: "list_all2 row_ok huff_prefixes_12 huff_decode_codes_12"
  by (simp add: huff_prefixes_12_def huff_decode_codes_12_def entry_eval del: One_nat_def)

lemma huff_rows_13: "list_all2 row_ok huff_prefixes_13 huff_decode_codes_13"
  by (simp add: huff_prefixes_13_def huff_decode_codes_13_def entry_eval del: One_nat_def)

lemma huff_rows_14: "list_all2 row_ok huff_prefixes_14 huff_decode_codes_14"
  by (simp add: huff_prefixes_14_def huff_decode_codes_14_def entry_eval del: One_nat_def)

lemma huff_rows_15: "list_all2 row_ok huff_prefixes_15 huff_decode_codes_15"
  by (simp add: huff_prefixes_15_def huff_decode_codes_15_def entry_eval del: One_nat_def)

lemma huff_rows_16: "list_all2 row_ok huff_prefixes_16 huff_decode_codes_16"
  by (simp add: huff_prefixes_16_def huff_decode_codes_16_def entry_eval del: One_nat_def)

lemma huff_rows_17: "list_all2 row_ok huff_prefixes_17 huff_decode_codes_17"
  by (simp add: huff_prefixes_17_def huff_decode_codes_17_def entry_eval del: One_nat_def)

lemma huff_rows_18: "list_all2 row_ok huff_prefixes_18 huff_decode_codes_18"
  by (simp add: huff_prefixes_18_def huff_decode_codes_18_def entry_eval del: One_nat_def)

section \<open>The whole table\<close>

lemma huff_rows: "list_all2 row_ok huff_prefixes ngx_http_huff_decode_codes"
  unfolding huff_prefixes_def ngx_http_huff_decode_codes_def
  by (intro list_all2_appendI huff_rows_0 huff_rows_1 huff_rows_2 huff_rows_3 huff_rows_4 huff_rows_5 huff_rows_6 huff_rows_7 huff_rows_8 huff_rows_9 huff_rows_10 huff_rows_11 huff_rows_12 huff_rows_13 huff_rows_14 huff_rows_15 huff_rows_16 huff_rows_17 huff_rows_18)

lemma upt_256: "[0..<256] = 0 # 1 # [2..<256]"
  by (subst upt_conv_Cons, simp, subst upt_conv_Cons, simp_all add: numeral_2_eq_2)

lemma huff_prefixes_states: "map fst huff_prefixes = [0..<256]"
  by (simp add: huff_prefixes_def huff_prefixes_0_def huff_prefixes_1_def huff_prefixes_2_def huff_prefixes_3_def huff_prefixes_4_def huff_prefixes_5_def huff_prefixes_6_def huff_prefixes_7_def huff_prefixes_8_def huff_prefixes_9_def huff_prefixes_10_def huff_prefixes_11_def huff_prefixes_12_def huff_prefixes_13_def huff_prefixes_14_def huff_prefixes_15_def huff_prefixes_16_def huff_prefixes_17_def huff_prefixes_18_def upt_256 upt_rec_numeral del: One_nat_def)

lemma entries_ok_nth:
  "entries_ok q l v b es \<Longrightarrow> b + length es = 16 \<and> (\<forall>i<length es. entry_ok q l v (b + i) (es ! i))"
proof (induction es arbitrary: b)
  case (Cons e es)
  then have IH: "b + 1 + length es = 16" "\<forall>i<length es. entry_ok q l v (b + 1 + i) (es ! i)"
    by fastforce+
  have "entry_ok q l v (b + i) ((e # es) ! i)" if "i < length (e # es)" for i
    using that Cons.prems IH(2) by (cases i) auto
  then show ?case using IH(1) by simp
qed simp

lemma huff_table_ok:
  assumes "q < 256" and "b < 16"
  shows "length ngx_http_huff_decode_codes = 256" and "length (ngx_http_huff_decode_codes ! q) = 16"
    and "snd (prefix_of q) < 2 ^ fst (prefix_of q)"
    and "entry_ok q (fst (prefix_of q)) (snd (prefix_of q)) b (ngx_http_huff_decode_codes ! q ! b)"
proof -
  have len: "length huff_prefixes = 256" using arg_cong [OF huff_prefixes_states, of length] by simp
  show len': "length ngx_http_huff_decode_codes = 256" using list_all2_lengthD [OF huff_rows] len by simp
  obtain l v where lv: "prefix_of q = (l, v)" by fastforce
  have "fst (huff_prefixes ! q) = map fst huff_prefixes ! q" using assms(1) len by simp
  also have "\<dots> = q" unfolding huff_prefixes_states using assms(1) by simp
  finally have "huff_prefixes ! q = (q, l, v)" using lv by (simp add: prefix_of_def prod_eq_iff)
  then have row: "v < 2 ^ l" "entries_ok q l v 0 (ngx_http_huff_decode_codes ! q)"
    using list_all2_nthD [OF huff_rows, of q] assms(1) len by (auto simp: row_ok_def)
  note nth = entries_ok_nth [OF row(2)]
  then show "length (ngx_http_huff_decode_codes ! q) = 16" by simp
  show "snd (prefix_of q) < 2 ^ fst (prefix_of q)" using row(1) lv by simp
  show "entry_ok q (fst (prefix_of q)) (snd (prefix_of q)) b (ngx_http_huff_decode_codes ! q ! b)"
    using nth assms(2) lv by simp
qed

section \<open>The code tree\<close>

text \<open>
  The codes are the leaves of a binary tree whose inner nodes are the states of the decoder; its last
  leaf is the end-of-string code of thirty ones, which no symbol has.
\<close>

datatype htree = HLeaf nat | HEos | HNode nat htree htree

definition huff_tree :: htree where
  "huff_tree =
     HNode 0 (HNode 1 (HNode 2 (HNode 3 (HNode 4 (HLeaf 48) (HLeaf 49)) (HNode 5 (HLeaf 50) (HLeaf 97)))
     (HNode 6 (HNode 7 (HLeaf 99) (HLeaf 101)) (HNode 8 (HLeaf 105) (HLeaf 111)))) (HNode 9 (HNode 10
     (HNode 11 (HLeaf 115) (HLeaf 116)) (HNode 12 (HNode 13 (HLeaf 32) (HLeaf 37)) (HNode 14 (HLeaf 45)
     (HLeaf 46)))) (HNode 15 (HNode 16 (HNode 17 (HLeaf 47) (HLeaf 51)) (HNode 18 (HLeaf 52) (HLeaf 53)))
     (HNode 19 (HNode 20 (HLeaf 54) (HLeaf 55)) (HNode 21 (HLeaf 56) (HLeaf 57)))))) (HNode 22 (HNode 23
     (HNode 24 (HNode 25 (HNode 26 (HLeaf 61) (HLeaf 65)) (HNode 27 (HLeaf 95) (HLeaf 98))) (HNode 28
     (HNode 29 (HLeaf 100) (HLeaf 102)) (HNode 30 (HLeaf 103) (HLeaf 104)))) (HNode 31 (HNode 32 (HNode
     33 (HLeaf 108) (HLeaf 109)) (HNode 34 (HLeaf 110) (HLeaf 112))) (HNode 35 (HNode 36 (HLeaf 114)
     (HLeaf 117)) (HNode 37 (HNode 38 (HLeaf 58) (HLeaf 66)) (HNode 39 (HLeaf 67) (HLeaf 68)))))) (HNode
     40 (HNode 41 (HNode 42 (HNode 43 (HNode 44 (HLeaf 69) (HLeaf 70)) (HNode 45 (HLeaf 71) (HLeaf 72)))
     (HNode 46 (HNode 47 (HLeaf 73) (HLeaf 74)) (HNode 48 (HLeaf 75) (HLeaf 76)))) (HNode 49 (HNode 50
     (HNode 51 (HLeaf 77) (HLeaf 78)) (HNode 52 (HLeaf 79) (HLeaf 80))) (HNode 53 (HNode 54 (HLeaf 81)
     (HLeaf 82)) (HNode 55 (HLeaf 83) (HLeaf 84))))) (HNode 56 (HNode 57 (HNode 58 (HNode 59 (HLeaf 85)
     (HLeaf 86)) (HNode 60 (HLeaf 87) (HLeaf 89))) (HNode 61 (HNode 62 (HLeaf 106) (HLeaf 107)) (HNode 63
     (HLeaf 113) (HLeaf 118)))) (HNode 64 (HNode 65 (HNode 66 (HLeaf 119) (HLeaf 120)) (HNode 67 (HLeaf
     121) (HLeaf 122))) (HNode 68 (HNode 69 (HNode 70 (HLeaf 38) (HLeaf 42)) (HNode 71 (HLeaf 44) (HLeaf
     59))) (HNode 72 (HNode 73 (HLeaf 88) (HLeaf 90)) (HNode 74 (HNode 75 (HNode 76 (HLeaf 33) (HLeaf
     34)) (HNode 77 (HLeaf 40) (HLeaf 41))) (HNode 78 (HNode 79 (HLeaf 63) (HNode 80 (HLeaf 39) (HLeaf
     43))) (HNode 81 (HNode 82 (HLeaf 124) (HNode 83 (HLeaf 35) (HLeaf 62))) (HNode 84 (HNode 85 (HNode
     86 (HLeaf 0) (HLeaf 36)) (HNode 87 (HLeaf 64) (HLeaf 91))) (HNode 88 (HNode 89 (HLeaf 93) (HLeaf
     126)) (HNode 90 (HNode 91 (HLeaf 94) (HLeaf 125)) (HNode 92 (HNode 93 (HLeaf 60) (HLeaf 96)) (HNode
     94 (HLeaf 123) (HNode 95 (HNode 96 (HNode 97 (HNode 98 (HLeaf 92) (HLeaf 195)) (HNode 99 (HLeaf 208)
     (HNode 100 (HLeaf 128) (HLeaf 130)))) (HNode 101 (HNode 102 (HNode 103 (HLeaf 131) (HLeaf 162))
     (HNode 104 (HLeaf 184) (HLeaf 194))) (HNode 105 (HNode 106 (HLeaf 224) (HLeaf 226)) (HNode 107
     (HNode 108 (HLeaf 153) (HLeaf 161)) (HNode 109 (HLeaf 167) (HLeaf 172)))))) (HNode 110 (HNode 111
     (HNode 112 (HNode 113 (HNode 114 (HLeaf 176) (HLeaf 177)) (HNode 115 (HLeaf 179) (HLeaf 209)))
     (HNode 116 (HNode 117 (HLeaf 216) (HLeaf 217)) (HNode 118 (HLeaf 227) (HLeaf 229)))) (HNode 119
     (HNode 120 (HNode 121 (HLeaf 230) (HNode 122 (HLeaf 129) (HLeaf 132))) (HNode 123 (HNode 124 (HLeaf
     133) (HLeaf 134)) (HNode 125 (HLeaf 136) (HLeaf 146)))) (HNode 126 (HNode 127 (HNode 128 (HLeaf 154)
     (HLeaf 156)) (HNode 129 (HLeaf 160) (HLeaf 163))) (HNode 130 (HNode 131 (HLeaf 164) (HLeaf 169))
     (HNode 132 (HLeaf 170) (HLeaf 173)))))) (HNode 133 (HNode 134 (HNode 135 (HNode 136 (HNode 137
     (HLeaf 178) (HLeaf 181)) (HNode 138 (HLeaf 185) (HLeaf 186))) (HNode 139 (HNode 140 (HLeaf 187)
     (HLeaf 189)) (HNode 141 (HLeaf 190) (HLeaf 196)))) (HNode 142 (HNode 143 (HNode 144 (HLeaf 198)
     (HLeaf 228)) (HNode 145 (HLeaf 232) (HLeaf 233))) (HNode 146 (HNode 147 (HNode 148 (HLeaf 1) (HLeaf
     135)) (HNode 149 (HLeaf 137) (HLeaf 138))) (HNode 150 (HNode 151 (HLeaf 139) (HLeaf 140)) (HNode 152
     (HLeaf 141) (HLeaf 143)))))) (HNode 153 (HNode 154 (HNode 155 (HNode 156 (HNode 157 (HLeaf 147)
     (HLeaf 149)) (HNode 158 (HLeaf 150) (HLeaf 151))) (HNode 159 (HNode 160 (HLeaf 152) (HLeaf 155))
     (HNode 161 (HLeaf 157) (HLeaf 158)))) (HNode 162 (HNode 163 (HNode 164 (HLeaf 165) (HLeaf 166))
     (HNode 165 (HLeaf 168) (HLeaf 174))) (HNode 166 (HNode 167 (HLeaf 175) (HLeaf 180)) (HNode 168
     (HLeaf 182) (HLeaf 183))))) (HNode 169 (HNode 170 (HNode 171 (HNode 172 (HLeaf 188) (HLeaf 191))
     (HNode 173 (HLeaf 197) (HLeaf 231))) (HNode 174 (HNode 175 (HLeaf 239) (HNode 176 (HLeaf 9) (HLeaf
     142))) (HNode 177 (HNode 178 (HLeaf 144) (HLeaf 145)) (HNode 179 (HLeaf 148) (HLeaf 159))))) (HNode
     180 (HNode 181 (HNode 182 (HNode 183 (HLeaf 171) (HLeaf 206)) (HNode 184 (HLeaf 215) (HLeaf 225)))
     (HNode 185 (HNode 186 (HLeaf 236) (HLeaf 237)) (HNode 187 (HNode 188 (HLeaf 199) (HLeaf 207)) (HNode
     189 (HLeaf 234) (HLeaf 235))))) (HNode 190 (HNode 191 (HNode 192 (HNode 193 (HNode 194 (HLeaf 192)
     (HLeaf 193)) (HNode 195 (HLeaf 200) (HLeaf 201))) (HNode 196 (HNode 197 (HLeaf 202) (HLeaf 205))
     (HNode 198 (HLeaf 210) (HLeaf 213)))) (HNode 199 (HNode 200 (HNode 201 (HLeaf 218) (HLeaf 219))
     (HNode 202 (HLeaf 238) (HLeaf 240))) (HNode 203 (HNode 204 (HLeaf 242) (HLeaf 243)) (HNode 205
     (HLeaf 255) (HNode 206 (HLeaf 203) (HLeaf 204)))))) (HNode 207 (HNode 208 (HNode 209 (HNode 210
     (HNode 211 (HLeaf 211) (HLeaf 212)) (HNode 212 (HLeaf 214) (HLeaf 221))) (HNode 213 (HNode 214
     (HLeaf 222) (HLeaf 223)) (HNode 215 (HLeaf 241) (HLeaf 244)))) (HNode 216 (HNode 217 (HNode 218
     (HLeaf 245) (HLeaf 246)) (HNode 219 (HLeaf 247) (HLeaf 248))) (HNode 220 (HNode 221 (HLeaf 250)
     (HLeaf 251)) (HNode 222 (HLeaf 252) (HLeaf 253))))) (HNode 223 (HNode 224 (HNode 225 (HNode 226
     (HLeaf 254) (HNode 227 (HLeaf 2) (HLeaf 3))) (HNode 228 (HNode 229 (HLeaf 4) (HLeaf 5)) (HNode 230
     (HLeaf 6) (HLeaf 7)))) (HNode 231 (HNode 232 (HNode 233 (HLeaf 8) (HLeaf 11)) (HNode 234 (HLeaf 12)
     (HLeaf 14))) (HNode 235 (HNode 236 (HLeaf 15) (HLeaf 16)) (HNode 237 (HLeaf 17) (HLeaf 18)))))
     (HNode 238 (HNode 239 (HNode 240 (HNode 241 (HLeaf 19) (HLeaf 20)) (HNode 242 (HLeaf 21) (HLeaf
     23))) (HNode 243 (HNode 244 (HLeaf 24) (HLeaf 25)) (HNode 245 (HLeaf 26) (HLeaf 27)))) (HNode 246
     (HNode 247 (HNode 248 (HLeaf 28) (HLeaf 29)) (HNode 249 (HLeaf 30) (HLeaf 31))) (HNode 250 (HNode
     251 (HLeaf 127) (HLeaf 220)) (HNode 252 (HLeaf 249) (HNode 253 (HNode 254 (HLeaf 10) (HLeaf 13))
     (HNode 255 (HLeaf 22) HEos)))))))))))))))))))))))))))))"

fun tree_ok :: "htree \<Rightarrow> nat \<Rightarrow> nat \<Rightarrow> bool" where
  "tree_ok (HLeaf s) l v = (code_of s = (l, v))"
| "tree_ok HEos l v = (l = 30 \<and> v + 1 = 2 ^ 30)"
| "tree_ok (HNode q a c) l v = (prefix_of q = (l, v) \<and> tree_ok a (l + 1) (2 * v) \<and> tree_ok c (l + 1) (2 * v + 1))"

fun tree_leaves :: "htree \<Rightarrow> nat list" where
  "tree_leaves (HLeaf s) = [s]"
| "tree_leaves HEos = []"
| "tree_leaves (HNode q a c) = tree_leaves a @ tree_leaves c"

fun tree_states :: "htree \<Rightarrow> nat list" where
  "tree_states (HNode q a c) = q # tree_states a @ tree_states c"
| "tree_states _ = []"

lemma huff_tree_ok: "tree_ok huff_tree 0 0"
  by (simp add: huff_tree_def code_of_eval prefix_of_eval del: One_nat_def)

lemma huff_tree_leaves: "list_all (\<lambda>s. s \<in> set (tree_leaves huff_tree)) [0..<256]"
  by (simp add: huff_tree_def upt_256 upt_rec_numeral del: One_nat_def)

lemma huff_tree_states: "list_all (\<lambda>s. s \<in> set (tree_states huff_tree)) [0..<256]"
  by (simp add: huff_tree_def upt_256 upt_rec_numeral del: One_nat_def)

end
