(* ===== verification/Huffman.thy ===== *)
theory Huffman
  imports Huffman_Check Ngx_Core
begin

text \<open>
  nginx's HPACK Huffman coder: the table-driven decoder of
  \<^verbatim>\<open>src/nginx/src/http/ngx_http_huff_decode.c\<close>, which consumes four bits per step, and the encoder of
  \<^verbatim>\<open>src/nginx/src/http/ngx_http_huff_encode.c\<close> on a machine with 64-bit words. The output buffer is a
  byte array with a write position; a write outside it is \<open>None\<close>.
\<close>

section \<open>The decoder\<close>

definition ngx_http_huff_decode_bits :: "nat \<Rightarrow> nat \<Rightarrow> nat \<Rightarrow> bytes \<times> nat
    \<Rightarrow> (int \<times> nat \<times> nat \<times> bytes \<times> nat) option" where
  \<comment> \<open>the status, \<open>*state\<close>, \<open>*ending\<close> and \<open>*dst\<close> after the call\<close>
  "ngx_http_huff_decode_bits state ending bits dst = do {
     row \<leftarrow> arr_get ngx_http_huff_decode_codes (int state);
     code \<leftarrow> arr_get row (int bits);
     if dc_next code = state then Some (NGX_ERROR, state, ending, dst)
     else do {
       dst \<leftarrow> (if dc_emit code \<noteq> 0
              then map_option (\<lambda>buf. (buf, snd dst + 1)) (arr_set (fst dst) (int (snd dst)) (of_nat (dc_sym code)))
              else Some dst);
       Some (NGX_OK, dc_next code, dc_ending code, dst)
     }
   }"

fun huff_decode_loop :: "nat \<Rightarrow> nat \<Rightarrow> bytes \<Rightarrow> bytes \<times> nat \<Rightarrow> (int \<times> nat \<times> nat \<times> bytes \<times> nat) option" where
  "huff_decode_loop state ending [] dst = Some (NGX_OK, state, ending, dst)"
| "huff_decode_loop state ending (ch # src) dst = do {
     (rc, state, ending, dst) \<leftarrow> ngx_http_huff_decode_bits state ending (unat (drop_bit 4 ch)) dst;
     if rc \<noteq> NGX_OK then Some (NGX_ERROR, state, ending, dst)
     else do {
       (rc, state, ending, dst) \<leftarrow> ngx_http_huff_decode_bits state ending (unat (ch AND 0xf)) dst;
       if rc \<noteq> NGX_OK then Some (NGX_ERROR, state, ending, dst)
       else huff_decode_loop state ending src dst
     }
   }"

definition ngx_http_huff_decode :: "nat \<Rightarrow> bytes \<Rightarrow> bytes \<times> nat \<Rightarrow> bool
    \<Rightarrow> (int \<times> nat \<times> bytes \<times> nat) option" where
  "ngx_http_huff_decode state src dst lst = do {
     (rc, state, ending, dst) \<leftarrow> huff_decode_loop state 1 src dst;
     if rc \<noteq> NGX_OK then Some (NGX_ERROR, state, dst)
     else if lst then
       (if ending = 0 then Some (NGX_ERROR, state, dst) else Some (NGX_OK, 0, dst))
     else Some (NGX_OK, state, dst)
   }"

section \<open>Bit strings\<close>

fun bits :: "nat \<Rightarrow> nat \<Rightarrow> bool list" where
  "bits 0 v = []"
| "bits (Suc l) v = bits l (v div 2) @ [odd v]"

definition byte_bits :: "u8 \<Rightarrow> bool list" where
  "byte_bits c = bits 8 (unat c)"

definition stream :: "bytes \<Rightarrow> bool list" where
  "stream bs = concat (map byte_bits bs)"

definition huff_code :: "nat \<Rightarrow> bool list" where
  "huff_code s = bits (fst (code_of s)) (snd (code_of s))"

definition state_bits :: "nat \<Rightarrow> bool list" where
  "state_bits q = bits (fst (prefix_of q)) (snd (prefix_of q))"

definition enc :: "bytes \<Rightarrow> bool list" where
  \<comment> \<open>the concatenation of the codes\<close>
  "enc s = concat (map (\<lambda>c. huff_code (unat c)) s)"

lemma length_bits [simp]: "length (bits l v) = l"
  by (induction l arbitrary: v) auto

lemma bits_append: "v2 < 2 ^ l2 \<Longrightarrow> bits (l1 + l2) (v1 * 2 ^ l2 + v2) = bits l1 v1 @ bits l2 v2"
proof (induction l2 arbitrary: v2)
  case (Suc l2)
  have "(v1 * 2 ^ Suc l2 + v2) div 2 = v1 * 2 ^ l2 + v2 div 2" by simp
  moreover have "v2 div 2 < 2 ^ l2" using Suc.prems by auto
  ultimately show ?case using Suc.IH [of "v2 div 2"] by simp
qed simp

lemma bits_ones: "bits l (2 ^ l - 1) = replicate l True"
proof (induction l)
  case (Suc l)
  have "(2 ^ Suc l - 1) div 2 = 2 ^ l - (1::nat)" and "odd (2 ^ Suc l - (1::nat))" by auto
  then show ?case using Suc by (simp add: replicate_append_same)
qed simp

lemma bits_inj: "bits l v = bits l w \<Longrightarrow> v < 2 ^ l \<Longrightarrow> w < 2 ^ l \<Longrightarrow> v = w"
proof (induction l arbitrary: v w)
  case (Suc l)
  then have "v div 2 = w div 2" "odd v = odd w" by auto
  then show ?case by (metis div_mult_mod_eq odd_iff_mod_2_eq_one parity_cases)
qed simp

lemma bits_all_ones: "v < 2 ^ l \<Longrightarrow> bits l v = replicate l True \<longleftrightarrow> v + 1 = 2 ^ l"
proof
  assume v: "v < 2 ^ l" and "bits l v = replicate l True"
  then have "v = 2 ^ l - 1" using bits_inj [of l v "2 ^ l - 1"] bits_ones [of l] by auto
  then show "v + 1 = 2 ^ l" by simp
next
  assume "v + 1 = 2 ^ l"
  then have "v = 2 ^ l - 1" by simp
  then show "bits l v = replicate l True" using bits_ones by simp
qed

lemma unat_nibbles:
  fixes c :: u8
  shows "unat (drop_bit 4 c) = unat c div 16" and "unat (c AND 0xf) = unat c mod 16"
proof -
  show "unat (drop_bit 4 c) = unat c div 16" unfolding unat_drop_bit_eq by (simp add: drop_bit_eq_div)
  have "unat (c AND 0xf) = unat (take_bit 4 c)" by (simp add: take_bit_eq_mask mask_eq_exp_minus_1)
  then show "unat (c AND 0xf) = unat c mod 16" unfolding unsigned_take_bit_eq by (simp add: take_bit_eq_mod)
qed

lemma byte_bits_nibbles: "byte_bits c = bits 4 (unat (drop_bit 4 c)) @ bits 4 (unat (c AND 0xf))"
  using bits_append [of "unat c mod 16" 4 4 "unat c div 16"] by (simp add: byte_bits_def unat_nibbles)

lemma nibble_less: "unat (drop_bit 4 (c :: u8)) < 16" "unat (c AND 0xf) < 16"
proof -
  have "unat c < 2 ^ LENGTH(8)" by (rule unsigned_less)
  then show "unat (drop_bit 4 c) < 16" "unat (c AND 0xf) < 16" by (simp_all add: unat_nibbles)
qed

section \<open>One step of the decoder\<close>

lemma has_eos_bits:
  assumes "v < 2 ^ l"
  shows "has_eos (l, v) \<longleftrightarrow> (\<exists>r. bits l v = replicate 30 True @ r)"
proof
  assume eos: "has_eos (l, v)"
  then have l: "l = 30 + (l - 30)" and v: "v div 2 ^ (l - 30) = 2 ^ 30 - 1" by (auto simp: has_eos_def)
  have "v = (2 ^ 30 - 1) * 2 ^ (l - 30) + v mod 2 ^ (l - 30)" using v div_mult_mod_eq by metis
  then have "bits l v = bits 30 (2 ^ 30 - 1) @ bits (l - 30) (v mod 2 ^ (l - 30))"
    using bits_append [of "v mod 2 ^ (l - 30)" "l - 30" 30 "2 ^ 30 - 1"] l by simp
  then show "\<exists>r. bits l v = replicate 30 True @ r" using bits_ones [of 30] by metis
next
  assume "\<exists>r. bits l v = replicate 30 True @ r"
  then obtain r where r: "bits l v = replicate 30 True @ r" by blast
  from arg_cong [OF r, of length] have l: "l = 30 + (l - 30)" by simp
  let ?h = "v div 2 ^ (l - 30)" and ?t = "v mod 2 ^ (l - 30)"
  have "bits (30 + (l - 30)) (?h * 2 ^ (l - 30) + ?t) = bits 30 ?h @ bits (l - 30) ?t"
    by (rule bits_append) simp
  then have "bits l v = bits 30 ?h @ bits (l - 30) ?t" using l by (simp only: div_mult_mod_eq)
  then have "bits 30 ?h = replicate 30 True" using r by simp
  moreover have "?h < 2 ^ 30"
  proof -
    have "v < 2 ^ 30 * 2 ^ (l - 30)" using assms l by (metis power_add)
    then show ?thesis by (simp add: less_mult_imp_div_less)
  qed
  ultimately have "?h + 1 = 2 ^ 30" by (simp only: bits_all_ones)
  then show "has_eos (l, v)" using l by (simp add: has_eos_def)
qed

definition eos :: "bool list \<Rightarrow> bool" where
  "eos bs \<longleftrightarrow> (\<exists>r. bs = replicate 30 True @ r)"

lemma eos_append: "eos a \<Longrightarrow> eos (a @ b)"
  by (metis append.assoc eos_def)

definition all_ones :: "bool list \<Rightarrow> bool" where
  "all_ones bs \<longleftrightarrow> bs = replicate (length bs) True"

lemma state_step:
  assumes "q < 256" and "b < 16"
  defines "e \<equiv> ngx_http_huff_decode_codes ! q ! b"
  shows "eos (state_bits q @ bits 4 b) \<longleftrightarrow> dc_next e = q"
    and "dc_next e \<noteq> q \<Longrightarrow> dc_next e < 256 \<and> dc_sym e < 256 \<and>
      state_bits q @ bits 4 b = (if dc_emit e = 0 then [] else huff_code (dc_sym e)) @ state_bits (dc_next e) \<and>
      (dc_ending e \<noteq> 0 \<longleftrightarrow> all_ones (state_bits (dc_next e)))"
proof -
  obtain l v where lv: "prefix_of q = (l, v)" by fastforce
  have v: "v < 2 ^ l" and ok: "entry_ok q l v b e"
    using huff_table_ok(3,4) [OF assms(1,2)] lv by (simp_all add: e_def)
  have split: "state_bits q @ bits 4 b = bits (l + 4) (v * 16 + b)"
    using bits_append [of b 4 l v] assms(2) lv by (simp add: state_bits_def)
  have "v * 16 + b < 2 ^ (l + 4)"
  proof -
    have "Suc v * 16 \<le> 2 ^ l * 16" using v by (intro mult_le_mono1) simp
    then show ?thesis using assms(2) by (simp add: power_add)
  qed
  then have eos_iff: "eos (state_bits q @ bits 4 b) \<longleftrightarrow> has_eos (l + 4, v * 16 + b)"
    using has_eos_bits by (simp add: eos_def split)
  show "eos (state_bits q @ bits 4 b) \<longleftrightarrow> dc_next e = q"
    using ok by (auto simp: eos_iff entry_ok_def split: if_splits)
  show "dc_next e < 256 \<and> dc_sym e < 256 \<and>
      state_bits q @ bits 4 b = (if dc_emit e = 0 then [] else huff_code (dc_sym e)) @ state_bits (dc_next e) \<and>
      (dc_ending e \<noteq> 0 \<longleftrightarrow> all_ones (state_bits (dc_next e)))" if "dc_next e \<noteq> q"
  proof -
    obtain l' v' where lv': "prefix_of (dc_next e) = (l', v')" by fastforce
    define c where "c = (if dc_emit e = 0 then (0, 0) else code_of (dc_sym e))"
    obtain cl cv where c: "c = (cl, cv)" by fastforce
    have f: "dc_next e < 256" "dc_sym e < 256" "cl + l' = l + 4" "cv * 2 ^ l' + v' = v * 16 + b"
        "dc_ending e \<noteq> 0 \<longleftrightarrow> v' + 1 = 2 ^ l'"
      using ok that lv' c by (auto simp: entry_ok_def c_def split: if_splits)
    have v': "v' < 2 ^ l'" using huff_table_ok(3) [OF f(1), of 0] lv' by simp
    have "bits (l + 4) (v * 16 + b) = bits cl cv @ bits l' v'"
      using bits_append [OF v', of cl cv] f(3,4) by simp
    moreover have "bits cl cv = (if dc_emit e = 0 then [] else huff_code (dc_sym e))"
      using c by (auto simp: c_def huff_code_def split: if_splits)
    moreover have "state_bits (dc_next e) = bits l' v'" using lv' by (simp add: state_bits_def)
    moreover have "all_ones (bits l' v') \<longleftrightarrow> v' + 1 = 2 ^ l'"
      using bits_all_ones [OF v'] by (simp add: all_ones_def)
    ultimately show ?thesis using f(1,2,5) split by simp
  qed
qed


lemma enc_simps [simp]: "enc [] = []" "enc (c # s) = huff_code (unat c) @ enc s" "enc (s @ t) = enc s @ enc t"
  by (simp_all add: enc_def)

lemma stream_simps [simp]: "stream [] = []" "stream (c # s) = byte_bits c @ stream s"
  by (simp_all add: stream_def)

text \<open>Every code has between 5 and 30 bits and contains a zero.\<close>

lemma code_of_range: "list_all (\<lambda>s. 5 \<le> fst (code_of s) \<and> fst (code_of s) \<le> 30 \<and>
    snd (code_of s) + 1 < 2 ^ fst (code_of s)) [0..<256]"
  by (simp add: upt_256 upt_rec_numeral code_of_eval del: One_nat_def)

lemma huff_code_facts:
  assumes "s < 256"
  shows "5 \<le> length (huff_code s)" "length (huff_code s) \<le> 30" "False \<in> set (huff_code s)"
proof -
  have r: "5 \<le> fst (code_of s)" "fst (code_of s) \<le> 30" "snd (code_of s) + 1 < 2 ^ fst (code_of s)"
    using code_of_range assms by (auto simp: list_all_iff)
  then show "5 \<le> length (huff_code s)" "length (huff_code s) \<le> 30" by (simp_all add: huff_code_def)
  have "huff_code s \<noteq> replicate (fst (code_of s)) True"
    using bits_all_ones [of "snd (code_of s)" "fst (code_of s)"] r(3) by (simp add: huff_code_def)
  then show "False \<in> set (huff_code s)"
    by (metis (full_types) length_bits huff_code_def replicate_eqI)
qed

lemma length_enc: "5 * length s \<le> length (enc s)"
proof (induction s)
  case (Cons c s)
  have "unat c < 256" using unsigned_less [of c, where 'a = nat] by simp
  then show ?case using Cons huff_code_facts(1) [of "unat c"] by simp
qed simp

section \<open>The decoding loop\<close>

definition put :: "bytes \<times> nat \<Rightarrow> bytes \<Rightarrow> bytes \<times> nat" where
  "put dst out = (blit (fst dst) (snd dst) out, snd dst + length out)"

lemma put_simps [simp]: "put dst [] = dst" by (simp add: put_def blit_def)

lemma arr_set_put:
  "snd dst < length (fst dst) \<Longrightarrow>
   map_option (\<lambda>buf. (buf, snd dst + 1)) (arr_set (fst dst) (int (snd dst)) c) = Some (put dst [c])"
  by (simp add: arr_set_def put_def blit_def upd_conv_take_nth_drop)

lemma put_put:
  assumes "snd dst + length a \<le> length (fst dst)"
  shows "put (put dst a) b = put dst (a @ b)"
  using assms by (simp add: put_def blit_def ac_simps)

lemma length_put: "snd dst + length a \<le> length (fst dst) \<Longrightarrow> length (fst (put dst a)) = length (fst dst)"
  by (simp add: put_def)

text \<open>A call either consumes the four bits, with at most one symbol, or meets the end-of-string code.\<close>

lemma decode_bits_ok:
  assumes q: "q < 256" and b: "b < 16" and room: "snd dst < length (fst dst) \<or> length (state_bits q) < 1"
  shows "\<exists>rc q' e out. ngx_http_huff_decode_bits q e0 b dst = Some (rc, q', e, put dst out) \<and> length out \<le> 1 \<and>
    (if rc = NGX_OK then q' < 256 \<and> state_bits q @ bits 4 b = enc out @ state_bits q' \<and>
        (e \<noteq> 0 \<longleftrightarrow> all_ones (state_bits q'))
     else rc = NGX_ERROR \<and> q' = q \<and> out = [] \<and> eos (state_bits q @ bits 4 b))"
proof -
  let ?e = "ngx_http_huff_decode_codes ! q ! b"
  have row: "arr_get ngx_http_huff_decode_codes (int q) = Some (ngx_http_huff_decode_codes ! q)"
      "arr_get (ngx_http_huff_decode_codes ! q) (int b) = Some ?e"
    using huff_table_ok(1,2) [OF q b] q b by (simp_all add: arr_get_def)
  note st = state_step [OF q b]
  show ?thesis
  proof (cases "dc_next ?e = q")
    case True
    then have "ngx_http_huff_decode_bits q e0 b dst = Some (NGX_ERROR, q, e0, put dst [])"
      using row by (simp add: ngx_http_huff_decode_bits_def)
    then show ?thesis
      using st(1) True
      by (intro exI [of _ NGX_ERROR] exI [of _ q] exI [of _ e0] exI [of _ "[]"]) simp
  next
    case False
    note f = st(2) [OF False]
    show ?thesis
    proof (cases "dc_emit ?e = 0")
      case True
      then have "ngx_http_huff_decode_bits q e0 b dst = Some (NGX_OK, dc_next ?e, dc_ending ?e, put dst [])"
        using row False by (simp add: ngx_http_huff_decode_bits_def)
      then show ?thesis
        using f True by (intro exI [of _ NGX_OK] exI [of _ "dc_next ?e"] exI [of _ "dc_ending ?e"] exI [of _ "[]"]) simp
    next
      case em: False
      have "length (state_bits q) \<ge> 1"
      proof -
        have eq: "state_bits q @ bits 4 b = huff_code (dc_sym ?e) @ state_bits (dc_next ?e)" using f em by simp
        have "length (state_bits q) + 4 = length (huff_code (dc_sym ?e)) + length (state_bits (dc_next ?e))"
          using arg_cong [OF eq, of length] by simp
        then show ?thesis using huff_code_facts(1) [of "dc_sym ?e"] f by simp
      qed
      then have "map_option (\<lambda>buf. (buf, snd dst + 1)) (arr_set (fst dst) (int (snd dst)) (of_nat (dc_sym ?e))) =
          Some (put dst [of_nat (dc_sym ?e)])"
        using room by (intro arr_set_put) linarith
      then have "ngx_http_huff_decode_bits q e0 b dst =
          Some (NGX_OK, dc_next ?e, dc_ending ?e, put dst [of_nat (dc_sym ?e)])"
        using row False em by (auto simp: ngx_http_huff_decode_bits_def)
      moreover have "unat (of_nat (dc_sym ?e) :: u8) = dc_sym ?e" using f by (simp add: unat_of_nat)
      ultimately show ?thesis
        using f em by (intro exI [of _ NGX_OK] exI [of _ "dc_next ?e"] exI [of _ "dc_ending ?e"]
            exI [of _ "[of_nat (dc_sym ?e)]"]) simp
    qed
  qed
qed


definition loop_post :: "nat \<Rightarrow> bytes \<Rightarrow> int \<Rightarrow> nat \<Rightarrow> nat \<Rightarrow> bytes \<Rightarrow> bool" where
  "loop_post q src rc q' e out \<longleftrightarrow>
     (if rc = NGX_OK then q' < 256 \<and> state_bits q @ stream src = enc out @ state_bits q' \<and>
        (e \<noteq> 0 \<longleftrightarrow> all_ones (state_bits q'))
      else rc = NGX_ERROR \<and> (\<exists>r. state_bits q @ stream src = enc out @ r \<and> eos r))"

lemma loop_post_step:
  assumes "loop_post q2 src rc q' e out" and "state_bits q @ stream (c # src) = enc s @ state_bits q2 @ stream src"
  shows "loop_post q (c # src) rc q' e (s @ out)"
  using assms unfolding loop_post_def by (metis append.assoc enc_simps(3))

lemma decode_loop_ok:
  "q < 256 \<Longrightarrow> length (state_bits q) + 8 * length src < 5 * (length (fst dst) - snd dst) + 5 \<Longrightarrow>
   snd dst \<le> length (fst dst) \<Longrightarrow> (e0 \<noteq> 0 \<longleftrightarrow> all_ones (state_bits q)) \<Longrightarrow>
   \<exists>rc q' e out. huff_decode_loop q e0 src dst = Some (rc, q', e, put dst out) \<and>
     snd dst + length out \<le> length (fst dst) \<and> loop_post q src rc q' e out"
proof (induction src arbitrary: q e0 dst)
  case Nil
  then have "loop_post q [] NGX_OK q e0 []" by (simp add: loop_post_def)
  moreover have "huff_decode_loop q e0 [] dst = Some (NGX_OK, q, e0, put dst [])" by simp
  moreover have "snd dst + length ([] :: bytes) \<le> length (fst dst)" using Nil by simp
  ultimately show ?case by blast
next
  case (Cons c src)
  let ?h = "unat (drop_bit 4 c)" and ?l = "unat (c AND 0xf)"
  have room1: "snd dst < length (fst dst) \<or> length (state_bits q) < 1" using Cons.prems(2) by auto
  obtain rc1 q1 e1 out1 where
      1: "ngx_http_huff_decode_bits q e0 ?h dst = Some (rc1, q1, e1, put dst out1)" "length out1 \<le> 1"
      and r1: "if rc1 = NGX_OK then q1 < 256 \<and> state_bits q @ bits 4 ?h = enc out1 @ state_bits q1 \<and>
          (e1 \<noteq> 0 \<longleftrightarrow> all_ones (state_bits q1))
        else rc1 = NGX_ERROR \<and> q1 = q \<and> out1 = [] \<and> eos (state_bits q @ bits 4 ?h)"
    using decode_bits_ok [OF Cons.prems(1) nibble_less(1) room1] by metis
  show ?case
  proof (cases "rc1 = NGX_OK")
    case False
    have "state_bits q @ stream (c # src) = (state_bits q @ bits 4 ?h) @ bits 4 ?l @ stream src"
      by (simp add: byte_bits_nibbles)
    moreover have "eos (state_bits q @ bits 4 ?h)" using r1 False by simp
    then have "eos ((state_bits q @ bits 4 ?h) @ bits 4 ?l @ stream src)" by (rule eos_append)
    ultimately have "loop_post q (c # src) NGX_ERROR q e1 []"
      by (auto simp: loop_post_def)
    moreover have "huff_decode_loop q e0 (c # src) dst = Some (NGX_ERROR, q, e1, put dst [])"
      using 1 r1 False by simp
    moreover have "snd dst + length ([] :: bytes) \<le> length (fst dst)" using Cons.prems(3) by simp
    ultimately show ?thesis by blast
  next
    case True
    let ?d1 = "put dst out1"
    from r1 True have q1: "q1 < 256" and b1: "state_bits q @ bits 4 ?h = enc out1 @ state_bits q1" by auto
    have l1: "length (state_bits q) + 4 = length (enc out1) + length (state_bits q1)"
      using arg_cong [OF b1, of length] by simp
    have in1: "snd dst + length out1 \<le> length (fst dst)"
      using length_enc [of out1] l1 Cons.prems(2,3) 1(2) room1 by (cases out1) auto
    have len1: "length (fst ?d1) = length (fst dst)" "snd ?d1 = snd dst + length out1"
      using length_put [OF in1] by (simp_all add: put_def)
    have budget1: "length (state_bits q1) + 4 + 8 * length src < 5 * (length (fst ?d1) - snd ?d1) + 5"
      using l1 length_enc [of out1] Cons.prems(2) in1 len1 by simp
    have room2: "snd ?d1 < length (fst ?d1) \<or> length (state_bits q1) < 1"
    proof (rule disjCI)
      assume "\<not> length (state_bits q1) < 1"
      then have "0 < length (fst ?d1) - snd ?d1" using budget1 by linarith
      then show "snd ?d1 < length (fst ?d1)" by simp
    qed
    obtain rc2 q2 e2 out2 where
        2: "ngx_http_huff_decode_bits q1 e1 ?l ?d1 = Some (rc2, q2, e2, put ?d1 out2)" "length out2 \<le> 1"
        and r2: "if rc2 = NGX_OK then q2 < 256 \<and> state_bits q1 @ bits 4 ?l = enc out2 @ state_bits q2 \<and>
            (e2 \<noteq> 0 \<longleftrightarrow> all_ones (state_bits q2))
          else rc2 = NGX_ERROR \<and> q2 = q1 \<and> out2 = [] \<and> eos (state_bits q1 @ bits 4 ?l)"
      using decode_bits_ok [OF q1 nibble_less(2) room2] by metis
    have bits12: "state_bits q @ stream (c # src) = enc out1 @ (state_bits q1 @ bits 4 ?l) @ stream src"
      using b1 by (metis append.assoc byte_bits_nibbles stream_simps(2))
    show ?thesis
    proof (cases "rc2 = NGX_OK")
      case False
      then have "eos (state_bits q1 @ bits 4 ?l)" using r2 by simp
      then have "eos ((state_bits q1 @ bits 4 ?l) @ stream src)" by (rule eos_append)
      then have "loop_post q (c # src) NGX_ERROR q2 e2 out1"
        using bits12 by (auto simp: loop_post_def simp del: stream_simps)
      moreover have "huff_decode_loop q e0 (c # src) dst = Some (NGX_ERROR, q2, e2, put dst out1)"
        using 1 2 r2 True False by simp
      ultimately show ?thesis using in1 by blast
    next
      case ok2: True
      let ?d2 = "put ?d1 out2"
      from r2 ok2 have q2: "q2 < 256" and b2: "state_bits q1 @ bits 4 ?l = enc out2 @ state_bits q2"
        and e2: "e2 \<noteq> 0 \<longleftrightarrow> all_ones (state_bits q2)" by auto
      have l2: "length (state_bits q1) + 4 = length (enc out2) + length (state_bits q2)"
        using arg_cong [OF b2, of length] by simp
      have in2: "snd ?d1 + length out2 \<le> length (fst ?d1)"
        using length_enc [of out2] l2 budget1 len1 in1 2(2) room2 by (cases out2) auto
      have len2: "length (fst ?d2) = length (fst dst)" "snd ?d2 = snd dst + length out1 + length out2"
        using length_put [OF in2] len1 by (simp_all add: put_def)
      have budget2: "length (state_bits q2) + 8 * length src < 5 * (length (fst ?d2) - snd ?d2) + 5"
        using l2 length_enc [of out2] budget1 in2 len1 len2 by simp
      have in2': "snd ?d2 \<le> length (fst ?d2)" using in2 len1 len2 by simp
      obtain rc q' e out where ih: "huff_decode_loop q2 e2 src ?d2 = Some (rc, q', e, put ?d2 out)"
          "snd ?d2 + length out \<le> length (fst ?d2)" "loop_post q2 src rc q' e out"
        using Cons.IH [OF q2 budget2 in2' e2] by blast
      have all: "state_bits q @ stream (c # src) = enc (out1 @ out2) @ state_bits q2 @ stream src"
        using bits12 b2 by simp
      have "put ?d2 out = put dst ((out1 @ out2) @ out)"
        using put_put [OF in1] put_put [of dst "out1 @ out2"] in2 len1 by simp
      moreover have "huff_decode_loop q e0 (c # src) dst = huff_decode_loop q2 e2 src ?d2"
        using 1 2 True ok2 by simp
      moreover have "snd dst + length ((out1 @ out2) @ out) \<le> length (fst dst)"
        using ih(2) len2 by simp
      ultimately show ?thesis
        using ih(1) loop_post_step [OF ih(3) all] by metis
    qed
  qed
qed


section \<open>Unique decodability\<close>

fun walk :: "htree \<Rightarrow> bool list \<Rightarrow> htree option" where
  "walk t [] = Some t"
| "walk (HNode q a c) (b # bs) = walk (if b then c else a) bs"
| "walk _ (b # bs) = None"

lemma walk_append: "walk t (xs @ ys) = Option.bind (walk t xs) (\<lambda>u. walk u ys)"
  by (induction t xs rule: walk.induct) auto

lemma bits_snoc: "bits (l + 1) (2 * v) = bits l v @ [False]" "bits (l + 1) (2 * v + 1) = bits l v @ [True]"
  by simp_all

lemma walk_leaf:
  "tree_ok t l v \<Longrightarrow> walk u (bits l v) = Some t \<Longrightarrow> s \<in> set (tree_leaves t) \<Longrightarrow>
   walk u (huff_code s) = Some (HLeaf s)"
proof (induction t arbitrary: l v)
  case (HNode q a c)
  have "walk u (bits (l + 1) (2 * v)) = Some a" "walk u (bits (l + 1) (2 * v + 1)) = Some c"
    using HNode.prems(2) by (simp_all only: bits_snoc walk_append) simp_all
  then show ?case using HNode by auto
qed (auto simp: huff_code_def)

lemma walk_state:
  "tree_ok t l v \<Longrightarrow> walk u (bits l v) = Some t \<Longrightarrow> q \<in> set (tree_states t) \<Longrightarrow>
   \<exists>a c. walk u (state_bits q) = Some (HNode q a c)"
proof (induction t arbitrary: l v)
  case (HNode q' a c)
  have "walk u (bits (l + 1) (2 * v)) = Some a" "walk u (bits (l + 1) (2 * v + 1)) = Some c"
    using HNode.prems(2) by (simp_all only: bits_snoc walk_append) simp_all
  then show ?case using HNode by (auto simp: state_bits_def)
qed auto

lemma walk_huff_code: "s < 256 \<Longrightarrow> walk huff_tree (huff_code s) = Some (HLeaf s)"
  using huff_tree_leaves by (intro walk_leaf [OF huff_tree_ok]) (auto simp: list_all_iff)

lemma walk_state_bits: "q < 256 \<Longrightarrow> \<exists>a c. walk huff_tree (state_bits q) = Some (HNode q a c)"
  using huff_tree_states by (intro walk_state [OF huff_tree_ok]) (auto simp: list_all_iff)

lemma walk_past_code: "a < 256 \<Longrightarrow> walk huff_tree (huff_code a @ z) = (if z = [] then Some (HLeaf a) else None)"
  by (cases z) (simp_all add: walk_append walk_huff_code)

lemma huff_code_prefix_free:
  assumes "a < 256" and "b < 256" and "huff_code a @ x = huff_code b @ y"
  shows "a = b"
proof -
  have "\<exists>z. huff_code a = huff_code b @ z \<or> huff_code b = huff_code a @ z"
    using assms(3) by (metis append_eq_append_conv2)
  then obtain z where "huff_code a = huff_code b @ z \<or> huff_code b = huff_code a @ z" by blast
  then have "walk huff_tree (huff_code b @ z) = Some (HLeaf a) \<or> walk huff_tree (huff_code a @ z) = Some (HLeaf b)"
    using walk_huff_code [OF assms(1)] walk_huff_code [OF assms(2)] by metis
  then show ?thesis by (simp add: walk_past_code assms(1,2) split: if_splits) auto
qed

definition no_code :: "bool list \<Rightarrow> bool" where
  "no_code t \<longleftrightarrow> (\<forall>a<256. \<forall>z. t \<noteq> huff_code a @ z)"

lemma no_code_state: "q < 256 \<Longrightarrow> no_code (state_bits q)"
proof -
  assume "q < 256"
  then obtain a c where w: "walk huff_tree (state_bits q) = Some (HNode q a c)"
    using walk_state_bits by blast
  have "state_bits q \<noteq> huff_code s @ z" if "s < 256" for s z
    using w walk_past_code [OF that, of z] by (auto split: if_splits)
  then show ?thesis by (simp add: no_code_def)
qed

lemma no_code_ones: "no_code (replicate k True)"
proof -
  have "replicate k True \<noteq> huff_code a @ z" if "a < 256" for a z
  proof
    assume eq: "replicate k True = huff_code a @ z"
    have "False \<in> set (replicate k True)" unfolding eq using huff_code_facts(3) [OF that] by simp
    then show False by simp
  qed
  then show ?thesis by (simp add: no_code_def)
qed

lemma no_code_eos: "eos r \<Longrightarrow> no_code r"
proof -
  assume "eos r"
  then obtain r' where r: "r = replicate 30 True @ r'" by (auto simp: eos_def)
  have "r \<noteq> huff_code a @ z" if "a < 256" for a z
  proof
    assume "r = huff_code a @ z"
    then have "huff_code a = take (length (huff_code a)) (replicate 30 True @ r')" using r by simp
    then have "huff_code a = replicate (length (huff_code a)) True"
      using huff_code_facts(2) [OF that] by simp
    then have "set (huff_code a) \<subseteq> {True}" by (metis set_replicate_conv_if subset_insertI2 subset_refl empty_subsetI)
    then show False using huff_code_facts(3) [OF that] by auto
  qed
  then show ?thesis by (simp add: no_code_def)
qed

lemma unat_u8: "unat (c :: u8) < 256"
  using unsigned_less [of c, where 'a = nat] by simp

lemma enc_unique:
  "no_code t1 \<Longrightarrow> no_code t2 \<Longrightarrow> enc s1 @ t1 = enc s2 @ t2 \<Longrightarrow> s1 = s2 \<and> t1 = t2"
proof (induction s1 arbitrary: s2)
  case Nil
  then show ?case using unat_u8 by (cases s2) (auto simp: no_code_def)
next
  case (Cons a s1)
  show ?case
  proof (cases s2)
    case Nil
    then have "t2 = huff_code (unat a) @ enc s1 @ t1" using Cons.prems(3) by simp
    then show ?thesis using Cons.prems(2) unat_u8 [of a] by (auto simp: no_code_def)
  next
    case (Cons b s2')
    then have eq: "huff_code (unat a) @ enc s1 @ t1 = huff_code (unat b) @ enc s2' @ t2"
      using Cons.prems(3) by simp
    then have "unat a = unat b" by (rule huff_code_prefix_free [OF unat_u8 unat_u8])
    then show ?thesis using Cons.IH [of s2'] Cons.prems(1,2) eq Cons by (simp add: unsigned_word_eqI)
  qed
qed

lemma prefix_of_range: "list_all (\<lambda>q. fst (prefix_of q) < 30) [0..<256]"
  by (simp add: upt_256 upt_rec_numeral prefix_of_eval del: One_nat_def)

lemma length_state_bits: "q < 256 \<Longrightarrow> length (state_bits q) < 30"
  using prefix_of_range by (auto simp: list_all_iff state_bits_def)


section \<open>The decoder on a whole string\<close>

lemma all_ones_replicate: "all_ones t \<Longrightarrow> t = replicate (length t) True" and
  all_ones_rep [simp]: "all_ones (replicate k True)"
  by (auto simp: all_ones_def)

lemma decode_ok:
  assumes q: "q < 256" and budget: "length (state_bits q) + 8 * length src < 5 * (length (fst dst) - snd dst) + 5"
    and "snd dst \<le> length (fst dst)" and "all_ones (state_bits q)"
  shows "\<exists>rc q' out. ngx_http_huff_decode q src dst True = Some (rc, q', put dst out) \<and>
    snd dst + length out \<le> length (fst dst) \<and>
    (if rc = NGX_OK then q' = 0 \<and> (\<exists>k<30. state_bits q @ stream src = enc out @ replicate k True)
     else rc = NGX_ERROR \<and> (\<forall>s k. k < 30 \<longrightarrow> state_bits q @ stream src \<noteq> enc s @ replicate k True))"
proof -
  have "(1::nat) \<noteq> 0 \<longleftrightarrow> all_ones (state_bits q)" using assms(4) by simp
  from decode_loop_ok [OF q budget assms(3) this] obtain rc q' e out where
      l: "huff_decode_loop q 1 src dst = Some (rc, q', e, put dst out)"
      "snd dst + length out \<le> length (fst dst)" "loop_post q src rc q' e out"
    by blast
  show ?thesis
  proof (cases "rc = NGX_OK")
    case True
    then have f: "q' < 256" "state_bits q @ stream src = enc out @ state_bits q'" "e \<noteq> 0 \<longleftrightarrow> all_ones (state_bits q')"
      using l(3) by (simp_all add: loop_post_def)
    show ?thesis
    proof (cases "e = 0")
      case e: True
      have "state_bits q @ stream src \<noteq> enc s @ replicate k True" for s k
      proof
        assume "state_bits q @ stream src = enc s @ replicate k True"
        then have "state_bits q' = replicate k True"
          using enc_unique [OF no_code_state [OF f(1)] no_code_ones] f(2) by metis
        then show False using f(3) e by simp
      qed
      moreover have "ngx_http_huff_decode q src dst True = Some (NGX_ERROR, q', put dst out)"
        using l(1) True e by (simp add: ngx_http_huff_decode_def)
      moreover have "NGX_ERROR \<noteq> NGX_OK" by simp
      ultimately show ?thesis using l(2) by metis
    next
      case e: False
      then have "state_bits q' = replicate (length (state_bits q')) True"
        using f(3) by (simp add: all_ones_def)
      moreover have "length (state_bits q') < 30" by (rule length_state_bits [OF f(1)])
      moreover have "ngx_http_huff_decode q src dst True = Some (NGX_OK, 0, put dst out)"
        using l(1) True e by (simp add: ngx_http_huff_decode_def)
      ultimately show ?thesis using l(2) f(2) by metis
    qed
  next
    case False
    then obtain r where r: "rc = NGX_ERROR" "state_bits q @ stream src = enc out @ r" "eos r"
      using l(3) by (auto simp: loop_post_def)
    have "state_bits q @ stream src \<noteq> enc s @ replicate k True" if "k < 30" for s k
    proof
      assume "state_bits q @ stream src = enc s @ replicate k True"
      then have "r = replicate k True"
        using enc_unique [OF no_code_eos [OF r(3)] no_code_ones] r(2) by metis
      then have "30 \<le> k" using r(3) by (auto simp: eos_def dest: arg_cong [of _ _ length])
      then show False using that by simp
    qed
    moreover have "ngx_http_huff_decode q src dst True = Some (NGX_ERROR, q', put dst out)"
      using l(1) False by (simp add: ngx_http_huff_decode_def)
    ultimately show ?thesis using l(2) False r(1) by metis
  qed
qed

lemma state_bits_0: "state_bits 0 = []"
  by (simp add: state_bits_def prefix_of_eval)

end
