(* ===== verification/Huffman_Encode.thy ===== *)
theory Huffman_Encode
  imports Huffman
begin

text \<open>
  The HPACK Huffman encoder of \<^verbatim>\<open>src/nginx/src/http/ngx_http_huff_encode.c\<close> with 64-bit words
  (\<open>NGX_PTR_SIZE == 8\<close>): codes are collected in a register from the top bit down, full registers are
  stored big-endian, and the rest is padded with ones. \<open>Inl\<close> is the early return of 0 when the encoded
  string would not be shorter than the original.
\<close>

definition huff_encode_buf :: "u64 \<Rightarrow> bytes" where
  "huff_encode_buf buf =
     [ucast (drop_bit 56 buf), ucast (drop_bit 48 buf), ucast (drop_bit 40 buf), ucast (drop_bit 32 buf),
      ucast (drop_bit 24 buf), ucast (drop_bit 16 buf), ucast (drop_bit 8 buf), ucast buf]"

fun huff_encode_loop :: "ngx_http_huff_encode_code_t list \<Rightarrow> nat \<Rightarrow> bytes \<Rightarrow> nat \<Rightarrow> u64 \<Rightarrow> nat \<Rightarrow> bytes
    \<Rightarrow> (bytes + nat \<times> u64 \<times> nat \<times> bytes) option" where
  "huff_encode_loop table len [] hlen buf pending dst = Some (Inr (hlen, buf, pending, dst))"
| "huff_encode_loop table len (c # src) hlen buf pending dst = do {
     nxt \<leftarrow> arr_get table (int (unat c));
     let code = (of_nat (ec_code nxt) :: u64);
     let pending = pending + ec_len nxt;
     if pending < 64 then
       huff_encode_loop table len src hlen (buf OR push_bit (64 - pending) code) pending dst
     else if hlen + 8 \<ge> len then Some (Inl dst)
     else do {
       let pending = pending - 64;
       dst \<leftarrow> mem_write dst (int hlen) (huff_encode_buf (buf OR drop_bit pending code));
       huff_encode_loop table len src (hlen + 8) (if pending \<noteq> 0 then push_bit (64 - pending) code else 0)
         pending dst
     }
   }"

fun huff_encode_tail :: "u64 \<Rightarrow> nat \<Rightarrow> nat \<Rightarrow> bytes \<Rightarrow> (nat \<times> bytes) option" where
  \<comment> \<open>the final do-while loop, on the number of bytes left\<close>
  "huff_encode_tail buf 0 hlen dst = Some (hlen, dst)"
| "huff_encode_tail buf (Suc k) hlen dst = do {
     dst \<leftarrow> arr_set dst (int hlen) (ucast (drop_bit (8 * k) buf));
     huff_encode_tail buf k (hlen + 1) dst
   }"

definition ngx_align8 :: "nat \<Rightarrow> nat" where
  \<comment> \<open>\<open>ngx_align(d, 8)\<close>\<close>
  "ngx_align8 d = (d + 7) div 8 * 8"

definition ngx_http_huff_encode :: "bytes \<Rightarrow> bytes \<Rightarrow> bool \<Rightarrow> (nat \<times> bytes) option" where
  "ngx_http_huff_encode src dst lower = do {
     let table = (if lower then ngx_http_huff_encode_table_lc else ngx_http_huff_encode_table);
     let len = length src;
     r \<leftarrow> huff_encode_loop table len src 0 0 0 dst;
     (case r of
        Inl dst \<Rightarrow> Some (0, dst)
      | Inr (hlen, buf, pending, dst) \<Rightarrow>
          if pending = 0 then Some (hlen, dst)
          else let buf = buf OR drop_bit pending (- 1);
                   pending = ngx_align8 pending
               in if hlen + pending div 8 \<ge> len then Some (0, dst)
                  else huff_encode_tail (drop_bit (64 - pending) buf) (pending div 8) hlen dst)
   }"

section \<open>The bit register\<close>

definition topbits :: "nat \<Rightarrow> u64 \<Rightarrow> bool list" where
  "topbits p w = map (\<lambda>i. bit w (63 - i)) [0..<p]"

definition low_clear :: "nat \<Rightarrow> u64 \<Rightarrow> bool" where
  "low_clear p w \<longleftrightarrow> (\<forall>i. i + p < 64 \<longrightarrow> \<not> bit w i)"

lemma length_topbits [simp]: "length (topbits p w) = p"
  by (simp add: topbits_def)

lemma bits_map: "bits l v = map (\<lambda>i. bit v (l - 1 - i)) [0..<l]"
proof (induction l arbitrary: v)
  case (Suc l)
  have "map (\<lambda>i. bit v (l - i)) [0..<l] = map (\<lambda>i. bit (v div 2) (l - 1 - i)) [0..<l]"
  proof (rule map_cong)
    fix i assume "i \<in> set [0..<l]"
    then have "l - i = Suc (l - 1 - i)" by simp
    then show "bit v (l - i) = bit (v div 2) (l - 1 - i)" by (simp add: bit_Suc)
  qed simp
  then show ?case using Suc by (simp add: bit_0)
qed simp

lemma nth_bits: "i < l \<Longrightarrow> bits l v ! i = bit v (l - 1 - i)"
  by (simp add: bits_map)

lemma bit_code:
  assumes "cv < 2 ^ cl" and "cl \<le> 64"
  shows "bit (of_nat cv :: u64) j \<longleftrightarrow> bit cv j" and "cl \<le> j \<Longrightarrow> \<not> bit cv j"
proof -
  show nb: "\<not> bit cv j" if "cl \<le> j" for j
  proof -
    have "cv < 2 ^ j" using assms(1) that by (meson less_le_trans power_increasing one_le_numeral)
    then show ?thesis by (simp add: bit_iff_odd)
  qed
  show "bit (of_nat cv :: u64) j \<longleftrightarrow> bit cv j"
    using nb [of j] assms(2) by (cases "cl \<le> j") (auto simp: bit_of_nat_iff)
qed

lemma topbits_push:
  assumes "cv < 2 ^ cl" and "p + cl < 64" and "low_clear p w"
  defines "w' \<equiv> w OR push_bit (64 - (p + cl)) (of_nat cv)"
  shows "topbits (p + cl) w' = topbits p w @ bits cl cv" and "low_clear (p + cl) w'"
proof -
  have c: "bit (of_nat cv :: u64) j \<longleftrightarrow> bit cv j" "cl \<le> j \<Longrightarrow> \<not> bit cv j" for j
    using bit_code [OF assms(1)] assms(2) by auto
  show "topbits (p + cl) w' = topbits p w @ bits cl cv"
  proof (rule nth_equalityI)
    fix i assume "i < length (topbits (p + cl) w')"
    then have i: "i < p + cl" by simp
    have "bit w' (63 - i) \<longleftrightarrow> bit w (63 - i) \<or> bit cv (p + cl - 1 - i)"
      using i assms(2) by (auto simp: w'_def bit_or_iff bit_push_bit_iff c(1))
    moreover have "\<not> bit cv (p + cl - 1 - i)" if "i < p" using c(2) that by simp
    moreover have "\<not> bit w (63 - i)" if "\<not> i < p" using assms(3) that i assms(2) by (simp add: low_clear_def)
    moreover have "bits cl cv ! (i - p) = bit cv (p + cl - 1 - i)" if "\<not> i < p"
      using nth_bits [of "i - p" cl cv] that i by (simp add: algebra_simps)
    ultimately show "topbits (p + cl) w' ! i = (topbits p w @ bits cl cv) ! i"
      using i by (auto simp: topbits_def nth_append)
  qed simp
  show "low_clear (p + cl) w'"
    using assms(3) by (auto simp: low_clear_def w'_def bit_or_iff bit_push_bit_iff)
qed


lemma topbits_split:
  assumes "cv < 2 ^ cl" and "cl < 64" and "p < 64" and "64 \<le> p + cl" and "low_clear p w"
  defines "p' \<equiv> p + cl - 64"
  defines "w' \<equiv> (if p' \<noteq> 0 then push_bit (64 - p') (of_nat cv :: u64) else 0)"
  shows "topbits 64 (w OR drop_bit p' (of_nat cv)) @ topbits p' w' = topbits p w @ bits cl cv" and "low_clear p' w'"
proof -
  have c: "bit (of_nat cv :: u64) j \<longleftrightarrow> bit cv j" "cl \<le> j \<Longrightarrow> \<not> bit cv j" for j
    using bit_code [OF assms(1)] assms(2) by auto
  have p': "p' < cl" "p + cl = 64 + p'" using assms(2-4) by (auto simp: p'_def)
  show "topbits 64 (w OR drop_bit p' (of_nat cv)) @ topbits p' w' = topbits p w @ bits cl cv"
  proof (rule nth_equalityI)
    show "length (topbits 64 (w OR drop_bit p' (of_nat cv)) @ topbits p' w') = length (topbits p w @ bits cl cv)"
      using p' by simp
    fix i assume "i < length (topbits 64 (w OR drop_bit p' (of_nat cv)) @ topbits p' w')"
    then have i: "i < 64 + p'" by simp
    show "(topbits 64 (w OR drop_bit p' (of_nat cv)) @ topbits p' w') ! i = (topbits p w @ bits cl cv) ! i"
    proof (cases "i < 64")
      case True
      have "bit (w OR drop_bit p' (of_nat cv)) (63 - i) \<longleftrightarrow> bit w (63 - i) \<or> bit cv (p + cl - 1 - i)"
        using True p' by (simp add: bit_or_iff bit_drop_bit_eq c(1) add.commute)
      moreover have "\<not> bit cv (p + cl - 1 - i)" if "i < p" using c(2) that by simp
      moreover have "\<not> bit w (63 - i)" if "\<not> i < p" using assms(3,5) that True by (simp add: low_clear_def)
      moreover have "bits cl cv ! (i - p) = bit cv (p + cl - 1 - i)" if "\<not> i < p"
        using nth_bits [of "i - p" cl cv] that i p' by (simp add: algebra_simps)
      ultimately show ?thesis using True by (auto simp: topbits_def nth_append)
    next
      case False
      have "bit w' (63 - (i - 64)) \<longleftrightarrow> bit cv (p + cl - 1 - i)"
      proof -
        have "127 - (i + (64 - p')) = p + cl - 1 - i" using False i p' assms(2) by arith
        then show ?thesis using False i p' by (auto simp: w'_def bit_push_bit_iff c(1))
      qed
      moreover have "bits cl cv ! (i - p) = bit cv (p + cl - 1 - i)"
        using nth_bits [of "i - p" cl cv] False i p' assms(3) by (simp add: algebra_simps)
      moreover have "i - 64 < p'" using i False by simp
      ultimately show ?thesis using False assms(3) by (simp add: topbits_def nth_append)
    qed
  qed
  show "low_clear p' w'" by (auto simp: low_clear_def w'_def bit_push_bit_iff)
qed

lemma byte_bits_map: "byte_bits c = map (\<lambda>i. bit c (7 - i)) [0..<8]"
  by (simp add: byte_bits_def bits_map bit_unsigned_iff)

lemma byte_bits_slice:
  "k + 8 \<le> 64 \<Longrightarrow> byte_bits (ucast (drop_bit (64 - (k + 8)) (w :: u64))) = map (\<lambda>i. bit w (63 - i)) [k..<k + 8]"
  by (rule nth_equalityI) (auto simp: byte_bits_map bit_ucast_iff bit_drop_bit_eq add.commute)

lemma stream_encode_buf: "stream (huff_encode_buf w) = topbits 64 w"
proof -
  have up: "[0..<64] = [0..<8] @ [8..<16] @ [16..<24] @ [24..<32] @ [32..<40] @ [40..<48] @ [48..<56] @ [56..<64]"
    by (simp add: upt_rec_numeral upt_conv_Cons)
  show ?thesis
    using byte_bits_slice [of 0 w] byte_bits_slice [of 8 w] byte_bits_slice [of 16 w] byte_bits_slice [of 24 w]
      byte_bits_slice [of 32 w] byte_bits_slice [of 40 w] byte_bits_slice [of 48 w] byte_bits_slice [of 56 w]
    by (simp add: huff_encode_buf_def topbits_def up)
qed

lemma topbits_pad:
  assumes "p \<le> a" and "a \<le> 64" and "low_clear p w"
  shows "topbits a (w OR drop_bit p (- 1)) = topbits p w @ replicate (a - p) True"
proof (rule nth_equalityI)
  fix i assume "i < length (topbits a (w OR drop_bit p (- 1)))"
  then have i: "i < a" by simp
  have "bit (w OR drop_bit p (- 1)) (63 - i) \<longleftrightarrow> bit w (63 - i) \<or> p \<le> i"
    using i assms(1,2) by (auto simp: bit_or_iff bit_drop_bit_eq bit_mask_iff)
  then show "topbits a (w OR drop_bit p (- 1)) ! i = (topbits p w @ replicate (a - p) True) ! i"
    using i by (auto simp: topbits_def nth_append)
qed (use assms in simp)

lemma encode_tail_ok:
  "hlen + k \<le> length dst \<Longrightarrow> j + k \<le> 8 \<Longrightarrow>
   \<exists>bs. huff_encode_tail (drop_bit (64 - 8 * (j + k)) w) k hlen dst = Some (hlen + k, blit dst hlen bs) \<and>
     length bs = k \<and> stream bs = map (\<lambda>i. bit w (63 - i)) [8 * j..<8 * (j + k)]"
proof (induction k arbitrary: hlen dst j)
  case 0
  then show ?case by (simp add: blit_def)
next
  case (Suc k)
  let ?v = "drop_bit (64 - 8 * (j + Suc k)) w"
  let ?b = "ucast (drop_bit (8 * k) ?v) :: u8"
  have "drop_bit (8 * k) ?v = drop_bit (64 - (8 * j + 8)) w"
    using Suc.prems(2) by (simp add: drop_bit_drop_bit algebra_simps)
  then have b: "byte_bits ?b = map (\<lambda>i. bit w (63 - i)) [8 * j..<8 * j + 8]"
    using byte_bits_slice [of "8 * j" w] Suc.prems(2) by simp
  let ?d = "dst[hlen := ?b]"
  have idx: "j + Suc k = Suc j + k" by simp
  obtain bs where bs: "huff_encode_tail ?v k (hlen + 1) ?d = Some (hlen + 1 + k, blit ?d (hlen + 1) bs)"
      "length bs = k" "stream bs = map (\<lambda>i. bit w (63 - i)) [8 * Suc j..<8 * (Suc j + k)]"
    using Suc.IH [of "hlen + 1" ?d "Suc j"] Suc.prems unfolding idx by auto
  have "blit ?d (hlen + 1) bs = blit dst hlen (?b # bs)"
    using Suc.prems(1) by (simp add: blit_def take_Suc_conv_app_nth)
  moreover have "[8 * j..<8 * (j + Suc k)] = [8 * j..<8 * j + 8] @ [8 * Suc j..<8 * (Suc j + k)]"
    using upt_add_eq_append [of "8 * j" "8 * j + 8" "8 * k"] by (simp add: algebra_simps)
  ultimately show ?case
    using bs b Suc.prems(1) by (intro exI [of _ "?b # bs"]) (simp add: arr_set_def)
qed


section \<open>The encoder\<close>

definition enc_with :: "ngx_http_huff_encode_code_t list \<Rightarrow> bytes \<Rightarrow> bool list" where
  "enc_with table s = concat (map (\<lambda>c. bits (ec_len (table ! unat c)) (ec_code (table ! unat c))) s)"

definition good_table :: "ngx_http_huff_encode_code_t list \<Rightarrow> bool" where
  "good_table table \<longleftrightarrow> length table = 256 \<and>
     list_all (\<lambda>e. 0 < ec_len e \<and> ec_len e \<le> 30 \<and> ec_code e < 2 ^ ec_len e) table"

lemma good_tables: "good_table ngx_http_huff_encode_table" "good_table ngx_http_huff_encode_table_lc"
  by (simp_all add: good_table_def ngx_http_huff_encode_table_def ngx_http_huff_encode_table_lc_def)

lemma stream_append [simp]: "stream (a @ b) = stream a @ stream b"
  by (simp add: stream_def)

lemma length_stream [simp]: "length (stream bs) = 8 * length bs"
  by (induction bs) (simp_all add: byte_bits_def)

definition register_inv :: "nat \<Rightarrow> u64 \<Rightarrow> nat \<Rightarrow> bytes \<Rightarrow> bool list \<Rightarrow> bool" where
  \<comment> \<open>the bytes written and the pending bits of the register are the bits encoded so far\<close>
  "register_inv hlen buf pending dst B \<longleftrightarrow> pending < 64 \<and> low_clear pending buf \<and> hlen \<le> length dst \<and>
     stream (take hlen dst) @ topbits pending buf = B"

definition loop_result :: "nat \<Rightarrow> nat \<Rightarrow> bytes \<Rightarrow> bool list \<Rightarrow> (bytes + nat \<times> u64 \<times> nat \<times> bytes) \<Rightarrow> bool" where
  \<comment> \<open>what the loop leaves when \<open>B\<close> are the bits of the whole input\<close>
  "loop_result len hlen dst B r \<longleftrightarrow>
     (case r of
        Inl dst' \<Rightarrow> length dst' = length dst \<and> 8 * len \<le> length B
      | Inr (h, b, p, dst') \<Rightarrow> register_inv h b p dst' B \<and> length dst' = length dst \<and>
          (h < len \<or> h = 0) \<and> hlen \<le> h \<and> drop h dst' = drop h dst)"

lemma encode_loop_ok:
  assumes t: "good_table table"
  shows "register_inv hlen buf pending dst B \<Longrightarrow> len \<le> length dst \<Longrightarrow> hlen < len \<or> hlen = 0 \<Longrightarrow>
   \<exists>r. huff_encode_loop table len src hlen buf pending dst = Some r \<and>
     loop_result len hlen dst (B @ enc_with table src) r"
proof (induction src arbitrary: hlen buf pending dst B)
  case Nil
  then show ?case by (simp add: enc_with_def loop_result_def)
next
  case (Cons c src)
  define e where "e = table ! unat c"
  let ?code = "of_nat (ec_code e) :: u64" and ?p = "pending + ec_len e"
  have get: "arr_get table (int (unat c)) = Some e"
    using t unat_u8 [of c] by (simp add: arr_get_def good_table_def e_def)
  have e: "0 < ec_len e" "ec_len e < 64" "ec_code e < 2 ^ ec_len e"
    using t unat_u8 [of c] by (auto simp: good_table_def list_all_length e_def)
  have inv: "pending < 64" "low_clear pending buf" "hlen \<le> length dst" "stream (take hlen dst) @ topbits pending buf = B"
    using Cons.prems(1) by (auto simp: register_inv_def)
  have enc: "B @ enc_with table (c # src) = (B @ bits (ec_len e) (ec_code e)) @ enc_with table src"
    by (simp add: enc_with_def e_def)
  show ?case
  proof (cases "?p < 64")
    case True
    let ?w = "buf OR push_bit (64 - ?p) ?code"
    have "register_inv hlen ?w ?p dst (B @ bits (ec_len e) (ec_code e))"
      using topbits_push [OF e(3) True inv(2)] True inv(3,4) by (auto simp: register_inv_def)
    from Cons.IH [OF this Cons.prems(2,3)] show ?thesis
      unfolding enc using get True by (simp add: Let_def del: append_assoc)
  next
    case False
    show ?thesis
    proof (cases "hlen + 8 \<ge> len")
      case True
      have "8 * hlen + pending = length B" using arg_cong [OF inv(4), of length] inv(3) by simp
      then have "loop_result len hlen dst (B @ enc_with table (c # src)) (Inl dst)"
        using False True by (simp add: enc loop_result_def)
      then show ?thesis using get False True by (simp add: Let_def)
    next
      case room: False
      let ?q = "?p - 64"
      let ?bs = "huff_encode_buf (buf OR drop_bit ?q ?code)"
      let ?w = "if ?q \<noteq> 0 then push_bit (64 - ?q) ?code else 0"
      have lbs: "length ?bs = 8" by (simp add: huff_encode_buf_def)
      have fits: "hlen + 8 \<le> length dst" using room Cons.prems(2) by simp
      let ?d = "blit dst hlen ?bs"
      have wr: "mem_write dst (int hlen) ?bs = Some ?d" using fits lbs by (simp add: mem_write_nat)
      have len_d: "length ?d = length dst" using fits lbs by simp
      have "64 \<le> pending + ec_len e" using False by simp
      note sp = topbits_split [OF e(3,2) inv(1) this inv(2)]
      have "take (hlen + 8) ?d = take hlen dst @ ?bs" using fits lbs inv(3) by (simp add: blit_def)
      then have "stream (take (hlen + 8) ?d) @ topbits ?q ?w = B @ bits (ec_len e) (ec_code e)"
        using sp(1) inv(4) by (simp add: stream_encode_buf flip: append.assoc)
      then have inv': "register_inv (hlen + 8) ?w ?q ?d (B @ bits (ec_len e) (ec_code e))"
        using sp(2) inv(1) e(2) fits len_d by (simp add: register_inv_def)
      have len': "len \<le> length ?d" "hlen + 8 < len \<or> hlen + 8 = 0" using Cons.prems(2) len_d room by auto
      from Cons.IH [OF inv' len'] obtain r where r: "huff_encode_loop table len src (hlen + 8) ?w ?q ?d = Some r"
          "loop_result len (hlen + 8) ?d ((B @ bits (ec_len e) (ec_code e)) @ enc_with table src) r"
        by (elim exE conjE) (rule that)
      have "drop h ?d = drop h dst" if "hlen + 8 \<le> h" for h
        using that lbs fits by (simp add: blit_def)
      moreover have "huff_encode_loop table len (c # src) hlen buf pending dst = Some r"
        by (simp only: huff_encode_loop.simps get bind.bind_lunit Let_def False room wr r(1) if_False)
      ultimately show ?thesis
        using r(2) len_d unfolding enc loop_result_def by (intro exI [of _ r]) (auto split: sum.splits)
    qed
  qed
qed


lemma encode_ok:
  fixes lower :: bool
  assumes "length src \<le> length dst"
  defines "B \<equiv> enc_with (if lower then ngx_http_huff_encode_table_lc else ngx_http_huff_encode_table) src"
  defines "r \<equiv> (length B + 7) div 8"
  shows "\<exists>dst'. ngx_http_huff_encode src dst lower = Some (if r < length src then r else 0, dst') \<and>
    length dst' = length dst \<and>
    (r < length src \<longrightarrow> stream (take r dst') = B @ replicate (8 * r - length B) True \<and> drop r dst' = drop r dst)"
proof -
  let ?t = "if lower then ngx_http_huff_encode_table_lc else ngx_http_huff_encode_table"
  have t: "good_table ?t" using good_tables by simp
  have "register_inv 0 0 0 dst []" by (simp add: register_inv_def low_clear_def topbits_def)
  from encode_loop_ok [OF t this assms(1), of src] obtain res where
      res: "huff_encode_loop ?t (length src) src 0 0 0 dst = Some res" "loop_result (length src) 0 dst B res"
    by (auto simp: B_def)
  show ?thesis
  proof (cases res)
    case (Inl d)
    then have "length d = length dst" "\<not> r < length src" using res(2) by (auto simp: loop_result_def r_def)
    then show ?thesis using res(1) Inl by (simp add: ngx_http_huff_encode_def)
  next
    case (Inr x)
    obtain h b p d where x: "x = (h, b, p, d)" using prod_cases4 by blast
    then have inv: "p < 64" "low_clear p b" "h \<le> length d" "stream (take h d) @ topbits p b = B"
        and f: "length d = length dst" "h < length src \<or> h = 0" "drop h d = drop h dst"
      using res(2) Inr by (auto simp: loop_result_def register_inv_def)
    have n: "length B = 8 * h + p" using arg_cong [OF inv(4), of length] inv(3) by simp
    show ?thesis
    proof (cases "p = 0")
      case True
      then have "r = h" "stream (take h d) = B" using n inv(4) by (auto simp: r_def topbits_def)
      then show ?thesis using res(1) Inr x True f n by (auto simp: ngx_http_huff_encode_def)
    next
      case False
      define k where "k = (p + 7) div 8"
      have k: "r = h + k" "p \<le> 8 * k" "k \<le> 8" "ngx_align8 p = 8 * k"
        using n inv(1) by (auto simp: r_def k_def ngx_align8_def)
      let ?w = "b OR drop_bit p (- 1)"
      show ?thesis
      proof (cases "r < length src")
        case r: True
        then have "h + k \<le> length d" using k(1) f(1) assms(1) by simp
        from encode_tail_ok [OF this, of 0 ?w] obtain bs where
            bs: "huff_encode_tail (drop_bit (64 - 8 * k) ?w) k h d = Some (h + k, blit d h bs)" "length bs = k"
            "stream bs = topbits (8 * k) ?w"
          using k(3) by (auto simp: topbits_def)
        have "stream (take (h + k) (blit d h bs)) = stream (take h d) @ topbits (8 * k) ?w"
          using bs(2,3) inv(3) by (simp add: blit_def)
        also have "\<dots> = B @ replicate (8 * k - p) True"
          using topbits_pad [OF k(2) _ inv(2)] k(3) inv(4) by simp
        finally have "stream (take r (blit d h bs)) = B @ replicate (8 * r - length B) True"
          using k(1) n by simp
        moreover have "drop r (blit d h bs) = drop r d"
          using k(1) bs(2) inv(3) by (simp add: blit_def)
        moreover have "drop r d = drop r dst"
          using arg_cong [OF f(3), of "drop k"] k(1) by (simp add: add.commute)
        moreover have "ngx_http_huff_encode src dst lower = Some (r, blit d h bs)"
          using res(1) Inr x False k bs(1) r by (simp add: ngx_http_huff_encode_def Let_def)
        moreover have "length (blit d h bs) = length dst"
          using bs(2) k(1) r f(1) assms(1) by simp
        ultimately show ?thesis using r by simp
      next
        case r: False
        then have "ngx_http_huff_encode src dst lower = Some (0, d)"
          using res(1) Inr x False k by (simp add: ngx_http_huff_encode_def Let_def)
        then show ?thesis using r f(1) by simp
      qed
    qed
  qed
qed

section \<open>The two code tables\<close>

lemma enc_with_table: "enc_with ngx_http_huff_encode_table s = enc s"
  by (simp add: enc_with_def enc_def huff_code_def code_of_def Let_def)

lemma lc_table:
  "ngx_http_huff_encode_table_lc = take 65 ngx_http_huff_encode_table @
     take 26 (drop 97 ngx_http_huff_encode_table) @ drop 91 ngx_http_huff_encode_table"
  by (simp add: ngx_http_huff_encode_table_def ngx_http_huff_encode_table_lc_def)

lemma lc_table_nth:
  "ngx_http_huff_encode_table_lc ! unat c = ngx_http_huff_encode_table ! unat (ngx_tolower c)"
proof -
  have len: "length ngx_http_huff_encode_table = 256" using good_tables by (simp add: good_table_def)
  have low: "unat (c OR 0x20) = unat c + 32" if "65 \<le> c" "c \<le> 90"
  proof -
    have "unat c \<in> set [65..<91]" unfolding set_upt using that by (simp add: word_le_nat_alt)
    then have "of_nat (unat c) \<in> (of_nat ` set [65..<91] :: u8 set)" by (rule imageI)
    moreover have "of_nat (unat c) = c" by simp
    ultimately have "c \<in> of_nat ` set [65..<91]" by (simp only:)
    then show ?thesis by (auto simp: upt_rec_numeral)
  qed
  consider "unat c < 65" | "65 \<le> unat c \<and> unat c \<le> 90" | "90 < unat c" by linarith
  then show ?thesis
  proof cases
    case 1
    then show ?thesis using len by (simp add: lc_table nth_append ngx_tolower_def word_le_nat_alt)
  next
    case 2
    then have "unat (ngx_tolower c) = unat c + 32" using low by (simp add: ngx_tolower_def word_le_nat_alt)
    moreover have "unat c - 65 < 26" using 2 by linarith
    ultimately show ?thesis using 2 len by (simp add: lc_table nth_append add.commute)
  next
    case 3
    then have "ngx_tolower c = c" by (simp add: ngx_tolower_def word_le_nat_alt)
    moreover have "\<not> unat c - 65 < 26" using 3 by linarith
    ultimately show ?thesis using 3 len by (simp add: lc_table nth_append)
  qed
qed

lemma enc_with_table_lc: "enc_with ngx_http_huff_encode_table_lc s = enc (map ngx_tolower s)"
  by (simp add: enc_with_def enc_def huff_code_def code_of_def Let_def lc_table_nth comp_def)


lemma enc_with_either:
  "enc_with (if lower then ngx_http_huff_encode_table_lc else ngx_http_huff_encode_table) s =
   enc (if lower then map ngx_tolower s else s)"
  by (simp add: enc_with_table enc_with_table_lc)

lemma replicate_numeral: "replicate (numeral k) x = x # replicate (pred_numeral k) x"
  by (simp add: numeral_eq_Suc)

lemma bits_numeral: "bits (numeral k) v = bits (pred_numeral k) (v div 2) @ [odd v]"
  by (simp add: numeral_eq_Suc)

section \<open>Whole strings\<close>

lemma decode_whole:
  assumes "8 * length src div 5 \<le> length buf"
  shows "\<exists>rc q out. ngx_http_huff_decode 0 src (buf, 0) True = Some (rc, q, out @ drop (length out) buf, length out) \<and>
    length out \<le> length buf \<and>
    (rc = NGX_OK \<longleftrightarrow> (\<exists>s k. k < 30 \<and> stream src = enc s @ replicate k True)) \<and>
    (rc = NGX_OK \<longrightarrow> q = 0 \<and> (\<forall>s k. k < 30 \<and> stream src = enc s @ replicate k True \<longrightarrow> s = out))"
proof -
  have b: "length (state_bits 0) + 8 * length src < 5 * (length (fst (buf, 0 :: nat)) - snd (buf, 0 :: nat)) + 5"
    using assms by (simp add: state_bits_0)
  have "all_ones (state_bits 0)" by (simp add: state_bits_0 all_ones_def)
  from decode_ok [OF _ b _ this] obtain rc q out where
      d: "ngx_http_huff_decode 0 src (buf, 0) True = Some (rc, q, put (buf, 0) out)" "length out \<le> length buf"
      and p: "if rc = NGX_OK then q = 0 \<and> (\<exists>k<30. stream src = enc out @ replicate k True)
       else rc = NGX_ERROR \<and> (\<forall>s k. k < 30 \<longrightarrow> stream src \<noteq> enc s @ replicate k True)"
    unfolding state_bits_0 append_Nil by auto
  have put: "put (buf, 0) out = (out @ drop (length out) buf, length out)" by (simp add: put_def blit_def)
  have uniq: "s = out" if ok: "rc = NGX_OK" and s: "stream src = enc s @ replicate k True" for s k
  proof -
    obtain j where "stream src = enc out @ replicate j True" using p ok by auto
    then show ?thesis using s enc_unique [OF no_code_ones no_code_ones] by metis
  qed
  show ?thesis
  proof (cases "rc = NGX_OK")
    case True
    then show ?thesis using d p uniq unfolding put by (intro exI [of _ rc] exI [of _ q] exI [of _ out]) auto
  next
    case False
    then show ?thesis using d p unfolding put by (intro exI [of _ rc] exI [of _ q] exI [of _ out]) auto
  qed
qed

section \<open>Properties\<close>

text \<open>
  C2: the table-driven decoder decides the Huffman language: on a whole string, with an output buffer
  of \<open>8 n / 5\<close> bytes for \<open>n\<close> input bytes (what nginx allocates), it never writes outside the buffer,
  succeeds exactly when the input bits are the codes of some string followed by fewer than thirty
  ones, and then has written that string, which is unique, and is back in the initial state.
\<close>

theorem huff_decode_spec:
  assumes "8 * length src div 5 \<le> length buf"
  shows "\<exists>rc q out. ngx_http_huff_decode 0 src (buf, 0) True = Some (rc, q, out @ drop (length out) buf, length out) \<and>
    length out \<le> length buf \<and>
    (rc = NGX_OK \<longleftrightarrow> (\<exists>s k. k < 30 \<and> stream src = enc s @ replicate k True)) \<and>
    (rc = NGX_OK \<longrightarrow> q = 0 \<and> (\<forall>s k. k < 30 \<and> stream src = enc s @ replicate k True \<longrightarrow> s = out))"
  using assms by (rule decode_whole)

theorem huff_decode_spec_witness:
  "\<exists>rc q out. ngx_http_huff_decode 0 [0x18, 0xc6, 0x3f] ([0, 0, 0, 0, 0], 0) True =
     Some (rc, q, out @ drop (length out) [0, 0, 0, 0, 0], length out) \<and> rc = NGX_OK \<and> out = [97, 97, 97, 97]"
proof -
  have st: "stream [0x18, 0xc6, 0x3f] = enc [97, 97, 97, 97] @ replicate 4 True"
    by (simp add: byte_bits_def huff_code_def code_of_eval bits_numeral replicate_numeral)
  have "8 * length [0x18, 0xc6, 0x3f :: u8] div 5 \<le> length [0, 0, 0, 0, 0 :: u8]" by simp
  from huff_decode_spec [OF this] obtain rc q out where
      d: "ngx_http_huff_decode 0 [0x18, 0xc6, 0x3f] ([0, 0, 0, 0, 0], 0) True =
        Some (rc, q, out @ drop (length out) [0, 0, 0, 0, 0], length out)"
      and ok: "rc = NGX_OK \<longleftrightarrow> (\<exists>s k. k < 30 \<and> stream [0x18, 0xc6, 0x3f] = enc s @ replicate k True)"
      and u: "rc = NGX_OK \<longrightarrow> q = 0 \<and>
        (\<forall>s k. k < 30 \<and> stream [0x18, 0xc6, 0x3f] = enc s @ replicate k True \<longrightarrow> s = out)"
    by blast
  have "(4::nat) < 30" by simp
  then show ?thesis using d ok u st by metis
qed

text \<open>
  C3: the encoder is correct and never expands: if the codes of the string (of its lower-cased form
  for the lower-case variant) take \<open>n\<close> bits and \<open>r = \<lceil>n/8\<rceil>\<close> bytes are fewer than the string has, it
  returns \<open>r\<close> and writes exactly the codes, padded with ones to a byte boundary; otherwise it returns
  0. It stays inside a destination as long as the source.
\<close>

theorem huff_encode_spec:
  assumes "length src \<le> length dst"
  shows "let B = enc (if lower then map ngx_tolower src else src); r = (length B + 7) div 8 in
    \<exists>dst'. ngx_http_huff_encode src dst lower = Some (if r < length src then r else 0, dst') \<and>
      length dst' = length dst \<and>
      (r < length src \<longrightarrow> stream (take r dst') = B @ replicate (8 * r - length B) True \<and> drop r dst' = drop r dst)"
  using encode_ok [OF assms, of lower] unfolding enc_with_either Let_def .

theorem huff_encode_spec_witness:
  "\<exists>r dst'. ngx_http_huff_encode [97, 97, 97, 97] [0, 0, 0, 0] False = Some (r, dst') \<and> length dst' = 4"
  using huff_encode_spec [of "[97, 97, 97, 97]" "[0, 0, 0, 0]" False] by (auto simp: Let_def)

text \<open>
  C1: round trip: whenever the encoder returns a length, the decoder run on the encoded bytes
  succeeds and writes back the original string (lower-cased for the lower-case variant).
\<close>

theorem huff_round_trip:
  assumes "length src \<le> length dst" and "ngx_http_huff_encode src dst lower = Some (r, dst')" and "0 < r"
    and "8 * r div 5 \<le> length buf"
  shows "ngx_http_huff_decode 0 (take r dst') (buf, 0) True =
    Some (NGX_OK, 0, (if lower then map ngx_tolower src else src) @ drop (length src) buf, length src)"
proof -
  let ?s = "if lower then map ngx_tolower src else src"
  have len: "length dst' = length dst" and r: "r = (length (enc ?s) + 7) div 8" "r < length src"
      and st: "stream (take r dst') = enc ?s @ replicate (8 * r - length (enc ?s)) True"
    using encode_ok [OF assms(1), of lower] assms(2,3) unfolding enc_with_either by (auto split: if_splits)
  have k: "8 * r - length (enc ?s) < 30" using r(1) by linarith
  have "length (take r dst') = r" using r(2) len assms(1) by simp
  then have "8 * length (take r dst') div 5 \<le> length buf" using assms(4) by simp
  from decode_whole [OF this] obtain rc q out where
      d: "ngx_http_huff_decode 0 (take r dst') (buf, 0) True = Some (rc, q, out @ drop (length out) buf, length out)"
      and ok: "rc = NGX_OK \<longleftrightarrow> (\<exists>s k. k < 30 \<and> stream (take r dst') = enc s @ replicate k True)"
      and uniq: "rc = NGX_OK \<longrightarrow> q = 0 \<and> (\<forall>s k. k < 30 \<and> stream (take r dst') = enc s @ replicate k True \<longrightarrow> s = out)"
    by blast
  have "rc = NGX_OK" using ok st k by blast
  moreover from this have "q = 0" "?s = out" using uniq st k by blast+
  moreover have "length ?s = length src" by simp
  ultimately show ?thesis using d by (simp only:)
qed

theorem huff_round_trip_witness:
  "\<exists>r dst'. ngx_http_huff_encode [97, 97, 97, 97] [0, 0, 0, 0] False = Some (r, dst') \<and>
     ngx_http_huff_decode 0 (take r dst') ([0, 0, 0, 0, 0, 0], 0) True = Some (NGX_OK, 0, [97, 97, 97, 97, 0, 0], 4)"
proof -
  have get: "arr_get ngx_http_huff_encode_table 97 = Some (EC 3 5)"
    by (simp add: arr_get_def ngx_http_huff_encode_table_def)
  have tail: "huff_encode_tail w 3 0 dst = huff_encode_tail w (Suc (Suc (Suc 0))) 0 dst" for w dst
    by (simp only: numeral_3_eq_3)
  have e: "ngx_http_huff_encode [97, 97, 97, 97] [0, 0, 0, 0] False = Some (3, [0x18, 0xc6, 0x3f, 0])"
    by (simp add: ngx_http_huff_encode_def get ngx_align8_def tail arr_set_def Let_def mask_eq_exp_minus_1)
  show ?thesis
    using huff_round_trip [OF _ e, of "[0, 0, 0, 0, 0, 0]"] e by simp
qed

end
