(* ===== verification/Ngx_Output.thy ===== *)
theory Ngx_Output
  imports Ngx_Core
begin

text \<open>
  Writing through a moving pointer, the style of nginx's string functions: \<^verbatim>\<open>*d++ = c\<close> on a destination
  buffer with the index of \<open>d\<close>. A loop that only appends is \<open>emits\<close> of what it appends, which fits the
  buffer or is out of bounds.
\<close>

type_synonym out = "bytes \<times> nat"

named_theorems emit_simps \<open>collecting consecutive writes\<close>

fun emits :: "out \<Rightarrow> bytes \<Rightarrow> out option" where
  "emits s [] = Some s"
| "emits (dst, d) (c # cs) = do { dst \<leftarrow> arr_set dst (int d) c; emits (dst, d + 1) cs }"

definition emit :: "out \<Rightarrow> u8 \<Rightarrow> out option" where
  \<comment> \<open>\<open>*d++ = c\<close>\<close>
  "emit s c = emits s [c]"

lemma emits_append [emit_simps]: "Option.bind (emits s xs) (\<lambda>s. emits s ys) = emits s (xs @ ys)"
proof (induction s xs rule: emits.induct)
  case (2 dst d c cs)
  then show ?case by (cases "arr_set dst (int d) c") simp_all
qed simp

lemma emit_append [emit_simps]: "Option.bind (emit s c) (\<lambda>s. emits s ys) = emits s (c # ys)"
  unfolding emit_def emits_append by simp

lemma emits_emit [emit_simps]: "Option.bind (emits s xs) (\<lambda>s. emit s c) = emits s (xs @ [c])"
  unfolding emit_def emits_append by simp

lemma emits_ok: "d + length xs \<le> length dst \<Longrightarrow> emits (dst, d) xs = Some (blit dst d xs, d + length xs)"
proof (induction xs arbitrary: dst d)
  case Nil
  then show ?case by (simp add: blit_def)
next
  case (Cons c xs)
  have "blit (dst[d := c]) (d + 1) xs = blit dst d (c # xs)"
    using Cons.prems by (simp add: blit_def take_Suc_conv_app_nth)
  then show ?case using Cons by (simp add: arr_set_nat)
qed

lemma emits_full: "d \<le> length dst \<Longrightarrow> length dst < d + length xs \<Longrightarrow> emits (dst, d) xs = None"
proof (induction xs arbitrary: dst d)
  case (Cons c xs)
  then show ?case by (cases "d < length dst") (auto simp: arr_set_def)
qed simp

end
