(* ===== verification/Ngx_Base64.thy ===== *)
theory Ngx_Base64
  imports Ngx_Output
begin

text \<open>
  The base64 coders of \<^verbatim>\<open>src/nginx/src/core/ngx_string.c\<close>, standard and URL-safe, on destination buffers
  of fixed size, and the round trip between them.
\<close>

section \<open>The code\<close>

definition encode_basis64 :: bytes where
  \<comment> \<open>\<open>A-Z\<close>, \<open>a-z\<close>, \<open>0-9\<close>, \<open>+/\<close>\<close>
  "encode_basis64 = [
    65, 66, 67, 68, 69, 70, 71, 72, 73, 74, 75, 76, 77, 78, 79, 80,
    81, 82, 83, 84, 85, 86, 87, 88, 89, 90, 97, 98, 99, 100, 101, 102,
    103, 104, 105, 106, 107, 108, 109, 110, 111, 112, 113, 114, 115, 116, 117, 118,
    119, 120, 121, 122, 48, 49, 50, 51, 52, 53, 54, 55, 56, 57, 43, 47]"

definition encode_basis64url :: bytes where
  \<comment> \<open>\<open>A-Z\<close>, \<open>a-z\<close>, \<open>0-9\<close>, \<open>-_\<close>\<close>
  "encode_basis64url = [
    65, 66, 67, 68, 69, 70, 71, 72, 73, 74, 75, 76, 77, 78, 79, 80,
    81, 82, 83, 84, 85, 86, 87, 88, 89, 90, 97, 98, 99, 100, 101, 102,
    103, 104, 105, 106, 107, 108, 109, 110, 111, 112, 113, 114, 115, 116, 117, 118,
    119, 120, 121, 122, 48, 49, 50, 51, 52, 53, 54, 55, 56, 57, 45, 95]"

definition decode_basis64 :: bytes where
  "decode_basis64 = [
    77, 77, 77, 77, 77, 77, 77, 77, 77, 77, 77, 77, 77, 77, 77, 77,
    77, 77, 77, 77, 77, 77, 77, 77, 77, 77, 77, 77, 77, 77, 77, 77,
    77, 77, 77, 77, 77, 77, 77, 77, 77, 77, 77, 62, 77, 77, 77, 63,
    52, 53, 54, 55, 56, 57, 58, 59, 60, 61, 77, 77, 77, 77, 77, 77,
    77, 0, 1, 2, 3, 4, 5, 6, 7, 8, 9, 10, 11, 12, 13, 14,
    15, 16, 17, 18, 19, 20, 21, 22, 23, 24, 25, 77, 77, 77, 77, 77,
    77, 26, 27, 28, 29, 30, 31, 32, 33, 34, 35, 36, 37, 38, 39, 40,
    41, 42, 43, 44, 45, 46, 47, 48, 49, 50, 51, 77, 77, 77, 77, 77,
    77, 77, 77, 77, 77, 77, 77, 77, 77, 77, 77, 77, 77, 77, 77, 77,
    77, 77, 77, 77, 77, 77, 77, 77, 77, 77, 77, 77, 77, 77, 77, 77,
    77, 77, 77, 77, 77, 77, 77, 77, 77, 77, 77, 77, 77, 77, 77, 77,
    77, 77, 77, 77, 77, 77, 77, 77, 77, 77, 77, 77, 77, 77, 77, 77,
    77, 77, 77, 77, 77, 77, 77, 77, 77, 77, 77, 77, 77, 77, 77, 77,
    77, 77, 77, 77, 77, 77, 77, 77, 77, 77, 77, 77, 77, 77, 77, 77,
    77, 77, 77, 77, 77, 77, 77, 77, 77, 77, 77, 77, 77, 77, 77, 77,
    77, 77, 77, 77, 77, 77, 77, 77, 77, 77, 77, 77, 77, 77, 77, 77]"

definition decode_basis64url :: bytes where
  "decode_basis64url = [
    77, 77, 77, 77, 77, 77, 77, 77, 77, 77, 77, 77, 77, 77, 77, 77,
    77, 77, 77, 77, 77, 77, 77, 77, 77, 77, 77, 77, 77, 77, 77, 77,
    77, 77, 77, 77, 77, 77, 77, 77, 77, 77, 77, 77, 77, 62, 77, 77,
    52, 53, 54, 55, 56, 57, 58, 59, 60, 61, 77, 77, 77, 77, 77, 77,
    77, 0, 1, 2, 3, 4, 5, 6, 7, 8, 9, 10, 11, 12, 13, 14,
    15, 16, 17, 18, 19, 20, 21, 22, 23, 24, 25, 77, 77, 77, 77, 63,
    77, 26, 27, 28, 29, 30, 31, 32, 33, 34, 35, 36, 37, 38, 39, 40,
    41, 42, 43, 44, 45, 46, 47, 48, 49, 50, 51, 77, 77, 77, 77, 77,
    77, 77, 77, 77, 77, 77, 77, 77, 77, 77, 77, 77, 77, 77, 77, 77,
    77, 77, 77, 77, 77, 77, 77, 77, 77, 77, 77, 77, 77, 77, 77, 77,
    77, 77, 77, 77, 77, 77, 77, 77, 77, 77, 77, 77, 77, 77, 77, 77,
    77, 77, 77, 77, 77, 77, 77, 77, 77, 77, 77, 77, 77, 77, 77, 77,
    77, 77, 77, 77, 77, 77, 77, 77, 77, 77, 77, 77, 77, 77, 77, 77,
    77, 77, 77, 77, 77, 77, 77, 77, 77, 77, 77, 77, 77, 77, 77, 77,
    77, 77, 77, 77, 77, 77, 77, 77, 77, 77, 77, 77, 77, 77, 77, 77,
    77, 77, 77, 77, 77, 77, 77, 77, 77, 77, 77, 77, 77, 77, 77, 77]"

fun b64_enc_loop :: "bytes \<Rightarrow> bytes \<Rightarrow> out \<Rightarrow> (bytes \<times> out) option" where
  \<comment> \<open>the loop on groups of three bytes; the rest of the source and the output\<close>
  "b64_enc_loop basis (s0 # s1 # s2 # s) d = do {
     c0 \<leftarrow> arr_get basis (uint (drop_bit 2 s0 AND 0x3f));
     d \<leftarrow> emit d c0;
     c1 \<leftarrow> arr_get basis (uint (push_bit 4 (s0 AND 3) OR drop_bit 4 s1));
     d \<leftarrow> emit d c1;
     c2 \<leftarrow> arr_get basis (uint (push_bit 2 (s1 AND 0x0f) OR drop_bit 6 s2));
     d \<leftarrow> emit d c2;
     c3 \<leftarrow> arr_get basis (uint (s2 AND 0x3f));
     d \<leftarrow> emit d c3;
     b64_enc_loop basis s d
   }"
| "b64_enc_loop basis s d = Some (s, d)"

definition b64_enc_tail :: "bytes \<Rightarrow> bool \<Rightarrow> bytes \<Rightarrow> out \<Rightarrow> out option" where
  "b64_enc_tail basis padding s d =
     (case s of
        [] \<Rightarrow> Some d
      | [s0] \<Rightarrow> do {
          c0 \<leftarrow> arr_get basis (uint (drop_bit 2 s0 AND 0x3f));
          d \<leftarrow> emit d c0;
          c1 \<leftarrow> arr_get basis (uint (push_bit 4 (s0 AND 3)));
          d \<leftarrow> emit d c1;
          d \<leftarrow> (if padding then emit d 61 else Some d);
          (if padding then emit d 61 else Some d)
        }
      | s0 # s1 # _ \<Rightarrow> do {
          c0 \<leftarrow> arr_get basis (uint (drop_bit 2 s0 AND 0x3f));
          d \<leftarrow> emit d c0;
          c1 \<leftarrow> arr_get basis (uint (push_bit 4 (s0 AND 3) OR drop_bit 4 s1));
          d \<leftarrow> emit d c1;
          c2 \<leftarrow> arr_get basis (uint (push_bit 2 (s1 AND 0x0f)));
          d \<leftarrow> emit d c2;
          (if padding then emit d 61 else Some d)
        })"

definition ngx_encode_base64_internal :: "bytes \<Rightarrow> bytes \<Rightarrow> bytes \<Rightarrow> bool \<Rightarrow> out option" where
  \<comment> \<open>the destination buffer and \<open>dst->len\<close>\<close>
  "ngx_encode_base64_internal dst src basis padding = do {
     (s, d) \<leftarrow> b64_enc_loop basis src (dst, 0);
     b64_enc_tail basis padding s d
   }"

definition ngx_encode_base64 :: "bytes \<Rightarrow> bytes \<Rightarrow> out option" where
  "ngx_encode_base64 dst src = ngx_encode_base64_internal dst src encode_basis64 True"

definition ngx_encode_base64url :: "bytes \<Rightarrow> bytes \<Rightarrow> out option" where
  "ngx_encode_base64url dst src = ngx_encode_base64_internal dst src encode_basis64url False"

fun b64_scan :: "bytes \<Rightarrow> bytes \<Rightarrow> nat \<Rightarrow> nat option option" where
  \<comment> \<open>the first loop: \<open>len\<close> where it stopped, or \<open>Some None\<close> for \<open>NGX_ERROR\<close>\<close>
  "b64_scan basis [] len = Some (Some len)"
| "b64_scan basis (c # s) len =
     (if c = 61 then Some (Some len)
      else do {
        v \<leftarrow> arr_get basis (uint c);
        if v = 77 then Some None else b64_scan basis s (len + 1)
      })"

fun b64_dec_loop :: "bytes \<Rightarrow> nat \<Rightarrow> bytes \<Rightarrow> out \<Rightarrow> out option" where
  \<comment> \<open>the loop on groups of four characters, and the last two or three\<close>
  "b64_dec_loop basis len s d =
     (if len > 3 then
        (case s of s0 # s1 # s2 # s3 # s \<Rightarrow> do {
           v0 \<leftarrow> arr_get basis (uint s0);
           v1 \<leftarrow> arr_get basis (uint s1);
           d \<leftarrow> emit d (push_bit 2 v0 OR drop_bit 4 v1);
           v2 \<leftarrow> arr_get basis (uint s2);
           d \<leftarrow> emit d (push_bit 4 v1 OR drop_bit 2 v2);
           v3 \<leftarrow> arr_get basis (uint s3);
           d \<leftarrow> emit d (push_bit 6 v2 OR v3);
           b64_dec_loop basis (len - 4) s d
         } | _ \<Rightarrow> None)
      else do {
        d \<leftarrow> (if len > 1 then do {
               s0 \<leftarrow> arr_get s 0;
               s1 \<leftarrow> arr_get s 1;
               v0 \<leftarrow> arr_get basis (uint s0);
               v1 \<leftarrow> arr_get basis (uint s1);
               emit d (push_bit 2 v0 OR drop_bit 4 v1)
             } else Some d);
        (if len > 2 then do {
           s1 \<leftarrow> arr_get s 1;
           s2 \<leftarrow> arr_get s 2;
           v1 \<leftarrow> arr_get basis (uint s1);
           v2 \<leftarrow> arr_get basis (uint s2);
           emit d (push_bit 4 v1 OR drop_bit 2 v2)
         } else Some d)
      })"

declare b64_dec_loop.simps [simp del]

definition ngx_decode_base64_internal :: "bytes \<Rightarrow> bytes \<Rightarrow> bytes \<Rightarrow> (int \<times> out) option" where
  \<comment> \<open>the status with the destination buffer and \<open>dst->len\<close>, here \<open>0\<close> where the code leaves it alone\<close>
  "ngx_decode_base64_internal dst src basis = do {
     r \<leftarrow> b64_scan basis src 0;
     (case r of None \<Rightarrow> Some (-1, dst, 0)
      | Some len \<Rightarrow>
          if len mod 4 = 1 then Some (-1, dst, 0)
          else map_option (\<lambda>d. (0, d)) (b64_dec_loop basis len src (dst, 0)))
   }"

definition ngx_decode_base64 :: "bytes \<Rightarrow> bytes \<Rightarrow> (int \<times> out) option" where
  "ngx_decode_base64 dst src = ngx_decode_base64_internal dst src decode_basis64"

definition ngx_decode_base64url :: "bytes \<Rightarrow> bytes \<Rightarrow> (int \<times> out) option" where
  "ngx_decode_base64url dst src = ngx_decode_base64_internal dst src decode_basis64url"

section \<open>Alphabets\<close>

definition alphabet :: "bytes \<Rightarrow> bytes \<Rightarrow> bool" where
  \<comment> \<open>the decoding table inverts the encoding table\<close>
  "alphabet enc dec \<longleftrightarrow> length enc = 64 \<and> length dec = 256 \<and>
     list_all (\<lambda>v. let c = enc ! v in c \<noteq> 61 \<and> unat (dec ! unat c) = v) [0..<64]"

lemma alphabets: "alphabet encode_basis64 decode_basis64" "alphabet encode_basis64url decode_basis64url"
  by code_simp+

definition six :: "u8 \<Rightarrow> bool" where
  "six w \<longleftrightarrow> (\<forall>n \<ge> 6. \<not> bit w n)"

lemma six_less: "six w \<Longrightarrow> unat w < 64"
proof -
  assume "six w"
  then have "take_bit 6 w = w" by (intro bit_word_eqI) (meson bit_take_bit_iff not_le six_def)
  then have "unat w = unat (take_bit 6 w)" by simp
  also have "\<dots> < 2 ^ 6" unfolding unsigned_take_bit_eq by (rule take_bit_nat_less_exp)
  finally show ?thesis by simp
qed

lemma alphabet_char:
  assumes "alphabet enc dec" and "six w"
  shows "arr_get enc (uint w) = Some (enc ! unat w)" "enc ! unat w \<noteq> 61" "arr_get dec (uint (enc ! unat w)) = Some w" "w \<noteq> 77"
proof -
  have w: "unat w < 64" using six_less assms(2) by blast
  have len: "length enc = 64" "length dec = 256" using assms(1) by (simp_all add: alphabet_def)
  show "arr_get enc (uint w) = Some (enc ! unat w)" using w len arr_get_nat [of "unat w" enc] by simp
  have a: "enc ! unat w \<noteq> 61 \<and> unat (dec ! unat (enc ! unat w)) = unat w"
    using assms(1) w by (simp add: alphabet_def list_all_iff Let_def)
  then show "enc ! unat w \<noteq> 61" by simp
  have "unat (enc ! unat w) < 256" using unsigned_less [of "enc ! unat w", where 'a = nat] by simp
  then have "arr_get dec (uint (enc ! unat w)) = Some (dec ! unat (enc ! unat w))"
    using len arr_get_nat [of "unat (enc ! unat w)" dec] by simp
  moreover have "dec ! unat (enc ! unat w) = w" using a by (simp add: word_unat_eq_iff)
  ultimately show "arr_get dec (uint (enc ! unat w)) = Some w" by simp
  show "w \<noteq> 77" using w by auto
qed

section \<open>Sextets\<close>

definition sx0 :: "u8 \<Rightarrow> u8" where "sx0 s0 = drop_bit 2 s0 AND 0x3f"
definition sx1 :: "u8 \<Rightarrow> u8 \<Rightarrow> u8" where "sx1 s0 s1 = push_bit 4 (s0 AND 3) OR drop_bit 4 s1"
definition sx2 :: "u8 \<Rightarrow> u8 \<Rightarrow> u8" where "sx2 s1 s2 = push_bit 2 (s1 AND 0x0f) OR drop_bit 6 s2"
definition sx3 :: "u8 \<Rightarrow> u8" where "sx3 s2 = s2 AND 0x3f"

lemmas sx_defs = sx0_def sx1_def sx2_def sx3_def

lemma low_masks: "(0x3f :: u8) = mask 6" "(3 :: u8) = mask 2" "(0x0f :: u8) = mask 4"
  by (simp_all add: mask_eq_exp_minus_1)

lemma six_sx: "six (sx0 a)" "six (sx1 a b)" "six (sx2 a b)" "six (sx3 a)"
  by (auto simp: six_def sx_defs low_masks bit_simps simp del: of_nat_numeral dest: bit_imp_le_length)

lemma byte_eqI:
  fixes a b :: u8
  assumes "bit a 0 = bit b 0" "bit a 1 = bit b 1" "bit a 2 = bit b 2" "bit a 3 = bit b 3"
    "bit a 4 = bit b 4" "bit a 5 = bit b 5" "bit a 6 = bit b 6" "bit a 7 = bit b 7"
  shows "a = b"
proof (rule bit_word_eqI)
  fix n assume "n < LENGTH(8)"
  then have "n = 0 \<or> n = 1 \<or> n = 2 \<or> n = 3 \<or> n = 4 \<or> n = 5 \<or> n = 6 \<or> n = 7" by simp linarith
  then show "bit a n = bit b n" using assms by (elim disjE) simp_all
qed

lemma sx_join: "push_bit 2 (sx0 a) OR drop_bit 4 (sx1 a b) = a" "push_bit 4 (sx1 a b) OR drop_bit 2 (sx2 b c) = b"
    "push_bit 6 (sx2 b c) OR sx3 c = c"
  by (rule byte_eqI; simp add: sx_defs low_masks bit_simps; fail)+

lemma sx_zero: "push_bit 4 (s0 AND 3) = sx1 s0 0" "push_bit 2 (s1 AND 0x0f) = sx2 s1 0"
  by (simp_all add: sx_defs)

section \<open>Encoded text\<close>

fun sextets :: "bytes \<Rightarrow> bytes" where
  "sextets (a # b # c # s) = [sx0 a, sx1 a b, sx2 b c, sx3 c] @ sextets s"
| "sextets [a, b] = [sx0 a, sx1 a b, sx2 b 0]"
| "sextets [a] = [sx0 a, sx1 a 0]"
| "sextets [] = []"

definition b64 :: "bytes \<Rightarrow> bytes \<Rightarrow> bytes" where
  \<comment> \<open>the encoding without padding\<close>
  "b64 enc src = map (\<lambda>w. enc ! unat w) (sextets src)"

definition pad64 :: "bool \<Rightarrow> bytes \<Rightarrow> bytes" where
  "pad64 padding src = (if padding then replicate ((3 - length src mod 3) mod 3) 61 else [])"

lemma length_sextets: "length (sextets src) = (4 * length src + 2) div 3"
proof (induction src rule: sextets.induct)
  case (1 a b c s)
  have "(4 * length (a # b # c # s) + 2) div 3 = 4 + (4 * length s + 2) div 3" by simp
  then show ?case using 1 by simp
qed simp_all

lemma six_sextets: "w \<in> set (sextets src) \<Longrightarrow> six w"
  by (induction src rule: sextets.induct) (auto simp: six_sx)

lemmas enc_loop_fold = b64_enc_loop.simps(1) [folded sx0_def sx1_def sx2_def, folded sx3_def]

lemma enc_tail_fold:
  "b64_enc_tail basis padding [a] d = do {
     c0 \<leftarrow> arr_get basis (uint (sx0 a)); d \<leftarrow> emit d c0; c1 \<leftarrow> arr_get basis (uint (sx1 a 0)); d \<leftarrow> emit d c1;
     d \<leftarrow> (if padding then emit d 61 else Some d); (if padding then emit d 61 else Some d) }"
  "b64_enc_tail basis padding [a, b] d = do {
     c0 \<leftarrow> arr_get basis (uint (sx0 a)); d \<leftarrow> emit d c0; c1 \<leftarrow> arr_get basis (uint (sx1 a b)); d \<leftarrow> emit d c1;
     c2 \<leftarrow> arr_get basis (uint (sx2 b 0)); d \<leftarrow> emit d c2; (if padding then emit d 61 else Some d) }"
  by (simp_all only: b64_enc_tail_def list.case sx_zero [symmetric] sx0_def) (simp_all only: sx1_def)

lemma b64_encode_ok:
  assumes "alphabet enc dec"
  shows "Option.bind (b64_enc_loop enc src d) (\<lambda>(s, d). b64_enc_tail enc padding s d) = emits d (b64 enc src @ pad64 padding src)"
proof (induction src arbitrary: d rule: sextets.induct)
  case (1 a b c s)
  note A = alphabet_char(1) [OF assms six_sx(1)] alphabet_char(1) [OF assms six_sx(2)]
    alphabet_char(1) [OF assms six_sx(3)] alphabet_char(1) [OF assms six_sx(4)]
  have "pad64 padding (a # b # c # s) = pad64 padding s" by (simp add: pad64_def)
  then show ?case
    using 1 unfolding enc_loop_fold by (simp add: A b64_def emit_simps)
next
  case (2 a b)
  note A = alphabet_char(1) [OF assms six_sx(1)] alphabet_char(1) [OF assms six_sx(2)] alphabet_char(1) [OF assms six_sx(3)]
  show ?case by (cases padding) (simp_all add: enc_tail_fold A b64_def emit_def emits_append pad64_def numeral_2_eq_2)
next
  case (3 a)
  note A = alphabet_char(1) [OF assms six_sx(1)] alphabet_char(1) [OF assms six_sx(2)]
  show ?case by (cases padding) (simp_all add: enc_tail_fold A b64_def emit_def emits_append pad64_def numeral_2_eq_2)
next
  case 4
  show ?case by (simp add: b64_enc_tail_def b64_def pad64_def)
qed

section \<open>Decoding\<close>

lemma scan_ok:
  assumes "alphabet enc dec" and "\<forall>w\<in>set ws. six w" and "z = [] \<or> hd z = 61"
  shows "b64_scan dec (map (\<lambda>w. enc ! unat w) ws @ z) len = Some (Some (len + length ws))"
  using assms(2)
proof (induction ws arbitrary: len)
  case Nil
  then show ?case using assms(3) by (cases z) simp_all
next
  case (Cons w ws)
  then have "six w" by simp
  then show ?case using Cons alphabet_char(2,3,4) [OF assms(1)] by simp
qed

lemma arr_get_at: "arr_get (a # s) 0 = Some a" "arr_get (a # b # s) 1 = Some b" "arr_get (a # b # c # s) 2 = Some c"
  by (simp_all add: arr_get_def)

lemma b64_decode_ok:
  assumes "alphabet enc dec"
  shows "b64_dec_loop dec (length (b64 enc src)) (b64 enc src @ z) d = emits d src"
proof (induction src arbitrary: d rule: sextets.induct)
  case (1 a b c s)
  note A = alphabet_char(3) [OF assms six_sx(1)] alphabet_char(3) [OF assms six_sx(2)]
    alphabet_char(3) [OF assms six_sx(3)] alphabet_char(3) [OF assms six_sx(4)]
  have "length (b64 enc (a # b # c # s)) = length (b64 enc s) + 4" by (simp add: b64_def)
  moreover have "b64_dec_loop dec (length (b64 enc s)) (b64 enc s @ z) = (\<lambda>d. emits d s)" using 1 by blast
  ultimately show ?case
    by (subst b64_dec_loop.simps) (simp add: b64_def A sx_join emit_def emits_append)
next
  case (2 a b)
  note A = alphabet_char(3) [OF assms six_sx(1)] alphabet_char(3) [OF assms six_sx(2)] alphabet_char(3) [OF assms six_sx(3)]
  show ?case by (subst b64_dec_loop.simps) (simp add: b64_def A sx_join arr_get_at emit_def emits_append)
next
  case (3 a)
  note A = alphabet_char(3) [OF assms six_sx(1)] alphabet_char(3) [OF assms six_sx(2)]
  show ?case by (subst b64_dec_loop.simps) (simp add: b64_def A sx_join arr_get_at emit_def emits_append)
next
  case 4
  show ?case by (subst b64_dec_loop.simps) (simp add: b64_def)
qed

lemma internal_round_trip:
  assumes A: "alphabet enc dec" and "length (b64 enc src @ pad64 padding src) \<le> length buf"
  shows "ngx_encode_base64_internal buf src enc padding =
      Some (blit buf 0 (b64 enc src @ pad64 padding src), length (b64 enc src @ pad64 padding src))"
    and "length src \<le> length buf2 \<Longrightarrow>
      ngx_decode_base64_internal buf2 (b64 enc src @ pad64 padding src) dec = Some (0, blit buf2 0 src, length src)"
proof -
  show "ngx_encode_base64_internal buf src enc padding =
      Some (blit buf 0 (b64 enc src @ pad64 padding src), length (b64 enc src @ pad64 padding src))"
    using b64_encode_ok [OF A, of src "(buf, 0)" padding] assms(2) emits_ok [of 0 "b64 enc src @ pad64 padding src" buf]
    by (simp add: ngx_encode_base64_internal_def)
  have "pad64 padding src = [] \<or> hd (pad64 padding src) = 61"
    by (cases "(3 - length src mod 3) mod 3") (simp_all add: pad64_def)
  then have "b64_scan dec (b64 enc src @ pad64 padding src) 0 = Some (Some (length (b64 enc src)))"
    using scan_ok [OF A, of "sextets src" "pad64 padding src" 0] six_sextets by (simp add: b64_def)
  moreover have "length (b64 enc src) mod 4 \<noteq> 1"
    unfolding b64_def length_map length_sextets by presburger
  ultimately show "ngx_decode_base64_internal buf2 (b64 enc src @ pad64 padding src) dec = Some (0, blit buf2 0 src, length src)"
    if "length src \<le> length buf2"
    using b64_decode_ok [OF A, of src "pad64 padding src" "(buf2, 0)"] emits_ok [of 0 src buf2] that
    by (simp add: ngx_decode_base64_internal_def)
qed

lemma padded_length: "(4 * n + 2) div 3 + (3 - n mod 3) mod 3 = (n + 2) div 3 * (4 :: nat)"
proof -
  define q r where "q = n div 3" and "r = n mod 3"
  then have n: "n = 3 * q + r" and "r < 3" by simp_all
  then have "r = 0 \<or> r = 1 \<or> r = 2" by linarith
  moreover have "(12 * q + 2) div 3 = 4 * q" "(3 * q + 2) div 3 = q" "(12 * q + 10) div 3 = 4 * q + 3"
      "Suc (Suc (3 * q)) mod 3 = 2" "Suc (3 * q) mod 3 = 1" "(12 * q + 6) div 3 = 4 * q + 2" by simp_all presburger+
  ultimately show ?thesis unfolding n by (elim disjE) (simp_all add: algebra_simps)
qed

section \<open>Properties\<close>

text \<open>
  C20: base64. Into a buffer of the size given by \<open>ngx_base64_encoded_length\<close> the encoder writes a text of
  exactly that length, the URL-safe encoder one of at most that length without padding; neither writes
  outside the buffer, and the matching decoder accepts the text and gives back the source, in a buffer
  no larger than the source.
\<close>

theorem base64_round_trip:
  assumes "(length src + 2) div 3 * 4 \<le> length buf" and "length src \<le> length buf2"
  shows "(\<exists>text. ngx_encode_base64 buf src = Some (blit buf 0 text, length text) \<and> length text = (length src + 2) div 3 * 4 \<and>
      ngx_decode_base64 buf2 text = Some (0, blit buf2 0 src, length src)) \<and>
    (\<exists>text. ngx_encode_base64url buf src = Some (blit buf 0 text, length text) \<and> length text = (4 * length src + 2) div 3 \<and>
      61 \<notin> set text \<and> ngx_decode_base64url buf2 text = Some (0, blit buf2 0 src, length src))"
proof (intro conjI)
  let ?t = "b64 encode_basis64 src @ pad64 True src" and ?u = "b64 encode_basis64url src @ pad64 False src"
  have lt: "length ?t = (length src + 2) div 3 * 4"
    using padded_length [of "length src"] by (simp add: b64_def length_sextets pad64_def)
  have lu: "length ?u = (4 * length src + 2) div 3" by (simp add: b64_def length_sextets pad64_def)
  have "(4 * length src + 2) div 3 \<le> (length src + 2) div 3 * 4" using padded_length [of "length src"] by linarith
  then have lu': "length ?u \<le> length buf" using assms(1) unfolding lu by linarith
  note T = internal_round_trip [OF alphabets(1) order.trans [OF eq_refl [OF lt] assms(1)]]
  note U = internal_round_trip [OF alphabets(2) lu']
  have "61 \<notin> set ?u" using alphabet_char(2) [OF alphabets(2) six_sextets] by (auto simp: b64_def pad64_def)
  then show "\<exists>text. ngx_encode_base64url buf src = Some (blit buf 0 text, length text) \<and> length text = (4 * length src + 2) div 3 \<and>
      61 \<notin> set text \<and> ngx_decode_base64url buf2 text = Some (0, blit buf2 0 src, length src)"
    using U(1) U(2) [OF assms(2)] lu unfolding ngx_encode_base64url_def ngx_decode_base64url_def by blast
  show "\<exists>text. ngx_encode_base64 buf src = Some (blit buf 0 text, length text) \<and> length text = (length src + 2) div 3 * 4 \<and>
      ngx_decode_base64 buf2 text = Some (0, blit buf2 0 src, length src)"
    using T(1) T(2) [OF assms(2)] lt unfolding ngx_encode_base64_def ngx_decode_base64_def by blast
qed

theorem base64_round_trip_witness:
  "\<exists>text. ngx_encode_base64 (replicate 8 0) [77, 97, 110, 33] = Some (blit (replicate 8 0) 0 text, length text) \<and> length text = 8 \<and>
      ngx_decode_base64 (replicate 4 0) text = Some (0, blit (replicate 4 0) 0 [77, 97, 110, 33], length [77 :: u8, 97, 110, 33])"
  using base64_round_trip [of "[77, 97, 110, 33]" "replicate 8 0" "replicate 4 0"] by auto

end
