(* ===== verification/Ngx_Escape.thy ===== *)
theory Ngx_Escape
  imports Ngx_Output
begin

text \<open>
  URI, HTML and JSON escaping and URI unescaping from \<^verbatim>\<open>src/nginx/src/core/ngx_string.c\<close>. The escaping
  functions run twice, first with a null destination to count, then to write; the null destination is
  \<open>None\<close>, a count is \<open>Inl\<close> and a written buffer \<open>Inr\<close>.
\<close>

section \<open>URI\<close>

definition escape_map :: "u32 list list" where
  \<comment> \<open>\<open>uri\<close>, \<open>args\<close>, \<open>uri_component\<close>, \<open>html\<close>, \<open>refresh\<close>, \<open>memcached\<close> and again \<open>memcached\<close>\<close>
  "escape_map =
     [[0xffffffff, 0xd000002d, 0x50000000, 0xb8000001, 0xffffffff, 0xffffffff, 0xffffffff, 0xffffffff],
      [0xffffffff, 0xd800086d, 0x50000000, 0xb8000001, 0xffffffff, 0xffffffff, 0xffffffff, 0xffffffff],
      [0xffffffff, 0xfc009fff, 0x78000001, 0xb8000001, 0xffffffff, 0xffffffff, 0xffffffff, 0xffffffff],
      [0xffffffff, 0x500000ad, 0x50000000, 0xb8000001, 0xffffffff, 0xffffffff, 0xffffffff, 0xffffffff],
      [0xffffffff, 0x50000085, 0x50000000, 0xd8000001, 0xffffffff, 0xffffffff, 0xffffffff, 0xffffffff],
      [0xffffffff, 0x00000021, 0x00000000, 0x00000000, 0x00000000, 0x00000000, 0x00000000, 0x00000000],
      [0xffffffff, 0x00000021, 0x00000000, 0x00000000, 0x00000000, 0x00000000, 0x00000000, 0x00000000]]"

definition hex_upper :: bytes where
  "hex_upper = [48, 49, 50, 51, 52, 53, 54, 55, 56, 57, 65, 66, 67, 68, 69, 70]"

definition must_escape :: "u32 list \<Rightarrow> u8 \<Rightarrow> bool option" where
  \<comment> \<open>\<open>escape[*src >> 5] & (1U << (*src & 0x1f))\<close>\<close>
  "must_escape escape c = do {
     w \<leftarrow> arr_get escape (uint (drop_bit 5 c));
     Some (w AND push_bit (unat (c AND 0x1f)) 1 \<noteq> 0)
   }"

fun escape_uri_count :: "u32 list \<Rightarrow> bytes \<Rightarrow> nat \<Rightarrow> nat option" where
  "escape_uri_count escape [] n = Some n"
| "escape_uri_count escape (c # src) n = do {
     e \<leftarrow> must_escape escape c;
     escape_uri_count escape src (if e then n + 1 else n)
   }"

fun escape_uri_write :: "u32 list \<Rightarrow> bytes \<Rightarrow> out \<Rightarrow> out option" where
  "escape_uri_write escape [] dst = Some dst"
| "escape_uri_write escape (c # src) dst = do {
     e \<leftarrow> must_escape escape c;
     dst \<leftarrow> (if e then do {
              dst \<leftarrow> emit dst 37;
              h \<leftarrow> arr_get hex_upper (uint (drop_bit 4 c));
              dst \<leftarrow> emit dst h;
              l \<leftarrow> arr_get hex_upper (uint (c AND 0xf));
              emit dst l
            } else emit dst c);
     escape_uri_write escape src dst
   }"

definition ngx_escape_uri :: "out option \<Rightarrow> bytes \<Rightarrow> nat \<Rightarrow> (nat + out) option" where
  "ngx_escape_uri dst src type = do {
     escape \<leftarrow> arr_get escape_map (int type);
     (case dst of None \<Rightarrow> map_option Inl (escape_uri_count escape src 0)
      | Some dst \<Rightarrow> map_option Inr (escape_uri_write escape src dst))
   }"

datatype unescape_state = sw_usual | sw_quoted | sw_quoted_second

definition NGX_UNESCAPE_URI :: nat where "NGX_UNESCAPE_URI = 1"
definition NGX_UNESCAPE_REDIRECT :: nat where "NGX_UNESCAPE_REDIRECT = 2"

definition flag :: "nat \<Rightarrow> nat \<Rightarrow> bool" where
  "flag type f = (type AND f \<noteq> 0)"

definition is_digit_char :: "u8 \<Rightarrow> bool" where
  "is_digit_char ch = (48 \<le> ch \<and> ch \<le> 57)"

definition is_hex_letter :: "u8 \<Rightarrow> bool" where
  \<comment> \<open>\<open>c = ch | 0x20; c >= 'a' && c <= 'f'\<close>\<close>
  "is_hex_letter ch = (97 \<le> (ch OR 0x20) \<and> (ch OR 0x20) \<le> 102)"

fun unescape_loop :: "nat \<Rightarrow> unescape_state \<Rightarrow> u8 \<Rightarrow> u8 \<Rightarrow> bytes \<Rightarrow> out \<Rightarrow> (out \<times> bytes) option" where
  \<comment> \<open>\<open>prev\<close> is the character before \<open>s\<close>, the code's \<open>*(s - 2)\<close> after the fetch; the result is the output and
     the unread source\<close>
  "unescape_loop type state decoded prev [] d = Some (d, [])"
| "unescape_loop type state decoded prev (ch # s) d =
     (case state of
        sw_usual \<Rightarrow>
          if ch = 63 \<and> flag type (NGX_UNESCAPE_URI OR NGX_UNESCAPE_REDIRECT) then do { d \<leftarrow> emit d ch; Some (d, s) }
          else if ch = 37 then unescape_loop type sw_quoted decoded ch s d
          else do { d \<leftarrow> emit d ch; unescape_loop type sw_usual decoded ch s d }
      | sw_quoted \<Rightarrow>
          if is_digit_char ch then unescape_loop type sw_quoted_second (ch - 48) ch s d
          else if is_hex_letter ch then unescape_loop type sw_quoted_second ((ch OR 0x20) - 97 + 10) ch s d
          else do { d \<leftarrow> emit d ch; unescape_loop type sw_usual decoded ch s d }
      | sw_quoted_second \<Rightarrow>
          if is_digit_char ch then
            (let v = push_bit 4 decoded + (ch - 48) in
             if flag type NGX_UNESCAPE_REDIRECT then
               (if 37 < v \<and> v < 0x7f then do { d \<leftarrow> emit d v; unescape_loop type sw_usual decoded ch s d }
                else do { d \<leftarrow> emits d [37, prev, ch]; unescape_loop type sw_usual decoded ch s d })
             else do { d \<leftarrow> emit d v; unescape_loop type sw_usual decoded ch s d })
          else if is_hex_letter ch then
            (let v = push_bit 4 decoded + ((ch OR 0x20) - 97) + 10 in
             if flag type NGX_UNESCAPE_URI then
               (if v = 63 then do { d \<leftarrow> emit d v; Some (d, s) }
                else do { d \<leftarrow> emit d v; unescape_loop type sw_usual decoded ch s d })
             else if flag type NGX_UNESCAPE_REDIRECT then
               (if v = 63 then do { d \<leftarrow> emit d v; Some (d, s) }
                else if 37 < v \<and> v < 0x7f then do { d \<leftarrow> emit d v; unescape_loop type sw_usual decoded ch s d }
                else do { d \<leftarrow> emits d [37, prev, ch]; unescape_loop type sw_usual decoded ch s d })
             else do { d \<leftarrow> emit d v; unescape_loop type sw_usual decoded ch s d })
          else unescape_loop type sw_usual decoded ch s d)"

definition ngx_unescape_uri :: "out \<Rightarrow> bytes \<Rightarrow> nat \<Rightarrow> (out \<times> bytes) option" where
  "ngx_unescape_uri dst src type = unescape_loop type sw_usual 0 0 src dst"

section \<open>HTML\<close>

definition html_entity :: "u8 \<Rightarrow> bytes" where
  \<comment> \<open>the characters written for one source character\<close>
  "html_entity ch =
     (if ch = 60 then [38, 108, 116, 59]
      else if ch = 62 then [38, 103, 116, 59]
      else if ch = 38 then [38, 97, 109, 112, 59]
      else if ch = 34 then [38, 113, 117, 111, 116, 59]
      else [ch])"

definition html_extra :: "u8 \<Rightarrow> nat" where
  \<comment> \<open>\<open>sizeof("&lt;") - 2\<close> and so on\<close>
  "html_extra ch = (if ch = 60 then 3 else if ch = 62 then 3 else if ch = 38 then 4 else if ch = 34 then 5 else 0)"

fun escape_html_count :: "bytes \<Rightarrow> nat \<Rightarrow> nat" where
  "escape_html_count [] len = len"
| "escape_html_count (c # src) len = escape_html_count src (len + html_extra c)"

fun escape_html_write :: "bytes \<Rightarrow> out \<Rightarrow> out option" where
  "escape_html_write [] dst = Some dst"
| "escape_html_write (c # src) dst = do { dst \<leftarrow> emits dst (html_entity c); escape_html_write src dst }"

definition ngx_escape_html :: "out option \<Rightarrow> bytes \<Rightarrow> (nat + out) option" where
  "ngx_escape_html dst src =
     (case dst of None \<Rightarrow> Some (Inl (escape_html_count src 0)) | Some dst \<Rightarrow> map_option Inr (escape_html_write src dst))"

section \<open>JSON\<close>

definition json_short :: "u8 \<Rightarrow> u8 option" where
  \<comment> \<open>the letter after the backslash for \<open>\\n\<close>, \<open>\\r\<close>, \<open>\\t\<close>, \<open>\\b\<close>, \<open>\\f\<close>\<close>
  "json_short ch =
     (if ch = 10 then Some 110 else if ch = 13 then Some 114 else if ch = 9 then Some 116
      else if ch = 8 then Some 98 else if ch = 12 then Some 102 else None)"

fun escape_json_count :: "bytes \<Rightarrow> nat \<Rightarrow> nat" where
  "escape_json_count [] len = len"
| "escape_json_count (ch # src) len =
     escape_json_count src
       (if ch = 92 \<or> ch = 34 then len + 1
        else if ch \<le> 0x1f then (case json_short ch of Some _ \<Rightarrow> len + 1 | None \<Rightarrow> len + 5)
        else len)"

fun escape_json_write :: "bytes \<Rightarrow> out \<Rightarrow> out option" where
  "escape_json_write [] dst = Some dst"
| "escape_json_write (ch # src) dst = do {
     dst \<leftarrow>
       (if ch > 0x1f then do {
          dst \<leftarrow> (if ch = 92 \<or> ch = 34 then emit dst 92 else Some dst);
          emit dst ch
        }
        else do {
          dst \<leftarrow> emit dst 92;
          (case json_short ch of
             Some c \<Rightarrow> emit dst c
           | None \<Rightarrow> do {
               dst \<leftarrow> emits dst [117, 48, 48];
               dst \<leftarrow> emit dst (48 + drop_bit 4 ch);
               let ch = ch AND 0xf;
               emit dst (if ch < 10 then 48 + ch else 65 + ch - 10)
             })
        });
     escape_json_write src dst
   }"

definition ngx_escape_json :: "out option \<Rightarrow> bytes \<Rightarrow> (nat + out) option" where
  "ngx_escape_json dst src =
     (case dst of None \<Rightarrow> Some (Inl (escape_json_count src 0)) | Some dst \<Rightarrow> map_option Inr (escape_json_write src dst))"

section \<open>What is written\<close>

definition escapes :: "u32 list \<Rightarrow> u8 \<Rightarrow> bool" where
  "escapes escape c \<longleftrightarrow> bit (escape ! unat (drop_bit 5 c)) (unat (take_bit 5 c))"

definition uri_char :: "u32 list \<Rightarrow> u8 \<Rightarrow> bytes" where
  "uri_char escape c =
     (if escapes escape c then [37, hex_upper ! unat (drop_bit 4 c), hex_upper ! unat (take_bit 4 c)] else [c])"

definition json_char :: "u8 \<Rightarrow> bytes" where
  "json_char ch =
     (if ch > 0x1f then (if ch = 92 \<or> ch = 34 then [92, ch] else [ch])
      else (case json_short ch of Some c \<Rightarrow> [92, c]
        | None \<Rightarrow> [92, 117, 48, 48, 48 + drop_bit 4 ch, if ch AND 0xf < 10 then 48 + (ch AND 0xf) else 65 + (ch AND 0xf) - 10]))"

lemma unat_drop_less: "unat (drop_bit 5 (c :: u8)) < 8" "unat (drop_bit 4 c) < 16" "unat (take_bit 4 c) < 16" "unat (take_bit 5 c) < 32"
proof -
  have "unat c < 256" using unsigned_less [of c, where 'a = nat] by simp
  then show "unat (drop_bit 5 c) < 8" "unat (drop_bit 4 c) < 16"
    unfolding unat_drop_bit_eq by (simp_all add: drop_bit_eq_div less_mult_imp_div_less)
  show "unat (take_bit 4 c) < 16" "unat (take_bit 5 c) < 32"
    using take_bit_nat_less_exp [of 4 "unat c"] take_bit_nat_less_exp [of 5 "unat c"] by (simp_all add: unsigned_take_bit_eq)
qed

lemma low_bits: "(c :: u8) AND 0x1f = take_bit 5 c" "c AND 0xf = take_bit 4 c"
  by (simp_all add: take_bit_eq_mask mask_eq_exp_minus_1)

lemma must_escape_ok: "length escape = 8 \<Longrightarrow> must_escape escape c = Some (escapes escape c)"
proof -
  assume "length escape = 8"
  then have "arr_get escape (uint (drop_bit 5 c)) = Some (escape ! unat (drop_bit 5 c))"
    using arr_get_nat [of "unat (drop_bit 5 c)" escape] unat_drop_less(1) [of c] by simp
  moreover have "(w :: u32) AND push_bit k 1 \<noteq> 0 \<longleftrightarrow> bit w k" if "k < 32" for w k
    using that by (simp add: and_exp_eq_0_iff_not_bit push_bit_eq_mult)
  ultimately show ?thesis using unat_drop_less(4) [of c] by (simp add: must_escape_def escapes_def low_bits)
qed

lemma nibble_get: "arr_get hex_upper (uint (drop_bit 4 c)) = Some (hex_upper ! unat (drop_bit 4 (c :: u8)))"
    "arr_get hex_upper (uint (take_bit 4 c)) = Some (hex_upper ! unat (take_bit 4 c))"
  using arr_get_nat [of "unat (drop_bit 4 c)" hex_upper] arr_get_nat [of "unat (take_bit 4 c)" hex_upper] unat_drop_less [of c]
  by (simp_all add: hex_upper_def)

lemma escape_uri_write_ok:
  "length escape = 8 \<Longrightarrow> escape_uri_write escape src dst = emits dst (concat (map (uri_char escape) src))"
proof (induction src arbitrary: dst)
  case (Cons c src)
  then have IH: "escape_uri_write escape src = (\<lambda>d. emits d (concat (map (uri_char escape) src)))" by blast
  show ?case using Cons.prems
    by (simp add: must_escape_ok uri_char_def [of escape c] low_bits nibble_get IH emit_def emits_append)
qed simp

lemma escape_uri_count_ok:
  "length escape = 8 \<Longrightarrow> escape_uri_count escape src n = Some (n + length (filter (escapes escape) src))"
  by (induction src arbitrary: n) (simp_all add: must_escape_ok)

lemma escape_html_write_ok: "escape_html_write src dst = emits dst (concat (map html_entity src))"
proof (induction src arbitrary: dst)
  case (Cons c src)
  then have "escape_html_write src = (\<lambda>d. emits d (concat (map html_entity src)))" by blast
  then show ?case by (simp add: emits_append)
qed simp

lemma escape_json_write_ok: "escape_json_write src dst = emits dst (concat (map json_char src))"
proof (induction src arbitrary: dst)
  case (Cons c src)
  then have IH: "escape_json_write src = (\<lambda>d. emits d (concat (map json_char src)))" by blast
  show ?case
    by (simp add: IH json_char_def [of c] emit_def emits_append Let_def split: option.split)
qed simp

lemma uri_length: "length (concat (map (uri_char escape) src)) = length src + 2 * length (filter (escapes escape) src)"
  by (induction src) (simp_all add: uri_char_def)

lemma html_length: "escape_html_count src len + length src = len + length (concat (map html_entity src))"
proof (induction src arbitrary: len)
  case (Cons c src)
  then show ?case using Cons.IH [of "len + html_extra c"] by (simp add: html_extra_def html_entity_def)
qed simp

lemma json_short_small: "json_short ch \<noteq> None \<Longrightarrow> ch \<le> 0x1f"
  by (simp add: json_short_def split: if_splits)

lemma json_length: "escape_json_count src len + length src = len + length (concat (map json_char src))"
proof (induction src arbitrary: len)
  case (Cons c src)
  have "\<not> (c \<le> 0x1f \<and> (c = 92 \<or> c = 34))" by auto
  then have "length (json_char c) = Suc (if c = 92 \<or> c = 34 then 1 else if c \<le> 0x1f then (case json_short c of Some _ \<Rightarrow> 1 | None \<Rightarrow> 5) else 0)"
    by (auto simp: json_char_def not_less split: option.split)
  then show ?case
    using Cons.IH [of len] Cons.IH [of "len + 1"] Cons.IH [of "len + 5"] by (auto split: option.splits if_splits)
qed simp

section \<open>Properties\<close>

text \<open>
  the counting pass sizes the buffer exactly. For URI escaping of every type, \<open>size + 2 * n\<close> bytes,
  and for HTML and JSON, \<open>size + len\<close> bytes, where \<open>n\<close> and \<open>len\<close> are what the call with a null destination
  returns: the writing pass fits a buffer of that size and fills it to the last byte, so it would leave
  any smaller one.
\<close>

theorem escape_sizes:
  assumes "type < 7"
  shows "(\<exists>n. ngx_escape_uri None src type = Some (Inl n) \<and>
      (\<forall>buf. if length src + 2 * n \<le> length buf
             then \<exists>buf'. ngx_escape_uri (Some (buf, 0)) src type = Some (Inr (buf', length src + 2 * n))
             else ngx_escape_uri (Some (buf, 0)) src type = None)) \<and>
    (\<exists>len. ngx_escape_html None src = Some (Inl len) \<and>
      (\<forall>buf. if length src + len \<le> length buf
             then \<exists>buf'. ngx_escape_html (Some (buf, 0)) src = Some (Inr (buf', length src + len))
             else ngx_escape_html (Some (buf, 0)) src = None)) \<and>
    (\<exists>len. ngx_escape_json None src = Some (Inl len) \<and>
      (\<forall>buf. if length src + len \<le> length buf
             then \<exists>buf'. ngx_escape_json (Some (buf, 0)) src = Some (Inr (buf', length src + len))
             else ngx_escape_json (Some (buf, 0)) src = None))"
proof (intro conjI)
  have map7: "type = 0 \<or> type = 1 \<or> type = 2 \<or> type = 3 \<or> type = 4 \<or> type = 5 \<or> type = 6" using assms by linarith
  have get: "arr_get escape_map (int type) = Some (escape_map ! type)"
    using arr_get_nat [of type escape_map] assms by (simp add: escape_map_def)
  have len: "length (escape_map ! type) = 8" using map7 by (elim disjE) (simp_all add: escape_map_def)
  note W = escape_uri_write_ok [OF len] escape_uri_count_ok [OF len] uri_length
  show "\<exists>n. ngx_escape_uri None src type = Some (Inl n) \<and>
      (\<forall>buf. if length src + 2 * n \<le> length buf
             then \<exists>buf'. ngx_escape_uri (Some (buf, 0)) src type = Some (Inr (buf', length src + 2 * n))
             else ngx_escape_uri (Some (buf, 0)) src type = None)"
    by (simp add: ngx_escape_uri_def get W emits_ok emits_full)
  have h: "length (concat (map html_entity src)) = length src + escape_html_count src 0" using html_length [of src 0] by simp
  then show "\<exists>len. ngx_escape_html None src = Some (Inl len) \<and>
      (\<forall>buf. if length src + len \<le> length buf
             then \<exists>buf'. ngx_escape_html (Some (buf, 0)) src = Some (Inr (buf', length src + len))
             else ngx_escape_html (Some (buf, 0)) src = None)"
    by (simp add: ngx_escape_html_def escape_html_write_ok emits_ok emits_full)
  have j: "length (concat (map json_char src)) = length src + escape_json_count src 0" using json_length [of src 0] by simp
  then show "\<exists>len. ngx_escape_json None src = Some (Inl len) \<and>
      (\<forall>buf. if length src + len \<le> length buf
             then \<exists>buf'. ngx_escape_json (Some (buf, 0)) src = Some (Inr (buf', length src + len))
             else ngx_escape_json (Some (buf, 0)) src = None)"
    by (simp add: ngx_escape_json_def escape_json_write_ok emits_ok emits_full)
qed

theorem escape_sizes_witness:
  "\<exists>n. ngx_escape_uri None [32, 97] 2 = Some (Inl n) \<and>
      (\<forall>buf. if length [32 :: u8, 97] + 2 * n \<le> length buf
             then \<exists>buf'. ngx_escape_uri (Some (buf, 0)) [32, 97] 2 = Some (Inr (buf', length [32 :: u8, 97] + 2 * n))
             else ngx_escape_uri (Some (buf, 0)) [32, 97] 2 = None)"
  by (rule escape_sizes [THEN conjunct1]) simp

section \<open>Undoing the escapes\<close>

subsection \<open>URI\<close>

definition safe_for_unescape :: "u32 list \<Rightarrow> bool" where
  \<comment> \<open>the percent sign is escaped\<close>
  "safe_for_unescape escape \<longleftrightarrow> escapes escape 37"

lemma hex_values:
  "list_all (\<lambda>v. let h = hex_upper ! v in
     (is_digit_char h \<longrightarrow> unat (h - 48) = v) \<and> (\<not> is_digit_char h \<longrightarrow> is_hex_letter h \<and> unat ((h OR 0x20) - 97 + 10) = v)) [0..<16]"
  by code_simp

lemma hex_value:
  assumes "unat v < 16"
  shows "is_digit_char (hex_upper ! unat v) \<Longrightarrow> hex_upper ! unat v - 48 = v"
    and "\<not> is_digit_char (hex_upper ! unat v) \<Longrightarrow> is_hex_letter (hex_upper ! unat v)"
    and "\<not> is_digit_char (hex_upper ! unat v) \<Longrightarrow> (hex_upper ! unat v OR 0x20) - 97 + 10 = v"
  using hex_values assms by (simp_all add: list_all_iff Let_def word_unat_eq_iff)

lemma nibbles_join: "push_bit 4 (drop_bit 4 c) + take_bit 4 (c :: u8) = c"
proof -
  have "push_bit 4 (drop_bit 4 c) + take_bit 4 c = push_bit 4 (drop_bit 4 c) OR take_bit 4 c"
    by (rule disjunctive_add) (auto simp: bit_simps)
  then show ?thesis by (simp add: bits_ident)
qed

lemma flag_0 [simp]: "\<not> flag 0 f"
  by (simp add: flag_def)

lemma unescape_uri_char:
  assumes "safe_for_unescape escape"
  shows "\<exists>decoded' prev'. unescape_loop 0 sw_usual decoded prev (uri_char escape c @ s) d =
    Option.bind (emit d c) (unescape_loop 0 sw_usual decoded' prev' s)"
proof (cases "escapes escape c")
  case True
  let ?h = "hex_upper ! unat (drop_bit 4 c)" and ?l = "hex_upper ! unat (take_bit 4 c)"
  note H = hex_value [OF unat_drop_less(2) [of c]] hex_value [OF unat_drop_less(3) [of c]]
  have first: "unescape_loop 0 sw_usual decoded prev (37 # ?h # ?l # s) d = unescape_loop 0 sw_quoted_second (drop_bit 4 c) ?h (?l # s) d"
    using H(1-3) by (cases "is_digit_char ?h") simp_all
  have second: "unescape_loop 0 sw_quoted_second (drop_bit 4 c) ?h (?l # s) d =
      Option.bind (emit d c) (unescape_loop 0 sw_usual (drop_bit 4 c) ?l s)"
    using H(4-6) nibbles_join [of c] by (cases "is_digit_char ?l") (simp_all add: Let_def add.assoc)
  show ?thesis using first second True by (auto simp: uri_char_def)
next
  case False
  then have "c \<noteq> 37" using assms by (auto simp: safe_for_unescape_def)
  then show ?thesis using False by (auto simp: uri_char_def)
qed

lemma unescape_escaped:
  assumes "safe_for_unescape escape"
  shows "unescape_loop 0 sw_usual decoded prev (concat (map (uri_char escape) src)) d = map_option (\<lambda>d. (d, [])) (emits d src)"
proof (induction src arbitrary: decoded prev d)
  case (Cons c src)
  obtain decoded' prev' where "unescape_loop 0 sw_usual decoded prev (uri_char escape c @ concat (map (uri_char escape) src)) d =
      Option.bind (emit d c) (unescape_loop 0 sw_usual decoded' prev' (concat (map (uri_char escape) src)))"
    using unescape_uri_char [OF assms] by blast
  moreover have "unescape_loop 0 sw_usual decoded' prev' (concat (map (uri_char escape) src)) = (\<lambda>d. map_option (\<lambda>d. (d, [])) (emits d src))"
    using Cons.IH by blast
  moreover have "Option.bind (emit d c) (\<lambda>d. map_option (\<lambda>d. (d, [])) (emits d src)) = map_option (\<lambda>d. (d, [])) (emits d (c # src))"
    unfolding emit_append [symmetric] by (cases "emit d c") simp_all
  ultimately show ?case by simp
qed simp

text \<open>
  C21: URI escaping is undone by unescaping. For every type but \<open>NGX_ESCAPE_REFRESH\<close>, which leaves the
  percent sign alone, escaping any bytes into a large enough buffer and unescaping the result with type
  0 gives back the bytes and reads the whole text.
\<close>

theorem uri_round_trip:
  assumes "type < 7" and "type \<noteq> 4" and "3 * length src \<le> length buf" and "length src \<le> length buf2"
  shows "\<exists>text. ngx_escape_uri (Some (buf, 0)) src type = Some (Inr (blit buf 0 text, length text)) \<and>
    ngx_unescape_uri (buf2, 0) text 0 = Some ((blit buf2 0 src, length src), [])"
proof -
  have map7: "type = 0 \<or> type = 1 \<or> type = 2 \<or> type = 3 \<or> type = 5 \<or> type = 6" using assms(1,2) by linarith
  have get: "arr_get escape_map (int type) = Some (escape_map ! type)"
    using arr_get_nat [of type escape_map] assms by (simp add: escape_map_def)
  have len: "length (escape_map ! type) = 8" using map7 by (elim disjE) (simp_all add: escape_map_def)
  have safe: "safe_for_unescape (escape_map ! type)"
    using map7 by (elim disjE) (simp_all add: escape_map_def safe_for_unescape_def escapes_def bit_numeral_rec)
  let ?t = "concat (map (uri_char (escape_map ! type)) src)"
  have "length (filter (escapes (escape_map ! type)) src) \<le> length src" by (rule length_filter_le)
  then have "length ?t \<le> length buf" unfolding uri_length using assms(3) by linarith
  then have "ngx_escape_uri (Some (buf, 0)) src type = Some (Inr (blit buf 0 ?t, length ?t))"
    using emits_ok [of 0 ?t buf] by (simp add: ngx_escape_uri_def get escape_uri_write_ok [OF len])
  moreover have "ngx_unescape_uri (buf2, 0) ?t 0 = Some ((blit buf2 0 src, length src), [])"
    using unescape_escaped [OF safe, of 0 0 src "(buf2, 0)"] emits_ok [of 0 src buf2] assms(4) by (simp add: ngx_unescape_uri_def)
  ultimately show ?thesis by blast
qed

theorem uri_round_trip_witness:
  "\<exists>text. ngx_escape_uri (Some (replicate 9 0, 0)) [37, 32, 97] 1 = Some (Inr (blit (replicate 9 0) 0 text, length text)) \<and>
    ngx_unescape_uri (replicate 3 0, 0) text 0 = Some ((blit (replicate 3 0) 0 [37, 32, 97], length [37 :: u8, 32, 97]), [])"
  by (rule uri_round_trip) simp_all

subsection \<open>JSON and HTML\<close>

definition json_hex_digit :: "u8 \<Rightarrow> nat option" where
  "json_hex_digit c = (if 48 \<le> c \<and> c \<le> 57 then Some (unat c - 48)
     else if 65 \<le> c \<and> c \<le> 70 then Some (unat c - 55)
     else if 97 \<le> c \<and> c \<le> 102 then Some (unat c - 87) else None)"

definition json_escape_char :: "u8 \<Rightarrow> u8 option" where
  "json_escape_char c = (if c = 34 \<or> c = 92 \<or> c = 47 then Some c
     else if c = 110 then Some 10 else if c = 114 then Some 13 else if c = 116 then Some 9
     else if c = 98 then Some 8 else if c = 102 then Some 12 else None)"

fun json_body :: "bytes \<Rightarrow> bytes option" where
  \<comment> \<open>the bytes denoted by the inside of a JSON string, \<open>\\u\<close> escapes below \<open>0x80\<close> only\<close>
  "json_body [] = Some []"
| "json_body (c # s) =
     (if c = 92 then
        (case s of
           [] \<Rightarrow> None
         | e # s1 \<Rightarrow>
             if e = 117 then
               (case s1 of
                  h1 # h2 # h3 # h4 # s2 \<Rightarrow> do {
                    a \<leftarrow> json_hex_digit h1; b \<leftarrow> json_hex_digit h2; x \<leftarrow> json_hex_digit h3; y \<leftarrow> json_hex_digit h4;
                    if a = 0 \<and> b = 0 \<and> x < 8 then map_option (Cons (of_nat (16 * x + y))) (json_body s2) else None
                  }
                | _ \<Rightarrow> None)
             else do { v \<leftarrow> json_escape_char e; map_option (Cons v) (json_body s1) })
      else if c < 0x20 \<or> c = 34 then None
      else map_option (Cons c) (json_body s))"

fun html_text :: "bytes \<Rightarrow> bytes option" where
  \<comment> \<open>the bytes denoted by character data with the four entities; markup characters are not allowed\<close>
  "html_text [] = Some []"
| "html_text (c # s) =
     (if c = 38 then
        (if take 3 s = [108, 116, 59] then map_option (Cons 60) (html_text (drop 3 s))
         else if take 3 s = [103, 116, 59] then map_option (Cons 62) (html_text (drop 3 s))
         else if take 4 s = [97, 109, 112, 59] then map_option (Cons 38) (html_text (drop 4 s))
         else if take 5 s = [113, 117, 111, 116, 59] then map_option (Cons 34) (html_text (drop 5 s))
         else None)
      else if c = 60 \<or> c = 62 \<or> c = 34 then None
      else map_option (Cons c) (html_text s))"

declare json_body.simps(2) [simp del] html_text.simps(2) [simp del]

lemma html_text_char: "html_text (html_entity c @ s) = map_option (Cons c) (html_text s)"
  by (simp add: html_entity_def html_text.simps(2))

lemma control_digits:
  "list_all (\<lambda>n. let c = of_nat n :: u8 in json_hex_digit (48 + drop_bit 4 c) = Some (n div 16) \<and>
     json_hex_digit (if c AND 0xf < 10 then 48 + (c AND 0xf) else 65 + (c AND 0xf) - 10) = Some (n mod 16)) [0..<32]"
  by code_simp

lemma control_digit:
  assumes "\<not> (c :: u8) > 0x1f"
  shows "json_hex_digit (48 + drop_bit 4 c) = Some (unat c div 16)"
    and "json_hex_digit (if c AND 0xf < 10 then 48 + (c AND 0xf) else 65 + (c AND 0xf) - 10) = Some (unat c mod 16)"
    and "unat c div 16 < 8"
proof -
  have e: "(of_nat (unat c) :: u8) = c" by simp
  have c: "unat c < 32" using assms by (simp add: word_less_nat_alt)
  then show "json_hex_digit (48 + drop_bit 4 c) = Some (unat c div 16)"
      "json_hex_digit (if c AND 0xf < 10 then 48 + (c AND 0xf) else 65 + (c AND 0xf) - 10) = Some (unat c mod 16)"
    using control_digits [unfolded list_all_iff Let_def, rule_format, of "unat c", unfolded e] by simp_all
  show "unat c div 16 < 8" using c by simp
qed

lemma json_body_char: "json_body (json_char c @ s) = map_option (Cons c) (json_body s)"
proof (cases "c > 0x1f")
  case True
  then have "\<not> c < 0x20" by (simp add: word_less_nat_alt)
  then show ?thesis using True by (auto simp: json_char_def json_body.simps(2) json_escape_char_def)
next
  case small: False
  show ?thesis
  proof (cases "json_short c")
    case (Some e)
    then show ?thesis using small
      by (auto simp: json_char_def json_short_def json_body.simps(2) json_escape_char_def split: if_splits)
  next
    case None
    have "json_hex_digit 48 = Some 0" by (simp add: json_hex_digit_def)
    moreover have "(of_nat (16 * (unat c div 16) + unat c mod 16) :: u8) = c" by (simp only: mult_div_mod_eq) simp
    then have "16 * of_nat (unat c div 16) + of_nat (unat c mod 16) = c"
      by (simp only: of_nat_add of_nat_mult of_nat_numeral)
    ultimately show ?thesis using small None control_digit [OF small]
      by (simp add: json_char_def json_body.simps(2))
  qed
qed

text \<open>
  C22: escaped text denotes its source. What \<open>ngx_escape_json\<close> writes is the inside of a JSON string, with
  no bare quote, backslash or control character, that denotes exactly the source bytes; what
  \<open>ngx_escape_html\<close> writes contains no markup character and denotes the source when the four entities
  are read.
\<close>

theorem escape_texts:
  assumes "6 * length src \<le> length buf"
  shows "(\<exists>text. ngx_escape_json (Some (buf, 0)) src = Some (Inr (blit buf 0 text, length text)) \<and> json_body text = Some src) \<and>
    (\<exists>text. ngx_escape_html (Some (buf, 0)) src = Some (Inr (blit buf 0 text, length text)) \<and> html_text text = Some src)"
proof (intro conjI)
  have "length (json_char c) \<le> 6" "length (html_entity c) \<le> 6" for c
    by (simp_all add: json_char_def html_entity_def split: option.split)
  then have "length (concat (map json_char src)) \<le> 6 * length src" "length (concat (map html_entity src)) \<le> 6 * length src"
    by (induction src) (simp_all add: add_mono)
  then have fits: "length (concat (map json_char src)) \<le> length buf" "length (concat (map html_entity src)) \<le> length buf"
    using assms by linarith+
  have "json_body (concat (map json_char src)) = Some src" by (induction src) (simp_all add: json_body_char)
  then show "\<exists>text. ngx_escape_json (Some (buf, 0)) src = Some (Inr (blit buf 0 text, length text)) \<and> json_body text = Some src"
    using emits_ok [of 0 "concat (map json_char src)" buf] fits(1)
    by (intro exI [of _ "concat (map json_char src)"]) (simp add: ngx_escape_json_def escape_json_write_ok)
  have "html_text (concat (map html_entity src)) = Some src" by (induction src) (simp_all add: html_text_char)
  then show "\<exists>text. ngx_escape_html (Some (buf, 0)) src = Some (Inr (blit buf 0 text, length text)) \<and> html_text text = Some src"
    using emits_ok [of 0 "concat (map html_entity src)" buf] fits(2)
    by (intro exI [of _ "concat (map html_entity src)"]) (simp add: ngx_escape_html_def escape_html_write_ok)
qed

theorem escape_texts_witness:
  "\<exists>text. ngx_escape_json (Some (replicate 12 0, 0)) [34, 7] = Some (Inr (blit (replicate 12 0) 0 text, length text)) \<and>
     json_body text = Some [34, 7]"
  by (rule escape_texts [THEN conjunct1]) simp

end
