(* ===== verification/Ngx_Numbers.thy ===== *)
theory Ngx_Numbers
  imports Ngx_Output
begin

text \<open>
  Reading and printing numbers, from \<^verbatim>\<open>src/nginx/src/core/ngx_string.c\<close>. The signed 64-bit values of the
  readers are integers with overflow as undefined behaviour; the theorems show that the cut-off tests
  of the code exclude it.
\<close>

section \<open>The code\<close>

fun atoi_loop :: "int \<Rightarrow> int \<Rightarrow> bytes \<Rightarrow> int \<Rightarrow> int option" where
  "atoi_loop cutoff cutlim [] val = Some val"
| "atoi_loop cutoff cutlim (c # line) val =
     (if c < 48 \<or> c > 57 then Some (-1)
      else if val \<ge> cutoff \<and> (val > cutoff \<or> uint c - 48 > cutlim) then Some (-1)
      else do { val \<leftarrow> c64 (val * 10 + (uint c - 48)); atoi_loop cutoff cutlim line val })"

definition ngx_atoi :: "bytes \<Rightarrow> int option" where
  "ngx_atoi line = (if line = [] then Some (-1) else atoi_loop (MAX64 div 10) (MAX64 mod 10) line 0)"

definition ngx_atosz :: "bytes \<Rightarrow> int option" where
  "ngx_atosz line = (if line = [] then Some (-1) else atoi_loop (MAX64 div 10) (MAX64 mod 10) line 0)"

definition ngx_atoof :: "bytes \<Rightarrow> int option" where
  "ngx_atoof line = (if line = [] then Some (-1) else atoi_loop (MAX64 div 10) (MAX64 mod 10) line 0)"

definition ngx_atotm :: "bytes \<Rightarrow> int option" where
  "ngx_atotm line = (if line = [] then Some (-1) else atoi_loop (MAX64 div 10) (MAX64 mod 10) line 0)"

fun hextoi_loop :: "int \<Rightarrow> bytes \<Rightarrow> int \<Rightarrow> int option" where
  "hextoi_loop cutoff [] val = Some val"
| "hextoi_loop cutoff (ch # line) val =
     (if val > cutoff then Some (-1)
      else if ch \<ge> 48 \<and> ch \<le> 57 then do { val \<leftarrow> c64 (val * 16 + (uint ch - 48)); hextoi_loop cutoff line val }
      else (let c = ch OR 0x20 in
        if c \<ge> 97 \<and> c \<le> 102 then do { val \<leftarrow> c64 (val * 16 + (uint c - 97 + 10)); hextoi_loop cutoff line val }
        else Some (-1)))"

definition ngx_hextoi :: "bytes \<Rightarrow> int option" where
  "ngx_hextoi line = (if line = [] then Some (-1) else hextoi_loop (MAX64 div 16) line 0)"

definition hex_lower :: bytes where
  "hex_lower = [48, 49, 50, 51, 52, 53, 54, 55, 56, 57, 97, 98, 99, 100, 101, 102]"

definition HEX_UPPER :: bytes where
  "HEX_UPPER = [48, 49, 50, 51, 52, 53, 54, 55, 56, 57, 65, 66, 67, 68, 69, 70]"

fun ngx_hex_dump :: "out \<Rightarrow> bytes \<Rightarrow> out option" where
  "ngx_hex_dump dst [] = Some dst"
| "ngx_hex_dump dst (c # src) = do {
     h \<leftarrow> arr_get hex_lower (uint (drop_bit 4 c));
     dst \<leftarrow> emit dst h;
     l \<leftarrow> arr_get hex_lower (uint (c AND 0xf));
     dst \<leftarrow> emit dst l;
     ngx_hex_dump dst src
   }"

definition dec_chars :: bytes where
  \<comment> \<open>\<open>n % 10 + '0'\<close>\<close>
  "dec_chars = [48, 49, 50, 51, 52, 53, 54, 55, 56, 57]"

definition NGX_INT64_LEN :: nat where
  "NGX_INT64_LEN = 20"

function digits_loop :: "bytes \<Rightarrow> nat \<Rightarrow> nat \<Rightarrow> bytes \<Rightarrow> nat \<Rightarrow> (bytes \<times> nat) option" where
  \<comment> \<open>\<open>do { *--p = digit } while (n /= base)\<close> on \<open>temp\<close>\<close>
  "digits_loop chars base n temp p = do {
     c \<leftarrow> arr_get chars (int (n mod base));
     temp \<leftarrow> arr_set temp (int p - 1) c;
     if base \<le> 1 \<or> n div base = 0 then Some (temp, p - 1) else digits_loop chars base (n div base) temp (p - 1)
   }"
  by pat_completeness auto
termination
  by (relation "measure (\<lambda>(chars, base, n, temp, p). n)") (auto intro!: div_less_dividend intro: gr0I)

declare digits_loop.simps [simp del]

fun pad_loop :: "nat \<Rightarrow> u8 \<Rightarrow> out \<Rightarrow> nat \<Rightarrow> out option" where
  \<comment> \<open>\<open>while (len++ < width && buf < last) *buf++ = zero\<close>, on the difference \<open>width - len\<close>\<close>
  "pad_loop 0 zero buf lim = Some buf"
| "pad_loop (Suc k) zero buf lim =
     (if snd buf < lim then do { buf \<leftarrow> emit buf zero; pad_loop k zero buf lim } else Some buf)"

definition ngx_sprintf_num :: "out \<Rightarrow> nat \<Rightarrow> u64 \<Rightarrow> u8 \<Rightarrow> nat \<Rightarrow> nat \<Rightarrow> out option" where
  \<comment> \<open>\<open>lim\<close>, the code's \<open>last\<close>, is the index of the end of the buffer\<close>
  "ngx_sprintf_num buf lim ui64 zero hexadecimal width = do {
     let temp = replicate (NGX_INT64_LEN + 1) 0;
     (temp, p) \<leftarrow>
       (if hexadecimal = 0 then
          (if unat ui64 \<le> 0xffffffff
           then digits_loop dec_chars 10 (unat (ucast ui64 :: u32)) temp NGX_INT64_LEN
           else digits_loop dec_chars 10 (unat ui64) temp NGX_INT64_LEN)
        else digits_loop (if hexadecimal = 1 then hex_lower else HEX_UPPER) 16 (unat ui64) temp NGX_INT64_LEN);
     let len = NGX_INT64_LEN - p;
     buf \<leftarrow> pad_loop (width - len) zero buf lim;
     let len = (if snd buf + len > lim then lim - snd buf else len);
     src \<leftarrow> mem_read temp (int p) len;
     emits buf src
   }"

section \<open>Numbers as text\<close>

definition dec_digit :: "u8 \<Rightarrow> nat option" where
  "dec_digit c = (if 48 \<le> c \<and> c \<le> 57 then Some (unat c - 48) else None)"

definition hex_digit :: "u8 \<Rightarrow> nat option" where
  "hex_digit c = (if 48 \<le> c \<and> c \<le> 57 then Some (unat c - 48)
     else if 97 \<le> (c OR 0x20) \<and> (c OR 0x20) \<le> 102 then Some (unat (c OR 0x20) - 87) else None)"

fun read_number :: "nat \<Rightarrow> (u8 \<Rightarrow> nat option) \<Rightarrow> bytes \<Rightarrow> nat \<Rightarrow> nat option" where
  \<comment> \<open>the unbounded value of a digit string\<close>
  "read_number base digit [] v = Some v"
| "read_number base digit (c # s) v = do { d \<leftarrow> digit c; read_number base digit s (v * base + d) }"

definition number_or_error :: "nat \<Rightarrow> (u8 \<Rightarrow> nat option) \<Rightarrow> bytes \<Rightarrow> int" where
  \<comment> \<open>the value of a nonempty digit string if it fits 63 bits, else \<open>NGX_ERROR\<close>\<close>
  "number_or_error base digit line =
     (case read_number base digit line 0 of
        Some v \<Rightarrow> if line \<noteq> [] \<and> int v \<le> MAX64 then int v else -1
      | None \<Rightarrow> -1)"

lemma read_number_ge: "read_number base digit s v = Some w \<Longrightarrow> 0 < base \<Longrightarrow> v \<le> w"
proof (induction s arbitrary: v)
  case (Cons c s)
  then obtain d where "read_number base digit s (v * base + d) = Some w" by (auto simp: bind_eq_Some_conv)
  then have "v * base + d \<le> w" using Cons by blast
  moreover have "v \<le> v * base" using Cons.prems(2) by simp
  ultimately show ?case by linarith
qed simp

lemma uint_le: "(48 :: u8) \<le> c \<longleftrightarrow> 48 \<le> uint c" "(c :: u8) \<le> 57 \<longleftrightarrow> uint c \<le> 57" "(c < 48) = (uint c < 48)" "(57 < c) = (57 < uint c)"
    "(97 :: u8) \<le> c \<longleftrightarrow> 97 \<le> uint c" "(c :: u8) \<le> 102 \<longleftrightarrow> uint c \<le> 102"
  by (simp_all add: word_le_def word_less_def)

lemma int_unat_diff: "int k \<le> uint (c :: 'a :: len word) \<Longrightarrow> int (unat c - k) = uint c - int k"
proof -
  have "int (unat c) = uint c" by simp
  then show "int k \<le> uint c \<Longrightarrow> int (unat c - k) = uint c - int k" by linarith
qed

lemma atoi_loop_ok:
  assumes "int v \<le> MAX64"
  shows "atoi_loop (MAX64 div 10) (MAX64 mod 10) line (int v) =
    Some (case read_number 10 dec_digit line v of Some w \<Rightarrow> if int w \<le> MAX64 then int w else -1 | None \<Rightarrow> -1)"
  using assms
proof (induction line arbitrary: v)
  case (Cons c line)
  show ?case
  proof (cases "48 \<le> c \<and> c \<le> 57")
    case False
    then show ?thesis by (auto simp: dec_digit_def [of c] not_le)
  next
    case True
    let ?w = "v * 10 + (unat c - 48)"
    have d: "int (unat c - 48) = uint c - 48" "0 \<le> uint c - 48" "uint c - 48 \<le> 9" using True int_unat_diff [of 48 c] by (simp_all add: uint_le)
    have w: "int ?w = int v * 10 + (uint c - 48)" using d(1) by simp
    have big: "(int v \<ge> MAX64 div 10 \<and> (int v > MAX64 div 10 \<or> uint c - 48 > MAX64 mod 10)) \<longleftrightarrow> int ?w > MAX64"
      unfolding w using d(2,3) by (auto simp: MAX64_def)
    show ?thesis
    proof (cases "int ?w > MAX64")
      case over: True
      have "read_number 10 dec_digit line ?w = Some u \<Longrightarrow> MAX64 < int u" for u
        using read_number_ge [of 10 dec_digit line ?w u] over by linarith
      then show ?thesis using True big over by (auto simp: dec_digit_def [of c] split: option.split)
    next
      case False
      then have "c64 (int v * 10 + (uint c - 48)) = Some (int ?w)" unfolding w using d(2) by (simp add: c64_def MAX64_def)
      then show ?thesis using True big False Cons.IH [of ?w] by (auto simp: dec_digit_def [of c])
    qed
  qed
qed simp

lemma or_0x20_letter: "97 \<le> (ch OR 0x20 :: u8) \<Longrightarrow> uint (ch OR 0x20) - 97 + 10 = int (unat (ch OR 0x20) - 87)"
  using int_unat_diff [of 87 "ch OR 0x20"] by (simp add: uint_le)

lemma hextoi_loop_ok:
  assumes "int v \<le> MAX64"
  shows "hextoi_loop (MAX64 div 16) line (int v) =
    Some (case read_number 16 hex_digit line v of Some w \<Rightarrow> if int w \<le> MAX64 then int w else -1 | None \<Rightarrow> -1)"
  using assms
proof (induction line arbitrary: v)
  case (Cons c line)
  show ?case
  proof (cases "hex_digit c")
    case None
    then show ?thesis by (auto simp: hex_digit_def Let_def split: if_splits)
  next
    case (Some d)
    let ?w = "v * 16 + d"
    have d: "d < 16" using Some by (auto simp: hex_digit_def word_le_nat_alt split: if_splits)
    have step: "hextoi_loop (MAX64 div 16) (c # line) (int v) =
        (if int v > MAX64 div 16 then Some (-1) else Option.bind (c64 (int ?w)) (hextoi_loop (MAX64 div 16) line))"
    proof (cases "48 \<le> c \<and> c \<le> 57")
      case True
      then have "int d = uint c - 48" using Some int_unat_diff [of 48 c] by (simp add: hex_digit_def uint_le)
      then show ?thesis using True by simp
    next
      case False
      then have l: "97 \<le> c OR 0x20" "c OR 0x20 \<le> 102" and "d = unat (c OR 0x20) - 87" using Some by (auto simp: hex_digit_def split: if_splits)
      then have "int d = uint (c OR 0x20) - 97 + 10" using or_0x20_letter [OF l(1)] by simp
      then show ?thesis using False l by (auto simp: Let_def)
    qed
    have big: "int v > MAX64 div 16 \<longleftrightarrow> int ?w > MAX64" using d by (auto simp: MAX64_def)
    show ?thesis
    proof (cases "int ?w > MAX64")
      case over: True
      have "read_number 16 hex_digit line ?w = Some u \<Longrightarrow> MAX64 < int u" for u
        using read_number_ge [of 16 hex_digit line ?w u] over by linarith
      then show ?thesis unfolding step using Some big over by (auto split: option.split)
    next
      case False
      then have "c64 (int ?w) = Some (int ?w)" by (simp add: c64_def MAX64_def)
      then show ?thesis unfolding step using Some big False Cons.IH [of ?w] by auto
    qed
  qed
qed simp

section \<open>Printing\<close>

fun show_digits :: "bytes \<Rightarrow> nat \<Rightarrow> nat \<Rightarrow> nat \<Rightarrow> bytes" where
  \<comment> \<open>the digits of \<open>n\<close>, for a given bound on their number\<close>
  "show_digits chars base 0 n = []"
| "show_digits chars base (Suc k) n =
     (if n div base = 0 then [chars ! (n mod base)] else show_digits chars base k (n div base) @ [chars ! (n mod base)])"

lemma show_digits_length: "0 < k \<Longrightarrow> 0 < length (show_digits chars base k n) \<and> length (show_digits chars base k n) \<le> k"
proof (induction k arbitrary: n)
  case (Suc k)
  then show ?case by (cases k) auto
qed simp

lemma blit_upd:
  "length xs \<le> q \<Longrightarrow> q < length buf \<Longrightarrow> blit (buf[q := c]) (q - length xs) xs = blit buf (q - length xs) (xs @ [c])"
  by (simp add: blit_def upd_conv_take_nth_drop)

lemma digits_loop_ok:
  assumes "1 < base" and "length chars \<ge> base"
  shows "n < base ^ k \<Longrightarrow> 0 < k \<Longrightarrow> k \<le> p \<Longrightarrow> p \<le> length temp \<Longrightarrow>
    digits_loop chars base n temp p =
      Some (blit temp (p - length (show_digits chars base k n)) (show_digits chars base k n), p - length (show_digits chars base k n))"
proof (induction k arbitrary: n temp p)
  case (Suc k)
  let ?c = "chars ! (n mod base)"
  have "n mod base < base" using assms(1) by simp
  then have c: "arr_get chars (int (n mod base)) = Some ?c" using assms(2) by (intro arr_get_nat) simp
  have "arr_set temp (int (p - 1)) ?c = Some (temp[p - 1 := ?c])" using Suc.prems by (intro arr_set_nat) simp
  then have set: "arr_set temp (int p - 1) ?c = Some (temp[p - 1 := ?c])" using Suc.prems by (simp add: of_nat_diff)
  have one: "temp[p - 1 := ?c] = blit temp (p - 1) [?c]"
    using Suc.prems by (simp add: blit_def upd_conv_take_nth_drop)
  show ?case
  proof (cases "n div base = 0")
    case True
    then show ?thesis using c set one by (subst digits_loop.simps) simp
  next
    case False
    have k: "0 < k"
    proof (rule ccontr)
      assume "\<not> 0 < k"
      then have "n < base" using Suc.prems(1) by simp
      then show False using False by simp
    qed
    let ?s = "show_digits chars base k (n div base)"
    have "n div base < base ^ k" using Suc.prems(1) by (metis less_mult_imp_div_less mult.commute power_Suc)
    then have IH: "digits_loop chars base (n div base) (temp[p - 1 := ?c]) (p - 1) =
        Some (blit (temp[p - 1 := ?c]) (p - 1 - length ?s) ?s, p - 1 - length ?s)"
      using Suc.prems k by (intro Suc.IH) simp_all
    have len: "length ?s \<le> p - 1" using show_digits_length [OF k] Suc.prems(3) by (metis Suc_le_mono Suc_pred diff_Suc_1 le_trans less_le_trans zero_less_Suc)
    have "blit (temp[p - 1 := ?c]) (p - 1 - length ?s) ?s = blit temp (p - 1 - length ?s) (?s @ [?c])"
      using len Suc.prems by (intro blit_upd) simp_all
    then show ?thesis using c set IH False assms(1) by (subst digits_loop.simps) (simp add: diff_diff_left add.commute)
  qed
qed simp

lemma read_number_append: "read_number base digit (xs @ ys) v = Option.bind (read_number base digit xs v) (read_number base digit ys)"
proof (induction xs arbitrary: v)
  case (Cons c xs)
  then show ?case by (cases "digit c") simp_all
qed simp

lemma read_show:
  assumes "1 < base" and "\<And>i. i < base \<Longrightarrow> digit (chars ! i) = Some i"
  shows "n < base ^ k \<Longrightarrow> 0 < k \<Longrightarrow> read_number base digit (show_digits chars base k n) 0 = Some n"
proof (induction k arbitrary: n)
  case (Suc k)
  show ?case
  proof (cases "n div base = 0")
    case True
    then have "n < base" using assms(1) by (metis div_eq_0_iff less_nat_zero_code not_one_less_zero)
    then show ?thesis using True assms by simp
  next
    case False
    then have "\<not> n < base" by auto
    then have k: "0 < k" using Suc.prems(1) by (cases k) simp_all
    have "n div base < base ^ k" using Suc.prems(1) by (metis less_mult_imp_div_less mult.commute power_Suc)
    then show ?thesis
      using Suc.IH k False assms by (simp add: read_number_append)
  qed
qed simp

lemma pad_loop_ok: "pad_loop k zero buf lim = emits buf (replicate (min k (lim - snd buf)) zero)"
proof (induction k arbitrary: buf)
  case (Suc k)
  obtain dst d where b: "buf = (dst, d)" by (cases buf)
  show ?case
  proof (cases "d < lim")
    case True
    then have "min (Suc k) (lim - d) = Suc (min k (lim - (d + 1)))" by simp
    then show ?thesis using True Suc.IH by (simp add: b emit_def)
  qed (simp add: b)
qed simp

lemma digit_chars: "i < 10 \<Longrightarrow> dec_digit (dec_chars ! i) = Some i" "i < 16 \<Longrightarrow> hex_digit (hex_lower ! i) = Some i"
    "i < 16 \<Longrightarrow> hex_digit (HEX_UPPER ! i) = Some i"
proof -
  have "list_all (\<lambda>i. dec_digit (dec_chars ! i) = Some i) [0..<10]" by code_simp
  then show "i < 10 \<Longrightarrow> dec_digit (dec_chars ! i) = Some i" by (simp add: list_all_iff)
  have "list_all (\<lambda>i. hex_digit (hex_lower ! i) = Some i \<and> hex_digit (HEX_UPPER ! i) = Some i) [0..<16]" by code_simp
  then show "i < 16 \<Longrightarrow> hex_digit (hex_lower ! i) = Some i" "i < 16 \<Longrightarrow> hex_digit (HEX_UPPER ! i) = Some i"
    by (simp_all add: list_all_iff)
qed

definition printed :: "nat \<Rightarrow> u64 \<Rightarrow> bytes" where
  "printed hexadecimal v = (if hexadecimal = 0 then show_digits dec_chars 10 20 (unat v)
     else show_digits (if hexadecimal = 1 then hex_lower else HEX_UPPER) 16 16 (unat v))"

lemma unat_64_bound: "unat (v :: u64) < 10 ^ 20" "unat v < 16 ^ 16"
  using unsigned_less [of v, where 'a = nat] by simp_all

lemma printed_length: "0 < length (printed h v)" "length (printed h v) \<le> 20"
  using show_digits_length [of 20 dec_chars 10 "unat v"] show_digits_length [of 16 hex_lower 16 "unat v"]
    show_digits_length [of 16 HEX_UPPER 16 "unat v"]
  by (auto simp: printed_def)

lemma printed_read: "read_number 10 dec_digit (printed 0 v) 0 = Some (unat v)"
    "h \<noteq> 0 \<Longrightarrow> read_number 16 hex_digit (printed h v) 0 = Some (unat v)"
  using read_show [of 10 dec_digit dec_chars "unat v" 20] read_show [of 16 hex_digit _ "unat v" 16] digit_chars unat_64_bound
  by (simp_all add: printed_def)

lemma temp_digits:
  "(if h = 0 then (if unat v \<le> 0xffffffff then digits_loop dec_chars 10 (unat (ucast v :: u32)) (replicate (20 + 1) 0) 20
      else digits_loop dec_chars 10 (unat v) (replicate (20 + 1) 0) 20)
    else digits_loop (if h = 1 then hex_lower else HEX_UPPER) 16 (unat v) (replicate (20 + 1) 0) 20) =
   Some (blit (replicate 21 0) (20 - length (printed h v)) (printed h v), 20 - length (printed h v))"
proof -
  have "unat (ucast v :: u32) = unat v" if "unat v \<le> 0xffffffff"
    using that by (simp add: unsigned_ucast_eq take_bit_nat_eq_self)
  moreover have "digits_loop dec_chars 10 (unat v) (replicate 21 0) 20 = Some (blit (replicate 21 0) (20 - length (printed 0 v)) (printed 0 v), 20 - length (printed 0 v))"
    using digits_loop_ok [of 10 dec_chars "unat v" 20 20 "replicate 21 0"] unat_64_bound by (simp add: printed_def dec_chars_def)
  moreover have "digits_loop (if h = 1 then hex_lower else HEX_UPPER) 16 (unat v) (replicate 21 0) 20 =
      Some (blit (replicate 21 0) (20 - length (printed h v)) (printed h v), 20 - length (printed h v))" if "h \<noteq> 0"
    using digits_loop_ok [of 16 "if h = 1 then hex_lower else HEX_UPPER" "unat v" 16 20 "replicate 21 0"] unat_64_bound that
    by (simp add: printed_def hex_lower_def HEX_UPPER_def)
  ultimately show ?thesis by simp
qed

section \<open>Properties\<close>

text \<open>
  C24: the number readers are exact. On every line the decimal readers of \<open>ngx_int_t\<close>, \<open>ssize_t\<close>, \<open>off_t\<close> and
  \<open>time_t\<close> and the hexadecimal reader return the value of the digit string when it is nonempty, all
  digits and at most \<open>2^63 - 1\<close>, and \<open>NGX_ERROR\<close> otherwise, without a signed overflow on the way.
\<close>

theorem number_readers:
  "ngx_atoi line = Some (number_or_error 10 dec_digit line) \<and> ngx_atosz line = Some (number_or_error 10 dec_digit line) \<and>
   ngx_atoof line = Some (number_or_error 10 dec_digit line) \<and> ngx_atotm line = Some (number_or_error 10 dec_digit line) \<and>
   ngx_hextoi line = Some (number_or_error 16 hex_digit line)"
  using atoi_loop_ok [of 0 line] hextoi_loop_ok [of 0 line]
  by (cases "line = []") (simp_all add: ngx_atoi_def ngx_atosz_def ngx_atoof_def ngx_atotm_def ngx_hextoi_def number_or_error_def MAX64_def
      cong: option.case_cong)

text \<open>
  C29: printing a number. For every 64-bit number, radix, padding and width the digits fit the
  twenty-byte scratch array, and what is written is the padded number cut off at the end of the buffer;
  the digits read back as the number with the matching reader when it fits 63 bits.
\<close>

theorem sprintf_num_spec:
  assumes "d \<le> lim" and "lim \<le> length dst"
  shows "\<exists>digits text. ngx_sprintf_num (dst, d) lim v zero h width = Some (blit dst d text, d + length text) \<and>
    text = take (lim - d) (replicate (width - length digits) zero @ digits) \<and> length digits \<le> NGX_INT64_LEN \<and>
    (uint v \<le> MAX64 \<longrightarrow> (if h = 0 then ngx_atoi digits else ngx_hextoi digits) = Some (uint v))"
proof -
  let ?g = "printed h v" and ?k = "width - length (printed h v)"
  let ?pad = "replicate (min ?k (lim - d)) zero"
  let ?text = "take (lim - d) (replicate ?k zero @ ?g)"
  have pos: "length ?g \<le> 20" by (rule printed_length)
  have rd: "take l (drop (20 - length ?g) (blit (replicate 21 0) (20 - length ?g) ?g)) = take l ?g" if "l \<le> length ?g" for l
    using pos that by (simp add: blit_def)
  have pad: "emits (dst, d) ?pad = Some (blit dst d ?pad, d + length ?pad)" using assms by (intro emits_ok) simp
  define l where "l = (if lim < d + min ?k (lim - d) + length ?g then lim - (d + min ?k (lim - d)) else length ?g)"
  have lg: "l \<le> length ?g" using assms(1) by (auto simp: l_def)
  have src: "mem_read (blit (replicate 21 0) (20 - length ?g) ?g) (int (20 - length ?g)) l = Some (take l ?g)"
    using rd [OF lg] pos lg mem_read_nat [of "20 - length ?g" l "blit (replicate 21 0) (20 - length ?g) ?g"] by simp
  have cut: "?text = ?pad @ take l ?g"
  proof (cases "lim - d \<le> ?k")
    case True
    have "0 < length ?g" by (rule printed_length)
    then have "l = 0" using True assms(1) by (simp add: l_def min_absorb2)
    then show ?thesis using True by (simp add: min_absorb2)
  next
    case False
    then have "take l ?g = take (lim - d - ?k) ?g" by (auto simp: l_def min_absorb1)
    then show ?thesis using False by (simp add: min_absorb1)
  qed
  have "ngx_sprintf_num (dst, d) lim v zero h width = Option.bind (emits (dst, d) ?pad) (\<lambda>buf. emits buf (take l ?g))"
    unfolding ngx_sprintf_num_def NGX_INT64_LEN_def Let_def temp_digits
    using pos src pad
    by (cases "lim < d + min ?k (lim - d) + length ?g") (simp_all add: pad_loop_ok l_def del: of_nat_diff)
  also have "\<dots> = emits (dst, d) ?text" unfolding emits_append cut ..
  also have "\<dots> = Some (blit dst d ?text, d + length ?text)" using assms by (intro emits_ok) simp
  finally have e: "ngx_sprintf_num (dst, d) lim v zero h width = Some (blit dst d ?text, d + length ?text)" .
  have "(if h = 0 then ngx_atoi ?g else ngx_hextoi ?g) = Some (uint v)" if "uint v \<le> MAX64"
    using that printed_read(1) [of v] printed_read(2) [of h v] printed_length(1) [of h v] atoi_loop_ok [of 0 ?g] hextoi_loop_ok [of 0 ?g]
    by (auto simp: ngx_atoi_def ngx_hextoi_def MAX64_def)
  then show ?thesis using e pos by (intro exI [of _ ?g] exI [of _ ?text]) (simp add: NGX_INT64_LEN_def)
qed

theorem sprintf_num_spec_witness:
  "\<exists>digits text. ngx_sprintf_num (replicate 8 0, 1) 6 1234 48 0 6 = Some (blit (replicate 8 0) 1 text, 1 + length text) \<and>
    text = take (6 - 1) (replicate (6 - length digits) 48 @ digits) \<and> length digits \<le> NGX_INT64_LEN \<and> ngx_atoi digits = Some 1234"
proof -
  have "uint (1234 :: u64) \<le> MAX64" by (simp add: MAX64_def)
  then show ?thesis using sprintf_num_spec [of 1 6 "replicate 8 0" 1234 48 0 6] by simp
qed

end
