(* ===== verification/Ngx_Utf8.thy ===== *)
theory Ngx_Utf8
  imports Prelude
begin

text \<open>
  The UTF-8 decoder of \<^verbatim>\<open>src/nginx/src/core/ngx_string.c\<close> and the character count built on it. The
  argument is the memory from the pointer on; \<open>n\<close> is the length the caller passes.
\<close>

section \<open>The code\<close>

fun utf8_cont :: "nat \<Rightarrow> u32 \<Rightarrow> bytes \<Rightarrow> (u32 option \<times> bytes) option" where
  \<comment> \<open>the loop over the continuation bytes; \<open>None\<close> inside for the early return of the error value\<close>
  "utf8_cont 0 u p = Some (Some u, p)"
| "utf8_cont (Suc len) u [] = None"
| "utf8_cont (Suc len) u (i # p) =
     (if i < 0x80 then Some (None, p)
      else utf8_cont len (push_bit 6 u OR (ucast i AND 0x3f)) p)"

definition utf8_lead :: "u8 \<Rightarrow> (u32 \<times> u32 \<times> nat) option" where
  \<comment> \<open>the payload of the first byte, the bound \<open>valid\<close> and the number of bytes to come\<close>
  "utf8_lead c =
     (if c \<ge> 0xf8 then None
      else if c \<ge> 0xf0 then Some (ucast c AND 0x07, 0xffff, 3)
      else if c \<ge> 0xe0 then Some (ucast c AND 0x0f, 0x7ff, 2)
      else if c \<ge> 0xc2 then Some (ucast c AND 0x1f, 0x7f, 1)
      else None)"

definition ngx_utf8_decode :: "bytes \<Rightarrow> nat \<Rightarrow> (u32 \<times> bytes) option" where
  \<comment> \<open>the value and the memory from the advanced pointer on\<close>
  "ngx_utf8_decode p n =
     (case p of
        [] \<Rightarrow> None
      | c # p1 \<Rightarrow>
          (case utf8_lead c of
             None \<Rightarrow> Some (0xffffffff, p1)
           | Some (u, valid, len) \<Rightarrow>
               if sz_sub n 1 < len then Some (0xfffffffe, p)
               else do {
                 (r, p) \<leftarrow> utf8_cont len u p1;
                 (case r of None \<Rightarrow> Some (0xffffffff, p)
                  | Some u \<Rightarrow> Some (if u > valid then u else 0xffffffff, p))
               }))"

partial_function (option) utf8_length_loop :: "nat \<Rightarrow> bytes \<Rightarrow> nat \<Rightarrow> nat option" where
  \<comment> \<open>\<open>n\<close> is the length of the whole string, the list what is left of it\<close>
  "utf8_length_loop n p len =
     (case p of
        [] \<Rightarrow> Some len
      | c # p1 \<Rightarrow>
          if c < 0x80 then utf8_length_loop n p1 (len + 1)
          else Option.bind (ngx_utf8_decode p (length p)) (\<lambda>(u, p2).
            if u > 0x10ffff then Some n else utf8_length_loop n p2 (len + 1)))"

definition ngx_utf8_length :: "bytes \<Rightarrow> nat option" where
  "ngx_utf8_length p = utf8_length_loop (length p) p 0"

section \<open>Reference encoding\<close>

definition cont_byte :: "u32 \<Rightarrow> nat \<Rightarrow> u8" where
  \<comment> \<open>the six bits of the code point from bit \<open>k\<close> on, marked \<open>10xxxxxx\<close>\<close>
  "cont_byte u k = 0x80 OR take_bit 6 (ucast (drop_bit k u))"

definition utf8_encode :: "u32 \<Rightarrow> bytes" where
  \<comment> \<open>RFC 3629\<close>
  "utf8_encode u =
     (if u < 0x80 then [ucast u]
      else if u < 0x800 then [0xc0 OR ucast (drop_bit 6 u), cont_byte u 0]
      else if u < 0x10000 then [0xe0 OR ucast (drop_bit 12 u), cont_byte u 6, cont_byte u 0]
      else [0xf0 OR ucast (drop_bit 18 u), cont_byte u 12, cont_byte u 6, cont_byte u 0])"

section \<open>Bits\<close>

lemma high_bits_zero:
  fixes u :: "'a :: len word"
  assumes "unat u < 2 ^ k" and "k \<le> n"
  shows "\<not> bit u n"
proof -
  have "unat (take_bit k u) = unat u" using assms(1) by (simp add: unsigned_take_bit_eq take_bit_nat_eq_self)
  then have "take_bit k u = u" by (simp add: word_unat_eq_iff)
  then show ?thesis using assms(2) by (metis bit_take_bit_iff not_le)
qed

lemma byte_mask_32: "(ucast (i :: u8) AND 0x3f :: u32) = ucast (take_bit 6 i)" 
proof -
  have m: "(0x3f :: u32) = mask 6" by (simp add: mask_eq_exp_minus_1)
  show ?thesis unfolding m by (rule bit_word_eqI) (auto simp: bit_simps)
qed

lemma cont_payload: "(ucast (cont_byte u k) AND 0x3f :: u32) = take_bit 6 (drop_bit k u)"
proof -
  have "(0x80 :: u8) = push_bit 7 1" by simp
  then have "take_bit 6 (cont_byte u k) = take_bit 6 (ucast (drop_bit k u))"
    unfolding cont_byte_def by (simp only:) (rule bit_word_eqI, auto simp: bit_simps)
  then have "(ucast (cont_byte u k) AND 0x3f :: u32) = ucast (take_bit 6 (ucast (drop_bit k u) :: u8))"
    by (simp only: byte_mask_32)
  also have "\<dots> = take_bit 6 (drop_bit k u)" by (rule bit_word_eqI) (auto simp: bit_simps)
  finally show ?thesis .
qed

lemma cont_high: "\<not> cont_byte u k < 0x80"
  unfolding cont_byte_def not_less by (rule le_word_or2)

lemma join_bits: "push_bit k (drop_bit k v) OR take_bit k v = (v :: 'a :: len word)"
  by (rule bit_word_eqI) (auto simp: bit_simps)

lemma join_six: "push_bit 6 (drop_bit (6 + k) u) OR take_bit 6 (drop_bit k u) = drop_bit k (u :: u32)"
proof -
  have "drop_bit (6 + k) u = drop_bit 6 (drop_bit k u)" by (simp add: drop_bit_drop_bit add.commute)
  then show ?thesis by (simp only: join_bits)
qed

lemma lead_split:
  fixes w :: u8 and u :: u32
  assumes "unat w < 2 ^ k" and "P = push_bit k c" and "unat P + unat w < 256"
  shows "unat (P OR w) = unat P + unat w" and "(ucast (P OR w) AND mask k :: u32) = ucast w"
proof -
  have low: "\<not> bit P n" if "n < k" for n using that assms(2) by (simp add: bit_simps)
  have high: "bit w n \<Longrightarrow> n < k" for n using high_bits_zero [OF assms(1)] by (meson not_le)
  have "P OR w = P + w"
    by (rule disjunctive_add [symmetric]) (metis assms(1) high_bits_zero low not_le)
  then show "unat (P OR w) = unat P + unat w" using assms(3) by (simp add: unat_word_ariths)
  show "(ucast (P OR w) AND mask k :: u32) = ucast w"
    by (rule bit_word_eqI) (use low high in \<open>auto simp: bit_simps\<close>)
qed

lemma unat_ucast_drop:
  fixes u :: u32
  assumes "unat u < 2 ^ (k + 8)"
  shows "unat (ucast (drop_bit k u) :: u8) = unat u div 2 ^ k" and "ucast (ucast (drop_bit k u) :: u8) = drop_bit k u"
proof -
  have d: "unat (drop_bit k u) = unat u div 2 ^ k" unfolding unat_drop_bit_eq by (simp add: drop_bit_eq_div)
  then have lt: "unat (drop_bit k u) < 256" using assms by (simp add: less_mult_imp_div_less power_add)
  then show "unat (ucast (drop_bit k u) :: u8) = unat u div 2 ^ k"
    using d by (simp only: unsigned_ucast_eq) (simp add: take_bit_nat_eq_self)
  have "bit (drop_bit k u) n \<Longrightarrow> n < 8" for n using lt high_bits_zero [of "drop_bit k u" 8 n] by fastforce
  then show "ucast (ucast (drop_bit k u) :: u8) = drop_bit k u"
    by (intro bit_word_eqI) (auto simp: bit_ucast_iff)
qed

section \<open>Decoding what was encoded\<close>

lemma utf8_cont_step: "utf8_cont (Suc len) (drop_bit (6 + k) u) (cont_byte u k # p) = utf8_cont len (drop_bit k u) p"
  using cont_high [of u k] by (simp add: cont_payload join_six)

lemma utf8_cont_run:
  "utf8_cont 1 (drop_bit 6 u) (cont_byte u 0 # p) = Some (Some u, p)"
  "utf8_cont 2 (drop_bit 12 u) (cont_byte u 6 # cont_byte u 0 # p) = Some (Some u, p)"
  "utf8_cont 3 (drop_bit 18 u) (cont_byte u 12 # cont_byte u 6 # cont_byte u 0 # p) = Some (Some u, p)"
  using utf8_cont_step [of 0 0 u p] utf8_cont_step [of 1 6 u "cont_byte u 0 # p"]
    utf8_cont_step [of 2 12 u "cont_byte u 6 # cont_byte u 0 # p"]
  by (simp_all add: numeral_eq_Suc)

lemma lead_facts:
  fixes u :: u32
  shows "0x80 \<le> unat u \<Longrightarrow> unat u < 0x800 \<Longrightarrow> utf8_lead (0xc0 OR ucast (drop_bit 6 u)) = Some (drop_bit 6 u, 0x7f, 1)"
    and "0x800 \<le> unat u \<Longrightarrow> unat u < 0x10000 \<Longrightarrow> utf8_lead (0xe0 OR ucast (drop_bit 12 u)) = Some (drop_bit 12 u, 0x7ff, 2)"
    and "0x10000 \<le> unat u \<Longrightarrow> unat u < 0x110000 \<Longrightarrow> utf8_lead (0xf0 OR ucast (drop_bit 18 u)) = Some (drop_bit 18 u, 0xffff, 3)"
proof -
  have masks: "(0x1f :: u32) = mask 5" "(0x0f :: u32) = mask 4" "(0x07 :: u32) = mask 3" by (simp_all add: mask_eq_exp_minus_1)
  show "utf8_lead (0xc0 OR ucast (drop_bit 6 u)) = Some (drop_bit 6 u, 0x7f, 1)" if "0x80 \<le> unat u" "unat u < 0x800"
  proof -
    let ?w = "ucast (drop_bit 6 u) :: u8"
    have w: "unat ?w = unat u div 64" "ucast ?w = drop_bit 6 u" using unat_ucast_drop [of u 6] that by simp_all
    note L = lead_split [of ?w 5 "0xc0" 6]
    have lt: "unat ?w < 32" and ge: "2 \<le> unat ?w" using that w(1) by auto
    have "unat (0xc0 OR ?w) = 192 + unat ?w" "(ucast (0xc0 OR ?w) AND mask 5 :: u32) = ucast ?w" using L lt by simp_all
    then show ?thesis using lt ge w(2) by (simp add: utf8_lead_def word_le_nat_alt masks)
  qed
  show "utf8_lead (0xe0 OR ucast (drop_bit 12 u)) = Some (drop_bit 12 u, 0x7ff, 2)" if "0x800 \<le> unat u" "unat u < 0x10000"
  proof -
    let ?w = "ucast (drop_bit 12 u) :: u8"
    have w: "unat ?w = unat u div 4096" "ucast ?w = drop_bit 12 u" using unat_ucast_drop [of u 12] that by simp_all
    note L = lead_split [of ?w 4 "0xe0" 14]
    have lt: "unat ?w < 16" using that w(1) by auto
    have "unat (0xe0 OR ?w) = 224 + unat ?w" "(ucast (0xe0 OR ?w) AND mask 4 :: u32) = ucast ?w" using L lt by simp_all
    then show ?thesis using lt w(2) by (simp add: utf8_lead_def word_le_nat_alt masks)
  qed
  show "utf8_lead (0xf0 OR ucast (drop_bit 18 u)) = Some (drop_bit 18 u, 0xffff, 3)" if "0x10000 \<le> unat u" "unat u < 0x110000"
  proof -
    let ?w = "ucast (drop_bit 18 u) :: u8"
    have w: "unat ?w = unat u div 262144" "ucast ?w = drop_bit 18 u" using unat_ucast_drop [of u 18] that by simp_all
    note L = lead_split [of ?w 3 "0xf0" 30]
    have lt: "unat ?w < 8" using that w(1) by auto
    have "unat (0xf0 OR ?w) = 240 + unat ?w" "(ucast (0xf0 OR ?w) AND mask 3 :: u32) = ucast ?w" using L lt by simp_all
    then show ?thesis using lt w(2) by (simp add: utf8_lead_def word_le_nat_alt masks)
  qed
qed

lemma sz_pred: "0 < n \<Longrightarrow> n < 2 ^ 64 \<Longrightarrow> sz_sub n 1 = n - 1"
  by (rule sz_sub_small) simp_all

lemma decode_encoded:
  assumes "0x80 \<le> unat u" and "unat u \<le> 0x10ffff" and "length (utf8_encode u) \<le> n" and "n < 2 ^ 64"
  shows "ngx_utf8_decode (utf8_encode u @ p) n = Some (u, p)"
proof -
  have n: "0 < n" using assms(3) by (simp add: utf8_encode_def split: if_splits)
  consider "unat u < 0x800" | "0x800 \<le> unat u" "unat u < 0x10000" | "0x10000 \<le> unat u" by linarith
  then show ?thesis
  proof cases
    case 1
    then show ?thesis using assms lead_facts(1) [OF assms(1) 1] utf8_cont_run(1) [of u p] sz_pred [OF n assms(4)]
      by (simp add: ngx_utf8_decode_def utf8_encode_def word_less_nat_alt)
  next
    case 2
    then show ?thesis using assms lead_facts(2) [OF 2] utf8_cont_run(2) [of u p] sz_pred [OF n assms(4)]
      by (simp add: ngx_utf8_decode_def utf8_encode_def word_less_nat_alt)
  next
    case 3
    then show ?thesis using assms lead_facts(3) [OF 3] utf8_cont_run(3) [of u p] sz_pred [OF n assms(4)]
      by (simp add: ngx_utf8_decode_def utf8_encode_def word_less_nat_alt)
  qed
qed

lemma encode_head_high: "\<not> u < 0x80 \<Longrightarrow> \<exists>c s. utf8_encode u = c # s \<and> \<not> c < 0x80"
proof -
  assume u: "\<not> u < 0x80"
  have "(0x80 :: u8) \<le> 0xc0 OR w" "(0x80 :: u8) \<le> 0xe0 OR w" "(0x80 :: u8) \<le> 0xf0 OR w" for w
    by (rule order.trans [OF _ le_word_or2], simp)+
  note high = this [THEN leD]
  show "\<exists>c s. utf8_encode u = c # s \<and> \<not> c < 0x80"
    unfolding utf8_encode_def if_not_P [OF u] by (simp add: high del: not_less)
qed

lemma length_loop_ok:
  assumes "\<forall>u\<in>set us. unat u \<le> 0x10ffff" and "length (concat (map utf8_encode us)) < 2 ^ 64"
  shows "utf8_length_loop n (concat (map utf8_encode us)) len = Some (len + length us)"
  using assms
proof (induction us arbitrary: len)
  case Nil
  then show ?case by (subst utf8_length_loop.simps) simp
next
  case (Cons u us)
  let ?rest = "concat (map utf8_encode us)"
  have IH: "utf8_length_loop n ?rest (len + 1) = Some (len + 1 + length us)" using Cons by simp
  show ?case
  proof (cases "u < 0x80")
    case True
    then have e: "utf8_encode u = [ucast u]" by (simp add: utf8_encode_def)
    have "unat u < 128" using True by (simp add: word_less_nat_alt)
    then have "(ucast u :: u8) < 0x80"
      by (simp add: word_less_nat_alt unsigned_ucast_eq take_bit_nat_eq_self)
    then show ?thesis using IH by (subst utf8_length_loop.simps) (simp add: e)
  next
    case False
    then obtain c s where c: "utf8_encode u = c # s" "\<not> c < 0x80" using encode_head_high by blast
    have u: "0x80 \<le> unat u" "unat u \<le> 0x10ffff" using False Cons.prems by (simp_all add: word_less_nat_alt)
    have "ngx_utf8_decode (utf8_encode u @ ?rest) (length (utf8_encode u @ ?rest)) = Some (u, ?rest)"
      using Cons.prems(2) by (intro decode_encoded u) simp_all
    moreover have "\<not> u > 0x10ffff" using u(2) by (simp add: word_less_nat_alt)
    ultimately show ?thesis using IH c by (subst utf8_length_loop.simps) simp
  qed
qed

section \<open>Properties\<close>

text \<open>
  C23: UTF-8. The decoder inverts the encoding of RFC 3629 on every code point of more than one byte and
  consumes exactly its bytes, surrogates included; the length of an encoded text is its number of code
  points.
\<close>

theorem utf8_round_trip:
  assumes "\<forall>u\<in>set us. unat u \<le> 0x10ffff" and "length (concat (map utf8_encode us)) < 2 ^ 64"
  shows "ngx_utf8_length (concat (map utf8_encode us)) = Some (length us) \<and>
    (\<forall>u vs. us = u # vs \<and> 0x80 \<le> unat u \<longrightarrow>
      ngx_utf8_decode (concat (map utf8_encode us)) (length (concat (map utf8_encode us))) = Some (u, concat (map utf8_encode vs)))"
proof (intro conjI allI impI)
  show "ngx_utf8_length (concat (map utf8_encode us)) = Some (length us)"
    using length_loop_ok [OF assms, of _ 0] by (simp add: ngx_utf8_length_def)
  show "ngx_utf8_decode (concat (map utf8_encode us)) (length (concat (map utf8_encode us))) = Some (u, concat (map utf8_encode vs))"
    if "us = u # vs \<and> 0x80 \<le> unat u" for u vs
    using that decode_encoded [of u "length (concat (map utf8_encode us))" "concat (map utf8_encode vs)"] assms by simp
qed

theorem utf8_round_trip_witness:
  "ngx_utf8_length (concat (map utf8_encode [0x41, 0x20ac])) = Some (length [0x41 :: u32, 0x20ac]) \<and>
   ngx_utf8_decode (concat (map utf8_encode [0x20ac, 0x41])) (length (concat (map utf8_encode [0x20ac, 0x41]))) =
     Some (0x20ac, concat (map utf8_encode [0x41]))"
proof
  show "ngx_utf8_length (concat (map utf8_encode [0x41, 0x20ac])) = Some (length [0x41 :: u32, 0x20ac])"
    by (rule utf8_round_trip [THEN conjunct1]) (simp_all add: utf8_encode_def)
  show "ngx_utf8_decode (concat (map utf8_encode [0x20ac, 0x41])) (length (concat (map utf8_encode [0x20ac, 0x41]))) =
     Some (0x20ac, concat (map utf8_encode [0x41]))"
    using utf8_round_trip [of "[0x20ac, 0x41]"] by (simp add: utf8_encode_def)
qed

text \<open>
  A continuation byte is only compared with \<open>0x80\<close>: \<open>C3 FF\<close>, which is not UTF-8, is taken for the code
  point \<open>0xFF\<close>, exactly like the well-formed \<open>C3 BF\<close>.
\<close>

lemma utf8_bad_continuation:
  "ngx_utf8_decode [0xc3, 0xff] 2 = Some (0xff, [])" "ngx_utf8_decode [0xc3, 0xbf] 2 = Some (0xff, [])"
  by (simp_all add: ngx_utf8_decode_def utf8_lead_def sz_sub_def)

end
