(* ===== verification/Ngx_Scan.thy ===== *)
theory Ngx_Scan
  imports Ngx_Core
begin

text \<open>
  The shape of nginx's protocol parsers: a loop over the unread bytes of a buffer around a \<^verbatim>\<open>switch\<close> on
  a state, which leaves through a \<^verbatim>\<open>goto\<close> or runs out of input, saves its state and is called again
  when more bytes have arrived. \<open>scan\<close> is that loop; the locale \<open>resumable\<close> is the contract its caller
  relies on, namely that the way the bytes arrive makes no difference.
\<close>

section \<open>The loop\<close>

abbreviation (input) CR :: u8 where "CR \<equiv> 13"
abbreviation (input) LF :: u8 where "LF \<equiv> 10"

fun scan :: "(nat \<Rightarrow> u8 \<Rightarrow> 's \<Rightarrow> ('s + 'x) option) \<Rightarrow> nat \<Rightarrow> bytes \<Rightarrow> 's \<Rightarrow> (nat \<times> ('s + 'x)) option" where
  \<comment> \<open>\<open>step p ch s\<close> is the body of the loop; the result is where and how the loop was left\<close>
  "scan step p [] s = Some (p, Inl s)"
| "scan step p (ch # xs) s = Option.bind (step p ch s)
     (\<lambda>v. case v of Inl s \<Rightarrow> scan step (p + 1) xs s | Inr x \<Rightarrow> Some (p, Inr x))"

lemma scan_append:
  "scan step p (xs @ ys) s = Option.bind (scan step p xs s)
     (\<lambda>(q, v). case v of Inl s \<Rightarrow> scan step q ys s | Inr x \<Rightarrow> Some (q, Inr x))"
  by (induction xs arbitrary: p s) (auto simp: bind_assoc split: sum.splits intro!: Option.bind_cong)

lemma scan_end: "scan step p xs s = Some (q, Inl s') \<Longrightarrow> q = p + length xs"
proof (induction xs arbitrary: p s)
  case (Cons ch xs)
  then obtain v where v: "step p ch s = Some v" by (auto simp: bind_eq_Some_conv)
  show ?case using Cons.prems v by (cases v) (auto dest: Cons.IH)
qed simp

lemma scan_stop: "scan step p xs s = Some (q, Inr x) \<Longrightarrow> p \<le> q \<and> q < p + length xs"
proof (induction xs arbitrary: p s)
  case (Cons ch xs)
  then obtain v where v: "step p ch s = Some v" by (auto simp: bind_eq_Some_conv)
  show ?case using Cons.prems v by (cases v) (auto dest: Cons.IH)
qed simp

lemma scan_cong:
  assumes "\<And>i s. i < length xs \<Longrightarrow> step (p + i) (xs ! i) s = step' (p + i) (xs ! i) s"
  shows "scan step p xs s = scan step' p xs s"
  using assms
proof (induction xs arbitrary: p s)
  case (Cons ch xs)
  have "step p ch s = step' p ch s" for s using Cons.prems [of 0 s] by simp
  moreover have "scan step (p + 1) xs s = scan step' (p + 1) xs s" for s
    using Cons.prems [of "Suc i" for i] by (intro Cons.IH) auto
  ultimately show ?case by (simp, intro Option.bind_cong refl) (simp split: sum.split)
qed simp

lemma scan_run:
  \<comment> \<open>a stretch of bytes that only moves the state along\<close>
  assumes "\<And>i. i < length xs \<Longrightarrow> step (p + i) (xs ! i) (f i) = Some (Inl (f (Suc i)))"
  shows "scan step p (xs @ ys) (f 0) = scan step (p + length xs) ys (f (length xs))"
  using assms
proof (induction xs arbitrary: p f)
  case (Cons ch xs)
  have "scan step (p + 1) (xs @ ys) (f (Suc 0)) = scan step (p + 1 + length xs) ys (f (Suc (length xs)))"
    using Cons.prems [of "Suc i" for i] by (intro Cons.IH [of "p + 1" "\<lambda>i. f (Suc i)"]) auto
  then show ?case using Cons.prems [of 0] by simp
qed simp

lemma scan_skip:
  assumes "\<And>i. i < length xs \<Longrightarrow> step (p + i) (xs ! i) s = Some (Inl s)"
  shows "scan step p (xs @ ys) s = scan step (p + length xs) ys s"
  using scan_run [of xs step p "\<lambda>_. s" ys] assms by simp

lemma scan_inv:
  \<comment> \<open>an invariant of the loop that also keeps it from getting stuck\<close>
  assumes "I p s" and "\<And>i s. i < length xs \<Longrightarrow> I (p + i) s \<Longrightarrow> step (p + i) (xs ! i) s \<noteq> None"
    and "\<And>i s s'. i < length xs \<Longrightarrow> I (p + i) s \<Longrightarrow> step (p + i) (xs ! i) s = Some (Inl s') \<Longrightarrow> I (Suc (p + i)) s'"
    and "\<And>i s x. i < length xs \<Longrightarrow> I (p + i) s \<Longrightarrow> step (p + i) (xs ! i) s = Some (Inr x) \<Longrightarrow> Q (p + i) x"
  shows "(\<exists>s'. scan step p xs s = Some (p + length xs, Inl s') \<and> I (p + length xs) s') \<or> (\<exists>q x. scan step p xs s = Some (q, Inr x) \<and> Q q x)"
  using assms
proof (induction xs arbitrary: p s)
  case (Cons ch xs)
  obtain v where v: "step p ch s = Some v" using Cons.prems(1) Cons.prems(2) [of 0 s] by auto
  show ?case
  proof (cases v)
    case (Inl s')
    have "I (p + 1) s'" using v Inl Cons.prems(1) Cons.prems(3) [of 0 s s'] by simp
    then have "(\<exists>t. scan step (p + 1) xs s' = Some (p + 1 + length xs, Inl t) \<and> I (p + 1 + length xs) t) \<or> (\<exists>q x. scan step (p + 1) xs s' = Some (q, Inr x) \<and> Q q x)"
      using Cons.prems(2-4) [of "Suc i" for i] by (intro Cons.IH) auto
    then show ?thesis using v Inl by simp
  next
    case (Inr x)
    then show ?thesis using v Cons.prems(1) Cons.prems(4) [of 0 s x] by simp
  qed
qed simp

definition seg :: "bytes \<Rightarrow> nat \<Rightarrow> nat \<Rightarrow> bytes" where
  \<comment> \<open>the bytes between two positions of the buffer\<close>
  "seg mem a b = take (b - a) (drop a mem)"

lemma seg_snoc: "a \<le> p \<Longrightarrow> p < length mem \<Longrightarrow> seg mem a (Suc p) = seg mem a p @ [mem ! p]"
  by (simp add: seg_def Suc_diff_le take_Suc_conv_app_nth)

lemma seg_refl [simp]: "seg mem a a = []"
  by (simp add: seg_def)

lemma seg_append: "a \<le> b \<Longrightarrow> b \<le> c \<Longrightarrow> seg mem a c = seg mem a b @ seg mem b c"
  using take_add [of "b - a" "c - b" "drop a mem"] by (simp add: seg_def)

lemma seg_one: "p < length mem \<Longrightarrow> seg mem p (Suc p) = [mem ! p]"
  by (simp add: seg_snoc)

lemma seg_nonempty: "a < p \<Longrightarrow> p \<le> length mem \<Longrightarrow> seg mem a p \<noteq> []"
  by (simp add: seg_def)

lemma seg_last: "a < p \<Longrightarrow> p \<le> length mem \<Longrightarrow> last (seg mem a p) = mem ! (p - 1)"
  by (cases p) (simp_all add: seg_snoc)

section \<open>Resumable parsers\<close>

text \<open>
  \<open>parse mem r pos lim\<close> is a call on the buffer \<open>mem\<close> with the bytes from \<open>pos\<close> to \<open>lim\<close> unread: the return
  code, the new state and the new \<open>pos\<close>. \<open>view\<close> is the part of a result its caller may look at.
\<close>

locale resumable =
  fixes parse :: "bytes \<Rightarrow> 'r \<Rightarrow> nat \<Rightarrow> nat \<Rightarrow> (int \<times> 'r \<times> nat) option"
    and view :: "int \<times> 'r \<times> nat \<Rightarrow> 'v"
  assumes local: "length mem = length mem' \<Longrightarrow> take lim mem = take lim mem' \<Longrightarrow> pos \<le> lim \<Longrightarrow> lim \<le> length mem \<Longrightarrow>
      parse mem r pos lim = parse mem' r pos lim"
    and resume: "parse mem r pos mid = Some (NGX_AGAIN, r', q) \<Longrightarrow> pos \<le> mid \<Longrightarrow> mid \<le> lim \<Longrightarrow> lim \<le> length mem \<Longrightarrow>
      q = mid \<and> map_option view (parse mem r' mid lim) = map_option view (parse mem r pos lim)"
    and settled: "parse mem r pos mid = Some (rc, r', q) \<Longrightarrow> rc \<noteq> NGX_AGAIN \<Longrightarrow> pos \<le> mid \<Longrightarrow> mid \<le> lim \<Longrightarrow>
      lim \<le> length mem \<Longrightarrow> map_option view (parse mem r pos lim) = Some (view (rc, r', q))"
    and stuck: "parse mem r pos mid = None \<Longrightarrow> pos \<le> mid \<Longrightarrow> mid \<le> lim \<Longrightarrow> lim \<le> length mem \<Longrightarrow> parse mem r pos lim = None"

text \<open>
  The loop of the caller: while the answer is \<open>NGX_AGAIN\<close>, more bytes are read behind \<open>lim\<close> and the parser
  is called again. \<open>arrivals\<close> are the buffers after each read, with \<open>lim\<close>.
\<close>

fun feed :: "(bytes \<Rightarrow> 'r \<Rightarrow> nat \<Rightarrow> nat \<Rightarrow> (int \<times> 'r \<times> nat) option) \<Rightarrow> 'r \<Rightarrow> nat \<Rightarrow> (bytes \<times> nat) list \<Rightarrow> (int \<times> 'r \<times> nat) option" where
  "feed parse r pos [] = Some (NGX_AGAIN, r, pos)"
| "feed parse r pos ((mem, mid) # more) = Option.bind (parse mem r pos mid)
     (\<lambda>(rc, r, pos). if rc = NGX_AGAIN \<and> more \<noteq> [] then feed parse r pos more else Some (rc, r, pos))"

fun grows :: "nat \<Rightarrow> (bytes \<times> nat) list \<Rightarrow> bytes \<Rightarrow> nat \<Rightarrow> bool" where
  \<comment> \<open>each read only adds bytes, up to the final contents \<open>whole\<close> with \<open>lim\<close> bytes\<close>
  "grows pos [] whole lim = (pos = lim)"
| "grows pos ((mem, mid) # more) whole lim =
     (pos \<le> mid \<and> mid \<le> lim \<and> length mem = length whole \<and> take mid mem = take mid whole \<and> grows mid more whole lim)"

context resumable
begin

lemma feed_pieces:
  assumes "grows pos arrivals whole lim" and "lim \<le> length whole" and "arrivals \<noteq> []"
  shows "map_option view (feed parse r pos arrivals) = map_option view (parse whole r pos lim)"
  using assms
proof (induction arrivals arbitrary: r pos)
  case (Cons a more)
  obtain mem mid where a: "a = (mem, mid)" by fastforce
  have g: "pos \<le> mid" "mid \<le> lim" "length mem = length whole" "take mid mem = take mid whole" "grows mid more whole lim"
    using Cons.prems(1) by (simp_all add: a)
  have same: "parse mem r pos mid = parse whole r pos mid" using g Cons.prems(2) by (intro local) auto
  consider "parse whole r pos mid = None" | r' q where "parse whole r pos mid = Some (NGX_AGAIN, r', q)"
    | rc r' q where "parse whole r pos mid = Some (rc, r', q)" "rc \<noteq> NGX_AGAIN"
    by (cases "parse whole r pos mid") (auto, blast)
  then show ?case
  proof cases
    case 1
    then show ?thesis using same stuck g Cons.prems(2) by (simp add: a)
  next
    case 2
    note R = resume [OF 2 g(1,2) Cons.prems(2)]
    show ?thesis
    proof (cases "more = []")
      case True
      then show ?thesis using 2 g(5) same by (simp add: a)
    next
      case False
      then have "map_option view (feed parse r' mid more) = map_option view (parse whole r' mid lim)"
        using Cons.IH g(5) Cons.prems(2) by simp
      then show ?thesis using 2 R same False by (simp add: a)
    qed
  next
    case 3
    then show ?thesis using settled [OF 3 g(1,2) Cons.prems(2)] same by (auto simp: a)
  qed
qed simp

end

section \<open>Parsers around the loop\<close>

text \<open>
  A parser enters the loop with the saved state, leaves it with \<open>leave\<close> when the input runs out, and
  finishes with \<open>finish\<close> after a \<^verbatim>\<open>goto\<close> or \<^verbatim>\<open>return\<close>. Two loop states are related when they differ only in
  what is overwritten before anybody looks at it.
\<close>

locale scan_parser =
  fixes step :: "bytes \<Rightarrow> nat \<Rightarrow> u8 \<Rightarrow> 's \<Rightarrow> ('s + 'x) option"
    and enter :: "'r \<Rightarrow> 's" and leave :: "'s \<Rightarrow> 'r" and finish :: "'r \<Rightarrow> 'x \<Rightarrow> nat \<Rightarrow> nat \<Rightarrow> int \<times> 'r \<times> nat"
    and parse :: "bytes \<Rightarrow> 'r \<Rightarrow> nat \<Rightarrow> nat \<Rightarrow> (int \<times> 'r \<times> nat) option"
    and view :: "int \<times> 'r \<times> nat \<Rightarrow> 'v"
    and rel :: "'s \<Rightarrow> 's \<Rightarrow> bool"
  assumes parse_scan: "parse mem r pos lim = Option.bind (mem_read mem (int pos) (lim - pos))
      (\<lambda>xs. Option.bind (scan (step mem) pos xs (enter r))
      (\<lambda>(p, v). case v of Inl s \<Rightarrow> Some (NGX_AGAIN, leave s, p) | Inr x \<Rightarrow> Some (finish r x p pos)))"
    and step_local: "length mem = length mem' \<Longrightarrow> take (Suc p) mem = take (Suc p) mem' \<Longrightarrow> p < length mem \<Longrightarrow>
      step mem p ch s = step mem' p ch s"
    and finish_code: "fst (finish r x p pos) \<noteq> NGX_AGAIN"
    and finish_view: "view (finish r x p pos) = view (finish r' x p pos')"
    and enter_leave: "rel (enter (leave s)) s"
    and leave_rel: "rel s s' \<Longrightarrow> view (NGX_AGAIN, leave s, p) = view (NGX_AGAIN, leave s', p)"
    and step_rel: "rel s s' \<Longrightarrow> rel_option (rel_sum rel (\<lambda>x x'. \<forall>r p pos. view (finish r x p pos) = view (finish r x' p pos)))
      (step mem p ch s) (step mem p ch s')"
begin

lemma scan_rel:
  "rel s s' \<Longrightarrow> rel_option (rel_prod (=) (rel_sum rel (\<lambda>x x'. \<forall>r p pos. view (finish r x p pos) = view (finish r x' p pos))))
     (scan (step mem) p xs s) (scan (step mem) p xs s')"
proof (induction xs arbitrary: p s s')
  case (Cons ch xs)
  show ?case using step_rel [OF Cons.prems, of mem p ch] Cons.IH
    by (cases "step mem p ch s"; cases "step mem p ch s'") (auto split: sum.split simp: rel_sum.simps)
qed simp

lemma conclude:
  assumes "rel_option (rel_prod (=) (rel_sum rel (\<lambda>x x'. \<forall>r p pos. view (finish r x p pos) = view (finish r x' p pos)))) A B"
  shows "map_option view (Option.bind A (\<lambda>(p, v). case v of Inl s \<Rightarrow> Some (NGX_AGAIN, leave s, p) | Inr x \<Rightarrow> Some (finish r x p pos))) =
    map_option view (Option.bind B (\<lambda>(p, v). case v of Inl s \<Rightarrow> Some (NGX_AGAIN, leave s, p) | Inr x \<Rightarrow> Some (finish r' x p pos')))"
  using assms
proof (cases rule: option.rel_cases)
  case (Some a b)
  obtain p v v' where ab: "a = (p, v)" "b = (p, v')" "rel_sum rel (\<lambda>x x'. \<forall>r p pos. view (finish r x p pos) = view (finish r x' p pos)) v v'"
    using Some(3) by (cases a; cases b) auto
  show ?thesis using ab(3)
  proof cases
    case (1 s s')
    then show ?thesis using leave_rel by (simp add: Some ab)
  next
    case (2 x x')
    then have "view (finish r x p pos) = view (finish r' x' p pos')" using finish_view by metis
    then show ?thesis by (simp only: Some ab 2 bind.simps prod.case sum.case option.map)
  qed
qed simp

lemma parse_split:
  assumes "pos \<le> mid" and "mid \<le> lim" and "lim \<le> length mem"
  shows "parse mem r pos lim = Option.bind (scan (step mem) pos (take (mid - pos) (drop pos mem)) (enter r))
    (\<lambda>(p, v). case v of Inl s \<Rightarrow> Option.bind (scan (step mem) p (take (lim - mid) (drop mid mem)) s)
         (\<lambda>(p, v). case v of Inl s \<Rightarrow> Some (NGX_AGAIN, leave s, p) | Inr x \<Rightarrow> Some (finish r x p pos))
      | Inr x \<Rightarrow> Some (finish r x p pos))"
proof -
  have "take (lim - pos) (drop pos mem) = take (mid - pos) (drop pos mem) @ take (lim - mid) (drop mid mem)"
    using assms take_add [of "mid - pos" "lim - mid" "drop pos mem"] by simp
  then have "parse mem r pos lim = Option.bind (scan (step mem) pos (take (mid - pos) (drop pos mem) @ take (lim - mid) (drop mid mem)) (enter r))
      (\<lambda>(p, v). case v of Inl s \<Rightarrow> Some (NGX_AGAIN, leave s, p) | Inr x \<Rightarrow> Some (finish r x p pos))"
    unfolding parse_scan using assms by (simp add: mem_read_def)
  then show ?thesis
    by (simp add: scan_append bind_assoc) (auto intro!: Option.bind_cong split: sum.split)
qed

end

sublocale scan_parser \<subseteq> resumable parse view
proof
  fix mem mem' :: bytes and lim pos r
  assume a: "length mem = length mem'" "take lim mem = take lim mem'" "pos \<le> lim" "lim \<le> length mem"
  have "take (lim - pos) (drop pos mem) = take (lim - pos) (drop pos mem')"
    using a by (metis drop_take)
  moreover have "scan (step mem) pos (take (lim - pos) (drop pos mem')) s = scan (step mem') pos (take (lim - pos) (drop pos mem')) s" for s
  proof (rule scan_cong)
    fix i s assume "i < length (take (lim - pos) (drop pos mem'))"
    then have "i < lim - pos" by simp
    then have i: "Suc (pos + i) \<le> lim" by linarith
    then have "take (Suc (pos + i)) mem = take (Suc (pos + i)) mem'"
      using a(2) by (metis min_absorb1 take_take)
    then show "step mem (pos + i) (take (lim - pos) (drop pos mem') ! i) s = step mem' (pos + i) (take (lim - pos) (drop pos mem') ! i) s"
      using a i by (intro step_local) auto
  qed
  ultimately show "parse mem r pos lim = parse mem' r pos lim"
    using a by (simp add: parse_scan mem_read_def)
next
  fix mem r pos mid r' q lim
  assume p: "parse mem r pos mid = Some (NGX_AGAIN, r', q)" and b: "pos \<le> mid" "mid \<le> lim" "lim \<le> length mem"
  have "finish r x p pos \<noteq> (NGX_AGAIN, r', q)" for x p using finish_code by (metis fst_conv)
  moreover obtain p v where sc: "scan (step mem) pos (take (mid - pos) (drop pos mem)) (enter r) = Some (p, v)"
    using p b by (cases "scan (step mem) pos (take (mid - pos) (drop pos mem)) (enter r)") (auto simp: parse_scan mem_read_def)
  ultimately obtain s where s: "scan (step mem) pos (take (mid - pos) (drop pos mem)) (enter r) = Some (q, Inl s)" "r' = leave s"
    using p b by (cases v) (auto simp: parse_scan mem_read_def)
  have q: "q = mid" using scan_end [OF s(1)] b by simp
  have "map_option view (parse mem r' mid lim) = map_option view (parse mem r pos lim)"
    using conclude [OF scan_rel [OF enter_leave, of mem mid "take (lim - mid) (drop mid mem)" s], of "leave s" mid r pos] b
    unfolding parse_split [OF b] s q by (simp only: parse_scan mem_read_nat bind.simps prod.case sum.case le_add_diff_inverse)
  then show "q = mid \<and> map_option view (parse mem r' mid lim) = map_option view (parse mem r pos lim)" using q by simp
next
  fix mem r pos mid rc r' q lim
  assume p: "parse mem r pos mid = Some (rc, r', q)" "rc \<noteq> NGX_AGAIN" and b: "pos \<le> mid" "mid \<le> lim" "lim \<le> length mem"
  obtain p v where sc: "scan (step mem) pos (take (mid - pos) (drop pos mem)) (enter r) = Some (p, v)"
    using p b by (cases "scan (step mem) pos (take (mid - pos) (drop pos mem)) (enter r)") (auto simp: parse_scan mem_read_def)
  then obtain x where "scan (step mem) pos (take (mid - pos) (drop pos mem)) (enter r) = Some (p, Inr x)" "finish r x p pos = (rc, r', q)"
    using p b by (cases v) (auto simp: parse_scan mem_read_def)
  then show "map_option view (parse mem r pos lim) = Some (view (rc, r', q))" by (simp add: parse_split [OF b])
next
  fix mem r pos mid lim
  assume p: "parse mem r pos mid = None" and b: "pos \<le> mid" "mid \<le> lim" "lim \<le> length mem"
  have "scan (step mem) pos (take (mid - pos) (drop pos mem)) (enter r) = None"
    using p b by (cases "scan (step mem) pos (take (mid - pos) (drop pos mem)) (enter r)")
      (auto simp: parse_scan mem_read_def split: sum.splits)
  then show "parse mem r pos lim = None" by (simp add: parse_split [OF b])
qed

end
