(* ===== verification/Ngx_Http_Chunked.thy ===== *)
theory Ngx_Http_Chunked
  imports Ngx_Scan
begin

text \<open>
  The chunked transfer coding: \<open>ngx_http_parse_chunked\<close> of \<^verbatim>\<open>src/nginx/src/http/ngx_http_parse.c\<close> and its client
  \<open>ngx_http_request_body_chunked_filter\<close> of \<^verbatim>\<open>src/nginx/src/http/ngx_http_request_body.c\<close>, which collects the body
  of a request from a chain of buffers and joins small chunks in place. The end of the filter, which
  hands the chain on to the next filter module, is not modelled: the result is the chain it hands on.
\<close>

section \<open>The parser\<close>

datatype chunked_state = sw_chunk_start | sw_chunk_size | sw_chunk_extension | sw_chunk_extension_almost_done
  | sw_chunk_data | sw_after_data | sw_after_data_almost_done | sw_last_chunk_extension
  | sw_last_chunk_extension_almost_done | sw_trailer | sw_trailer_almost_done | sw_trailer_header
  | sw_trailer_header_almost_done

record ngx_http_chunked_t =
  ck_state :: chunked_state
  ck_size :: int
  ck_length :: int

definition chunk_digit :: "u8 \<Rightarrow> int option" where
  "chunk_digit ch =
     (if ch \<ge> 48 \<and> ch \<le> 57 then Some (uint ch - 48)
      else let c = ch OR 0x20 in if c \<ge> 97 \<and> c \<le> 102 then Some (uint c - 97 + 10) else None)"

datatype chunked_exit = Data | Done | Invalid

definition chunked_step :: "u8 \<Rightarrow> chunked_state \<times> int \<Rightarrow> ((chunked_state \<times> int) + (chunked_exit \<times> int)) option" where
  \<comment> \<open>the body of the loop on \<open>state\<close> and \<open>ctx->size\<close>: carry on, or leave at a label\<close>
  "chunked_step ch = (\<lambda>(state, sz).
     let invalid = Some (Inr (Invalid, sz)); goto = (\<lambda>state. Some (Inl (state, sz))) in
     case state of
       sw_chunk_start \<Rightarrow> (case chunk_digit ch of Some d \<Rightarrow> Some (Inl (sw_chunk_size, d)) | None \<Rightarrow> invalid)
     | sw_chunk_size \<Rightarrow>
         if sz > MAX64 div 16 then invalid
         else (case chunk_digit ch of
             Some d \<Rightarrow> map_option (\<lambda>sz. Inl (sw_chunk_size, sz)) (c64 (sz * 16 + d))
           | None \<Rightarrow>
               if sz = 0 then
                 (if ch = CR then goto sw_last_chunk_extension_almost_done
                  else if ch = LF then goto sw_trailer
                  else if ch = 59 \<or> ch = 32 \<or> ch = 9 then goto sw_last_chunk_extension
                  else invalid)
               else if ch = CR then goto sw_chunk_extension_almost_done
               else if ch = LF then goto sw_chunk_data
               else if ch = 59 \<or> ch = 32 \<or> ch = 9 then goto sw_chunk_extension
               else invalid)
     | sw_chunk_extension \<Rightarrow>
         if ch = CR then goto sw_chunk_extension_almost_done else if ch = LF then goto sw_chunk_data else goto state
     | sw_chunk_extension_almost_done \<Rightarrow> if ch = LF then goto sw_chunk_data else invalid
     | sw_chunk_data \<Rightarrow> Some (Inr (Data, sz))
     | sw_after_data \<Rightarrow>
         if ch = CR then goto sw_after_data_almost_done else if ch = LF then goto sw_chunk_start else invalid
     | sw_after_data_almost_done \<Rightarrow> if ch = LF then goto sw_chunk_start else invalid
     | sw_last_chunk_extension \<Rightarrow>
         if ch = CR then goto sw_last_chunk_extension_almost_done else if ch = LF then goto sw_trailer else goto state
     | sw_last_chunk_extension_almost_done \<Rightarrow> if ch = LF then goto sw_trailer else invalid
     | sw_trailer \<Rightarrow>
         if ch = CR then goto sw_trailer_almost_done else if ch = LF then Some (Inr (Done, sz)) else goto sw_trailer_header
     | sw_trailer_almost_done \<Rightarrow> if ch = LF then Some (Inr (Done, sz)) else invalid
     | sw_trailer_header \<Rightarrow>
         if ch = CR then goto sw_trailer_header_almost_done else if ch = LF then goto sw_trailer else goto state
     | sw_trailer_header_almost_done \<Rightarrow> if ch = LF then goto sw_trailer else invalid)"

definition chunked_length :: "chunked_state \<Rightarrow> int \<Rightarrow> int option" where
  "chunked_length state sz =
     (case state of
        sw_chunk_start \<Rightarrow> Some 3
      | sw_chunk_size \<Rightarrow> if sz \<noteq> 0 then Option.bind (c64 (sz + 4)) (\<lambda>n. c64 (1 + n)) else Some 2
      | sw_chunk_extension \<Rightarrow> Option.bind (c64 (1 + sz)) (\<lambda>n. c64 (n + 4))
      | sw_chunk_extension_almost_done \<Rightarrow> Option.bind (c64 (1 + sz)) (\<lambda>n. c64 (n + 4))
      | sw_chunk_data \<Rightarrow> c64 (sz + 4)
      | sw_after_data \<Rightarrow> Some 4
      | sw_after_data_almost_done \<Rightarrow> Some 4
      | sw_last_chunk_extension \<Rightarrow> Some 2
      | sw_last_chunk_extension_almost_done \<Rightarrow> Some 2
      | sw_trailer \<Rightarrow> Some 1
      | sw_trailer_almost_done \<Rightarrow> Some 1
      | sw_trailer_header \<Rightarrow> Some 2
      | sw_trailer_header_almost_done \<Rightarrow> Some 2)"

definition chunked_entry :: "ngx_http_chunked_t \<Rightarrow> chunked_state" where
  "chunked_entry ctx = (if ck_state ctx = sw_chunk_data \<and> ck_size ctx = 0 then sw_after_data else ck_state ctx)"

definition chunked_data :: "int \<Rightarrow> ngx_http_chunked_t \<Rightarrow> chunked_state \<Rightarrow> int \<Rightarrow> nat \<Rightarrow> (int \<times> ngx_http_chunked_t \<times> nat) option" where
  \<comment> \<open>from the label \<open>data\<close> to the return\<close>
  "chunked_data rc ctx state sz p =
     (let ctx = ctx\<lparr>ck_state := state, ck_size := sz\<rparr> in
      if sz > MAX64 - 5 then Some (NGX_ERROR, ctx, p)
      else map_option (\<lambda>n. (rc, ctx\<lparr>ck_length := n\<rparr>, p)) (chunked_length state sz))"

definition ngx_http_parse_chunked :: "ngx_http_chunked_t \<Rightarrow> bytes \<Rightarrow> nat \<Rightarrow> nat \<Rightarrow> (int \<times> ngx_http_chunked_t \<times> nat) option" where
  \<comment> \<open>the code, \<open>*ctx\<close> and \<open>b->pos\<close>\<close>
  "ngx_http_parse_chunked ctx mem pos lim = do {
     xs \<leftarrow> mem_read mem (int pos) (lim - pos);
     (p, v) \<leftarrow> scan (\<lambda>_. chunked_step) pos xs (chunked_entry ctx, ck_size ctx);
     (case v of
        Inl (state, sz) \<Rightarrow> chunked_data NGX_AGAIN ctx state sz p
      | Inr (Data, sz) \<Rightarrow> chunked_data NGX_OK ctx sw_chunk_data sz p
      | Inr (Done, sz) \<Rightarrow> Some (NGX_DONE, ctx\<lparr>ck_state := sw_chunk_start, ck_size := sz\<rparr>, p + 1)
      | Inr (Invalid, sz) \<Rightarrow> Some (NGX_ERROR, ctx\<lparr>ck_size := sz\<rparr>, pos))
   }"

section \<open>The request body filter\<close>

record out_buf =
  ob_pos :: nat
  ob_last :: nat
  ob_last_buf :: bool

record request_body =
  rb_rest :: int
  rb_chunked :: ngx_http_chunked_t
  content_length_n :: int

fun copy_down :: "bytes \<Rightarrow> nat \<Rightarrow> nat \<Rightarrow> nat \<Rightarrow> bytes option" where
  \<comment> \<open>\<open>while (size) *b->last++ = *cl->buf->pos++\<close>\<close>
  "copy_down mem dst src 0 = Some mem"
| "copy_down mem dst src (Suc n) = do {
     c \<leftarrow> arr_get mem (int src);
     mem \<leftarrow> arr_set mem (int dst) c;
     copy_down mem (dst + 1) (src + 1) n
   }"

definition append_chunk :: "bytes \<Rightarrow> nat \<Rightarrow> nat \<Rightarrow> nat \<Rightarrow> bytes option" where
  \<comment> \<open>the bytes of a small chunk moved behind the output buffer\<close>
  "append_chunk mem dst src n =
     (if n < 8 then copy_down mem dst src n
      else Option.bind (mem_read mem (int src) n) (mem_write mem (int dst)))"

partial_function (option) chunked_buf_loop :: "int \<Rightarrow> int \<Rightarrow> nat \<Rightarrow> bytes \<Rightarrow> nat \<Rightarrow> nat \<Rightarrow> request_body \<Rightarrow> out_buf list
    \<Rightarrow> (int \<times> bytes \<times> nat \<times> request_body \<times> out_buf list \<times> nat) option" where
  \<comment> \<open>the inner loop on one buffer; \<open>outs\<close> are the output buffers made from it, the last one first, and \<open>pool\<close> is how
     many more buffers the pool can provide\<close>
  "chunked_buf_loop max_size header_size pool mem pos lim rb outs =
     Option.bind (ngx_http_parse_chunked (rb_chunked rb) mem pos lim) (\<lambda>(rc, ctx, pos).
     let rb = rb\<lparr>rb_chunked := ctx\<rparr> in
     if rc = NGX_OK then
       Option.bind (if max_size \<noteq> 0 then c64 (max_size - content_length_n rb) else Some (ck_size ctx)) (\<lambda>room.
       if room < ck_size ctx then Some (413, mem, pos, rb, outs, pool)
       else if outs \<noteq> [] \<and> ck_size ctx \<le> 128 \<and> int (lim - pos) \<ge> ck_size ctx then
         Option.bind (c64 (content_length_n rb + ck_size ctx)) (\<lambda>len.
         let n = nat (ck_size ctx); b = hd outs in
         Option.bind (append_chunk mem (ob_last b) pos n) (\<lambda>mem.
         chunked_buf_loop max_size header_size pool mem (pos + n) lim
           (rb\<lparr>content_length_n := len, rb_chunked := ctx\<lparr>ck_size := 0\<rparr>\<rparr>) (b\<lparr>ob_last := ob_last b + n\<rparr> # tl outs)))
       else if pool = 0 then Some (500, mem, pos, rb, outs, pool)
       else let avail = int (lim - pos);
                n = (if avail > ck_size ctx then nat (ck_size ctx) else lim - pos) in
         Option.bind (c64 (content_length_n rb + int n)) (\<lambda>len.
         chunked_buf_loop max_size header_size (pool - 1) mem (pos + n) lim
           (rb\<lparr>content_length_n := len, rb_chunked := ctx\<lparr>ck_size := ck_size ctx - int n\<rparr>\<rparr>)
           (\<lparr>ob_pos = pos, ob_last = pos + n, ob_last_buf = False\<rparr> # outs)))
     else if rc = NGX_DONE then
       (if pool = 0 then Some (500, mem, pos, rb\<lparr>rb_rest := 0\<rparr>, outs, pool)
        else Some (NGX_OK, mem, pos, rb\<lparr>rb_rest := 0\<rparr>, \<lparr>ob_pos = 0, ob_last = 0, ob_last_buf = True\<rparr> # outs, pool - 1))
     else if rc = NGX_AGAIN then
       Some (NGX_OK, mem, pos, rb\<lparr>rb_rest := max (ck_length ctx) header_size\<rparr>, outs, pool)
     else Some (400, mem, pos, rb, outs, pool))"

fun chunked_chain :: "int \<Rightarrow> int \<Rightarrow> nat \<Rightarrow> (bytes \<times> nat \<times> nat) list \<Rightarrow> request_body
    \<Rightarrow> (int \<times> request_body \<times> (bytes \<times> nat \<times> out_buf list) list) option" where
  \<comment> \<open>the outer loop; for each buffer its contents and position at the end, and the output made from it\<close>
  "chunked_chain max_size header_size pool [] rb = Some (NGX_OK, rb, [])"
| "chunked_chain max_size header_size pool ((mem, pos, lim) # chain) rb = do {
     (rc, mem, pos, rb, outs, pool) \<leftarrow> chunked_buf_loop max_size header_size pool mem pos lim rb [];
     if rc \<noteq> NGX_OK then Some (rc, rb, [(mem, pos, rev outs)])
     else do {
       (rc, rb, more) \<leftarrow> chunked_chain max_size header_size pool chain rb;
       Some (rc, rb, (mem, pos, rev outs) # more)
     }
   }"

definition ngx_http_request_body_chunked_filter :: "int \<Rightarrow> int \<Rightarrow> nat \<Rightarrow> (bytes \<times> nat \<times> nat) list \<Rightarrow> request_body
    \<Rightarrow> (int \<times> request_body \<times> (bytes \<times> nat \<times> out_buf list) list) option" where
  \<comment> \<open>\<open>rest\<close> is -1 on the first call, which allocates the zeroed parser state\<close>
  "ngx_http_request_body_chunked_filter max_size header_size pool chain rb =
     (if rb_rest rb = -1 then
        (if pool = 0 then Some (500, rb, [])
         else chunked_chain max_size header_size (pool - 1) chain
           (rb\<lparr>rb_chunked := \<lparr>ck_state = sw_chunk_start, ck_size = 0, ck_length = 0\<rparr>, content_length_n := 0, rb_rest := header_size\<rparr>))
      else chunked_chain max_size header_size pool chain rb)"

end
