(* ===== verification/Ngx_Http_Chunked_Body.thy ===== *)
theory Ngx_Http_Chunked_Body
  imports Ngx_Http_Chunked
begin

text \<open>
  What the chunked coding denotes, as a decoder by recursive descent over the whole text, and the proof
  that the request body filter computes it however the text is cut into buffers.
\<close>

section \<open>The reference decoder\<close>

fun lf :: "bytes \<Rightarrow> bytes option" where
  "lf [] = None"
| "lf (c # r) = (if c = LF then Some r else None)"

fun eol :: "bytes \<Rightarrow> bytes option" where
  \<comment> \<open>the rest of the text after a line end, LF or CR LF\<close>
  "eol [] = None"
| "eol (c # r) = (if c = LF then Some r else if c = CR then lf r else None)"

fun line_rest :: "bytes \<Rightarrow> bytes option" where
  \<comment> \<open>the text after the end of the current line\<close>
  "line_rest [] = None"
| "line_rest (c # r) = (if c = LF then Some r else if c = CR then lf r else line_rest r)"

fun chunk_ext :: "bytes \<Rightarrow> bytes option" where
  "chunk_ext [] = None"
| "chunk_ext (c # r) = (if c = LF then Some r else if c = CR then lf r
     else if c = 59 \<or> c = 32 \<or> c = 9 then line_rest r else None)"

fun chunk_number :: "int \<Rightarrow> bytes \<Rightarrow> (int \<times> bytes) option" where
  \<comment> \<open>more digits of a chunk size, of which \<open>n\<close> has been read\<close>
  "chunk_number n [] = None"
| "chunk_number n (c # r) =
     (if n > MAX64 div 16 then None
      else case chunk_digit c of Some d \<Rightarrow> chunk_number (n * 16 + d) r | None \<Rightarrow> Some (n, c # r))"

fun first_number :: "bytes \<Rightarrow> (int \<times> bytes) option" where
  "first_number [] = None"
| "first_number (c # r) = (case chunk_digit c of Some d \<Rightarrow> chunk_number d r | None \<Rightarrow> None)"

lemma lf_shorter: "lf r = Some r' \<Longrightarrow> length r' < length r"
  by (cases r) (auto split: if_splits)

lemma line_shorter: "line_rest r = Some r' \<Longrightarrow> length r' < length r"
  by (induction r) (auto split: if_splits dest: lf_shorter)

lemma eol_shorter: "eol r = Some r' \<Longrightarrow> length r' < length r"
  by (cases r) (auto split: if_splits dest: lf_shorter)

lemma ext_shorter: "chunk_ext r = Some r' \<Longrightarrow> length r' < length r"
  by (cases r) (auto split: if_splits dest: lf_shorter line_shorter)

lemma number_shorter: "chunk_number n r = Some (m, r') \<Longrightarrow> length r' \<le> length r"
  by (induction r arbitrary: n) (auto split: if_splits option.splits intro: le_SucI)

lemma first_shorter: "first_number r = Some (m, r') \<Longrightarrow> length r' < length r"
  by (cases r) (auto split: option.splits dest: number_shorter)

function chunk_trailer :: "bytes \<Rightarrow> bytes option" where
  \<comment> \<open>the text after the trailer: lines up to an empty one\<close>
  "chunk_trailer [] = None"
| "chunk_trailer (c # r) =
     (if c = LF then Some r else if c = CR then lf r
      else (case line_rest r of None \<Rightarrow> None | Some r' \<Rightarrow> chunk_trailer r'))"
  by pat_completeness auto
termination
  by (relation "measure length") (auto dest: line_shorter)

function chunked_body :: "bytes \<Rightarrow> (bytes \<times> bytes) option" where
  \<comment> \<open>the decoded data and the text after the body\<close>
  "chunked_body xs =
     (case first_number xs of None \<Rightarrow> None
      | Some (n, r) \<Rightarrow>
        (case chunk_ext r of None \<Rightarrow> None
         | Some r \<Rightarrow>
           if n = 0 then map_option (Pair []) (chunk_trailer r)
           else if int (length r) < n then None
           else (case eol (drop (nat n) r) of None \<Rightarrow> None
                 | Some r' \<Rightarrow> map_option (\<lambda>(d, rest). (take (nat n) r @ d, rest)) (chunked_body r'))))"
  by pat_completeness auto
termination
proof (relation "measure length")
  fix xs x2 n r r1 r2
  assume "first_number xs = Some x2" "(n, r) = x2" "chunk_ext r = Some r1" "eol (drop (nat n) r1) = Some r2"
  then show "(r2, xs) \<in> measure length"
    using first_shorter [of xs n r] ext_shorter [of r r1] eol_shorter [of "drop (nat n) r1" r2] by auto
qed simp

declare chunked_body.simps [simp del]

definition chunk_payload :: "int \<Rightarrow> bytes \<Rightarrow> (bytes \<times> bytes) option" where
  \<comment> \<open>\<open>n\<close> more bytes of the current chunk, its line end, and the rest of the body\<close>
  "chunk_payload n r =
     (if int (length r) < n then None
      else (case eol (drop (nat n) r) of None \<Rightarrow> None
            | Some r' \<Rightarrow> map_option (\<lambda>(d, rest). (take (nat n) r @ d, rest)) (chunked_body r')))"

definition sized_chunk :: "int \<Rightarrow> bytes \<Rightarrow> (bytes \<times> bytes) option" where
  "sized_chunk n r = (if n = 0 then map_option (Pair []) (chunk_trailer r) else chunk_payload n r)"

section \<open>The parser, byte by byte\<close>

definition settle :: "chunked_state \<times> int \<Rightarrow> chunked_state \<times> int" where
  \<comment> \<open>what the parser does first: a chunk without bytes left is over\<close>
  "settle s = (if s = (sw_chunk_data, 0) then (sw_after_data, 0) else s)"

fun body_run :: "chunked_state \<times> int \<Rightarrow> bytes \<Rightarrow> bytes \<times> ((chunked_state \<times> int) + bool) \<times> bytes" where
  \<comment> \<open>the data, how the run ended (out of input, at the end of the body, at an error) and the unread text\<close>
  "body_run s [] = ([], Inl (settle s), [])"
| "body_run s (c # r) =
     (let (state, n) = settle s in
      if state = sw_chunk_data then (let (d, v, r) = body_run (state, n - 1) r in (c # d, v, r))
      else case chunked_step c (state, n) of
          Some (Inl s) \<Rightarrow> body_run s r
        | Some (Inr (x, n)) \<Rightarrow> ([], Inr (x = Done), r)
        | None \<Rightarrow> ([], Inr False, r))"

lemma settle_simps [simp]:
  "settle (settle s) = settle s" "settle s \<noteq> (sw_chunk_data, 0)" "s \<noteq> (sw_chunk_data, 0) \<Longrightarrow> settle s = s"
  by (auto simp: settle_def)

lemma body_run_settle [simp]: "body_run (settle s) xs = body_run s xs"
  by (cases xs) simp_all

definition body_from :: "chunked_state \<times> int \<Rightarrow> bytes \<Rightarrow> (bytes \<times> bytes) option" where
  \<comment> \<open>the reference decoder started in the middle of a body\<close>
  "body_from = (\<lambda>(state, n) r.
     case state of
       sw_chunk_start \<Rightarrow> chunked_body r
     | sw_chunk_size \<Rightarrow> Option.bind (chunk_number n r) (\<lambda>(n, r). Option.bind (chunk_ext r) (sized_chunk n))
     | sw_chunk_extension \<Rightarrow> Option.bind (line_rest r) (chunk_payload n)
     | sw_chunk_extension_almost_done \<Rightarrow> Option.bind (lf r) (chunk_payload n)
     | sw_chunk_data \<Rightarrow> chunk_payload n r
     | sw_after_data \<Rightarrow> chunk_payload 0 r
     | sw_after_data_almost_done \<Rightarrow> Option.bind (lf r) chunked_body
     | sw_last_chunk_extension \<Rightarrow> Option.bind (line_rest r) (\<lambda>r. map_option (Pair []) (chunk_trailer r))
     | sw_last_chunk_extension_almost_done \<Rightarrow> Option.bind (lf r) (\<lambda>r. map_option (Pair []) (chunk_trailer r))
     | sw_trailer \<Rightarrow> map_option (Pair []) (chunk_trailer r)
     | sw_trailer_almost_done \<Rightarrow> map_option (Pair []) (lf r)
     | sw_trailer_header \<Rightarrow> Option.bind (line_rest r) (\<lambda>r. map_option (Pair []) (chunk_trailer r))
     | sw_trailer_header_almost_done \<Rightarrow> Option.bind (lf r) (\<lambda>r. map_option (Pair []) (chunk_trailer r)))"

definition size_ok :: "chunked_state \<times> int \<Rightarrow> bool" where
  \<comment> \<open>what the parser keeps of its state\<close>
  "size_ok = (\<lambda>(state, n). 0 \<le> n \<and> n \<le> MAX64 \<and>
     (state \<in> {sw_chunk_extension, sw_chunk_extension_almost_done} \<longrightarrow> 0 < n) \<and> (state \<noteq> sw_chunk_size \<longrightarrow> n \<le> MAX64 div 16))"

lemma digit_range: "chunk_digit c = Some d \<Longrightarrow> 0 \<le> d \<and> d < 16"
proof -
  have le: "x \<le> y \<longleftrightarrow> uint x \<le> uint y" for x y :: u8 by (rule word_le_def)
  show "chunk_digit c = Some d \<Longrightarrow> 0 \<le> d \<and> d < 16"
    by (auto simp: chunk_digit_def le Let_def split: if_splits)
qed

lemma body_unfold: "chunked_body r = Option.bind (first_number r) (\<lambda>(n, r). Option.bind (chunk_ext r) (sized_chunk n))"
  by (subst chunked_body.simps)
    (auto simp: sized_chunk_def chunk_payload_def split: option.split prod.split)

lemma line_end_digits: "chunk_digit LF = None" "chunk_digit CR = None" "chunk_digit 59 = None" "chunk_digit 32 = None" "chunk_digit 9 = None"
  by (simp_all add: chunk_digit_def Let_def)

lemma sized_chunk_simps:
  "sized_chunk 0 = (\<lambda>r. map_option (Pair []) (chunk_trailer r))" "n \<noteq> 0 \<Longrightarrow> sized_chunk n = chunk_payload n"
  by (auto simp: sized_chunk_def fun_eq_iff)

lemma chunked_step_simps:
  "chunked_step c (sw_chunk_start, n) =
     (case chunk_digit c of Some d \<Rightarrow> Some (Inl (sw_chunk_size, d)) | None \<Rightarrow> Some (Inr (Invalid, n)))"
  "chunked_step c (sw_chunk_size, n) =
     (if n > MAX64 div 16 then Some (Inr (Invalid, n))
      else case chunk_digit c of Some d \<Rightarrow> map_option (\<lambda>sz. Inl (sw_chunk_size, sz)) (c64 (n * 16 + d))
        | None \<Rightarrow> Some (if c = CR then Inl (if n = 0 then sw_last_chunk_extension_almost_done else sw_chunk_extension_almost_done, n)
            else if c = LF then Inl (if n = 0 then sw_trailer else sw_chunk_data, n)
            else if c = 59 \<or> c = 32 \<or> c = 9 then Inl (if n = 0 then sw_last_chunk_extension else sw_chunk_extension, n)
            else Inr (Invalid, n)))"
  "chunked_step c (sw_chunk_extension, n) =
     Some (Inl (if c = CR then sw_chunk_extension_almost_done else if c = LF then sw_chunk_data else sw_chunk_extension, n))"
  "chunked_step c (sw_chunk_extension_almost_done, n) = Some (if c = LF then Inl (sw_chunk_data, n) else Inr (Invalid, n))"
  "chunked_step c (sw_after_data, n) = Some (if c = CR then Inl (sw_after_data_almost_done, n)
     else if c = LF then Inl (sw_chunk_start, n) else Inr (Invalid, n))"
  "chunked_step c (sw_after_data_almost_done, n) = Some (if c = LF then Inl (sw_chunk_start, n) else Inr (Invalid, n))"
  "chunked_step c (sw_last_chunk_extension, n) =
     Some (Inl (if c = CR then sw_last_chunk_extension_almost_done else if c = LF then sw_trailer else sw_last_chunk_extension, n))"
  "chunked_step c (sw_last_chunk_extension_almost_done, n) = Some (if c = LF then Inl (sw_trailer, n) else Inr (Invalid, n))"
  "chunked_step c (sw_trailer, n) = Some (if c = CR then Inl (sw_trailer_almost_done, n)
     else if c = LF then Inr (Done, n) else Inl (sw_trailer_header, n))"
  "chunked_step c (sw_trailer_almost_done, n) = Some (Inr (if c = LF then Done else Invalid, n))"
  "chunked_step c (sw_trailer_header, n) =
     Some (Inl (if c = CR then sw_trailer_header_almost_done else if c = LF then sw_trailer else sw_trailer_header, n))"
  "chunked_step c (sw_trailer_header_almost_done, n) = Some (if c = LF then Inl (sw_trailer, n) else Inr (Invalid, n))"
  by (simp_all add: chunked_step_def Let_def split: option.split)

lemma step_from:
  assumes "size_ok s" and "fst s \<noteq> sw_chunk_data"
  shows "body_from s (c # r) = (case chunked_step c s of
      Some (Inl s') \<Rightarrow> body_from s' r | Some (Inr (x, n)) \<Rightarrow> if x = Done then Some ([], r) else None | None \<Rightarrow> None)"
proof -
  obtain state n where s: "s = (state, n)" by fastforce
  have small: "c64 (n * 16 + d) = Some (n * 16 + d)" if "chunk_digit c = Some d" "\<not> MAX64 div 16 < n" for d
    using that digit_range [of c d] assms(1) by (auto simp: s size_ok_def c64_def MAX64_def)
  show ?thesis
  proof (cases state)
    case sw_chunk_start
    then show ?thesis by (auto simp: s chunked_step_simps body_from_def body_unfold split: option.split)
  next
    case sw_chunk_size
    show ?thesis
    proof (cases "chunk_digit c")
      case None
      then show ?thesis using sw_chunk_size
        by (simp add: s chunked_step_simps body_from_def sized_chunk_simps)
    next
      case (Some d)
      then show ?thesis using sw_chunk_size small by (simp add: s chunked_step_simps body_from_def)
    qed
  next
    case sw_after_data
    then show ?thesis by (simp add: s chunked_step_simps body_from_def chunk_payload_def option.map_id split: option.split)
  next
    case sw_trailer
    then show ?thesis by (simp add: s chunked_step_simps body_from_def split: option.split)
  qed (use assms in \<open>simp_all add: s chunked_step_simps body_from_def\<close>)
qed

lemma step_ok:
  assumes "size_ok s" and "fst s \<noteq> sw_chunk_data"
  shows "\<exists>v. chunked_step c s = Some v \<and> (case v of Inl s' \<Rightarrow> size_ok s' \<and> s' \<noteq> (sw_chunk_data, 0) | Inr (x, n) \<Rightarrow> n = snd s \<and> x \<noteq> Data)"
proof -
  obtain state n where s: "s = (state, n)" by fastforce
  show ?thesis
  proof (cases state)
    case sw_chunk_start
    then show ?thesis using digit_range [of c]
      by (auto simp: s chunked_step_simps size_ok_def MAX64_def split: option.split)
  next
    case sw_chunk_size
    show ?thesis
    proof (cases "chunk_digit c")
      case None
      then show ?thesis using sw_chunk_size assms by (auto simp: s chunked_step_simps size_ok_def)
    next
      case (Some d)
      show ?thesis
      proof (cases "MAX64 div 16 < n")
        case True
        then show ?thesis using sw_chunk_size by (simp add: s chunked_step_simps)
      next
        case False
        then have "0 \<le> n * 16 + d" "n * 16 + d \<le> MAX64"
          using digit_range [OF Some] assms by (auto simp: s size_ok_def MAX64_def)
        then show ?thesis using sw_chunk_size Some False by (simp add: s chunked_step_simps size_ok_def c64_nonneg)
      qed
    qed
  qed (use assms in \<open>auto simp: s chunked_step_simps size_ok_def\<close>)
qed

text \<open>The machine and the reference decoder agree.\<close>

lemma payload_Cons: "0 < n \<Longrightarrow> chunk_payload n (c # r) = map_option (\<lambda>(d, rest). (c # d, rest)) (chunk_payload (n - 1) r)"
proof -
  assume n: "0 < n"
  then have "nat n = Suc (nat (n - 1))" by linarith
  then show ?thesis using n
    by (auto simp: chunk_payload_def option.map_comp comp_def split: option.split prod.split intro!: option.map_cong0)
qed

lemma body_run_from:
  assumes "size_ok s"
  shows "body_from s xs = (case body_run s xs of (d, Inr True, r) \<Rightarrow> Some (d, r) | _ \<Rightarrow> None)"
  using assms
proof (induction xs arbitrary: s)
  case Nil
  have "chunked_body [] = None" by (simp add: chunked_body.simps)
  then show ?case by (cases s; cases "fst s") (auto simp: body_from_def chunk_payload_def split: option.split)
next
  case (Cons c r)
  have from1: "body_from s xs = body_from (settle s) xs" for xs by (simp add: settle_def body_from_def)
  have ok1: "size_ok (settle s)" using Cons.prems by (auto simp: settle_def size_ok_def)
  obtain state n where s: "settle s = (state, n)" by fastforce
  show ?case
  proof (cases "state = sw_chunk_data")
    case True
    then have n: "0 < n" using ok1 settle_simps(2) [of s] by (auto simp: s size_ok_def)
    have "size_ok (sw_chunk_data, n - 1)" using ok1 n True by (auto simp: s size_ok_def)
    then have IH: "chunk_payload (n - 1) r = (case body_run (sw_chunk_data, n - 1) r of (d, Inr True, r) \<Rightarrow> Some (d, r) | _ \<Rightarrow> None)"
      using Cons.IH [of "(sw_chunk_data, n - 1)"] by (simp add: body_from_def)
    show ?thesis using n IH True unfolding from1 by (auto simp: s body_from_def payload_Cons split: sum.split bool.split prod.split)
  next
    case False
    then have st: "fst (settle s) \<noteq> sw_chunk_data" by (simp add: s)
    obtain v where v: "chunked_step c (settle s) = Some v"
        "case v of Inl s' \<Rightarrow> size_ok s' \<and> s' \<noteq> (sw_chunk_data, 0) | Inr (x, n) \<Rightarrow> n = snd (settle s) \<and> x \<noteq> Data"
      using step_ok [OF ok1 st] by blast
    have run: "body_run s (c # r) = (case v of Inl s' \<Rightarrow> body_run s' r | Inr (x, n) \<Rightarrow> ([], Inr (x = Done), r))"
      using False v(1) by (cases v) (auto simp: s)
    show ?thesis
      unfolding from1 [of "c # r"] step_from [OF ok1 st] run v(1)
      using Cons.IH v(2) by (cases v) (auto split: bool.split prod.split)
  qed
qed

lemma body_run_append:
  "body_run s (xs @ ys) = (case body_run s xs of
     (d, Inl s', r) \<Rightarrow> (let (d', v, r') = body_run s' ys in (d @ d', v, r')) | (d, Inr b, r) \<Rightarrow> (d, Inr b, r @ ys))"
proof (induction xs arbitrary: s)
  case (Cons c xs)
  show ?case by (cases "settle s") (simp add: Let_def Cons.IH split: prod.split option.split sum.split)
qed simp

section \<open>The parser against the machine\<close>

lemma body_run_step:
  assumes "size_ok s" and "s \<noteq> (sw_chunk_data, 0)" and "fst s \<noteq> sw_chunk_data"
  shows "body_run s (c # r) = (case chunked_step c s of Some (Inl s') \<Rightarrow> body_run s' r | Some (Inr (x, n)) \<Rightarrow> ([], Inr (x = Done), r)
    | None \<Rightarrow> ([], Inr False, r))"
  using assms by (cases s) simp

lemma scan_body:
  assumes "size_ok s" and "s \<noteq> (sw_chunk_data, 0)"
  shows "\<exists>k v. scan (\<lambda>_. chunked_step) p xs s = Some (p + k, v) \<and> k \<le> length xs \<and>
    (case v of
       Inl s' \<Rightarrow> k = length xs \<and> body_run s xs = ([], Inl s', []) \<and> size_ok s' \<and> s' \<noteq> (sw_chunk_data, 0)
     | Inr (Data, n) \<Rightarrow> k < length xs \<and> body_run s (take k xs) = ([], Inl (sw_chunk_data, n), []) \<and> 0 < n \<and> n \<le> MAX64 div 16
     | Inr (Done, n) \<Rightarrow> k < length xs \<and> body_run s xs = ([], Inr True, drop (k + 1) xs)
     | Inr (Invalid, n) \<Rightarrow> \<exists>r. body_run s xs = ([], Inr False, r))"
  using assms
proof (induction xs arbitrary: p s)
  case Nil
  then show ?case by simp
next
  case (Cons c xs)
  show ?case
  proof (cases "fst s = sw_chunk_data")
    case True
    then obtain n where s: "s = (sw_chunk_data, n)" by (cases s) simp
    have "0 < n" "n \<le> MAX64 div 16" using Cons.prems by (auto simp: s size_ok_def)
    moreover have "chunked_step c s = Some (Inr (Data, n))" by (simp add: s chunked_step_def)
    ultimately show ?thesis by (intro exI [of _ 0] exI [of _ "Inr (Data, n)"]) (simp add: s)
  next
    case False
    obtain v where v: "chunked_step c s = Some v"
        "case v of Inl s' \<Rightarrow> size_ok s' \<and> s' \<noteq> (sw_chunk_data, 0) | Inr (x, n) \<Rightarrow> n = snd s \<and> x \<noteq> Data"
      using step_ok [OF Cons.prems(1) False] by blast
    note run = body_run_step [OF Cons.prems False, of c]
    show ?thesis
    proof (cases v)
      case (Inl s')
      then obtain k w where k: "scan (\<lambda>_. chunked_step) (p + 1) xs s' = Some (p + 1 + k, w)" "k \<le> length xs"
          "case w of
             Inl s'' \<Rightarrow> k = length xs \<and> body_run s' xs = ([], Inl s'', []) \<and> size_ok s'' \<and> s'' \<noteq> (sw_chunk_data, 0)
           | Inr (Data, n) \<Rightarrow> k < length xs \<and> body_run s' (take k xs) = ([], Inl (sw_chunk_data, n), []) \<and> 0 < n \<and> n \<le> MAX64 div 16
           | Inr (Done, n) \<Rightarrow> k < length xs \<and> body_run s' xs = ([], Inr True, drop (k + 1) xs)
           | Inr (Invalid, n) \<Rightarrow> \<exists>r. body_run s' xs = ([], Inr False, r)"
        using Cons.IH [of s' "p + 1"] v(2) by auto
      then show ?thesis using run v(1) Inl
        by (intro exI [of _ "Suc k"] exI [of _ w]) (auto split: sum.splits chunked_exit.splits)
    next
      case (Inr x)
      then show ?thesis using run v
        by (intro exI [of _ 0] exI [of _ v]) (auto split: chunked_exit.split)
    qed
  qed
qed

lemma chunked_entry_settle: "(chunked_entry ctx, ck_size ctx) = settle (ck_state ctx, ck_size ctx)"
  by (simp add: chunked_entry_def settle_def)

lemma body_run_data:
  "int k \<le> n \<Longrightarrow> k \<le> length xs \<Longrightarrow> body_run (sw_chunk_data, n) xs =
     (let (d, v, r) = body_run (sw_chunk_data, n - int k) (drop k xs) in (take k xs @ d, v, r))"
proof (induction k arbitrary: n xs)
  case (Suc k)
  then obtain c ys where xs: "xs = c # ys" by (cases xs) auto
  have "body_run (sw_chunk_data, n - 1) ys =
      (let (d, v, r) = body_run (sw_chunk_data, n - 1 - int k) (drop k ys) in (take k ys @ d, v, r))"
    using Suc.prems by (intro Suc.IH) (auto simp: xs)
  moreover have "n - 1 - int k = n - int (Suc k)" by simp
  ultimately show ?case using Suc.prems by (simp add: xs split: prod.split)
qed simp

lemma body_run_size: "body_run (sw_chunk_data, n) xs = (d, Inr True, r) \<Longrightarrow> n \<le> int (length d)"
proof (induction xs arbitrary: n d)
  case (Cons c xs)
  show ?case
  proof (cases "n = 0")
    case False
    obtain d0 v r0 where run: "body_run (sw_chunk_data, n - 1) xs = (d0, v, r0)" by (rule prod_cases3)
    have "d = c # d0" "v = Inr True" "r0 = r" using Cons.prems False run by simp_all
    then show ?thesis using Cons.IH [of "n - 1" d0] run by simp
  qed simp
qed simp

lemma body_run_length: "body_run s xs = (d, v, r) \<Longrightarrow> length d \<le> length xs"
proof (induction xs arbitrary: s d)
  case (Cons c xs)
  show ?case using Cons.prems
    by (cases "settle s") (auto split: if_splits prod.splits option.splits sum.splits dest!: Cons.IH)
qed simp

lemma body_run_big: "MAX64 div 16 < n \<Longrightarrow> body_run (sw_chunk_size, n) xs \<noteq> (d, Inr True, r)"
  by (cases xs) (auto simp: chunked_step_simps)

section \<open>The filter against the machine\<close>

definition content :: "bytes \<Rightarrow> out_buf list \<Rightarrow> bytes" where
  \<comment> \<open>what a reader of the output buffers sees\<close>
  "content mem outs = concat (map (\<lambda>b. take (ob_last b - ob_pos b) (drop (ob_pos b) mem)) outs)"

definition outs_ok :: "nat \<Rightarrow> out_buf list \<Rightarrow> bool" where
  \<comment> \<open>the output buffers of one input buffer, the last one first, lie one after the other before \<open>pos\<close>\<close>
  "outs_ok pos outs = (sorted_wrt (\<lambda>b a. ob_last a \<le> ob_pos b) outs \<and> (\<forall>b\<in>set outs. ob_pos b \<le> ob_last b \<and> ob_last b \<le> pos))"

lemma copy_down_ok:
  "dst \<le> src \<Longrightarrow> src + n \<le> length mem \<Longrightarrow> copy_down mem dst src n = Some (blit mem dst (take n (drop src mem)))"
proof (induction n arbitrary: mem dst src)
  case (Suc n)
  let ?m = "mem[dst := mem ! src]"
  have "copy_down ?m (dst + 1) (src + 1) n = Some (blit ?m (dst + 1) (take n (drop (src + 1) ?m)))"
    using Suc.prems by (intro Suc.IH) auto
  moreover have "take (Suc n) (drop src mem) = mem ! src # take n (drop (src + 1) mem)"
    using Suc.prems by (simp add: Cons_nth_drop_Suc [symmetric])
  moreover have "blit ?m (dst + 1) xs = blit mem dst (mem ! src # xs)" for xs
    using Suc.prems by (simp add: blit_def take_Suc_conv_app_nth)
  ultimately show ?case using Suc.prems by (simp add: arr_get_nat arr_set_nat)
qed (simp add: blit_def)

lemma append_chunk_ok:
  "dst \<le> src \<Longrightarrow> src + n \<le> length mem \<Longrightarrow> append_chunk mem dst src n = Some (blit mem dst (take n (drop src mem)))"
  by (simp add: append_chunk_def copy_down_ok mem_read_nat mem_write_nat)

lemma content_blit:
  assumes "outs_ok pos (b # outs)" and "pos + length xs \<le> length mem"
  shows "content (blit mem (ob_last b) xs) (rev (b\<lparr>ob_last := ob_last b + length xs\<rparr> # outs)) = content mem (rev (b # outs)) @ xs"
    and "outs_ok (pos + length xs) (b\<lparr>ob_last := ob_last b + length xs\<rparr> # outs)"
proof -
  have b: "ob_pos b \<le> ob_last b" "ob_last b \<le> pos" using assms(1) by (auto simp: outs_ok_def)
  have before: "take (ob_last a - ob_pos a) (drop (ob_pos a) (blit mem (ob_last b) xs)) = take (ob_last a - ob_pos a) (drop (ob_pos a) mem)"
    if "a \<in> set outs" for a
  proof -
    have "ob_pos a \<le> ob_last a" "ob_last a \<le> ob_last b" using that assms(1) by (auto simp: outs_ok_def)
    then show ?thesis using b assms(2) by (simp add: blit_def drop_take min_absorb1)
  qed
  have "take (ob_last b + length xs - ob_pos b) (drop (ob_pos b) (blit mem (ob_last b) xs)) =
      take (ob_last b - ob_pos b) (drop (ob_pos b) mem) @ xs"
    using b assms(2) by (simp add: blit_def drop_take)
  moreover have "content (blit mem (ob_last b) xs) (rev outs) = content mem (rev outs)"
    unfolding content_def using before by (intro arg_cong [of _ _ concat] map_cong) auto
  ultimately show "content (blit mem (ob_last b) xs) (rev (b\<lparr>ob_last := ob_last b + length xs\<rparr> # outs)) = content mem (rev (b # outs)) @ xs"
    by (simp add: content_def)
  show "outs_ok (pos + length xs) (b\<lparr>ob_last := ob_last b + length xs\<rparr> # outs)"
    using assms(1) by (auto simp: outs_ok_def)
qed

lemma content_new:
  assumes "outs_ok pos outs" and "pos + n \<le> length mem"
  shows "content mem (rev (\<lparr>ob_pos = pos, ob_last = pos + n, ob_last_buf = False\<rparr> # outs)) = content mem (rev outs) @ take n (drop pos mem)"
    and "outs_ok (pos + n) (\<lparr>ob_pos = pos, ob_last = pos + n, ob_last_buf = False\<rparr> # outs)"
  using assms by (auto simp: content_def outs_ok_def)

definition need :: "chunked_state \<Rightarrow> int \<Rightarrow> int" where
  \<comment> \<open>the number of bytes a body still has at least\<close>
  "need state n =
     (case state of
        sw_chunk_start \<Rightarrow> 3 | sw_chunk_size \<Rightarrow> if n = 0 then 2 else n + 5 | sw_chunk_extension \<Rightarrow> n + 5
      | sw_chunk_extension_almost_done \<Rightarrow> n + 5 | sw_chunk_data \<Rightarrow> n + 4 | sw_after_data \<Rightarrow> 4 | sw_after_data_almost_done \<Rightarrow> 4
      | sw_last_chunk_extension \<Rightarrow> 2 | sw_last_chunk_extension_almost_done \<Rightarrow> 2 | sw_trailer \<Rightarrow> 1 | sw_trailer_almost_done \<Rightarrow> 1
      | sw_trailer_header \<Rightarrow> 2 | sw_trailer_header_almost_done \<Rightarrow> 2)"

lemma need_pos: "0 \<le> n \<Longrightarrow> 0 < need st n"
  by (simp add: need_def split: chunked_state.split)

lemma chunked_data_ok:
  assumes "0 \<le> n"
  shows "chunked_data rc ctx st n p = Some (if n > MAX64 - 5 then (NGX_ERROR, ctx\<lparr>ck_state := st, ck_size := n\<rparr>, p)
    else (rc, ctx\<lparr>ck_state := st, ck_size := n, ck_length := need st n\<rparr>, p))"
  using assms by (cases st) (auto simp: chunked_data_def chunked_length_def need_def c64_def MAX64_def)

lemma parse_body:
  assumes "size_ok (ck_state ctx, ck_size ctx)" and "pos \<le> lim" and "lim \<le> length mem"
  defines "xs \<equiv> take (lim - pos) (drop pos mem)" and "s \<equiv> (ck_state ctx, ck_size ctx)"
  shows "(\<exists>st n. ngx_http_parse_chunked ctx mem pos lim = Some (NGX_AGAIN, ctx\<lparr>ck_state := st, ck_size := n, ck_length := need st n\<rparr>, lim) \<and>
        body_run s xs = ([], Inl (st, n), []) \<and> size_ok (st, n) \<and> n \<le> MAX64 - 5) \<or>
    (\<exists>k n. ngx_http_parse_chunked ctx mem pos lim = Some (NGX_OK, ctx\<lparr>ck_state := sw_chunk_data, ck_size := n, ck_length := n + 4\<rparr>, pos + k) \<and>
        body_run s (take k xs) = ([], Inl (sw_chunk_data, n), []) \<and> k < length xs \<and> 0 < n \<and> n \<le> MAX64 div 16) \<or>
    (\<exists>k n. ngx_http_parse_chunked ctx mem pos lim = Some (NGX_DONE, ctx\<lparr>ck_state := sw_chunk_start, ck_size := n\<rparr>, pos + k + 1) \<and>
        body_run s xs = ([], Inr True, drop (k + 1) xs) \<and> k < length xs) \<or>
    (\<exists>ctx' p. ngx_http_parse_chunked ctx mem pos lim = Some (NGX_ERROR, ctx', p) \<and>
        ((\<exists>r. body_run s xs = ([], Inr False, r)) \<or> (\<exists>n>MAX64 - 5. body_run s xs = ([], Inl (sw_chunk_size, n), []))))"
    (is "?again \<or> ?data \<or> ?done \<or> ?error")
proof -
  have ok: "size_ok (settle s)" using assms(1) by (auto simp: s_def settle_def size_ok_def)
  obtain k v where k: "scan (\<lambda>_. chunked_step) pos xs (settle s) = Some (pos + k, v)" "k \<le> length xs"
      "case v of
         Inl s' \<Rightarrow> k = length xs \<and> body_run s xs = ([], Inl s', []) \<and> size_ok s' \<and> s' \<noteq> (sw_chunk_data, 0)
       | Inr (Data, n) \<Rightarrow> k < length xs \<and> body_run s (take k xs) = ([], Inl (sw_chunk_data, n), []) \<and> 0 < n \<and> n \<le> MAX64 div 16
       | Inr (Done, n) \<Rightarrow> k < length xs \<and> body_run s xs = ([], Inr True, drop (k + 1) xs)
       | Inr (Invalid, n) \<Rightarrow> \<exists>r. body_run s xs = ([], Inr False, r)"
    using scan_body [OF ok settle_simps(2), of pos xs] unfolding body_run_settle by blast
  have parse: "ngx_http_parse_chunked ctx mem pos lim = (case v of
        Inl (state, sz) \<Rightarrow> chunked_data NGX_AGAIN ctx state sz (pos + k)
      | Inr (Data, sz) \<Rightarrow> chunked_data NGX_OK ctx sw_chunk_data sz (pos + k)
      | Inr (Done, sz) \<Rightarrow> Some (NGX_DONE, ctx\<lparr>ck_state := sw_chunk_start, ck_size := sz\<rparr>, pos + k + 1)
      | Inr (Invalid, sz) \<Rightarrow> Some (NGX_ERROR, ctx\<lparr>ck_size := sz\<rparr>, pos))"
    using k(1) assms(2,3) by (simp add: ngx_http_parse_chunked_def mem_read_nat xs_def s_def chunked_entry_settle)
  have len: "length xs = lim - pos" using assms(2,3) by (simp add: xs_def)
  show ?thesis
  proof (cases v)
    case (Inl s')
    obtain st n where s': "s' = (st, n)" by fastforce
    have f: "k = length xs" "body_run s xs = ([], Inl (st, n), [])" "size_ok (st, n)" using k(3) by (simp_all add: Inl s')
    have n: "0 \<le> n" "n > MAX64 div 16 \<Longrightarrow> st = sw_chunk_size" using f(3) by (auto simp: size_ok_def)
    have p: "ngx_http_parse_chunked ctx mem pos lim = chunked_data NGX_AGAIN ctx st n (pos + k)" by (simp add: parse Inl s')
    show ?thesis
    proof (cases "n > MAX64 - 5")
      case True
      then have "st = sw_chunk_size" using n by (auto simp: MAX64_def)
      then have ?error using p f(2) True by (auto simp: chunked_data_ok [OF n(1)])
      then show ?thesis by simp
    next
      case False
      then have ?again using p f len assms(2) by (simp add: chunked_data_ok [OF n(1)])
      then show ?thesis by simp
    qed
  next
    case (Inr y)
    obtain x n where y: "y = (x, n)" by fastforce
    show ?thesis
    proof (cases x)
      case Data
      then have f: "k < length xs" "body_run s (take k xs) = ([], Inl (sw_chunk_data, n), [])" "0 < n" "n \<le> MAX64 div 16"
        using k(3) by (simp_all add: Inr y)
      have "\<not> n > MAX64 - 5" using f(4) by (simp add: MAX64_def)
      then have ?data using f parse by (auto simp: Inr y Data chunked_data_ok need_def)
      then show ?thesis by simp
    next
      case Done
      then have ?done using parse k(3) by (auto simp: Inr y)
      then show ?thesis by simp
    next
      case Invalid
      then have ?error using parse k(3) by (auto simp: Inr y)
      then show ?thesis by simp
    qed
  qed
qed

end
