(* ===== verification/Ngx_Http_Chunked_Filter.thy ===== *)
theory Ngx_Http_Chunked_Filter
  imports Ngx_Http_Chunked_Body
begin

text \<open>
  The request body filter against the byte machine of the chunked coding with a size limit: one buffer, a chain of buffers, a session of
  calls, and the number of bytes the parser announces. The properties at the end compare the filter with the reference decoder \<open>chunked_body\<close>.
\<close>

section \<open>The machine with a size limit\<close>

datatype verdict = More "chunked_state \<times> int" | Complete | Malformed | Too_large

fun limit_run :: "int \<Rightarrow> int \<Rightarrow> chunked_state \<times> int \<Rightarrow> bytes \<Rightarrow> bytes \<times> verdict \<times> bytes" where
  \<comment> \<open>\<open>body_run\<close> that stops at the first byte of a chunk which takes the data over the limit \<open>mx\<close> (0 is no limit); \<open>len\<close> is the length so far\<close>
  "limit_run mx len s [] = ([], More (settle s), [])"
| "limit_run mx len s (c # r) =
     (let (state, n) = settle s in
      if state = sw_chunk_data then
        (if mx \<noteq> 0 \<and> mx - len < n then ([], Too_large, c # r)
         else let (d, v, r) = limit_run mx (len + 1) (state, n - 1) r in (c # d, v, r))
      else case chunked_step c (state, n) of
          Some (Inl s) \<Rightarrow> limit_run mx len s r
        | Some (Inr (x, n)) \<Rightarrow> ([], if x = Done then Complete else Malformed, r)
        | None \<Rightarrow> ([], Malformed, r))"

lemma limit_run_settle [simp]: "limit_run mx len (settle s) xs = limit_run mx len s xs"
  by (cases xs) simp_all

lemma limit_run_append:
  "limit_run mx len s (xs @ ys) = (case limit_run mx len s xs of
     (d, More s', r) \<Rightarrow> (let (d', v, r') = limit_run mx (len + int (length d)) s' ys in (d @ d', v, r')) | (d, v, r) \<Rightarrow> (d, v, r @ ys))"
proof (induction xs arbitrary: len s)
  case (Cons c xs)
  obtain state n where s: "settle s = (state, n)" by fastforce
  show ?case
  proof (cases "state = sw_chunk_data")
    case True
    obtain d v r where run: "limit_run mx (len + 1) (sw_chunk_data, n - 1) xs = (d, v, r)" by (rule prod_cases3)
    show ?thesis using Cons.IH [of "len + 1" "(sw_chunk_data, n - 1)"] run
      by (cases "mx \<noteq> 0 \<and> mx - len < n"; cases v) (auto simp: s True add_ac Let_def split: prod.split)
  next
    case False
    then show ?thesis by (simp add: s Cons.IH Let_def split: prod.split verdict.split option.split sum.split)
  qed
qed (simp split: prod.split)

lemma limit_run_dry:
  \<comment> \<open>the limit matters only at data\<close>
  "body_run s xs = ([], v, r) \<Longrightarrow> limit_run mx len s xs = ([], case v of Inl s' \<Rightarrow> More s' | Inr b \<Rightarrow> if b then Complete else Malformed, r)"
proof (induction xs arbitrary: s)
  case (Cons c xs)
  obtain state n where s: "settle s = (state, n)" by fastforce
  have "state \<noteq> sw_chunk_data" using Cons.prems by (auto simp: s split: prod.splits)
  then show ?case using Cons.prems Cons.IH by (auto simp: s split: option.splits sum.splits prod.splits)
qed auto

lemma limit_run_data:
  "\<not> (mx \<noteq> 0 \<and> mx - len < n) \<Longrightarrow> int m \<le> n \<Longrightarrow> m \<le> length xs \<Longrightarrow> limit_run mx len (sw_chunk_data, n) xs =
     (let (d, v, r) = limit_run mx (len + int m) (sw_chunk_data, n - int m) (drop m xs) in (take m xs @ d, v, r))"
proof (induction m arbitrary: len n xs)
  case (Suc m)
  then obtain c ys where xs: "xs = c # ys" by (cases xs) auto
  have "settle (sw_chunk_data, n) = (sw_chunk_data, n)" using Suc.prems(2) by simp
  moreover have "limit_run mx (len + 1) (sw_chunk_data, n - 1) ys =
      (let (d, v, r) = limit_run mx (len + 1 + int m) (sw_chunk_data, n - 1 - int m) (drop m ys) in (take m ys @ d, v, r))"
    using Suc.prems by (intro Suc.IH) (auto simp: xs)
  moreover have "n - 1 - int m = n - int (Suc m)" "len + 1 + int m = len + int (Suc m)" by simp_all
  ultimately show ?case using Suc.prems by (simp add: xs split: prod.split)
qed simp

lemma limit_run_body:
  assumes "size_ok s" and "mx = 0 \<or> len \<le> mx" and "limit_run mx len s xs = (d, v, r)"
  shows "case v of
      More s' \<Rightarrow> body_run s xs = (d, Inl s', r) \<and> (mx = 0 \<or> len + int (length d) \<le> mx) \<and> size_ok s'
    | Complete \<Rightarrow> body_run s xs = (d, Inr True, r) \<and> (mx = 0 \<or> len + int (length d) \<le> mx)
    | Malformed \<Rightarrow> \<exists>d. body_run s xs = (d, Inr False, r)
    | Too_large \<Rightarrow> \<exists>ys n. xs = ys @ r \<and> body_run s ys = (d, Inl (sw_chunk_data, n), []) \<and> size_ok (sw_chunk_data, n) \<and> mx \<noteq> 0 \<and> mx < len + int (length d) + n"
  using assms
proof (induction xs arbitrary: len s d)
  case Nil
  have "size_ok (settle s)" using Nil.prems(1) by (auto simp: settle_def size_ok_def)
  then show ?case using Nil.prems by auto
next
  case (Cons c xs)
  obtain state n where s: "settle s = (state, n)" by fastforce
  have ok: "size_ok (state, n)" using Cons.prems(1) s by (auto simp: settle_def size_ok_def split: if_splits)
  show ?case
  proof (cases "state = sw_chunk_data")
    case True
    then have n: "0 < n" using ok settle_simps(2) [of s] by (auto simp: s size_ok_def)
    show ?thesis
    proof (cases "mx \<noteq> 0 \<and> mx - len < n")
      case big: True
      then have "d = []" "v = Too_large" "r = c # xs" using Cons.prems(3) True by (simp_all add: s)
      moreover have "body_run s [] = ([], Inl (sw_chunk_data, n), [])" by (simp add: s True)
      ultimately show ?thesis using big ok True by (auto intro!: exI [of _ "[]"] exI [of _ n])
    next
      case False
      obtain d1 v1 r1 where run: "limit_run mx (len + 1) (sw_chunk_data, n - 1) xs = (d1, v1, r1)" by (rule prod_cases3)
      have e: "d = c # d1" "v = v1" "r = r1" using Cons.prems(3) True False run by (auto simp: s)
      have "size_ok (sw_chunk_data, n - 1)" using ok n by (auto simp: True size_ok_def)
      note IH = Cons.IH [OF this _ run [folded e(2,3)]]
      have front: "body_run s (c # ys) = (c # d2, w, q)" if "body_run (sw_chunk_data, n - 1) ys = (d2, w, q)" for ys d2 w q using that by (simp add: s True)
      show ?thesis
      proof (cases v)
        case Too_large
        then obtain ys m where "xs = ys @ r" "body_run (sw_chunk_data, n - 1) ys = (d1, Inl (sw_chunk_data, m), [])" "size_ok (sw_chunk_data, m)" "mx \<noteq> 0"
            "mx < len + 1 + int (length d1) + m" using IH False n Cons.prems(2) by auto
        then show ?thesis using Too_large front by (auto simp: e(1) intro!: exI [of _ "c # ys"] exI [of _ m])
      qed (use IH False n Cons.prems(2) front in \<open>auto simp: e(1)\<close>)
    qed
  next
    case False
    obtain w where w: "chunked_step c (state, n) = Some w"
        "case w of Inl s' \<Rightarrow> size_ok s' \<and> s' \<noteq> (sw_chunk_data, 0) | Inr (x, m) \<Rightarrow> m = n \<and> x \<noteq> Data"
      using step_ok [OF ok, of c] False unfolding fst_conv snd_conv by blast
    show ?thesis
    proof (cases w)
      case (Inl s')
      then have run: "limit_run mx len s' xs = (d, v, r)" using Cons.prems(3) False w(1) by (simp add: s)
      have front: "body_run s (c # ys) = body_run s' ys" for ys using False w(1) Inl by (simp add: s)
      have IH: "case v of
          More s' \<Rightarrow> body_run s (c # xs) = (d, Inl s', r) \<and> (mx = 0 \<or> len + int (length d) \<le> mx) \<and> size_ok s'
        | Complete \<Rightarrow> body_run s (c # xs) = (d, Inr True, r) \<and> (mx = 0 \<or> len + int (length d) \<le> mx)
        | Malformed \<Rightarrow> \<exists>d. body_run s (c # xs) = (d, Inr False, r)
        | Too_large \<Rightarrow> \<exists>ys n. xs = ys @ r \<and> body_run s (c # ys) = (d, Inl (sw_chunk_data, n), []) \<and> size_ok (sw_chunk_data, n) \<and> mx \<noteq> 0 \<and> mx < len + int (length d) + n"
        unfolding front using Cons.IH [OF _ Cons.prems(2) run] w(2) Inl by simp
      show ?thesis
      proof (cases v)
        case Too_large
        then obtain ys m where "xs = ys @ r" "body_run s (c # ys) = (d, Inl (sw_chunk_data, m), [])" "size_ok (sw_chunk_data, m)" "mx \<noteq> 0" "mx < len + int (length d) + m"
          using IH by auto
        then show ?thesis using Too_large by (auto intro!: exI [of _ "c # ys"] exI [of _ m])
      qed (use IH in auto)
    next
      case (Inr y)
      then obtain x m where y: "w = Inr (x, m)" by (cases y) simp
      then have "d = []" "v = (if x = Done then Complete else Malformed)" "r = xs" using Cons.prems(3) False w(1) by (auto simp: s)
      moreover have "body_run s (c # xs) = ([], Inr (x = Done), xs)" using False w(1) y by (simp add: s)
      ultimately show ?thesis using Cons.prems(2) by auto
    qed
  qed
qed

lemma limit_run_length: "limit_run mx len s xs = (d, v, r) \<Longrightarrow> length d \<le> length xs"
proof (induction xs arbitrary: len s d)
  case (Cons c xs)
  show ?case using Cons.prems
    by (cases "settle s") (auto split: if_splits prod.splits option.splits sum.splits dest!: Cons.IH)
qed simp

section \<open>One buffer\<close>

definition filter_code :: "verdict \<Rightarrow> int" where
  "filter_code v = (case v of More (st, n) \<Rightarrow> if n > MAX64 - 5 then 400 else NGX_OK | Complete \<Rightarrow> NGX_OK | Malformed \<Rightarrow> 400 | Too_large \<Rightarrow> 413)"

definition buf_post :: "int \<Rightarrow> nat \<Rightarrow> nat \<Rightarrow> bytes \<Rightarrow> nat \<Rightarrow> request_body \<Rightarrow> out_buf list
    \<Rightarrow> bytes \<times> verdict \<times> bytes \<Rightarrow> int \<times> bytes \<times> nat \<times> request_body \<times> out_buf list \<times> nat \<Rightarrow> bool" where
  \<comment> \<open>what the inner loop has made of one buffer, given the run of the machine on its bytes\<close>
  "buf_post hs pool lim mem pos rb outs = (\<lambda>(d, v, r) (rc, mem', pos', rb', outs', pool').
     length mem' = length mem \<and> content mem' (rev outs') = content mem (rev outs) @ d \<and>
     content_length_n rb' = content_length_n rb + int (length d) \<and> rc = filter_code v \<and>
     (case v of
        More (st, n) \<Rightarrow> size_ok (st, n) \<and> (rc = NGX_OK \<longrightarrow> ck_state (rb_chunked rb') = st \<and> ck_size (rb_chunked rb') = n \<and>
            rb_rest rb' = max (need st n) hs \<and> pool + pos \<le> pool' + lim)
      | Complete \<Rightarrow> pos' \<le> lim \<and> r = drop pos' (take lim mem') \<and> rb_rest rb' = 0 \<and> outs' \<noteq> [] \<and> ob_last_buf (hd outs')
      | _ \<Rightarrow> True))"

lemma buf_post_step:
  assumes "buf_post hs pool2 lim mem2 pos2 rb2 outs2 (d, v, r) res"
    and "content mem2 (rev outs2) = content mem (rev outs) @ e" and "length mem2 = length mem"
    and "content_length_n rb2 = content_length_n rb + int (length e)" and "pool + pos \<le> pool2 + pos2"
  shows "buf_post hs pool lim mem pos rb outs (e @ d, v, r) res"
proof -
  obtain rc mem' pos' rb' outs' pool' where res: "res = (rc, mem', pos', rb', outs', pool')" by (rule prod_cases6)
  show ?thesis using assms by (cases v) (auto simp: buf_post_def res)
qed

definition has_room :: "int \<Rightarrow> int \<Rightarrow> int \<Rightarrow> bool" where
  "has_room mx len n = (mx = 0 \<or> (\<exists>room. c64 (mx - len) = Some room \<and> \<not> room < n))"

lemma loop_append:
  assumes "ngx_http_parse_chunked (rb_chunked rb) mem pos lim = Some (NGX_OK, ctx, pos')" and "has_room mx (content_length_n rb) (ck_size ctx)"
    and "ck_size ctx \<le> 128" and "ck_size ctx \<le> int (lim - pos')" and "c64 (content_length_n rb + ck_size ctx) = Some len"
    and "append_chunk mem (ob_last b) pos' (nat (ck_size ctx)) = Some mem'"
  shows "chunked_buf_loop mx hs pool mem pos lim rb (b # outs) = chunked_buf_loop mx hs pool mem' (pos' + nat (ck_size ctx)) lim
    (rb\<lparr>content_length_n := len, rb_chunked := ctx\<lparr>ck_size := 0\<rparr>\<rparr>) (b\<lparr>ob_last := ob_last b + nat (ck_size ctx)\<rparr> # outs)"
  unfolding chunked_buf_loop.simps [of mx hs pool mem pos lim rb "b # outs"]
  using assms(2-6) by (cases "mx = 0") (auto simp: assms(1) Let_def has_room_def)

lemma loop_new:
  assumes "ngx_http_parse_chunked (rb_chunked rb) mem pos lim = Some (NGX_OK, ctx, pos')" and "has_room mx (content_length_n rb) (ck_size ctx)"
    and "\<not> (outs \<noteq> [] \<and> ck_size ctx \<le> 128 \<and> int (lim - pos') \<ge> ck_size ctx)" and "pool \<noteq> 0"
    and "m = (if int (lim - pos') > ck_size ctx then nat (ck_size ctx) else lim - pos')" and "c64 (content_length_n rb + int m) = Some len"
  shows "chunked_buf_loop mx hs pool mem pos lim rb outs = chunked_buf_loop mx hs (pool - 1) mem (pos' + m) lim
    (rb\<lparr>content_length_n := len, rb_chunked := ctx\<lparr>ck_size := ck_size ctx - int m\<rparr>\<rparr>)
    (\<lparr>ob_pos = pos', ob_last = pos' + m, ob_last_buf = False\<rparr> # outs)"
  unfolding chunked_buf_loop.simps [of mx hs pool mem pos lim rb outs] assms(1) Let_def bind.simps prod.case assms(5) [symmetric]
  using assms(2-4,6) by (cases "mx = 0") (auto simp: has_room_def)

lemma loop_refuse:
  assumes "ngx_http_parse_chunked (rb_chunked rb) mem pos lim = Some (NGX_OK, ctx, pos')" and "mx \<noteq> 0" "0 \<le> mx" "mx \<le> MAX64"
    and "0 \<le> content_length_n rb" "content_length_n rb \<le> MAX64" and "mx - content_length_n rb < ck_size ctx"
  shows "chunked_buf_loop mx hs pool mem pos lim rb outs = Some (413, mem, pos', rb\<lparr>rb_chunked := ctx\<rparr>, outs, pool)"
proof -
  have "c64 (mx - content_length_n rb) = Some (mx - content_length_n rb)" using assms(3-6) by (simp add: c64_def MAX64_def)
  then show ?thesis unfolding chunked_buf_loop.simps [of mx hs pool mem pos lim rb outs] using assms(1,2,7) by (simp add: Let_def)
qed

lemma buf_loop_ok:
  assumes "size_ok (ck_state (rb_chunked rb), ck_size (rb_chunked rb))" and "pos \<le> lim" and "lim \<le> length mem"
    and "limit_run mx (content_length_n rb) (ck_state (rb_chunked rb), ck_size (rb_chunked rb)) (take (lim - pos) (drop pos mem)) = (d, v, r)"
    and "0 \<le> content_length_n rb" and "content_length_n rb + int (length d) \<le> MAX64" and "0 \<le> mx" and "mx \<le> MAX64"
    and "lim - pos < pool" and "outs_ok pos outs"
  shows "\<exists>res. chunked_buf_loop mx hs pool mem pos lim rb outs = Some res \<and> buf_post hs pool lim mem pos rb outs (d, v, r) res"
  using assms
proof (induction "lim - pos" arbitrary: pool mem pos rb outs d rule: less_induct)
  case less
  let ?c = "rb_chunked rb" and ?xs = "take (lim - pos) (drop pos mem)" and ?len = "content_length_n rb"
  note run = less.prems(4) and unfold = chunked_buf_loop.simps [of mx hs pool mem pos lim rb outs]
  have len: "length ?xs = lim - pos" using less.prems(2,3) by simp
  from parse_body [OF less.prems(1-3)] show ?case
  proof (elim disjE exE conjE)
    fix st n
    assume p: "ngx_http_parse_chunked ?c mem pos lim = Some (NGX_AGAIN, ?c\<lparr>ck_state := st, ck_size := n, ck_length := need st n\<rparr>, lim)"
      and r: "body_run (ck_state ?c, ck_size ?c) ?xs = ([], Inl (st, n), [])" and ok: "size_ok (st, n)" "n \<le> MAX64 - 5"
    then show ?thesis using run limit_run_dry [OF r, of mx ?len] less.prems(2) by (auto simp: unfold buf_post_def filter_code_def)
  next
    fix k n
    assume p: "ngx_http_parse_chunked ?c mem pos lim = Some (NGX_DONE, ?c\<lparr>ck_state := sw_chunk_start, ck_size := n\<rparr>, pos + k + 1)"
      and r: "body_run (ck_state ?c, ck_size ?c) ?xs = ([], Inr True, drop (k + 1) ?xs)" and k: "k < length ?xs"
    have d: "d = []" "v = Complete" "r = drop (k + 1) ?xs" using run limit_run_dry [OF r, of mx ?len] by auto
    have "pool \<noteq> 0" "pos + k + 1 \<le> lim" using less.prems(9) k len by auto
    then show ?thesis using p d by (simp add: unfold buf_post_def content_def drop_take add.commute filter_code_def)
  next
    fix ctx' p r'
    assume "ngx_http_parse_chunked ?c mem pos lim = Some (NGX_ERROR, ctx', p)"
      and "body_run (ck_state ?c, ck_size ?c) ?xs = ([], Inr False, r')"
    then show ?thesis using run limit_run_dry [of "(ck_state ?c, ck_size ?c)" ?xs "Inr False" r' mx ?len] by (auto simp: unfold buf_post_def filter_code_def)
  next
    fix ctx' p n
    assume e: "ngx_http_parse_chunked ?c mem pos lim = Some (NGX_ERROR, ctx', p)"
      and n: "n > MAX64 - 5" "body_run (ck_state ?c, ck_size ?c) ?xs = ([], Inl (sw_chunk_size, n), [])"
    have l: "limit_run mx ?len (ck_state ?c, ck_size ?c) ?xs = ([], More (sw_chunk_size, n), [])" using limit_run_dry [OF n(2)] by simp
    then have "size_ok (sw_chunk_size, n)" using limit_run_body [of "(ck_state ?c, ck_size ?c)" 0 0 ?xs "[]" "More (sw_chunk_size, n)" "[]"] limit_run_dry [OF n(2), of 0 0] less.prems(1) by simp
    then show ?thesis using e n(1) run l by (auto simp: unfold buf_post_def filter_code_def)
  next
    fix k n
    assume p: "ngx_http_parse_chunked ?c mem pos lim = Some (NGX_OK, ?c\<lparr>ck_state := sw_chunk_data, ck_size := n, ck_length := n + 4\<rparr>, pos + k)"
      and r: "body_run (ck_state ?c, ck_size ?c) (take k ?xs) = ([], Inl (sw_chunk_data, n), [])"
      and k: "k < length ?xs" and n: "0 < n" "n \<le> MAX64 div 16"
    define m where "m = min (nat n) (lim - (pos + k))"
    let ?ctx = "?c\<lparr>ck_state := sw_chunk_data, ck_size := n, ck_length := n + 4\<rparr>" and ?pos = "pos + k + m" and ?e = "take m (drop (pos + k) mem)"
    let ?ys = "take (lim - (pos + k)) (drop (pos + k) mem)"
    have pk: "pos + k < lim" using k len by linarith
    have m: "0 < m" "int m \<le> n" "m \<le> lim - (pos + k)" using n pk by (auto simp: m_def)
    have pm: "?pos \<le> lim" using m(3) pk by linarith
    have tail: "drop k ?xs = ?ys" by (simp add: drop_take add.commute)
    have "limit_run mx ?len (ck_state ?c, ck_size ?c) (take k ?xs @ drop k ?xs) = limit_run mx ?len (sw_chunk_data, n) ?ys"
      using limit_run_dry [OF r, of mx ?len] unfolding limit_run_append tail by (simp split: prod.split)
    then have run2: "limit_run mx ?len (sw_chunk_data, n) ?ys = (d, v, r)" using run by (simp only: append_take_drop_id)
    have my: "m \<le> length ?ys" "?ys \<noteq> []" using m(3) pk less.prems(3) by simp_all
    show ?thesis
    proof (cases "mx \<noteq> 0 \<and> mx - ?len < n")
      case True
      have "limit_run mx ?len (sw_chunk_data, n) ?ys = ([], Too_large, ?ys)" using True n(1) my(2) by (cases ?ys) simp_all
      then have "d = []" "v = Too_large" using run2 by simp_all
      then show ?thesis using loop_refuse [OF p, of mx hs pool outs] True less.prems(5-8) by (simp add: buf_post_def filter_code_def)
    next
      case fits: False
      have e: "length ?e = m" "take m ?ys = ?e" using m(3) pm less.prems(3) by (simp_all add: min_absorb1)
      have rest: "drop m ?ys = take (lim - ?pos) (drop ?pos mem)" by (simp add: drop_take add.commute add.left_commute)
      obtain d' where d': "d = ?e @ d'" "limit_run mx (?len + int m) (sw_chunk_data, n - int m) (take (lim - ?pos) (drop ?pos mem)) = (d', v, r)"
        using limit_run_data [OF fits m(2) my(1)] run2 unfolding e rest by (auto split: prod.splits)
      have ok: "size_ok (sw_chunk_data, n - int m)" using n m by (auto simp: size_ok_def MAX64_def)
      have cl: "c64 (?len + int m) = Some (?len + int m)"
        using less.prems(5,6) d'(1) e by (intro c64_nonneg) simp_all
      have room: "has_room mx ?len (ck_size ?ctx)"
        using fits less.prems(5-8) n(1) by (cases "mx = 0") (auto simp: has_room_def c64_def MAX64_def)
      have shift: "outs_ok (pos + k) outs" using less.prems(10) by (auto simp: outs_ok_def)
      have smaller: "lim - ?pos < lim - pos" using m(1) pk by linarith
      show ?thesis
      proof (cases "outs \<noteq> [] \<and> n \<le> 128 \<and> int (lim - (pos + k)) \<ge> n")
        case True
        then obtain b bs where outs: "outs = b # bs" by (cases outs) auto
        have mn: "m = nat n" using True by (auto simp: m_def)
        let ?mem = "blit mem (ob_last b) ?e" and ?outs = "b\<lparr>ob_last := ob_last b + m\<rparr> # bs"
        let ?rb = "rb\<lparr>content_length_n := ?len + int m, rb_chunked := ?ctx\<lparr>ck_size := 0\<rparr>\<rparr>"
        have bp: "ob_last b \<le> pos + k" using shift by (simp add: outs outs_ok_def)
        have cp: "append_chunk mem (ob_last b) (pos + k) m = Some ?mem"
          using bp pm less.prems(3) by (intro append_chunk_ok) simp_all
        have cb: "content ?mem (rev ?outs) = content mem (rev outs) @ ?e" "outs_ok ?pos ?outs"
          using content_blit [OF shift [unfolded outs], of ?e mem] e pm less.prems(3) by (simp_all add: outs)
        have lm: "length ?mem = length mem" using bp e pm less.prems(3) by simp
        have same: "drop ?pos ?mem = drop ?pos mem" using bp e pm less.prems(3) by (simp add: blit_def add.assoc)
        have step: "chunked_buf_loop mx hs pool mem pos lim rb outs = chunked_buf_loop mx hs pool ?mem ?pos lim ?rb ?outs"
          using loop_append [OF p room, of "?len + int m" b ?mem hs pool bs] True cl cp n by (simp add: outs mn)
        have "\<exists>res. chunked_buf_loop mx hs pool ?mem ?pos lim ?rb ?outs = Some res \<and> buf_post hs pool lim ?mem ?pos ?rb ?outs (d', v, r) res"
          using less.prems d' e ok cb(2) pm lm same mn smaller n by (intro less.hyps) auto
        then show ?thesis unfolding step d'(1)
          using buf_post_step [of hs pool lim ?mem ?pos ?rb ?outs d' v r _ mem outs ?e rb pool pos] cb(1) lm e by auto
      next
        case False
        let ?outs = "\<lparr>ob_pos = pos + k, ob_last = pos + k + m, ob_last_buf = False\<rparr> # outs"
        let ?rb = "rb\<lparr>content_length_n := ?len + int m, rb_chunked := ?ctx\<lparr>ck_size := n - int m\<rparr>\<rparr>"
        have cb: "content mem (rev ?outs) = content mem (rev outs) @ ?e" "outs_ok ?pos ?outs"
          using content_new [OF shift, of m mem] pm less.prems(3) by simp_all
        have pool: "pool \<noteq> 0" using less.prems(9) by simp
        have mm: "m = (if int (lim - (pos + k)) > ck_size ?ctx then nat (ck_size ?ctx) else lim - (pos + k))"
          using n by (auto simp: m_def)
        have step: "chunked_buf_loop mx hs pool mem pos lim rb outs = chunked_buf_loop mx hs (pool - 1) mem ?pos lim ?rb ?outs"
          using loop_new [OF p room _ pool mm] False cl by simp
        have "\<exists>res. chunked_buf_loop mx hs (pool - 1) mem ?pos lim ?rb ?outs = Some res \<and> buf_post hs (pool - 1) lim mem ?pos ?rb ?outs (d', v, r) res"
          using less.prems d' e ok cb(2) pm smaller by (intro less.hyps) auto
        then show ?thesis unfolding step d'(1)
          using buf_post_step [of hs "pool - 1" lim mem ?pos ?rb ?outs d' v r _ mem outs ?e rb pool pos] cb(1) e m(1) by auto
      qed
    qed
  qed
qed

lemma settled_more: "limit_run mx len s xs = (d, More s', r) \<Longrightarrow> s' \<noteq> (sw_chunk_data, 0)"
proof (induction xs arbitrary: len s d)
  case (Cons c xs)
  then show ?case by (cases "settle s") (auto split: if_splits prod.splits option.splits sum.splits)
qed auto

lemma limit_more_ok:
  assumes "size_ok s" and "limit_run mx len s xs = (d, More s', r)"
  shows "size_ok s'"
  using assms
proof (induction xs arbitrary: len s d)
  case Nil
  then show ?case by (auto simp: settle_def size_ok_def split: if_splits)
next
  case (Cons c xs)
  obtain state n where s: "settle s = (state, n)" by fastforce
  have ok: "size_ok (state, n)" using Cons.prems(1) s by (auto simp: settle_def size_ok_def split: if_splits)
  show ?case
  proof (cases "state = sw_chunk_data")
    case True
    then have "0 < n" using ok settle_simps(2) [of s] by (auto simp: s size_ok_def)
    then have "size_ok (sw_chunk_data, n - 1)" using ok by (auto simp: True size_ok_def)
    then show ?thesis using Cons.prems(2) Cons.IH [of "(sw_chunk_data, n - 1)"] by (auto simp: s True split: if_splits prod.splits)
  next
    case False
    then show ?thesis using Cons.prems(2) step_ok [OF ok, of c] Cons.IH by (auto simp: s split: option.splits sum.splits prod.splits if_splits)
  qed
qed

lemma more_rest: "limit_run mx len s xs = (d, More s', r) \<Longrightarrow> r = []"
proof (induction xs arbitrary: len s d)
  case (Cons c xs)
  then show ?case by (cases "settle s") (auto split: if_splits prod.splits option.splits sum.splits)
qed simp

section \<open>A chain of buffers\<close>

definition unread :: "(bytes \<times> nat \<times> nat) list \<Rightarrow> bytes" where
  \<comment> \<open>the bytes of a chain of buffers\<close>
  "unread chain = concat (map (\<lambda>(mem, pos, lim). take (lim - pos) (drop pos mem)) chain)"

definition links_ok :: "(bytes \<times> nat \<times> nat) list \<Rightarrow> bool" where
  "links_ok = list_all (\<lambda>(mem, pos, lim). pos \<le> lim \<and> lim \<le> length mem)"

definition delivered :: "(bytes \<times> nat \<times> out_buf list) list \<Rightarrow> bytes" where
  \<comment> \<open>what the next filter reads from the output chain\<close>
  "delivered out = concat (map (\<lambda>(mem, pos, outs). content mem outs) out)"

lemma unread_simps [simp]: "unread [] = []" "unread ((mem, pos, lim) # chain) = take (lim - pos) (drop pos mem) @ unread chain" "unread (a @ b) = unread a @ unread b"
  by (simp_all add: unread_def)

lemma links_simps [simp]: "links_ok []" "links_ok ((mem, pos, lim) # chain) \<longleftrightarrow> pos \<le> lim \<and> lim \<le> length mem \<and> links_ok chain" "links_ok (a @ b) \<longleftrightarrow> links_ok a \<and> links_ok b"
  by (simp_all add: links_ok_def)

lemma delivered_simps [simp]: "delivered [] = []" "delivered ((mem, pos, outs) # out) = content mem outs @ delivered out" "delivered (a @ b) = delivered a @ delivered b"
  by (simp_all add: delivered_def)

definition ended :: "nat \<Rightarrow> bytes \<Rightarrow> (bytes \<times> nat \<times> out_buf list) list \<Rightarrow> bool" where
  \<comment> \<open>the last buffer up to \<open>lim\<close> has \<open>rest\<close> unread, and the last output made from it is marked as the end of the body\<close>
  "ended lim rest out = (\<exists>front mem pos outs. out = front @ [(mem, pos, outs)] \<and> drop pos (take lim mem) = rest \<and> outs \<noteq> [] \<and> ob_last_buf (last outs))"

lemma ended_front: "ended lim rest out \<Longrightarrow> ended lim rest (front @ out)"
  unfolding ended_def by (metis append_assoc)

definition run_state :: "request_body \<Rightarrow> chunked_state \<times> int" where
  "run_state rb = (ck_state (rb_chunked rb), ck_size (rb_chunked rb))"

definition on_time :: "(bytes \<times> nat \<times> nat) list \<Rightarrow> verdict \<Rightarrow> bytes \<Rightarrow> bool" where
  \<comment> \<open>a body that is complete ends in the last buffer\<close>
  "on_time chain v r = (v = Complete \<longrightarrow> length r < length (unread [last chain]))"

definition chain_post :: "request_body \<Rightarrow> nat \<Rightarrow> bytes \<times> verdict \<times> bytes \<Rightarrow> int \<times> request_body \<times> (bytes \<times> nat \<times> out_buf list) list \<Rightarrow> bool" where
  "chain_post rb lim = (\<lambda>(d, v, r) (rc, rb', out). rc = filter_code v \<and> (rc = NGX_OK \<longrightarrow> delivered out = d \<and> content_length_n rb' = content_length_n rb + int (length d)) \<and>
     (case v of More s \<Rightarrow> rc = NGX_OK \<longrightarrow> run_state rb' = s \<and> 0 < rb_rest rb' | Complete \<Rightarrow> rb_rest rb' = 0 \<and> ended lim r out | _ \<Rightarrow> True))"

lemma filter_code_ok: "filter_code v = NGX_OK \<longleftrightarrow> v = Complete \<or> (\<exists>st n. v = More (st, n) \<and> n \<le> MAX64 - 5)"
  by (cases v) (auto simp: filter_code_def split: if_splits)

lemma overlong_size:
  \<comment> \<open>a number over the limit of the parser stays refused whatever comes\<close>
  "size_ok (st, n) \<Longrightarrow> n > MAX64 - 5 \<Longrightarrow> limit_run mx len (st, n) xs = (d, v, r) \<Longrightarrow> filter_code v = 400"
  by (cases xs) (auto simp: size_ok_def MAX64_def chunked_step_simps filter_code_def settle_def split: if_splits)

lemma chain_ok:
  assumes "links_ok chain" and "size_ok (run_state rb)" "snd (run_state rb) \<le> MAX64 - 5"
    and "limit_run mx (content_length_n rb) (run_state rb) (unread chain) = (d, v, r)" and "on_time chain v r"
    and "0 \<le> content_length_n rb" and "content_length_n rb + int (length d) \<le> MAX64" and "0 \<le> mx" "mx \<le> MAX64"
    and "length (unread chain) < pool" and "0 < rb_rest rb" and "run_state rb \<noteq> (sw_chunk_data, 0) \<or> chain \<noteq> []"
  shows "\<exists>res. chunked_chain mx hs pool chain rb = Some res \<and> chain_post rb (snd (snd (last chain))) (d, v, r) res"
  using assms
proof (induction chain arbitrary: pool rb d)
  case Nil
  then have "v = More (run_state rb)" "d = []" by simp_all
  then show ?case using Nil.prems(3,11) by (cases "run_state rb") (simp add: chain_post_def filter_code_def)
next
  case (Cons l chain)
  obtain mem pos lim where l: "l = (mem, pos, lim)" by (rule prod_cases3)
  let ?s = "run_state rb" and ?xs = "take (lim - pos) (drop pos mem)" and ?len = "content_length_n rb"
  obtain d1 v1 r1 where run: "limit_run mx ?len ?s ?xs = (d1, v1, r1)" by (rule prod_cases3)
  have L: "pos \<le> lim" "lim \<le> length mem" "links_ok chain" using Cons.prems(1) by (simp_all add: l)
  have whole: "limit_run mx ?len ?s (?xs @ unread chain) = (d, v, r)" using Cons.prems(4) by (simp add: l)
  have d1: "\<exists>d2. d = d1 @ d2" using whole run by (cases v1) (auto simp: limit_run_append split: prod.splits)
  have len: "length ?xs = lim - pos" using L by simp
  have "?len + int (length d1) \<le> MAX64" using Cons.prems(7) d1 by auto
  moreover have "lim - pos < pool" using Cons.prems(10) len by (simp add: l)
  ultimately obtain rc mem' pos' rb' outs' pool' where
      loop: "chunked_buf_loop mx hs pool mem pos lim rb [] = Some (rc, mem', pos', rb', outs', pool')"
      and post: "buf_post hs pool lim mem pos rb [] (d1, v1, r1) (rc, mem', pos', rb', outs', pool')"
    using buf_loop_ok [of rb pos lim mem mx d1 v1 r1 pool "[]" hs] Cons.prems(2,6,8,9) L run by (auto simp: outs_ok_def run_state_def)
  have c: "content mem' (rev outs') = d1" "content_length_n rb' = ?len + int (length d1)" "rc = filter_code v1"
    using post by (auto simp: buf_post_def content_def)
  show ?case
  proof (cases v1)
    case (More s')
    then obtain st n where s': "v1 = More (st, n)" by (cases s') simp
    obtain d2 where d2: "d = d1 @ d2" "limit_run mx (?len + int (length d1)) (st, n) (unread chain) = (d2, v, r)"
      using whole run s' by (auto simp: limit_run_append split: prod.splits)
    have ok: "size_ok (st, n)" using post s' by (auto simp: buf_post_def)
    show ?thesis
    proof (cases "n > MAX64 - 5")
      case True
      then have "filter_code v = 400" "rc = 400" using overlong_size [OF ok True d2(2)] c(3) s' by (simp_all add: filter_code_def)
      moreover from this have "v \<noteq> Complete" by (auto simp: filter_code_def)
      ultimately show ?thesis using loop by (cases v) (simp_all add: l chain_post_def)
    next
      case False
      then have rc: "rc = NGX_OK" using c(3) s' by (simp add: filter_code_def)
      then have p: "run_state rb' = (st, n)" "rb_rest rb' = max (need st n) hs" "pool + pos \<le> pool' + lim" using post s' by (auto simp: buf_post_def run_state_def)
      have "0 < rb_rest rb'" using p(2) need_pos [of n st] ok by (auto simp: size_ok_def)
      moreover have "length (unread chain) < pool'" using Cons.prems(10) p(3) len L by (simp add: l)
      moreover have "on_time chain v r"
      proof (cases "chain = []")
        case True
        then have "v \<noteq> Complete" using d2(2) by auto
        then show ?thesis by (simp add: on_time_def)
      qed (use Cons.prems(5) in \<open>simp add: on_time_def\<close>)
      moreover have "(st, n) \<noteq> (sw_chunk_data, 0)"
        using limit_run_body [OF Cons.prems(2), of 0 0] run s' by (metis settled_more)
      ultimately obtain res where res: "chunked_chain mx hs pool' chain rb' = Some res" "chain_post rb' (snd (snd (last chain))) (d2, v, r) res"
        using Cons.IH [of rb' d2 pool'] L(3) ok False d2 Cons.prems(6-9) c(2) p(1) by auto
      obtain rc2 rb2 out where r2: "res = (rc2, rb2, out)" by (rule prod_cases3)
      have nonempty: "chain \<noteq> []" if "v = Complete" using d2(2) that by auto
      show ?thesis using loop rc res c d2(1) ended_front [of _ r out "[(mem', pos', rev outs')]"] nonempty
        by (cases v) (auto simp: l r2 chain_post_def)
    qed
  next
    case Complete
    then have v: "v = Complete" "d = d1" "r = r1 @ unread chain" using whole run by (auto simp: limit_run_append)
    have "chain = []"
    proof (rule ccontr)
      assume "chain \<noteq> []"
      then obtain a b where ab: "chain = a @ [b]" by (cases chain rule: rev_cases) auto
      then have "length (unread [b]) \<le> length (unread chain)" by (simp add: unread_def)
      then show False using Cons.prems(5) v ab by (simp add: on_time_def)
    qed
    then show ?thesis using loop post v c Complete by (auto simp: l buf_post_def chain_post_def filter_code_def last_rev ended_def)
  next
    case Malformed
    then have "v = Malformed" using whole run by (auto simp: limit_run_append)
    then show ?thesis using loop c(3) Malformed by (simp add: l chain_post_def filter_code_def)
  next
    case Too_large
    then have "v = Too_large" using whole run by (auto simp: limit_run_append)
    then show ?thesis using loop c(3) Too_large by (simp add: l chain_post_def filter_code_def)
  qed
qed

section \<open>A session of calls\<close>

fun body_session :: "int \<Rightarrow> int \<Rightarrow> (nat \<times> (bytes \<times> nat \<times> nat) list) list \<Rightarrow> request_body
    \<Rightarrow> (int \<times> request_body \<times> (bytes \<times> nat \<times> out_buf list) list) option" where
  \<comment> \<open>the filter is called with one chain after the other, each with what the pool can provide then, until it fails or \<open>rest\<close> is 0; the
     result is everything that was handed on (a call that fails hands nothing on)\<close>
  "body_session mx hs [] rb = Some (NGX_OK, rb, [])"
| "body_session mx hs ((pool, chain) # calls) rb = do {
     (rc, rb, out) \<leftarrow> ngx_http_request_body_chunked_filter mx hs pool chain rb;
     if rc \<noteq> NGX_OK then Some (rc, rb, [])
     else if rb_rest rb = 0 then Some (NGX_OK, rb, out)
     else do {
       (rc, rb, more) \<leftarrow> body_session mx hs calls rb;
       Some (rc, rb, out @ more)
     }
   }"

definition links :: "(nat \<times> (bytes \<times> nat \<times> nat) list) list \<Rightarrow> (bytes \<times> nat \<times> nat) list" where
  "links calls = concat (map snd calls)"

definition enough :: "(nat \<times> (bytes \<times> nat \<times> nat) list) list \<Rightarrow> bool" where
  \<comment> \<open>every call finds the buffers it may need\<close>
  "enough calls = (\<forall>(pool, chain)\<in>set calls. length (unread chain) + 2 \<le> pool)"

definition session_post :: "request_body \<Rightarrow> nat \<Rightarrow> bytes \<times> verdict \<times> bytes \<Rightarrow> int \<times> request_body \<times> (bytes \<times> nat \<times> out_buf list) list \<Rightarrow> bool" where
  "session_post rb lim = (\<lambda>(d, v, r) (rc, rb', out). rc = filter_code v \<and> (rc = NGX_OK \<longrightarrow> delivered out = d \<and> content_length_n rb' = content_length_n rb + int (length d)) \<and>
     (case v of More s \<Rightarrow> rc = NGX_OK \<longrightarrow> run_state rb' = s \<and> 0 < rb_rest rb' | Complete \<Rightarrow> rb_rest rb' = 0 \<and> ended lim r out | _ \<Rightarrow> True))"

lemma links_simps2 [simp]: "links [] = []" "links ((pool, chain) # calls) = chain @ links calls"
  by (simp_all add: links_def)

lemma enough_simps [simp]: "enough []" "enough ((pool, chain) # calls) \<longleftrightarrow> length (unread chain) + 2 \<le> pool \<and> enough calls"
  by (simp_all add: enough_def)

lemma session_ok:
  assumes "links_ok (links calls)" and "list_all (\<lambda>(pool, chain). length (unread chain) < pool) calls" and "size_ok (run_state rb)" "snd (run_state rb) \<le> MAX64 - 5" "run_state rb \<noteq> (sw_chunk_data, 0)"
    and "limit_run mx (content_length_n rb) (run_state rb) (unread (links calls)) = (d, v, r)" and "on_time (links calls) v r"
    and "0 \<le> content_length_n rb" and "content_length_n rb + int (length d) \<le> MAX64" and "0 \<le> mx" "mx \<le> MAX64" and "0 < rb_rest rb"
  shows "\<exists>res. body_session mx hs calls rb = Some res \<and> session_post rb (snd (snd (last (links calls)))) (d, v, r) res"
  using assms
proof (induction calls arbitrary: rb d)
  case Nil
  then have "v = More (run_state rb)" "d = []" by simp_all
  then show ?case using Nil.prems(4,12) by (cases "run_state rb") (simp add: session_post_def filter_code_def)
next
  case (Cons call calls)
  obtain pool chain where call: "call = (pool, chain)" by (cases call)
  let ?s = "run_state rb" and ?len = "content_length_n rb"
  obtain d1 v1 r1 where run: "limit_run mx ?len ?s (unread chain) = (d1, v1, r1)" by (rule prod_cases3)
  have whole: "limit_run mx ?len ?s (unread chain @ unread (links calls)) = (d, v, r)" using Cons.prems(6) by (simp add: call)
  have d1: "\<exists>d2. d = d1 @ d2" using whole run by (cases v1) (auto simp: limit_run_append split: prod.splits)
  have ot: "on_time chain v1 r1" and stop: "v1 = Complete \<longrightarrow> links calls = []"
  proof -
    have "links calls = [] \<and> length r1 < length (unread [last chain])" if c: "v1 = Complete"
    proof -
      have e: "v = Complete" "r = r1 @ unread (links calls)" using whole run c by (auto simp: limit_run_append)
      have "links calls = []"
      proof (rule ccontr)
        assume "links calls \<noteq> []"
        then obtain a b where ab: "links calls = a @ [b]" by (cases "links calls" rule: rev_cases) auto
        then show False using Cons.prems(7) e by (simp add: on_time_def call)
      qed
      then show ?thesis using Cons.prems(7) e by (simp add: on_time_def call)
    qed
    then show "on_time chain v1 r1" "v1 = Complete \<longrightarrow> links calls = []" by (auto simp: on_time_def)
  qed
  have "?len + int (length d1) \<le> MAX64" using Cons.prems(9) d1 by auto
  then obtain rc rb' out where ch: "chunked_chain mx hs pool chain rb = Some (rc, rb', out)" "chain_post rb (snd (snd (last chain))) (d1, v1, r1) (rc, rb', out)"
    using chain_ok [of chain rb mx d1 v1 r1 pool hs] Cons.prems run ot by (auto simp: call)
  have filt: "ngx_http_request_body_chunked_filter mx hs pool chain rb = Some (rc, rb', out)"
    using ch(1) Cons.prems(12) by (simp add: ngx_http_request_body_chunked_filter_def)
  have rc: "rc = filter_code v1" using ch(2) by (simp add: chain_post_def)
  show ?case
  proof (cases v1)
    case (More s')
    then obtain st n where s': "v1 = More (st, n)" by (cases s') simp
    obtain d2 where d2: "d = d1 @ d2" "limit_run mx (?len + int (length d1)) (st, n) (unread (links calls)) = (d2, v, r)"
      using whole run s' by (auto simp: limit_run_append split: prod.splits)
    have ok: "size_ok (st, n)" using limit_run_body [OF Cons.prems(3), of 0 0 "unread chain"] limit_more_ok [OF Cons.prems(3) run [unfolded s']] by simp
    show ?thesis
    proof (cases "n > MAX64 - 5")
      case True
      then have "filter_code v = 400" "rc = 400" using overlong_size [OF ok True d2(2)] rc s' by (simp_all add: filter_code_def)
      moreover from this have "v \<noteq> Complete" by (auto simp: filter_code_def)
      ultimately show ?thesis using filt by (cases v) (simp_all add: call session_post_def)
    next
      case False
      then have r0: "rc = NGX_OK" using rc s' by (simp add: filter_code_def)
      then have p: "run_state rb' = (st, n)" "0 < rb_rest rb'" "delivered out = d1" "content_length_n rb' = ?len + int (length d1)"
        using ch(2) s' by (auto simp: chain_post_def)
      have "on_time (links calls) v r"
      proof (cases "links calls = []")
        case True
        then have "v \<noteq> Complete" using d2(2) by auto
        then show ?thesis by (simp add: on_time_def)
      qed (use Cons.prems(7) in \<open>simp add: on_time_def call\<close>)
      then obtain res where res: "body_session mx hs calls rb' = Some res" "session_post rb' (snd (snd (last (links calls)))) (d2, v, r) res"
        using Cons.IH [of rb' d2] Cons.prems p ok False d2 settled_more [OF run [unfolded s']] by (auto simp: call)
      obtain rc2 rb2 out2 where r2: "res = (rc2, rb2, out2)" by (rule prod_cases3)
      have "links calls \<noteq> []" if "v = Complete" using d2(2) that by auto
      then show ?thesis using filt r0 res p d2(1) ended_front [of _ r out2 out] by (cases v) (auto simp: call r2 session_post_def)
    qed
  next
    case Complete
    then have "v = Complete" "d = d1" "r = r1" using whole run stop by (auto simp: limit_run_append)
    then show ?thesis using filt ch(2) Complete stop rc by (auto simp: call chain_post_def session_post_def filter_code_def)
  next
    case Malformed
    then have "v = Malformed" using whole run by (auto simp: limit_run_append)
    then show ?thesis using filt rc Malformed by (simp add: call session_post_def filter_code_def)
  next
    case Too_large
    then have "v = Too_large" using whole run by (auto simp: limit_run_append)
    then show ?thesis using filt rc Too_large by (simp add: call session_post_def filter_code_def)
  qed
qed

lemma session_start:
  assumes "links_ok (links calls)" and "enough calls" and "limit_run mx 0 (sw_chunk_start, 0) (unread (links calls)) = (d, v, r)" and "on_time (links calls) v r"
    and "int (length (unread (links calls))) \<le> MAX64" and "0 \<le> mx" "mx \<le> MAX64" and "0 < hs" and "rb_rest rb = -1" and "calls \<noteq> []"
  shows "\<exists>res. body_session mx hs calls rb = Some res \<and> session_post (rb\<lparr>content_length_n := 0\<rparr>) (snd (snd (last (links calls)))) (d, v, r) res"
proof -
  obtain pool chain calls' where c: "calls = (pool, chain) # calls'" using assms(10) by (cases calls) auto
  let ?rb = "rb\<lparr>rb_chunked := \<lparr>ck_state = sw_chunk_start, ck_size = 0, ck_length = 0\<rparr>, content_length_n := 0, rb_rest := hs\<rparr>"
  have "pool \<noteq> 0" using assms(2) by (simp add: c)
  then have same: "body_session mx hs calls rb = body_session mx hs ((pool - 1, chain) # calls') ?rb"
    using assms(8,9) by (simp add: c ngx_http_request_body_chunked_filter_def)
  have "int (length d) \<le> MAX64" using limit_run_length [OF assms(3)] assms(5) by linarith
  moreover have "list_all (\<lambda>(pool, chain). length (unread chain) < pool) ((pool - 1, chain) # calls')" using assms(2) by (auto simp: c enough_def list_all_iff)
  moreover have "run_state ?rb = (sw_chunk_start, 0)" "size_ok (sw_chunk_start, 0)" by (simp_all add: run_state_def size_ok_def MAX64_def)
  ultimately have "\<exists>res. body_session mx hs ((pool - 1, chain) # calls') ?rb = Some res \<and> session_post ?rb (snd (snd (last (links calls)))) (d, v, r) res"
    using session_ok [of "(pool - 1, chain) # calls'" ?rb mx d v r hs] assms(1,3,4,6-8) by (simp add: c MAX64_def)
  then show ?thesis unfolding same by (simp add: session_post_def)
qed

section \<open>The announced length\<close>

lemma need_least: "size_ok s \<Longrightarrow> body_run s xs = (d, Inr True, r) \<Longrightarrow> need (fst s) (snd s) + int (length r) \<le> int (length xs)"
proof (induction xs arbitrary: s d)
  case (Cons c xs)
  have ok: "size_ok (settle s)" using Cons.prems(1) by (auto simp: settle_def size_ok_def)
  have same: "need (fst s) (snd s) = need (fst (settle s)) (snd (settle s))" by (simp add: settle_def need_def)
  obtain st n where s: "settle s = (st, n)" by fastforce
  show ?case
  proof (cases "st = sw_chunk_data")
    case True
    then have n: "0 < n" using ok settle_simps(2) [of s] by (auto simp: s size_ok_def)
    obtain d0 v r0 where run: "body_run (sw_chunk_data, n - 1) xs = (d0, v, r0)" by (rule prod_cases3)
    then have "v = Inr True" "r0 = r" using Cons.prems(2) True by (simp_all add: s)
    moreover have "size_ok (sw_chunk_data, n - 1)" using ok n by (auto simp: s True size_ok_def)
    ultimately show ?thesis unfolding same using Cons.IH [of "(sw_chunk_data, n - 1)" d0] run by (simp add: s True need_def)
  next
    case False
    then have st: "fst (settle s) \<noteq> sw_chunk_data" by (simp add: s)
    obtain v where v: "chunked_step c (settle s) = Some v"
        "case v of Inl s' \<Rightarrow> size_ok s' \<and> s' \<noteq> (sw_chunk_data, 0) | Inr (x, n) \<Rightarrow> n = snd (settle s) \<and> x \<noteq> Data"
      using step_ok [OF ok st] by blast
    have closer: "need st n \<le> 1 + need (fst s') (snd s')" if "v = Inl s'" for s'
      using v(1) that ok False digit_range [of c]
      by (cases st) (auto simp: s chunked_step_simps need_def size_ok_def c64_def split: if_splits option.splits)
    have fin: "need st n = 1" if "v = Inr (Done, m)" for m
      using v(1) that False by (cases st) (auto simp: s chunked_step_simps need_def split: if_splits option.splits)
    show ?thesis unfolding same
    proof (cases v)
      case (Inl s')
      then have "body_run s' xs = (d, Inr True, r)" using Cons.prems(2) v(1) False by (simp add: s)
      then show "need (fst (settle s)) (snd (settle s)) + int (length r) \<le> int (length (c # xs))"
        using Cons.IH [of s' d] v(2) closer [OF Inl] by (simp add: s Inl)
    next
      case (Inr y)
      then obtain x m where y: "v = Inr (x, m)" by (cases y) simp
      then have "x = Done" "r = xs" using Cons.prems(2) v(1) False by (simp_all add: s)
      then show "need (fst (settle s)) (snd (settle s)) + int (length r) \<le> int (length (c # xs))" using fin y by (simp add: s)
    qed
  qed
qed simp

definition completion :: "chunked_state \<Rightarrow> int \<Rightarrow> bytes" where
  "completion st n = (let data = replicate (nat n) 0 @ [10, 48, 10, 10] in
     case st of
       sw_chunk_start \<Rightarrow> [48, 10, 10] | sw_chunk_size \<Rightarrow> if n = 0 then [10, 10] else 10 # data | sw_chunk_extension \<Rightarrow> 10 # data
     | sw_chunk_extension_almost_done \<Rightarrow> 10 # data | sw_chunk_data \<Rightarrow> data | sw_after_data \<Rightarrow> [10, 48, 10, 10]
     | sw_after_data_almost_done \<Rightarrow> [10, 48, 10, 10] | sw_last_chunk_extension \<Rightarrow> [10, 10] | sw_last_chunk_extension_almost_done \<Rightarrow> [10, 10]
     | sw_trailer \<Rightarrow> [10] | sw_trailer_almost_done \<Rightarrow> [10] | sw_trailer_header \<Rightarrow> [10, 10] | sw_trailer_header_almost_done \<Rightarrow> [10, 10])"

lemma settle_data: "settle (sw_chunk_data, n) = (if n = 0 then (sw_after_data, 0) else (sw_chunk_data, n))"
  by (simp add: settle_def)

lemma zero_digit: "chunk_digit 48 = Some 0"
  by (simp add: chunk_digit_def)

lemma completes_last: "body_run (sw_after_data, m) [10, 48, 10, 10] = ([], Inr True, [])" "body_run (sw_chunk_start, m) [48, 10, 10] = ([], Inr True, [])"
  by (simp_all add: chunked_step_simps zero_digit line_end_digits MAX64_def)

lemma completes_data: "0 \<le> n \<Longrightarrow> body_run (sw_chunk_data, n) (replicate (nat n) 0 @ [10, 48, 10, 10]) = (replicate (nat n) 0, Inr True, [])"
  using body_run_data [of "nat n" n "replicate (nat n) 0 @ [10, 48, 10, 10]"] body_run_settle [of "(sw_chunk_data, 0)" "[10, 48, 10, 10]"]
    completes_last(1) [of 0] by (simp add: settle_data)

lemma completion_ok:
  assumes "size_ok (st, n)" and "n \<le> MAX64 div 16"
  shows "int (length (completion st n)) = need st n \<and> (\<exists>d. body_run (st, n) (completion st n) = (d, Inr True, []))"
proof (cases st)
  case sw_chunk_data
  then show ?thesis using assms(1) completes_data [of n] by (auto simp: completion_def need_def size_ok_def)
qed (use assms completes_data [of n] completes_last in
  \<open>auto simp: completion_def need_def size_ok_def Let_def chunked_step_simps line_end_digits zero_digit simp del: body_run.simps(1)\<close>)

section \<open>Properties\<close>

definition viable :: "bytes \<Rightarrow> bool" where
  \<comment> \<open>some continuation makes the text a chunked body\<close>
  "viable xs = (\<exists>more. chunked_body (xs @ more) \<noteq> None)"

definition oversized :: "int \<Rightarrow> bytes \<Rightarrow> bool" where
  \<comment> \<open>the text begins like a body, but only like bodies with more data than the limit\<close>
  "oversized mx xs = (\<exists>ys zs. xs = ys @ zs \<and> viable ys \<and> (\<forall>more d rest. chunked_body (ys @ more) = Some (d, rest) \<longrightarrow> mx < int (length d)))"

lemma body_by_run: "chunked_body xs = (case body_run (sw_chunk_start, 0) xs of (d, Inr True, r) \<Rightarrow> Some (d, r) | _ \<Rightarrow> None)"
proof -
  have "size_ok (sw_chunk_start, 0)" by (simp add: size_ok_def MAX64_def)
  from body_run_from [OF this, of xs] show ?thesis by (simp add: body_from_def)
qed

lemma body_continues:
  assumes "body_run (sw_chunk_start, 0) xs = (d, Inl s, [])"
  shows "chunked_body (xs @ zs) = (case body_run s zs of (d', Inr True, r) \<Rightarrow> Some (d @ d', r) | _ \<Rightarrow> None)"
  using assms by (simp add: body_by_run body_run_append split: prod.split sum.split bool.split)

lemma viable_state:
  assumes "body_run (sw_chunk_start, 0) xs = (d, Inl (st, n), [])" and "size_ok (st, n)" and "n \<le> MAX64 div 16"
  shows "viable xs"
proof -
  obtain d' where "body_run (st, n) (completion st n) = (d', Inr True, [])" using completion_ok [OF assms(2,3)] by blast
  then show ?thesis unfolding viable_def using body_continues [OF assms(1), of "completion st n"] by (intro exI [of _ "completion st n"]) simp
qed

lemma verdict_meaning:
  assumes "limit_run mx 0 (sw_chunk_start, 0) xs = (d, v, r)" and "0 \<le> mx"
  shows "case v of
      More (st, n) \<Rightarrow> chunked_body xs = None \<and> (mx = 0 \<or> int (length d) \<le> mx) \<and> (\<forall>more e rest. chunked_body (xs @ more) = Some (e, rest) \<longrightarrow> (\<exists>t. e = d @ t)) \<and>
        (viable xs \<or> st = sw_chunk_size \<and> n > MAX64 div 16)
    | Complete \<Rightarrow> chunked_body xs = Some (d, r) \<and> (mx = 0 \<or> int (length d) \<le> mx)
    | Malformed \<Rightarrow> \<not> viable xs
    | Too_large \<Rightarrow> mx \<noteq> 0 \<and> oversized mx xs"
proof -
  have start: "size_ok (sw_chunk_start, 0)" "mx = 0 \<or> 0 \<le> mx" using assms(2) by (simp_all add: size_ok_def MAX64_def)
  note R = limit_run_body [OF start assms(1)]
  show ?thesis
  proof (cases v)
    case (More s)
    then obtain st n where s: "v = More (st, n)" by (cases s) simp
    then have b: "body_run (sw_chunk_start, 0) xs = (d, Inl (st, n), r)" "size_ok (st, n)" "mx = 0 \<or> int (length d) \<le> mx" using R by auto
    have r: "r = []" using more_rest [OF assms(1) [unfolded s]] .
    have "n \<le> MAX64 div 16 \<Longrightarrow> viable xs" using viable_state [of xs d st n] b r by simp
    then have "viable xs \<or> st = sw_chunk_size \<and> n > MAX64 div 16" using b(2) by (cases "n \<le> MAX64 div 16") (auto simp: size_ok_def)
    then show ?thesis using s b r body_continues [of xs d "(st, n)"] by (auto simp: body_by_run [of xs] split: prod.splits sum.splits bool.splits)
  next
    case Complete
    then show ?thesis using R by (simp add: body_by_run)
  next
    case Malformed
    then obtain e where "body_run (sw_chunk_start, 0) xs = (e, Inr False, r)" using R by auto
    then show ?thesis using Malformed by (simp add: viable_def body_by_run body_run_append)
  next
    case Too_large
    then obtain ys n where y: "xs = ys @ r" "body_run (sw_chunk_start, 0) ys = (d, Inl (sw_chunk_data, n), [])" "size_ok (sw_chunk_data, n)" "mx \<noteq> 0"
        "mx < int (length d) + n" using R by auto
    have "viable ys" using viable_state [OF y(2,3)] y(3) by (simp add: size_ok_def)
    moreover have "mx < int (length e)" if body: "chunked_body (ys @ zs) = Some (e, rest)" for zs e rest
    proof -
      obtain d' where "body_run (sw_chunk_data, n) zs = (d', Inr True, rest)" "e = d @ d'"
        using body body_continues [OF y(2), of zs] by (auto split: prod.splits sum.splits bool.splits)
      then show ?thesis using body_run_size y(5) by fastforce
    qed
    ultimately show ?thesis using y(1,4) Too_large by (auto simp: oversized_def)
  qed
qed

lemma verdict_decides:
  assumes "limit_run mx 0 (sw_chunk_start, 0) xs = (e, v, r)" and "0 \<le> mx" and "chunked_body xs = Some (d, rest)"
  shows "if mx = 0 \<or> int (length d) \<le> mx then v = Complete \<and> e = d \<and> r = rest else v = Too_large"
proof -
  note M = verdict_meaning [OF assms(1,2)]
  have vi: "viable xs" unfolding viable_def using assms(3) by (intro exI [of _ "[]"]) simp
  have "mx < int (length d)" if "oversized mx xs" using that assms(3) unfolding oversized_def by blast
  then show ?thesis using M assms(3) vi by (cases v) auto
qed

text \<open>
  C6: chunked request bodies. The filter is called with one chain of buffers after the other until it has the whole body. When the bytes of all these
  buffers begin with a chunked body that keeps the size limit and ends in the last buffer, the session succeeds however the body is cut into buffers
  and calls: the buffers that are handed on hold exactly the decoded data, small chunks joined in place included, the last of them is marked as the
  end, \<open>content_length_n\<close> is the length of the data, \<open>rest\<close> is 0, and the text after the body is left unread. (A body that ends in an earlier buffer of the
  chain is excluded: the loop over the chain does not stop there.)
\<close>

theorem chunked_filter_decodes:
  assumes "chunked_body (unread (links calls)) = Some (d, rest)" and "length rest < length (unread [last (links calls)])"
    and "links_ok (links calls)" and "enough calls" and "rb_rest rb = -1" and "0 < hs" and "int (length (unread (links calls))) \<le> MAX64"
    and "mx = 0 \<or> int (length d) \<le> mx \<and> mx \<le> MAX64"
  shows "\<exists>rb' out mem pos outs. body_session mx hs calls rb = Some (NGX_OK, rb', out @ [(mem, pos, outs)]) \<and>
    delivered (out @ [(mem, pos, outs)]) = d \<and> rb_rest rb' = 0 \<and> content_length_n rb' = int (length d) \<and>
    drop pos (take (snd (snd (last (links calls)))) mem) = rest \<and> outs \<noteq> [] \<and> ob_last_buf (last outs)"
proof -
  have mx: "0 \<le> mx" "mx \<le> MAX64" using assms(8) by (auto simp: MAX64_def)
  obtain d1 v r where run: "limit_run mx 0 (sw_chunk_start, 0) (unread (links calls)) = (d1, v, r)" by (rule prod_cases3)
  have v: "v = Complete" "d1 = d" "r = rest" using verdict_decides [OF run mx(1) assms(1)] assms(8) by auto
  have "calls \<noteq> []" using assms(2) run v by auto
  then obtain res where res: "body_session mx hs calls rb = Some res" "session_post (rb\<lparr>content_length_n := 0\<rparr>) (snd (snd (last (links calls)))) (d1, v, r) res"
    using session_start [OF assms(3,4) run _ assms(7) mx assms(6,5)] assms(2) v by (auto simp: on_time_def)
  then show ?thesis using v by (cases res) (auto simp: session_post_def filter_code_def ended_def)
qed

definition demo_calls :: "(nat \<times> (bytes \<times> nat \<times> nat) list) list" where
  \<comment> \<open>\<open>2\r\nab\r\n1;x\nc\r\n0\r\n\r\nG\<close>, cut inside the first chunk and before the last one into three buffers and two calls\<close>
  "demo_calls = [(6, [([50, 13, 10, 97], 0, 4)]), (18, [([98, 13, 10, 49, 59, 120, 10, 99, 13, 10], 0, 10), ([48, 13, 10, 13, 10, 71], 0, 6)])]"

lemma demo_body: "chunked_body (unread (links demo_calls)) = Some ([97, 98, 99], [71])"
  by (simp add: demo_calls_def chunked_body.simps chunk_digit_def MAX64_def)

theorem chunked_filter_decodes_witness:
  "\<exists>rb' out mem pos outs. body_session 3 1024 demo_calls
      \<lparr>rb_rest = -1, rb_chunked = \<lparr>ck_state = sw_trailer, ck_size = 7, ck_length = 0\<rparr>, content_length_n = -1\<rparr> =
        Some (NGX_OK, rb', out @ [(mem, pos, outs)]) \<and>
    delivered (out @ [(mem, pos, outs)]) = [97, 98, 99] \<and> rb_rest rb' = 0 \<and> content_length_n rb' = int (length [97 :: u8, 98, 99]) \<and>
    drop pos (take (snd (snd (last (links demo_calls)))) mem) = [71] \<and> outs \<noteq> [] \<and> ob_last_buf (last outs)"
  by (rule chunked_filter_decodes [OF demo_body]) (simp_all add: demo_calls_def MAX64_def)

text \<open>
  C14: the verdict of a session over any calls and buffers, with or without a size limit, on any bytes (that do not hold a complete body before the last
  buffer). A complete body that keeps the limit is accepted and delivered, one that exceeds it is refused with 413. On text that is not (yet) a complete
  body the filter asks for more, refuses with 400 or refuses with 413. It asks for more only while some continuation still makes the text a body, or
  while the text ends in the digits of a chunk size above 2^59, which the parser refuses at the next byte at the latest; then everything it has
  delivered keeps the limit and begins the data of every such body. It answers 400 only when no continuation makes the text a body, and 413 only when a prefix
  of the text begins a body and every body with that prefix has more data than the limit.
\<close>

theorem chunked_filter_verdict:
  assumes "links_ok (links calls)" and "enough calls" and "rb_rest rb = -1" and "0 < hs" and "int (length (unread (links calls))) \<le> MAX64"
    and "0 \<le> mx" and "mx \<le> MAX64" and "calls \<noteq> []"
    and "\<forall>d rest. chunked_body (unread (links calls)) = Some (d, rest) \<longrightarrow> length rest < length (unread [last (links calls)])"
  shows "\<exists>rc rb' out. body_session mx hs calls rb = Some (rc, rb', out) \<and>
    (case chunked_body (unread (links calls)) of
       Some (d, rest) \<Rightarrow>
         if mx = 0 \<or> int (length d) \<le> mx then rc = NGX_OK \<and> rb_rest rb' = 0 \<and> delivered out = d else rc = 413
     | None \<Rightarrow>
         rc = NGX_OK \<and> 0 < rb_rest rb' \<and> content_length_n rb' = int (length (delivered out)) \<and> (mx = 0 \<or> int (length (delivered out)) \<le> mx) \<and>
           (\<forall>more d rest. chunked_body (unread (links calls) @ more) = Some (d, rest) \<longrightarrow> (\<exists>t. d = delivered out @ t)) \<and>
           (viable (unread (links calls)) \<or> ck_state (rb_chunked rb') = sw_chunk_size \<and> MAX64 div 16 < ck_size (rb_chunked rb')) \<or>
         rc = 400 \<and> \<not> viable (unread (links calls)) \<or>
         rc = 413 \<and> mx \<noteq> 0 \<and> oversized mx (unread (links calls)))"
proof -
  let ?xs = "unread (links calls)"
  obtain d v r where run: "limit_run mx 0 (sw_chunk_start, 0) ?xs = (d, v, r)" by (rule prod_cases3)
  note M = verdict_meaning [OF run assms(6)]
  have "on_time (links calls) v r" using M assms(9) by (auto simp: on_time_def)
  then obtain rc rb' out where res: "body_session mx hs calls rb = Some (rc, rb', out)"
      "session_post (rb\<lparr>content_length_n := 0\<rparr>) (snd (snd (last (links calls)))) (d, v, r) (rc, rb', out)"
    using session_start [OF assms(1,2) run _ assms(5-7,4,3,8)] by auto
  show ?thesis
  proof (cases "chunked_body ?xs")
    case (Some y)
    then show ?thesis using verdict_decides [OF run assms(6), of "fst y" "snd y"] res
      by (cases y) (auto simp: session_post_def filter_code_def split: if_splits)
  next
    case None
    show ?thesis
    proof (cases v)
      case (More s)
      then obtain st n where s: "v = More (st, n)" by (cases s) simp
      have big: "\<not> viable ?xs" if "n > MAX64 - 5"
      proof -
        have "size_ok (sw_chunk_start, 0)" by (simp add: size_ok_def MAX64_def)
        then have b: "body_run (sw_chunk_start, 0) ?xs = (d, Inl (st, n), [])" "size_ok (st, n)"
          using limit_run_body [of "(sw_chunk_start, 0)" mx 0, OF _ _ run] more_rest [OF run [unfolded s]] assms(6) s by auto
        then have "st = sw_chunk_size" "MAX64 div 16 < n" using that by (auto simp: size_ok_def MAX64_def)
        then show ?thesis using body_continues [OF b(1)] body_run_big [of n] by (auto simp: viable_def split: prod.splits sum.splits bool.splits)
      qed
      show ?thesis using None res M s big by (auto simp: session_post_def filter_code_def run_state_def)
    next
      case Complete
      then show ?thesis using None M by simp
    next
      case Malformed
      then show ?thesis using None res M by (auto simp: session_post_def filter_code_def)
    next
      case Too_large
      then show ?thesis using None res M by (auto simp: session_post_def filter_code_def)
    qed
  qed
qed

theorem chunked_filter_verdict_witness:
  "\<exists>rb' out. body_session 2 1024 demo_calls
      \<lparr>rb_rest = -1, rb_chunked = \<lparr>ck_state = sw_trailer, ck_size = 7, ck_length = 0\<rparr>, content_length_n = -1\<rparr> = Some (413, rb', out)"
  using chunked_filter_verdict [of demo_calls "\<lparr>rb_rest = -1, rb_chunked = \<lparr>ck_state = sw_trailer, ck_size = 7, ck_length = 0\<rparr>, content_length_n = -1\<rparr>" 1024 2]
    demo_body by (simp add: demo_calls_def MAX64_def)

text \<open>
  C15: the announced length. When \<open>ngx_http_parse_chunked\<close> asks for more input or reports chunk data, \<open>ctx->length\<close>
  is the exact number of bytes the shortest completion of the body still has: no completion is shorter,
  and unless the chunk size is already too large there is one of that length.
\<close>

theorem chunked_length_least:
  assumes "size_ok (ck_state ctx, ck_size ctx)" and "pos \<le> lim" and "lim \<le> length mem"
    and "ngx_http_parse_chunked ctx mem pos lim = Some (rc, ctx', p)" and "rc = NGX_AGAIN \<or> rc = NGX_OK"
  shows "(\<forall>more d rest. body_from (ck_state ctx', ck_size ctx') more = Some (d, rest) \<longrightarrow> ck_length ctx' + int (length rest) \<le> int (length more)) \<and>
    (ck_size ctx' \<le> MAX64 div 16 \<longrightarrow>
      (\<exists>more d. int (length more) = ck_length ctx' \<and> body_from (ck_state ctx', ck_size ctx') more = Some (d, [])))"
proof -
  have c: "size_ok (ck_state ctx', ck_size ctx') \<and> ck_length ctx' = need (ck_state ctx') (ck_size ctx')"
    using parse_body [OF assms(1-3)]
  proof (elim disjE exE conjE)
    fix k n
    assume "ngx_http_parse_chunked ctx mem pos lim = Some (NGX_OK, ctx\<lparr>ck_state := sw_chunk_data, ck_size := n, ck_length := n + 4\<rparr>, pos + k)"
      and n: "0 < n" "n \<le> MAX64 div 16"
    then have "ctx' = ctx\<lparr>ck_state := sw_chunk_data, ck_size := n, ck_length := n + 4\<rparr>" using assms(4) by simp
    then show ?thesis using n by (simp add: need_def size_ok_def MAX64_def)
  qed (use assms(4,5) in simp_all)
  then have from_run: "body_from (ck_state ctx', ck_size ctx') more = Some (d, rest) \<longleftrightarrow>
      body_run (ck_state ctx', ck_size ctx') more = (d, Inr True, rest)" for more d rest
    by (auto simp: body_run_from split: prod.splits sum.splits bool.splits)
  show ?thesis unfolding from_run
    using c need_least [of "(ck_state ctx', ck_size ctx')"] completion_ok [of "ck_state ctx'" "ck_size ctx'"] by auto
qed


theorem chunked_length_least_witness:
  "\<exists>more d. int (length more) = 9 \<and> body_from (sw_chunk_size, 4) more = Some (d, [])"
proof -
  let ?ctx = "\<lparr>ck_state = sw_chunk_start, ck_size = 0, ck_length = 0\<rparr>"
  have "ngx_http_parse_chunked ?ctx [52] 0 1 = Some (NGX_AGAIN, \<lparr>ck_state = sw_chunk_size, ck_size = 4, ck_length = 9\<rparr>, 1)"
    by (simp add: ngx_http_parse_chunked_def mem_read_def chunked_entry_def chunked_step_simps chunk_digit_def chunked_data_def
        chunked_length_def c64_def MAX64_def)
  from chunked_length_least [OF _ _ _ this] show ?thesis by (simp add: size_ok_def MAX64_def)
qed

end
