(* ===== verification/Ngx_Http_Request_Line.thy ===== *)
theory Ngx_Http_Request_Line
  imports Ngx_Scan Endian Ngx_Escape
begin

text \<open>
  \<open>ngx_http_parse_request_line\<close> of \<^verbatim>\<open>src/nginx/src/http/ngx_http_parse.c\<close>, the state machine that takes apart
  the first line of a request. Pointers into the buffer are positions. \<open>le\<close> says which of the two sets of
  comparison macros is compiled in: the one that loads four bytes at a time (\<^verbatim>\<open>NGX_HAVE_LITTLE_ENDIAN\<close> with
  \<^verbatim>\<open>NGX_HAVE_NONALIGNED\<close>) or the one that compares characters. The Windows variants are left out.
\<close>

section \<open>The request\<close>

record ngx_http_request =
  request_start :: ptr
  request_end :: ptr
  method_end :: ptr
  schema_start :: ptr
  schema_end :: ptr
  host_start :: ptr
  host_end :: ptr
  uri_start :: ptr
  uri_end :: ptr
  uri_ext :: ptr
  args_start :: ptr
  http_protocol :: ptr
  http_method :: nat
  http_minor :: nat
  http_major :: nat
  http_version :: nat
  complex_uri :: bool
  quoted_uri :: bool
  plus_in_uri :: bool
  empty_path_in_uri :: bool

datatype rl_error = NGX_HTTP_PARSE_INVALID_METHOD | NGX_HTTP_PARSE_INVALID_REQUEST | NGX_HTTP_PARSE_INVALID_VERSION

definition rl_code :: "rl_error \<Rightarrow> int" where
  "rl_code e = (case e of NGX_HTTP_PARSE_INVALID_METHOD \<Rightarrow> 10 | NGX_HTTP_PARSE_INVALID_REQUEST \<Rightarrow> 11 | NGX_HTTP_PARSE_INVALID_VERSION \<Rightarrow> 12)"

abbreviation (input) NGX_HTTP_PARSE_INVALID_09_METHOD :: int where "NGX_HTTP_PARSE_INVALID_09_METHOD \<equiv> 13"

definition NGX_HTTP_UNKNOWN :: nat where "NGX_HTTP_UNKNOWN = 0x00001"
definition NGX_HTTP_GET :: nat where "NGX_HTTP_GET = 0x00002"
definition NGX_HTTP_HEAD :: nat where "NGX_HTTP_HEAD = 0x00004"
definition NGX_HTTP_POST :: nat where "NGX_HTTP_POST = 0x00008"
definition NGX_HTTP_PUT :: nat where "NGX_HTTP_PUT = 0x00010"
definition NGX_HTTP_DELETE :: nat where "NGX_HTTP_DELETE = 0x00020"
definition NGX_HTTP_MKCOL :: nat where "NGX_HTTP_MKCOL = 0x00040"
definition NGX_HTTP_COPY :: nat where "NGX_HTTP_COPY = 0x00080"
definition NGX_HTTP_MOVE :: nat where "NGX_HTTP_MOVE = 0x00100"
definition NGX_HTTP_OPTIONS :: nat where "NGX_HTTP_OPTIONS = 0x00200"
definition NGX_HTTP_PROPFIND :: nat where "NGX_HTTP_PROPFIND = 0x00400"
definition NGX_HTTP_PROPPATCH :: nat where "NGX_HTTP_PROPPATCH = 0x00800"
definition NGX_HTTP_LOCK :: nat where "NGX_HTTP_LOCK = 0x01000"
definition NGX_HTTP_UNLOCK :: nat where "NGX_HTTP_UNLOCK = 0x02000"
definition NGX_HTTP_PATCH :: nat where "NGX_HTTP_PATCH = 0x04000"
definition NGX_HTTP_TRACE :: nat where "NGX_HTTP_TRACE = 0x08000"
definition NGX_HTTP_CONNECT :: nat where "NGX_HTTP_CONNECT = 0x10000"

section \<open>Comparing methods\<close>

definition both :: "bool option \<Rightarrow> bool option \<Rightarrow> bool option" where
  \<comment> \<open>\<open>&&\<close>\<close>
  "both a b = Option.bind a (\<lambda>x. if x then b else Some False)"

definition word_is :: "bytes \<Rightarrow> nat \<Rightarrow> u8 \<Rightarrow> u8 \<Rightarrow> u8 \<Rightarrow> u8 \<Rightarrow> bool option" where
  \<comment> \<open>\<open>*(uint32_t *) m == ((c3 << 24) | (c2 << 16) | (c1 << 8) | c0)\<close>\<close>
  "word_is mem m c0 c1 c2 c3 = map_option (\<lambda>w. w = le32 c0 c1 c2 c3) (get32 mem m)"

fun chars_are :: "bytes \<Rightarrow> nat \<Rightarrow> (nat \<times> u8) list \<Rightarrow> bool option" where
  \<comment> \<open>\<open>m[i] == c && ...\<close>\<close>
  "chars_are mem m [] = Some True"
| "chars_are mem m ((i, c) # cs) = both (map_option (\<lambda>x. x = c) (arr_get mem (int (m + i)))) (chars_are mem m cs)"

definition ngx_str3_cmp :: "bool \<Rightarrow> bytes \<Rightarrow> nat \<Rightarrow> u8 \<Rightarrow> u8 \<Rightarrow> u8 \<Rightarrow> u8 \<Rightarrow> bool option" where
  "ngx_str3_cmp le mem m c0 c1 c2 c3 =
     (if le then word_is mem m c0 c1 c2 c3 else chars_are mem m [(0, c0), (1, c1), (2, c2)])"

definition ngx_str3Ocmp :: "bool \<Rightarrow> bytes \<Rightarrow> nat \<Rightarrow> u8 \<Rightarrow> u8 \<Rightarrow> u8 \<Rightarrow> u8 \<Rightarrow> bool option" where
  "ngx_str3Ocmp le mem m c0 c1 c2 c3 =
     (if le then word_is mem m c0 c1 c2 c3 else chars_are mem m [(0, c0), (2, c2), (3, c3)])"

definition ngx_str4cmp :: "bool \<Rightarrow> bytes \<Rightarrow> nat \<Rightarrow> u8 \<Rightarrow> u8 \<Rightarrow> u8 \<Rightarrow> u8 \<Rightarrow> bool option" where
  "ngx_str4cmp le mem m c0 c1 c2 c3 =
     (if le then word_is mem m c0 c1 c2 c3 else chars_are mem m [(0, c0), (1, c1), (2, c2), (3, c3)])"

definition ngx_str5cmp :: "bool \<Rightarrow> bytes \<Rightarrow> nat \<Rightarrow> u8 \<Rightarrow> u8 \<Rightarrow> u8 \<Rightarrow> u8 \<Rightarrow> u8 \<Rightarrow> bool option" where
  "ngx_str5cmp le mem m c0 c1 c2 c3 c4 =
     (if le then both (word_is mem m c0 c1 c2 c3) (chars_are mem m [(4, c4)])
      else chars_are mem m [(0, c0), (1, c1), (2, c2), (3, c3), (4, c4)])"

definition ngx_str6cmp :: "bool \<Rightarrow> bytes \<Rightarrow> nat \<Rightarrow> u8 \<Rightarrow> u8 \<Rightarrow> u8 \<Rightarrow> u8 \<Rightarrow> u8 \<Rightarrow> u8 \<Rightarrow> bool option" where
  \<comment> \<open>the second word is loaded as a whole and masked\<close>
  "ngx_str6cmp le mem m c0 c1 c2 c3 c4 c5 =
     (if le then both (word_is mem m c0 c1 c2 c3) (map_option (\<lambda>w. w AND 0xffff = le32 c4 c5 0 0) (get32 mem (m + 4)))
      else chars_are mem m [(0, c0), (1, c1), (2, c2), (3, c3), (4, c4), (5, c5)])"

definition ngx_str7_cmp :: "bool \<Rightarrow> bytes \<Rightarrow> nat \<Rightarrow> u8 \<Rightarrow> u8 \<Rightarrow> u8 \<Rightarrow> u8 \<Rightarrow> u8 \<Rightarrow> u8 \<Rightarrow> u8 \<Rightarrow> u8 \<Rightarrow> bool option" where
  "ngx_str7_cmp le mem m c0 c1 c2 c3 c4 c5 c6 c7 =
     (if le then both (word_is mem m c0 c1 c2 c3) (word_is mem (m + 4) c4 c5 c6 c7)
      else chars_are mem m [(0, c0), (1, c1), (2, c2), (3, c3), (4, c4), (5, c5), (6, c6)])"

definition ngx_str8cmp :: "bool \<Rightarrow> bytes \<Rightarrow> nat \<Rightarrow> u8 \<Rightarrow> u8 \<Rightarrow> u8 \<Rightarrow> u8 \<Rightarrow> u8 \<Rightarrow> u8 \<Rightarrow> u8 \<Rightarrow> u8 \<Rightarrow> bool option" where
  "ngx_str8cmp le mem m c0 c1 c2 c3 c4 c5 c6 c7 =
     (if le then both (word_is mem m c0 c1 c2 c3) (word_is mem (m + 4) c4 c5 c6 c7)
      else chars_are mem m [(0, c0), (1, c1), (2, c2), (3, c3), (4, c4), (5, c5), (6, c6), (7, c7)])"

definition ngx_str9cmp :: "bool \<Rightarrow> bytes \<Rightarrow> nat \<Rightarrow> u8 \<Rightarrow> u8 \<Rightarrow> u8 \<Rightarrow> u8 \<Rightarrow> u8 \<Rightarrow> u8 \<Rightarrow> u8 \<Rightarrow> u8 \<Rightarrow> u8 \<Rightarrow> bool option" where
  "ngx_str9cmp le mem m c0 c1 c2 c3 c4 c5 c6 c7 c8 =
     (if le then both (word_is mem m c0 c1 c2 c3) (both (word_is mem (m + 4) c4 c5 c6 c7) (chars_are mem m [(8, c8)]))
      else chars_are mem m [(0, c0), (1, c1), (2, c2), (3, c3), (4, c4), (5, c5), (6, c6), (7, c7), (8, c8)])"

fun first_match :: "(bool option \<times> nat) list \<Rightarrow> nat \<Rightarrow> nat option" where
  \<comment> \<open>\<open>if (...) { r->method = v; break; }\<close> in a row\<close>
  "first_match [] meth = Some meth"
| "first_match ((c, v) # cs) meth = Option.bind c (\<lambda>b. if b then Some v else first_match cs meth)"

definition request_method :: "bool \<Rightarrow> bytes \<Rightarrow> nat \<Rightarrow> nat \<Rightarrow> nat \<Rightarrow> nat option" where
  \<comment> \<open>\<open>switch (p - m)\<close>; the method of \<open>len\<close> characters at \<open>m\<close>, or the old value\<close>
  "request_method le mem m len meth =
     (if len = 3 then
        first_match [(ngx_str3_cmp le mem m 71 69 84 32, NGX_HTTP_GET), (ngx_str3_cmp le mem m 80 85 84 32, NGX_HTTP_PUT)] meth
      else if len = 4 then
        Option.bind (arr_get mem (int (m + 1))) (\<lambda>c.
          if c = 79 then
            first_match [(ngx_str3Ocmp le mem m 80 79 83 84, NGX_HTTP_POST), (ngx_str3Ocmp le mem m 67 79 80 89, NGX_HTTP_COPY),
              (ngx_str3Ocmp le mem m 77 79 86 69, NGX_HTTP_MOVE), (ngx_str3Ocmp le mem m 76 79 67 75, NGX_HTTP_LOCK)] meth
          else first_match [(ngx_str4cmp le mem m 72 69 65 68, NGX_HTTP_HEAD)] meth)
      else if len = 5 then
        first_match [(ngx_str5cmp le mem m 77 75 67 79 76, NGX_HTTP_MKCOL), (ngx_str5cmp le mem m 80 65 84 67 72, NGX_HTTP_PATCH),
          (ngx_str5cmp le mem m 84 82 65 67 69, NGX_HTTP_TRACE)] meth
      else if len = 6 then
        first_match [(ngx_str6cmp le mem m 68 69 76 69 84 69, NGX_HTTP_DELETE), (ngx_str6cmp le mem m 85 78 76 79 67 75, NGX_HTTP_UNLOCK)] meth
      else if len = 7 then
        Option.bind (first_match [(ngx_str7_cmp le mem m 79 80 84 73 79 78 83 32, NGX_HTTP_OPTIONS)] meth)
          (first_match [(ngx_str7_cmp le mem m 67 79 78 78 69 67 84 32, NGX_HTTP_CONNECT)])
      else if len = 8 then
        first_match [(ngx_str8cmp le mem m 80 82 79 80 70 73 78 68, NGX_HTTP_PROPFIND)] meth
      else if len = 9 then
        first_match [(ngx_str9cmp le mem m 80 82 79 80 80 65 84 67 72, NGX_HTTP_PROPPATCH)] meth
      else Some meth)"

section \<open>The state machine\<close>

datatype rl_state = sw_start | sw_method | sw_spaces_before_uri | sw_schema | sw_schema_slash | sw_schema_slash_slash
  | sw_host_start | sw_host | sw_host_end | sw_host_ip_literal | sw_port | sw_after_slash_in_uri | sw_check_uri | sw_uri
  | sw_http_09 | sw_http_H | sw_http_HT | sw_http_HTT | sw_http_HTTP | sw_first_major_digit | sw_major_digit
  | sw_first_minor_digit | sw_minor_digit | sw_spaces_after_digit | sw_almost_done

datatype rl_exit = Finished ngx_http_request | Rejected rl_error ngx_http_request

type_synonym rl_result = "((rl_state \<times> ngx_http_request) + rl_exit) option"

definition goto :: "rl_state \<Rightarrow> ngx_http_request \<Rightarrow> rl_result" where "goto st r = Some (Inl (st, r))"
definition finish_line :: "ngx_http_request \<Rightarrow> rl_result" where "finish_line r = Some (Inr (Finished r))"
definition reject :: "rl_error \<Rightarrow> ngx_http_request \<Rightarrow> rl_result" where "reject e r = Some (Inr (Rejected e r))"

definition is_alpha :: "u8 \<Rightarrow> bool" where
  \<comment> \<open>\<open>c = ch | 0x20; c >= 'a' && c <= 'z'\<close>\<close>
  "is_alpha ch = (97 \<le> (ch OR 0x20) \<and> (ch OR 0x20) \<le> 122)"

definition is_digit :: "u8 \<Rightarrow> bool" where
  "is_digit ch = (48 \<le> ch \<and> ch \<le> 57)"

definition method_char :: "u8 \<Rightarrow> bool" where
  "method_char ch = (\<not> ((ch < 65 \<or> ch > 90) \<and> ch \<noteq> 95 \<and> ch \<noteq> 45))"

definition usual :: "u32 list" where
  "usual = [0x00000000, 0x7fff37d6, 0xffffffff, 0x7fffffff, 0xffffffff, 0xffffffff, 0xffffffff, 0xffffffff]"

definition is_usual :: "u8 \<Rightarrow> bool option" where
  \<comment> \<open>\<open>usual[ch >> 5] & (1U << (ch & 0x1f))\<close>\<close>
  "is_usual ch = do {
     w \<leftarrow> arr_get usual (uint (drop_bit 5 ch));
     Some (w AND push_bit (unat (ch AND 0x1f)) 1 \<noteq> 0)
   }"

definition rl_method_step :: "bool \<Rightarrow> bytes \<Rightarrow> rl_state \<Rightarrow> nat \<Rightarrow> u8 \<Rightarrow> ngx_http_request \<Rightarrow> rl_result" where
  "rl_method_step le mem state p ch r =
     (if state = sw_start then
        (let r = r\<lparr>request_start := Some p\<rparr> in
         if ch = CR \<or> ch = LF then goto sw_start r
         else if \<not> method_char ch then reject NGX_HTTP_PARSE_INVALID_METHOD r
         else goto sw_method r)
      else \<comment> \<open>\<open>sw_method\<close>\<close>
        if ch = 32 then
          (case request_start r of
             None \<Rightarrow> None
           | Some m \<Rightarrow> Option.bind (request_method le mem m (p - m) (http_method r))
               (\<lambda>meth. goto sw_spaces_before_uri (r\<lparr>method_end := Some (p - 1), http_method := meth\<rparr>)))
        else if \<not> method_char ch then reject NGX_HTTP_PARSE_INVALID_METHOD r
        else goto sw_method r)"

definition rl_schema_step :: "rl_state \<Rightarrow> nat \<Rightarrow> u8 \<Rightarrow> ngx_http_request \<Rightarrow> rl_result" where
  "rl_schema_step state p ch r =
     (let invalid = reject NGX_HTTP_PARSE_INVALID_REQUEST r in
      case state of
        sw_spaces_before_uri \<Rightarrow>
          if ch = 47 then goto sw_after_slash_in_uri (r\<lparr>uri_start := Some p\<rparr>)
          else if is_alpha ch then goto sw_schema (r\<lparr>schema_start := Some p\<rparr>)
          else if ch = 32 then goto state r
          else invalid
      | sw_schema \<Rightarrow>
          if is_alpha ch then goto state r
          else if is_digit ch \<or> ch = 43 \<or> ch = 45 \<or> ch = 46 then goto state r
          else if ch = 58 then goto sw_schema_slash (r\<lparr>schema_end := Some p\<rparr>)
          else invalid
      | sw_schema_slash \<Rightarrow> if ch = 47 then goto sw_schema_slash_slash r else invalid
      | _ \<Rightarrow> \<comment> \<open>\<open>sw_schema_slash_slash\<close>\<close> if ch = 47 then goto sw_host_start r else invalid)"

definition rl_empty_path :: "nat \<Rightarrow> ngx_http_request \<Rightarrow> rl_result" where
  \<comment> \<open>the cases \<open>'?'\<close> after a host or port\<close>
  "rl_empty_path p r = goto sw_uri (r\<lparr>uri_start := Some p, args_start := Some (p + 1), empty_path_in_uri := True\<rparr>)"

definition rl_no_path :: "ngx_http_request \<Rightarrow> rl_result" where
  \<comment> \<open>the cases \<open>' '\<close> after a host or port: the URI is the slash behind the schema\<close>
  "rl_no_path r = goto sw_http_09 (r\<lparr>uri_start := map_option (\<lambda>e. e + 1) (schema_end r), uri_end := map_option (\<lambda>e. e + 2) (schema_end r)\<rparr>)"

definition rl_host_end :: "nat \<Rightarrow> u8 \<Rightarrow> ngx_http_request \<Rightarrow> rl_result" where
  \<comment> \<open>\<open>sw_host_end\<close>, also reached by falling through\<close>
  "rl_host_end p ch r =
     (let r = r\<lparr>host_end := Some p\<rparr> in
      if ch = 58 then goto sw_port r
      else if ch = 47 then goto sw_after_slash_in_uri (r\<lparr>uri_start := Some p\<rparr>)
      else if ch = 63 then rl_empty_path p r
      else if ch = 32 then rl_no_path r
      else reject NGX_HTTP_PARSE_INVALID_REQUEST r)"

definition rl_host :: "nat \<Rightarrow> u8 \<Rightarrow> ngx_http_request \<Rightarrow> rl_result" where
  \<comment> \<open>\<open>sw_host\<close>, also reached by falling through\<close>
  "rl_host p ch r =
     (if is_alpha ch then goto sw_host r
      else if is_digit ch \<or> ch = 46 \<or> ch = 45 then goto sw_host r
      else rl_host_end p ch r)"

definition rl_host_step :: "rl_state \<Rightarrow> nat \<Rightarrow> u8 \<Rightarrow> ngx_http_request \<Rightarrow> rl_result" where
  "rl_host_step state p ch r =
     (case state of
        sw_host_start \<Rightarrow>
          (let r = r\<lparr>host_start := Some p\<rparr> in if ch = 91 then goto sw_host_ip_literal r else rl_host p ch r)
      | sw_host \<Rightarrow> rl_host p ch r
      | sw_host_end \<Rightarrow> rl_host_end p ch r
      | sw_host_ip_literal \<Rightarrow>
          if is_digit ch then goto state r
          else if is_alpha ch then goto state r
          else if ch = 58 then goto state r
          else if ch = 93 then goto sw_host_end r
          else if ch \<in> {45, 46, 95, 126} then goto state r
          else if ch \<in> {33, 36, 38, 39, 40, 41, 42, 43, 44, 59, 61} then goto state r
          else reject NGX_HTTP_PARSE_INVALID_REQUEST r
      | _ \<Rightarrow> \<comment> \<open>\<open>sw_port\<close>\<close>
          if is_digit ch then goto state r
          else if ch = 47 then goto sw_after_slash_in_uri (r\<lparr>uri_start := Some p\<rparr>)
          else if ch = 63 then rl_empty_path p r
          else if ch = 32 then rl_no_path r
          else reject NGX_HTTP_PARSE_INVALID_REQUEST r)"

definition rl_uri_end :: "nat \<Rightarrow> u8 \<Rightarrow> ngx_http_request \<Rightarrow> rl_result option" where
  \<comment> \<open>the cases \<open>' '\<close>, CR and LF that end a URI\<close>
  "rl_uri_end p ch r =
     (if ch = 32 then Some (goto sw_http_09 (r\<lparr>uri_end := Some p\<rparr>))
      else if ch = CR then Some (goto sw_almost_done (r\<lparr>uri_end := Some p, http_minor := 9\<rparr>))
      else if ch = LF then Some (finish_line (r\<lparr>uri_end := Some p, http_minor := 9\<rparr>))
      else None)"

definition rl_uri_step :: "rl_state \<Rightarrow> nat \<Rightarrow> u8 \<Rightarrow> ngx_http_request \<Rightarrow> rl_result" where
  "rl_uri_step state p ch r = Option.bind (is_usual ch) (\<lambda>plain.
     if plain then goto (if state = sw_after_slash_in_uri then sw_check_uri else state) r
     else case rl_uri_end p ch r of
       Some res \<Rightarrow> res
     | None \<Rightarrow>
       (case state of
          sw_after_slash_in_uri \<Rightarrow>
            if ch = 46 then goto sw_uri (r\<lparr>complex_uri := True\<rparr>)
            else if ch = 37 then goto sw_uri (r\<lparr>quoted_uri := True\<rparr>)
            else if ch = 47 then goto sw_uri (r\<lparr>complex_uri := True\<rparr>)
            else if ch = 63 then goto sw_uri (r\<lparr>args_start := Some (p + 1)\<rparr>)
            else if ch = 35 then goto sw_uri (r\<lparr>complex_uri := True\<rparr>)
            else if ch = 43 then goto sw_after_slash_in_uri (r\<lparr>plus_in_uri := True\<rparr>)
            else if ch < 0x20 \<or> ch = 0x7f then reject NGX_HTTP_PARSE_INVALID_REQUEST r
            else goto sw_check_uri r
        | sw_check_uri \<Rightarrow>
            if ch = 47 then goto sw_after_slash_in_uri (r\<lparr>uri_ext := NULL\<rparr>)
            else if ch = 46 then goto sw_check_uri (r\<lparr>uri_ext := Some (p + 1)\<rparr>)
            else if ch = 37 then goto sw_uri (r\<lparr>quoted_uri := True\<rparr>)
            else if ch = 63 then goto sw_uri (r\<lparr>args_start := Some (p + 1)\<rparr>)
            else if ch = 35 then goto sw_uri (r\<lparr>complex_uri := True\<rparr>)
            else if ch = 43 then goto sw_check_uri (r\<lparr>plus_in_uri := True\<rparr>)
            else if ch < 0x20 \<or> ch = 0x7f then reject NGX_HTTP_PARSE_INVALID_REQUEST r
            else goto sw_check_uri r
        | _ \<Rightarrow> \<comment> \<open>\<open>sw_uri\<close>\<close>
            if ch = 35 then goto sw_uri (r\<lparr>complex_uri := True\<rparr>)
            else if ch < 0x20 \<or> ch = 0x7f then reject NGX_HTTP_PARSE_INVALID_REQUEST r
            else goto sw_uri r))"

definition bits16 :: "nat \<Rightarrow> nat" where
  \<comment> \<open>storing into a bit field of 16 bits\<close>
  "bits16 n = n mod 2 ^ 16"

definition rl_version_step :: "rl_state \<Rightarrow> nat \<Rightarrow> u8 \<Rightarrow> ngx_http_request \<Rightarrow> rl_result" where
  "rl_version_step state p ch r =
     (let invalid = reject NGX_HTTP_PARSE_INVALID_REQUEST r; digit = unat (ch - 48) in
      case state of
        sw_http_09 \<Rightarrow>
          if ch = 32 then goto state r
          else if ch = CR then goto sw_almost_done (r\<lparr>http_minor := 9\<rparr>)
          else if ch = LF then finish_line (r\<lparr>http_minor := 9\<rparr>)
          else if ch = 72 then goto sw_http_H (r\<lparr>http_protocol := Some p\<rparr>)
          else invalid
      | sw_http_H \<Rightarrow> if ch = 84 then goto sw_http_HT r else invalid
      | sw_http_HT \<Rightarrow> if ch = 84 then goto sw_http_HTT r else invalid
      | sw_http_HTT \<Rightarrow> if ch = 80 then goto sw_http_HTTP r else invalid
      | sw_http_HTTP \<Rightarrow> if ch = 47 then goto sw_first_major_digit r else invalid
      | sw_first_major_digit \<Rightarrow>
          if ch < 49 \<or> ch > 57 then invalid
          else (let r = r\<lparr>http_major := digit\<rparr> in
            if http_major r > 1 then reject NGX_HTTP_PARSE_INVALID_VERSION r else goto sw_major_digit r)
      | sw_major_digit \<Rightarrow>
          if ch = 46 then goto sw_first_minor_digit r
          else if ch < 48 \<or> ch > 57 then invalid
          else (let r = r\<lparr>http_major := bits16 (http_major r * 10 + digit)\<rparr> in
            if http_major r > 1 then reject NGX_HTTP_PARSE_INVALID_VERSION r else goto sw_major_digit r)
      | sw_first_minor_digit \<Rightarrow>
          if ch < 48 \<or> ch > 57 then invalid else goto sw_minor_digit (r\<lparr>http_minor := digit\<rparr>)
      | sw_minor_digit \<Rightarrow>
          if ch = CR then goto sw_almost_done r
          else if ch = LF then finish_line r
          else if ch = 32 then goto sw_spaces_after_digit r
          else if ch < 48 \<or> ch > 57 then invalid
          else if http_minor r > 99 then invalid
          else goto sw_minor_digit (r\<lparr>http_minor := bits16 (http_minor r * 10 + digit)\<rparr>)
      | sw_spaces_after_digit \<Rightarrow>
          if ch = 32 then goto state r
          else if ch = CR then goto sw_almost_done r
          else if ch = LF then finish_line r
          else invalid
      | _ \<Rightarrow> \<comment> \<open>\<open>sw_almost_done\<close>\<close>
          (let r = r\<lparr>request_end := Some (p - 1)\<rparr> in
           if ch = LF then finish_line r else reject NGX_HTTP_PARSE_INVALID_REQUEST r))"

definition rl_step :: "bool \<Rightarrow> bytes \<Rightarrow> nat \<Rightarrow> u8 \<Rightarrow> rl_state \<times> ngx_http_request \<Rightarrow> rl_result" where
  \<comment> \<open>the body of the loop\<close>
  "rl_step le mem p ch = (\<lambda>(state, r).
     if state \<in> {sw_start, sw_method} then rl_method_step le mem state p ch r
     else if state \<in> {sw_spaces_before_uri, sw_schema, sw_schema_slash, sw_schema_slash_slash} then rl_schema_step state p ch r
     else if state \<in> {sw_host_start, sw_host, sw_host_end, sw_host_ip_literal, sw_port} then rl_host_step state p ch r
     else if state \<in> {sw_after_slash_in_uri, sw_check_uri, sw_uri} then rl_uri_step state p ch r
     else rl_version_step state p ch r)"

definition rl_finish :: "rl_state \<times> ngx_http_request \<Rightarrow> rl_exit \<Rightarrow> nat \<Rightarrow> nat \<Rightarrow> int \<times> (rl_state \<times> ngx_http_request) \<times> nat" where
  \<comment> \<open>from the label \<open>done\<close> to the return, or an early return, which leaves \<open>r->state\<close> and \<open>b->pos\<close> as they were\<close>
  "rl_finish entry x p pos =
     (case x of
        Finished r \<Rightarrow>
          (let r = (if request_end r = NULL then r\<lparr>request_end := Some p\<rparr> else r);
               r = r\<lparr>http_version := http_major r * 1000 + http_minor r\<rparr> in
           (if http_version r = 9 \<and> http_method r \<noteq> NGX_HTTP_GET then NGX_HTTP_PARSE_INVALID_09_METHOD else NGX_OK,
            (sw_start, r), p + 1))
      | Rejected e r \<Rightarrow> (rl_code e, (fst entry, r), pos))"

definition ngx_http_parse_request_line :: "bool \<Rightarrow> bytes \<Rightarrow> rl_state \<times> ngx_http_request \<Rightarrow> nat \<Rightarrow> nat
    \<Rightarrow> (int \<times> (rl_state \<times> ngx_http_request) \<times> nat) option" where
  \<comment> \<open>\<open>r->state\<close> is kept beside the request, because every parser reads it as an enumeration of its own\<close>
  "ngx_http_parse_request_line le mem r pos lim = do {
     xs \<leftarrow> mem_read mem (int pos) (lim - pos);
     (p, v) \<leftarrow> scan (rl_step le mem) pos xs r;
     (case v of Inl s \<Rightarrow> Some (NGX_AGAIN, s, p) | Inr x \<Rightarrow> Some (rl_finish r x p pos))
   }"

section \<open>The comparisons\<close>

lemma le32_inject: "le32 a b c d = le32 a' b' c' d' \<longleftrightarrow> a = a' \<and> b = b' \<and> c = c' \<and> d = d'"
proof
  assume eq: "le32 a b c d = le32 a' b' c' d'"
  have undo: "ucast (ucast x :: u32) = x" for x :: u8 by (rule bit_word_eqI) (simp add: bit_simps)
  have inj: "(ucast x :: u32) = ucast y \<Longrightarrow> x = y" for x y :: u8 by (metis undo)
  have "(ucast a :: u32) = ucast a'" "(ucast b :: u32) = ucast b'" "(ucast c :: u32) = ucast c'" "(ucast d :: u32) = ucast d'"
    using eq by (metis le32_take(1), metis le32_take(2), metis le32_take(3), metis le32_take(4))
  then show "a = a' \<and> b = b' \<and> c = c' \<and> d = d'" by (blast intro: inj)
qed simp

lemma le32_low: "le32 a b c d AND 0xffff = le32 a b 0 0" "0xffff AND le32 a b c d = le32 a b 0 0"
proof -
  show low: "le32 a b c d AND 0xffff = le32 a b 0 0"
  proof (rule bit_word_eqI)
    fix n assume "n < LENGTH(32)"
    have m: "(0xffff :: u32) = mask 16" by (simp add: mask_eq_exp_minus_1)
    show "bit (le32 a b c d AND 0xffff) n = bit (le32 a b 0 0) n"
      unfolding m by (auto simp: le32_def bit_simps dest: bit_imp_le_length)
  qed
  then show "0xffff AND le32 a b c d = le32 a b 0 0" by (simp only: and.commute)
qed

lemma get32_cases: "get32 mem m = (if m + 4 \<le> length mem then Some (le32 (mem ! m) (mem ! (m + 1)) (mem ! (m + 2)) (mem ! (m + 3))) else None)"
  by (simp add: get32_ok) (simp add: get32_def mem_read_def)

lemma word_is_cases: "word_is mem m c0 c1 c2 c3 =
    (if m + 4 \<le> length mem then Some (mem ! m = c0 \<and> mem ! (m + 1) = c1 \<and> mem ! (m + 2) = c2 \<and> mem ! (m + 3) = c3) else None)"
  by (simp add: word_is_def get32_cases le32_inject)

lemma both_Some: "both (Some x) b = (if x then b else Some False)"
  by (simp add: both_def)

lemma chars_are_ok: "\<forall>(i, c)\<in>set cs. m + i < length mem \<Longrightarrow> chars_are mem m cs = Some (\<forall>(i, c)\<in>set cs. mem ! (m + i) = c)"
  by (induction cs) (auto simp: both_def arr_get_nat simp del: of_nat_add)

declare chars_are.simps [simp del]

lemma str_cmp:
  "m + 3 < length mem \<Longrightarrow> mem ! (m + 3) = c3 \<Longrightarrow> ngx_str3_cmp le mem m c0 c1 c2 c3 = Some (mem ! m = c0 \<and> mem ! (m + 1) = c1 \<and> mem ! (m + 2) = c2)"
  "m + 3 < length mem \<Longrightarrow> mem ! (m + 1) = c1 \<Longrightarrow> ngx_str3Ocmp le mem m c0 c1 c2 c3 = Some (mem ! m = c0 \<and> mem ! (m + 2) = c2 \<and> mem ! (m + 3) = c3)"
  "m + 3 < length mem \<Longrightarrow> ngx_str4cmp le mem m c0 c1 c2 c3 = Some (mem ! m = c0 \<and> mem ! (m + 1) = c1 \<and> mem ! (m + 2) = c2 \<and> mem ! (m + 3) = c3)"
  "m + 4 < length mem \<Longrightarrow> ngx_str5cmp le mem m c0 c1 c2 c3 c4 =
     Some (mem ! m = c0 \<and> mem ! (m + 1) = c1 \<and> mem ! (m + 2) = c2 \<and> mem ! (m + 3) = c3 \<and> mem ! (m + 4) = c4)"
  "m + 5 < length mem \<Longrightarrow> (le \<Longrightarrow> m + 8 \<le> length mem) \<Longrightarrow> ngx_str6cmp le mem m c0 c1 c2 c3 c4 c5 =
     Some (mem ! m = c0 \<and> mem ! (m + 1) = c1 \<and> mem ! (m + 2) = c2 \<and> mem ! (m + 3) = c3 \<and> mem ! (m + 4) = c4 \<and> mem ! (m + 5) = c5)"
  "m + 7 < length mem \<Longrightarrow> mem ! (m + 7) = c7 \<Longrightarrow> ngx_str7_cmp le mem m c0 c1 c2 c3 c4 c5 c6 c7 =
     Some (mem ! m = c0 \<and> mem ! (m + 1) = c1 \<and> mem ! (m + 2) = c2 \<and> mem ! (m + 3) = c3 \<and> mem ! (m + 4) = c4 \<and> mem ! (m + 5) = c5 \<and>
       mem ! (m + 6) = c6)"
  "m + 7 < length mem \<Longrightarrow> ngx_str8cmp le mem m c0 c1 c2 c3 c4 c5 c6 c7 =
     Some (mem ! m = c0 \<and> mem ! (m + 1) = c1 \<and> mem ! (m + 2) = c2 \<and> mem ! (m + 3) = c3 \<and> mem ! (m + 4) = c4 \<and> mem ! (m + 5) = c5 \<and>
       mem ! (m + 6) = c6 \<and> mem ! (m + 7) = c7)"
  "m + 8 < length mem \<Longrightarrow> ngx_str9cmp le mem m c0 c1 c2 c3 c4 c5 c6 c7 c8 =
     Some (mem ! m = c0 \<and> mem ! (m + 1) = c1 \<and> mem ! (m + 2) = c2 \<and> mem ! (m + 3) = c3 \<and> mem ! (m + 4) = c4 \<and> mem ! (m + 5) = c5 \<and>
       mem ! (m + 6) = c6 \<and> mem ! (m + 7) = c7 \<and> mem ! (m + 8) = c8)"
  by (auto simp: ngx_str3_cmp_def ngx_str3Ocmp_def ngx_str4cmp_def ngx_str5cmp_def ngx_str6cmp_def ngx_str7_cmp_def ngx_str8cmp_def
      ngx_str9cmp_def word_is_cases chars_are_ok both_def get32_cases le32_low le32_inject ac_simps)

lemma bind_first: "first_match ((Some b, v) # cs) d = (if b then Some v else first_match cs d)"
  by simp

definition methods :: "(bytes \<times> nat) list" where
  "methods = [([71, 69, 84], NGX_HTTP_GET), ([72, 69, 65, 68], NGX_HTTP_HEAD), ([80, 79, 83, 84], NGX_HTTP_POST), ([80, 85, 84], NGX_HTTP_PUT),
     ([68, 69, 76, 69, 84, 69], NGX_HTTP_DELETE), ([77, 75, 67, 79, 76], NGX_HTTP_MKCOL), ([67, 79, 80, 89], NGX_HTTP_COPY),
     ([77, 79, 86, 69], NGX_HTTP_MOVE), ([79, 80, 84, 73, 79, 78, 83], NGX_HTTP_OPTIONS), ([80, 82, 79, 80, 70, 73, 78, 68], NGX_HTTP_PROPFIND),
     ([80, 82, 79, 80, 80, 65, 84, 67, 72], NGX_HTTP_PROPPATCH), ([76, 79, 67, 75], NGX_HTTP_LOCK), ([85, 78, 76, 79, 67, 75], NGX_HTTP_UNLOCK),
     ([80, 65, 84, 67, 72], NGX_HTTP_PATCH), ([84, 82, 65, 67, 69], NGX_HTTP_TRACE), ([67, 79, 78, 78, 69, 67, 84], NGX_HTTP_CONNECT)]"

definition method_code :: "bytes \<Rightarrow> nat \<Rightarrow> nat" where
  \<comment> \<open>the code of a method name, or the default\<close>
  "method_code name d = (case map_of methods name of Some v \<Rightarrow> v | None \<Rightarrow> d)"

lemma method_lengths: "map_of methods name \<noteq> None \<Longrightarrow> length name \<in> {3, 4, 5, 6, 7, 8, 9}"
  by (auto simp: methods_def split: if_splits)

lemma small_upts:
  "[0..<3] = [0, 1, 2 :: nat]" "[0..<4] = [0, 1, 2, 3 :: nat]" "[0..<5] = [0, 1, 2, 3, 4 :: nat]" "[0..<6] = [0, 1, 2, 3, 4, 5 :: nat]"
  "[0..<7] = [0, 1, 2, 3, 4, 5, 6 :: nat]" "[0..<8] = [0, 1, 2, 3, 4, 5, 6, 7 :: nat]" "[0..<9] = [0, 1, 2, 3, 4, 5, 6, 7, 8 :: nat]"
  by (simp_all add: eval_nat_numeral)

lemma request_method_ok:
  assumes m: "m + len < length mem" "mem ! (m + len) = 32" and le: "le \<Longrightarrow> len = 6 \<Longrightarrow> m + 8 \<le> length mem"
  shows "request_method le mem m len d = Some (method_code (take len (drop m mem)) d)"
proof -
  let ?t = "take len (drop m mem)"
  have t: "?t = map (\<lambda>i. mem ! (m + i)) [0..<len]" using m(1) by (intro nth_equalityI) auto
  have O: "mem ! (m + 1) = 79 \<Longrightarrow> first_match [(ngx_str3Ocmp le mem m 80 79 83 84, v1), (ngx_str3Ocmp le mem m 67 79 80 89, v2),
      (ngx_str3Ocmp le mem m 77 79 86 69, v3), (ngx_str3Ocmp le mem m 76 79 67 75, v4)] d =
      Some (if mem ! m = 80 \<and> mem ! (m + 2) = 83 \<and> mem ! (m + 3) = 84 then v1 else if mem ! m = 67 \<and> mem ! (m + 2) = 80 \<and> mem ! (m + 3) = 89 then v2
        else if mem ! m = 77 \<and> mem ! (m + 2) = 86 \<and> mem ! (m + 3) = 69 then v3 else if mem ! m = 76 \<and> mem ! (m + 2) = 67 \<and> mem ! (m + 3) = 75 then v4 else d)"
    if "len = 4" for v1 v2 v3 v4 using m that by (simp only: str_cmp bind_first first_match.simps(1) if_distrib [of Some])
  consider "len = 3" | "len = 4" | "len = 5" | "len = 6" | "len = 7" | "len = 8" | "len = 9" | "len \<notin> {3, 4, 5, 6, 7, 8, 9}" by auto
  then show ?thesis
  proof cases
    case 1
    then show ?thesis unfolding request_method_def method_code_def t methods_def using m by (simp add: small_upts str_cmp)
  next
    case 2
    then have "arr_get mem (int (m + 1)) = Some (mem ! (m + 1))" using m(1) by (intro arr_get_nat) simp
    then show ?thesis unfolding request_method_def method_code_def t methods_def using m 2 O
      by (simp add: small_upts str_cmp del: of_nat_add)
  next
    case 3
    then show ?thesis unfolding request_method_def method_code_def t methods_def using m by (simp add: small_upts str_cmp)
  next
    case 4
    then show ?thesis unfolding request_method_def method_code_def t methods_def using m le by (simp add: small_upts str_cmp)
  next
    case 5
    then show ?thesis unfolding request_method_def method_code_def t methods_def using m by (simp add: small_upts str_cmp)
  next
    case 6
    then show ?thesis unfolding request_method_def method_code_def t methods_def using m by (simp add: small_upts str_cmp)
  next
    case 7
    then show ?thesis unfolding request_method_def method_code_def t methods_def using m by (simp add: small_upts str_cmp)
  next
    case 8
    have "length ?t = len" using m(1) by simp
    then have "map_of methods ?t = None" using 8 method_lengths [of ?t] by (cases "map_of methods ?t") auto
    then show ?thesis using 8 by (simp add: request_method_def method_code_def)
  qed
qed

lemma request_method_local:
  assumes len: "length mem = length mem'" and same: "take (Suc p) mem = take (Suc p) mem'" and p: "p < length mem"
  shows "request_method le mem m (p - m) d = request_method le mem' m (p - m) d"
proof -
  have at: "mem ! i = mem' ! i" if "i \<le> p" for i using same that by (metis le_imp_less_Suc nth_take)
  have word: "m + k + 3 \<le> p \<Longrightarrow> word_is mem (m + k) c0 c1 c2 c3 = word_is mem' (m + k) c0 c1 c2 c3"
      "m + 3 \<le> p \<Longrightarrow> word_is mem m c0 c1 c2 c3 = word_is mem' m c0 c1 c2 c3" for k c0 c1 c2 c3
    by (simp_all add: word_is_cases len at)
  have half: "m + 5 \<le> p \<Longrightarrow> map_option (\<lambda>w. w AND 0xffff = le32 c4 c5 0 0) (get32 mem (m + 4)) =
      map_option (\<lambda>w. w AND 0xffff = le32 c4 c5 0 0) (get32 mem' (m + 4))" for c4 c5
    by (simp add: get32_cases le32_low le32_inject len at)
  have get: "m + k \<le> p \<Longrightarrow> arr_get mem (int (m + k)) = arr_get mem' (int (m + k))" for k
    using at [of "m + k"] p by (simp add: arr_get_nat len del: of_nat_add)
  have chars: "\<forall>(i, c)\<in>set cs. m + i \<le> p \<Longrightarrow> chars_are mem m cs = chars_are mem' m cs" for cs
    by (induction cs) (auto simp: chars_are.simps get simp del: of_nat_add)
  have cmp: "m + 3 \<le> p \<Longrightarrow> ngx_str3_cmp le mem m c0 c1 c2 c3 = ngx_str3_cmp le mem' m c0 c1 c2 c3"
    "m + 3 \<le> p \<Longrightarrow> ngx_str3Ocmp le mem m c0 c1 c2 c3 = ngx_str3Ocmp le mem' m c0 c1 c2 c3"
    "m + 3 \<le> p \<Longrightarrow> ngx_str4cmp le mem m c0 c1 c2 c3 = ngx_str4cmp le mem' m c0 c1 c2 c3"
    "m + 4 \<le> p \<Longrightarrow> ngx_str5cmp le mem m c0 c1 c2 c3 c4 = ngx_str5cmp le mem' m c0 c1 c2 c3 c4"
    "m + 5 \<le> p \<Longrightarrow> ngx_str6cmp le mem m c0 c1 c2 c3 c4 c5 = ngx_str6cmp le mem' m c0 c1 c2 c3 c4 c5"
    "m + 7 \<le> p \<Longrightarrow> ngx_str7_cmp le mem m c0 c1 c2 c3 c4 c5 c6 c7 = ngx_str7_cmp le mem' m c0 c1 c2 c3 c4 c5 c6 c7"
    "m + 7 \<le> p \<Longrightarrow> ngx_str8cmp le mem m c0 c1 c2 c3 c4 c5 c6 c7 = ngx_str8cmp le mem' m c0 c1 c2 c3 c4 c5 c6 c7"
    "m + 8 \<le> p \<Longrightarrow> ngx_str9cmp le mem m c0 c1 c2 c3 c4 c5 c6 c7 c8 = ngx_str9cmp le mem' m c0 c1 c2 c3 c4 c5 c6 c7 c8"
    for c0 c1 c2 c3 c4 c5 c6 c7 c8
    by (simp_all add: ngx_str3_cmp_def ngx_str3Ocmp_def ngx_str4cmp_def ngx_str5cmp_def ngx_str6cmp_def ngx_str7_cmp_def ngx_str8cmp_def
        ngx_str9cmp_def word half chars)
  show ?thesis
    using get [of 1] by (simp add: request_method_def cmp del: first_match.simps cong: if_cong)
qed

definition rl_view :: "int \<times> (rl_state \<times> ngx_http_request) \<times> nat \<Rightarrow> int \<times> (rl_state \<times> ngx_http_request) \<times> nat" where
  \<comment> \<open>after an early return the state and the position are those before the call\<close>
  "rl_view = (\<lambda>(rc, (state, r), pos). if rc \<in> range rl_code then (rc, (sw_start, r), 0) else (rc, (state, r), pos))"

lemma rl_step_local:
  assumes "length mem = length mem'" and "take (Suc p) mem = take (Suc p) mem'" and "p < length mem"
  shows "rl_step le mem p ch s = rl_step le mem' p ch s"
  using request_method_local [OF assms] by (simp add: rl_step_def rl_method_step_def split: prod.split option.split)

interpretation rl: scan_parser "rl_step le" "\<lambda>r. r" "\<lambda>s. s" rl_finish "ngx_http_parse_request_line le" rl_view "(=)" for le
proof
  fix mem r pos lim
  show "ngx_http_parse_request_line le mem r pos lim = Option.bind (mem_read mem (int pos) (lim - pos))
      (\<lambda>xs. Option.bind (scan (rl_step le mem) pos xs r)
      (\<lambda>(p, v). case v of Inl s \<Rightarrow> Some (NGX_AGAIN, s, p) | Inr x \<Rightarrow> Some (rl_finish r x p pos)))"
    by (simp add: ngx_http_parse_request_line_def)
next
  fix r :: "rl_state \<times> ngx_http_request" and x p pos
  show "fst (rl_finish r x p pos) \<noteq> NGX_AGAIN"
    by (auto simp: rl_finish_def Let_def rl_code_def split: rl_exit.split rl_error.split)
next
  fix r r' :: "rl_state \<times> ngx_http_request" and x p pos pos'
  show "rl_view (rl_finish r x p pos) = rl_view (rl_finish r' x p pos')"
    by (cases x) (auto simp: rl_view_def rl_finish_def Let_def)
next
  fix s s' :: "rl_state \<times> ngx_http_request" and mem p ch
  assume "s = s'"
  then show "rel_option (rel_sum (=) (\<lambda>x x'. \<forall>r p pos. rl_view (rl_finish r x p pos) = rl_view (rl_finish r x' p pos)))
      (rl_step le mem p ch s) (rl_step le mem p ch s')"
    by (auto intro!: option.rel_refl sum.rel_refl)
next
  fix mem mem' :: bytes and p ch and s :: "rl_state \<times> ngx_http_request"
  assume "length mem = length mem'" "take (Suc p) mem = take (Suc p) mem'" "p < length mem"
  then show "rl_step le mem p ch s = rl_step le mem' p ch s" by (rule rl_step_local)
qed simp_all

end
