(* ===== verification/Ngx_Http_Complex_Uri.thy ===== *)
theory Ngx_Http_Complex_Uri
  imports Ngx_Http_Request_Line
begin

text \<open>
  \<open>ngx_http_parse_complex_uri\<close> of \<^verbatim>\<open>src/nginx/src/http/ngx_http_parse.c\<close>: it decodes the quoted characters of a path, drops
  the segments \<open>.\<close>, resolves the segments \<open>..\<close> and merges slashes, in one pass that writes the result to a
  buffer of its own. The positions \<open>u\<close> are positions of that buffer; stepping back in front of it, as the code does
  before it compares, is a negative position here. The Windows variants are left out.
\<close>

section \<open>The model\<close>

datatype cu_state = sw_usual | sw_slash | sw_dot | sw_dot_dot | sw_quoted | sw_quoted_second

record cu_vars =
  cu_state :: cu_state
  cu_quoted_state :: cu_state
  cu_decoded :: u8
  cu_ch :: u8
  cu_p :: nat
  cu_u :: int
  cu_out :: bytes
  cu_ext :: "int option"
  cu_args_start :: ptr
  cu_plus_in_uri :: bool
  cu_quoted_uri :: bool
  cu_len :: int
  cu_exten :: "(int \<times> int) option"
  cu_args :: "(nat \<times> nat) option"

datatype cu_exit = Args cu_vars | Done cu_vars | Loop_end cu_vars | Invalid cu_vars

definition cu_put :: "u8 \<Rightarrow> cu_vars \<Rightarrow> cu_vars option" where
  \<comment> \<open>\<open>*u++ = ch\<close>\<close>
  "cu_put c s = map_option (\<lambda>out. s\<lparr>cu_out := out, cu_u := cu_u s + 1\<rparr>) (arr_set (cu_out s) (cu_u s) c)"

definition advance :: "bytes \<Rightarrow> cu_vars \<Rightarrow> cu_vars option" where
  \<comment> \<open>\<open>ch = *p++\<close>\<close>
  "advance mem s = map_option (\<lambda>c. s\<lparr>cu_ch := c, cu_p := cu_p s + 1\<rparr>) (arr_get mem (int (cu_p s)))"

definition move_on :: "bytes \<Rightarrow> cu_vars option \<Rightarrow> (cu_vars + cu_exit) option" where
  \<comment> \<open>\<open>ch = *p++; break;\<close> at the end of a case\<close>
  "move_on mem s = map_option Inl (Option.bind s (advance mem))"

definition leave :: "cu_exit \<Rightarrow> (cu_vars + cu_exit) option" where
  "leave x = Some (Inr x)"

function climb :: "bytes \<Rightarrow> int \<Rightarrow> int option option" where
  \<comment> \<open>the loop that looks for the slash before a segment: \<open>Some None\<close> when it leaves the buffer\<close>
  "climb out u = (if u < 0 then Some None
     else Option.bind (arr_get out u) (\<lambda>c. if c = 47 then Some (Some (u + 1)) else climb out (u - 1)))"
  by pat_completeness auto
termination by (relation "measure (\<lambda>(out, u). nat (u + 1))") auto

declare climb.simps [simp del]

definition cu_text :: "bytes \<Rightarrow> cu_vars \<Rightarrow> (cu_vars + cu_exit) option" where
  \<comment> \<open>the cases \<open>'+'\<close> and default\<close>
  "cu_text mem s =
     (let s = (if cu_ch s = 43 then s\<lparr>cu_plus_in_uri := True\<rparr> else s) in move_on mem (cu_put (cu_ch s) (s\<lparr>cu_state := sw_usual\<rparr>)))"

definition cu_percent :: "bytes \<Rightarrow> cu_vars \<Rightarrow> (cu_vars + cu_exit) option" where
  "cu_percent mem s = move_on mem (Some (s\<lparr>cu_quoted_state := cu_state s, cu_state := sw_quoted\<rparr>))"

definition cu_usual_step :: "bytes \<Rightarrow> cu_vars \<Rightarrow> (cu_vars + cu_exit) option" where
  "cu_usual_step mem s = Option.bind (is_usual (cu_ch s)) (\<lambda>plain. let ch = cu_ch s in
     if plain then move_on mem (cu_put ch s)
     else if ch = 47 then move_on mem (cu_put ch (s\<lparr>cu_ext := None, cu_state := sw_slash\<rparr>))
     else if ch = 37 then cu_percent mem s
     else if ch = 63 then leave (Args (s\<lparr>cu_args_start := Some (cu_p s)\<rparr>))
     else if ch = 35 then leave (Done s)
     else if ch = 46 then move_on mem (cu_put ch (s\<lparr>cu_ext := Some (cu_u s + 1)\<rparr>))
     else cu_text mem s)"

definition cu_slash_step :: "bool \<Rightarrow> bytes \<Rightarrow> cu_vars \<Rightarrow> (cu_vars + cu_exit) option" where
  "cu_slash_step merge_slashes mem s = Option.bind (is_usual (cu_ch s)) (\<lambda>plain. let ch = cu_ch s in
     if plain then move_on mem (cu_put ch (s\<lparr>cu_state := sw_usual\<rparr>))
     else if ch = 47 then move_on mem (if merge_slashes then Some s else cu_put ch s)
     else if ch = 46 then move_on mem (cu_put ch (s\<lparr>cu_state := sw_dot\<rparr>))
     else if ch = 37 then cu_percent mem s
     else if ch = 63 then leave (Args (s\<lparr>cu_args_start := Some (cu_p s)\<rparr>))
     else if ch = 35 then leave (Done s)
     else cu_text mem s)"

definition cu_dot_step :: "bytes \<Rightarrow> cu_vars \<Rightarrow> (cu_vars + cu_exit) option" where
  "cu_dot_step mem s = Option.bind (is_usual (cu_ch s)) (\<lambda>plain. let ch = cu_ch s; up = s\<lparr>cu_u := cu_u s - 1\<rparr> in
     if plain then move_on mem (cu_put ch (s\<lparr>cu_state := sw_usual\<rparr>))
     else if ch = 47 then move_on mem (Some (up\<lparr>cu_state := sw_slash\<rparr>))
     else if ch = 46 then move_on mem (cu_put ch (s\<lparr>cu_state := sw_dot_dot\<rparr>))
     else if ch = 37 then cu_percent mem s
     else if ch = 63 then leave (Args (up\<lparr>cu_args_start := Some (cu_p s)\<rparr>))
     else if ch = 35 then leave (Done up)
     else cu_text mem s)"

definition cu_dot_dot_step :: "bytes \<Rightarrow> cu_vars \<Rightarrow> (cu_vars + cu_exit) option" where
  "cu_dot_dot_step mem s = Option.bind (is_usual (cu_ch s)) (\<lambda>plain. let ch = cu_ch s in
     if plain then move_on mem (cu_put ch (s\<lparr>cu_state := sw_usual\<rparr>))
     else if ch = 47 \<or> ch = 63 \<or> ch = 35 then
       Option.bind (climb (cu_out s) (cu_u s - 4)) (\<lambda>u. case u of
           None \<Rightarrow> leave (Invalid s)
         | Some u \<Rightarrow>
             if ch = 63 then leave (Args (s\<lparr>cu_u := u, cu_args_start := Some (cu_p s)\<rparr>))
             else if ch = 35 then leave (Done (s\<lparr>cu_u := u\<rparr>))
             else move_on mem (Some (s\<lparr>cu_u := u, cu_state := sw_slash\<rparr>)))
     else if ch = 37 then cu_percent mem s
     else cu_text mem s)"

definition cu_quoted_step :: "bytes \<Rightarrow> cu_vars \<Rightarrow> (cu_vars + cu_exit) option" where
  "cu_quoted_step mem s =
     (let s = s\<lparr>cu_quoted_uri := True\<rparr>; ch = cu_ch s; c = ch OR 0x20 in
      if is_digit ch then move_on mem (Some (s\<lparr>cu_decoded := ch - 48, cu_state := sw_quoted_second\<rparr>))
      else if 97 \<le> c \<and> c \<le> 102 then move_on mem (Some (s\<lparr>cu_decoded := c - 97 + 10, cu_state := sw_quoted_second\<rparr>))
      else leave (Invalid s))"

definition cu_quoted_second_step :: "bytes \<Rightarrow> cu_vars \<Rightarrow> (cu_vars + cu_exit) option" where
  \<comment> \<open>without \<open>ch = *p++\<close> the decoded character is looked at again in the state before the escape\<close>
  "cu_quoted_second_step mem s =
     (let ch = cu_ch s; c = ch OR 0x20 in
      if is_digit ch then
        (let s = s\<lparr>cu_ch := push_bit 4 (cu_decoded s) + (ch - 48)\<rparr> in
         if cu_ch s = 37 \<or> cu_ch s = 35 then move_on mem (cu_put (cu_ch s) (s\<lparr>cu_state := sw_usual\<rparr>))
         else if cu_ch s = 0 then leave (Invalid s)
         else Some (Inl (s\<lparr>cu_state := cu_quoted_state s\<rparr>)))
      else if 97 \<le> c \<and> c \<le> 102 then
        (let s = s\<lparr>cu_ch := push_bit 4 (cu_decoded s) + (c - 97) + 10\<rparr> in
         if cu_ch s = 63 then move_on mem (cu_put (cu_ch s) (s\<lparr>cu_state := sw_usual\<rparr>))
         else let s = (if cu_ch s = 43 then s\<lparr>cu_plus_in_uri := True\<rparr> else s) in Some (Inl (s\<lparr>cu_state := cu_quoted_state s\<rparr>)))
      else leave (Invalid s))"

definition cu_step :: "bool \<Rightarrow> bytes \<Rightarrow> cu_vars \<Rightarrow> (cu_vars + cu_exit) option" where
  "cu_step merge_slashes mem s =
     (case cu_state s of
        sw_usual \<Rightarrow> cu_usual_step mem s
      | sw_slash \<Rightarrow> cu_slash_step merge_slashes mem s
      | sw_dot \<Rightarrow> cu_dot_step mem s
      | sw_dot_dot \<Rightarrow> cu_dot_dot_step mem s
      | sw_quoted \<Rightarrow> cu_quoted_step mem s
      | sw_quoted_second \<Rightarrow> cu_quoted_second_step mem s)"

partial_function (option) cu_loop :: "bool \<Rightarrow> bytes \<Rightarrow> nat \<Rightarrow> cu_vars \<Rightarrow> cu_exit option" where
  \<comment> \<open>\<open>while (p <= r->uri_end)\<close>\<close>
  "cu_loop merge_slashes mem uend s =
     (if cu_p s \<le> uend then Option.bind (cu_step merge_slashes mem s)
        (\<lambda>v. case v of Inl s \<Rightarrow> cu_loop merge_slashes mem uend s | Inr x \<Rightarrow> Some x)
      else Some (Loop_end s))"

declare cu_loop.simps [code]

definition cu_close :: "cu_vars \<Rightarrow> cu_exit option" where
  \<comment> \<open>between the loop and the label \<open>done\<close>\<close>
  "cu_close s =
     (if cu_state s = sw_quoted \<or> cu_state s = sw_quoted_second then Some (Invalid s)
      else if cu_state s = sw_dot then Some (Done (s\<lparr>cu_u := cu_u s - 1\<rparr>))
      else if cu_state s = sw_dot_dot then
        Option.bind (climb (cu_out s) (cu_u s - 4)) (\<lambda>u. Some (case u of None \<Rightarrow> Invalid s | Some u \<Rightarrow> Done (s\<lparr>cu_u := u\<rparr>)))
      else Some (Done s))"

definition cu_ending :: "cu_exit \<Rightarrow> cu_exit option" where
  "cu_ending x = (case x of Loop_end s \<Rightarrow> cu_close s | _ \<Rightarrow> Some x)"

definition cu_done :: "cu_vars \<Rightarrow> cu_vars" where
  \<comment> \<open>the common end of \<open>done\<close> and \<open>args\<close>\<close>
  "cu_done s = s\<lparr>cu_len := cu_u s, cu_exten := (case cu_ext s of None \<Rightarrow> cu_exten s | Some e \<Rightarrow> Some (e, cu_u s - e)), cu_ext := None\<rparr>"

function args_loop :: "bytes \<Rightarrow> nat \<Rightarrow> nat \<Rightarrow> cu_vars \<Rightarrow> cu_vars option" where
  "args_loop mem uend p s =
     (if p < uend then Option.bind (arr_get mem (int p)) (\<lambda>c.
        if c \<noteq> 35 then args_loop mem uend (p + 1) s
        else case cu_args_start s of
            None \<Rightarrow> None
          | Some a \<Rightarrow> Some (s\<lparr>cu_args := Some (a, p - a), cu_args_start := NULL\<rparr>))
      else Some s)"
  by pat_completeness auto
termination by (relation "measure (\<lambda>(mem, uend, p, s). uend - p)") auto

declare args_loop.simps [simp del]

definition ngx_http_parse_complex_uri :: "bool \<Rightarrow> bytes \<Rightarrow> ngx_http_request \<Rightarrow> bytes \<Rightarrow> (int \<times> cu_vars) option" where
  \<comment> \<open>\<open>out\<close> is the buffer \<open>r->uri.data\<close>\<close>
  "ngx_http_parse_complex_uri merge_slashes mem r out = (case (uri_start r, uri_end r) of
     (Some ustart, Some uend) \<Rightarrow> do {
       let s = \<lparr>cu_state = sw_usual, cu_quoted_state = sw_usual, cu_decoded = 0, cu_ch = 0, cu_p = ustart, cu_u = 0, cu_out = out, cu_ext = None,
         cu_args_start = NULL, cu_plus_in_uri = plus_in_uri r, cu_quoted_uri = quoted_uri r, cu_len = int (length out), cu_exten = None, cu_args = None\<rparr>;
       s \<leftarrow> (if empty_path_in_uri r then cu_put 47 s else Some s);
       s \<leftarrow> advance mem s;
       x \<leftarrow> cu_loop merge_slashes mem uend s;
       x \<leftarrow> cu_ending x;
       (case x of
          Args s \<Rightarrow> map_option (\<lambda>s. (NGX_OK, cu_done s)) (args_loop mem uend (cu_p s) s)
        | Done s \<Rightarrow> Some (NGX_OK, cu_done s)
        | Invalid s \<Rightarrow> Some (rl_code NGX_HTTP_PARSE_INVALID_REQUEST, s)
        | Loop_end s \<Rightarrow> None)
     }
   | _ \<Rightarrow> None)"

end
