(* ===== verification/Ngx_Http_Request_Line_Spec.thy ===== *)
theory Ngx_Http_Request_Line_Spec
  imports Ngx_Http_Request_Line
begin

text \<open>
  What \<open>ngx_http_parse_request_line\<close> accepts and what it makes of it. The invariant of the loop says, state by
  state, what the bytes read so far look like; from it follow that the parser is total and that an
  accepted line has the form the request's fields claim. In the other direction every well-formed line
  is accepted, and how the line is cut into reads makes no difference.
\<close>

section \<open>Ordinary characters\<close>


definition usual_set :: "u8 \<Rightarrow> bool" where
  "usual_set = escapes usual"

lemma is_usual_ok: "is_usual ch = Some (usual_set ch)"
  using must_escape_ok [of usual ch] by (simp add: is_usual_def must_escape_def usual_set_def usual_def)

lemma not_usual: "ch < 32 \<Longrightarrow> \<not> usual_set ch" "\<not> usual_set 32" "\<not> usual_set 35" "\<not> usual_set 37" "\<not> usual_set 43"
  "\<not> usual_set 46" "\<not> usual_set 47" "\<not> usual_set 63" "\<not> usual_set 127"
proof -
  assume "ch < 32"
  then have "unat (drop_bit 5 ch) = 0" unfolding unat_drop_bit_eq by (simp add: drop_bit_eq_div word_less_nat_alt)
  then show "\<not> usual_set ch" by (simp add: usual_set_def escapes_def usual_def)
qed (simp_all add: usual_set_def escapes_def usual_def bit_numeral_rec)


section \<open>What an accepted line looks like\<close>

definition uri_byte :: "u8 \<Rightarrow> bool" where
  "uri_byte c = (32 < c \<and> c \<noteq> 127)"

definition plain_path :: "bytes \<Rightarrow> bool" where
  \<comment> \<open>a path that needs no normalisation: nothing quoted, no fragment, no empty or dotted segment\<close>
  "plain_path t = (37 \<notin> set t \<and> 35 \<notin> set t \<and> successively (\<lambda>a b. a = 47 \<longrightarrow> b \<noteq> 47 \<and> b \<noteq> 46) t)"

definition plain_uri :: "bytes \<Rightarrow> bool" where
  "plain_uri t = (35 \<notin> set t \<and> plain_path (takeWhile (\<lambda>c. c \<noteq> 63) t))"

definition method_read :: "nat \<Rightarrow> bytes \<Rightarrow> nat \<Rightarrow> ngx_http_request \<Rightarrow> bool" where
  \<comment> \<open>\<open>request_start\<close> and \<open>method_end\<close> delimit a method that \<open>method\<close> is the code of\<close>
  "method_read d mem p r = (\<exists>a e. request_start r = Some a \<and> method_end r = Some e \<and> a \<le> e \<and> Suc e < p \<and> mem ! Suc e = 32 \<and>
     (\<forall>c\<in>set (seg mem a (Suc e)). method_char c) \<and> http_method r = method_code (seg mem a (Suc e)) d)"

definition uri_open :: "(bytes \<Rightarrow> bool) \<Rightarrow> bytes \<Rightarrow> nat \<Rightarrow> ngx_http_request \<Rightarrow> bool" where
  "uri_open P mem p r = (\<exists>u. uri_start r = Some u \<and> u < p \<and> (mem ! u = 47 \<or> mem ! u = 63) \<and>
     (\<forall>c\<in>set (seg mem u p). uri_byte c) \<and> P (seg mem u p))"

definition uri_read :: "bytes \<Rightarrow> nat \<Rightarrow> ngx_http_request \<Rightarrow> bool" where
  \<comment> \<open>\<open>uri_start\<close> and \<open>uri_end\<close> delimit a URI without blanks and control characters, which is plain unless it is marked\<close>
  "uri_read mem p r = (\<exists>u v. uri_start r = Some u \<and> uri_end r = Some v \<and> u < v \<and> v \<le> p \<and> (mem ! u = 47 \<or> mem ! u = 63) \<and>
     (\<forall>c\<in>set (seg mem u v). uri_byte c) \<and> (\<not> complex_uri r \<and> \<not> quoted_uri r \<longrightarrow> plain_uri (seg mem u v)))"

definition started :: "ngx_http_request \<Rightarrow> bool" where
  "started r = (request_end r = NULL \<and> http_major r = 0)"

definition path_end :: "ngx_http_request \<Rightarrow> nat \<Rightarrow> bool" where
  \<comment> \<open>where the text behind the URI begins: at \<open>uri_end\<close>, or behind the host when the URI has no path and \<open>uri_start\<close> is the slash behind the schema\<close>
  "path_end r e = (uri_end r = Some e \<or> (\<exists>s. schema_end r = Some s \<and> uri_start r = Some (s + 1) \<and> uri_end r = Some (s + 2) \<and> s + 2 < e))"

definition decimal :: "bytes \<Rightarrow> nat" where
  "decimal ds = foldl (\<lambda>n c. n * 10 + unat (c - 48)) 0 ds"

definition minor_read :: "ngx_http_request \<Rightarrow> bytes \<Rightarrow> bool" where
  "minor_read r ds = (ds \<noteq> [] \<and> (\<forall>c\<in>set ds. is_digit c) \<and> http_minor r = decimal ds \<and> http_minor r < 1000)"

definition protocol_read :: "bytes \<Rightarrow> nat \<Rightarrow> nat \<Rightarrow> ngx_http_request \<Rightarrow> bytes \<Rightarrow> bool" where
  \<comment> \<open>blanks and then \<open>w\<close>, which starts at \<open>http_protocol\<close>\<close>
  "protocol_read mem e p r w = (\<exists>n. seg mem e p = replicate (Suc n) 32 @ w \<and> http_protocol r = Some (e + Suc n))"

definition version_text :: "bytes \<Rightarrow> nat \<Rightarrow> nat \<Rightarrow> ngx_http_request \<Rightarrow> bool" where
  \<comment> \<open>blanks only for version 0.9, or \<open>HTTP/1.\<close> and the digits of the minor version between blanks\<close>
  "version_text mem e p r = (http_major r = 0 \<and> http_minor r = 9 \<and> (\<exists>n. seg mem e p = replicate n 32) \<or>
     http_major r = 1 \<and> (\<exists>ds m. minor_read r ds \<and> protocol_read mem e p r ([72, 84, 84, 80, 47, 49, 46] @ ds @ replicate m 32)))"

definition version_read :: "bytes \<Rightarrow> nat \<Rightarrow> nat \<Rightarrow> ngx_http_request \<Rightarrow> bool" where
  \<comment> \<open>the bytes from the end of the URI to the position \<open>l\<close>, behind which the line ends at \<open>p\<close>\<close>
  "version_read mem l p r = ((\<exists>e. path_end r e \<and> e \<le> l \<and> version_text mem e l r) \<and> l < p \<and> seg mem l p \<in> {[LF], [CR, LF]})"

definition version_state :: "bytes \<Rightarrow> nat \<Rightarrow> nat \<Rightarrow> rl_state \<Rightarrow> ngx_http_request \<Rightarrow> bool" where
  "version_state mem e p state r = (case state of
     sw_http_09 \<Rightarrow> http_major r = 0 \<and> (\<exists>n. seg mem e p = replicate (Suc n) 32)
   | sw_http_H \<Rightarrow> http_major r = 0 \<and> protocol_read mem e p r [72]
   | sw_http_HT \<Rightarrow> http_major r = 0 \<and> protocol_read mem e p r [72, 84]
   | sw_http_HTT \<Rightarrow> http_major r = 0 \<and> protocol_read mem e p r [72, 84, 84]
   | sw_http_HTTP \<Rightarrow> http_major r = 0 \<and> protocol_read mem e p r [72, 84, 84, 80]
   | sw_first_major_digit \<Rightarrow> http_major r = 0 \<and> protocol_read mem e p r [72, 84, 84, 80, 47]
   | sw_major_digit \<Rightarrow> http_major r = 1 \<and> protocol_read mem e p r [72, 84, 84, 80, 47, 49]
   | sw_first_minor_digit \<Rightarrow> http_major r = 1 \<and> protocol_read mem e p r [72, 84, 84, 80, 47, 49, 46]
   | sw_minor_digit \<Rightarrow> http_major r = 1 \<and> (\<exists>ds. minor_read r ds \<and> protocol_read mem e p r ([72, 84, 84, 80, 47, 49, 46] @ ds))
   | sw_spaces_after_digit \<Rightarrow> http_major r = 1 \<and> version_text mem e p r
   | _ \<Rightarrow> (\<exists>l. p = Suc l \<and> e \<le> l \<and> version_text mem e l r \<and> mem ! l = CR))"

definition rl_inv :: "nat \<Rightarrow> bytes \<Rightarrow> nat \<Rightarrow> rl_state \<times> ngx_http_request \<Rightarrow> bool" where
  "rl_inv d mem p = (\<lambda>(state, r). request_end r = NULL \<and>
     (if state \<in> {sw_start, sw_method} then
        started r \<and> \<not> complex_uri r \<and> \<not> quoted_uri r \<and> http_method r = d \<and>
        (state = sw_method \<longrightarrow> (\<exists>a. request_start r = Some a \<and> a < p \<and> (\<forall>c\<in>set (seg mem a p). method_char c)))
      else if state \<in> {sw_spaces_before_uri, sw_schema} then
        started r \<and> \<not> complex_uri r \<and> \<not> quoted_uri r \<and> method_read d mem p r
      else if state \<in> {sw_schema_slash, sw_schema_slash_slash} then
        started r \<and> \<not> complex_uri r \<and> \<not> quoted_uri r \<and> method_read d mem p r \<and>
        (if state = sw_schema_slash then \<exists>s. schema_end r = Some s \<and> p = s + 1
         else \<exists>s. schema_end r = Some s \<and> p = s + 2 \<and> mem ! (s + 1) = 47)
      else if state \<in> {sw_host_start, sw_host, sw_host_end, sw_host_ip_literal, sw_port} then
        started r \<and> \<not> complex_uri r \<and> \<not> quoted_uri r \<and> method_read d mem p r \<and> (\<exists>s. schema_end r = Some s \<and> s + 2 < p \<and> mem ! (s + 1) = 47)
      else if state = sw_after_slash_in_uri then
        started r \<and> method_read d mem p r \<and> \<not> complex_uri r \<and> \<not> quoted_uri r \<and> uri_open (\<lambda>t. 63 \<notin> set t \<and> plain_path t) mem p r
      else if state = sw_check_uri then
        started r \<and> method_read d mem p r \<and> \<not> complex_uri r \<and> \<not> quoted_uri r \<and> uri_open (\<lambda>t. 63 \<notin> set t \<and> plain_path t \<and> last t \<noteq> 47) mem p r
      else if state = sw_uri then
        started r \<and> method_read d mem p r \<and> uri_open (\<lambda>t. \<not> complex_uri r \<and> \<not> quoted_uri r \<longrightarrow> 63 \<in> set t \<and> plain_uri t) mem p r
      else method_read d mem p r \<and> uri_read mem p r \<and> (\<exists>e. path_end r e \<and> e < p \<and> version_state mem e p state r)))"

definition line_read :: "nat \<Rightarrow> bytes \<Rightarrow> nat \<Rightarrow> ngx_http_request \<Rightarrow> bool" where
  "line_read d mem p r = (method_read d mem p r \<and> uri_read mem p r \<and> version_read mem (case request_end r of None \<Rightarrow> p - 1 | Some l \<Rightarrow> l) p r)"

definition rl_post :: "nat \<Rightarrow> bytes \<Rightarrow> nat \<Rightarrow> ((rl_state \<times> ngx_http_request) + rl_exit) \<Rightarrow> bool" where
  "rl_post d mem p v = (case v of Inl s \<Rightarrow> rl_inv d mem (Suc p) s | Inr (Finished r) \<Rightarrow> mem ! p = LF \<and> line_read d mem (Suc p) r | Inr (Rejected e r) \<Rightarrow> True)"

lemmas outcomes = goto_def finish_line_def reject_def

lemma method_read_mono [intro]: "method_read d mem p r \<Longrightarrow> method_read d mem (Suc p) r"
  by (fastforce simp: method_read_def)

lemma uri_read_mono [intro]: "uri_read mem p r \<Longrightarrow> uri_read mem (Suc p) r"
  by (fastforce simp: uri_read_def)

lemma method_step_inv:
  assumes "rl_inv d mem p (state, r)" and "state \<in> {sw_start, sw_method}" and "p < length mem" and "le \<Longrightarrow> Suc p < length mem"
    and "rl_method_step le mem state p (mem ! p) r = Some v"
  shows "rl_post d mem p v"
proof (cases "state = sw_start")
  case True
  then show ?thesis using assms
    by (auto simp: rl_method_step_def outcomes rl_post_def rl_inv_def Let_def started_def seg_snoc split: if_splits)
next
  case False
  then have st: "state = sw_method" using assms(2) by simp
  then obtain a where a: "request_start r = Some a" "a < p" "\<forall>c\<in>set (seg mem a p). method_char c" using assms(1) by (auto simp: rl_inv_def)
  show ?thesis
  proof (cases "mem ! p = 32")
    case True
    have "request_method le mem a (p - a) (http_method r) = Some (method_code (take (p - a) (drop a mem)) (http_method r))"
      using a(2) assms(3,4) True by (intro request_method_ok) auto
    then have v: "v = Inl (sw_spaces_before_uri, r\<lparr>method_end := Some (p - 1), http_method := method_code (seg mem a p) (http_method r)\<rparr>)"
      using assms(5) st a(1) True by (simp add: rl_method_step_def outcomes seg_def)
    obtain q where q: "p = Suc q" using a(2) by (cases p) auto
    show ?thesis using assms(1) a True q by (auto simp: rl_post_def v rl_inv_def st started_def method_read_def)
  next
    case False
    then show ?thesis using assms st a by (auto simp: rl_method_step_def outcomes rl_post_def rl_inv_def seg_snoc split: if_splits)
  qed
qed

lemma schema_step_inv:
  assumes "rl_inv d mem p (state, r)" and "state \<in> {sw_spaces_before_uri, sw_schema, sw_schema_slash, sw_schema_slash_slash}"
    and "p < length mem" and "rl_schema_step state p (mem ! p) r = Some v"
  shows "rl_post d mem p v"
proof -
  have m: "method_read d mem (Suc p) r" using assms(1,2) by (auto simp: rl_inv_def split: if_splits)
  show ?thesis using assms m
    by (auto simp: rl_schema_step_def outcomes rl_post_def rl_inv_def started_def Let_def uri_open_def seg_snoc method_read_def plain_path_def uri_byte_def
        split: if_splits)
qed


lemma plain_path_snoc: "plain_path (t @ [c]) = (plain_path t \<and> c \<noteq> 37 \<and> c \<noteq> 35 \<and> (t \<noteq> [] \<and> last t = 47 \<longrightarrow> c \<noteq> 47 \<and> c \<noteq> 46))"
  by (auto simp: plain_path_def successively_append_iff)

lemma plain_uri_path: "63 \<notin> set t \<Longrightarrow> plain_uri t = plain_path t"
proof -
  assume "63 \<notin> set t"
  then have "takeWhile (\<lambda>c. c \<noteq> 63) t = t" by (auto simp: takeWhile_eq_all_conv)
  then show ?thesis by (simp only: plain_uri_def plain_path_def) blast
qed

lemma plain_uri_query: "63 \<notin> set t \<Longrightarrow> plain_path t \<Longrightarrow> plain_uri (t @ [63])"
  by (auto simp: plain_uri_def plain_path_def takeWhile_append)

lemma plain_uri_snoc: "63 \<in> set t \<Longrightarrow> plain_uri (t @ [c]) = (plain_uri t \<and> c \<noteq> 35)"
  by (auto simp: plain_uri_def takeWhile_append)


lemma ite_elim: "(if b then x else y) = z \<Longrightarrow> (x = z \<Longrightarrow> P) \<Longrightarrow> (y = z \<Longrightarrow> P) \<Longrightarrow> P"
  by (simp split: if_splits)

definition host_inv :: "nat \<Rightarrow> bytes \<Rightarrow> nat \<Rightarrow> ngx_http_request \<Rightarrow> bool" where
  "host_inv d mem p r = (started r \<and> \<not> complex_uri r \<and> \<not> quoted_uri r \<and> method_read d mem p r \<and>
     (\<exists>s. schema_end r = Some s \<and> s + 2 < p \<and> mem ! (s + 1) = 47))"

lemma method_read_fields [simp]:
  "method_read d mem p (r\<lparr>host_start := x\<rparr>) = method_read d mem p r"
  "method_read d mem p (r\<lparr>host_end := x\<rparr>) = method_read d mem p r"
  "method_read d mem p (r\<lparr>uri_start := x\<rparr>) = method_read d mem p r"
  "method_read d mem p (r\<lparr>uri_end := x\<rparr>) = method_read d mem p r"
  "method_read d mem p (r\<lparr>uri_ext := x\<rparr>) = method_read d mem p r"
  "method_read d mem p (r\<lparr>args_start := x\<rparr>) = method_read d mem p r"
  "method_read d mem p (r\<lparr>http_protocol := x\<rparr>) = method_read d mem p r"
  "method_read d mem p (r\<lparr>http_major := n\<rparr>) = method_read d mem p r"
  "method_read d mem p (r\<lparr>http_minor := n\<rparr>) = method_read d mem p r"
  "method_read d mem p (r\<lparr>request_end := x\<rparr>) = method_read d mem p r"
  "method_read d mem p (r\<lparr>http_version := n\<rparr>) = method_read d mem p r"
  "method_read d mem p (r\<lparr>complex_uri := b\<rparr>) = method_read d mem p r"
  "method_read d mem p (r\<lparr>quoted_uri := b\<rparr>) = method_read d mem p r"
  "method_read d mem p (r\<lparr>plus_in_uri := b\<rparr>) = method_read d mem p r"
  "method_read d mem p (r\<lparr>empty_path_in_uri := b\<rparr>) = method_read d mem p r"
  by (simp_all add: method_read_def)

lemma host_inv_fields [simp]: "host_inv d mem p (r\<lparr>host_start := x\<rparr>) = host_inv d mem p r" "host_inv d mem p (r\<lparr>host_end := x\<rparr>) = host_inv d mem p r"
  by (simp_all add: host_inv_def started_def)

lemma blank_inv:
  assumes "mem ! p = 32" and "p < length mem" and "path_end r p" and "request_end r = NULL" "http_major r = 0" and "method_read d mem p r" and "uri_read mem (Suc p) r"
  shows "rl_post d mem p (Inl (sw_http_09, r))"
proof -
  have "seg mem p (Suc p) = replicate (Suc 0) 32" using assms(1,2) by (simp add: seg_one)
  then have "version_state mem p (Suc p) sw_http_09 r" unfolding version_state_def rl_state.case using assms(5) by blast
  then have "\<exists>e. path_end r e \<and> e < Suc p \<and> version_state mem e (Suc p) sw_http_09 r" using assms(3) by blast
  then show ?thesis using assms(4,7) method_read_mono [OF assms(6)] by (simp add: rl_post_def rl_inv_def)
qed

lemma host_targets:
  assumes "host_inv d mem p r" and "p < length mem"
  shows "mem ! p = 47 \<Longrightarrow> rl_post d mem p (Inl (sw_after_slash_in_uri, r\<lparr>uri_start := Some p\<rparr>))"
    and "mem ! p = 63 \<Longrightarrow> rl_empty_path p r = Some v \<Longrightarrow> rl_post d mem p v"
    and "mem ! p = 32 \<Longrightarrow> rl_no_path r = Some v \<Longrightarrow> rl_post d mem p v"
    and "state \<in> {sw_host_start, sw_host, sw_host_end, sw_host_ip_literal, sw_port} \<Longrightarrow> rl_post d mem p (Inl (state, r))"
proof -
  obtain s where s: "schema_end r = Some s" "s + 2 < p" "mem ! Suc s = 47" using assms(1) by (auto simp: host_inv_def)
  have one: "seg mem (Suc s) (Suc (Suc s)) = [47]" using s assms(2) by (simp add: seg_one)
  note inv = assms [unfolded host_inv_def]
  show "mem ! p = 47 \<Longrightarrow> rl_post d mem p (Inl (sw_after_slash_in_uri, r\<lparr>uri_start := Some p\<rparr>))"
    using inv by (auto simp: rl_post_def rl_inv_def started_def uri_open_def seg_one uri_byte_def plain_path_def)
  show "mem ! p = 63 \<Longrightarrow> rl_empty_path p r = Some v \<Longrightarrow> rl_post d mem p v"
    using inv by (auto simp: rl_post_def rl_inv_def started_def uri_open_def seg_one uri_byte_def plain_uri_def plain_path_def rl_empty_path_def outcomes)
  show "mem ! p = 32 \<Longrightarrow> rl_no_path r = Some v \<Longrightarrow> rl_post d mem p v"
    using inv one s by (auto simp: started_def uri_read_def uri_byte_def plain_uri_def plain_path_def rl_no_path_def outcomes path_end_def intro!: blank_inv)
  show "state \<in> {sw_host_start, sw_host, sw_host_end, sw_host_ip_literal, sw_port} \<Longrightarrow> rl_post d mem p (Inl (state, r))"
    using inv by (auto simp: rl_post_def rl_inv_def started_def)
qed

lemma host_end_inv:
  assumes "host_inv d mem p r" and "p < length mem" and "rl_host_end p (mem ! p) r = Some v"
  shows "rl_post d mem p v"
proof -
  let ?r = "r\<lparr>host_end := Some p\<rparr>"
  have inv: "host_inv d mem p ?r" using assms(1) by simp
  note T = host_targets [OF inv assms(2)]
  have "v = Inl (sw_port, ?r) \<or> mem ! p = 47 \<and> v = Inl (sw_after_slash_in_uri, ?r\<lparr>uri_start := Some p\<rparr>) \<or>
      mem ! p = 63 \<and> rl_empty_path p ?r = Some v \<or> mem ! p = 32 \<and> rl_no_path ?r = Some v \<or> (\<exists>e r. v = Inr (Rejected e r))"
    using assms(3) by (auto simp: rl_host_end_def Let_def outcomes split: if_splits)
  then show ?thesis using T(1-3) T(4) [of sw_port] by (elim disjE) (auto simp: rl_post_def)
qed

lemma host_name_inv:
  assumes "host_inv d mem p r" and "p < length mem" and "rl_host p (mem ! p) r = Some v"
  shows "rl_post d mem p v"
  using assms(3) host_targets(4) [OF assms(1,2)] host_end_inv [OF assms(1,2)]
  by (auto simp: rl_host_def outcomes split: if_splits)

lemma host_step_inv:
  assumes "rl_inv d mem p (state, r)" and "state \<in> {sw_host_start, sw_host, sw_host_end, sw_host_ip_literal, sw_port}"
    and "p < length mem" and "rl_host_step state p (mem ! p) r = Some v"
  shows "rl_post d mem p v"
proof -
  have inv: "host_inv d mem p r" using assms(1,2) by (auto simp: rl_inv_def host_inv_def)
  note T = host_targets [OF inv assms(3)]
  consider "state = sw_host_start" | "state = sw_host" | "state = sw_host_end" | "state = sw_host_ip_literal" | "state = sw_port" using assms(2) by auto
  then show ?thesis
  proof cases
    case 1
    then show ?thesis using assms(3,4) host_targets(4) [of d mem p "r\<lparr>host_start := Some p\<rparr>"] host_name_inv [of d mem p "r\<lparr>host_start := Some p\<rparr>" v] inv
      by (auto simp: rl_host_step_def Let_def outcomes split: if_splits)
  next
    case 2
    then show ?thesis using assms(3,4) host_name_inv [OF inv] by (simp add: rl_host_step_def)
  next
    case 3
    then show ?thesis using assms(3,4) host_end_inv [OF inv] by (simp add: rl_host_step_def)
  next
    case 4
    then have "v = Inl (sw_host_ip_literal, r) \<or> v = Inl (sw_host_end, r) \<or> v = Inr (Rejected NGX_HTTP_PARSE_INVALID_REQUEST r)"
      using assms(4) unfolding 4 rl_host_step_def rl_state.case outcomes
      by (elim ite_elim) simp_all
    then show ?thesis using T(4) [of sw_host_ip_literal] T(4) [of sw_host_end] by (elim disjE) (simp_all add: rl_post_def)
  next
    case 5
    have "v = Inl (sw_port, r) \<or> mem ! p = 47 \<and> v = Inl (sw_after_slash_in_uri, r\<lparr>uri_start := Some p\<rparr>) \<or>
        mem ! p = 63 \<and> rl_empty_path p r = Some v \<or> mem ! p = 32 \<and> rl_no_path r = Some v \<or> (\<exists>e r. v = Inr (Rejected e r))"
      using assms(4) 5 by (auto simp: rl_host_step_def outcomes split: if_splits)
    then show ?thesis using T(1-3) T(4) [of sw_port] by (elim disjE) (auto simp: rl_post_def)
  qed
qed


lemma uri_byte_cases:
  assumes "usual_set c \<or> c \<in> {35, 37, 43, 46, 47, 63} \<or> \<not> (c < 0x20 \<or> c = 0x7f) \<and> c \<noteq> 32"
  shows "uri_byte c"
proof -
  have "usual_set c \<Longrightarrow> \<not> c < 32 \<and> c \<noteq> 127 \<and> c \<noteq> 32" using not_usual by blast
  then show ?thesis using assms by (auto simp: uri_byte_def not_less order_less_le)
qed

lemma uri_open_snoc:
  assumes "uri_open P mem p r" and "p < length mem" and "uri_byte (mem ! p)"
    and "\<And>t. t \<noteq> [] \<Longrightarrow> P t \<Longrightarrow> Q (t @ [mem ! p])" and "uri_start r' = uri_start r"
  shows "uri_open Q mem (Suc p) r'"
proof -
  obtain u where u: "uri_start r = Some u" "u < p" "mem ! u = 47 \<or> mem ! u = 63" "\<forall>c\<in>set (seg mem u p). uri_byte c" "P (seg mem u p)"
    using assms(1) by (auto simp: uri_open_def)
  then show ?thesis using assms seg_nonempty [of u p mem] by (auto simp: uri_open_def seg_snoc)
qed

lemma uri_close:
  assumes "uri_open P mem p r" and "\<And>t. P t \<Longrightarrow> \<not> complex_uri r \<and> \<not> quoted_uri r \<longrightarrow> plain_uri t"
  shows "uri_read mem (Suc p) (r\<lparr>uri_end := Some p\<rparr>)"
  using assms by (force simp: uri_open_def uri_read_def)

lemma uri_end_inv:
  assumes "uri_open P mem p r" and "\<And>t. P t \<Longrightarrow> \<not> complex_uri r \<and> \<not> quoted_uri r \<longrightarrow> plain_uri t" and "started r"
    and "method_read d mem p r" and "rl_uri_end p (mem ! p) r = Some (Some v)" and "p < length mem"
  shows "rl_post d mem p v"
proof -
  let ?r = "r\<lparr>uri_end := Some p\<rparr>" and ?r9 = "r\<lparr>uri_end := Some p, http_minor := 9\<rparr>"
  have ur: "uri_read mem (Suc p) ?r" using assms(1,2) by (rule uri_close)
  then have ur9: "uri_read mem (Suc p) ?r9" by (simp add: uri_read_def)
  have pe: "path_end ?r p" "path_end ?r9 p" by (simp_all add: path_end_def)
  have mr: "method_read d mem (Suc p) ?r9" using method_read_mono [OF assms(4)] by simp
  have "seg mem p p = replicate 0 32" by simp
  then have vt: "version_text mem p p ?r9" using assms(3) unfolding version_text_def by (auto simp: started_def)
  consider "mem ! p = 32" "v = Inl (sw_http_09, ?r)" | "mem ! p = CR" "v = Inl (sw_almost_done, ?r9)" | "mem ! p = LF" "v = Inr (Finished ?r9)"
    using assms(5) by (auto simp: rl_uri_end_def outcomes split: if_splits)
  then show ?thesis
  proof cases
    case 1
    then show ?thesis using assms(3,4,6) pe(1) ur by (auto simp: started_def intro!: blank_inv)
  next
    case 2
    then have "version_state mem p (Suc p) sw_almost_done ?r9" using vt by (simp add: version_state_def)
    then show ?thesis using 2(2) ur9 mr pe(2) assms(3) by (auto simp: rl_post_def rl_inv_def started_def)
  next
    case 3
    then have "version_read mem p (Suc p) ?r9" using vt pe(2) assms(6) unfolding version_read_def by (auto simp: seg_one)
    then show ?thesis using 3 ur9 mr assms(3) by (simp add: rl_post_def line_read_def started_def)
  qed
qed

lemma uri_next:
  assumes "uri_open P mem p r" and "p < length mem" and "uri_byte (mem ! p)" and "uri_start r' = uri_start r" and "started r'"
    and "method_read d mem (Suc p) r'"
  shows "\<not> complex_uri r' \<Longrightarrow> \<not> quoted_uri r' \<Longrightarrow> (\<And>t. t \<noteq> [] \<Longrightarrow> P t \<Longrightarrow> 63 \<notin> set (t @ [mem ! p]) \<and> plain_path (t @ [mem ! p])) \<Longrightarrow>
      rl_post d mem p (Inl (sw_after_slash_in_uri, r'))"
    and "\<not> complex_uri r' \<Longrightarrow> \<not> quoted_uri r' \<Longrightarrow> mem ! p \<noteq> 47 \<Longrightarrow>
      (\<And>t. t \<noteq> [] \<Longrightarrow> P t \<Longrightarrow> 63 \<notin> set (t @ [mem ! p]) \<and> plain_path (t @ [mem ! p])) \<Longrightarrow> rl_post d mem p (Inl (sw_check_uri, r'))"
    and "(\<And>t. t \<noteq> [] \<Longrightarrow> P t \<Longrightarrow> \<not> complex_uri r' \<and> \<not> quoted_uri r' \<Longrightarrow> 63 \<in> set (t @ [mem ! p]) \<and> plain_uri (t @ [mem ! p])) \<Longrightarrow>
      rl_post d mem p (Inl (sw_uri, r'))"
proof -
  note snoc = uri_open_snoc [OF assms(1-3) _ assms(4)]
  have st: "request_end r' = NULL" using assms(5) by (simp add: started_def)
  show "rl_post d mem p (Inl (sw_after_slash_in_uri, r'))" if "\<not> complex_uri r'" "\<not> quoted_uri r'"
      "\<And>t. t \<noteq> [] \<Longrightarrow> P t \<Longrightarrow> 63 \<notin> set (t @ [mem ! p]) \<and> plain_path (t @ [mem ! p])"
    using that assms(5,6) snoc [of "\<lambda>t. 63 \<notin> set t \<and> plain_path t"] st by (simp add: rl_post_def rl_inv_def)
  show "rl_post d mem p (Inl (sw_check_uri, r'))" if "\<not> complex_uri r'" "\<not> quoted_uri r'" "mem ! p \<noteq> 47"
      "\<And>t. t \<noteq> [] \<Longrightarrow> P t \<Longrightarrow> 63 \<notin> set (t @ [mem ! p]) \<and> plain_path (t @ [mem ! p])"
    using that assms(5,6) snoc [of "\<lambda>t. 63 \<notin> set t \<and> plain_path t \<and> last t \<noteq> 47"] st by (simp add: rl_post_def rl_inv_def)
  show "rl_post d mem p (Inl (sw_uri, r'))"
    if "\<And>t. t \<noteq> [] \<Longrightarrow> P t \<Longrightarrow> \<not> complex_uri r' \<and> \<not> quoted_uri r' \<Longrightarrow> 63 \<in> set (t @ [mem ! p]) \<and> plain_uri (t @ [mem ! p])"
    using that assms(5,6) snoc [of "\<lambda>t. \<not> complex_uri r' \<and> \<not> quoted_uri r' \<longrightarrow> 63 \<in> set t \<and> plain_uri t"] st by (simp add: rl_post_def rl_inv_def)
qed

lemma usual_plain: "usual_set c \<Longrightarrow> c \<notin> {35, 37, 43, 46, 47, 63}"
  using not_usual(2-) by auto

lemma started_fields [simp]:
  "started (r\<lparr>complex_uri := b\<rparr>) = started r" "started (r\<lparr>quoted_uri := b\<rparr>) = started r" "started (r\<lparr>plus_in_uri := b\<rparr>) = started r"
  "started (r\<lparr>uri_ext := x\<rparr>) = started r" "started (r\<lparr>args_start := x\<rparr>) = started r"
  by (simp_all add: started_def)

lemma uri_step_byte:
  assumes "rl_uri_step state p ch r = Some v" and "state \<in> {sw_after_slash_in_uri, sw_check_uri, sw_uri}"
    and "usual_set ch \<or> rl_uri_end p ch r = None"
  shows "uri_byte ch \<or> (\<exists>e r. v = Inr (Rejected e r))"
  using assms uri_byte_cases [of ch] by (auto simp: rl_uri_step_def is_usual_ok rl_uri_end_def outcomes split: if_splits)

lemma after_slash_inv:
  assumes "rl_inv d mem p (sw_after_slash_in_uri, r)" and "p < length mem" and "rl_uri_step sw_after_slash_in_uri p (mem ! p) r = Some v"
  shows "rl_post d mem p v"
proof (cases "usual_set (mem ! p) \<or> rl_uri_end p (mem ! p) r = None")
  case False
  then show ?thesis using assms(1-3) plain_uri_path
    by (intro uri_end_inv [of "\<lambda>t. 63 \<notin> set t \<and> plain_path t" mem p r d]) (auto simp: rl_inv_def rl_uri_step_def is_usual_ok)
next
  case True
  have go: "uri_open (\<lambda>t. 63 \<notin> set t \<and> plain_path t) mem p r" "method_read d mem (Suc p) r" "started r"
    using assms(1) by (auto simp: rl_inv_def)
  note N = uri_next [OF go(1) assms(2)]
  show ?thesis
  proof (cases "uri_byte (mem ! p)")
    case b: True
    show ?thesis using assms(1,3) True go(2,3) usual_plain [of "mem ! p"] b
      by (auto simp: rl_uri_step_def is_usual_ok outcomes rl_inv_def plain_path_snoc plain_uri_query split: if_splits intro!: N) (auto simp: rl_post_def)
  qed (use uri_step_byte [OF assms(3) _ True] in \<open>auto simp: rl_post_def\<close>)
qed

lemma check_uri_inv:
  assumes "rl_inv d mem p (sw_check_uri, r)" and "p < length mem" and "rl_uri_step sw_check_uri p (mem ! p) r = Some v"
  shows "rl_post d mem p v"
proof (cases "usual_set (mem ! p) \<or> rl_uri_end p (mem ! p) r = None")
  case False
  then show ?thesis using assms(1-3) plain_uri_path
    by (intro uri_end_inv [of "\<lambda>t. 63 \<notin> set t \<and> plain_path t \<and> last t \<noteq> 47" mem p r d]) (auto simp: rl_inv_def rl_uri_step_def is_usual_ok)
next
  case True
  have go: "uri_open (\<lambda>t. 63 \<notin> set t \<and> plain_path t \<and> last t \<noteq> 47) mem p r" "method_read d mem (Suc p) r" "started r"
    using assms(1) by (auto simp: rl_inv_def)
  note N = uri_next [OF go(1) assms(2)]
  show ?thesis
  proof (cases "uri_byte (mem ! p)")
    case b: True
    show ?thesis using assms(1,3) True go(2,3) usual_plain [of "mem ! p"] b
      by (auto simp: rl_uri_step_def is_usual_ok outcomes rl_inv_def plain_path_snoc plain_uri_query split: if_splits intro!: N) (auto simp: rl_post_def)
  qed (use uri_step_byte [OF assms(3) _ True] in \<open>auto simp: rl_post_def\<close>)
qed

lemma in_uri_inv:
  assumes "rl_inv d mem p (sw_uri, r)" and "p < length mem" and "rl_uri_step sw_uri p (mem ! p) r = Some v"
  shows "rl_post d mem p v"
proof (cases "usual_set (mem ! p) \<or> rl_uri_end p (mem ! p) r = None")
  case False
  then show ?thesis using assms(1-3) plain_uri_path
    by (intro uri_end_inv [of "\<lambda>t. \<not> complex_uri r \<and> \<not> quoted_uri r \<longrightarrow> 63 \<in> set t \<and> plain_uri t" mem p r d]) (auto simp: rl_inv_def rl_uri_step_def is_usual_ok)
next
  case True
  have go: "uri_open (\<lambda>t. \<not> complex_uri r \<and> \<not> quoted_uri r \<longrightarrow> 63 \<in> set t \<and> plain_uri t) mem p r" "method_read d mem (Suc p) r" "started r"
    using assms(1) by (auto simp: rl_inv_def)
  note N = uri_next [OF go(1) assms(2)]
  show ?thesis
  proof (cases "uri_byte (mem ! p)")
    case b: True
    show ?thesis using assms(1,3) True go(2,3) usual_plain [of "mem ! p"] b
      by (auto simp: rl_uri_step_def is_usual_ok outcomes rl_inv_def plain_uri_snoc split: if_splits intro!: N) (auto simp: rl_post_def)
  qed (use uri_step_byte [OF assms(3) _ True] in \<open>auto simp: rl_post_def\<close>)
qed


lemma uri_read_fields [simp]:
  "uri_read mem p (r\<lparr>http_protocol := x\<rparr>) = uri_read mem p r" "uri_read mem p (r\<lparr>http_major := n\<rparr>) = uri_read mem p r"
  "uri_read mem p (r\<lparr>http_version := n\<rparr>) = uri_read mem p r" "uri_read mem p (r\<lparr>http_minor := n\<rparr>) = uri_read mem p r" "uri_read mem p (r\<lparr>request_end := x\<rparr>) = uri_read mem p r"
  by (simp_all add: uri_read_def)

lemma digit_value: "\<not> (ch < 48 \<or> ch > 57) \<Longrightarrow> unat (ch - 48) \<le> 9" for ch :: u8
  by (simp add: word_less_nat_alt unat_sub_if' not_less) linarith

lemma digit_positive: "\<not> (ch < 49 \<or> ch > 57) \<Longrightarrow> unat (ch - 48) \<noteq> 0" for ch :: u8
  by (simp add: word_less_nat_alt unat_sub_if' not_less)

lemma path_end_fields [simp]:
  "path_end (r\<lparr>http_protocol := x\<rparr>) e = path_end r e" "path_end (r\<lparr>http_major := n\<rparr>) e = path_end r e" "path_end (r\<lparr>http_minor := n\<rparr>) e = path_end r e"
  "path_end (r\<lparr>request_end := x\<rparr>) e = path_end r e" "path_end (r\<lparr>http_version := n\<rparr>) e = path_end r e"
  by (simp_all add: path_end_def)

lemma version_text_fields [simp]:
  "version_text mem e p (r\<lparr>request_end := x\<rparr>) = version_text mem e p r" "version_text mem e p (r\<lparr>http_version := n\<rparr>) = version_text mem e p r"
  by (simp_all add: version_text_def protocol_read_def minor_read_def)

lemma protocol_snoc: "protocol_read mem e p r w \<Longrightarrow> e < p \<Longrightarrow> p < length mem \<Longrightarrow> http_protocol r' = http_protocol r \<Longrightarrow> protocol_read mem e (Suc p) r' (w @ [mem ! p])"
  by (auto simp: protocol_read_def seg_snoc)

lemma blanks_snoc: "seg mem e p = replicate n 32 \<Longrightarrow> e < p \<Longrightarrow> p < length mem \<Longrightarrow> mem ! p = 32 \<Longrightarrow> seg mem e (Suc p) = replicate (Suc n) 32"
  by (simp add: seg_snoc replicate_append_same)

lemma protocol_start:
  "seg mem e p = replicate (Suc n) 32 \<Longrightarrow> e < p \<Longrightarrow> p < length mem \<Longrightarrow> mem ! p = 72 \<Longrightarrow> http_protocol r = Some p \<Longrightarrow> protocol_read mem e (Suc p) r [72]"
proof -
  assume a: "seg mem e p = replicate (Suc n) 32" "e < p" "p < length mem" "mem ! p = 72" "http_protocol r = Some p"
  have "length (seg mem e p) = p - e" using a(2,3) by (simp add: seg_def)
  then have "p = e + Suc n" using a(1,2) by simp
  then show ?thesis using a unfolding protocol_read_def by (intro exI [of _ n]) (simp add: seg_snoc)
qed

lemma decimal_snoc: "decimal (ds @ [c]) = decimal ds * 10 + unat (c - 48)"
  by (simp add: decimal_def)

lemma version_line_end:
  assumes "version_text mem e p r" and "e < p" "p < length mem"
  shows "mem ! p = CR \<Longrightarrow> version_state mem e (Suc p) sw_almost_done r" and "mem ! p = LF \<Longrightarrow> path_end r e \<Longrightarrow> version_read mem p (Suc p) r"
  using assms by (auto simp: version_state_def version_read_def seg_one intro!: exI [of _ e])

lemma version_text_blank:
  assumes "version_text mem e p r" and "http_major r = 1" and "e < p" "p < length mem" "mem ! p = 32"
  shows "version_text mem e (Suc p) r"
proof -
  obtain ds m where d: "minor_read r ds" "protocol_read mem e p r ([72, 84, 84, 80, 47, 49, 46] @ ds @ replicate m 32)" using assms(1,2) by (auto simp: version_text_def)
  have "protocol_read mem e (Suc p) r ([72, 84, 84, 80, 47, 49, 46] @ ds @ replicate (Suc m) 32)"
    using protocol_snoc [OF d(2) assms(3,4) refl] assms(5) by (simp add: replicate_append_same)
  then show ?thesis using d(1) assms(2) unfolding version_text_def by blast
qed

lemma minor_text: "http_major r = 1 \<Longrightarrow> minor_read r ds \<Longrightarrow> protocol_read mem e p r ([72, 84, 84, 80, 47, 49, 46] @ ds) \<Longrightarrow> version_text mem e p r"
  unfolding version_text_def by (metis append_Nil2 replicate_0)

lemma blanks_text: "http_major r = 0 \<Longrightarrow> seg mem e p = replicate n 32 \<Longrightarrow> version_text mem e p (r\<lparr>http_minor := 9\<rparr>)"
  unfolding version_text_def by auto

lemma major_one: "\<not> (ch < 49 \<or> ch > 57) \<Longrightarrow> \<not> Suc 0 < unat (ch - 48) \<Longrightarrow> ch = 49 \<and> unat (ch - 48) = Suc 0" for ch :: u8
  by (auto simp: word_less_nat_alt word_unat_eq_iff unat_sub_if' not_less split: if_splits)

lemma version_step_inv:
  assumes inv: "rl_inv d mem p (state, r)" and st: "state \<in> {sw_http_09, sw_http_H, sw_http_HT, sw_http_HTT, sw_http_HTTP, sw_first_major_digit,
      sw_major_digit, sw_first_minor_digit, sw_minor_digit, sw_spaces_after_digit, sw_almost_done}" and p: "p < length mem"
    and v: "rl_version_step state p (mem ! p) r = Some v"
  shows "rl_post d mem p v"
proof -
  have mr: "method_read d mem (Suc p) r" and ur: "uri_read mem (Suc p) r" and re: "request_end r = NULL" using inv st by (auto simp: rl_inv_def)
  obtain e where e: "path_end r e" "e < p" "version_state mem e p state r" using inv st by (auto simp: rl_inv_def)
  have post: "rl_post d mem p (Inl (state', r'))" if "method_read d mem (Suc p) r'" "uri_read mem (Suc p) r'" "request_end r' = NULL" "path_end r' e"
      "state' \<in> {sw_http_09, sw_http_H, sw_http_HT, sw_http_HTT, sw_http_HTTP, sw_first_major_digit, sw_major_digit, sw_first_minor_digit, sw_minor_digit, sw_spaces_after_digit,
        sw_almost_done}" "version_state mem e (Suc p) state' r'" for state' r'
  proof -
    have "\<exists>e. path_end r' e \<and> e < Suc p \<and> version_state mem e (Suc p) state' r'" using that(4,6) e(2) by (intro exI [of _ e]) simp
    then show ?thesis using that(1-3,5) by (auto simp: rl_post_def rl_inv_def)
  qed
  have fin: "rl_post d mem p (Inr (Finished r'))" if "mem ! p = LF" "method_read d mem (Suc p) r'" "uri_read mem (Suc p) r'"
      "version_read mem (case request_end r' of None \<Rightarrow> p | Some l \<Rightarrow> l) (Suc p) r'" for r'
    using that by (auto simp: rl_post_def line_read_def split: option.splits)
  have rej: "rl_post d mem p (Inr (Rejected x r'))" for x r' by (simp add: rl_post_def)
  note tools = rl_version_step_def outcomes Let_def
  have grow: "protocol_read mem e (Suc p) r (w @ [c])" if "protocol_read mem e p r w" "mem ! p = c" for w c using protocol_snoc [OF that(1) e(2) p refl] that(2) by simp
  from st show ?thesis
  proof (elim insertE emptyE)
    assume s: "state = sw_http_09"
    then obtain n where n: "http_major r = 0" "seg mem e p = replicate (Suc n) 32" using e(3) by (auto simp: version_state_def)
    note vt = version_line_end [OF blanks_text [OF n] e(2) p]
    have "version_state mem e (Suc p) sw_http_09 r" if "mem ! p = 32" using blanks_snoc [OF n(2) e(2) p that] n(1) unfolding version_state_def rl_state.case by blast
    moreover have "version_state mem e (Suc p) sw_http_H (r\<lparr>http_protocol := Some p\<rparr>)" if "mem ! p = 72" using protocol_start [OF n(2) e(2) p that] n(1) by (simp add: version_state_def)
    ultimately show ?thesis using v s mr ur re e(1) vt by (auto simp: tools split: if_splits intro!: post fin rej)
  next
    assume s: "state = sw_first_major_digit"
    then have "http_major r = 0" "protocol_read mem e p r [72, 84, 84, 80, 47]" using e(3) by (auto simp: version_state_def)
    then have "version_state mem e (Suc p) sw_major_digit (r\<lparr>http_major := Suc 0\<rparr>)" if "mem ! p = 49" using grow [OF _ that, of "[72, 84, 84, 80, 47]"]
      by (simp add: version_state_def protocol_read_def)
    then show ?thesis using v s mr ur re e(1) major_one [of "mem ! p"] by (auto simp: tools split: if_splits intro!: post rej)
  next
    assume s: "state = sw_major_digit"
    then have m: "http_major r = 1" "protocol_read mem e p r [72, 84, 84, 80, 47, 49]" using e(3) by (auto simp: version_state_def)
    then have "version_state mem e (Suc p) sw_first_minor_digit r" if "mem ! p = 46" using grow [OF _ that, of "[72, 84, 84, 80, 47, 49]"] by (simp add: version_state_def)
    then show ?thesis using v s mr ur re e(1) m(1) digit_value [of "mem ! p"] by (auto simp: tools bits16_def split: if_splits intro!: post rej)
  next
    assume s: "state = sw_first_minor_digit"
    then have m: "http_major r = 1" "protocol_read mem e p r [72, 84, 84, 80, 47, 49, 46]" using e(3) by (auto simp: version_state_def)
    have "version_state mem e (Suc p) sw_minor_digit (r\<lparr>http_minor := unat (mem ! p - 48)\<rparr>)" if d: "\<not> (mem ! p < 48 \<or> mem ! p > 57)"
    proof -
      have "minor_read (r\<lparr>http_minor := unat (mem ! p - 48)\<rparr>) [mem ! p]" using d digit_value [OF d] by (auto simp: minor_read_def is_digit_def decimal_def)
      moreover have "protocol_read mem e (Suc p) (r\<lparr>http_minor := unat (mem ! p - 48)\<rparr>) ([72, 84, 84, 80, 47, 49, 46] @ [mem ! p])" using protocol_snoc [OF m(2) e(2) p] by simp
      ultimately show ?thesis using m(1) unfolding version_state_def rl_state.case by auto
    qed
    then show ?thesis using v s mr ur re e(1) by (auto simp: tools split: if_splits intro!: post rej)
  next
    assume s: "state = sw_minor_digit"
    then obtain ds where m: "http_major r = 1" "minor_read r ds" "protocol_read mem e p r ([72, 84, 84, 80, 47, 49, 46] @ ds)" using e(3) by (auto simp: version_state_def)
    note vt = version_line_end [OF minor_text [OF m] e(2) p]
    have "version_state mem e (Suc p) sw_spaces_after_digit r" if "mem ! p = 32" using version_text_blank [OF minor_text [OF m] m(1) e(2) p that] m(1) by (simp add: version_state_def)
    moreover have "version_state mem e (Suc p) sw_minor_digit (r\<lparr>http_minor := bits16 (http_minor r * 10 + unat (mem ! p - 48))\<rparr>)"
      if d: "\<not> (mem ! p < 48 \<or> mem ! p > 57)" "\<not> 99 < http_minor r"
    proof -
      let ?n = "http_minor r * 10 + unat (mem ! p - 48)"
      have n: "bits16 ?n = ?n" "?n < 1000" using digit_value [OF d(1)] d(2) by (simp_all add: bits16_def)
      have "minor_read (r\<lparr>http_minor := ?n\<rparr>) (ds @ [mem ! p])" using m(2) n(2) d(1) by (auto simp: minor_read_def is_digit_def decimal_snoc)
      moreover have "protocol_read mem e (Suc p) (r\<lparr>http_minor := ?n\<rparr>) ([72, 84, 84, 80, 47, 49, 46] @ ds @ [mem ! p])" using protocol_snoc [OF m(3) e(2) p] by simp
      ultimately show ?thesis using m(1) unfolding version_state_def rl_state.case n(1) by auto
    qed
    ultimately show ?thesis using v s mr ur re e(1) vt by (auto simp: tools split: if_splits intro!: post fin rej)
  next
    assume s: "state = sw_spaces_after_digit"
    then have m: "http_major r = 1" "version_text mem e p r" using e(3) by (auto simp: version_state_def)
    note vt = version_line_end [OF m(2) e(2) p]
    have "version_state mem e (Suc p) sw_spaces_after_digit r" if "mem ! p = 32" using version_text_blank [OF m(2,1) e(2) p that] m(1) by (simp add: version_state_def)
    then show ?thesis using v s mr ur re e(1) vt by (auto simp: tools split: if_splits intro!: post fin rej)
  next
    assume s: "state = sw_almost_done"
    then obtain l where l: "p = Suc l" "e \<le> l" "version_text mem e l r" "mem ! l = CR" using e(3) by (auto simp: version_state_def)
    have "version_read mem l (Suc p) (r\<lparr>request_end := Some l\<rparr>)" if "mem ! p = LF"
      using that l e(1) p unfolding version_read_def by (auto simp: seg_snoc seg_one)
    then show ?thesis using v s mr ur l(1) by (auto simp: tools split: if_splits intro!: fin [unfolded l(1)] rej [unfolded l(1)])
  qed (use v mr ur re e grow [of "[72]" 84] grow [of "[72, 84]" 84] grow [of "[72, 84, 84]" 80] grow [of "[72, 84, 84, 80]" 47] in
      \<open>auto simp: tools version_state_def split: if_splits intro!: post rej\<close>)
qed

lemma version_read_fields [simp]:
  "version_read mem l p (r\<lparr>request_end := x\<rparr>) = version_read mem l p r" "version_read mem l p (r\<lparr>http_version := n\<rparr>) = version_read mem l p r"
  by (simp_all add: version_read_def)

lemma rl_step_inv:
  assumes "rl_inv d mem p s" and "p < length mem" and "le \<Longrightarrow> Suc p < length mem" and "rl_step le mem p (mem ! p) s = Some v"
  shows "rl_post d mem p v"
proof -
  obtain state r where s: "s = (state, r)" by (cases s)
  note inv = assms(1) [unfolded s]
  note v = assms(4) [unfolded s rl_step_def prod.case]
  consider "state \<in> {sw_start, sw_method}" | "state \<in> {sw_spaces_before_uri, sw_schema, sw_schema_slash, sw_schema_slash_slash}"
    | "state \<in> {sw_host_start, sw_host, sw_host_end, sw_host_ip_literal, sw_port}" | "state \<in> {sw_after_slash_in_uri, sw_check_uri, sw_uri}"
    | "state \<in> {sw_http_09, sw_http_H, sw_http_HT, sw_http_HTT, sw_http_HTTP, sw_first_major_digit,
      sw_major_digit, sw_first_minor_digit, sw_minor_digit, sw_spaces_after_digit, sw_almost_done}" by (cases state) auto
  then show ?thesis
  proof cases
    case 1
    then show ?thesis using v by (intro method_step_inv [OF inv 1 assms(2,3)]) auto
  next
    case 2
    then show ?thesis using v by (intro schema_step_inv [OF inv 2 assms(2)]) auto
  next
    case 3
    then show ?thesis using v by (intro host_step_inv [OF inv 3 assms(2)]) auto
  next
    case 4
    then show ?thesis using v inv assms(2) after_slash_inv check_uri_inv in_uri_inv by auto
  next
    case 5
    then show ?thesis using v by (intro version_step_inv [OF inv 5 assms(2)]) auto
  qed
qed

lemma rl_step_total:
  assumes "rl_inv d mem p s" and "p < length mem" and "le \<Longrightarrow> Suc p < length mem"
  shows "\<exists>v. rl_step le mem p (mem ! p) s = Some v"
proof -
  obtain state r where s: "s = (state, r)" by (cases s)
  have opts: "\<exists>v. goto st r = Some v" "\<exists>v. finish_line r = Some v" "\<exists>v. reject e r = Some v" for st r e by (simp_all add: outcomes)
  have ite: "\<exists>v. x = Some v \<Longrightarrow> \<exists>v. y = Some v \<Longrightarrow> \<exists>v. (if b then x else y) = Some v" for x y :: rl_result and b by simp
  have "\<exists>v. rl_method_step le mem sw_method p (mem ! p) r = Some v" if st: "state = sw_method"
  proof -
    obtain a where a: "request_start r = Some a" "a < p" using assms(1) s st by (auto simp: rl_inv_def)
    have "mem ! p = 32 \<Longrightarrow> \<exists>m. request_method le mem a (p - a) (http_method r) = Some m"
      using a(2) assms(2,3) by (subst request_method_ok) auto
    then show ?thesis using a(1) by (auto simp: rl_method_step_def outcomes)
  qed
  then show ?thesis unfolding s rl_step_def prod.case
    by (cases state) (simp_all add: rl_method_step_def rl_schema_step_def rl_host_step_def rl_host_def rl_host_end_def rl_empty_path_def rl_no_path_def rl_version_step_def
      rl_uri_step_def rl_uri_end_def is_usual_ok Let_def ite opts)
qed

section \<open>Reading a well-formed line\<close>

definition request_text :: "bytes \<Rightarrow> bytes \<Rightarrow> nat \<Rightarrow> bytes" where
  \<comment> \<open>\<open>METHOD SP URI SP HTTP/1.k CRLF\<close>\<close>
  "request_text m u k = m @ [32] @ u @ [32] @ [72, 84, 84, 80, 47, 49, 46, 48 + of_nat k, CR, LF]"

lemma method_char_not: "method_char c \<Longrightarrow> c \<noteq> 13 \<and> c \<noteq> 10 \<and> c \<noteq> 32"
  by (auto simp: method_char_def)

lemma scan_method:
  assumes "m \<noteq> []" and "\<forall>c\<in>set m. method_char c"
  shows "scan (rl_step le mem) pos (m @ ys) (sw_start, r) = scan (rl_step le mem) (pos + length m) ys (sw_method, r\<lparr>request_start := Some pos\<rparr>)"
proof -
  let ?f = "\<lambda>i :: nat. if i = 0 then (sw_start, r) else (sw_method, r\<lparr>request_start := Some pos\<rparr>)"
  have "scan (rl_step le mem) pos (m @ ys) (?f 0) = scan (rl_step le mem) (pos + length m) ys (?f (length m))"
  proof (rule scan_run [where f = ?f])
    fix i assume "i < length m"
    then have "method_char (m ! i)" using assms(2) by simp
    then show "rl_step le mem (pos + i) (m ! i) (?f i) = Some (Inl (?f (Suc i)))"
      using method_char_not [of "m ! i"] by (cases "i = 0") (auto simp: rl_step_def rl_method_step_def outcomes Let_def)
  qed
  then show ?thesis using assms(1) by simp
qed

definition same_line :: "ngx_http_request \<Rightarrow> ngx_http_request \<Rightarrow> bool" where
  "same_line r r' = (request_start r' = request_start r \<and> request_end r' = request_end r \<and> method_end r' = method_end r \<and>
     http_method r' = http_method r \<and> uri_start r' = uri_start r)"

lemma uri_byte_step:
  assumes "uri_byte c" and "state \<in> {sw_after_slash_in_uri, sw_check_uri, sw_uri}"
  shows "\<exists>state' r'. rl_step le mem p c (state, r) = Some (Inl (state', r')) \<and> state' \<in> {sw_after_slash_in_uri, sw_check_uri, sw_uri} \<and> same_line r r'"
proof -
  let ?ok = "\<lambda>v. \<exists>state' r'. v = Some (Inl (state', r')) \<and> state' \<in> {sw_after_slash_in_uri, sw_check_uri, sw_uri} \<and> same_line r r'"
  have go: "st \<in> {sw_after_slash_in_uri, sw_check_uri, sw_uri} \<Longrightarrow> same_line r r' \<Longrightarrow> ?ok (goto st r')" for st r' unfolding goto_def by blast
  have ite: "?ok X \<Longrightarrow> ?ok Y \<Longrightarrow> ?ok (if b then X else Y)" for X Y b by simp
  have c: "c \<noteq> 32" "c \<noteq> 13" "c \<noteq> 10" "\<not> c < 0x20" "c \<noteq> 0x7f" using assms(1) by (auto simp: uri_byte_def)
  have none: "rl_uri_end p c r = None" using c by (simp add: rl_uri_end_def)
  from assms(2) consider "state = sw_after_slash_in_uri" | "state = sw_check_uri" | "state = sw_uri" by blast
  then have "?ok (rl_uri_step state p c r)"
    by cases (simp_all only: rl_uri_step_def is_usual_ok bind.simps none c rl_state.case if_False simp_thms option.case,
      (intro ite go; simp add: same_line_def)+)
  then show ?thesis using assms(2) by (auto simp: rl_step_def)
qed

lemma scan_uri:
  assumes "\<forall>c\<in>set t. uri_byte c" and "state \<in> {sw_after_slash_in_uri, sw_check_uri, sw_uri}"
  shows "\<exists>state' r'. scan (rl_step le mem) p (t @ ys) (state, r) = scan (rl_step le mem) (p + length t) ys (state', r') \<and>
    state' \<in> {sw_after_slash_in_uri, sw_check_uri, sw_uri} \<and> same_line r r'"
  using assms
proof (induction t arbitrary: p state r)
  case Nil
  then show ?case by (auto simp: same_line_def)
next
  case (Cons c t)
  obtain state' r' where s: "rl_step le mem p c (state, r) = Some (Inl (state', r'))" "state' \<in> {sw_after_slash_in_uri, sw_check_uri, sw_uri}" "same_line r r'"
    using uri_byte_step [of c state le mem p r] Cons.prems by auto
  obtain state2 r2 where "scan (rl_step le mem) (p + 1) (t @ ys) (state', r') = scan (rl_step le mem) (p + 1 + length t) ys (state2, r2)"
      "state2 \<in> {sw_after_slash_in_uri, sw_check_uri, sw_uri}" "same_line r' r2"
    using Cons.IH [of state' "p + 1" r'] Cons.prems(1) s(2) by auto
  then show ?case using s by (auto simp: same_line_def)
qed

lemma scan_version:
  assumes "state \<in> {sw_after_slash_in_uri, sw_check_uri, sw_uri}" and "k \<le> 9"
  shows "\<exists>r'. scan (rl_step le mem) p ([32, 72, 84, 84, 80, 47, 49, 46, 48 + of_nat k, CR, LF] @ ys) (state, r) = Some (p + 10, Inr (Finished r')) \<and>
    same_line (r\<lparr>request_end := Some (p + 9)\<rparr>) r' \<and> uri_end r' = Some p \<and> http_major r' = 1 \<and> http_minor r' = k"
proof -
  have k: "48 + of_nat k \<le> (57 :: u8)" "(48 :: u8) \<le> 48 + of_nat k" "unat (of_nat k :: u8) = k"
    using assms(2) by (auto simp: word_le_nat_alt unat_word_ariths unat_of_nat)
  have "rl_step le mem p 32 (state, r) = Some (Inl (sw_http_09, r\<lparr>uri_end := Some p\<rparr>))"
    using assms(1) by (auto simp: rl_step_def rl_uri_step_def is_usual_ok not_usual rl_uri_end_def goto_def)
  then show ?thesis using k
    by (simp add: rl_step_def rl_version_step_def outcomes Let_def same_line_def not_less)
qed

lemma scan_line_text:
  assumes m: "m \<noteq> []" "\<forall>c\<in>set m. method_char c" and u: "\<forall>c\<in>set u. uri_byte c" and k: "k \<le> 9"
    and mem: "mem = before @ request_text m (47 # u) k @ ys"
  shows "\<exists>r'. scan (rl_step le mem) (length before) (request_text m (47 # u) k @ zs) (sw_start, r) =
      Some (length before + length m + length u + 12, Inr (Finished r')) \<and>
    request_start r' = Some (length before) \<and> method_end r' = Some (length before + length m - 1) \<and> http_method r' = method_code m (http_method r) \<and>
    uri_start r' = Some (length before + length m + 1) \<and> uri_end r' = Some (length before + length m + length u + 2) \<and>
    request_end r' = Some (length before + length m + length u + 11) \<and> http_major r' = 1 \<and> http_minor r' = k"
proof -
  let ?a = "length before" and ?p = "length before + length m"
  let ?tail = "[32, 72, 84, 84, 80, 47, 49, 46, 48 + of_nat k, CR, LF] @ zs"
  let ?r1 = "r\<lparr>request_start := Some ?a\<rparr>"
  let ?r2 = "?r1\<lparr>method_end := Some (?p - 1), http_method := method_code m (http_method r)\<rparr>"
  have line: "request_text m (47 # u) k @ zs = m @ 32 # 47 # u @ ?tail" by (simp add: request_text_def)
  have "request_method le mem ?a (length m) (http_method r) = Some (method_code (take (length m) (drop ?a mem)) (http_method r))"
    by (rule request_method_ok) (simp_all add: mem request_text_def nth_append)
  then have blank: "rl_step le mem ?p 32 (sw_method, ?r1) = Some (Inl (sw_spaces_before_uri, ?r2))"
    by (simp add: rl_step_def rl_method_step_def outcomes mem request_text_def)
  have slash: "rl_step le mem (?p + 1) 47 (sw_spaces_before_uri, ?r2) = Some (Inl (sw_after_slash_in_uri, ?r2\<lparr>uri_start := Some (?p + 1)\<rparr>))"
    by (simp add: rl_step_def rl_schema_step_def outcomes)
  obtain st r3 where r3: "scan (rl_step le mem) (?p + 2) (u @ ?tail) (sw_after_slash_in_uri, ?r2\<lparr>uri_start := Some (?p + 1)\<rparr>) =
      scan (rl_step le mem) (?p + 2 + length u) ?tail (st, r3)" "st \<in> {sw_after_slash_in_uri, sw_check_uri, sw_uri}"
      "same_line (?r2\<lparr>uri_start := Some (?p + 1)\<rparr>) r3"
    using scan_uri [OF u, of sw_after_slash_in_uri] by blast
  obtain r4 where r4: "scan (rl_step le mem) (?p + 2 + length u) ?tail (st, r3) = Some (?p + 2 + length u + 10, Inr (Finished r4))"
      "same_line (r3\<lparr>request_end := Some (?p + 2 + length u + 9)\<rparr>) r4" "uri_end r4 = Some (?p + 2 + length u)" "http_major r4 = 1" "http_minor r4 = k"
    using scan_version [OF r3(2) k] by blast
  have "scan (rl_step le mem) ?a (request_text m (47 # u) k @ zs) (sw_start, r) = Some (?p + length u + 12, Inr (Finished r4))"
    using scan_method [OF m] r3(1) r4(1) blank slash by (simp add: line add_ac del: append_Cons append.simps)
  then show ?thesis using r3(3) r4(2-5) by (simp add: same_line_def add_ac)
qed

section \<open>The theorems\<close>

definition fresh_request :: "ngx_http_request \<Rightarrow> bool" where
  \<comment> \<open>the fields as \<open>ngx_pcalloc\<close> leaves them\<close>
  "fresh_request r = (request_end r = NULL \<and> http_major r = 0 \<and> \<not> complex_uri r \<and> \<not> quoted_uri r)"

lemma scan_line:
  assumes "pos \<le> lim" and "lim \<le> length mem" and "le \<longrightarrow> lim < length mem" and "rl_inv d mem pos s"
  shows "(\<exists>s'. scan (rl_step le mem) pos (take (lim - pos) (drop pos mem)) s = Some (lim, Inl s') \<and> rl_inv d mem lim s') \<or>
    (\<exists>q x. scan (rl_step le mem) pos (take (lim - pos) (drop pos mem)) s = Some (q, Inr x) \<and> rl_post d mem q (Inr x))"
proof -
  let ?xs = "take (lim - pos) (drop pos mem)"
  have at: "pos + i < length mem" "le \<Longrightarrow> Suc (pos + i) < length mem" "?xs ! i = mem ! (pos + i)" if "i < length ?xs" for i
    using that assms(1-3) by auto
  have len: "pos + length ?xs = lim" using assms(1,2) by simp
  have total: "rl_step le mem (pos + i) (?xs ! i) s \<noteq> None" if "i < length ?xs" "rl_inv d mem (pos + i) s" for i s
    using rl_step_total [OF that(2), of le] at [OF that(1)] by auto
  have post: "rl_post d mem (pos + i) v" if "i < length ?xs" "rl_inv d mem (pos + i) s" "rl_step le mem (pos + i) (?xs ! i) s = Some v" for i s v
    using rl_step_inv [OF that(2), of le v] at [OF that(1)] that(3) by auto
  have inl: "rl_inv d mem (Suc (pos + i)) s'" if "i < length ?xs" "rl_inv d mem (pos + i) s" "rl_step le mem (pos + i) (?xs ! i) s = Some (Inl s')" for i s s'
    using post [OF that] by (simp add: rl_post_def)
  show ?thesis using scan_inv [of "rl_inv d mem" pos s ?xs "rl_step le mem" "\<lambda>q x. rl_post d mem q (Inr x)", OF assms(4) total inl post] unfolding len .
qed


text \<open>
  The byte more is needed: when the blank behind \<open>DELETE\<close> is the last readable byte, the word-wise variant reads behind it.
\<close>

lemma request_line_overread:
  assumes "mem = before @ [68, 69, 76, 69, 84, 69, 32]"
  shows "ngx_http_parse_request_line True mem (sw_start, r) (length before) (length mem) = None"
proof -
  let ?m = "[68, 69, 76, 69, 84, 69] :: bytes"
  have rd: "mem_read mem (int (length before)) (length mem - length before) = Some (?m @ [32])" by (simp add: mem_read_nat assms)
  have "request_method True mem (length before) 6 d = None" for d
    by (simp add: request_method_def ngx_str6cmp_def word_is_cases get32_cases both_def assms nth_append)
  then have "rl_step True mem (length before + 6) 32 (sw_method, r\<lparr>request_start := Some (length before)\<rparr>) = None" by (simp add: rl_step_def rl_method_step_def)
  then have "scan (rl_step True mem) (length before + length ?m) [32] (sw_method, r\<lparr>request_start := Some (length before)\<rparr>) = None" by (simp add: eval_nat_numeral)
  then have "scan (rl_step True mem) (length before) (?m @ [32]) (sw_start, r) = None" using scan_method [of ?m True mem "length before" "[32]" r] by (simp add: method_char_def del: scan.simps)
  then show ?thesis by (simp add: ngx_http_parse_request_line_def rd del: append.simps scan.simps)
qed

text \<open>
  C12: How the bytes of a request line arrive makes no difference. When the buffer is filled by several reads
  and the parser is called after each of them as long as it answers \<open>NGX_AGAIN\<close>, the answer, the request and
  the position are those of one call on the whole buffer (after an error, the answer and the request: the
  state and the position then stay those before the call).
\<close>

theorem request_line_resumes:
  assumes "grows pos arrivals whole lim" and "lim \<le> length whole" and "arrivals \<noteq> []"
  shows "map_option rl_view (feed (ngx_http_parse_request_line le) s pos arrivals) = map_option rl_view (ngx_http_parse_request_line le whole s pos lim)"
  using assms by (rule rl.feed_pieces)

text \<open>
  C10: A request line of a method name, a blank, a URI that starts with a slash and has no blanks or control
  characters, a blank, \<open>HTTP/1.k\<close> and CR LF is accepted, wherever it lies in the buffer and whatever follows it, by
  both variants of the comparisons: the pointers delimit exactly the method, the URI and the line, \<open>method\<close> is
  the code of the method, the version is \<open>1000 + k\<close>, and the next byte to read is the one behind the line.
\<close>

theorem request_line_accepted:
  assumes "m \<noteq> []" and "\<forall>c\<in>set m. method_char c" and "\<forall>c\<in>set u. uri_byte c" and "k \<le> 9"
    and "mem = before @ request_text m (47 # u) k @ after" and "length before + length (request_text m (47 # u) k) \<le> lim" and "lim \<le> length mem"
  shows "\<exists>r'. ngx_http_parse_request_line le mem (sw_start, r) (length before) lim =
      Some (NGX_OK, (sw_start, r'), length before + length (request_text m (47 # u) k)) \<and>
    request_start r' = Some (length before) \<and> method_end r' = Some (length before + length m - 1) \<and> http_method r' = method_code m (http_method r) \<and>
    uri_start r' = Some (length before + length m + 1) \<and> uri_end r' = Some (length before + length m + 1 + length (47 # u)) \<and>
    request_end r' = Some (length before + length (request_text m (47 # u) k) - 2) \<and> http_version r' = 1000 + k"
proof -
  have len: "length (request_text m (47 # u) k) = length m + length u + 13" by (simp add: request_text_def)
  let ?zs = "take (lim - length before - (length m + length u + 13)) after"
  have "take (lim - length before) (drop (length before) mem) = request_text m (47 # u) k @ ?zs"
    using assms(6) by (simp add: assms(5) len take_append)
  then have rd: "mem_read mem (int (length before)) (lim - length before) = Some (request_text m (47 # u) k @ ?zs)"
    using assms(6,7) len by (simp add: mem_read_nat)
  obtain r' where r': "scan (rl_step le mem) (length before) (request_text m (47 # u) k @ ?zs) (sw_start, r) =
      Some (length before + length m + length u + 12, Inr (Finished r'))"
    "request_start r' = Some (length before)" "method_end r' = Some (length before + length m - 1)" "http_method r' = method_code m (http_method r)"
    "uri_start r' = Some (length before + length m + 1)" "uri_end r' = Some (length before + length m + length u + 2)"
    "request_end r' = Some (length before + length m + length u + 11)" "http_major r' = 1" "http_minor r' = k"
    using scan_line_text [OF assms(1-5)] by blast
  then show ?thesis by (auto simp: ngx_http_parse_request_line_def rd rl_finish_def Let_def len)
qed

section \<open>Witnesses\<close>

definition request0 :: ngx_http_request where
  "request0 = \<lparr>request_start = NULL, request_end = NULL, method_end = NULL, schema_start = NULL, schema_end = NULL, host_start = NULL, host_end = NULL,
     uri_start = NULL, uri_end = NULL, uri_ext = NULL, args_start = NULL, http_protocol = NULL, http_method = NGX_HTTP_UNKNOWN, http_minor = 0,
     http_major = 0, http_version = 0, complex_uri = False, quoted_uri = False, plus_in_uri = False, empty_path_in_uri = False\<rparr>"

definition get_x :: bytes where
  \<comment> \<open>\<open>GET /a HTTP/1.1\<close>\<close>
  "get_x = [71, 69, 84, 32, 47, 97, 32, 72, 84, 84, 80, 47, 49, 46, 49, 13, 10]"


lemma request_line_resumes_witness:
  "map_option rl_view (feed (ngx_http_parse_request_line False) (sw_start, request0) 0 [([71, 0], 1), ([71, 69], 2)]) =
    map_option rl_view (ngx_http_parse_request_line False [71, 69] (sw_start, request0) 0 2)"
  using request_line_resumes [of 0 "[([71, 0], 1), ([71, 69], 2)]" "[71, 69]" 2 False] by simp

lemma request_line_accepted_witness:
  "\<exists>r'. ngx_http_parse_request_line True get_x (sw_start, request0) 0 17 = Some (NGX_OK, (sw_start, r'), 17) \<and>
    http_method r' = NGX_HTTP_GET \<and> uri_start r' = Some 4 \<and> uri_end r' = Some 6 \<and> http_version r' = 1001"
proof -
  have x: "request_text [71, 69, 84] [47, 97] 1 = get_x" by (simp add: request_text_def get_x_def)
  show ?thesis using request_line_accepted [of "[71, 69, 84]" "[97]" 1 get_x "[]" "[]" 17 True request0] unfolding x
    by (auto simp: get_x_def method_char_def uri_byte_def method_code_def methods_def)
qed

end
