(* ===== verification/Ngx_Http_Complex_Uri_Spec.thy ===== *)
theory Ngx_Http_Complex_Uri_Spec
  imports Ngx_Http_Complex_Uri Ngx_Http_Request_Line_Spec
begin

text \<open>
  \<open>ngx_http_parse_complex_uri\<close> against a reference in two passes: first decode the escapes of the path, then resolve
  its segments against a stack of directories. The one-pass machine, which rewrites its output buffer as it
  goes, is shown to compute the same path, extension and query.
\<close>

section \<open>Reference\<close>

definition hex_digit_value :: "u8 \<Rightarrow> u8 option" where
  "hex_digit_value c = (if is_digit c then Some (c - 48) else if 97 \<le> c OR 0x20 \<and> c OR 0x20 \<le> 102 then Some ((c OR 0x20) - 97 + 10) else None)"

fun decode_path :: "bytes \<Rightarrow> bytes option" where
  \<comment> \<open>the path of a URI, up to the query or fragment, with its escapes decoded; no escape may stand for NUL\<close>
  "decode_path [] = Some []"
| "decode_path (c # cs) =
     (if c = 63 \<or> c = 35 then Some []
      else if c = 37 then
        (case cs of
           a # b # ds \<Rightarrow>
             (case (hex_digit_value a, hex_digit_value b) of
                (Some x, Some y) \<Rightarrow> if 16 * x + y = 0 then None else map_option (\<lambda>ds. (16 * x + y) # ds) (decode_path ds)
              | _ \<Rightarrow> None)
         | _ \<Rightarrow> None)
      else map_option (\<lambda>cs. c # cs) (decode_path cs))"

fun split_path :: "bytes \<Rightarrow> bytes list" where
  "split_path [] = [[]]"
| "split_path (c # cs) = (if c = 47 then [] # split_path cs else (c # hd (split_path cs)) # tl (split_path cs))"

definition render :: "bytes list \<Rightarrow> bytes \<Rightarrow> bytes" where
  \<comment> \<open>the path of a stack of directories, the innermost first, and a last segment\<close>
  "render S s = 47 # concat (map (\<lambda>x. x @ [47]) (rev S)) @ s"

definition close_segment :: "bool \<Rightarrow> bytes list \<Rightarrow> bytes \<Rightarrow> bytes list option" where
  \<comment> \<open>a segment with a slash behind it\<close>
  "close_segment merge S s =
     (if s = [46] then Some S
      else if s = [46, 46] then (case S of [] \<Rightarrow> None | _ # S \<Rightarrow> Some S)
      else if s = [] \<and> merge then Some S
      else Some (s # S))"

definition last_segment :: "bytes list \<Rightarrow> bytes \<Rightarrow> bytes option" where
  "last_segment S s =
     (if s = [46] then Some (render S [])
      else if s = [46, 46] then (case S of [] \<Rightarrow> None | _ # S \<Rightarrow> Some (render S []))
      else Some (render S s))"

fun resolve :: "bool \<Rightarrow> bytes list \<Rightarrow> bytes list \<Rightarrow> bytes option" where
  "resolve merge S [] = None"
| "resolve merge S [s] = last_segment S s"
| "resolve merge S (s # t # ss) = Option.bind (close_segment merge S s) (\<lambda>S. resolve merge S (t # ss))"

definition normal_path :: "bool \<Rightarrow> bytes \<Rightarrow> bytes option" where
  \<comment> \<open>a path without its first slash, segment by segment\<close>
  "normal_path merge path = resolve merge [] (split_path path)"

section \<open>Character by character\<close>

fun walk_path :: "bool \<Rightarrow> bytes list \<Rightarrow> bytes \<Rightarrow> bytes \<Rightarrow> bytes option" where
  "walk_path merge S cur [] = last_segment S cur"
| "walk_path merge S cur (c # cs) =
     (if c = 47 then Option.bind (close_segment merge S cur) (\<lambda>S. walk_path merge S [] cs) else walk_path merge S (cur @ [c]) cs)"

lemma split_path_ne [simp]: "split_path cs \<noteq> []"
  by (cases cs) simp_all

lemma walk_resolve: "walk_path merge S cur cs = resolve merge S ((cur @ hd (split_path cs)) # tl (split_path cs))"
proof (induction cs arbitrary: S cur)
  case (Cons c cs)
  obtain t ss where t: "split_path cs = t # ss" using split_path_ne [of cs] by (cases "split_path cs") auto
  show ?case using Cons.IH by (simp add: t)
qed simp

lemma normal_path_walk: "normal_path merge path = walk_path merge [] [] path"
  by (simp add: normal_path_def walk_resolve)

definition outcome :: "bool \<Rightarrow> bytes list \<Rightarrow> bytes \<Rightarrow> bytes \<Rightarrow> bytes option" where
  \<comment> \<open>what is to come of the rest of a URI\<close>
  "outcome merge S cur rest = Option.bind (decode_path rest) (walk_path merge S cur)"

lemma outcome_char:
  assumes "c \<noteq> 63" and "c \<noteq> 35" and "c \<noteq> 37"
  shows "outcome merge S cur (c # rest) = (if c = 47 then Option.bind (close_segment merge S cur) (\<lambda>S. outcome merge S [] rest) else outcome merge S (cur @ [c]) rest)"
  using assms by (cases "decode_path rest"; cases "close_segment merge S cur") (simp_all add: outcome_def)

lemma outcome_escape:
  assumes "hex_digit_value a = Some x" and "hex_digit_value b = Some y" and "v = 16 * x + y"
  shows "outcome merge S cur (37 # a # b # rest) = (if v = 0 then None else if v = 47 then Option.bind (close_segment merge S cur) (\<lambda>S. outcome merge S [] rest)
    else outcome merge S (cur @ [v]) rest)"
proof -
  have "decode_path (37 # a # b # rest) = (if v = 0 then None else map_option (\<lambda>ds. v # ds) (decode_path rest))" using assms(1,2) by (simp add: assms(3))
  then show ?thesis by (cases "decode_path rest"; cases "close_segment merge S cur") (simp_all add: outcome_def del: decode_path.simps)
qed

section \<open>The output buffer\<close>

definition written :: "bytes \<Rightarrow> int \<Rightarrow> bytes \<Rightarrow> bool" where
  "written out u w = (u = int (length w) \<and> take (length w) out = w)"

lemma take_len: "take n out = w \<Longrightarrow> length w = n \<Longrightarrow> n \<le> length out"
  by (cases "n \<le> length out") auto

lemma written_len: "written out u w \<Longrightarrow> length w \<le> length out"
  unfolding written_def by (rule take_len) auto

lemma render_snoc: "render S (cur @ [c]) = render S cur @ [c]" "render (cur # S) [] = render S cur @ [47]"
  by (simp_all add: render_def)

lemma cu_put_ok:
  assumes "written (cu_out s) (cu_u s) w" and "length w < length (cu_out s)"
  shows "\<exists>out. cu_put c s = Some (s\<lparr>cu_out := out, cu_u := cu_u s + 1\<rparr>) \<and> written out (cu_u s + 1) (w @ [c]) \<and> length out = length (cu_out s)"
  using assms by (auto simp: cu_put_def written_def arr_set_nat take_Suc_conv_app_nth)

lemma climb_back:
  assumes "take (Suc (length w + length x)) out = w @ [47] @ x" and "47 \<notin> set x"
  shows "climb out (int (length w + length x)) = Some (Some (int (length w) + 1))"
  using assms
proof (induction x rule: rev_induct)
  case Nil
  then have len: "length w < length out" using take_len [OF Nil(1)] by simp
  then have "out ! length w = 47" using Nil(1) by (simp add: take_Suc_conv_app_nth)
  then show ?case using len by (subst climb.simps) (simp add: arr_get_nat)
next
  case (snoc c x)
  have len: "Suc (length w + length x) < length out" using take_len [OF snoc.prems(1)] by simp
  then have "take (Suc (length w + length x)) out = w @ [47] @ x" "out ! Suc (length w + length x) = c" using snoc.prems(1) by (simp_all add: take_Suc_conv_app_nth)
  moreover have "arr_get out (int (Suc (length w + length x))) = Some (out ! Suc (length w + length x))" using len by (rule arr_get_nat)
  ultimately show ?case using snoc by (subst climb.simps) (simp add: add_ac)
qed

lemma climb_segment:
  assumes "written out u (render (x # S) [46, 46])" and "47 \<notin> set x"
  shows "\<exists>u'. climb out (u - 4) = Some (Some u') \<and> written out u' (render S [])"
proof -
  let ?w = "concat (map (\<lambda>x. x @ [47]) (rev S))"
  obtain w where w: "render S [] = w @ [47]" by (cases S) (simp_all add: render_def)
  have r: "render (x # S) [46, 46] = (w @ [47] @ x) @ [47, 46, 46]" using w by (simp add: render_def)
  have t: "take (Suc (length w + length x)) out = w @ [47] @ x"
    using assms(1) arg_cong [of "take (length (render (x # S) [46, 46])) out" _ "take (Suc (length w + length x))"] unfolding written_def r
    by (simp add: min_def)
  have "u - 4 = int (length w + length x)" using assms(1) by (simp add: written_def r)
  moreover have "take (Suc (length w)) (take (Suc (length w + length x)) out) = w @ [47]" unfolding t by simp
  then have "take (Suc (length w)) out = w @ [47]" by (simp add: min_def)
  ultimately show ?thesis using climb_back [OF t assms(2)] by (auto simp: written_def w)
qed

lemma climb_root: "written out u (render [] [46, 46]) \<Longrightarrow> climb out (u - 4) = Some None"
  by (simp add: written_def render_def climb.simps)

section \<open>One character of the path\<close>

definition state_of :: "bytes \<Rightarrow> cu_state" where
  "state_of cur = (if cur = [] then sw_slash else if cur = [46] then sw_dot else if cur = [46, 46] then sw_dot_dot else sw_usual)"

definition ext_ok :: "cu_vars \<Rightarrow> bytes list \<Rightarrow> bytes \<Rightarrow> bool" where
  "ext_ok s S cur = (\<forall>e. cu_ext s = Some e \<longrightarrow> state_of cur = sw_usual \<and> (\<exists>a b. cur = a @ [46] @ b \<and> e = int (length (render S a)) + 1))"

definition tracks :: "cu_vars \<Rightarrow> bytes list \<Rightarrow> bytes \<Rightarrow> bool" where
  \<comment> \<open>the directories and the segment read so far\<close>
  "tracks s S cur = (cu_state s = state_of cur \<and> written (cu_out s) (cu_u s) (render S cur) \<and> (\<forall>x\<in>set S. 47 \<notin> set x) \<and> 47 \<notin> set cur \<and> ext_ok s S cur)"

definition keeps :: "cu_vars \<Rightarrow> cu_vars \<Rightarrow> bool" where
  "keeps s s' = (cu_p s' = cu_p s \<and> length (cu_out s') = length (cu_out s) \<and> cu_args_start s' = cu_args_start s \<and> cu_args s' = cu_args s \<and> cu_exten s' = cu_exten s)"

lemma keeps_refl [simp]: "keeps s s"
  by (simp add: keeps_def)

lemma state_of_snoc: "state_of cur = sw_usual \<Longrightarrow> state_of (cur @ [c]) = sw_usual" "c \<noteq> 46 \<Longrightarrow> state_of (cur @ [c]) = sw_usual"
  "state_of ([] @ [46]) = sw_dot" "state_of ([46] @ [46]) = sw_dot_dot" "state_of ([46, 46] @ [c]) = sw_usual"
  by (cases cur; auto simp: state_of_def append_eq_Cons_conv)+

lemma cu_put_text:
  assumes "tracks s S cur" and "c \<noteq> 47" and "length (render S cur) < length (cu_out s)"
    and "cu_out s1 = cu_out s" "cu_u s1 = cu_u s" "keeps s s1" "cu_state s1 = state_of (cur @ [c])"
    and "cu_ext s1 = cu_ext s \<or> c = 46 \<and> state_of cur = sw_usual \<and> cu_ext s1 = Some (cu_u s + 1)"
  shows "\<exists>s'. cu_put c s1 = Some s' \<and> tracks s' S (cur @ [c]) \<and> keeps s s'"
proof -
  have w: "written (cu_out s1) (cu_u s1) (render S cur)" using assms(1,4,5) by (simp add: tracks_def)
  obtain out where out: "cu_put c s1 = Some (s1\<lparr>cu_out := out, cu_u := cu_u s1 + 1\<rparr>)" "written out (cu_u s1 + 1) (render S cur @ [c])" "length out = length (cu_out s)"
    using cu_put_ok [OF w, of c] assms(3,4) by auto
  have "ext_ok (s1\<lparr>cu_out := out, cu_u := cu_u s1 + 1\<rparr>) S (cur @ [c])"
    using assms(8)
  proof (elim disjE conjE)
    assume "cu_ext s1 = cu_ext s"
    then show ?thesis using assms(1) by (fastforce simp: tracks_def ext_ok_def state_of_snoc)
  next
    assume "c = 46" "state_of cur = sw_usual" "cu_ext s1 = Some (cu_u s + 1)"
    then show ?thesis using w assms(5) by (simp add: ext_ok_def state_of_snoc written_def) (rule exI [of _ cur], simp)
  qed
  then show ?thesis using out assms(1,2,6,7) by (auto simp: tracks_def render_snoc keeps_def)
qed

lemma step_text:
  assumes t: "tracks s S cur" and "cu_ch s \<notin> {37, 63, 35, 47}" and room: "length (render S cur) < length (cu_out s)"
  shows "\<exists>s'. cu_step merge mem s = move_on mem (Some s') \<and> tracks s' S (cur @ [cu_ch s]) \<and> keeps s s'"
proof -
  let ?c = "cu_ch s"
  have st: "cu_state s = state_of cur" using t by (simp add: tracks_def)
  have c: "?c \<noteq> 37" "?c \<noteq> 63" "?c \<noteq> 35" "?c \<noteq> 47" using assms(2) by auto
  have usual: "\<exists>s'. cu_put ?c (s\<lparr>cu_state := sw_usual\<rparr>) = Some s' \<and> tracks s' S (cur @ [?c]) \<and> keeps s s'"
      "\<exists>s'. cu_put ?c (s\<lparr>cu_plus_in_uri := True, cu_state := sw_usual\<rparr>) = Some s' \<and> tracks s' S (cur @ [?c]) \<and> keeps s s'"
    if "state_of (cur @ [?c]) = sw_usual"
    using that by (intro cu_put_text [OF t c(4) room]; simp add: keeps_def)+
  have same: "s\<lparr>cu_state := sw_usual\<rparr> = s" if "state_of cur = sw_usual" using that st by (cases s) simp
  have ext: "\<exists>s'. cu_put ?c (s\<lparr>cu_ext := Some (cu_u s + 1)\<rparr>) = Some s' \<and> tracks s' S (cur @ [?c]) \<and> keeps s s'" if "?c = 46" "state_of cur = sw_usual"
    using that st state_of_snoc(1) [of cur 46] by (intro cu_put_text [OF t c(4) room]) (simp_all add: keeps_def)
  have dot: "\<exists>s'. cu_put ?c (s\<lparr>cu_state := st'\<rparr>) = Some s' \<and> tracks s' S (cur @ [?c]) \<and> keeps s s'" if "st' = state_of (cur @ [?c])" for st'
    using that by (intro cu_put_text [OF t c(4) room]) (simp_all add: keeps_def)
  have plain: "usual_set ?c \<Longrightarrow> ?c \<noteq> 46 \<and> ?c \<noteq> 43" using usual_plain [of ?c] by auto
  note steps = cu_step_def cu_usual_step_def cu_slash_step_def cu_dot_step_def cu_dot_dot_step_def cu_text_def is_usual_ok Let_def
  show ?thesis
  proof (cases "?c = 46")
    case True
    then have "\<not> usual_set ?c" using plain by blast
    consider "cur = []" | "cur = [46]" | "cur = [46, 46]" | "state_of cur = sw_usual" by (metis state_of_def)
    then show ?thesis
    proof cases
      case 1
      then show ?thesis using dot [of sw_dot] st True \<open>\<not> usual_set ?c\<close> by (auto simp: steps state_of_def)
    next
      case 2
      then show ?thesis using dot [of sw_dot_dot] st True \<open>\<not> usual_set ?c\<close> by (auto simp: steps state_of_def)
    next
      case 3
      then show ?thesis using dot [of sw_usual] st True \<open>\<not> usual_set ?c\<close> by (auto simp: steps state_of_def)
    next
      case 4
      then show ?thesis using ext st True \<open>\<not> usual_set ?c\<close> by (auto simp: steps)
    qed
  next
    case False
    then have u: "state_of (cur @ [?c]) = sw_usual" by (rule state_of_snoc(2))
    have plus: "\<exists>s'. cu_text mem s = move_on mem (Some s') \<and> tracks s' S (cur @ [?c]) \<and> keeps s s'"
      using usual [OF u] by (auto simp: cu_text_def Let_def)
    consider "state_of cur = sw_usual" | "state_of cur = sw_slash" | "state_of cur = sw_dot" | "state_of cur = sw_dot_dot" by (metis state_of_def)
    then show ?thesis
    proof cases
      case 1
      then show ?thesis using usual(1) [OF u] same [OF 1] st plus False c by (auto simp: cu_step_def cu_usual_step_def is_usual_ok Let_def)
    qed (use usual(1) [OF u] st plus False c in \<open>auto simp: cu_step_def cu_slash_step_def cu_dot_step_def cu_dot_dot_step_def is_usual_ok Let_def\<close>)
  qed
qed

lemma ext_none: "tracks s S cur \<Longrightarrow> state_of cur \<noteq> sw_usual \<Longrightarrow> cu_ext s = None"
  by (cases "cu_ext s") (auto simp: tracks_def ext_ok_def)

lemma step_slash:
  assumes t: "tracks s S cur" and c: "cu_ch s = 47" and room: "length (render S cur) < length (cu_out s)"
  shows "case close_segment merge S cur of None \<Rightarrow> \<exists>s'. cu_step merge mem s = Some (Inr (Invalid s'))
    | Some S' \<Rightarrow> \<exists>s'. cu_step merge mem s = move_on mem (Some s') \<and> tracks s' S' [] \<and> keeps s s'"
proof -
  have st: "cu_state s = state_of cur" and w: "written (cu_out s) (cu_u s) (render S cur)" using t by (simp_all add: tracks_def)
  have u: "is_usual 47 = Some False" using not_usual(7) by (simp add: is_usual_ok)
  have cu_put: "\<exists>s'. cu_put 47 s1 = Some s' \<and> tracks s' (cur # S) [] \<and> keeps s s'"
    if "cu_out s1 = cu_out s" "cu_u s1 = cu_u s" "keeps s s1" "cu_state s1 = sw_slash" "cu_ext s1 = None" for s1
    using cu_put_ok [of s1 "render S cur" 47] w room t that by (auto simp: tracks_def render_snoc(2) ext_ok_def state_of_def keeps_def)
  consider "state_of cur = sw_usual" | "cur = []" | "cur = [46]" | "cur = [46, 46]" "S = []" | x S' where "cur = [46, 46]" "S = x # S'"
    by (metis state_of_def list.exhaust)
  then show ?thesis
  proof cases
    case 1
    then have "close_segment merge S cur = Some (cur # S)" by (auto simp: close_segment_def state_of_def)
    moreover have "cu_step merge mem s = move_on mem (cu_put 47 (s\<lparr>cu_ext := None, cu_state := sw_slash\<rparr>))" using st 1 c u by (simp add: cu_step_def cu_usual_step_def)
    ultimately show ?thesis using cu_put [of "s\<lparr>cu_ext := None, cu_state := sw_slash\<rparr>"] by (auto simp: keeps_def)
  next
    case 2
    then have n: "cu_state s = sw_slash" "cu_ext s = None" using st ext_none [OF t] by (auto simp: state_of_def)
    have "cu_step merge mem s = move_on mem (if merge then Some s else cu_put 47 s)" using n c u by (simp add: cu_step_def cu_slash_step_def)
    then show ?thesis using cu_put [of s] n t 2 by (auto simp: close_segment_def)
  next
    case 3
    then have n: "cu_state s = sw_dot" "cu_ext s = None" using st ext_none [OF t] by (auto simp: state_of_def)
    have "written (cu_out s) (cu_u s - 1) (render S [])"
      using w 3 arg_cong [of "take (length (render S [46])) (cu_out s)" _ "take (length (render S []))"] by (auto simp: written_def render_def min_def)
    then have "tracks (s\<lparr>cu_u := cu_u s - 1, cu_state := sw_slash\<rparr>) S []" using t n by (auto simp: tracks_def state_of_def ext_ok_def)
    moreover have "cu_step merge mem s = move_on mem (Some (s\<lparr>cu_u := cu_u s - 1, cu_state := sw_slash\<rparr>))" using n c u by (simp add: cu_step_def cu_dot_step_def)
    ultimately show ?thesis using 3 by (auto simp: close_segment_def keeps_def)
  next
    case 4
    then have "cu_state s = sw_dot_dot" using st by (simp add: state_of_def)
    then show ?thesis using 4 c u climb_root [of "cu_out s" "cu_u s"] w by (simp add: cu_step_def cu_dot_dot_step_def close_segment_def leave_def)
  next
    case 5
    then have n: "cu_state s = sw_dot_dot" "cu_ext s = None" "47 \<notin> set x" using st t ext_none [OF t] by (auto simp: state_of_def tracks_def)
    obtain u' where u': "climb (cu_out s) (cu_u s - 4) = Some (Some u')" "written (cu_out s) u' (render S' [])"
      using climb_segment [of "cu_out s" "cu_u s" x S'] w 5 n(3) by auto
    then have "tracks (s\<lparr>cu_u := u', cu_state := sw_slash\<rparr>) S' []" using t n 5 by (auto simp: tracks_def state_of_def ext_ok_def)
    moreover have "cu_step merge mem s = move_on mem (Some (s\<lparr>cu_u := u', cu_state := sw_slash\<rparr>))" using n c u u'(1) by (simp add: cu_step_def cu_dot_dot_step_def)
    ultimately show ?thesis using 5 by (auto simp: close_segment_def keeps_def)
  qed
qed

definition final_ok :: "cu_vars \<Rightarrow> bytes \<Rightarrow> bool" where
  \<comment> \<open>the buffer holds the path \<open>w\<close>, and the extension, if there is one, is the rest of it behind a dot\<close>
  "final_ok s w = (written (cu_out s) (cu_u s) w \<and> (\<forall>e. cu_ext s = Some e \<longrightarrow> (\<exists>a b. w = a @ [46] @ b \<and> e = int (length a) + 1 \<and> 47 \<notin> set b)))"

lemma last_ok:
  assumes t: "tracks s S cur"
  shows "case last_segment S cur of None \<Rightarrow> state_of cur = sw_dot_dot \<and> climb (cu_out s) (cu_u s - 4) = Some None
    | Some w \<Rightarrow> (case state_of cur of
        sw_dot \<Rightarrow> final_ok (s\<lparr>cu_u := cu_u s - 1\<rparr>) w
      | sw_dot_dot \<Rightarrow> \<exists>u. climb (cu_out s) (cu_u s - 4) = Some (Some u) \<and> final_ok (s\<lparr>cu_u := u\<rparr>) w
      | _ \<Rightarrow> final_ok s w)"
proof -
  have w: "written (cu_out s) (cu_u s) (render S cur)" using t by (simp add: tracks_def)
  consider "state_of cur = sw_usual" | "cur = []" | "cur = [46]" | "cur = [46, 46]" "S = []" | x S' where "cur = [46, 46]" "S = x # S'"
    by (metis state_of_def list.exhaust)
  then show ?thesis
  proof cases
    case 1
    then have l: "last_segment S cur = Some (render S cur)" by (auto simp: last_segment_def state_of_def)
    have "\<exists>a b. render S cur = a @ [46] @ b \<and> e = int (length a) + 1 \<and> 47 \<notin> set b" if e: "cu_ext s = Some e" for e
    proof -
      obtain a b where ab: "cur = a @ [46] @ b" "e = int (length (render S a)) + 1" using t e by (auto simp: tracks_def ext_ok_def)
      then show ?thesis using t by (intro exI [of _ "render S a"] exI [of _ b]) (auto simp: render_def tracks_def)
    qed
    then show ?thesis using 1 l w by (simp add: final_ok_def)
  next
    case 2
    then show ?thesis using w ext_none [OF t] by (simp add: last_segment_def state_of_def final_ok_def)
  next
    case 3
    have "written (cu_out s) (cu_u s - 1) (render S [])"
      using w 3 arg_cong [of "take (length (render S [46])) (cu_out s)" _ "take (length (render S []))"] by (auto simp: written_def render_def min_def)
    then show ?thesis using 3 ext_none [OF t] by (simp add: last_segment_def state_of_def final_ok_def)
  next
    case 4
    then show ?thesis using climb_root [of "cu_out s" "cu_u s"] w by (simp add: last_segment_def state_of_def)
  next
    case 5
    then have "47 \<notin> set x" using t by (simp add: tracks_def)
    then show ?thesis using climb_segment [of "cu_out s" "cu_u s" x S'] w 5 ext_none [OF t]
      by (auto simp: last_segment_def state_of_def final_ok_def)
  qed
qed
section \<open>The loop\<close>

definition ends_as :: "bytes option \<Rightarrow> cu_vars \<Rightarrow> (cu_vars \<Rightarrow> cu_exit \<Rightarrow> bool) \<Rightarrow> cu_exit \<Rightarrow> bool" where
  "ends_as res s P y = (case res of None \<Rightarrow> \<exists>s'. y = Invalid s'
     | Some w \<Rightarrow> \<exists>s'. final_ok s' w \<and> length (cu_out s') = length (cu_out s) \<and> cu_args s' = cu_args s \<and> cu_exten s' = cu_exten s \<and> P s' y)"

lemma step_stop:
  assumes t: "tracks s S cur" and c: "cu_ch s = 63 \<or> cu_ch s = 35"
  shows "\<exists>y. cu_step merge mem s = Some (Inr y) \<and> (\<forall>s. y \<noteq> Loop_end s) \<and> ends_as (last_segment S cur) s
    (\<lambda>s' y. if cu_ch s = 63 then y = Args s' \<and> cu_args_start s' = Some (cu_p s) \<and> cu_p s' = cu_p s else y = Done s' \<and> cu_args_start s' = cu_args_start s) y"
proof -
  have st: "cu_state s = state_of cur" using t by (simp add: tracks_def)
  have u: "is_usual (cu_ch s) = Some False" using c not_usual(3,8) by (auto simp: is_usual_ok)
  have fin: "final_ok (s\<lparr>cu_args_start := a\<rparr>) w = final_ok s w" "final_ok (s\<lparr>cu_u := v, cu_args_start := a\<rparr>) w = final_ok (s\<lparr>cu_u := v\<rparr>) w" for a v w
    by (simp_all add: final_ok_def)
  note steps = cu_step_def leave_def ends_as_def fin
  consider "state_of cur = sw_usual" | "state_of cur = sw_slash" | "state_of cur = sw_dot" | "state_of cur = sw_dot_dot" by (metis state_of_def)
  then show ?thesis
  proof cases
    case 1
    then show ?thesis using last_ok [OF t] st c u by (auto simp: steps cu_usual_step_def split: option.splits)
  next
    case 2
    then show ?thesis using last_ok [OF t] st c u by (auto simp: steps cu_slash_step_def split: option.splits)
  next
    case 3
    then show ?thesis using last_ok [OF t] st c u by (auto simp: steps cu_dot_step_def Let_def split: option.splits)
  next
    case 4
    then show ?thesis using last_ok [OF t] st c u by (auto simp: steps cu_dot_dot_step_def split: option.splits)
  qed
qed

lemma close_ok:
  assumes t: "tracks s S cur"
  shows "\<exists>y. cu_close s = Some y \<and> ends_as (last_segment S cur) s (\<lambda>s' y. y = Done s' \<and> cu_args_start s' = cu_args_start s) y"
proof -
  have st: "cu_state s = state_of cur" using t by (simp add: tracks_def)
  consider "state_of cur = sw_usual" | "state_of cur = sw_slash" | "state_of cur = sw_dot" | "state_of cur = sw_dot_dot" by (metis state_of_def)
  then show ?thesis
    by cases (use last_ok [OF t] st in \<open>auto simp: cu_close_def ends_as_def split: option.splits\<close>)
qed

lemma hex_digits:
  assumes "hex_digit_value b = Some y"
  shows "unat y < 16" and "is_digit b \<Longrightarrow> y = b - 48 \<and> unat y \<le> 9"
    and "\<not> is_digit b \<Longrightarrow> 97 \<le> b OR 0x20 \<and> b OR 0x20 \<le> 102 \<and> y = (b OR 0x20) - 97 + 10 \<and> 10 \<le> unat y"
proof -
  have digit: "y = b - 48 \<and> unat y \<le> 9" if "is_digit b"
    using that assms by (auto simp: hex_digit_value_def is_digit_def word_le_nat_alt unat_sub_if')
  have letter: "97 \<le> b OR 0x20 \<and> b OR 0x20 \<le> 102 \<and> y = (b OR 0x20) - 97 + 10 \<and> 10 \<le> unat y \<and> unat y < 16" if "\<not> is_digit b"
  proof -
    have r: "97 \<le> b OR 0x20" "b OR 0x20 \<le> 102" "y = (b OR 0x20) - 97 + 10" using that assms by (auto simp: hex_digit_value_def split: if_splits)
    then have "unat y = unat (b OR 0x20) - 97 + 10" by (simp add: unat_word_ariths unat_sub_if' word_le_nat_alt)
    then show ?thesis using r by (simp add: word_le_nat_alt) linarith
  qed
  show "unat y < 16" using digit letter by fastforce
  show "is_digit b \<Longrightarrow> y = b - 48 \<and> unat y \<le> 9" by (rule digit)
  show "\<not> is_digit b \<Longrightarrow> 97 \<le> b OR 0x20 \<and> b OR 0x20 \<le> 102 \<and> y = (b OR 0x20) - 97 + 10 \<and> 10 \<le> unat y" using letter by blast
qed

lemma escape_value:
  assumes "hex_digit_value a = Some x" and "hex_digit_value b = Some y"
  shows "unat (16 * x + y) mod 16 = unat y"
proof -
  have "unat x < 16" "unat y < 16" using hex_digits(1) assms by blast+
  then have "unat (16 * x + y) = 16 * unat x + unat y" by (simp add: unat_word_ariths)
  then show ?thesis using \<open>unat y < 16\<close> by simp
qed

lemma second_digit:
  assumes x: "hex_digit_value a = Some x" and y: "hex_digit_value (cu_ch s) = Some y" and d: "cu_decoded s = x" and v: "v = 16 * x + y"
  shows "v = 0 \<Longrightarrow> \<exists>s'. cu_quoted_second_step mem s = Some (Inr (Invalid s'))"
    and "v \<in> {37, 35, 63} \<Longrightarrow> cu_quoted_second_step mem s = move_on mem (cu_put v (s\<lparr>cu_ch := v, cu_state := sw_usual\<rparr>))"
    and "v \<notin> {0, 37, 35, 63} \<Longrightarrow> \<exists>b. cu_quoted_second_step mem s = Some (Inl (s\<lparr>cu_ch := v, cu_plus_in_uri := b, cu_state := cu_quoted_state s\<rparr>))"
proof -
  have m: "unat v mod 16 = unat y" using escape_value [OF x y] by (simp add: v)
  have p: "push_bit 4 x = 16 * x" by (simp add: push_bit_eq_mult mult.commute)
  have "(v = 0 \<longrightarrow> (\<exists>s'. cu_quoted_second_step mem s = Some (Inr (Invalid s')))) \<and>
    (v \<in> {37, 35, 63} \<longrightarrow> cu_quoted_second_step mem s = move_on mem (cu_put v (s\<lparr>cu_ch := v, cu_state := sw_usual\<rparr>))) \<and>
    (v \<notin> {0, 37, 35, 63} \<longrightarrow> (\<exists>b. cu_quoted_second_step mem s = Some (Inl (s\<lparr>cu_ch := v, cu_plus_in_uri := b, cu_state := cu_quoted_state s\<rparr>))))"
  proof (cases "is_digit (cu_ch s)")
    case True
    then have y1: "y = cu_ch s - 48" "unat y \<le> 9" using hex_digits(2) [OF y] by auto
    have "v \<noteq> 63" using m y1(2) by auto
    then have "cu_quoted_second_step mem s = (if v = 37 \<or> v = 35 then move_on mem (cu_put v (s\<lparr>cu_ch := v, cu_state := sw_usual\<rparr>))
        else if v = 0 then leave (Invalid (s\<lparr>cu_ch := v\<rparr>)) else Some (Inl (s\<lparr>cu_ch := v, cu_state := cu_quoted_state s\<rparr>)))"
      using True by (simp add: cu_quoted_second_step_def Let_def d p v y1(1))
    then show ?thesis using \<open>v \<noteq> 63\<close> by (auto simp: leave_def intro: exI [of _ "cu_plus_in_uri s"])
  next
    case False
    then have y1: "97 \<le> cu_ch s OR 0x20" "cu_ch s OR 0x20 \<le> 102" "y = (cu_ch s OR 0x20) - 97 + 10" "10 \<le> unat y" using hex_digits(3) [OF y] by auto
    have "v \<noteq> 37 \<and> v \<noteq> 35 \<and> v \<noteq> 0" using m y1(4) by auto
    moreover have "cu_quoted_second_step mem s = (if v = 63 then move_on mem (cu_put v (s\<lparr>cu_ch := v, cu_state := sw_usual\<rparr>))
        else Some (Inl (s\<lparr>cu_ch := v, cu_plus_in_uri := (v = 43 \<or> cu_plus_in_uri s), cu_state := cu_quoted_state s\<rparr>)))"
    proof -
      have "push_bit 4 (cu_decoded s) + ((cu_ch s OR 0x20) - 97) + 10 = v" by (simp only: d p v y1(3) add.assoc)
      then show ?thesis using False y1(1,2) by (simp add: cu_quoted_second_step_def Let_def)
    qed
    ultimately show ?thesis by auto
  qed
  then show "v = 0 \<Longrightarrow> \<exists>s'. cu_quoted_second_step mem s = Some (Inr (Invalid s'))"
    and "v \<in> {37, 35, 63} \<Longrightarrow> cu_quoted_second_step mem s = move_on mem (cu_put v (s\<lparr>cu_ch := v, cu_state := sw_usual\<rparr>))"
    and "v \<notin> {0, 37, 35, 63} \<Longrightarrow> \<exists>b. cu_quoted_second_step mem s = Some (Inl (s\<lparr>cu_ch := v, cu_plus_in_uri := b, cu_state := cu_quoted_state s\<rparr>))"
    by blast+
qed

lemma first_digit:
  assumes "cu_state s = sw_quoted"
  shows "cu_step merge mem s = (case hex_digit_value (cu_ch s) of None \<Rightarrow> leave (Invalid (s\<lparr>cu_quoted_uri := True\<rparr>))
    | Some x \<Rightarrow> move_on mem (Some (s\<lparr>cu_quoted_uri := True, cu_decoded := x, cu_state := sw_quoted_second\<rparr>)))"
  using assms by (simp add: cu_step_def cu_quoted_step_def hex_digit_value_def Let_def)

definition path_len :: "bytes \<Rightarrow> nat" where
  "path_len rest = length (takeWhile (\<lambda>c. c \<noteq> 63 \<and> c \<noteq> 35) rest)"

definition to_come :: "bytes \<Rightarrow> nat \<Rightarrow> bytes \<Rightarrow> ptr \<Rightarrow> cu_vars \<Rightarrow> cu_exit \<Rightarrow> bool" where
  \<comment> \<open>how the loop was left, and where the query starts\<close>
  "to_come mem uend rest a s' y = (case dropWhile (\<lambda>c. c \<noteq> 63 \<and> c \<noteq> 35) rest of
     c # q \<Rightarrow> if c = 63 then y = Args s' \<and> cu_args_start s' = Some (cu_p s') \<and> cu_p s' \<le> uend \<and> seg mem (cu_p s') uend = q
       else y = Done s' \<and> cu_args_start s' = a
   | [] \<Rightarrow> y = Done s' \<and> cu_args_start s' = a)"

lemma to_come_Nil: "to_come mem uend [] a = (\<lambda>s' y. y = Done s' \<and> cu_args_start s' = a)"
  by (simp add: fun_eq_iff to_come_def)

lemma close_segment_len: "close_segment merge S cur = Some S' \<Longrightarrow> length (render S' []) \<le> length (render S cur) + 1"
  by (auto simp: close_segment_def render_def split: if_splits list.splits)

lemma move_on_ok: "cu_p s < length mem \<Longrightarrow> move_on mem (Some s) = Some (Inl (s\<lparr>cu_ch := mem ! cu_p s, cu_p := Suc (cu_p s)\<rparr>))"
  by (simp add: move_on_def advance_def arr_get_nat)

lemma tracks_fields [simp]: "tracks (s\<lparr>cu_ch := c, cu_p := p\<rparr>) S cur = tracks s S cur"
  by (simp add: tracks_def ext_ok_def)


definition reaches :: "bool \<Rightarrow> bytes \<Rightarrow> nat \<Rightarrow> cu_vars \<Rightarrow> cu_exit \<Rightarrow> bool" where
  "reaches merge mem uend s y = (Option.bind (cu_loop merge mem uend s) cu_ending = Some y)"

lemma reaches_step: "cu_p s \<le> uend \<Longrightarrow> cu_step merge mem s = Some (Inl s') \<Longrightarrow> reaches merge mem uend s y = reaches merge mem uend s' y"
  by (simp add: reaches_def cu_loop.simps [of merge mem uend s])

lemma reaches_exit: "cu_p s \<le> uend \<Longrightarrow> cu_step merge mem s = Some (Inr x) \<Longrightarrow> (\<And>s. x \<noteq> Loop_end s) \<Longrightarrow> reaches merge mem uend s y = (y = x)"
  by (cases x) (auto simp: reaches_def cu_loop.simps [of merge mem uend s] cu_ending_def)

lemma reaches_end: "\<not> cu_p s \<le> uend \<Longrightarrow> reaches merge mem uend s y = (cu_close s = Some y)"
  by (simp add: reaches_def cu_loop.simps [of merge mem uend s] cu_ending_def)

lemma seg_empty: "e \<le> q \<Longrightarrow> seg mem q e = []"
  by (simp add: seg_def)

lemma seg_Cons: "q < e \<Longrightarrow> e \<le> length mem \<Longrightarrow> seg mem q e = mem ! q # seg mem (Suc q) e"
  by (simp add: seg_def Cons_nth_drop_Suc [symmetric] take_Cons' Suc_diff_Suc)

definition settles :: "bool \<Rightarrow> bytes \<Rightarrow> nat \<Rightarrow> cu_vars \<Rightarrow> bytes option \<Rightarrow> bytes \<Rightarrow> bool" where
  "settles merge mem uend s res rest = (\<exists>y. reaches merge mem uend s y \<and> ends_as res s (to_come mem uend rest (cu_args_start s)) y)"

lemma settles_step:
  assumes "cu_p s \<le> uend" and "uend < length mem" and "cu_step merge mem s = move_on mem (Some s1)" and "keeps s s1"
    and "settles merge mem uend (s1\<lparr>cu_ch := mem ! cu_p s, cu_p := Suc (cu_p s)\<rparr>) res rest"
  shows "settles merge mem uend s res rest"
proof -
  have p: "cu_p s1 = cu_p s" using assms(4) by (simp add: keeps_def)
  let ?s = "s1\<lparr>cu_ch := mem ! cu_p s, cu_p := Suc (cu_p s)\<rparr>"
  have "cu_step merge mem s = Some (Inl ?s)" using assms(1-3) p by (simp add: move_on_ok)
  moreover obtain y where y: "reaches merge mem uend ?s y" "ends_as res ?s (to_come mem uend rest (cu_args_start s)) y" using assms(4,5) by (auto simp: settles_def keeps_def)
  moreover have "ends_as res ?s P y = ends_as res s P y" for P using assms(4) by (simp add: ends_as_def keeps_def split: option.split)
  ultimately show ?thesis using reaches_step [OF assms(1)] unfolding settles_def by metis
qed

lemma settles_invalid: "cu_p s \<le> uend \<Longrightarrow> cu_step merge mem s = Some (Inr (Invalid s')) \<Longrightarrow> settles merge mem uend s None rest"
  by (auto simp: settles_def reaches_exit ends_as_def)

lemma settles_skip: "c \<noteq> 63 \<Longrightarrow> c \<noteq> 35 \<Longrightarrow> settles merge mem uend s res (c # rest) = settles merge mem uend s res rest"
proof -
  assume "c \<noteq> 63" "c \<noteq> 35"
  then have "to_come mem uend (c # rest) = to_come mem uend rest" by (simp add: fun_eq_iff to_come_def)
  then show ?thesis by (simp add: settles_def)
qed

lemma dispatch:
  assumes t: "tracks s S cur" and c: "cu_ch s \<notin> {37, 63, 35}" and p: "cu_p s \<le> uend" "uend < length mem" and room: "length (render S cur) < length (cu_out s)"
    and IH: "\<And>s' S' cur'. tracks s' S' cur' \<Longrightarrow> cu_p s' = Suc (cu_p s) \<Longrightarrow> cu_ch s' = mem ! cu_p s \<Longrightarrow>
      length (render S' cur') \<le> length (render S cur) + 1 \<Longrightarrow> length (cu_out s') = length (cu_out s) \<Longrightarrow> settles merge mem uend s' (outcome merge S' cur' rest) rest"
  shows "settles merge mem uend s (if cu_ch s = 47 then Option.bind (close_segment merge S cur) (\<lambda>S. outcome merge S [] rest)
    else outcome merge S (cur @ [cu_ch s]) rest) rest"
proof -
  have next_char: "settles merge mem uend s (outcome merge S' cur' rest) rest"
    if "cu_step merge mem s = move_on mem (Some s')" "tracks s' S' cur'" "keeps s s'" "length (render S' cur') \<le> length (render S cur) + 1" for s' S' cur'
    using that IH [of "s'\<lparr>cu_ch := mem ! cu_p s, cu_p := Suc (cu_p s)\<rparr>" S' cur'] by (intro settles_step [OF p that(1,3)]) (simp add: keeps_def)
  show ?thesis
  proof (cases "cu_ch s = 47")
    case True
    show ?thesis
    proof (cases "close_segment merge S cur")
      case None
      then show ?thesis using step_slash [OF t True room, of merge mem] settles_invalid [OF p(1)] True by auto
    next
      case (Some S')
      then show ?thesis using step_slash [OF t True room, of merge mem] next_char [of _ S' "[]"] close_segment_len [OF Some] True by auto
    qed
  next
    case False
    then obtain s' where "cu_step merge mem s = move_on mem (Some s')" "tracks s' S (cur @ [cu_ch s])" "keeps s s'"
      using step_text [OF t _ room, of merge mem] c by auto
    then show ?thesis using next_char [of s' S "cur @ [cu_ch s]"] False by (simp add: render_snoc)
  qed
qed

lemma tracks_quoted:
  assumes "tracks s S cur" and "cu_out s' = cu_out s" "cu_u s' = cu_u s" "cu_ext s' = cu_ext s" "cu_state s' = state_of cur"
  shows "tracks s' S cur"
  using assms by (simp add: tracks_def ext_ok_def)

lemma settles_again:
  assumes "cu_p s \<le> uend" and "cu_step merge mem s = Some (Inl s')" and "keeps s s'" and "settles merge mem uend s' res rest"
  shows "settles merge mem uend s res rest"
  using assms by (auto simp: settles_def reaches_step keeps_def ends_as_def split: option.splits)

lemma hex_not_special: "hex_digit_value c = Some x \<Longrightarrow> c \<noteq> 63 \<and> c \<noteq> 35"
  by (auto simp: hex_digit_value_def is_digit_def split: if_splits)

lemma second_digit_bad: "hex_digit_value (cu_ch s) = None \<Longrightarrow> cu_quoted_second_step mem s = Some (Inr (Invalid s))"
  by (auto simp: hex_digit_value_def cu_quoted_second_step_def leave_def Let_def split: if_splits)

lemma escape_tail:
  assumes t: "tracks s S cur" and s: "cu_state s = state_of cur" and p: "cu_p s \<le> uend" "uend < length mem"
    and s3: "s3 = s\<lparr>cu_state := sw_quoted_second, cu_quoted_state := state_of cur, cu_decoded := x\<rparr>"
    and x: "hex_digit_value a = Some x" and y: "hex_digit_value (cu_ch s) = Some y" and v: "v = 16 * x + y" and room: "length (render S cur) < length (cu_out s)"
    and IH: "\<And>s' S' cur'. tracks s' S' cur' \<Longrightarrow> cu_p s' = Suc (cu_p s) \<Longrightarrow> cu_ch s' = mem ! cu_p s \<Longrightarrow>
      length (render S' cur') \<le> length (render S cur) + 1 \<Longrightarrow> length (cu_out s') = length (cu_out s) \<Longrightarrow> settles merge mem uend s' (outcome merge S' cur' rest) rest"
  shows "settles merge mem uend s3 (if v = 0 then None else if v = 47 then Option.bind (close_segment merge S cur) (\<lambda>S. outcome merge S [] rest)
    else outcome merge S (cur @ [v]) rest) rest"
proof -
  have p3: "cu_p s3 \<le> uend" using p(1) by (simp add: s3)
  have step: "cu_step merge mem s3 = cu_quoted_second_step mem s3" by (simp add: s3 cu_step_def)
  have y3: "hex_digit_value (cu_ch s3) = Some y" and d3: "cu_decoded s3 = x" using y by (simp_all add: s3)
  note D = second_digit [OF x y3 d3 v, of mem]
  consider "v = 0" | "v \<in> {37, 35, 63}" | "v \<notin> {0, 37, 35, 63}" by blast
  then show ?thesis
  proof cases
    case 1
    then show ?thesis using D(1) settles_invalid [OF p3] step by auto
  next
    case 2
    then have v46: "v \<noteq> 47" "v \<noteq> 0" "v \<noteq> 46" by auto
    obtain s' where s': "cu_put v (s3\<lparr>cu_ch := v, cu_state := sw_usual\<rparr>) = Some s'" "tracks s' S (cur @ [v])" "keeps s s'"
      using cu_put_text [OF t v46(1) room, of "s3\<lparr>cu_ch := v, cu_state := sw_usual\<rparr>"] state_of_snoc(2) [OF v46(3), of cur] by (auto simp: s3 keeps_def)
    have "settles merge mem uend (s'\<lparr>cu_ch := mem ! cu_p s, cu_p := Suc (cu_p s)\<rparr>) (outcome merge S (cur @ [v]) rest) rest"
      using s'(2,3) by (intro IH) (simp_all add: render_snoc keeps_def)
    then have "settles merge mem uend s3 (outcome merge S (cur @ [v]) rest) rest"
      using D(2) [OF 2] s'(1,3) step p by (intro settles_step [of s3 uend mem merge s']) (auto simp: s3 keeps_def)
    then show ?thesis using v46 by simp
  next
    case 3
    then obtain b where b: "cu_step merge mem s3 = Some (Inl (s3\<lparr>cu_ch := v, cu_plus_in_uri := b, cu_state := cu_quoted_state s3\<rparr>))" using D(3) step by auto
    let ?s4 = "s3\<lparr>cu_ch := v, cu_plus_in_uri := b, cu_state := cu_quoted_state s3\<rparr>"
    have "tracks ?s4 S cur" using t by (rule tracks_quoted) (simp_all add: s3)
    then have "settles merge mem uend ?s4 (if cu_ch ?s4 = 47 then Option.bind (close_segment merge S cur) (\<lambda>S. outcome merge S [] rest)
        else outcome merge S (cur @ [cu_ch ?s4]) rest) rest"
      using 3 p room IH by (intro dispatch) (simp_all add: s3)
    then have s4: "settles merge mem uend ?s4 (if v = 47 then Option.bind (close_segment merge S cur) (\<lambda>S. outcome merge S [] rest)
        else outcome merge S (cur @ [v]) rest) rest" by (simp cong: if_cong)
    have "settles merge mem uend s3 (if v = 47 then Option.bind (close_segment merge S cur) (\<lambda>S. outcome merge S [] rest)
        else outcome merge S (cur @ [v]) rest) rest"
      by (rule settles_again [OF p3 b _ s4]) (simp add: keeps_def)
    then show ?thesis using 3 by simp
  qed
qed

lemma escape_settles:
  assumes t: "tracks s S cur" and p: "cu_p s = Suc q" "q < uend" "uend < length mem" and c: "cu_ch s = 37" "mem ! q = 37"
    and room: "length (render S cur) + path_len (seg mem q uend) \<le> length (cu_out s)"
    and IH: "\<And>s' S' cur'. Suc (Suc q) < uend \<Longrightarrow> tracks s' S' cur' \<Longrightarrow> cu_p s' = Suc (Suc (Suc (Suc q))) \<Longrightarrow> cu_ch s' = mem ! Suc (Suc (Suc q)) \<Longrightarrow>
      length (render S' cur') + path_len (seg mem (Suc (Suc (Suc q))) uend) \<le> length (cu_out s) \<Longrightarrow> length (cu_out s') = length (cu_out s) \<Longrightarrow>
      settles merge mem uend s' (outcome merge S' cur' (seg mem (Suc (Suc (Suc q))) uend)) (seg mem (Suc (Suc (Suc q))) uend)"
  shows "settles merge mem uend s (outcome merge S cur (seg mem q uend)) (seg mem q uend)"
proof -
  have st: "cu_state s = state_of cur" using t by (simp add: tracks_def)
  let ?a = "mem ! Suc q" and ?b = "mem ! Suc (Suc q)"
  let ?s1 = "s\<lparr>cu_quoted_state := state_of cur, cu_state := sw_quoted\<rparr>"
  let ?s2 = "?s1\<lparr>cu_ch := ?a, cu_p := Suc (Suc q)\<rparr>"
  have u: "is_usual 37 = Some False" using not_usual(4) by (simp add: is_usual_ok)
  have percent: "cu_step merge mem s = move_on mem (Some ?s1)"
  proof -
    consider "state_of cur = sw_usual" | "state_of cur = sw_slash" | "state_of cur = sw_dot" | "state_of cur = sw_dot_dot" by (metis state_of_def)
    then show ?thesis by cases (simp_all add: cu_step_def cu_usual_step_def cu_slash_step_def cu_dot_step_def cu_dot_dot_step_def cu_percent_def st c u Let_def)
  qed
  have enter: "settles merge mem uend s res rest" if "settles merge mem uend ?s2 res rest" for res rest
    using that p by (intro settles_step [OF _ _ percent]) (simp_all add: keeps_def)
  show ?thesis
  proof (cases "Suc q < uend \<and> hex_digit_value ?a \<noteq> None")
    case False
    have "outcome merge S cur (seg mem q uend) = None"
      using False p c by (cases "Suc q < uend") (auto simp: outcome_def seg_Cons seg_empty split: list.split option.split)
    moreover have "settles merge mem uend ?s2 None (seg mem q uend)"
    proof (cases "Suc q < uend")
      case True
      then show ?thesis using False p first_digit [of ?s2 merge mem] by (intro settles_invalid) (auto simp: leave_def)
    next
      case end_of_uri: False
      then have "\<not> cu_p ?s2 \<le> uend" using p by simp
      then show ?thesis by (auto simp: settles_def reaches_end ends_as_def cu_close_def)
    qed
    ultimately show ?thesis using enter by simp
  next
    case True
    then obtain x where x: "hex_digit_value ?a = Some x" and q1: "Suc q < uend" by blast
    let ?s = "s\<lparr>cu_quoted_uri := True, cu_ch := ?b, cu_p := Suc (Suc (Suc q))\<rparr>"
    let ?s3 = "?s\<lparr>cu_state := sw_quoted_second, cu_quoted_state := state_of cur, cu_decoded := x\<rparr>"
    have "cu_step merge mem ?s2 = move_on mem (Some (?s2\<lparr>cu_quoted_uri := True, cu_decoded := x, cu_state := sw_quoted_second\<rparr>))"
      using first_digit [of ?s2 merge mem] x by simp
    then have "settles merge mem uend ?s2 res rest" if "settles merge mem uend ?s3 res rest" for res rest
    proof (rule settles_step [rotated 2])
      have "?s2\<lparr>cu_quoted_uri := True, cu_decoded := x, cu_state := sw_quoted_second, cu_ch := mem ! cu_p ?s2, cu_p := Suc (cu_p ?s2)\<rparr> = ?s3" by (cases s) simp
      then show "settles merge mem uend (?s2\<lparr>cu_quoted_uri := True, cu_decoded := x, cu_state := sw_quoted_second, cu_ch := mem ! cu_p ?s2, cu_p := Suc (cu_p ?s2)\<rparr>) res rest"
        using that by (simp only:)
    qed (use p q1 in \<open>simp_all add: keeps_def\<close>)
    then have enter3: "settles merge mem uend s res rest" if "settles merge mem uend ?s3 res rest" for res rest
      using that enter by blast
    have step3: "cu_step merge mem ?s3 = cu_quoted_second_step mem ?s3" by (simp add: cu_step_def)
    show ?thesis
    proof (cases "Suc (Suc q) < uend \<and> hex_digit_value ?b \<noteq> None")
      case False
      have "outcome merge S cur (seg mem q uend) = None"
        using False p c q1 x by (cases "Suc (Suc q) < uend") (auto simp: outcome_def seg_Cons seg_empty split: list.split option.split)
      moreover have "settles merge mem uend ?s3 None (seg mem q uend)"
      proof (cases "Suc (Suc q) < uend")
        case True
        then show ?thesis using False p step3 second_digit_bad [of ?s3 mem] by (intro settles_invalid) auto
      next
        case end_of_uri: False
        then have "\<not> cu_p ?s3 \<le> uend" using p by simp
        then show ?thesis by (auto simp: settles_def reaches_end ends_as_def cu_close_def)
      qed
      ultimately show ?thesis using enter3 by simp
    next
      case True
      then obtain y where y: "hex_digit_value ?b = Some y" and q2: "Suc (Suc q) < uend" by blast
      let ?rest = "seg mem (Suc (Suc (Suc q))) uend"
      have sg: "seg mem q uend = 37 # ?a # ?b # ?rest" using p c q1 q2 by (simp add: seg_Cons)
      have ab: "?a \<noteq> 63 \<and> ?a \<noteq> 35" "?b \<noteq> 63 \<and> ?b \<noteq> 35" using hex_not_special x y by blast+
      have "length (render S cur) < length (cu_out ?s)" using room ab by (simp add: sg path_len_def)
      moreover have "length (render S' cur') + path_len ?rest \<le> length (cu_out s)" if "length (render S' cur') \<le> Suc (length (render S cur))" for S' cur'
        using that room ab by (simp add: sg path_len_def)
      ultimately have "settles merge mem uend ?s3 (outcome merge S cur (seg mem q uend)) ?rest"
        unfolding sg outcome_escape [OF x y refl]
        using t st p q2 x y IH [OF q2] by (intro escape_tail [where s = ?s and a = ?a and y = y]) (simp_all add: tracks_quoted [OF t])
      then show ?thesis using enter3 ab by (simp add: sg settles_skip)
    qed
  qed
qed

lemma uri_settles:
  assumes "tracks s S cur" and "cu_p s = Suc q" and "q \<le> uend" and "uend < length mem" and "cu_ch s = mem ! q"
    and "length (render S cur) + path_len (seg mem q uend) \<le> length (cu_out s)"
  shows "settles merge mem uend s (outcome merge S cur (seg mem q uend)) (seg mem q uend)"
  using assms
proof (induction "uend - q" arbitrary: s S cur q rule: less_induct)
  case less
  note t = less.prems(1)
  show ?case
  proof (cases "q < uend")
    case False
    then have "\<not> cu_p s \<le> uend" "seg mem q uend = []" using less.prems(2,3) by (auto simp: seg_empty)
    then show ?thesis using close_ok [OF t] by (auto simp: settles_def reaches_end outcome_def to_come_Nil)
  next
    case True
    let ?c = "cu_ch s" and ?rest = "seg mem (Suc q) uend"
    have sg: "seg mem q uend = ?c # ?rest" using True less.prems(4,5) by (simp add: seg_Cons)
    have p: "cu_p s \<le> uend" using True less.prems(2) by simp
    have IH: "settles merge mem uend s' (outcome merge S' cur' (seg mem q' uend)) (seg mem q' uend)"
      if "q < q'" "q' \<le> uend" "tracks s' S' cur'" "cu_p s' = Suc q'" "cu_ch s' = mem ! q'" "length (cu_out s') = length (cu_out s)"
        "length (render S' cur') + path_len (seg mem q' uend) \<le> length (cu_out s)" for s' S' cur' q'
      using that less.prems(4) True by (intro less.hyps) auto
    consider "?c = 63 \<or> ?c = 35" | "?c = 37" | "?c \<notin> {37, 63, 35}" by blast
    then show ?thesis
    proof cases
      case 1
      obtain y where y: "cu_step merge mem s = Some (Inr y)" "\<forall>s. y \<noteq> Loop_end s" "ends_as (last_segment S cur) s
          (\<lambda>s' y. if cu_ch s = 63 then y = Args s' \<and> cu_args_start s' = Some (cu_p s) \<and> cu_p s' = cu_p s else y = Done s' \<and> cu_args_start s' = cu_args_start s) y"
        using step_stop [OF t 1, of merge mem] by blast
      have "ends_as (last_segment S cur) s (to_come mem uend (seg mem q uend) (cu_args_start s)) y"
        using y(3) 1 p less.prems(2) by (auto simp: ends_as_def to_come_def sg split: option.splits if_splits)
      moreover have "reaches merge mem uend s y" using reaches_exit [OF p y(1)] y(2) by auto
      moreover have "outcome merge S cur (seg mem q uend) = last_segment S cur" using 1 by (simp add: outcome_def sg)
      ultimately show ?thesis by (auto simp: settles_def)
    next
      case 2
      then have "mem ! q = 37" using less.prems(5) by simp
      then show ?thesis
        by (rule escape_settles [OF t less.prems(2) True less.prems(4) 2 _ less.prems(6)]) (rule IH; simp)
    next
      case 3
      have "settles merge mem uend s (if ?c = 47 then Option.bind (close_segment merge S cur) (\<lambda>S. outcome merge S [] ?rest)
          else outcome merge S (cur @ [?c]) ?rest) ?rest"
      proof (rule dispatch [OF t 3 p less.prems(4)])
        show "length (render S cur) < length (cu_out s)" using less.prems(6) 3 by (simp add: sg path_len_def)
        fix s' S' cur' assume "tracks s' S' cur'" "cu_p s' = Suc (cu_p s)" "cu_ch s' = mem ! cu_p s"
          "length (render S' cur') \<le> length (render S cur) + 1" "length (cu_out s') = length (cu_out s)"
        then show "settles merge mem uend s' (outcome merge S' cur' ?rest) ?rest"
          using less.prems(2,6) 3 True by (intro IH) (simp_all add: sg path_len_def)
      qed
      then show ?thesis using 3 by (simp add: sg settles_skip outcome_char)
    qed
  qed
qed

section \<open>The whole URI\<close>

definition uri_path :: "bool \<Rightarrow> bytes \<Rightarrow> bytes option" where
  \<comment> \<open>the path a URI that starts with a slash stands for, or nothing if the URI is malformed or leaves the root\<close>
  "uri_path merge uri = Option.bind (decode_path uri) (\<lambda>path. if path \<noteq> [] \<and> hd path = 47 then normal_path merge (tl path) else None)"

definition uri_query :: "bytes \<Rightarrow> bytes option" where
  "uri_query uri = (case dropWhile (\<lambda>c. c \<noteq> 63 \<and> c \<noteq> 35) uri of c # q \<Rightarrow> if c = 63 then Some (takeWhile (\<lambda>c. c \<noteq> 35) q) else None | [] \<Rightarrow> None)"

lemma args_loop_ok:
  assumes "a \<le> p" and "p \<le> uend" and "uend \<le> length mem" and "cu_args_start s = Some a"
  shows "args_loop mem uend p s = Some (if 35 \<in> set (seg mem p uend) then s\<lparr>cu_args := Some (a, p - a + length (takeWhile (\<lambda>c. c \<noteq> 35) (seg mem p uend))), cu_args_start := NULL\<rparr> else s)"
  using assms
proof (induction "uend - p" arbitrary: p)
  case 0
  then show ?case by (subst args_loop.simps) (simp add: seg_empty)
next
  case (Suc n)
  then have p: "p < uend" by simp
  have "arr_get mem (int p) = Some (mem ! p)" using p Suc.prems(3) by (intro arr_get_nat) simp
  moreover have "args_loop mem uend (p + 1) s = Some (if 35 \<in> set (seg mem (p + 1) uend) then s\<lparr>cu_args := Some (a, p + 1 - a + length (takeWhile (\<lambda>c. c \<noteq> 35) (seg mem (p + 1) uend))), cu_args_start := NULL\<rparr> else s)"
    using Suc p by (intro Suc.hyps(1)) auto
  ultimately show ?case using p Suc.prems by (auto simp: args_loop.simps [of mem uend p s] seg_Cons)
qed

definition query_at :: "bytes \<Rightarrow> nat \<Rightarrow> bytes option \<Rightarrow> cu_vars \<Rightarrow> bool" where
  \<comment> \<open>the query is in \<open>args\<close> when a fragment ends it, and otherwise runs from \<open>args_start\<close> to the end of the URI\<close>
  "query_at mem uend q s = (case q of
     None \<Rightarrow> cu_args s = None \<and> cu_args_start s = NULL
   | Some q \<Rightarrow> \<exists>a. a + length q \<le> uend \<and> seg mem a (a + length q) = q \<and>
       (cu_args s = Some (a, length q) \<and> cu_args_start s = NULL \<or> cu_args s = None \<and> cu_args_start s = Some a \<and> a + length q = uend))"

definition complex_result :: "bytes \<Rightarrow> nat \<Rightarrow> bytes \<Rightarrow> bytes \<Rightarrow> cu_vars \<Rightarrow> bool" where
  "complex_result mem uend uri w s = (cu_len s = int (length w) \<and> take (length w) (cu_out s) = w \<and>
     (\<forall>x n. cu_exten s = Some (x, n) \<longrightarrow> (\<exists>a b. w = a @ [46] @ b \<and> x = int (length a) + 1 \<and> n = int (length b) \<and> 47 \<notin> set b)) \<and>
     query_at mem uend (uri_query uri) s)"

lemma seg_take: "a + n \<le> e \<Longrightarrow> e \<le> length mem \<Longrightarrow> take n (seg mem a e) = seg mem a (a + n)"
  by (simp add: seg_def min_def)

lemma finish_uri:
  assumes "ends_as res s (to_come mem uend uri NULL) y" and "cu_args s = None" "cu_exten s = None" and "uend \<le> length mem"
  shows "case res of None \<Rightarrow> \<exists>s'. y = Invalid s'
    | Some w \<Rightarrow> (\<exists>s'. (case y of Args s \<Rightarrow> map_option (\<lambda>s. (NGX_OK, cu_done s)) (args_loop mem uend (cu_p s) s) | Done s \<Rightarrow> Some (NGX_OK, cu_done s) | _ \<Rightarrow> None) =
        Some (NGX_OK, s') \<and> complex_result mem uend uri w s')"
proof (cases res)
  case None
  then show ?thesis using assms(1) by (simp add: ends_as_def)
next
  case (Some w)
  obtain s1 where s1: "final_ok s1 w" "cu_args s1 = None" "cu_exten s1 = None" "to_come mem uend uri NULL s1 y" using assms(1-3) Some by (auto simp: ends_as_def)
  have part: "cu_len (cu_done s2) = int (length w) \<and> take (length w) (cu_out (cu_done s2)) = w \<and>
     (\<forall>x n. cu_exten (cu_done s2) = Some (x, n) \<longrightarrow> (\<exists>a b. w = a @ [46] @ b \<and> x = int (length a) + 1 \<and> n = int (length b) \<and> 47 \<notin> set b))"
    if "cu_u s2 = cu_u s1" "cu_out s2 = cu_out s1" "cu_ext s2 = cu_ext s1" "cu_exten s2 = None" for s2
    using s1(1) that by (auto simp: cu_done_def final_ok_def written_def split: option.splits) blast
  have args: "cu_args (cu_done s2) = cu_args s2" "cu_args_start (cu_done s2) = cu_args_start s2" for s2 by (simp_all add: cu_done_def)
  show ?thesis
  proof (cases "dropWhile (\<lambda>c. c \<noteq> 63 \<and> c \<noteq> 35) uri")
    case Nil
    have "y = Done s1" "cu_args_start s1 = NULL" using s1(4) unfolding to_come_def Nil by simp_all
    moreover have "uri_query uri = None" unfolding uri_query_def Nil by simp
    ultimately show ?thesis using s1(2,3) part [of s1] Some by (simp add: complex_result_def query_at_def args)
  next
    case (Cons c q)
    show ?thesis
    proof (cases "c = 63")
      case False
      then show ?thesis using s1 part [of s1] Some Cons by (simp add: to_come_def complex_result_def query_at_def uri_query_def args)
    next
      case True
      let ?a = "cu_p s1" and ?t = "takeWhile (\<lambda>c. c \<noteq> 35) q"
      have y: "y = Args s1" "cu_args_start s1 = Some ?a" "?a \<le> uend" "seg mem ?a uend = q" using s1(4) Cons True by (auto simp: to_come_def)
      have len: "length q = uend - ?a" using y(4) assms(4) by (auto simp: seg_def)
      have tl: "length ?t \<le> length q" by (rule length_takeWhile_le)
      have q: "uri_query uri = Some ?t" using Cons True by (simp add: uri_query_def)
      have sq: "seg mem ?a (?a + length ?t) = ?t"
        using seg_take [of ?a "length ?t" uend mem] y(3,4) len tl assms(4) by (simp add: takeWhile_eq_take [symmetric])
      show ?thesis
      proof (cases "35 \<in> set q")
        case True
        then show ?thesis using y len tl sq q Some s1(2,3) part [of "s1\<lparr>cu_args := Some (?a, length ?t), cu_args_start := NULL\<rparr>"]
            args_loop_ok [of ?a ?a uend mem s1] assms(4) by (auto simp: complex_result_def query_at_def args)
      next
        case False
        then have "?t = q" by (auto simp: takeWhile_eq_all_conv)
        then have "length ?t = uend - ?a" using len by (simp only:)
        then show ?thesis using False y len tl sq q Some s1(2,3) part [of s1] args_loop_ok [of ?a ?a uend mem s1] assms(4) by (auto simp: complex_result_def query_at_def args)
      qed
    qed
  qed
qed

lemma uri_path_slash: "uri_path merge (47 # rest) = outcome merge [] [] rest"
  by (cases "decode_path rest") (simp_all add: uri_path_def outcome_def normal_path_walk)

lemma path_len_Cons: "path_len (c # rest) = (if c = 63 \<or> c = 35 then 0 else Suc (path_len rest))"
  by (simp add: path_len_def)

lemma complex_uri_ok:
  assumes r: "uri_start r = Some a" "uri_end r = Some e" and e: "a < e" "e < length mem"
    and start: "if empty_path_in_uri r then mem ! a = 63 \<and> out \<noteq> [] else mem ! a = 47 \<and> path_len (seg mem a e) \<le> length out"
    and uri: "uri = (if empty_path_in_uri r then 47 # seg mem a e else seg mem a e)"
  shows "\<exists>rc s. ngx_http_parse_complex_uri merge mem r out = Some (rc, s) \<and>
    (case uri_path merge uri of None \<Rightarrow> rc = 11 | Some w \<Rightarrow> rc = NGX_OK \<and> complex_result mem e uri w s)"
proof -
  let ?init = "\<lparr>cu_state = sw_usual, cu_quoted_state = sw_usual, cu_decoded = 0, cu_ch = 0, cu_p = a, cu_u = 0, cu_out = out, cu_ext = None,
    cu_args_start = NULL, cu_plus_in_uri = plus_in_uri r, cu_quoted_uri = quoted_uri r, cu_len = int (length out), cu_exten = None, cu_args = None\<rparr>"
  have get: "arr_get mem (int a) = Some (mem ! a)" using e by (intro arr_get_nat) simp
  have sg: "seg mem a e = mem ! a # seg mem (Suc a) e" using e by (simp add: seg_Cons)
  obtain s where s: "Option.bind (if empty_path_in_uri r then cu_put 47 ?init else Some ?init) (advance mem) = Some s"
    and fields: "cu_args s = None" "cu_exten s = None" "cu_args_start s = NULL"
    and st: "settles merge mem e s (uri_path merge uri) uri"
  proof (cases "empty_path_in_uri r")
    case True
    then have o: "mem ! a = 63" "out \<noteq> []" using start by auto
    let ?s = "?init\<lparr>cu_out := out[0 := 47], cu_u := 1, cu_ch := 63, cu_p := Suc a\<rparr>"
    have "arr_set out 0 47 = Some (out[0 := 47])" using arr_set_nat [of 0 out 47] o(2) by simp
    then have s: "Option.bind (cu_put 47 ?init) (advance mem) = Some ?s" using get o(1) by (simp add: cu_put_def advance_def)
    have "cu_step merge mem ?s = Some (Inr (Args (?s\<lparr>cu_args_start := Some (Suc a)\<rparr>)))"
      using not_usual(8) by (simp add: cu_step_def cu_usual_step_def is_usual_ok leave_def)
    moreover have "final_ok (?s\<lparr>cu_args_start := Some (Suc a)\<rparr>) [47]" using o(2) by (cases out) (simp_all add: final_ok_def written_def)
    moreover have "uri_path merge uri = Some [47]" using True o(1) by (simp add: uri sg uri_path_slash outcome_def last_segment_def render_def)
    ultimately have "settles merge mem e ?s (uri_path merge uri) uri"
      using e o(1) True by (auto simp: settles_def reaches_exit ends_as_def to_come_def uri sg)
    then show ?thesis using that [of ?s] s True by simp
  next
    case False
    then have o: "mem ! a = 47" "path_len (seg mem a e) \<le> length out" using start by auto
    let ?s = "?init\<lparr>cu_ch := 47, cu_p := Suc a\<rparr>"
    let ?s1 = "?s\<lparr>cu_ext := None, cu_state := sw_slash, cu_out := out[0 := 47], cu_u := 1\<rparr>"
    have len: "Suc (path_len (seg mem (Suc a) e)) \<le> length out" using o by (simp add: sg path_len_Cons)
    have "arr_set out 0 47 = Some (out[0 := 47])" using arr_set_nat [of 0 out 47] len by (cases out) simp_all
    then have step: "cu_step merge mem ?s = move_on mem (Some ?s1)"
      using not_usual(7) by (simp add: cu_step_def cu_usual_step_def is_usual_ok cu_put_def)
    have "tracks (?s1\<lparr>cu_ch := mem ! Suc a, cu_p := Suc (Suc a)\<rparr>) [] []" using len by (cases out) (simp_all add: tracks_def state_of_def written_def render_def ext_ok_def)
    then have "settles merge mem e (?s1\<lparr>cu_ch := mem ! Suc a, cu_p := Suc (Suc a)\<rparr>) (outcome merge [] [] (seg mem (Suc a) e)) (seg mem (Suc a) e)"
      using e len by (intro uri_settles) (simp_all add: render_def)
    then have "settles merge mem e ?s (outcome merge [] [] (seg mem (Suc a) e)) (seg mem (Suc a) e)"
      using e by (intro settles_step [OF _ _ step]) (simp_all add: keeps_def)
    then have "settles merge mem e ?s (uri_path merge uri) uri" using False o(1) by (simp add: uri sg uri_path_slash settles_skip)
    then show ?thesis using that [of ?s] get o(1) False by (simp add: advance_def)
  qed
  then obtain y where y: "reaches merge mem e s y" "ends_as (uri_path merge uri) s (to_come mem e uri NULL) y" by (auto simp: settles_def)
  have run: "ngx_http_parse_complex_uri merge mem r out = (case y of
      Args s \<Rightarrow> map_option (\<lambda>s. (NGX_OK, cu_done s)) (args_loop mem e (cu_p s) s) | Done s \<Rightarrow> Some (NGX_OK, cu_done s)
    | Invalid s \<Rightarrow> Some (rl_code NGX_HTTP_PARSE_INVALID_REQUEST, s) | Loop_end s \<Rightarrow> None)"
  proof -
    obtain s1 where s1: "(if empty_path_in_uri r then cu_put 47 ?init else Some ?init) = Some s1" "advance mem s1 = Some s"
      using s by (cases "if empty_path_in_uri r then cu_put 47 ?init else Some ?init") auto
    obtain x where x: "cu_loop merge mem e s = Some x" "cu_ending x = Some y" using y(1) by (cases "cu_loop merge mem e s") (auto simp: reaches_def)
    show ?thesis unfolding ngx_http_parse_complex_uri_def r Let_def prod.case option.case s1(1) bind.simps s1(2) x ..
  qed
  have "e \<le> length mem" using e by simp
  from finish_uri [OF y(2) fields(1,2) this] show ?thesis
    by (cases "uri_path merge uri"; cases y) (auto simp: run rl_code_def)
qed

end
