(* ===== verification/Ngx_Http_Request_Uri.thy ===== *)
theory Ngx_Http_Request_Uri
  imports Ngx_Http_Complex_Uri_Spec
begin

text \<open>
  \<open>ngx_http_process_request_uri\<close> of \<^verbatim>\<open>src/nginx/src/http/ngx_http_request.c\<close>, which turns the URI that the request line
  parser delimits into the path, extension and query of the request: a URI that is marked complex, quoted or
  without a path goes through \<open>ngx_http_parse_complex_uri\<close> and a buffer of its own, every other is used where it lies.
  The theorems compose the two parsers.
\<close>

section \<open>The model\<close>

datatype str_data = In_request nat | In_pool bytes int

record request_uri =
  ru_data :: str_data
  ru_len :: int
  ru_unparsed :: "nat \<times> nat"
  ru_valid_unparsed :: bool
  ru_exten :: "(str_data \<times> int) option"
  ru_args :: "(nat \<times> nat) option"

definition ngx_http_process_request_uri :: "bool \<Rightarrow> (nat \<Rightarrow> bytes option) \<Rightarrow> bytes \<Rightarrow> ngx_http_request \<Rightarrow> (int \<times> request_uri option) option" where
  \<comment> \<open>\<open>pnalloc n\<close> is the memory \<open>ngx_pnalloc\<close> hands out; without a result the request has been finalized\<close>
  "ngx_http_process_request_uri merge_slashes pnalloc mem r =
     (case (uri_start r, uri_end r) of
        (Some u, Some v) \<Rightarrow>
          (let len = (case args_start r of Some a \<Rightarrow> a - 1 - u | None \<Rightarrow> v - u) in
           if complex_uri r \<or> quoted_uri r \<or> empty_path_in_uri r then
             (case pnalloc (if empty_path_in_uri r then len + 1 else len) of
                None \<Rightarrow> Some (NGX_ERROR, None)
              | Some out \<Rightarrow> do {
                  (rc, s) \<leftarrow> ngx_http_parse_complex_uri merge_slashes mem r out;
                  if rc \<noteq> NGX_OK then Some (NGX_ERROR, None)
                  else Some (NGX_OK, Some \<lparr>ru_data = In_pool (cu_out s) 0, ru_len = cu_len s, ru_unparsed = (u, v - u),
                    ru_valid_unparsed = (\<not> empty_path_in_uri r), ru_exten = map_option (\<lambda>(e, n). (In_pool (cu_out s) e, n)) (cu_exten s),
                    ru_args = (case cu_args_start s of Some a \<Rightarrow> if v > a then Some (a, v - a) else cu_args s | None \<Rightarrow> cu_args s)\<rparr>)
                })
           else Some (NGX_OK, Some \<lparr>ru_data = In_request u, ru_len = int len, ru_unparsed = (u, v - u), ru_valid_unparsed = True,
             ru_exten = (case uri_ext r of None \<Rightarrow> None
               | Some e \<Rightarrow> Some (In_request e, case args_start r of Some a \<Rightarrow> int a - 1 - int e | None \<Rightarrow> int v - int e)),
             ru_args = (case args_start r of Some a \<Rightarrow> if v > a then Some (a, v - a) else None | None \<Rightarrow> None)\<rparr>))
      | _ \<Rightarrow> None)"

definition data_bytes :: "bytes \<Rightarrow> str_data \<Rightarrow> int \<Rightarrow> bytes" where
  \<comment> \<open>the bytes a string denotes\<close>
  "data_bytes mem d n = (case d of In_request p \<Rightarrow> take (nat n) (drop p mem) | In_pool out p \<Rightarrow> take (nat n) (drop (nat p) out))"

section \<open>Where the query starts\<close>

definition args_part :: "bytes \<Rightarrow> nat \<Rightarrow> ngx_http_request \<Rightarrow> bool" where
  "args_part mem p r = (\<exists>u. uri_start r = Some u \<and> u < p \<and> empty_path_in_uri r = (mem ! u = 63) \<and>
     (case args_start r of
        None \<Rightarrow> \<not> complex_uri r \<and> \<not> quoted_uri r \<longrightarrow> 63 \<notin> set (seg mem u p)
      | Some a \<Rightarrow> u < a \<and> a \<le> p \<and> mem ! (a - 1) = 63 \<and> (\<forall>c\<in>set (seg mem u (a - 1)). c \<notin> {63, 35, 37})))"

definition args_inv :: "bytes \<Rightarrow> nat \<Rightarrow> rl_state \<times> ngx_http_request \<Rightarrow> bool" where
  "args_inv mem p = (\<lambda>(state, r).
     if state \<in> {sw_start, sw_method, sw_spaces_before_uri, sw_schema, sw_schema_slash, sw_schema_slash_slash, sw_host_start, sw_host, sw_host_end,
       sw_host_ip_literal, sw_port} then args_start r = NULL \<and> \<not> empty_path_in_uri r
     else if state \<in> {sw_after_slash_in_uri, sw_check_uri} then
       args_start r = NULL \<and> \<not> empty_path_in_uri r \<and> (\<exists>u. uri_start r = Some u \<and> u < p \<and> (\<forall>c\<in>set (seg mem u p). c \<notin> {63, 35, 37}))
     else if state = sw_uri then args_part mem p r \<and> (args_start r = NULL \<longrightarrow> complex_uri r \<or> quoted_uri r)
     else \<exists>v. uri_end r = Some v \<and> v \<le> p \<and> args_part mem v r)"

definition args_post :: "bytes \<Rightarrow> nat \<Rightarrow> ((rl_state \<times> ngx_http_request) + rl_exit) \<Rightarrow> bool" where
  "args_post mem p v = (case v of Inl s \<Rightarrow> args_inv mem (Suc p) s
     | Inr (Finished r) \<Rightarrow> \<exists>v. uri_end r = Some v \<and> v \<le> Suc p \<and> args_part mem v r | Inr (Rejected e r) \<Rightarrow> True)"

lemma args_method:
  assumes "args_inv mem p (state, r)" and "state \<in> {sw_start, sw_method}" and "rl_method_step le mem state p ch r = Some v"
  shows "args_post mem p v"
  using assms by (auto simp: rl_method_step_def outcomes args_post_def args_inv_def Let_def bind_eq_Some_conv split: if_splits option.splits)

lemma args_schema:
  assumes "args_inv mem p (state, r)" and "state \<in> {sw_spaces_before_uri, sw_schema, sw_schema_slash, sw_schema_slash_slash}" and "p < length mem"
    and "rl_schema_step state p (mem ! p) r = Some v"
  shows "args_post mem p v"
  using assms by (auto simp: rl_schema_step_def outcomes args_post_def args_inv_def Let_def seg_one split: if_splits)

lemma args_targets:
  assumes "args_start r = NULL" "\<not> empty_path_in_uri r" and "p < length mem"
  shows "mem ! p = 47 \<Longrightarrow> args_post mem p (Inl (sw_after_slash_in_uri, r\<lparr>uri_start := Some p\<rparr>))"
    and "mem ! p = 63 \<Longrightarrow> rl_empty_path p r = Some v \<Longrightarrow> args_post mem p v"
    and "schema_end r = Some s \<Longrightarrow> s + 2 < p \<Longrightarrow> mem ! (s + 1) = 47 \<Longrightarrow> rl_no_path r = Some v \<Longrightarrow> args_post mem p v"
    and "state \<in> {sw_host_start, sw_host, sw_host_end, sw_host_ip_literal, sw_port} \<Longrightarrow> args_post mem p (Inl (state, r))"
proof -
  show "mem ! p = 47 \<Longrightarrow> args_post mem p (Inl (sw_after_slash_in_uri, r\<lparr>uri_start := Some p\<rparr>))"
    using assms by (simp add: args_post_def args_inv_def seg_one)
  show "mem ! p = 63 \<Longrightarrow> rl_empty_path p r = Some v \<Longrightarrow> args_post mem p v"
    using assms by (auto simp: args_post_def args_inv_def args_part_def rl_empty_path_def outcomes)
  show "state \<in> {sw_host_start, sw_host, sw_host_end, sw_host_ip_literal, sw_port} \<Longrightarrow> args_post mem p (Inl (state, r))"
    using assms by (auto simp: args_post_def args_inv_def)
  assume s: "schema_end r = Some s" "s + 2 < p" "mem ! (s + 1) = 47" "rl_no_path r = Some v"
  have "seg mem (Suc s) (Suc (Suc s)) = [47]" using s assms(3) by (simp add: seg_one)
  then show "args_post mem p v" using s assms by (auto simp: args_post_def args_inv_def args_part_def rl_no_path_def outcomes)
qed

lemma args_host_end:
  assumes "args_start r = NULL" "\<not> empty_path_in_uri r" "p < length mem" "schema_end r = Some s" "s + 2 < p" "mem ! (s + 1) = 47"
    and "rl_host_end p (mem ! p) r = Some v"
  shows "args_post mem p v"
  using assms args_targets [of "r\<lparr>host_end := Some p\<rparr>" p mem]
  by (simp add: rl_host_end_def Let_def outcomes split: if_splits) (auto simp: args_post_def)

lemma args_host:
  assumes "args_start r = NULL" "\<not> empty_path_in_uri r" "p < length mem" "schema_end r = Some s" "s + 2 < p" "mem ! (s + 1) = 47"
    and "rl_host p (mem ! p) r = Some v"
  shows "args_post mem p v"
  using assms(7) args_targets(4) [OF assms(1-3), of sw_host] args_host_end [OF assms(1-6)] by (auto simp: rl_host_def outcomes split: if_splits)

lemma args_host_step:
  assumes "args_inv mem p (state, r)" and st: "state \<in> {sw_host_start, sw_host, sw_host_end, sw_host_ip_literal, sw_port}" and p: "p < length mem"
    and "rl_inv d mem p (state, r)" and "rl_host_step state p (mem ! p) r = Some v"
  shows "args_post mem p v"
proof -
  obtain s where s: "schema_end r = Some s" "s + 2 < p" "mem ! (s + 1) = 47" using assms(4) st by (auto simp: rl_inv_def)
  have a: "args_start r = NULL" "\<not> empty_path_in_uri r" using assms(1) st by (auto simp: args_inv_def)
  note T = args_targets [OF a p]
  from st show ?thesis
  proof (elim insertE emptyE)
    assume "state = sw_host_start"
    then show ?thesis using assms(5) p s a args_targets(4) [of "r\<lparr>host_start := Some p\<rparr>" p mem sw_host_ip_literal] args_host [of "r\<lparr>host_start := Some p\<rparr>" p mem s v]
      by (auto simp: rl_host_step_def Let_def outcomes split: if_splits)
  next
    assume "state = sw_host"
    then show ?thesis using assms(5) args_host [OF a p s] by (simp add: rl_host_step_def)
  next
    assume "state = sw_host_end"
    then show ?thesis using assms(5) args_host_end [OF a p s] by (simp add: rl_host_step_def)
  next
    assume 4: "state = sw_host_ip_literal"
    then have "v = Inl (sw_host_ip_literal, r) \<or> v = Inl (sw_host_end, r) \<or> v = Inr (Rejected NGX_HTTP_PARSE_INVALID_REQUEST r)"
      using assms(5) unfolding 4 rl_host_step_def rl_state.case outcomes by (elim ite_elim) simp_all
    then show ?thesis using T(4) [of sw_host_ip_literal] T(4) [of sw_host_end] by (elim disjE) (simp_all add: args_post_def)
  next
    assume 5: "state = sw_port"
    have "v = Inl (sw_port, r) \<or> mem ! p = 47 \<and> v = Inl (sw_after_slash_in_uri, r\<lparr>uri_start := Some p\<rparr>) \<or>
        mem ! p = 63 \<and> rl_empty_path p r = Some v \<or> rl_no_path r = Some v \<or> (\<exists>e r. v = Inr (Rejected e r))"
      using assms(5) 5 by (auto simp: rl_host_step_def outcomes split: if_splits)
    then show ?thesis using T(1,2) T(3) [OF s] T(4) [of sw_port] by (elim disjE) (auto simp: args_post_def)
  qed
qed

lemma args_part_fields [simp]:
  "args_part mem p (r\<lparr>http_protocol := x\<rparr>) = args_part mem p r" "args_part mem p (r\<lparr>http_major := n\<rparr>) = args_part mem p r"
  "args_part mem p (r\<lparr>http_minor := n\<rparr>) = args_part mem p r" "args_part mem p (r\<lparr>request_end := x\<rparr>) = args_part mem p r"
  "args_part mem p (r\<lparr>http_version := n\<rparr>) = args_part mem p r" "args_part mem p (r\<lparr>uri_end := x\<rparr>) = args_part mem p r"
  by (simp_all add: args_part_def cong: option.case_cong)

lemma args_uri_end:
  assumes "args_part mem p r" and "rl_uri_end p ch r = Some (Some v)"
  shows "args_post mem p v"
  using assms by (auto simp: rl_uri_end_def outcomes args_post_def args_inv_def split: if_splits)

lemma args_uri_path:
  assumes "args_inv mem p (state, r)" and "state \<in> {sw_after_slash_in_uri, sw_check_uri}"
    and "rl_inv d mem p (state, r)" and "p < length mem" and "rl_uri_step state p (mem ! p) r = Some v"
  shows "args_post mem p v"
proof -
  obtain u where u: "uri_start r = Some u" "u < p" "\<forall>c\<in>set (seg mem u p). c \<notin> {63, 35, 37}" and a: "args_start r = NULL" "\<not> empty_path_in_uri r"
    using assms(1,2) by (auto simp: args_inv_def)
  have "mem ! u \<in> set (seg mem u p)" using u(2) assms(4) by (simp add: seg_Cons)
  then have hd: "mem ! u \<noteq> 63" using u(3) by blast
  have part: "args_part mem p r" using u a hd by (auto simp: args_part_def)
  have path: "args_post mem p (Inl (st, r'))" if "st \<in> {sw_after_slash_in_uri, sw_check_uri}" "mem ! p \<notin> {63, 35, 37}"
      "args_start r' = NULL" "\<not> empty_path_in_uri r'" "uri_start r' = Some u" for st r'
    using that u assms(4) by (auto simp: args_post_def args_inv_def seg_snoc)
  have query: "args_post mem p (Inl (sw_uri, r\<lparr>args_start := Some (p + 1)\<rparr>))" if "mem ! p = 63"
    using that u a hd by (auto simp: args_post_def args_inv_def args_part_def)
  have marked: "args_post mem p (Inl (sw_uri, r'))" if "complex_uri r' \<or> quoted_uri r'" "args_start r' = NULL" "\<not> empty_path_in_uri r'" "uri_start r' = Some u" for r'
    using that u hd by (auto simp: args_post_def args_inv_def args_part_def)
  show ?thesis
  proof (cases "usual_set (mem ! p) \<or> rl_uri_end p (mem ! p) r = None")
    case False
    then show ?thesis using assms(5) args_uri_end [OF part] by (auto simp: rl_uri_step_def is_usual_ok)
  next
    case True
    from assms(2) consider "state = sw_after_slash_in_uri" | "state = sw_check_uri" by blast
    then show ?thesis
    proof cases
      case 1
      then show ?thesis using assms(5) True a u(1) usual_plain [of "mem ! p"] query
        by (auto simp: rl_uri_step_def is_usual_ok outcomes split: if_splits intro!: path marked) (simp_all add: args_post_def)
    next
      case 2
      then show ?thesis using assms(5) True a u(1) usual_plain [of "mem ! p"] query
        by (auto simp: rl_uri_step_def is_usual_ok outcomes split: if_splits intro!: path marked) (simp_all add: args_post_def)
    qed
  qed
qed

lemma args_uri_rest:
  assumes "args_inv mem p (sw_uri, r)" and "rl_uri_step sw_uri p (mem ! p) r = Some v"
  shows "args_post mem p v"
proof -
  have part: "args_part mem p r" and n: "args_start r = NULL \<longrightarrow> complex_uri r \<or> quoted_uri r" using assms(1) by (auto simp: args_inv_def)
  have stay: "args_post mem p (Inl (sw_uri, r'))" if "r' = r \<or> r' = r\<lparr>complex_uri := True\<rparr>" for r'
  proof -
    obtain u where u: "uri_start r = Some u" "u < p" "empty_path_in_uri r = (mem ! u = 63)" using part by (auto simp: args_part_def)
    have same: "uri_start r' = Some u" "empty_path_in_uri r' = (mem ! u = 63)" "args_start r' = args_start r" using that u by auto
    have "args_part mem (Suc p) r' \<and> (args_start r' = NULL \<longrightarrow> complex_uri r' \<or> quoted_uri r')"
    proof (cases "args_start r")
      case None
      have "complex_uri r' \<or> quoted_uri r'" using n None that by auto
      then show ?thesis using same None u(2) by (auto simp: args_part_def)
    next
      case (Some a)
      then have "u < a \<and> a \<le> p \<and> mem ! (a - 1) = 63 \<and> (\<forall>c\<in>set (seg mem u (a - 1)). c \<notin> {63, 35, 37})" using part u(1) by (simp add: args_part_def)
      then show ?thesis using same Some u(2) by (simp add: args_part_def)
    qed
    then show ?thesis by (simp add: args_post_def args_inv_def)
  qed
  show ?thesis
  proof (cases "usual_set (mem ! p) \<or> rl_uri_end p (mem ! p) r = None")
    case False
    then show ?thesis using assms(2) args_uri_end [OF part] by (auto simp: rl_uri_step_def is_usual_ok)
  next
    case True
    then show ?thesis using assms(2) by (auto simp: rl_uri_step_def is_usual_ok outcomes split: if_splits intro!: stay) (simp_all add: args_post_def)
  qed
qed

lemma args_version:
  assumes "args_inv mem p (state, r)" and st: "state \<in> {sw_http_09, sw_http_H, sw_http_HT, sw_http_HTT, sw_http_HTTP, sw_first_major_digit,
      sw_major_digit, sw_first_minor_digit, sw_minor_digit, sw_spaces_after_digit, sw_almost_done}"
    and "rl_version_step state p ch r = Some v"
  shows "args_post mem p v"
proof -
  obtain e where e: "uri_end r = Some e" "e \<le> p" "args_part mem e r" using assms(1,2) by (auto simp: args_inv_def)
  have go: "args_post mem p (Inl (st, r'))" if "st \<in> {sw_http_09, sw_http_H, sw_http_HT, sw_http_HTT, sw_http_HTTP, sw_first_major_digit,
      sw_major_digit, sw_first_minor_digit, sw_minor_digit, sw_spaces_after_digit, sw_almost_done}" "uri_end r' = Some e" "args_part mem e r'" for st r'
    using that e(2) by (auto simp: args_post_def args_inv_def)
  have fin: "args_post mem p (Inr (Finished r'))" if "uri_end r' = Some e" "args_part mem e r'" for r'
    using that e(2) by (auto simp: args_post_def)
  have rej: "args_post mem p (Inr (Rejected x r'))" for x r' by (simp add: args_post_def)
  from st show ?thesis
    by (elim insertE emptyE) (use assms(3) e in \<open>auto simp: rl_version_step_def outcomes Let_def split: if_splits intro!: go fin rej\<close>)
qed

lemma args_step:
  assumes "args_inv mem p s" and "rl_inv d mem p s" and "p < length mem" and "rl_step le mem p (mem ! p) s = Some v"
  shows "args_post mem p v"
proof -
  obtain state r where s: "s = (state, r)" by (cases s)
  note inv = assms(1,2) [unfolded s]
  note v = assms(4) [unfolded s rl_step_def prod.case]
  consider "state \<in> {sw_start, sw_method}" | "state \<in> {sw_spaces_before_uri, sw_schema, sw_schema_slash, sw_schema_slash_slash}"
    | "state \<in> {sw_host_start, sw_host, sw_host_end, sw_host_ip_literal, sw_port}" | "state \<in> {sw_after_slash_in_uri, sw_check_uri}" | "state = sw_uri"
    | "state \<in> {sw_http_09, sw_http_H, sw_http_HT, sw_http_HTT, sw_http_HTTP, sw_first_major_digit,
      sw_major_digit, sw_first_minor_digit, sw_minor_digit, sw_spaces_after_digit, sw_almost_done}" by (cases state) auto
  then show ?thesis
  proof cases
    case 1
    then show ?thesis using v by (intro args_method [OF inv(1) 1]) auto
  next
    case 2
    then show ?thesis using v by (intro args_schema [OF inv(1) 2 assms(3)]) auto
  next
    case 3
    then show ?thesis using v by (intro args_host_step [OF inv(1) 3 assms(3) inv(2)]) auto
  next
    case 4
    then show ?thesis using v by (intro args_uri_path [OF inv(1) 4 inv(2) assms(3)]) auto
  next
    case 5
    then show ?thesis using v args_uri_rest inv(1) by auto
  next
    case 6
    then show ?thesis using v by (intro args_version [OF inv(1) 6]) auto
  qed
qed

definition uri_ready :: "bytes \<Rightarrow> nat \<Rightarrow> ngx_http_request \<Rightarrow> bool" where
  "uri_ready mem lim r = (uri_read mem lim r \<and> (\<exists>v. uri_end r = Some v \<and> v < lim \<and> args_part mem v r))"

lemma uri_delimited:
  assumes "ngx_http_parse_request_line le mem (sw_start, r) pos lim = Some (NGX_OK, (st, r'), q)"
    and "pos \<le> lim" and "lim \<le> length mem" and "le \<longrightarrow> lim < length mem" and "fresh_request r" and "args_start r = NULL" and "\<not> empty_path_in_uri r"
  shows "uri_ready mem q r' \<and> q \<le> lim"
proof -
  let ?xs = "take (lim - pos) (drop pos mem)" and ?d = "http_method r"
  let ?I = "\<lambda>p s. rl_inv ?d mem p s \<and> args_inv mem p s"
  have rd: "mem_read mem (int pos) (lim - pos) = Some ?xs" using assms(2,3) by (simp add: mem_read_nat)
  have at: "pos + i < length mem" "le \<Longrightarrow> Suc (pos + i) < length mem" "?xs ! i = mem ! (pos + i)" if "i < length ?xs" for i using that assms(2-4) by auto
  have init: "?I pos (sw_start, r)" using assms(5-7) by (simp add: rl_inv_def started_def fresh_request_def args_inv_def)
  have total: "rl_step le mem (pos + i) (?xs ! i) s \<noteq> None" if "i < length ?xs" "?I (pos + i) s" for i s
    using rl_step_total [of ?d mem "pos + i" s le] that at [OF that(1)] by auto
  have post: "rl_post ?d mem (pos + i) v \<and> args_post mem (pos + i) v" if "i < length ?xs" "?I (pos + i) s" "rl_step le mem (pos + i) (?xs ! i) s = Some v" for i s v
    using rl_step_inv [of ?d mem "pos + i" s le v] args_step [of mem "pos + i" s ?d le v] at [OF that(1)] that by auto
  have inl: "?I (Suc (pos + i)) s'" if "i < length ?xs" "?I (pos + i) s" "rl_step le mem (pos + i) (?xs ! i) s = Some (Inl s')" for i s s'
    using post [OF that] by (simp add: rl_post_def args_post_def)
  have "(\<exists>s'. scan (rl_step le mem) pos ?xs (sw_start, r) = Some (pos + length ?xs, Inl s') \<and> ?I (pos + length ?xs) s') \<or>
      (\<exists>q x. scan (rl_step le mem) pos ?xs (sw_start, r) = Some (q, Inr x) \<and> rl_post ?d mem q (Inr x) \<and> args_post mem q (Inr x))"
    using scan_inv [of ?I pos "(sw_start, r)" ?xs "rl_step le mem" "\<lambda>q x. rl_post ?d mem q (Inr x) \<and> args_post mem q (Inr x)", OF init total inl post] .
  then show ?thesis
  proof (elim disjE exE conjE)
    fix s' assume "scan (rl_step le mem) pos ?xs (sw_start, r) = Some (pos + length ?xs, Inl s')"
    then show ?thesis using assms(1) by (simp add: ngx_http_parse_request_line_def rd)
  next
    fix q' x assume s: "scan (rl_step le mem) pos ?xs (sw_start, r) = Some (q', Inr x)" and p: "rl_post ?d mem q' (Inr x)" "args_post mem q' (Inr x)"
    have q': "q' < lim" using scan_stop [OF s] assms(2,3) by auto
    show ?thesis
    proof (cases x)
      case (Finished r1)
      have eq: "q = Suc q'" "r' = (if request_end r1 = NULL then r1\<lparr>request_end := Some q'\<rparr> else r1)\<lparr>http_version := http_major r1 * 1000 + http_minor r1\<rparr>"
        using assms(1) by (auto simp: ngx_http_parse_request_line_def rd s Finished rl_finish_def Let_def split: if_splits)
      obtain v where v: "uri_end r1 = Some v" "v \<le> Suc q'" "args_part mem v r1" using p(2) Finished by (auto simp: args_post_def)
      obtain u where u: "uri_start r1 = Some u" "u < v" "\<forall>c\<in>set (seg mem u v). uri_byte c" "uri_read mem (Suc q') r1" "mem ! q' = LF"
        using p(1) Finished v(1) by (auto simp: rl_post_def line_read_def uri_read_def)
      have "v \<noteq> Suc q'"
      proof
        assume "v = Suc q'"
        then have "mem ! q' \<in> set (seg mem u v)" using u(2) q' assms(3) by (simp add: seg_snoc)
        then show False using u(3,5) by (auto simp: uri_byte_def)
      qed
      then show ?thesis using v u q' by (auto simp: uri_ready_def eq)
    next
      case (Rejected e r1)
      then show ?thesis using assms(1) by (cases e) (simp_all add: ngx_http_parse_request_line_def rd s rl_finish_def rl_code_def)
    qed
  qed
qed

section \<open>Plain paths are normal\<close>

lemma decode_plain: "\<forall>c\<in>set path. c \<notin> {63, 35, 37} \<Longrightarrow> decode_path (path @ rest) = map_option (\<lambda>t. path @ t) (decode_path rest)"
  by (induction path; cases "decode_path rest") auto

lemma decode_query: "decode_path (63 # q) = Some []" "decode_path [] = Some []"
  by simp_all

lemma walk_plain:
  assumes "successively (\<lambda>a b. a = 47 \<longrightarrow> b \<noteq> 47 \<and> b \<noteq> 46) (x # cs)" and "if cur = [] then x = 47 else x \<noteq> 47 \<and> hd cur \<noteq> 46"
  shows "walk_path merge S cur cs = Some (render S cur @ cs)"
  using assms
proof (induction cs arbitrary: S cur x)
  case Nil
  then show ?case by (auto simp: last_segment_def)
next
  case (Cons c cs)
  have sc: "x = 47 \<longrightarrow> c \<noteq> 47 \<and> c \<noteq> 46" "successively (\<lambda>a b. a = 47 \<longrightarrow> b \<noteq> 47 \<and> b \<noteq> 46) (c # cs)" using Cons.prems(1) by simp_all
  show ?case
  proof (cases "c = 47")
    case True
    then have "cur \<noteq> []" "hd cur \<noteq> 46" using sc(1) Cons.prems(2) by (auto split: if_splits)
    then have "close_segment merge S cur = Some (cur # S)" by (auto simp: close_segment_def)
    then show ?thesis using Cons.IH [of 47 "[]" "cur # S"] sc(2) True by (simp add: render_snoc)
  next
    case False
    then have "hd (cur @ [c]) \<noteq> 46" using sc(1) Cons.prems(2) by (cases cur) auto
    then show ?thesis using Cons.IH [of c "cur @ [c]" S] sc(2) False by (simp add: render_snoc)
  qed
qed

lemma plain_normal:
  assumes "\<forall>c\<in>set path. c \<notin> {63, 35, 37}" and "path \<noteq> []" "hd path = 47" and "plain_path path" and "rest = [] \<or> hd rest = 63"
  shows "uri_path merge (path @ rest) = Some path"
proof -
  obtain p where p: "path = 47 # p" using assms(2,3) by (cases path) auto
  have "decode_path rest = Some []" using assms(5) decode_query by (cases rest) auto
  then have "decode_path (path @ rest) = Some path" using decode_plain [OF assms(1)] by simp
  moreover have "walk_path merge [] [] p = Some path" using walk_plain [of 47 p "[]" merge "[]"] assms(4) by (simp add: p plain_path_def render_def)
  ultimately show ?thesis by (simp add: uri_path_def normal_path_walk p)
qed

section \<open>The request's path\<close>

definition request_target :: "bytes \<Rightarrow> ngx_http_request \<Rightarrow> bytes" where
  \<comment> \<open>the URI between \<open>uri_start\<close> and \<open>uri_end\<close>, with the slash that is missing before a query\<close>
  "request_target mem r = (let uri = seg mem (the (uri_start r)) (the (uri_end r)) in if empty_path_in_uri r then 47 # uri else uri)"

definition uri_as :: "bytes \<Rightarrow> bytes \<Rightarrow> bytes option \<Rightarrow> request_uri \<Rightarrow> bool" where
  \<comment> \<open>the path and query a processed URI denotes\<close>
  "uri_as mem path query u = (0 \<le> ru_len u \<and> data_bytes mem (ru_data u) (ru_len u) = path \<and>
     (case query of None \<Rightarrow> ru_args u = None | Some q \<Rightarrow> if q = [] then (\<forall>a n. ru_args u = Some (a, n) \<longrightarrow> n = 0)
       else \<exists>a. ru_args u = Some (a, length q) \<and> seg mem a (a + length q) = q))"

lemma pool_uri:
  assumes r: "uri_start r = Some u" "uri_end r = Some v" "u < v" "v < length mem" and part: "args_part mem v r" and slash: "mem ! u = 47 \<or> mem ! u = 63"
    and len: "len = (case args_start r of Some a \<Rightarrow> a - 1 - u | None \<Rightarrow> v - u)" and out: "length out = (if empty_path_in_uri r then len + 1 else len)"
  shows "\<exists>rc s. ngx_http_parse_complex_uri merge mem r out = Some (rc, s) \<and>
    (case uri_path merge (request_target mem r) of None \<Rightarrow> rc = 11 | Some w \<Rightarrow> rc = NGX_OK \<and> complex_result mem v (request_target mem r) w s)"
proof (rule complex_uri_ok [OF r])
  have e: "empty_path_in_uri r = (mem ! u = 63)" using part r(1) by (auto simp: args_part_def)
  show "request_target mem r = (if empty_path_in_uri r then 47 # seg mem u v else seg mem u v)" using r by (simp add: request_target_def)
  show "if empty_path_in_uri r then mem ! u = 63 \<and> out \<noteq> [] else mem ! u = 47 \<and> path_len (seg mem u v) \<le> length out"
  proof (cases "args_start r")
    case None
    have "path_len (seg mem u v) \<le> length (seg mem u v)" unfolding path_len_def by (rule length_takeWhile_le)
    also have "\<dots> \<le> v - u" by (simp add: seg_def)
    finally show ?thesis using e slash len out None by auto
  next
    case (Some a)
    then have a: "u < a" "a \<le> v" "mem ! (a - 1) = 63" "\<forall>c\<in>set (seg mem u (a - 1)). c \<notin> {63, 35, 37}" using part r(1) by (auto simp: args_part_def)
    have "seg mem u v = seg mem u (a - 1) @ 63 # seg mem a v"
      using seg_append [of u "a - 1" v mem] seg_Cons [of "a - 1" v mem] a r(4) by auto
    then have "path_len (seg mem u v) = length (seg mem u (a - 1))" using a(4) by (simp add: path_len_def takeWhile_append2)
    also have "\<dots> \<le> a - 1 - u" by (simp add: seg_def)
    finally show ?thesis using e slash len out Some by auto
  qed
qed

lemma in_place:
  assumes r: "uri_start r = Some u" "uri_end r = Some v" "u < v" "v < length mem" and part: "args_part mem v r" and plain: "plain_uri (seg mem u v)"
    and slash: "mem ! u = 47" and marks: "\<not> complex_uri r" "\<not> quoted_uri r" "\<not> empty_path_in_uri r"
  shows "\<exists>w path. ngx_http_process_request_uri merge pnalloc mem r = Some (NGX_OK, Some w) \<and> uri_path merge (request_target mem r) = Some path \<and>
    uri_as mem path (uri_query (request_target mem r)) w"
proof (cases "args_start r")
  case None
  then have q: "63 \<notin> set (seg mem u v)" using part r(1) marks by (auto simp: args_part_def)
  then have pp: "plain_path (seg mem u v)" using plain plain_uri_path by blast
  have sg: "seg mem u v = 47 # seg mem (Suc u) v" using slash r by (simp add: seg_Cons)
  have n: "\<forall>c\<in>set (seg mem u v). c \<notin> {63, 35, 37}" using q pp by (auto simp: plain_path_def)
  have "uri_path merge (seg mem u v @ []) = Some (seg mem u v)" using n pp by (intro plain_normal) (simp_all add: sg)
  moreover have "dropWhile (\<lambda>c. c \<noteq> 63 \<and> c \<noteq> 35) (seg mem u v) = []" using n by auto
  then have "uri_query (seg mem u v) = None" unfolding uri_query_def by (simp only: list.case)
  moreover have "nat (int v - int u) = v - u" by arith
  ultimately show ?thesis using r marks None by (simp add: ngx_http_process_request_uri_def request_target_def uri_as_def data_bytes_def seg_def)
next
  case (Some a)
  then have a: "u < a" "a \<le> v" "mem ! (a - 1) = 63" "\<forall>c\<in>set (seg mem u (a - 1)). c \<notin> {63, 35, 37}" using part r(1) by (auto simp: args_part_def)
  have sg: "seg mem u v = seg mem u (a - 1) @ 63 # seg mem a v"
    using seg_append [of u "a - 1" v mem] seg_Cons [of "a - 1" v mem] a r(4) by auto
  have "u < a - 1" using a slash by (cases "u = a - 1") auto
  then have hd: "seg mem u (a - 1) = 47 # seg mem (Suc u) (a - 1)" using slash r a by (simp add: seg_Cons)
  have tw: "takeWhile (\<lambda>c. c \<noteq> 63) (seg mem u v) = seg mem u (a - 1)" using a(4) by (simp add: sg takeWhile_append2)
  then have pp: "plain_path (seg mem u (a - 1))" and nf: "35 \<notin> set (seg mem a v)" using plain by (auto simp: plain_uri_def sg)
  have "uri_path merge (seg mem u v) = Some (seg mem u (a - 1))" unfolding sg using a(4) pp hd by (intro plain_normal) simp_all
  moreover have "dropWhile (\<lambda>c. c \<noteq> 63 \<and> c \<noteq> 35) (seg mem u v) = 63 # seg mem a v" using a(4) by (simp add: sg dropWhile_append3 dropWhile_append2)
  then have "uri_query (seg mem u v) = Some (takeWhile (\<lambda>c. c \<noteq> 35) (seg mem a v))" by (simp add: uri_query_def)
  then have "uri_query (seg mem u v) = Some (seg mem a v)" using nf takeWhile_eq_all_conv [of "\<lambda>c. c \<noteq> 35" "seg mem a v"] by auto
  moreover have "length (seg mem a v) = v - a" using r(4) by (auto simp: seg_def)
  moreover have "nat (int a - (1 + int u)) = a - Suc u" by arith
  ultimately show ?thesis using r marks Some a(1,2)
    by (auto simp: ngx_http_process_request_uri_def request_target_def uri_as_def data_bytes_def) (auto simp: seg_def)
qed

lemma pool_result:
  assumes "complex_result mem v uri w s" and "v \<le> length mem"
  shows "uri_as mem w (uri_query uri) \<lparr>ru_data = In_pool (cu_out s) 0, ru_len = cu_len s, ru_unparsed = x, ru_valid_unparsed = y, ru_exten = z,
    ru_args = (case cu_args_start s of Some a \<Rightarrow> if v > a then Some (a, v - a) else cu_args s | None \<Rightarrow> cu_args s)\<rparr>"
proof (cases "uri_query uri")
  case None
  then show ?thesis using assms by (simp add: complex_result_def query_at_def uri_as_def data_bytes_def)
next
  case (Some q)
  then obtain a where a: "a + length q \<le> v" "seg mem a (a + length q) = q"
      "cu_args s = Some (a, length q) \<and> cu_args_start s = NULL \<or> cu_args s = None \<and> cu_args_start s = Some a \<and> a + length q = v"
    using assms(1) by (auto simp: complex_result_def query_at_def)
  then show ?thesis using assms Some by (cases "q = []") (auto simp: complex_result_def uri_as_def data_bytes_def)
qed

lemma processed_uri:
  assumes "uri_ready mem q r" and "q \<le> length mem" and alloc: "\<And>n out. pnalloc n = Some out \<Longrightarrow> length out = n"
  shows "(\<exists>w path. ngx_http_process_request_uri merge pnalloc mem r = Some (NGX_OK, Some w) \<and> uri_path merge (request_target mem r) = Some path \<and>
      uri_as mem path (uri_query (request_target mem r)) w) \<or>
    ngx_http_process_request_uri merge pnalloc mem r = Some (NGX_ERROR, None) \<and> (uri_path merge (request_target mem r) = None \<or> (\<exists>n. pnalloc n = None))"
proof -
  obtain u v where r: "uri_start r = Some u" "uri_end r = Some v" "u < v" "v < length mem" and part: "args_part mem v r" and slash: "mem ! u = 47 \<or> mem ! u = 63"
    and plain: "\<not> complex_uri r \<and> \<not> quoted_uri r \<longrightarrow> plain_uri (seg mem u v)"
  proof -
    obtain v where v: "uri_end r = Some v" "v < q" "args_part mem v r" and rd: "uri_read mem q r" using assms(1) unfolding uri_ready_def by blast
    then show ?thesis using assms(2) unfolding uri_read_def by (auto intro!: that)
  qed
  have e: "empty_path_in_uri r = (mem ! u = 63)" using part r(1) by (auto simp: args_part_def)
  show ?thesis
  proof (cases "complex_uri r \<or> quoted_uri r \<or> empty_path_in_uri r")
    case False
    then show ?thesis using in_place [OF r part _ _ _ _ _] plain slash e by auto
  next
    case True
    let ?len = "case args_start r of Some a \<Rightarrow> a - 1 - u | None \<Rightarrow> v - u"
    let ?n = "if empty_path_in_uri r then ?len + 1 else ?len"
    show ?thesis
    proof (cases "pnalloc ?n")
      case None
      then show ?thesis using True r by (auto simp: ngx_http_process_request_uri_def Let_def)
    next
      case (Some out)
      obtain rc s where run: "ngx_http_parse_complex_uri merge mem r out = Some (rc, s)"
        and res: "case uri_path merge (request_target mem r) of None \<Rightarrow> rc = 11 | Some w \<Rightarrow> rc = NGX_OK \<and> complex_result mem v (request_target mem r) w s"
        using pool_uri [OF r part slash refl alloc [OF Some]] by blast
      have proc: "ngx_http_process_request_uri merge pnalloc mem r = (if rc \<noteq> NGX_OK then Some (NGX_ERROR, None)
          else Some (NGX_OK, Some \<lparr>ru_data = In_pool (cu_out s) 0, ru_len = cu_len s, ru_unparsed = (u, v - u),
            ru_valid_unparsed = (\<not> empty_path_in_uri r), ru_exten = map_option (\<lambda>(e, n). (In_pool (cu_out s) e, n)) (cu_exten s),
            ru_args = (case cu_args_start s of Some a \<Rightarrow> if v > a then Some (a, v - a) else cu_args s | None \<Rightarrow> cu_args s)\<rparr>))"
        unfolding ngx_http_process_request_uri_def r prod.case option.case Let_def Some run bind.simps using True by simp
      show ?thesis
      proof (cases "uri_path merge (request_target mem r)")
        case None
        then show ?thesis using res proc by simp
      next
        case (Some w)
        then show ?thesis using res proc pool_result [of mem v "request_target mem r" w s] r(4) by auto
      qed
    qed
  qed
qed

section \<open>Inside the root\<close>

lemma split_path_plain: "47 \<notin> set s \<Longrightarrow> split_path s = [s]"
  by (induction s) auto

lemma split_path_join: "47 \<notin> set x \<Longrightarrow> split_path (x @ 47 # rest) = x # split_path rest"
  by (induction x) auto

lemma split_path_dirs:
  assumes "\<forall>x\<in>set xs. 47 \<notin> set x" and "47 \<notin> set s"
  shows "split_path (concat (map (\<lambda>x. x @ [47]) xs) @ s) = xs @ [s]"
  using assms by (induction xs) (simp_all add: split_path_plain split_path_join)

definition real_segment :: "bytes \<Rightarrow> bool" where
  "real_segment x = (x \<noteq> [46] \<and> x \<noteq> [46, 46])"

definition confined :: "bool \<Rightarrow> bytes \<Rightarrow> bool" where
  \<comment> \<open>a path from the root whose segments name no directory above, and none twice over when slashes are merged\<close>
  "confined merge path = (path \<noteq> [] \<and> hd path = 47 \<and> (\<forall>x\<in>set (split_path (tl path)). real_segment x) \<and>
     (merge \<longrightarrow> [] \<notin> set (butlast (split_path (tl path)))))"

definition clean :: "bool \<Rightarrow> bytes list \<Rightarrow> bool" where
  "clean merge S = (\<forall>x\<in>set S. 47 \<notin> set x \<and> real_segment x \<and> (merge \<longrightarrow> x \<noteq> []))"

lemma render_confined:
  assumes "clean merge S" and "47 \<notin> set s" and "real_segment s"
  shows "confined merge (render S s)"
proof -
  have "split_path (tl (render S s)) = rev S @ [s]" using assms split_path_dirs [of "rev S" s] by (simp add: render_def clean_def)
  then show ?thesis using assms by (auto simp: confined_def clean_def) (simp_all add: render_def)
qed

lemma close_clean:
  assumes "clean merge S" and "47 \<notin> set s" and "close_segment merge S s = Some S'"
  shows "clean merge S'"
proof -
  have "s = [46] \<and> S' = S \<or> s = [46, 46] \<and> S \<noteq> [] \<and> S' = tl S \<or> s = [] \<and> merge \<and> S' = S \<or> real_segment s \<and> (merge \<longrightarrow> s \<noteq> []) \<and> S' = s # S"
  proof (cases "s = [46] \<or> s = [46, 46]")
    case True
    then show ?thesis using assms(3) by (cases S) (auto simp: close_segment_def)
  next
    case False
    then show ?thesis using assms(3) by (cases "s = [] \<and> merge") (auto simp: close_segment_def real_segment_def)
  qed
  then show ?thesis using assms(1,2) by (cases S) (auto simp: clean_def)
qed

lemma walk_confined: "clean merge S \<Longrightarrow> 47 \<notin> set cur \<Longrightarrow> walk_path merge S cur cs = Some path \<Longrightarrow> confined merge path"
proof (induction cs arbitrary: S cur)
  case Nil
  have "real_segment []" by (simp add: real_segment_def)
  moreover have "clean merge (tl S)" using Nil.prems(1) by (cases S) (simp_all add: clean_def)
  ultimately show ?case using Nil.prems render_confined [of merge S "[]"] render_confined [of merge "tl S" "[]"] render_confined [of merge S cur]
    by (auto simp: last_segment_def real_segment_def split: if_splits list.splits)
next
  case (Cons c cs)
  show ?case
  proof (cases "c = 47")
    case True
    then obtain S' where S': "close_segment merge S cur = Some S'" "walk_path merge S' [] cs = Some path" using Cons.prems(3) by (auto simp: bind_eq_Some_conv)
    show ?thesis using Cons.IH [OF close_clean [OF Cons.prems(1,2) S'(1)] _ S'(2)] by simp
  next
    case False
    then show ?thesis using Cons.IH [of S "cur @ [c]"] Cons.prems by simp
  qed
qed

lemma uri_path_confined: "uri_path merge uri = Some path \<Longrightarrow> confined merge path"
  by (auto simp: uri_path_def bind_eq_Some_conv normal_path_walk clean_def split: if_splits intro: walk_confined [of merge "[]" "[]"])

section \<open>Properties\<close>

text \<open>C8: The request line parser and the URI normalisation together implement the two-pass reference: from a request line that is accepted, the
  processed URI has the path that the reference computes from the request's target (decoding its escapes, resolving
  \<open>.\<close> and \<open>..\<close>, merging slashes if asked to) and its query, whether the URI was used in place or rewritten into a buffer of the pool; the request is refused
  only if the reference refuses the target or memory is exhausted, and no access is ever out of bounds.\<close>

theorem request_uri_normalised:
  assumes "ngx_http_parse_request_line le mem (sw_start, r) pos lim = Some (NGX_OK, (st, r'), q)"
    and "pos \<le> lim" and "lim \<le> length mem" and "le \<longrightarrow> lim < length mem" and "fresh_request r" and "args_start r = NULL" and "\<not> empty_path_in_uri r"
    and "\<forall>n out. pnalloc n = Some out \<longrightarrow> length out = n"
  shows "(\<exists>w path. ngx_http_process_request_uri merge pnalloc mem r' = Some (NGX_OK, Some w) \<and> uri_path merge (request_target mem r') = Some path \<and>
      uri_as mem path (uri_query (request_target mem r')) w) \<or>
    ngx_http_process_request_uri merge pnalloc mem r' = Some (NGX_ERROR, None) \<and> (uri_path merge (request_target mem r') = None \<or> (\<exists>n. pnalloc n = None))"
proof -
  have "uri_ready mem q r'" "q \<le> length mem" using uri_delimited [OF assms(1-7)] assms(3) by auto
  from processed_uri [OF this] show ?thesis using assms(8) by blast
qed

text \<open>C9: A request cannot name a file above the root: whenever the URI of an accepted request line is processed successfully, the path handed to the
  rest of the server starts with a slash and none of its segments is \<open>.\<close> or \<open>..\<close>, however these were written or escaped; with \<open>merge_slashes\<close> it has no empty segment
  before the last one either.\<close>

theorem request_uri_confined:
  assumes "ngx_http_parse_request_line le mem (sw_start, r) pos lim = Some (NGX_OK, (st, r'), q)"
    and "pos \<le> lim" and "lim \<le> length mem" and "le \<longrightarrow> lim < length mem" and "fresh_request r" and "args_start r = NULL" and "\<not> empty_path_in_uri r"
    and "\<forall>n out. pnalloc n = Some out \<longrightarrow> length out = n"
    and "ngx_http_process_request_uri merge pnalloc mem r' = Some (NGX_OK, Some w)"
  shows "confined merge (data_bytes mem (ru_data w) (ru_len w))"
proof -
  have "uri_ready mem q r'" "q \<le> length mem" using uri_delimited [OF assms(1-7)] assms(3) by auto
  from processed_uri [OF this, of pnalloc merge] show ?thesis using assms(8,9) by (auto simp: uri_as_def uri_path_confined)
qed

section \<open>Witnesses\<close>

definition get_up :: bytes where
  \<comment> \<open>\<open>GET /a/%2e./b?x HTTP/1.1\<close>\<close>
  "get_up = [71, 69, 84, 32, 47, 97, 47, 37, 50, 101, 46, 47, 98, 63, 120, 32, 72, 84, 84, 80, 47, 49, 46, 49, 13, 10, 0]"

definition request_up :: ngx_http_request where
  "request_up = request0\<lparr>request_start := Some 0, request_end := Some 24, method_end := Some 2, uri_start := Some 4, uri_end := Some 15,
     http_protocol := Some 16, http_method := 2, http_minor := 1, http_major := 1, http_version := 1001, quoted_uri := True\<rparr>"

lemma parse_up: "ngx_http_parse_request_line True get_up (sw_start, request0) 0 26 = Some (NGX_OK, (sw_start, request_up), 26)"
  by code_simp

lemma hypotheses_up: "fresh_request request0" "args_start request0 = NULL" "\<not> empty_path_in_uri request0" "length get_up = 27"
  by (simp_all add: request0_def get_up_def fresh_request_def)

lemma process_up: "ngx_http_process_request_uri True (\<lambda>n. Some (replicate n 0)) get_up request_up =
    Some (NGX_OK, Some \<lparr>ru_data = In_pool [47, 98, 47, 46, 46, 0, 0, 0, 0, 0, 0] 0, ru_len = 2, ru_unparsed = (4, 11), ru_valid_unparsed = True,
      ru_exten = None, ru_args = Some (14, 1)\<rparr>)"
  by code_simp

lemma request_uri_normalised_witness:
  "\<exists>w path. ngx_http_process_request_uri True (\<lambda>n. Some (replicate n 0)) get_up request_up = Some (NGX_OK, Some w) \<and>
    uri_path True (request_target get_up request_up) = Some path \<and> uri_as get_up path (uri_query (request_target get_up request_up)) w"
  using request_uri_normalised [OF parse_up, of "\<lambda>n. Some (replicate n 0)" True] process_up by (simp add: hypotheses_up)

lemma request_uri_confined_witness: "confined True [47, 98]"
  using request_uri_confined [OF parse_up _ _ _ _ _ _ _ process_up] by (simp add: hypotheses_up data_bytes_def)

end
