(* ===== verification/Ngx_Hash.thy ===== *)
theory Ngx_Hash
  imports Ngx_Core
begin

text \<open>
  The hash keys of \<^verbatim>\<open>src/nginx/src/core/ngx_hash.c\<close> (with \<open>ngx_hash\<close> of \<^verbatim>\<open>ngx_hash.h\<close>), which nginx computes for names of headers, variables and servers.
\<close>

definition ngx_hash :: "u64 \<Rightarrow> u8 \<Rightarrow> u64" where
  "ngx_hash key c = key * 31 + ucast c"

fun hash_key_loop :: "bytes \<Rightarrow> nat \<Rightarrow> nat \<Rightarrow> u64 \<Rightarrow> u64 option" where
  "hash_key_loop data i 0 key = Some key"
| "hash_key_loop data i (Suc n) key = Option.bind (arr_get data (int i)) (\<lambda>c. hash_key_loop data (i + 1) n (ngx_hash key c))"

definition ngx_hash_key :: "bytes \<Rightarrow> nat \<Rightarrow> u64 option" where
  "ngx_hash_key data len = hash_key_loop data 0 len 0"

fun hash_key_lc_loop :: "bytes \<Rightarrow> nat \<Rightarrow> nat \<Rightarrow> u64 \<Rightarrow> u64 option" where
  "hash_key_lc_loop data i 0 key = Some key"
| "hash_key_lc_loop data i (Suc n) key =
     Option.bind (arr_get data (int i)) (\<lambda>c. hash_key_lc_loop data (i + 1) n (ngx_hash key (ngx_tolower c)))"

definition ngx_hash_key_lc :: "bytes \<Rightarrow> nat \<Rightarrow> u64 option" where
  "ngx_hash_key_lc data len = hash_key_lc_loop data 0 len 0"

fun hash_strlow_loop :: "bytes \<Rightarrow> nat \<Rightarrow> bytes \<Rightarrow> nat \<Rightarrow> nat \<Rightarrow> u64 \<Rightarrow> (bytes \<times> u64) option" where
  "hash_strlow_loop dst d src s 0 key = Some (dst, key)"
| "hash_strlow_loop dst d src s (Suc n) key = do {
     c \<leftarrow> arr_get src (int s);
     dst \<leftarrow> arr_set dst (int d) (ngx_tolower c);
     hash_strlow_loop dst (d + 1) src (s + 1) n (ngx_hash key (ngx_tolower c))
   }"

definition ngx_hash_strlow :: "bytes \<Rightarrow> bytes \<Rightarrow> nat \<Rightarrow> (bytes \<times> u64) option" where
  \<comment> \<open>with separate buffers\<close>
  "ngx_hash_strlow dst src n = hash_strlow_loop dst 0 src 0 n 0"

definition key_of :: "bytes \<Rightarrow> u64" where
  \<comment> \<open>the key of a name\<close>
  "key_of xs = foldl ngx_hash 0 xs"

lemma key_of_snoc [simp]: "key_of (xs @ [c]) = ngx_hash (key_of xs) c"
  by (simp add: key_of_def)

lemma key_of_Nil [simp]: "key_of [] = 0"
  by (simp add: key_of_def)

lemma hash_key_loop_ok: "i + n \<le> length data \<Longrightarrow> hash_key_loop data i n key = Some (foldl ngx_hash key (take n (drop i data)))"
proof (induction n arbitrary: i key)
  case (Suc n)
  then have "drop i data = data ! i # drop (i + 1) data" by (simp add: Cons_nth_drop_Suc)
  then show ?case using Suc by (simp add: arr_get_nat)
qed simp

lemma hash_key_lc_loop_ok:
  "i + n \<le> length data \<Longrightarrow> hash_key_lc_loop data i n key = Some (foldl ngx_hash key (map ngx_tolower (take n (drop i data))))"
proof (induction n arbitrary: i key)
  case (Suc n)
  then have "drop i data = data ! i # drop (i + 1) data" by (simp add: Cons_nth_drop_Suc)
  then show ?case using Suc by (simp add: arr_get_nat)
qed simp

lemma hash_strlow_loop_ok:
  "s + n \<le> length src \<Longrightarrow> d + n \<le> length dst \<Longrightarrow> hash_strlow_loop dst d src s n key =
     Some (take d dst @ map ngx_tolower (take n (drop s src)) @ drop (d + n) dst, foldl ngx_hash key (map ngx_tolower (take n (drop s src))))"
proof (induction n arbitrary: s d dst key)
  case (Suc n)
  then have "drop s src = src ! s # drop (s + 1) src" by (simp add: Cons_nth_drop_Suc)
  moreover have "take (Suc d) (dst[d := c]) = take d dst @ [c]" for c using Suc.prems by (simp add: take_Suc_conv_app_nth)
  ultimately show ?case using Suc by (simp add: arr_get_nat arr_set_nat)
qed simp

lemma hash_keys:
  assumes "len \<le> length data"
  shows "ngx_hash_key data len = Some (key_of (take len data))"
    and "ngx_hash_key_lc data len = Some (key_of (map ngx_tolower (take len data)))"
    and "len \<le> length dst \<Longrightarrow> ngx_hash_strlow dst data len = Some (map ngx_tolower (take len data) @ drop len dst, key_of (map ngx_tolower (take len data)))"
  using assms by (simp_all add: ngx_hash_key_def ngx_hash_key_lc_def ngx_hash_strlow_def key_of_def hash_key_loop_ok hash_key_lc_loop_ok hash_strlow_loop_ok)

end
