(* ===== verification/Ngx_Http_Header_Line.thy ===== *)
theory Ngx_Http_Header_Line
  imports Ngx_Scan Ngx_Hash
begin

text \<open>
  \<open>ngx_http_parse_header_line\<close> of \<^verbatim>\<open>src/nginx/src/http/ngx_http_parse.c\<close>, the state machine for one line of the
  header. While it reads a name it computes the hash key under which the name is looked up and copies
  the name in lower case to a buffer of 32 bytes that it writes round and round.
\<close>

section \<open>The model\<close>

record ngx_http_header =
  header_hash :: u64
  lowcase_index :: nat
  lowcase_header :: bytes
  header_name_start :: ptr
  header_name_end :: ptr
  header_start :: ptr
  header_end :: ptr
  invalid_header :: bool

abbreviation (input) NGX_HTTP_LC_HEADER_LEN :: nat where "NGX_HTTP_LC_HEADER_LEN \<equiv> 32"

abbreviation (input) NGX_HTTP_PARSE_HEADER_DONE :: int where "NGX_HTTP_PARSE_HEADER_DONE \<equiv> 1"

abbreviation (input) NGX_HTTP_PARSE_INVALID_HEADER :: int where "NGX_HTTP_PARSE_INVALID_HEADER \<equiv> 14"

definition lower_letters :: bytes where
  "lower_letters = [97, 98, 99, 100, 101, 102, 103, 104, 105, 106, 107, 108, 109, 110, 111, 112, 113, 114, 115, 116, 117, 118, 119, 120, 121, 122]"

definition lowcase :: bytes where
  "lowcase =
     replicate 32 0 @
     replicate 13 0 @ [45, 0, 0] @ [48, 49, 50, 51, 52, 53, 54, 55, 56, 57, 0, 0, 0, 0, 0, 0] @
     [0] @ lower_letters @ [0, 0, 0, 0, 0] @
     [0] @ lower_letters @ [0, 0, 0, 0, 0] @
     replicate 128 0"

datatype hl_state = sw_start | sw_name | sw_space_before_value | sw_value | sw_space_after_value | sw_ignore_line | sw_almost_done
  | sw_header_almost_done

datatype hl_exit = Line_done u64 nat ngx_http_header | Header_done ngx_http_header | Bad_header ngx_http_header

type_synonym hl_locals = "hl_state \<times> u64 \<times> nat \<times> ngx_http_header"

type_synonym hl_result = "(hl_locals + hl_exit) option"

definition name_byte :: "u8 \<Rightarrow> u64 \<Rightarrow> nat \<Rightarrow> ngx_http_header \<Rightarrow> hl_result" where
  \<comment> \<open>\<open>hash = ngx_hash(hash, c); r->lowcase_header[i++] = c; i &= (NGX_HTTP_LC_HEADER_LEN - 1);\<close>\<close>
  "name_byte c hash i r = do {
     lc \<leftarrow> arr_set (lowcase_header r) (int i) c;
     Some (Inl (sw_name, ngx_hash hash c, (i + 1) AND (NGX_HTTP_LC_HEADER_LEN - 1), r\<lparr>lowcase_header := lc\<rparr>))
   }"

definition hl_start_step :: "bool \<Rightarrow> nat \<Rightarrow> u8 \<Rightarrow> u64 \<Rightarrow> nat \<Rightarrow> ngx_http_header \<Rightarrow> hl_result" where
  "hl_start_step allow_underscores p ch hash i r =
     (let r = r\<lparr>header_name_start := Some p, invalid_header := False\<rparr> in
      if ch = CR then Some (Inl (sw_header_almost_done, hash, i, r\<lparr>header_end := Some p\<rparr>))
      else if ch = LF then Some (Inr (Header_done (r\<lparr>header_end := Some p\<rparr>)))
      else Option.bind (arr_get lowcase (uint ch)) (\<lambda>c.
        if c \<noteq> 0 then
          Option.bind (arr_set (lowcase_header r) 0 c) (\<lambda>lc. Some (Inl (sw_name, ngx_hash 0 c, 1, r\<lparr>lowcase_header := lc\<rparr>)))
        else if ch = 95 then
          (if allow_underscores then
             Option.bind (arr_set (lowcase_header r) 0 ch) (\<lambda>lc. Some (Inl (sw_name, ngx_hash 0 ch, 1, r\<lparr>lowcase_header := lc\<rparr>)))
           else Some (Inl (sw_name, 0, 0, r\<lparr>invalid_header := True\<rparr>)))
        else if ch \<le> 0x20 \<or> ch = 0x7f \<or> ch = 58 then Some (Inr (Bad_header (r\<lparr>header_end := Some p\<rparr>)))
        else Some (Inl (sw_name, 0, 0, r\<lparr>invalid_header := True\<rparr>))))"

definition http_line :: "bytes \<Rightarrow> nat \<Rightarrow> ngx_http_header \<Rightarrow> bool option" where
  \<comment> \<open>\<open>p - r->header_name_start == 4 && ngx_strncmp(r->header_name_start, "HTTP", 4) == 0\<close>\<close>
  "http_line mem p r =
     (case header_name_start r of
        None \<Rightarrow> None
      | Some s \<Rightarrow> if p - s = 4 then map_option (\<lambda>xs. xs = [72, 84, 84, 80]) (mem_read mem (int s) 4) else Some False)"

definition hl_name_step :: "bool \<Rightarrow> bool \<Rightarrow> bytes \<Rightarrow> nat \<Rightarrow> u8 \<Rightarrow> u64 \<Rightarrow> nat \<Rightarrow> ngx_http_header \<Rightarrow> hl_result" where
  "hl_name_step allow_underscores upstream mem p ch hash i r =
     Option.bind (arr_get lowcase (uint ch)) (\<lambda>c.
       if c \<noteq> 0 then name_byte c hash i r
       else if ch = 95 then
         (if allow_underscores then name_byte ch hash i r else Some (Inl (sw_name, hash, i, r\<lparr>invalid_header := True\<rparr>)))
       else if ch = 58 then Some (Inl (sw_space_before_value, hash, i, r\<lparr>header_name_end := Some p\<rparr>))
       else if ch = CR then Some (Inl (sw_almost_done, hash, i, r\<lparr>header_name_end := Some p, header_start := Some p, header_end := Some p\<rparr>))
       else if ch = LF then Some (Inr (Line_done hash i (r\<lparr>header_name_end := Some p, header_start := Some p, header_end := Some p\<rparr>)))
       else Option.bind (if ch = 47 \<and> upstream then http_line mem p r else Some False) (\<lambda>dup.
         if dup then Some (Inl (sw_ignore_line, hash, i, r))
         else if ch \<le> 0x20 \<or> ch = 0x7f then Some (Inr (Bad_header (r\<lparr>header_end := Some p\<rparr>)))
         else Some (Inl (sw_name, hash, i, r\<lparr>invalid_header := True\<rparr>))))"

definition hl_value_step :: "hl_state \<Rightarrow> nat \<Rightarrow> u8 \<Rightarrow> u64 \<Rightarrow> nat \<Rightarrow> ngx_http_header \<Rightarrow> hl_result" where
  "hl_value_step state p ch hash i r =
     (let stay = (\<lambda>st r. Some (Inl (st, hash, i, r)));
          found = (\<lambda>r. Some (Inr (Line_done hash i r)));
          bad = (\<lambda>r. Some (Inr (Bad_header r))) in
      case state of
        sw_space_before_value \<Rightarrow>
          if ch = 32 then stay state r
          else if ch = CR then stay sw_almost_done (r\<lparr>header_start := Some p, header_end := Some p\<rparr>)
          else if ch = LF then found (r\<lparr>header_start := Some p, header_end := Some p\<rparr>)
          else if ch = 0 then bad (r\<lparr>header_end := Some p\<rparr>)
          else stay sw_value (r\<lparr>header_start := Some p\<rparr>)
      | sw_value \<Rightarrow>
          if ch = 32 then stay sw_space_after_value (r\<lparr>header_end := Some p\<rparr>)
          else if ch = CR then stay sw_almost_done (r\<lparr>header_end := Some p\<rparr>)
          else if ch = LF then found (r\<lparr>header_end := Some p\<rparr>)
          else if ch = 0 then bad (r\<lparr>header_end := Some p\<rparr>)
          else stay state r
      | sw_space_after_value \<Rightarrow>
          if ch = 32 then stay state r
          else if ch = CR then stay sw_almost_done r
          else if ch = LF then found r
          else if ch = 0 then bad (r\<lparr>header_end := Some p\<rparr>)
          else stay sw_value r
      | sw_ignore_line \<Rightarrow> if ch = LF then stay sw_start r else stay state r
      | sw_almost_done \<Rightarrow> if ch = LF then found r else if ch = CR then stay state r else bad r
      | _ \<Rightarrow> \<comment> \<open>\<open>sw_header_almost_done\<close>\<close> if ch = LF then Some (Inr (Header_done r)) else bad r)"

definition hl_step :: "bool \<Rightarrow> bool \<Rightarrow> bytes \<Rightarrow> nat \<Rightarrow> u8 \<Rightarrow> hl_locals \<Rightarrow> hl_result" where
  "hl_step allow_underscores upstream mem p ch = (\<lambda>(state, hash, i, r).
     if state = sw_start then hl_start_step allow_underscores p ch hash i r
     else if state = sw_name then hl_name_step allow_underscores upstream mem p ch hash i r
     else hl_value_step state p ch hash i r)"

definition hl_enter :: "hl_state \<times> ngx_http_header \<Rightarrow> hl_locals" where
  "hl_enter = (\<lambda>(state, r). (state, header_hash r, lowcase_index r, r))"

definition hl_leave :: "hl_locals \<Rightarrow> hl_state \<times> ngx_http_header" where
  "hl_leave = (\<lambda>(state, hash, i, r). (state, r\<lparr>header_hash := hash, lowcase_index := i\<rparr>))"

definition hl_finish :: "hl_state \<times> ngx_http_header \<Rightarrow> hl_exit \<Rightarrow> nat \<Rightarrow> nat \<Rightarrow> int \<times> (hl_state \<times> ngx_http_header) \<times> nat" where
  \<comment> \<open>the labels \<open>done\<close> and \<open>header_done\<close>, or an early return\<close>
  "hl_finish entry x p pos =
     (case x of
        Line_done hash i r \<Rightarrow> (NGX_OK, (sw_start, r\<lparr>header_hash := hash, lowcase_index := i\<rparr>), p + 1)
      | Header_done r \<Rightarrow> (NGX_HTTP_PARSE_HEADER_DONE, (sw_start, r), p + 1)
      | Bad_header r \<Rightarrow> (NGX_HTTP_PARSE_INVALID_HEADER, (fst entry, r), pos))"

definition ngx_http_parse_header_line :: "bool \<Rightarrow> bool \<Rightarrow> bytes \<Rightarrow> hl_state \<times> ngx_http_header \<Rightarrow> nat \<Rightarrow> nat
    \<Rightarrow> (int \<times> (hl_state \<times> ngx_http_header) \<times> nat) option" where
  "ngx_http_parse_header_line allow_underscores upstream mem r pos lim = do {
     xs \<leftarrow> mem_read mem (int pos) (lim - pos);
     (p, v) \<leftarrow> scan (hl_step allow_underscores upstream mem) pos xs (hl_enter r);
     (case v of Inl s \<Rightarrow> Some (NGX_AGAIN, hl_leave s, p) | Inr x \<Rightarrow> Some (hl_finish r x p pos))
   }"

section \<open>A line may arrive in pieces\<close>

definition hl_rel :: "hl_locals \<Rightarrow> hl_locals \<Rightarrow> bool" where
  \<comment> \<open>the saved copies of the hash and the index are not looked at inside the loop\<close>
  "hl_rel = (\<lambda>(st, hash, i, r) (st', hash', i', r'). st = st' \<and> hash = hash' \<and> i = i' \<and>
     r\<lparr>header_hash := 0, lowcase_index := 0\<rparr> = r'\<lparr>header_hash := 0, lowcase_index := 0\<rparr>)"

definition hl_view :: "int \<times> (hl_state \<times> ngx_http_header) \<times> nat \<Rightarrow> int \<times> (hl_state \<times> ngx_http_header) \<times> nat" where
  \<comment> \<open>at the end of the header and after an error the hash and the index are stale, and after an error also state and position\<close>
  "hl_view = (\<lambda>(rc, (state, r), pos).
     if rc = NGX_HTTP_PARSE_INVALID_HEADER then (rc, (sw_start, r\<lparr>header_hash := 0, lowcase_index := 0\<rparr>), 0)
     else if rc = NGX_HTTP_PARSE_HEADER_DONE then (rc, (state, r\<lparr>header_hash := 0, lowcase_index := 0\<rparr>), pos)
     else (rc, (state, r), pos))"

lemma hl_rel_iff: "hl_rel (st, hash, i, r) (st', hash', i', r') \<longleftrightarrow>
    st = st' \<and> hash = hash' \<and> i = i' \<and> (\<exists>h k. r' = r\<lparr>header_hash := h, lowcase_index := k\<rparr>)"
proof -
  have "(r\<lparr>header_hash := 0, lowcase_index := 0\<rparr> = r'\<lparr>header_hash := 0, lowcase_index := 0\<rparr>) \<longleftrightarrow> (\<exists>h k. r' = r\<lparr>header_hash := h, lowcase_index := k\<rparr>)"
  proof
    assume "r\<lparr>header_hash := 0, lowcase_index := 0\<rparr> = r'\<lparr>header_hash := 0, lowcase_index := 0\<rparr>"
    then have "r' = r\<lparr>header_hash := header_hash r', lowcase_index := lowcase_index r'\<rparr>" by (cases r; cases r') simp
    then show "\<exists>h k. r' = r\<lparr>header_hash := h, lowcase_index := k\<rparr>" by blast
  qed auto
  then show ?thesis by (simp add: hl_rel_def)
qed

definition stale_locals :: "u64 \<Rightarrow> nat \<Rightarrow> hl_locals \<Rightarrow> hl_locals" where
  "stale_locals h k = (\<lambda>(st, hash, i, r). (st, hash, i, r\<lparr>header_hash := h, lowcase_index := k\<rparr>))"

definition stale_exit :: "u64 \<Rightarrow> nat \<Rightarrow> hl_exit \<Rightarrow> hl_exit" where
  "stale_exit h k x = (case x of Line_done hash i r \<Rightarrow> Line_done hash i (r\<lparr>header_hash := h, lowcase_index := k\<rparr>)
     | Header_done r \<Rightarrow> Header_done (r\<lparr>header_hash := h, lowcase_index := k\<rparr>)
     | Bad_header r \<Rightarrow> Bad_header (r\<lparr>header_hash := h, lowcase_index := k\<rparr>))"

lemma stale_unseen: "hl_rel l (stale_locals h k l)" "hl_view (hl_finish e (stale_exit h k x) p pos) = hl_view (hl_finish e x p pos)"
proof -
  show "hl_rel l (stale_locals h k l)" by (cases l) (auto simp: stale_locals_def hl_rel_iff)
  show "hl_view (hl_finish e (stale_exit h k x) p pos) = hl_view (hl_finish e x p pos)"
    by (cases x) (simp_all add: stale_exit_def hl_finish_def hl_view_def)
qed

lemma hl_step_stale:
  "hl_step u up mem p ch (stale_locals h k s) = map_option (map_sum (stale_locals h k) (stale_exit h k)) (hl_step u up mem p ch s)"
proof -
  obtain st hash i r where s: "s = (st, hash, i, r)" by (cases s)
  have line: "http_line mem p (r\<lparr>header_hash := h, lowcase_index := k\<rparr>) = http_line mem p r" by (simp add: http_line_def)
  note stale = stale_locals_def stale_exit_def
  consider "st = sw_start" | "st = sw_name" | "st \<notin> {sw_start, sw_name}" by blast
  then show ?thesis
  proof cases
    case 1
    then show ?thesis by (cases "arr_get lowcase (uint ch)"; cases "arr_set (lowcase_header r) 0 (the (arr_get lowcase (uint ch)))"; cases "arr_set (lowcase_header r) 0 95")
        (simp_all add: stale s hl_step_def hl_start_step_def Let_def)
  next
    case 2
    then show ?thesis by (cases "arr_get lowcase (uint ch)"; cases "arr_set (lowcase_header r) (int i) (the (arr_get lowcase (uint ch)))"; cases "arr_set (lowcase_header r) (int i) 95";
          cases "http_line mem p r") (simp_all add: stale s hl_step_def hl_name_step_def name_byte_def line)
  next
    case 3
    then show ?thesis by (cases st) (simp_all add: stale s hl_step_def hl_value_step_def Let_def)
  qed
qed

interpretation hl: scan_parser "hl_step u up" hl_enter hl_leave hl_finish "ngx_http_parse_header_line u up" hl_view hl_rel for u up
proof
  fix mem r pos lim
  show "ngx_http_parse_header_line u up mem r pos lim = Option.bind (mem_read mem (int pos) (lim - pos))
      (\<lambda>xs. Option.bind (scan (hl_step u up mem) pos xs (hl_enter r))
      (\<lambda>(p, v). case v of Inl s \<Rightarrow> Some (NGX_AGAIN, hl_leave s, p) | Inr x \<Rightarrow> Some (hl_finish r x p pos)))"
    by (simp add: ngx_http_parse_header_line_def)
next
  fix mem mem' :: bytes and p ch and s :: hl_locals
  assume a: "length mem = length mem'" "take (Suc p) mem = take (Suc p) mem'" "p < length mem"
  have line: "http_line mem p r = http_line mem' p r" for r
  proof (cases "header_name_start r")
    case (Some s)
    have "take 4 (drop s mem) = take 4 (drop s mem')" if "p - s = 4"
    proof -
      have "take 4 (drop s (take (Suc p) mem)) = take 4 (drop s (take (Suc p) mem'))" using a(2) by simp
      moreover have "4 \<le> Suc p - s" using that by linarith
      ultimately show ?thesis by (simp add: drop_take min_def)
    qed
    then show ?thesis using a(1) Some by (simp add: http_line_def mem_read_def)
  qed (simp add: http_line_def)
  show "hl_step u up mem p ch s = hl_step u up mem' p ch s" by (simp only: hl_step_def hl_name_step_def line)
next
  fix r :: "hl_state \<times> ngx_http_header" and x p pos
  show "fst (hl_finish r x p pos) \<noteq> NGX_AGAIN" by (simp add: hl_finish_def split: hl_exit.split)
next
  fix r r' :: "hl_state \<times> ngx_http_header" and x p pos pos'
  show "hl_view (hl_finish r x p pos) = hl_view (hl_finish r' x p pos')" by (simp add: hl_finish_def hl_view_def split: hl_exit.split)
next
  fix s
  show "hl_rel (hl_enter (hl_leave s)) s"
    by (cases s) (simp add: hl_enter_def hl_leave_def hl_rel_def)
next
  fix s s' p assume "hl_rel s s'"
  then show "hl_view (NGX_AGAIN, hl_leave s, p) = hl_view (NGX_AGAIN, hl_leave s', p)"
    by (cases s; cases s') (auto simp: hl_rel_iff hl_leave_def hl_view_def)
next
  fix s s' mem p ch assume "hl_rel s s'"
  then obtain h k where s': "s' = stale_locals h k s"
    by (cases s; cases s') (auto simp: hl_rel_iff stale_locals_def)
  show "rel_option (rel_sum hl_rel (\<lambda>x x'. \<forall>r p pos. hl_view (hl_finish r x p pos) = hl_view (hl_finish r x' p pos)))
      (hl_step u up mem p ch s) (hl_step u up mem p ch s')"
    unfolding s' hl_step_stale
  proof (cases "hl_step u up mem p ch s")
    case (Some v)
    then show "rel_option (rel_sum hl_rel (\<lambda>x x'. \<forall>r p pos. hl_view (hl_finish r x p pos) = hl_view (hl_finish r x' p pos)))
        (hl_step u up mem p ch s) (map_option (map_sum (stale_locals h k) (stale_exit h k)) (hl_step u up mem p ch s))"
      by (cases v) (simp_all add: stale_unseen)
  qed simp
qed

end
