(* ===== verification/Ngx_Http_Header_Line_Spec.thy ===== *)
theory Ngx_Http_Header_Line_Spec
  imports Ngx_Http_Header_Line
begin

text \<open>
  What \<open>ngx_http_parse_header_line\<close> accepts: the invariant of its loop, state by state, and from it the form of
  an accepted line, the agreement of the hash with \<open>ngx_hash_key_lc\<close>, and that well-formed lines are accepted.
\<close>

section \<open>The table of characters\<close>


definition low :: "u8 \<Rightarrow> u8" where
  \<comment> \<open>what the table holds: dashes, digits and letters, the latter in lower case\<close>
  "low c = (if c = 45 \<or> 48 \<le> c \<and> c \<le> 57 \<or> 65 \<le> c \<and> c \<le> 90 \<or> 97 \<le> c \<and> c \<le> 122 then ngx_tolower c else 0)"

lemma lowcase_rows: "list_all (\<lambda>n. lowcase ! n = low (of_nat n)) [0..<256]"
  by code_simp

lemma lowcase_get: "arr_get lowcase (uint c) = Some (low c)"
proof -
  have len: "length lowcase = 256" by (simp add: lowcase_def lower_letters_def)
  have "unat c < 256" using unsigned_less [of c, where 'a = nat] by simp
  moreover from this have "lowcase ! unat c = low (of_nat (unat c))" using lowcase_rows by (simp add: list_all_iff)
  ultimately show ?thesis using arr_get_nat [of "unat c" lowcase] by (simp add: len)
qed

lemma low_name: "low c \<noteq> 0 \<Longrightarrow> low c = ngx_tolower c"
  by (simp add: low_def split: if_splits)

definition name_char :: "bool \<Rightarrow> u8 \<Rightarrow> bool" where
  \<comment> \<open>the characters of a valid name\<close>
  "name_char u c = (c = 45 \<or> 48 \<le> c \<and> c \<le> 57 \<or> 65 \<le> c \<and> c \<le> 90 \<or> 97 \<le> c \<and> c \<le> 122 \<or> u \<and> c = 95)"

lemma low_zero: "low c = 0 \<longleftrightarrow> \<not> (c = 45 \<or> 48 \<le> c \<and> c \<le> 57 \<or> 65 \<le> c \<and> c \<le> 90 \<or> 97 \<le> c \<and> c \<le> 122)"
proof -
  have "ngx_tolower c \<noteq> 0" if "c \<noteq> 0"
  proof (cases "65 \<le> c \<and> c \<le> 90")
    case True
    have "bit (c OR 0x20) 5" by (simp add: bit_simps)
    then have "c OR 0x20 \<noteq> 0" by auto
    then show ?thesis using True by (simp add: ngx_tolower_def)
  qed (use that in \<open>auto simp: ngx_tolower_def\<close>)
  moreover have "c = 45 \<or> 48 \<le> c \<and> c \<le> 57 \<or> 65 \<le> c \<and> c \<le> 90 \<or> 97 \<le> c \<and> c \<le> 122 \<Longrightarrow> c \<noteq> 0" by auto
  ultimately show ?thesis by (auto simp: low_def)
qed

definition name_byte_ok :: "u8 \<Rightarrow> bool" where
  \<comment> \<open>what may stand in a name at all\<close>
  "name_byte_ok c = (32 < c \<and> c \<noteq> 127 \<and> c \<noteq> 58)"

lemma name_char_ok: "name_char u c \<Longrightarrow> name_byte_ok c"
  by (auto simp: name_char_def name_byte_ok_def word_less_nat_alt word_le_nat_alt)

section \<open>The invariant of the loop\<close>

definition name_read :: "bool \<Rightarrow> bytes \<Rightarrow> nat \<Rightarrow> nat \<Rightarrow> u64 \<Rightarrow> nat \<Rightarrow> ngx_http_header \<Rightarrow> bool" where
  \<comment> \<open>the bytes from \<open>s\<close> to \<open>e\<close> have been read as a name\<close>
  "name_read u mem s e hash i r = (header_name_start r = Some s \<and> s < e \<and> (\<forall>c\<in>set (seg mem s e). name_byte_ok c) \<and>
     (\<not> invalid_header r \<longrightarrow> (\<forall>c\<in>set (seg mem s e). name_char u c) \<and> hash = key_of (map ngx_tolower (seg mem s e)) \<and> i = (e - s) mod 32 \<and>
       (e - s \<le> 32 \<longrightarrow> take (e - s) (lowcase_header r) = map ngx_tolower (seg mem s e))))"

definition value_byte :: "u8 \<Rightarrow> bool" where
  "value_byte c = (c \<noteq> CR \<and> c \<noteq> LF \<and> c \<noteq> 0)"

definition value_at :: "bytes \<Rightarrow> nat \<Rightarrow> nat \<Rightarrow> nat \<Rightarrow> bool" where
  \<comment> \<open>the value between \<open>a\<close> and \<open>b\<close> of a line with a name up to \<open>e\<close>, trimmed\<close>
  "value_at mem e a b = (e < a \<and> mem ! e = 58 \<and> (\<forall>c\<in>set (seg mem (e + 1) a). c = 32) \<and> a \<le> b \<and> (\<forall>c\<in>set (seg mem a b). value_byte c) \<and>
     (a < b \<longrightarrow> mem ! a \<noteq> 32 \<and> mem ! (b - 1) \<noteq> 32))"

definition line_tail :: "bytes \<Rightarrow> nat \<Rightarrow> nat \<Rightarrow> bool" where
  \<comment> \<open>only blanks and then carriage returns\<close>
  "line_tail mem b q = (b \<le> q \<and> (\<exists>m k. seg mem b q = replicate m 32 @ replicate k CR))"

definition header_read :: "bool \<Rightarrow> bytes \<Rightarrow> nat \<Rightarrow> u64 \<Rightarrow> nat \<Rightarrow> ngx_http_header \<Rightarrow> bool" where
  \<comment> \<open>the line up to \<open>q\<close> is a name, a value and the rest behind the value\<close>
  "header_read u mem q hash i r = (\<exists>s e a b. name_read u mem s e hash i r \<and> header_name_end r = Some e \<and> header_start r = Some a \<and> header_end r = Some b \<and>
     (a = e \<and> b = e \<or> value_at mem e a b) \<and> line_tail mem b q)"

definition hl_inv :: "bool \<Rightarrow> bytes \<Rightarrow> nat \<Rightarrow> hl_locals \<Rightarrow> bool" where
  "hl_inv u mem p = (\<lambda>(st, hash, i, r). length (lowcase_header r) = 32 \<and>
     (case st of
        sw_start \<Rightarrow> True
      | sw_name \<Rightarrow> i < 32 \<and> (\<exists>s. name_read u mem s p hash i r)
      | sw_space_before_value \<Rightarrow> (\<exists>s e. name_read u mem s e hash i r \<and> header_name_end r = Some e \<and> e < p \<and> mem ! e = 58 \<and>
          (\<forall>c\<in>set (seg mem (e + 1) p). c = 32))
      | sw_value \<Rightarrow> (\<exists>s e a. name_read u mem s e hash i r \<and> header_name_end r = Some e \<and> header_start r = Some a \<and> a < p \<and> value_at mem e a p)
      | sw_space_after_value \<Rightarrow> (\<exists>s e a b. name_read u mem s e hash i r \<and> header_name_end r = Some e \<and> header_start r = Some a \<and> header_end r = Some b \<and>
          a < b \<and> b < p \<and> value_at mem e a b \<and> (\<forall>c\<in>set (seg mem b p). c = 32))
      | sw_ignore_line \<Rightarrow> True
      | sw_almost_done \<Rightarrow> header_read u mem p hash i r
      | sw_header_almost_done \<Rightarrow> 0 < p \<and> header_name_start r = Some (p - 1) \<and> header_end r = Some (p - 1) \<and> mem ! (p - 1) = CR))"

definition hl_post :: "bool \<Rightarrow> bytes \<Rightarrow> nat \<Rightarrow> (hl_locals + hl_exit) \<Rightarrow> bool" where
  "hl_post u mem p v = (case v of
     Inl s \<Rightarrow> hl_inv u mem (Suc p) s
   | Inr (Line_done hash i r) \<Rightarrow> mem ! p = LF \<and> header_read u mem p hash i r
   | Inr (Header_done r) \<Rightarrow> mem ! p = LF \<and> header_name_start r = header_end r \<and>
       (header_end r = Some p \<or> 0 < p \<and> header_end r = Some (p - 1) \<and> mem ! (p - 1) = CR)
   | Inr (Bad_header r) \<Rightarrow> True)"

lemma line_tail_here [simp]: "line_tail mem p p"
  by (simp add: line_tail_def)

lemma line_tail_blanks: "b \<le> q \<Longrightarrow> \<forall>c\<in>set (seg mem b q). c = 32 \<Longrightarrow> line_tail mem b q"
  unfolding line_tail_def by (metis append_Nil2 replicate_0 replicate_length_same)

lemma header_read_CR:
  assumes "header_read u mem p hash i r" and "mem ! p = CR" and "p < length mem"
  shows "header_read u mem (Suc p) hash i r"
proof -
  have "line_tail mem b (Suc p)" if rest: "line_tail mem b p" for b
  proof -
    obtain m k where "b \<le> p" "seg mem b p = replicate m 32 @ replicate k CR" using rest by (auto simp: line_tail_def)
    then have "seg mem b (Suc p) = replicate m 32 @ replicate (Suc k) CR" using assms(2,3) by (simp add: seg_snoc replicate_append_same)
    then show ?thesis using \<open>b \<le> p\<close> unfolding line_tail_def by (metis le_SucI)
  qed
  then show ?thesis using assms(1) unfolding header_read_def by blast
qed

lemma name_read_fields [simp]:
  "name_read u mem s e hash i (r\<lparr>header_name_end := x\<rparr>) = name_read u mem s e hash i r"
  "name_read u mem s e hash i (r\<lparr>header_start := x\<rparr>) = name_read u mem s e hash i r"
  "name_read u mem s e hash i (r\<lparr>header_end := x\<rparr>) = name_read u mem s e hash i r"
  by (simp_all add: name_read_def)

lemma and_31: "n AND 31 = n mod 32" for n :: nat
proof -
  have "(31 :: nat) = mask 5" by (simp add: mask_eq_exp_minus_1)
  then show ?thesis by (simp only: take_bit_eq_mask [symmetric]) (simp add: take_bit_eq_mod)
qed

lemma name_first:
  assumes "p < length mem" and "length (lowcase_header r) = 32" and "name_char u (mem ! p)"
  shows "name_read u mem p (Suc p) (ngx_hash 0 (ngx_tolower (mem ! p))) 1
    (r\<lparr>header_name_start := Some p, invalid_header := False, lowcase_header := (lowcase_header r)[0 := ngx_tolower (mem ! p)]\<rparr>)"
  using assms name_char_ok [OF assms(3)] by (simp add: name_read_def seg_one take_Suc_conv_app_nth key_of_def)

lemma name_next:
  assumes "name_read u mem s p hash i r" and "p < length mem" and "length (lowcase_header r) = 32" and "i < 32" and "name_char u (mem ! p)"
  shows "name_read u mem s (Suc p) (ngx_hash hash (ngx_tolower (mem ! p))) (Suc i AND 31) (r\<lparr>lowcase_header := (lowcase_header r)[i := ngx_tolower (mem ! p)]\<rparr>)"
proof -
  have s: "s < p" using assms(1) by (simp add: name_read_def)
  have len: "Suc p - s = Suc (p - s)" using s by simp
  have "take (Suc (p - s)) ((lowcase_header r)[i := c]) = take (p - s) (lowcase_header r) @ [c]" if "Suc (p - s) \<le> 32" "i = (p - s) mod 32" for c
    using that assms(3) by (simp add: take_Suc_conv_app_nth)
  then show ?thesis using assms s name_char_ok [OF assms(5)]
    by (auto simp: name_read_def seg_snoc len and_31 mod_Suc_eq)
qed

lemma name_invalid:
  assumes "name_read u mem s p hash i r" and "p < length mem" and "name_byte_ok (mem ! p)"
  shows "name_read u mem s (Suc p) hash i (r\<lparr>invalid_header := True\<rparr>)"
  using assms by (auto simp: name_read_def seg_snoc)


lemma not_name_byte:
  assumes "low c = 0" and "c \<noteq> 58" and "\<not> (c \<le> 0x20 \<or> c = 0x7f)"
  shows "name_byte_ok c"
  using assms by (auto simp: name_byte_ok_def not_le)

lemma tolower_underscore: "ngx_tolower 95 = 95"
  by (simp add: ngx_tolower_def)

lemmas start_low = hl_start_step_def [unfolded lowcase_get bind.simps Let_def]
lemmas name_low = hl_name_step_def [unfolded lowcase_get bind.simps]

lemma start_inv:
  assumes "hl_inv u mem p (sw_start, hash, i, r)" and p: "p < length mem"
  shows "\<exists>v. hl_start_step u p (mem ! p) hash i r = Some v \<and> hl_post u mem p v"
proof -
  let ?c = "mem ! p" and ?r = "r\<lparr>header_name_start := Some p, invalid_header := False\<rparr>"
  have len: "length (lowcase_header r) = 32" using assms(1) by (simp add: hl_inv_def)
  have set: "arr_set (lowcase_header r) 0 c = Some ((lowcase_header r)[0 := c])" for c using arr_set_nat [of 0 "lowcase_header r" c] len by simp
  have inv: "name_read u mem p (Suc p) 0 0 (?r\<lparr>invalid_header := True\<rparr>)" if "name_byte_ok ?c"
    using that p by (simp add: name_read_def seg_one)
  consider "?c = CR" | "?c = LF" | "?c \<noteq> CR" "?c \<noteq> LF" "low ?c \<noteq> 0" | "?c = 95" "low ?c = 0" "u" | "?c = 95" "low ?c = 0" "\<not> u"
    | "?c \<noteq> CR" "?c \<noteq> LF" "low ?c = 0" "?c \<noteq> 95" "?c \<le> 0x20 \<or> ?c = 0x7f \<or> ?c = 58"
    | "?c \<noteq> CR" "?c \<noteq> LF" "low ?c = 0" "?c \<noteq> 95" "\<not> (?c \<le> 0x20 \<or> ?c = 0x7f \<or> ?c = 58)" by blast
  then show ?thesis
  proof cases
    case 3
    have "name_char u ?c" using 3(3) by (auto simp: name_char_def low_zero)
    then show ?thesis using 3 name_first [OF p len, of u] len low_name [of ?c]
      by (auto simp: start_low set hl_post_def hl_inv_def)
  next
    case 4
    have "name_char u 95" using 4(3) by (simp add: name_char_def)
    then show ?thesis using 4 name_first [OF p len, of u] len
      by (auto simp: start_low set hl_post_def hl_inv_def tolower_underscore)
  next
    case 5
    then show ?thesis using inv len by (auto simp: start_low hl_post_def hl_inv_def name_byte_ok_def)
  next
    case 7
    then show ?thesis using inv len not_name_byte [of ?c] by (auto simp: start_low hl_post_def hl_inv_def)
  qed (auto simp: start_low hl_post_def hl_inv_def len)
qed

lemma name_inv:
  assumes "hl_inv u mem p (sw_name, hash, i, r)" and p: "p < length mem"
  shows "\<exists>v. hl_name_step u up mem p (mem ! p) hash i r = Some v \<and> hl_post u mem p v"
proof -
  let ?c = "mem ! p"
  have len: "length (lowcase_header r) = 32" and i: "i < 32" using assms(1) by (auto simp: hl_inv_def)
  obtain s where s: "name_read u mem s p hash i r" using assms(1) by (auto simp: hl_inv_def)
  have byte: "\<exists>v. name_byte (ngx_tolower ?c) hash i r = Some v \<and> hl_post u mem p v" if "name_char u ?c"
    using name_next [OF s p len i that] len i by (auto simp: name_byte_def arr_set_nat hl_post_def hl_inv_def and_31)
  have line: "\<exists>b. http_line mem p r = Some b"
  proof -
    have "s + 4 \<le> length mem" if "p - s = 4" using that p by linarith
    then show ?thesis using s by (auto simp: http_line_def name_read_def mem_read_nat)
  qed
  have ended: "header_read u mem p hash i (r\<lparr>header_name_end := Some p, header_start := Some p, header_end := Some p\<rparr>)"
    using s by (auto simp: header_read_def)
  have invalid: "hl_post u mem p (Inl (sw_name, hash, i, r\<lparr>invalid_header := True\<rparr>))" if "name_byte_ok ?c"
    using name_invalid [OF s p that] len i by (auto simp: hl_post_def hl_inv_def)
  consider "low ?c \<noteq> 0" | "low ?c = 0" "?c = 95" "u" | "low ?c = 0" "?c = 95" "\<not> u" | "low ?c = 0" "?c = 58" | "low ?c = 0" "?c = CR" | "low ?c = 0" "?c = LF"
    | "low ?c = 0" "?c \<notin> {95, 58, CR, LF}" by blast
  then show ?thesis
  proof cases
    case 1
    then have "name_char u ?c" by (auto simp: name_char_def low_zero)
    then show ?thesis using 1 byte low_name [OF 1] by (simp add: name_low)
  next
    case 2
    then show ?thesis using byte by (simp add: name_low name_char_def tolower_underscore)
  next
    case 3
    then show ?thesis using invalid by (simp add: name_low name_byte_ok_def)
  next
    case 4
    then show ?thesis using s len by (auto simp: name_low hl_post_def hl_inv_def)
  next
    case 5
    then show ?thesis using header_read_CR [OF ended _ p] len by (simp add: name_low hl_post_def hl_inv_def)
  next
    case 6
    then show ?thesis using ended by (simp add: name_low hl_post_def)
  next
    case 7
    obtain b where b: "(if ?c = 47 \<and> up then http_line mem p r else Some False) = Some b" using line by (cases "?c = 47 \<and> up") auto
    have "hl_name_step u up mem p ?c hash i r = (if b then Some (Inl (sw_ignore_line, hash, i, r))
        else if ?c \<le> 0x20 \<or> ?c = 0x7f then Some (Inr (Bad_header (r\<lparr>header_end := Some p\<rparr>)))
        else Some (Inl (sw_name, hash, i, r\<lparr>invalid_header := True\<rparr>)))"
      unfolding name_low b using 7 by simp
    then show ?thesis using invalid not_name_byte [OF 7(1)] 7(2) len by (auto simp: hl_post_def hl_inv_def)
  qed
qed

lemma value_more:
  assumes "value_at mem e a p" and "a < p" and "p < length mem" and "value_byte (mem ! p)" and "mem ! p \<noteq> 32"
  shows "value_at mem e a (Suc p)"
  using assms by (auto simp: value_at_def seg_snoc)

lemma value_first:
  assumes "e < p" and "mem ! e = 58" and "\<forall>c\<in>set (seg mem (e + 1) p). c = 32" and "p < length mem"
  shows "value_at mem e p p" and "value_byte (mem ! p) \<Longrightarrow> mem ! p \<noteq> 32 \<Longrightarrow> value_at mem e p (Suc p)"
  using assms by (auto simp: value_at_def seg_one)

lemma value_resumed:
  assumes "value_at mem e a b" and "a < b" and "b < p" and "\<forall>c\<in>set (seg mem b p). c = 32" and "p < length mem" and "value_byte (mem ! p)" and "mem ! p \<noteq> 32"
  shows "value_at mem e a (Suc p)"
proof -
  have "seg mem a (Suc p) = seg mem a b @ seg mem b p @ [mem ! p]" using assms(2,3,5) seg_append [of a b p mem] by (simp add: seg_snoc)
  then show ?thesis using assms by (auto simp: value_at_def value_byte_def)
qed

lemma value_inv:
  assumes "hl_inv u mem p (st, hash, i, r)" and p: "p < length mem" and "st \<notin> {sw_start, sw_name}"
  shows "\<exists>v. hl_value_step st p (mem ! p) hash i r = Some v \<and> hl_post u mem p v"
proof -
  have len: "length (lowcase_header r) = 32" using assms(1) by (simp add: hl_inv_def)
  show ?thesis
  proof (cases st)
    case sw_space_before_value
    then obtain s e where e: "name_read u mem s e hash i r" "header_name_end r = Some e" "e < p" "mem ! e = 58" "\<forall>c\<in>set (seg mem (e + 1) p). c = 32"
      using assms(1) by (auto simp: hl_inv_def)
    note V = value_first [OF e(3-5) p]
    have "header_read u mem p hash i (r\<lparr>header_start := Some p, header_end := Some p\<rparr>)" using e V(1) by (auto simp: header_read_def)
    then show ?thesis using header_read_CR [of u mem p hash i "r\<lparr>header_start := Some p, header_end := Some p\<rparr>"] e V(2) p len
      by (auto simp: sw_space_before_value hl_value_step_def hl_post_def hl_inv_def seg_snoc value_byte_def)
  next
    case sw_value
    then obtain s e a where e: "name_read u mem s e hash i r" "header_name_end r = Some e" "header_start r = Some a" "a < p" "value_at mem e a p"
      using assms(1) by (auto simp: hl_inv_def)
    have "header_read u mem p hash i (r\<lparr>header_end := Some p\<rparr>)" using e by (auto simp: header_read_def)
    then show ?thesis using header_read_CR [of u mem p hash i "r\<lparr>header_end := Some p\<rparr>"] e value_more [OF e(5,4) p] p len
      by (auto simp: sw_value hl_value_step_def hl_post_def hl_inv_def seg_one value_byte_def)
  next
    case sw_space_after_value
    then obtain s e a b where e: "name_read u mem s e hash i r" "header_name_end r = Some e" "header_start r = Some a" "header_end r = Some b"
        "a < b" "b < p" "value_at mem e a b" "\<forall>c\<in>set (seg mem b p). c = 32"
      using assms(1) by (auto simp: hl_inv_def)
    have "header_read u mem p hash i r" using e line_tail_blanks [of b p mem] by (auto simp: header_read_def)
    then show ?thesis using header_read_CR [of u mem p hash i r] e value_resumed [OF e(7,5,6,8) p] p len
      by (auto simp: sw_space_after_value hl_value_step_def hl_post_def hl_inv_def seg_snoc value_byte_def)
  next
    case sw_almost_done
    then have "header_read u mem p hash i r" using assms(1) by (simp add: hl_inv_def)
    then show ?thesis using header_read_CR [of u mem p hash i r] p len by (auto simp: sw_almost_done hl_value_step_def hl_post_def hl_inv_def)
  qed (use assms(1,3) len in \<open>auto simp: hl_value_step_def hl_post_def hl_inv_def\<close>)
qed

lemma hl_step_inv:
  assumes "hl_inv u mem p s" and "p < length mem"
  shows "\<exists>v. hl_step u up mem p (mem ! p) s = Some v \<and> hl_post u mem p v"
  using assms start_inv name_inv value_inv by (cases s) (auto simp: hl_step_def)

definition line_begin :: "bool \<Rightarrow> bytes \<Rightarrow> nat \<Rightarrow> nat \<Rightarrow> bool" where
  \<comment> \<open>where the line starts: at once, or, in a response, behind a status line that is skipped\<close>
  "line_begin up mem pos s = (s = pos \<or> up \<and> pos < s \<and> mem ! (s - 1) = LF)"

definition hl_origin :: "bool \<Rightarrow> bytes \<Rightarrow> nat \<Rightarrow> nat \<Rightarrow> hl_locals \<Rightarrow> bool" where
  "hl_origin up mem pos p = (\<lambda>(st, hash, i, r). pos \<le> p \<and> (case st of sw_start \<Rightarrow> line_begin up mem pos p | sw_ignore_line \<Rightarrow> up
     | _ \<Rightarrow> (\<exists>s. header_name_start r = Some s \<and> line_begin up mem pos s)))"

definition exit_origin :: "bool \<Rightarrow> bytes \<Rightarrow> nat \<Rightarrow> hl_exit \<Rightarrow> bool" where
  "exit_origin up mem pos x = (case x of Line_done hash i r \<Rightarrow> \<exists>s. header_name_start r = Some s \<and> line_begin up mem pos s
     | Header_done r \<Rightarrow> \<exists>s. header_name_start r = Some s \<and> line_begin up mem pos s | Bad_header r \<Rightarrow> True)"

lemma hl_step_origin:
  assumes "hl_origin up mem pos p s" and "hl_step u up mem p (mem ! p) s = Some v"
  shows "case v of Inl s' \<Rightarrow> hl_origin up mem pos (Suc p) s' | Inr x \<Rightarrow> exit_origin up mem pos x"
proof -
  obtain st hash i r where s: "s = (st, hash, i, r)" by (cases s)
  consider "st = sw_start" | "st = sw_name" | "st \<notin> {sw_start, sw_name}" by blast
  then show ?thesis
  proof cases
    case 1
    then show ?thesis using assms
      by (auto simp: s hl_step_def start_low hl_origin_def exit_origin_def Option.bind_eq_Some_conv split: if_splits)
  next
    case 2
    then show ?thesis using assms
      by (auto simp: s hl_step_def name_low hl_origin_def exit_origin_def name_byte_def Option.bind_eq_Some_conv split: if_splits)
  next
    case 3
    then show ?thesis using assms
      by (cases st) (auto simp: s hl_step_def hl_value_step_def hl_origin_def exit_origin_def line_begin_def split: if_splits)
  qed
qed

lemma scan_header:
  assumes "pos \<le> lim" and "lim \<le> length mem" and "length (lowcase_header r) = 32"
  shows "(\<exists>s'. scan (hl_step u up mem) pos (take (lim - pos) (drop pos mem)) (hl_enter (sw_start, r)) = Some (lim, Inl s')) \<or>
      (\<exists>q x. scan (hl_step u up mem) pos (take (lim - pos) (drop pos mem)) (hl_enter (sw_start, r)) = Some (q, Inr x) \<and> hl_post u mem q (Inr x) \<and> exit_origin up mem pos x)"
proof -
  let ?xs = "take (lim - pos) (drop pos mem)" and ?I = "\<lambda>p s. hl_inv u mem p s \<and> hl_origin up mem pos p s"
  have at: "pos + i < length mem" "?xs ! i = mem ! (pos + i)" if "i < length ?xs" for i using that assms(1,2) by auto
  have len: "pos + length ?xs = lim" using assms(1,2) by simp
  have init: "?I pos (hl_enter (sw_start, r))" using assms(3) by (simp add: hl_inv_def hl_enter_def hl_origin_def line_begin_def)
  have step: "\<exists>v. hl_step u up mem (pos + i) (?xs ! i) s = Some v \<and> hl_post u mem (pos + i) v \<and>
      (case v of Inl s' \<Rightarrow> hl_origin up mem pos (Suc (pos + i)) s' | Inr x \<Rightarrow> exit_origin up mem pos x)" if "i < length ?xs" "?I (pos + i) s" for i s
    using hl_step_inv [of u mem "pos + i" s up] hl_step_origin [of up mem pos "pos + i" s u] that(2) at [OF that(1)] by auto
  have "(\<exists>s'. scan (hl_step u up mem) pos ?xs (hl_enter (sw_start, r)) = Some (pos + length ?xs, Inl s') \<and> ?I (pos + length ?xs) s') \<or>
      (\<exists>q x. scan (hl_step u up mem) pos ?xs (hl_enter (sw_start, r)) = Some (q, Inr x) \<and> hl_post u mem q (Inr x) \<and> exit_origin up mem pos x)"
    using step by (intro scan_inv [where I = ?I] init) (fastforce simp: hl_post_def)+
  then show ?thesis unfolding len by blast
qed

section \<open>Reading a well-formed header\<close>

definition same_name :: "ngx_http_header \<Rightarrow> ngx_http_header \<Rightarrow> bool" where
  "same_name r r' = (header_name_start r' = header_name_start r \<and> invalid_header r' = invalid_header r \<and> length (lowcase_header r') = length (lowcase_header r))"

lemma name_char_low: "name_char u c \<Longrightarrow> low c \<noteq> 0 \<and> low c = ngx_tolower c \<or> c = 95 \<and> low c = 0 \<and> u"
  using low_name [of c] by (auto simp: name_char_def low_zero)

lemma scan_name:
  assumes "\<forall>c\<in>set xs. name_char u c" and "length (lowcase_header r) = 32" and "i < 32"
  shows "\<exists>hash' i' r'. scan (hl_step u up mem) p (xs @ ys) (sw_name, hash, i, r) = scan (hl_step u up mem) (p + length xs) ys (sw_name, hash', i', r') \<and>
    same_name r r'"
  using assms
proof (induction xs arbitrary: p hash i r)
  case Nil
  then show ?case by (auto simp: same_name_def)
next
  case (Cons c xs)
  let ?r = "r\<lparr>lowcase_header := (lowcase_header r)[i := ngx_tolower c]\<rparr>"
  have "hl_step u up mem p c (sw_name, hash, i, r) = Some (Inl (sw_name, ngx_hash hash (ngx_tolower c), Suc i AND 31, ?r))"
    using name_char_low [of u c] Cons.prems tolower_underscore by (auto simp: hl_step_def name_low name_byte_def arr_set_nat)
  moreover obtain hash' i' r' where "scan (hl_step u up mem) (p + 1) (xs @ ys) (sw_name, ngx_hash hash (ngx_tolower c), Suc i AND 31, ?r) =
      scan (hl_step u up mem) (p + 1 + length xs) ys (sw_name, hash', i', r')" "same_name ?r r'"
    using Cons.IH [of ?r "Suc i AND 31" "p + 1" "ngx_hash hash (ngx_tolower c)"] Cons.prems by (auto simp: and_31)
  ultimately show ?case by (auto simp: same_name_def)
qed

lemma scan_value:
  assumes "\<forall>c\<in>set xs. value_byte c" and "st \<in> {sw_value, sw_space_after_value}"
  shows "\<exists>st' r'. scan (hl_step u up mem) p (xs @ ys) (st, hash, i, r) = scan (hl_step u up mem) (p + length xs) ys (st', hash, i, r') \<and>
    st' \<in> {sw_value, sw_space_after_value} \<and> (st' = sw_value \<longleftrightarrow> last (if st = sw_value then 0 # xs else 32 # xs) \<noteq> 32) \<and>
    same_name r r' \<and> header_name_end r' = header_name_end r \<and> header_start r' = header_start r"
  using assms
proof (induction xs arbitrary: p st r)
  case Nil
  then show ?case by (auto simp: same_name_def)
next
  case (Cons c xs)
  define r1 where "r1 = (if st = sw_value \<and> c = 32 then r\<lparr>header_end := Some p\<rparr> else r)"
  define st1 where "st1 = (if c = 32 then sw_space_after_value else sw_value)"
  have s: "hl_step u up mem p c (st, hash, i, r) = Some (Inl (st1, hash, i, r1))" "st1 = (if c = 32 then sw_space_after_value else sw_value)"
      "same_name r r1" "header_name_end r1 = header_name_end r" "header_start r1 = header_start r"
    using Cons.prems by (auto simp: hl_step_def hl_value_step_def value_byte_def same_name_def r1_def st1_def)
  obtain st' r' where IH: "scan (hl_step u up mem) (p + 1) (xs @ ys) (st1, hash, i, r1) = scan (hl_step u up mem) (p + 1 + length xs) ys (st', hash, i, r')"
    "st' \<in> {sw_value, sw_space_after_value}" "st' = sw_value \<longleftrightarrow> last (if c = 32 then 32 # xs else 0 # xs) \<noteq> 32"
    "same_name r1 r'" "header_name_end r' = header_name_end r1" "header_start r' = header_start r1"
    using Cons.IH [of st1 "p + 1" r1] Cons.prems(1) by (cases "c = 32") (auto simp: st1_def)
  have "last (if c = 32 then 32 # xs else 0 # xs) \<noteq> 32 \<longleftrightarrow> last (if st = sw_value then 0 # c # xs else 32 # c # xs) \<noteq> 32" by auto
  moreover have "scan (hl_step u up mem) p ((c # xs) @ ys) (st, hash, i, r) = scan (hl_step u up mem) (p + length (c # xs)) ys (st', hash, i, r')"
    using s(1) IH(1) by simp
  moreover have "same_name r r'" using s(3) IH(4) by (simp add: same_name_def)
  ultimately show ?case using s(4,5) IH(2,3,5,6) by metis
qed

lemma scan_header_text:
  assumes name: "name \<noteq> []" "\<forall>c\<in>set name. name_char u c" and v: "v \<noteq> []" "\<forall>c\<in>set v. value_byte c" "hd v \<noteq> 32" "last v \<noteq> 32"
    and len: "length (lowcase_header r) = 32"
  shows "\<exists>hash i r'. scan (hl_step u up mem) p (name @ [58, 32] @ v @ [CR, LF] @ zs) (hl_enter (sw_start, r)) =
      Some (p + length name + 2 + length v + 1, Inr (Line_done hash i r')) \<and>
    header_name_start r' = Some p \<and> \<not> invalid_header r' \<and> header_name_end r' = Some (p + length name) \<and> header_start r' = Some (p + length name + 2) \<and>
    header_end r' = Some (p + length name + 2 + length v)"
proof -
  obtain c cs where n: "name = c # cs" using name(1) by (cases name) auto
  obtain w ws where w: "v = w # ws" using v(1) by (cases v) auto
  let ?r1 = "r\<lparr>header_name_start := Some p, invalid_header := False, lowcase_header := (lowcase_header r)[0 := ngx_tolower c]\<rparr>"
  let ?e = "p + length name"
  let ?tail = "[58, 32] @ v @ [CR, LF] @ zs"
  have set: "arr_set (lowcase_header r) 0 x = Some ((lowcase_header r)[0 := x])" for x using arr_set_nat [of 0 "lowcase_header r" x] len by simp
  have "c \<noteq> CR \<and> c \<noteq> LF" using name(2) by (auto simp: n name_char_def)
  then have first: "hl_step u up mem p c (hl_enter (sw_start, r)) = Some (Inl (sw_name, ngx_hash 0 (ngx_tolower c), 1, ?r1))"
    using name_char_low [of u c] name(2) tolower_underscore by (auto simp: n hl_step_def hl_enter_def start_low set)
  obtain hash i r2 where r2: "scan (hl_step u up mem) (p + 1) (cs @ ?tail) (sw_name, ngx_hash 0 (ngx_tolower c), 1, ?r1) =
      scan (hl_step u up mem) (p + 1 + length cs) ?tail (sw_name, hash, i, r2)" "same_name ?r1 r2"
    using scan_name [of cs u ?r1 1 up mem "p + 1" ?tail "ngx_hash 0 (ngx_tolower c)"] name(2) len unfolding n by fastforce
  let ?r3 = "r2\<lparr>header_name_end := Some ?e, header_start := Some (?e + 2)\<rparr>"
  have colon: "hl_step u up mem ?e 58 (sw_name, hash, i, r2) = Some (Inl (sw_space_before_value, hash, i, r2\<lparr>header_name_end := Some ?e\<rparr>))"
    by (simp add: hl_step_def name_low low_zero)
  have w1: "hl_step u up mem (?e + 2) w (sw_space_before_value, hash, i, r2\<lparr>header_name_end := Some ?e\<rparr>) = Some (Inl (sw_value, hash, i, ?r3))"
    using v(2,3) by (auto simp: w hl_step_def hl_value_step_def value_byte_def)
  obtain r4 where r4: "scan (hl_step u up mem) (?e + 3) (ws @ [CR, LF] @ zs) (sw_value, hash, i, ?r3) =
      scan (hl_step u up mem) (?e + 3 + length ws) ([CR, LF] @ zs) (sw_value, hash, i, r4)"
      "same_name ?r3 r4" "header_name_end r4 = header_name_end ?r3" "header_start r4 = header_start ?r3"
  proof -
    have "last (0 # ws) \<noteq> 32" using v(4) by (auto simp: w)
    then show ?thesis using that scan_value [of ws sw_value u up mem "?e + 3" "[CR, LF] @ zs" hash i ?r3] v(2) by (auto simp: w)
  qed
  have fin: "scan (hl_step u up mem) (?e + 3 + length ws) ([CR, LF] @ zs) (sw_value, hash, i, r4) =
      Some (?e + 3 + length ws + 1, Inr (Line_done hash i (r4\<lparr>header_end := Some (?e + 3 + length ws)\<rparr>)))"
    by (simp add: hl_step_def hl_value_step_def)
  have blank: "hl_step u up mem (?e + 1) 32 (sw_space_before_value, hash, i, r2\<lparr>header_name_end := Some ?e\<rparr>) =
      Some (Inl (sw_space_before_value, hash, i, r2\<lparr>header_name_end := Some ?e\<rparr>))"
    by (simp add: hl_step_def hl_value_step_def)
  have "scan (hl_step u up mem) p (name @ ?tail) (hl_enter (sw_start, r)) = scan (hl_step u up mem) (p + 1) (cs @ ?tail) (sw_name, ngx_hash 0 (ngx_tolower c), 1, ?r1)"
    using first by (simp add: n)
  also have "\<dots> = scan (hl_step u up mem) ?e ?tail (sw_name, hash, i, r2)" using r2(1) by (simp add: n)
  also have "\<dots> = scan (hl_step u up mem) (?e + 2) (v @ [CR, LF] @ zs) (sw_space_before_value, hash, i, r2\<lparr>header_name_end := Some ?e\<rparr>)"
    using colon blank by simp
  also have "\<dots> = scan (hl_step u up mem) (?e + 3) (ws @ [CR, LF] @ zs) (sw_value, hash, i, ?r3)" using w1 by (simp add: w numeral_3_eq_3)
  also have "\<dots> = Some (?e + 3 + length ws + 1, Inr (Line_done hash i (r4\<lparr>header_end := Some (?e + 3 + length ws)\<rparr>)))" using r4(1) fin by simp
  finally have "scan (hl_step u up mem) p (name @ ?tail) (hl_enter (sw_start, r)) = \<dots>" .
  then show ?thesis using r2(2) r4(2-) by (auto simp: same_name_def w)
qed

section \<open>The theorems\<close>

text \<open>
  C7: On a readable buffer the parser of a header line returns and stays inside its 32-byte copy of the
  name. When it answers \<open>NGX_OK\<close> it stopped behind a line feed; the name starts the line (or, in a response, the line behind a repeated status line),
  is nonempty and free of blanks, control characters and colons; the value lies behind the colon and blanks, is free of CR, LF and NUL,
  has no blank at either end (a line without a colon has an empty value), and between it and the line feed there are only blanks and then carriage
  returns. Unless the header is marked invalid, the name consists of letters, digits and dashes (and underscores if they are allowed), \<open>header_hash\<close>
  is the key \<open>ngx_hash_key_lc\<close> computes for it, \<open>lowcase_index\<close> is its length modulo 32, and up to that length
  \<open>lowcase_header\<close> holds it in lower case. At the end of the header the line was empty.
\<close>

theorem header_line_sound:
  assumes "pos \<le> lim" and "lim \<le> length mem" and "length (lowcase_header r) = NGX_HTTP_LC_HEADER_LEN"
  shows "\<exists>rc st r' q. ngx_http_parse_header_line u up mem (sw_start, r) pos lim = Some (rc, (st, r'), q) \<and>
    rc \<in> {NGX_OK, NGX_AGAIN, NGX_HTTP_PARSE_HEADER_DONE, NGX_HTTP_PARSE_INVALID_HEADER} \<and>
    (rc = NGX_OK \<longrightarrow> (\<exists>s e a b. header_name_start r' = Some s \<and> header_name_end r' = Some e \<and> header_start r' = Some a \<and> header_end r' = Some b \<and>
      line_begin up mem pos s \<and> s < e \<and> b < q \<and> q \<le> lim \<and> mem ! (q - 1) = LF \<and> (\<forall>c\<in>set (seg mem s e). name_byte_ok c) \<and>
      (a = e \<and> b = e \<or> value_at mem e a b) \<and> line_tail mem b (q - 1) \<and>
      (\<not> invalid_header r' \<longrightarrow> (\<forall>c\<in>set (seg mem s e). name_char u c) \<and> ngx_hash_key_lc (seg mem s e) (e - s) = Some (header_hash r') \<and>
        lowcase_index r' = (e - s) mod 32 \<and> (e - s \<le> 32 \<longrightarrow> take (e - s) (lowcase_header r') = map ngx_tolower (seg mem s e))))) \<and>
    (rc = NGX_HTTP_PARSE_HEADER_DONE \<longrightarrow> q \<le> lim \<and> mem ! (q - 1) = LF \<and> header_name_start r' = header_end r' \<and>
      (\<exists>s. header_name_start r' = Some s \<and> line_begin up mem pos s) \<and>
      (header_end r' = Some (q - 1) \<or> header_end r' = Some (q - 2) \<and> mem ! (q - 2) = CR))"
proof -
  let ?xs = "take (lim - pos) (drop pos mem)"
  have rd: "mem_read mem (int pos) (lim - pos) = Some ?xs" using assms(1,2) by (simp add: mem_read_nat)
  from scan_header [OF assms, of u up] show ?thesis
  proof (elim disjE exE conjE)
    fix s' assume "scan (hl_step u up mem) pos ?xs (hl_enter (sw_start, r)) = Some (lim, Inl s')"
    then show ?thesis by (cases "hl_leave s'") (simp add: ngx_http_parse_header_line_def rd)
  next
    fix q x assume sc: "scan (hl_step u up mem) pos ?xs (hl_enter (sw_start, r)) = Some (q, Inr x)" and post: "hl_post u mem q (Inr x)" "exit_origin up mem pos x"
    have q: "q < lim" using scan_stop [OF sc] assms(1,2) by auto
    show ?thesis
    proof (cases x)
      case (Line_done hash i r')
      then obtain s e a b where h: "name_read u mem s e hash i r'" "header_name_end r' = Some e" "header_start r' = Some a" "header_end r' = Some b"
          "line_tail mem b q" "a = e \<and> b = e \<or> value_at mem e a b" "mem ! q = LF"
        using post by (auto simp: hl_post_def header_read_def)
      have b: "b \<le> q" using h(5) by (simp add: line_tail_def)
      have "e \<le> b" using h(6) by (auto simp: value_at_def)
      then have "length (seg mem s e) = e - s" using b q assms(2) by (auto simp: seg_def)
      then have "ngx_hash_key_lc (seg mem s e) (e - s) = Some (key_of (map ngx_tolower (seg mem s e)))" using hash_keys(2) [of "e - s" "seg mem s e"] by simp
      moreover have "line_begin up mem pos s" using post(2) h(1) by (auto simp: Line_done exit_origin_def name_read_def)
      ultimately show ?thesis using h q b by (auto simp: ngx_http_parse_header_line_def rd sc Line_done hl_finish_def name_read_def)
    next
      case (Header_done r')
      then show ?thesis using post q by (auto simp: ngx_http_parse_header_line_def rd sc hl_finish_def hl_post_def exit_origin_def)
    next
      case (Bad_header r')
      then show ?thesis by (simp add: ngx_http_parse_header_line_def rd sc hl_finish_def)
    qed
  qed
qed

text \<open>
  C13: How the bytes of a header line arrive makes no difference: fed in pieces, the parser ends as on the whole
  buffer, with the same name, value, hash and lower-case copy.
\<close>

theorem header_line_resumes:
  assumes "grows pos arrivals whole lim" and "lim \<le> length whole" and "arrivals \<noteq> []"
  shows "map_option hl_view (feed (ngx_http_parse_header_line u up) s pos arrivals) = map_option hl_view (ngx_http_parse_header_line u up whole s pos lim)"
  using assms by (rule hl.feed_pieces)

text \<open>
  C11: A line of a valid name, a colon, a blank, a value without CR, LF and NUL that neither starts nor ends with
  a blank, and CR LF is accepted wherever it lies in the buffer: the pointers delimit exactly the name and
  the value, the header is not marked invalid, and \<open>header_hash\<close> is the key of the name in lower case.
\<close>

theorem header_line_accepted:
  assumes "name \<noteq> []" and "\<forall>c\<in>set name. name_char u c" and "v \<noteq> []" and "\<forall>c\<in>set v. value_byte c" and "hd v \<noteq> 32" and "last v \<noteq> 32"
    and "length (lowcase_header r) = NGX_HTTP_LC_HEADER_LEN"
    and "mem = before @ name @ [58, 32] @ v @ [CR, LF] @ after" and "length before + length name + length v + 4 \<le> lim" and "lim \<le> length mem"
  shows "\<exists>r'. ngx_http_parse_header_line u up mem (sw_start, r) (length before) lim = Some (NGX_OK, (sw_start, r'), length before + length name + length v + 4) \<and>
    header_name_start r' = Some (length before) \<and> header_name_end r' = Some (length before + length name) \<and>
    header_start r' = Some (length before + length name + 2) \<and> header_end r' = Some (length before + length name + 2 + length v) \<and>
    \<not> invalid_header r' \<and> ngx_hash_key_lc name (length name) = Some (header_hash r')"
proof -
  let ?a = "length before"
  let ?zs = "take (lim - ?a - (length name + length v + 4)) after"
  have xs: "take (lim - ?a) (drop ?a mem) = name @ [58, 32] @ v @ [CR, LF] @ ?zs"
    using assms(9) by (auto simp: assms(8) take_append take_Cons' numeral_eq_Suc add.assoc)
  then have rd: "mem_read mem (int ?a) (lim - ?a) = Some (name @ [58, 32] @ v @ [CR, LF] @ ?zs)"
    using assms(9,10) by (simp add: mem_read_nat)
  obtain hash i r' where sc: "scan (hl_step u up mem) ?a (name @ [58, 32] @ v @ [CR, LF] @ ?zs) (hl_enter (sw_start, r)) =
      Some (?a + length name + 2 + length v + 1, Inr (Line_done hash i r'))"
    and r': "header_name_start r' = Some ?a" "\<not> invalid_header r'" "header_name_end r' = Some (?a + length name)" "header_start r' = Some (?a + length name + 2)"
      "header_end r' = Some (?a + length name + 2 + length v)"
    using scan_header_text [OF assms(1-7)] by blast
  have "hl_post u mem (?a + length name + 2 + length v + 1) (Inr (Line_done hash i r'))"
    using scan_header [of ?a lim mem r u up] assms(7,9,10) sc by (auto simp: xs)
  then have "hash = key_of (map ngx_tolower (seg mem ?a (?a + length name)))" using r' by (auto simp: hl_post_def header_read_def name_read_def)
  moreover have "seg mem ?a (?a + length name) = name" by (simp add: seg_def assms(8))
  moreover have "ngx_http_parse_header_line u up mem (sw_start, r) ?a lim =
      Some (NGX_OK, (sw_start, r'\<lparr>header_hash := hash, lowcase_index := i\<rparr>), ?a + length name + length v + 4)"
    unfolding ngx_http_parse_header_line_def rd bind.simps sc by (simp add: hl_finish_def)
  ultimately show ?thesis using r' hash_keys(2) [of "length name" name] by auto
qed

section \<open>Witnesses\<close>

definition header0 :: ngx_http_header where
  "header0 = \<lparr>header_hash = 0, lowcase_index = 0, lowcase_header = replicate 32 0, header_name_start = NULL, header_name_end = NULL, header_start = NULL,
     header_end = NULL, invalid_header = False\<rparr>"

definition te_x :: bytes where
  \<comment> \<open>\<open>Te: x\<close>\<close>
  "te_x = [84, 101, 58, 32, 120, 13, 10]"

lemma header_line_sound_witness:
  "\<exists>r'. ngx_http_parse_header_line False True te_x (sw_start, header0) 0 7 = Some (NGX_OK, (sw_start, r'), 7) \<and> header_name_start r' = Some 0 \<and>
    header_name_end r' = Some 2 \<and> header_start r' = Some 4 \<and> header_end r' = Some 5 \<and> value_at te_x 2 4 5 \<and> line_tail te_x 5 6"
proof -
  have "map_option (\<lambda>(rc, (st, r'), q). (rc, st, q, header_name_start r', header_name_end r', header_start r', header_end r'))
      (ngx_http_parse_header_line False True te_x (sw_start, header0) 0 7) = Some (NGX_OK, sw_start, 7, Some 0, Some 2, Some 4, Some 5)" by code_simp
  then show ?thesis using header_line_sound [of 0 7 te_x header0 False True] by (auto simp: te_x_def header0_def)
qed

lemma header_line_resumes_witness:
  "map_option hl_view (feed (ngx_http_parse_header_line False False) (sw_start, header0) 0 [([84, 0], 1), ([84, 101], 2)]) =
    map_option hl_view (ngx_http_parse_header_line False False [84, 101] (sw_start, header0) 0 2)"
  using header_line_resumes [of 0 "[([84, 0], 1), ([84, 101], 2)]" "[84, 101]" 2 False False] by simp

lemma header_line_accepted_witness:
  "\<exists>r'. ngx_http_parse_header_line False False te_x (sw_start, header0) 0 7 = Some (NGX_OK, (sw_start, r'), 7) \<and>
    header_start r' = Some 4 \<and> header_end r' = Some 5 \<and> \<not> invalid_header r'"
  using header_line_accepted [of "[84, 101]" False "[120]" header0 te_x "[]" "[]" 7 False]
  by (auto simp: te_x_def header0_def name_char_def value_byte_def)

end
