(* ===== verification/Spec2Isabelle.thy ===== *)
theory Spec2Isabelle
  imports Circbuf Filo Slist Workqueue_Live Workqueue_Destroy Strlib Disjoint_Set Bitops Hashmap Crc32 Slab Ngx_Radix_Table Huffman_Encode
    Ngx_Base64 Ngx_Escape Ngx_Numbers Ngx_Utf8
    Ngx_Http_Chunked_Filter Ngx_Http_Request_Uri Ngx_Http_Header_Line_Spec
begin

text \<open>
  \<^bold>\<open>A verified model of the C sources of skyc\<close>

  The repository collects several C code bases. The development covers, in two parts, the ones that
  carry logic of their own.

  \<^bold>\<open>Part I\<close> is the utility library \<^verbatim>\<open>src/utils\<close>: containers, string utilities and bit operations that the
  rest of that library is written on.

  \<^bold>\<open>Part II\<close> is nginx's core (\<^verbatim>\<open>src/nginx/src\<close>): its HPACK Huffman coder, its radix tree, the codecs of
  its string library and the parsers of HTTP requests.

  \<^bold>\<open>Conventions.\<close> A C function is a HOL function that returns an \<open>option\<close>: \<open>None\<close> stands for undefined
  behaviour (an access outside an object, a null dereference, a signed overflow, a failed assertion)
  or, for the loops written as \<^theory_text>\<open>partial_function\<close>, for a loop that does not end. Error codes are
  ordinary results. A theorem that says the model is \<open>Some\<close> therefore says that the code is safe and
  ends. \<^verbatim>\<open>int\<close> arithmetic is checked for overflow (\<open>cint\<close>), \<^verbatim>\<open>size_t\<close> arithmetic wraps at \<open>2^64\<close>, fixed
  width integers are words. Allocation in \<^verbatim>\<open>src/utils\<close> goes through the do-or-die wrappers of
  \<^verbatim>\<open>memory.c\<close>, so it has no failure branch.

  \<^bold>\<open>Theories.\<close>

  \<^item> \<^verbatim>\<open>Prelude\<close>: C integers, checked memory accesses, buffers of fixed-size slots, shared list lemmas.

  \<^item> \<^verbatim>\<open>Containers\<close>: the contracts \<open>container\<close>, \<open>fifo\<close> and \<open>lifo\<close> as locales, with the theorem that every
    sequence of operations behaves like the list. They are interpreted in \<^verbatim>\<open>Circbuf\<close> (the byte-level
    ring buffer of \<^verbatim>\<open>circbuf.c\<close>), \<^verbatim>\<open>Filo\<close> (the array stack of \<^verbatim>\<open>filo.c\<close>), \<^verbatim>\<open>Queue\<close> (\<^verbatim>\<open>queue.c\<close> on the doubly
    linked list) and \<^verbatim>\<open>Slist\<close> (\<^verbatim>\<open>stack.c\<close> on the singly linked list).

  \<^item> \<^verbatim>\<open>Linked_List\<close>, \<^verbatim>\<open>Slist\<close>: the linked lists of \<^verbatim>\<open>list.c\<close> over an explicit heap of nodes, with the
    well-formedness predicates \<open>is_dll\<close> and \<open>is_sll\<close> that every operation preserves.

  \<^item> \<^verbatim>\<open>Workqueue\<close>, \<^verbatim>\<open>Workqueue_Inv\<close>, \<^verbatim>\<open>Workqueue_Status\<close>, \<^verbatim>\<open>Workqueue_Live\<close>, \<^verbatim>\<open>Workqueue_Destroy\<close>: the thread pool of \<^verbatim>\<open>workqueue.c\<close>
    as interleaved threads over the linked queue, a mutex and the event pipes (\<^verbatim>\<open>event.c\<close>, \<open>flush_fd\<close> of \<^verbatim>\<open>fdutils.c\<close>). The runs
    are an inductive relation; by induction on it the mutex excludes, the backlog stays a queue in the sense of the contract
    \<open>fifo\<close>, every work is in one place and its status is truthful unless it is cancelled. A woken worker is shown to
    drain the backlog; the situations in which a wake-up is lost are shown for every queue. \<^verbatim>\<open>Workqueue_Destroy\<close> adds which of
    the shared objects still exist and all of \<open>workqueue_destroy\<close>, and says exactly which steps are undefined: those of
    threads that run on while the queue is being destroyed, and an overflow of a time. The runs of \<^verbatim>\<open>Workqueue_Status\<close> and \<^verbatim>\<open>Workqueue_Live\<close>
    follow \<open>workqueue_destroy\<close> up to the end of its flush. Every access to a shared variable is one step; the C standard calls the
    unlocked ones data races.

  \<^item> \<^verbatim>\<open>Strlib\<close>: the string objects of \<^verbatim>\<open>strlib.c\<close>, whose operations refine operations on a byte sequence with a
    capacity, prints that do not fit included.

  \<^item> \<^verbatim>\<open>Disjoint_Set\<close>: union-find of \<^verbatim>\<open>disjoint_set.c\<close> with path compression and union by rank; the
    invariant \<open>ds_ok\<close> bounds the ranks, which gives termination of the unbounded loops, and the
    connectivity theorem relates a run of unions to the equivalence closure of the merged pairs.

  \<^item> \<^verbatim>\<open>Strutils\<close>: the string functions of \<^verbatim>\<open>strutils.c\<close> on byte arrays with a terminator.

  \<^item> \<^verbatim>\<open>Bitops\<close>: powers of two, bit reversal and byte order from \<^verbatim>\<open>utils.c\<close>, \<^verbatim>\<open>utils.h\<close> and \<^verbatim>\<open>byteorder.h\<close>.

  \<^item> \<^verbatim>\<open>Dictionary\<close>, \<^verbatim>\<open>Hashmap\<close>: the contract \<open>dict\<close> of a key/value container and its interpretation on the
    chained hash map of \<^verbatim>\<open>hashmap.c\<close>, rehashing and iteration included. The bound \<open>2^53\<close> on the number of
    items is where the code's floating-point load factor stops being exact. The loop over the iterator is run with
    \<open>count + 1\<close> calls of fuel, which the theorem shows to be enough.

  \<^item> \<^verbatim>\<open>Endian\<close>, \<^verbatim>\<open>Crc32_Tables\<close>, \<^verbatim>\<open>Crc32\<close>: little-endian words in byte buffers, and the checksums of
    \<^verbatim>\<open>crc32.c\<close>. The tables are shown to be the linear maps of the bitwise definition, from which the
    slicing-by-8 routine is shown equal to it for every alignment of the buffer and both byte orders.

  \<^item> \<^verbatim>\<open>Slab\<close>: the slab allocator of \<^verbatim>\<open>slab.c\<close> over the bytes of its arena. A client state pairs the arena
    with the blocks it holds and what it wrote to them; the blocks stay disjoint and keep their contents
    along every sequence of allocations, releases and writes.

  \<^item> \<^verbatim>\<open>Huffman_Tables\<close>, \<^verbatim>\<open>Huffman_Check\<close>, \<^verbatim>\<open>Huffman\<close>, \<^verbatim>\<open>Huffman_Encode\<close>: nginx's HPACK Huffman coder. The
    4096 entries of the decoder's transition table are checked one by one against the code table, and
    from that the decoder is shown to decide the Huffman language and to invert the encoder.

  \<^item> \<^verbatim>\<open>Prefix_Table\<close>, \<^verbatim>\<open>Ngx_Radix\<close>, \<^verbatim>\<open>Ngx_Radix_Map\<close>, \<^verbatim>\<open>Ngx_Radix_Keys\<close>, \<^verbatim>\<open>Ngx_Radix_Table\<close>: the radix tree of
    \<^verbatim>\<open>ngx_radix_tree.c\<close>, for IPv4 and IPv6 keys, over a heap of nodes with the free list and the page
    allocator. \<^verbatim>\<open>Prefix_Table\<close> states the contract \<open>prefix_table\<close> (insertion and deletion of a prefix,
    lookup of the longest match), with the operations that may be undefined as a parameter; it is interpreted once for each key width,
    and the runs of operations are shown to answer as the finite map from prefixes to values, up to the deletion of
    \<open>/0\<close> from a tree without a longer prefix and, for IPv6, a lookup in a buffer of exactly sixteen bytes.

  \<^item> \<^verbatim>\<open>Ngx_Output\<close>, \<^verbatim>\<open>Ngx_Base64\<close>, \<^verbatim>\<open>Ngx_Escape\<close>, \<^verbatim>\<open>Ngx_Numbers\<close>, \<^verbatim>\<open>Ngx_Utf8\<close>: the codecs of \<^verbatim>\<open>ngx_string.c\<close> over a
    shared model of an output cursor: Base64, URI, JSON and HTML escaping with the round trips against
    the respective notation, the number readers and the number printer of the formatted output, and
    UTF-8.

  \<^item> \<^verbatim>\<open>Ngx_Core\<close>, \<^verbatim>\<open>Ngx_Scan\<close>, \<^verbatim>\<open>Ngx_Hash\<close>: the return codes and signed arithmetic of nginx, the loop that all
    protocol parsers are built around, and the hash keys of \<^verbatim>\<open>ngx_hash.c\<close>. \<^verbatim>\<open>Ngx_Scan\<close> states the contract
    \<open>resumable\<close> (a parser fed in pieces ends as on the whole input) and shows in the locale \<open>scan_parser\<close> that
    the shape of the parsers gives it; it is interpreted for the request line and the header line.

  \<^item> \<^verbatim>\<open>Ngx_Http_Request_Line\<close>, \<^verbatim>\<open>Ngx_Http_Request_Line_Spec\<close>: \<open>ngx_http_parse_request_line\<close> with its 25 states and
    both sets of comparison macros. The invariant of the loop says for each state what the bytes read so
    far look like; from it the parser is total, what it accepts has the claimed method, URI and version down to the line feed, and a URI
    it does not mark for normalisation has no empty, dotted or quoted parts. Well-formed lines are accepted.

  \<^item> \<^verbatim>\<open>Ngx_Http_Complex_Uri\<close>, \<^verbatim>\<open>Ngx_Http_Complex_Uri_Spec\<close>, \<^verbatim>\<open>Ngx_Http_Request_Uri\<close>: \<open>ngx_http_parse_complex_uri\<close>, which
    decodes and normalises a path in one pass over its own output, and \<open>ngx_http_process_request_uri\<close>, which
    calls it for the URIs that the request line parser marks. The reference decodes first and resolves the
    segments on a stack of directories afterwards. The theorems span both parsers: what an accepted
    request line is turned into is the path of the reference, and it never leaves the root.

  \<^item> \<^verbatim>\<open>Ngx_Http_Header_Line\<close>, \<^verbatim>\<open>Ngx_Http_Header_Line_Spec\<close>: the same for \<open>ngx_http_parse_header_line\<close>, whose running
    hash is shown to be the key \<open>ngx_hash_key_lc\<close> computes for the name.

  \<^item> \<^verbatim>\<open>Ngx_Http_Chunked\<close>, \<^verbatim>\<open>Ngx_Http_Chunked_Body\<close>, \<^verbatim>\<open>Ngx_Http_Chunked_Filter\<close>: the parser of the chunked coding and
    the request body filter that joins chunks in place. A session is a sequence of calls of the filter, each with a chain of buffers and the state
    that the call before left in the request. The filter is shown to deliver the body that a reference decoder finds, however it is cut into calls and
    buffers, as long as it ends in the last buffer, and to answer 400 and 413 only where the reference justifies it, for any size
    limit; the inner loop, which C writes as \<^verbatim>\<open>for ( ;; )\<close>, is a partial function whose termination is part of the theorems.

  \<^bold>\<open>Not modelled.\<close> Of \<^verbatim>\<open>src/utils\<close>: the wrappers of system calls (sockets, serial lines, processes, files, logging, random numbers), the channels,
  which are a table of callbacks over such transports, the argument parser, which drives \<^verbatim>\<open>getopt_long\<close> and exits, the packet capture
  generator, which prints to a file, and the memory wrappers. Of nginx: the red-black tree, the static hash tables, the format interpreter, the parsers of
  responses and of the configuration, and everything that is input and output (modules, event loop, upstreams). The other code
  bases of the repository (\<^verbatim>\<open>haproxy\<close>, \<^verbatim>\<open>melon\<close>, \<^verbatim>\<open>apue.3e\<close>, \<^verbatim>\<open>linenoise\<close> and the small experiments) are programs of their own.
  The \<^verbatim>\<open>int\<close> indices of the string functions of \<^verbatim>\<open>src/utils\<close> are natural numbers, which is exact for objects below \<open>2^30\<close> bytes. Debug
  logging has no effect on the results and is left out.
\<close>

end
